(* ===== verification/Prelude.thy ===== *)
theory Prelude
  imports Complex_Main "HOL-Library.Word" "HOL-Library.Sublist"
begin

section \<open>Shared types, byte access and automation\<close>

text \<open>
  What every component of the development uses: the machine integers of the C code, the
  shift-and-or readers that the protocol code builds its multi-byte fields with, C's rounding
  and truncation, and bounded string copies (\<open>snprintf\<close> into a fixed buffer). The lemmas here
  are the ones about lists, words and rounding that several components share; the collection
  \<open>word_reads\<close> turns a field read into arithmetic on \<open>uint\<close> values.

  C's \<open>double\<close> and \<open>float\<close> are modelled as exact rationals (\<open>cdouble\<close>): every quantity the code
  computes is a byte or word field scaled by a decimal constant, and the model does not carry
  the IEEE rounding error of these scalings.
\<close>

unbundle bit_operations_syntax

type_synonym byte = "8 word"
type_synonym u16 = "16 word"
type_synonym u32 = "32 word"
type_synonym u64 = "64 word"
type_synonym cdouble = rat

named_theorems word_reads "field reads as arithmetic on uint values"

subsection \<open>Multi-byte fields\<close>

definition be16 :: "byte \<Rightarrow> byte \<Rightarrow> u16" where
  "be16 hi lo = push_bit 8 (ucast hi) OR ucast lo"

definition le32 :: "byte \<Rightarrow> byte \<Rightarrow> byte \<Rightarrow> byte \<Rightarrow> u32" where
  "le32 b0 b1 b2 b3 =
     ucast b0 OR push_bit 8 (ucast b1) OR push_bit 16 (ucast b2) OR push_bit 24 (ucast b3)"

definition join32 :: "u16 \<Rightarrow> u16 \<Rightarrow> u32" where
  "join32 hi lo = push_bit 16 (ucast hi) OR ucast lo"

lemma bit_byte_out [simp]: "8 \<le> n \<Longrightarrow> \<not> bit (b::byte) n"
  using bit_imp_le_length [of b n] by auto

lemma bit_u16_out [simp]: "16 \<le> n \<Longrightarrow> \<not> bit (w::u16) n"
  using bit_imp_le_length [of w n] by auto

lemma uint_be16 [word_reads]: "uint (be16 hi lo) = 256 * uint hi + uint lo"
proof -
  have "push_bit 8 (ucast hi :: u16) OR ucast lo = push_bit 8 (ucast hi) + ucast lo"
    by (rule disjunctive_add_eq_or [symmetric]) (auto simp: bit_eq_iff bit_simps)
  moreover have "uint (push_bit 8 (ucast hi :: u16) + ucast lo) = 256 * uint hi + uint lo"
    using uint_lt2p [of hi] uint_lt2p [of lo]
    by (simp add: push_bit_eq_mult uint_up_ucast is_up uint_word_ariths)
  ultimately show ?thesis by (simp add: be16_def)
qed

lemma uint_join32 [word_reads]: "uint (join32 hi lo) = 65536 * uint hi + uint lo"
proof -
  have "push_bit 16 (ucast hi :: u32) OR ucast lo = push_bit 16 (ucast hi) + ucast lo"
    by (rule disjunctive_add_eq_or [symmetric]) (auto simp: bit_eq_iff bit_simps)
  moreover have "uint (push_bit 16 (ucast hi :: u32) + ucast lo) = 65536 * uint hi + uint lo"
    using uint_lt2p [of hi] uint_lt2p [of lo]
    by (simp add: push_bit_eq_mult uint_up_ucast is_up uint_word_ariths)
  ultimately show ?thesis by (simp add: join32_def)
qed

lemma uint_le32 [word_reads]:
  "uint (le32 b0 b1 b2 b3) = uint b0 + 256 * uint b1 + 65536 * uint b2 + 16777216 * uint b3"
proof -
  have "le32 b0 b1 b2 b3 =
      ((ucast b0 + push_bit 8 (ucast b1)) + push_bit 16 (ucast b2)) + push_bit 24 (ucast b3)"
    unfolding le32_def
    by (subst disjunctive_add_eq_or, (auto simp: bit_eq_iff bit_simps disjunctive_add_eq_or)[1])+
      (simp add: or.assoc)
  then show ?thesis
    using uint_lt2p [of b0] uint_lt2p [of b1] uint_lt2p [of b2] uint_lt2p [of b3]
    by (simp add: push_bit_eq_mult uint_up_ucast is_up uint_word_ariths)
qed

subsection \<open>Rounding and truncation\<close>

text \<open>C's \<open>round\<close> rounds half away from zero; a cast to an integer type truncates towards zero.\<close>

definition c_round :: "cdouble \<Rightarrow> int" where
  "c_round x = (if 0 \<le> x then \<lfloor>x + 1/2\<rfloor> else - \<lfloor>- x + 1/2\<rfloor>)"

definition c_trunc :: "cdouble \<Rightarrow> int" where
  "c_trunc x = (if 0 \<le> x then \<lfloor>x\<rfloor> else - \<lfloor>- x\<rfloor>)"

lemma c_round_of_int [simp]: "c_round (of_int z) = z"
  by (auto simp: c_round_def floor_eq_iff)

lemma c_trunc_of_int [simp]: "c_trunc (of_int z) = z"
  by (simp add: c_trunc_def)

lemma c_round_mono: "x \<le> y \<Longrightarrow> c_round x \<le> c_round y"
proof -
  assume le: "x \<le> y"
  consider "0 \<le> x" | "x < 0" "0 \<le> y" | "y < 0" using le by linarith
  then show ?thesis
  proof cases
    case 2
    then have "0 \<le> \<lfloor>1/2 - x\<rfloor>" and "0 \<le> \<lfloor>y + 1/2\<rfloor>" by simp_all
    then have "- \<lfloor>1/2 - x\<rfloor> \<le> \<lfloor>y + 1/2\<rfloor>" by linarith
    with 2 show ?thesis by (simp add: c_round_def)
  qed (use le in \<open>auto simp: c_round_def intro: floor_mono\<close>)
qed

lemma c_round_error: "\<bar>of_int (c_round x) - x\<bar> \<le> 1/2"
proof -
  have fl: "of_int \<lfloor>y\<rfloor> \<le> y \<and> y < of_int \<lfloor>y\<rfloor> + 1" for y :: rat
    using floor_correct [of y] by simp
  show ?thesis
    using fl [of "x + 1/2"] fl [of "- x + 1/2"] unfolding c_round_def abs_le_iff
    by (cases "0 \<le> x") (simp_all only: if_True if_False of_int_minus, linarith+)
qed

subsection \<open>Prefixes\<close>

lemma sum_list_update_add:
  fixes f :: "'a \<Rightarrow> 'b :: comm_monoid_add"
  shows "i < length xs \<Longrightarrow> sum_list (map f (xs[i := x])) + f (xs ! i) = sum_list (map f xs) + f x"
proof (induction xs arbitrary: i)
  case (Cons y xs)
  then show ?case by (cases i) (auto simp: add_ac)
qed simp

lemma take_prefix_eq: "prefix xs ys \<Longrightarrow> n \<le> length xs \<Longrightarrow> take n ys = take n xs"
  by (auto simp: prefix_def)

subsection \<open>Bounded string copies\<close>

text \<open>
  A C string held in a buffer of \<open>cap\<close> bytes is the list of its characters without the
  terminating NUL. \<open>snprintf (out, cap, "%s", s)\<close> keeps the first \<open>cap - 1\<close> of them.
\<close>

definition c_copy :: "nat \<Rightarrow> string \<Rightarrow> string" where
  "c_copy cap s = take (cap - 1) s"

lemma length_c_copy [simp]: "length (c_copy cap s) = min (cap - 1) (length s)"
  by (simp add: c_copy_def min.commute)

lemma c_copy_fits [simp]: "length s < cap \<Longrightarrow> c_copy cap s = s"
  by (simp add: c_copy_def)

lemma prefix_c_copy: "prefix (c_copy cap s) s"
  by (simp add: c_copy_def take_is_prefix)

subsection \<open>Splitting text\<close>

text \<open>The pieces between delimiter characters, the empty ones included.\<close>

fun split_on :: "(char \<Rightarrow> bool) \<Rightarrow> string \<Rightarrow> string list" where
  "split_on d [] = [[]]"
| "split_on d (c # cs) =
     (if d c then [] # split_on d cs
      else case split_on d cs of [] \<Rightarrow> [[c]] | t # ts \<Rightarrow> (c # t) # ts)"

lemma split_on_word:
  "\<forall>c \<in> set w. \<not> d c \<Longrightarrow> split_on d (w @ x # rest) = (if d x then w # split_on d rest else split_on d (w @ x # rest))"
  by (induction w) auto

lemma split_on_last: "\<forall>c \<in> set w. \<not> d c \<Longrightarrow> split_on d w = [w]"
  by (induction w) auto

end
