(* ===== verification/XdProto.thy ===== *)
theory XdProto
  imports Prelude
begin

section \<open>The Tianpower BMS protocol (src/xd/bms_proto.c)\<close>

text \<open>
  Frames on the RS485 line are \<open>SOI addr cmd LEN data.. CHK EOI\<close>. The theory models the frame
  builder and its check byte, the non-blocking request/response machine \<open>bms_txrx_step\<close>, the
  blocking \<open>bms_txrx\<close>, the parser of the realtime payload and the flag table. What the kernel
  answers to \<open>write\<close>, \<open>read\<close> and the clock is an input of each step, so that every interleaving
  of short reads, \<open>EINTR\<close> and \<open>EAGAIN\<close> is a value of the model.
\<close>

subsection \<open>Frame primitives\<close>

definition SOI :: byte where "SOI = 0x7E"
definition EOI :: byte where "EOI = 0x0D"
definition BMS_MAX_FRAME :: nat where "BMS_MAX_FRAME = 512"
definition BMS_MAX_PAYLOAD :: nat where "BMS_MAX_PAYLOAD = 256"
definition BMS_MAX_CELLS :: nat where "BMS_MAX_CELLS = 32"
definition BMS_MAX_TEMPS :: nat where "BMS_MAX_TEMPS = 8"

fun bms_check_loop :: "byte list \<Rightarrow> byte \<Rightarrow> u32 \<Rightarrow> byte \<times> u32" where
  "bms_check_loop [] x s = (x, s)"
| "bms_check_loop (b # bs) x s = bms_check_loop bs (x XOR b) (s + ucast b)"

definition bms_check :: "byte list \<Rightarrow> byte" where
  "bms_check buf = (case bms_check_loop buf 0 0 of (x, s) \<Rightarrow> ucast ((ucast x XOR s) AND 0xFF))"

definition bms_build_frame :: "byte \<Rightarrow> byte \<Rightarrow> byte list \<Rightarrow> byte list" where
  "bms_build_frame addr cmd data =
     (let body = [SOI, addr, cmd, of_nat (length data)] @ data
      in body @ [bms_check body, EOI])"

fun baud_to_speed :: "int \<Rightarrow> int option" where
  "baud_to_speed baud =
     (if baud \<in> {1200, 2400, 4800, 9600, 19200, 38400, 57600, 115200} then Some baud else None)"

subsection \<open>The non-blocking request/response machine\<close>

datatype bms_io = BMS_IO_DONE | BMS_IO_NEED_READ | BMS_IO_NEED_WRITE | BMS_IO_NEED_TIME
  | BMS_IO_TIMEOUT | BMS_IO_ERROR

text \<open>\<open>st->err\<close>, one constructor for each text the code formats.\<close>

datatype bms_err = NoErr | DataTooLong nat | TimeoutInPhase int | WriteError | ReadHeadError
  | HeadTimeout int | BodyTimeout int
  | BadSoi byte | AddrMismatch byte byte | CmdMismatch byte byte | FrameTooLarge byte
  | ReadBodyError | ChecksumMismatch byte byte | BadEoi byte | InvalidPhase int

text \<open>
  \<open>rx_head\<close> and \<open>rx_tail\<close> hold the bytes received so far: their lengths are \<open>rx_head_got\<close> and
  \<open>rx_tail_got\<close>. \<open>tx\<close> holds the frame, its length is \<open>tx_len\<close>; \<open>body\<close> holds \<open>body_len\<close> bytes.
\<close>

record bms_txrx_state =
  tx_addr :: byte
  tx_cmd :: byte
  tx_timeout :: cdouble
  deadline :: cdouble
  settle_until :: cdouble
  tx :: "byte list"
  tx_sent :: nat
  rx_head :: "byte list"
  rx_tail :: "byte list"
  rx_tail_need :: nat
  tx_phase :: int
  rx_body :: "byte list"
  tx_err :: bms_err

text \<open>
  The kernel's side of one call of \<open>bms_txrx_step\<close>: the three clock readings it may take, what
  successive \<open>write\<close>s accept and what successive \<open>read\<close>s find. An exhausted list means the call
  would block (\<open>EAGAIN\<close>). Data the code does not take in one \<open>read\<close> stays for the next.
\<close>

datatype wr_event = WrAccept nat | WrEintr | WrAgain | WrFail
datatype rd_event = RdData "byte list" | RdEintr | RdAgain | RdFail

record bms_env =
  now0 :: cdouble
  now1 :: cdouble
  now2 :: cdouble
  wr :: "wr_event list"
  rd :: "rd_event list"

datatype xfer = Full | WouldBlock | Failed

fun write_loop :: "nat \<Rightarrow> nat \<Rightarrow> wr_event list \<Rightarrow> xfer \<times> nat \<times> wr_event list" where
  "write_loop len sent [] = (if len \<le> sent then (Full, sent, []) else (WouldBlock, sent, []))"
| "write_loop len sent (e # es) =
     (if len \<le> sent then (Full, sent, e # es)
      else case e of
        WrAccept k \<Rightarrow> (if 0 < k then write_loop len (sent + min k (len - sent)) es
                      else (Failed, sent, es))
      | WrEintr \<Rightarrow> write_loop len sent es
      | WrAgain \<Rightarrow> (WouldBlock, sent, es)
      | WrFail \<Rightarrow> (Failed, sent, es))"

fun read_loop :: "nat \<Rightarrow> byte list \<Rightarrow> rd_event list \<Rightarrow> xfer \<times> byte list \<times> rd_event list" where
  "read_loop need got [] = (if need \<le> length got then (Full, got, []) else (WouldBlock, got, []))"
| "read_loop need got (e # es) =
     (if need \<le> length got then (Full, got, e # es)
      else case e of
        RdData bs \<Rightarrow>
          (if bs = [] then (WouldBlock, got, es)
           else if length bs \<le> need - length got then read_loop need (got @ bs) es
           else (Full, got @ take (need - length got) bs,
                 RdData (drop (need - length got) bs) # es))
      | RdEintr \<Rightarrow> read_loop need got es
      | RdAgain \<Rightarrow> (WouldBlock, got, es)
      | RdFail \<Rightarrow> (Failed, got, es))"

definition bms_txrx_init :: "byte \<Rightarrow> byte \<Rightarrow> byte list \<Rightarrow> cdouble \<Rightarrow> cdouble \<Rightarrow> cdouble \<Rightarrow> bms_txrx_state" where
  "bms_txrx_init addr cmd data timeout settle now =
     (let to = (if 0 < timeout then timeout else 3/2);
          st = \<lparr>tx_addr = addr, tx_cmd = cmd, tx_timeout = to,
                deadline = now + to + settle + 1/2, settle_until = 0,
                tx = [], tx_sent = 0, rx_head = [], rx_tail = [], rx_tail_need = 0,
                tx_phase = 0, rx_body = [], tx_err = NoErr\<rparr>
      in if 0xFF < length data
         then st\<lparr>tx_err := DataTooLong (length data), tx_phase := - 1\<rparr>
         else st\<lparr>tx := bms_build_frame addr cmd data, settle_until := settle\<rparr>)"

type_synonym bms_out = "bms_io \<times> bms_txrx_state \<times> bms_env"

text \<open>
  Each phase returns either the result of the call (\<open>Inl\<close>) or the state that falls through to
  the next phase (\<open>Inr\<close>).
\<close>

definition txrx_write :: "bms_txrx_state \<Rightarrow> bms_env \<Rightarrow> bms_out + bms_txrx_state \<times> bms_env" where
  "txrx_write st env =
     (if tx_phase st = 0 then
        (case write_loop (length (tx st)) (tx_sent st) (wr env) of (x, n, es) \<Rightarrow>
           (let st' = st\<lparr>tx_sent := n\<rparr>; env' = env\<lparr>wr := es\<rparr>
            in case x of
                 WouldBlock \<Rightarrow> Inl (BMS_IO_NEED_WRITE, st', env')
               | Failed \<Rightarrow> Inl (BMS_IO_ERROR, st'\<lparr>tx_err := WriteError\<rparr>, env')
               | Full \<Rightarrow> Inr (st'\<lparr>settle_until := now1 env + settle_until st', tx_phase := 1\<rparr>, env')))
      else Inr (st, env))"

definition txrx_settle :: "bms_txrx_state \<Rightarrow> bms_env \<Rightarrow> bms_out + bms_txrx_state \<times> bms_env" where
  "txrx_settle st env =
     (if tx_phase st = 1 then
        (if now2 env < settle_until st then Inl (BMS_IO_NEED_TIME, st, env)
         else Inr (st\<lparr>tx_phase := 2\<rparr>, env))
      else Inr (st, env))"

definition txrx_head :: "bms_txrx_state \<Rightarrow> bms_env \<Rightarrow> bms_out + bms_txrx_state \<times> bms_env" where
  "txrx_head st env =
     (if tx_phase st = 2 then
        (case read_loop 4 (rx_head st) (rd env) of (x, got, es) \<Rightarrow>
           (let st' = st\<lparr>rx_head := got\<rparr>; env' = env\<lparr>rd := es\<rparr>;
                err = (\<lambda>e. Inl (BMS_IO_ERROR, st'\<lparr>tx_err := e\<rparr>, env'))
            in case x of
                 WouldBlock \<Rightarrow> Inl (BMS_IO_NEED_READ, st', env')
               | Failed \<Rightarrow> err ReadHeadError
               | Full \<Rightarrow>
                   (if got ! 0 \<noteq> SOI then err (BadSoi (got ! 0))
                    else if got ! 1 \<noteq> tx_addr st then err (AddrMismatch (got ! 1) (tx_addr st))
                    else if got ! 2 \<noteq> tx_cmd st then err (CmdMismatch (got ! 2) (tx_cmd st))
                    else if BMS_MAX_FRAME < unat (got ! 3) + 6 then err (FrameTooLarge (got ! 3))
                    else Inr (st'\<lparr>rx_tail_need := unat (got ! 3) + 2, tx_phase := 3\<rparr>, env'))))
      else Inr (st, env))"

definition txrx_tail :: "bms_txrx_state \<Rightarrow> bms_env \<Rightarrow> bms_out + bms_txrx_state \<times> bms_env" where
  "txrx_tail st env =
     (if tx_phase st = 3 then
        (case read_loop (rx_tail_need st) (rx_tail st) (rd env) of (x, got, es) \<Rightarrow>
           (let st' = st\<lparr>rx_tail := got\<rparr>; env' = env\<lparr>rd := es\<rparr>;
                err = (\<lambda>e. Inl (BMS_IO_ERROR, st'\<lparr>tx_err := e\<rparr>, env'))
            in case x of
                 WouldBlock \<Rightarrow> Inl (BMS_IO_NEED_READ, st', env')
               | Failed \<Rightarrow> err ReadBodyError
               | Full \<Rightarrow>
                   (let body_len = rx_tail_need st - 2;
                        want = bms_check (rx_head st @ take body_len got)
                    in if got ! body_len \<noteq> want then err (ChecksumMismatch (got ! body_len) want)
                       else if got ! (body_len + 1) \<noteq> EOI then err (BadEoi (got ! (body_len + 1)))
                       else Inl (BMS_IO_DONE,
                                 st'\<lparr>rx_body := take body_len got, tx_phase := 4\<rparr>, env'))))
      else Inr (st, env))"

definition txrx_end :: "bms_txrx_state \<Rightarrow> bms_env \<Rightarrow> bms_out" where
  "txrx_end st env =
     (if tx_phase st = 4 then (BMS_IO_DONE, st, env)
      else (BMS_IO_ERROR, st\<lparr>tx_err := InvalidPhase (tx_phase st)\<rparr>, env))"

definition bms_txrx_step :: "bms_txrx_state \<Rightarrow> bms_env \<Rightarrow> bms_out" where
  "bms_txrx_step st env =
     (if tx_phase st < 0 then (BMS_IO_ERROR, st, env)
      else if deadline st < now0 env
      then (BMS_IO_TIMEOUT, st\<lparr>tx_err := TimeoutInPhase (tx_phase st)\<rparr>, env)
      else case txrx_write st env of Inl r \<Rightarrow> r | Inr (st1, env1) \<Rightarrow>
           case txrx_settle st1 env1 of Inl r \<Rightarrow> r | Inr (st2, env2) \<Rightarrow>
           case txrx_head st2 env2 of Inl r \<Rightarrow> r | Inr (st3, env3) \<Rightarrow>
           case txrx_tail st3 env3 of Inl r \<Rightarrow> r | Inr (st4, env4) \<Rightarrow> txrx_end st4 env4)"

subsection \<open>The blocking request/response\<close>

text \<open>
  One iteration of \<open>serial_read_exact\<close> ends in one of these ways; the list exhausted means the
  deadline has passed. \<open>BlRead []\<close> is a \<open>read\<close> of zero bytes, which the loop tries again. The
  result is the bytes read, or \<open>None\<close> where the code returns \<open>-1\<close>.
\<close>

datatype bl_event = BlExpired | BlSelectEintr | BlSelectFail | BlSelectTimeout
  | BlReadEintr | BlReadFail | BlRead "byte list"

fun serial_read_exact :: "nat \<Rightarrow> byte list \<Rightarrow> bl_event list \<Rightarrow> byte list option \<times> bl_event list" where
  "serial_read_exact n got [] = (Some got, [])"
| "serial_read_exact n got (e # es) =
     (if n \<le> length got then (Some got, e # es)
      else case e of
        BlExpired \<Rightarrow> (Some got, es)
      | BlSelectEintr \<Rightarrow> serial_read_exact n got es
      | BlSelectFail \<Rightarrow> (None, es)
      | BlSelectTimeout \<Rightarrow> (Some got, es)
      | BlReadEintr \<Rightarrow> serial_read_exact n got es
      | BlReadFail \<Rightarrow> (None, es)
      | BlRead bs \<Rightarrow>
          (if length bs \<le> n - length got then serial_read_exact n (got @ bs) es
           else (Some (got @ take (n - length got) bs), BlRead (drop (n - length got) bs) # es)))"

definition read_count :: "byte list option \<Rightarrow> int" where
  "read_count r = (case r of None \<Rightarrow> - 1 | Some bs \<Rightarrow> int (length bs))"

definition bms_txrx :: "byte \<Rightarrow> byte \<Rightarrow> byte list \<Rightarrow> bool \<Rightarrow> bl_event list \<Rightarrow> bms_err + byte list" where
  "bms_txrx addr cmd data write_ok evs =
     (if 0xFF < length data then Inl (DataTooLong (length data))
      else if \<not> write_ok then Inl WriteError
      else case serial_read_exact 4 [] evs of (rh, evs1) \<Rightarrow>
        if read_count rh \<noteq> 4 then Inl (HeadTimeout (read_count rh))
        else let head = the rh; len = head ! 3 in
          if head ! 0 \<noteq> SOI then Inl (BadSoi (head ! 0))
          else if BMS_MAX_FRAME < unat len + 6 then Inl (FrameTooLarge len)
          else case serial_read_exact (unat len + 2) [] evs1 of (rr, _) \<Rightarrow>
            if read_count rr \<noteq> int (unat len + 2) then Inl (BodyTimeout (read_count rr))
            else let tail = the rr; expect = bms_check (head @ take (unat len) tail) in
              if head ! 1 \<noteq> addr then Inl (AddrMismatch (head ! 1) addr)
              else if head ! 2 \<noteq> cmd then Inl (CmdMismatch (head ! 2) cmd)
              else if tail ! (unat len + 1) \<noteq> EOI then Inl (BadEoi (tail ! (unat len + 1)))
              else if tail ! unat len \<noteq> expect then Inl (ChecksumMismatch (tail ! unat len) expect)
              else Inr (take (unat len) tail))"

subsection \<open>Strings\<close>

definition is_pad :: "byte \<Rightarrow> bool" where
  "is_pad b \<longleftrightarrow> b = 0x20 \<or> b = 0x09 \<or> b = 0x0D \<or> b = 0x0A"

text \<open>\<open>bms_read_string\<close>: up to the first NUL, trailing blanks dropped, cut to the buffer.\<close>

definition string_of_body :: "byte list \<Rightarrow> nat \<Rightarrow> byte list" where
  "string_of_body body cap =
     (let s = takeWhile (\<lambda>b. b \<noteq> 0) body;
          s = rev (dropWhile is_pad (rev s))
      in if cap < length s + 1 then take (cap - 1) s else s)"

definition bms_read_string :: "byte \<Rightarrow> byte \<Rightarrow> nat \<Rightarrow> bool \<Rightarrow> bl_event list \<Rightarrow> byte list option" where
  "bms_read_string addr cmd cap write_ok evs =
     (case bms_txrx addr cmd [] write_ok evs of
        Inl _ \<Rightarrow> None | Inr body \<Rightarrow> Some (string_of_body body cap))"

subsection \<open>Reading\<close>

fun rd_bytes :: "rd_event list \<Rightarrow> byte list" where
  "rd_bytes [] = []"
| "rd_bytes (RdData bs # es) = bs @ rd_bytes es"
| "rd_bytes (_ # es) = rd_bytes es"

fun benign :: "rd_event list \<Rightarrow> bool" where
  "benign [] = True"
| "benign (RdData bs # es) = (bs \<noteq> [] \<and> benign es)"
| "benign (RdEintr # es) = benign es"
| "benign (_ # es) = False"

lemma read_loop_bound:
  "read_loop need got evs = (x, got', es) \<Longrightarrow> length got \<le> need \<Longrightarrow>
     length got' \<le> need \<and> (x = Full \<longrightarrow> length got' = need) \<and>
     got' @ rd_bytes es = got @ rd_bytes evs"
  by (induction need got evs rule: read_loop.induct)
    (auto split: if_splits rd_event.splits)

lemma read_loop_benign:
  "benign evs \<Longrightarrow> length got \<le> need \<Longrightarrow>
   (if length got + length (rd_bytes evs) < need
    then read_loop need got evs = (WouldBlock, got @ rd_bytes evs, [])
    else \<exists>es. read_loop need got evs = (Full, take need (got @ rd_bytes evs), es) \<and> benign es \<and>
           rd_bytes es = drop (need - length got) (rd_bytes evs))"
proof (induction need got evs rule: read_loop.induct)
  case (2 need got e es)
  show ?case
  proof (cases "need \<le> length got")
    case True
    then show ?thesis using 2 by auto
  next
    case False
    then show ?thesis using 2 by (cases e) (auto split: if_splits)
  qed
qed auto

lemma read_loop_short:
  "benign evs \<Longrightarrow> length got + length (rd_bytes evs) < need \<Longrightarrow>
   read_loop need got evs = (WouldBlock, got @ rd_bytes evs, [])"
  using read_loop_benign [of evs got need] by simp

lemma read_loop_full:
  "benign evs \<Longrightarrow> length got \<le> need \<Longrightarrow> need \<le> length got + length (rd_bytes evs) \<Longrightarrow>
   \<exists>es. read_loop need got evs = (Full, take need (got @ rd_bytes evs), es) \<and> benign es \<and>
        rd_bytes es = drop (need - length got) (rd_bytes evs)"
  using read_loop_benign [of evs got need] by simp

subsection \<open>Frames\<close>

lemma length_bms_build_frame [simp]: "length (bms_build_frame a c d) = length d + 6"
  by (simp add: bms_build_frame_def Let_def)

lemma bms_frame_split:
  assumes "length head = 4" and "length tail = unat (head ! 3) + 2"
    and "head ! 0 = SOI" and "head ! 1 = a" and "head ! 2 = c"
    and "tail ! unat (head ! 3) = bms_check (head @ take (unat (head ! 3)) tail)"
    and "tail ! (unat (head ! 3) + 1) = EOI"
  shows "head @ tail = bms_build_frame a c (take (unat (head ! 3)) tail)"
proof -
  let ?n = "unat (head ! 3)"
  have head: "head = [SOI, a, c, head ! 3]"
    using assms(1,3-5) by (auto simp: list_eq_iff_nth_eq less_Suc_eq numeral_eq_Suc)
  have tail: "tail = take ?n tail @ [tail ! ?n, tail ! (?n + 1)]"
    using assms(2) by (simp add: list_eq_iff_nth_eq nth_append less_Suc_eq)
  have "of_nat (length (take ?n tail)) = head ! 3"
    using assms(2) by simp
  then show ?thesis
    using assms(6,7) head tail
    by (metis (no_types, lifting) append.assoc append_Cons append_Nil bms_build_frame_def)
qed

lemma bms_frame_parts:
  assumes "length data \<le> 255"
  shows "bms_build_frame a c data ! 0 = SOI" "bms_build_frame a c data ! Suc 0 = a"
    "bms_build_frame a c data ! 2 = c" "unat (bms_build_frame a c data ! 3) = length data"
    "take (length data) (drop 4 (bms_build_frame a c data)) = data"
    "bms_build_frame a c data ! (length data + 4) =
       bms_check (take (length data + 4) (bms_build_frame a c data))"
    "bms_build_frame a c data ! (length data + 5) = EOI"
proof -
  show "unat (bms_build_frame a c data ! 3) = length data"
    using assms by (simp add: bms_build_frame_def Let_def unat_of_nat)
qed (auto simp: bms_build_frame_def Let_def nth_append numeral_eq_Suc)


subsection \<open>The invariant of the machine\<close>

definition txrx_inv :: "bms_txrx_state \<Rightarrow> bool" where
  "txrx_inv st \<longleftrightarrow>
     length (rx_head st) \<le> 4 \<and>
     (tx_phase st \<le> 2 \<longrightarrow> rx_tail st = []) \<and>
     (3 \<le> tx_phase st \<longrightarrow>
        length (rx_head st) = 4 \<and> rx_head st ! 0 = SOI \<and> rx_head st ! 1 = tx_addr st \<and>
        rx_head st ! 2 = tx_cmd st \<and> rx_tail_need st = unat (rx_head st ! 3) + 2 \<and>
        length (rx_tail st) \<le> rx_tail_need st) \<and>
     (4 \<le> tx_phase st \<longrightarrow>
        rx_head st @ rx_tail st = bms_build_frame (tx_addr st) (tx_cmd st) (rx_body st))"

lemma txrx_inv_init: "txrx_inv (bms_txrx_init addr cmd data timeout settle now)"
  by (simp add: txrx_inv_def bms_txrx_init_def Let_def)

text \<open>What a phase may do: keep the invariant and the request, and end the call only below phase 4
  unless the exchange is done.\<close>

definition phase_ok :: "bms_txrx_state \<Rightarrow> bms_out + bms_txrx_state \<times> bms_env \<Rightarrow> bool" where
  "phase_ok st r \<longleftrightarrow>
     (case r of
        Inl (io, st', env') \<Rightarrow> txrx_inv st' \<and> tx_addr st' = tx_addr st \<and> tx_cmd st' = tx_cmd st \<and>
          (io = BMS_IO_DONE \<longrightarrow> tx_phase st' = 4)
      | Inr (st', env') \<Rightarrow> txrx_inv st' \<and> tx_addr st' = tx_addr st \<and> tx_cmd st' = tx_cmd st)"

lemma txrx_write_ok: "txrx_inv st \<Longrightarrow> phase_ok st (txrx_write st env)"
  by (auto simp: phase_ok_def txrx_write_def txrx_inv_def Let_def
      split: xfer.splits prod.splits)

lemma txrx_settle_ok: "txrx_inv st \<Longrightarrow> phase_ok st (txrx_settle st env)"
  by (auto simp: phase_ok_def txrx_settle_def txrx_inv_def)

lemma txrx_head_ok: "txrx_inv st \<Longrightarrow> phase_ok st (txrx_head st env)"
  using read_loop_bound [of 4 "rx_head st" "rd env"]
  by (auto simp: phase_ok_def txrx_head_def txrx_inv_def Let_def split: xfer.splits prod.splits)

lemma txrx_tail_ok:
  assumes inv: "txrx_inv st"
  shows "phase_ok st (txrx_tail st env)"
proof (cases "tx_phase st = 3")
  case False
  then show ?thesis using inv by (simp add: phase_ok_def txrx_tail_def)
next
  case True
  let ?n = "unat (rx_head st ! 3)"
  obtain x got es where rl: "read_loop (?n + 2) (rx_tail st) (rd env) = (x, got, es)"
    by (metis prod_cases3)
  have need: "rx_tail_need st = ?n + 2" using inv True by (simp add: txrx_inv_def)
  have b: "length got \<le> ?n + 2" "x = Full \<Longrightarrow> length got = ?n + 2"
    using read_loop_bound [OF rl] inv True by (simp_all add: txrx_inv_def)
  have keep: "txrx_inv (st\<lparr>rx_tail := got\<rparr>)" "txrx_inv (st\<lparr>rx_tail := got, tx_err := e\<rparr>)" for e
    using inv True b(1) by (simp_all add: txrx_inv_def)
  have "txrx_inv (st\<lparr>rx_tail := got, rx_body := take ?n got, tx_phase := 4\<rparr>)"
    if "x = Full" "got ! ?n = bms_check (rx_head st @ take ?n got)" "got ! (?n + 1) = EOI"
    using inv True b(2) that bms_frame_split [of "rx_head st" got "tx_addr st" "tx_cmd st"]
    by (simp add: txrx_inv_def)
  then show ?thesis
    using keep unfolding txrx_tail_def need rl
    by (cases x) (simp_all add: phase_ok_def True Let_def)
qed

lemma phase_ok_chain:
  assumes "phase_ok st r" and "\<And>st' env'. txrx_inv st' \<Longrightarrow> tx_addr st' = tx_addr st \<Longrightarrow>
      tx_cmd st' = tx_cmd st \<Longrightarrow> phase_ok st (Inl (f st' env'))"
  shows "phase_ok st (Inl (case r of Inl o1 \<Rightarrow> o1 | Inr (st', env') \<Rightarrow> f st' env'))"
proof (cases r)
  case (Inl a)
  then show ?thesis using assms(1) by simp
next
  case (Inr p)
  then show ?thesis using assms(1) assms(2) [of "fst p" "snd p"]
    by (simp add: phase_ok_def split_beta)
qed

lemma phase_ok_trans:
  "phase_ok st' r \<Longrightarrow> tx_addr st' = tx_addr st \<Longrightarrow> tx_cmd st' = tx_cmd st \<Longrightarrow> phase_ok st r"
  by (auto simp: phase_ok_def split: sum.splits prod.splits)

lemma txrx_end_ok: "txrx_inv st \<Longrightarrow> phase_ok st (Inl (txrx_end st env))"
  by (auto simp: phase_ok_def txrx_end_def txrx_inv_def)

lemma bms_txrx_step_ok: "txrx_inv st \<Longrightarrow> phase_ok st (Inl (bms_txrx_step st env))"
proof -
  assume inv: "txrx_inv st"
  have early: "phase_ok st (Inl (BMS_IO_ERROR, st, env))"
    "phase_ok st (Inl (BMS_IO_TIMEOUT, st\<lparr>tx_err := e\<rparr>, env))" for e
    using inv by (auto simp: phase_ok_def txrx_inv_def)
  have rest: "phase_ok st (Inl (case txrx_write st env of Inl r \<Rightarrow> r | Inr (st1, env1) \<Rightarrow>
           case txrx_settle st1 env1 of Inl r \<Rightarrow> r | Inr (st2, env2) \<Rightarrow>
           case txrx_head st2 env2 of Inl r \<Rightarrow> r | Inr (st3, env3) \<Rightarrow>
           case txrx_tail st3 env3 of Inl r \<Rightarrow> r | Inr (st4, env4) \<Rightarrow> txrx_end st4 env4))"
    by (intro phase_ok_chain; (rule phase_ok_trans)?;
        (rule txrx_write_ok txrx_settle_ok txrx_head_ok txrx_tail_ok txrx_end_ok inv)?; assumption?)
      (simp_all add: inv)
  show ?thesis using early rest by (simp add: bms_txrx_step_def)
qed


subsection \<open>Reachable states\<close>

inductive txrx_reachable :: "byte \<Rightarrow> byte \<Rightarrow> bms_txrx_state \<Rightarrow> bool" for addr cmd where
  txrx_start: "txrx_reachable addr cmd (bms_txrx_init addr cmd data timeout settle now)"
| txrx_next: "txrx_reachable addr cmd st \<Longrightarrow> bms_txrx_step st env = (io, st', env') \<Longrightarrow>
     txrx_reachable addr cmd st'"

lemma txrx_reachable_inv:
  "txrx_reachable addr cmd st \<Longrightarrow> txrx_inv st \<and> tx_addr st = addr \<and> tx_cmd st = cmd"
proof (induction rule: txrx_reachable.induct)
  case (txrx_start data timeout settle now)
  show ?case
    by (simp add: txrx_inv_init) (simp add: bms_txrx_init_def Let_def)
next
  case (txrx_next st env io st' env')
  then show ?case using bms_txrx_step_ok [of st env] by (simp add: phase_ok_def)
qed

lemma bms_done_frame:
  assumes "txrx_reachable addr cmd st"
    and "bms_txrx_step st env = (BMS_IO_DONE, st', env')"
  shows "rx_head st' @ rx_tail st' = bms_build_frame addr cmd (rx_body st')"
proof -
  have "txrx_inv st' \<and> tx_addr st' = addr \<and> tx_cmd st' = cmd \<and> tx_phase st' = 4"
    using txrx_reachable_inv [OF assms(1)] bms_txrx_step_ok [of st env] assms(2)
    by (simp add: phase_ok_def)
  then show ?thesis by (auto simp: txrx_inv_def)
qed

text \<open>
  C10: In every state the non-blocking machine can reach from \<open>bms_txrx_init\<close>, whatever the clock and
  the kernel answer, a call that reports \<open>BMS_IO_DONE\<close> has received exactly the bytes of a
  well-formed frame of the requested address and command, and \<open>body\<close> is that frame's payload.
\<close>

theorem bms_txrx_done_sound:
  assumes "txrx_reachable addr cmd st"
    and "bms_txrx_step st env = (BMS_IO_DONE, st', env')"
  shows "rx_head st' @ rx_tail st' = bms_build_frame addr cmd (rx_body st')"
  by (rule bms_done_frame [OF assms])

theorem bms_txrx_done_sound_witness:
  "\<exists>st' env'. bms_txrx_step (bms_txrx_init 1 0x33 [] (3/2) (1/4) 0)
       \<lparr>now0 = 1, now1 = 1, now2 = 2, wr = [WrAccept 6],
        rd = [RdEintr, RdData (bms_build_frame 1 0x33 [0x41, 0x42])]\<rparr> = (BMS_IO_DONE, st', env') \<and>
     rx_head st' @ rx_tail st' = bms_build_frame 1 0x33 (rx_body st')"
proof -
  let ?st = "bms_txrx_init 1 0x33 [] (3/2) (1/4) 0"
  let ?env = "\<lparr>now0 = 1, now1 = 1, now2 = 2, wr = [WrAccept 6],
        rd = [RdEintr, RdData (bms_build_frame 1 0x33 [0x41, 0x42])]\<rparr>"
  have "fst (bms_txrx_step ?st ?env) = BMS_IO_DONE" by code_simp
  then obtain st' env' where s: "bms_txrx_step ?st ?env = (BMS_IO_DONE, st', env')"
    by (metis prod.collapse)
  show ?thesis
    using s bms_txrx_done_sound [OF txrx_start s] by blast
qed

subsection \<open>A whole reply arrives\<close>

text \<open>
  What the driver does with the machine: it calls the step again when what the last call asked for (the
  line readable, the line writable, some time) has come, until the exchange is over. Each call has its
  own clock readings and answers; received bytes that a call did not take stay for the next.
\<close>

definition io_pending :: "bms_io \<Rightarrow> bool" where
  "io_pending io \<longleftrightarrow> io = BMS_IO_NEED_READ \<or> io = BMS_IO_NEED_WRITE \<or> io = BMS_IO_NEED_TIME"

fun bms_drive :: "bms_txrx_state \<Rightarrow> rd_event list \<Rightarrow> bms_env list \<Rightarrow> bms_io option \<times> bms_txrx_state" where
  "bms_drive st left [] = (None, st)"
| "bms_drive st left (env # envs) =
     (case bms_txrx_step st (env\<lparr>rd := left @ rd env\<rparr>) of (io, st', env') \<Rightarrow>
        (if io_pending io then bms_drive st' (rd env') envs else (Some io, st')))"

lemma bms_drive_left: "bms_drive st left (env # envs) = bms_drive st [] (env\<lparr>rd := left @ rd env\<rparr> # envs)"
  by simp

text \<open>The machine is waiting for a reply of which it has received the prefix \<open>recv\<close>.\<close>

definition awaiting :: "bms_txrx_state \<Rightarrow> byte list \<Rightarrow> bool" where
  "awaiting st recv \<longleftrightarrow>
     (tx_phase st = 2 \<and> rx_tail st = [] \<and> rx_head st = recv \<and> length recv < 4 \<or>
      tx_phase st = 3 \<and> rx_head st = take 4 recv \<and> rx_tail st = drop 4 recv \<and> 4 \<le> length recv \<and>
      rx_tail_need st = unat (recv ! 3) + 2)"

lemma awaiting_step_tail:
  assumes aw: "awaiting st recv" "tx_phase st = 3" and b: "benign (rd env)"
    and d: "length data \<le> 255"
    and pre: "prefix recv frame" "prefix frame (recv @ rd_bytes (rd env)) \<or>
      strict_prefix (recv @ rd_bytes (rd env)) frame"
    and fr: "frame = bms_build_frame a c data"
  shows "if length (recv @ rd_bytes (rd env)) < length frame
    then \<exists>st'. txrx_tail st env = Inl (BMS_IO_NEED_READ, st', env\<lparr>rd := []\<rparr>) \<and>
           awaiting st' (recv @ rd_bytes (rd env)) \<and> tx_addr st' = tx_addr st \<and>
           tx_cmd st' = tx_cmd st \<and> deadline st' = deadline st
    else \<exists>st' env'. txrx_tail st env = Inl (BMS_IO_DONE, st', env') \<and> rx_body st' = data"
proof -
  let ?R = "recv @ rd_bytes (rd env)"
  have recv: "rx_head st = take 4 recv" "rx_tail st = drop 4 recv" "4 \<le> length recv"
    "rx_tail_need st = unat (recv ! 3) + 2"
    using aw by (auto simp: awaiting_def)
  have r3: "recv ! 3 = frame ! 3"
    using pre(1) recv(3) by (auto simp: prefix_def nth_append)
  have need: "rx_tail_need st = length data + 2"
    using recv(4) r3 bms_frame_parts(4) [OF d] fr by simp
  have lenR: "length recv \<le> length data + 6"
    using prefix_length_le [OF pre(1)] fr by simp
  have le: "length (drop 4 recv) \<le> length data + 2" using lenR by simp
  show ?thesis
  proof (cases "length ?R < length frame")
    case True
    then have "read_loop (length data + 2) (drop 4 recv) (rd env) =
        (WouldBlock, drop 4 recv @ rd_bytes (rd env), [])"
      using recv(3) fr by (intro read_loop_short b) simp
    then show ?thesis
      using True aw(2) recv need unfolding txrx_tail_def
      by (auto simp: awaiting_def nth_append)
  next
    case False
    then have "length data + 2 \<le> length (drop 4 recv) + length (rd_bytes (rd env))"
      using recv(3) fr by simp
    from read_loop_full [OF b le this]
    obtain es where rl: "read_loop (length data + 2) (drop 4 recv) (rd env) =
        (Full, take (length data + 2) (drop 4 recv @ rd_bytes (rd env)), es)"
      by blast
    have "prefix frame ?R"
      using pre(2) False prefix_length_less by blast
    then obtain zs where R: "?R = frame @ zs" by (auto elim: prefixE)
    have "take (length data + 2 + 4) ?R = frame" unfolding R using fr by simp
    moreover have "drop 4 recv @ rd_bytes (rd env) = drop 4 ?R"
      using recv(3) by simp
    ultimately have got: "take (length data + 2) (drop 4 recv @ rd_bytes (rd env)) = drop 4 frame"
      by (simp only: take_drop)
    have hd: "take 4 recv = take 4 frame"
      using pre(1) recv(3) by (auto simp: prefix_def)
    have whole: "take 4 frame @ take (length data) (drop 4 frame) = take (length data + 4) frame"
      by (metis add.commute take_add)
    note parts = bms_frame_parts [OF d, of a c, folded fr]
    have ck: "drop 4 frame ! length data = bms_check (take (length data + 4) frame)"
      "drop 4 frame ! Suc (length data) = EOI"
      using parts(6,7) fr by (simp_all add: add.commute numeral_eq_Suc)
    show ?thesis
      using False aw(2) recv hd rl parts(5) whole ck unfolding txrx_tail_def need got
      by (simp add: Let_def)
  qed
qed


text \<open>One call with the bytes of \<open>env\<close> at hand, from a waiting state.\<close>

definition reply_step :: "bms_txrx_state \<Rightarrow> byte list \<Rightarrow> byte list \<Rightarrow> byte list \<Rightarrow> bms_out \<Rightarrow> bms_env \<Rightarrow> bool" where
  "reply_step st R frame data out env \<longleftrightarrow>
     (if length R < length frame
      then \<exists>st'. out = (BMS_IO_NEED_READ, st', env\<lparr>rd := []\<rparr>) \<and> awaiting st' R \<and>
             tx_addr st' = tx_addr st \<and> tx_cmd st' = tx_cmd st \<and> deadline st' = deadline st
      else \<exists>st' env'. out = (BMS_IO_DONE, st', env') \<and> rx_body st' = data)"

lemma awaiting_step:
  assumes aw: "awaiting st recv" and b: "benign (rd env)" and d: "length data \<le> 255"
    and pre: "prefix recv frame" "prefix frame (recv @ rd_bytes (rd env)) \<or>
      strict_prefix (recv @ rd_bytes (rd env)) frame"
    and fr: "frame = bms_build_frame (tx_addr st) (tx_cmd st) data"
    and t: "now0 env \<le> deadline st"
  shows "reply_step st (recv @ rd_bytes (rd env)) frame data (bms_txrx_step st env) env"
proof (cases "tx_phase st = 3")
  case True
  have "bms_txrx_step st env = (case txrx_tail st env of Inl r \<Rightarrow> r | Inr (s, e) \<Rightarrow> txrx_end s e)"
    using True t
    by (simp add: bms_txrx_step_def txrx_write_def txrx_settle_def txrx_head_def)
  then show ?thesis
    using awaiting_step_tail [OF aw True b d pre fr]
    by (auto simp: reply_step_def split: if_splits)
next
  case False
  let ?R = "recv @ rd_bytes (rd env)"
  have ph: "tx_phase st = 2" "rx_tail st = []" "rx_head st = recv" "length recv < 4"
    using aw False by (auto simp: awaiting_def)
  have step: "bms_txrx_step st env = (case txrx_head st env of Inl r \<Rightarrow> r | Inr (s, e) \<Rightarrow>
      case txrx_tail s e of Inl r \<Rightarrow> r | Inr (s, e) \<Rightarrow> txrx_end s e)"
    using ph(1) t by (simp add: bms_txrx_step_def txrx_write_def txrx_settle_def)
  show ?thesis
  proof (cases "length ?R < 4")
    case True
    then have "read_loop 4 recv (rd env) = (WouldBlock, ?R, [])"
      by (intro read_loop_short b) simp
    then show ?thesis
      using True ph fr unfolding step txrx_head_def
      by (simp add: reply_step_def awaiting_def)
  next
    case False
    then have "4 \<le> length recv + length (rd_bytes (rd env))" by simp
    from read_loop_full [OF b less_imp_le [OF ph(4)] this]
    obtain es where rl: "read_loop 4 recv (rd env) = (Full, take 4 ?R, es)"
      and es: "benign es" "rd_bytes es = drop (4 - length recv) (rd_bytes (rd env))"
      by blast
    have h: "take 4 ?R = take 4 frame"
      using pre(2) False fr take_prefix_eq [of frame ?R 4] take_prefix_eq [of ?R frame 4]
      by (auto simp del: take_append simp: strict_prefix_def)
    note parts = bms_frame_parts [OF d, of "tx_addr st" "tx_cmd st", folded fr]
    define st3 where "st3 = st\<lparr>rx_head := take 4 frame, rx_tail_need := length data + 2, tx_phase := 3\<rparr>"
    have small: "\<not> BMS_MAX_FRAME < length data + 6" using d by (simp add: BMS_MAX_FRAME_def)
    have head: "txrx_head st env = Inr (st3, env\<lparr>rd := es\<rparr>)"
      unfolding txrx_head_def ph(3) rl h
      using ph parts small by (simp add: st3_def Let_def)
    have lf: "4 \<le> length frame" using fr by simp
    have aw3: "awaiting st3 (take 4 frame)" "tx_phase st3 = 3"
      using ph parts lf by (simp_all add: awaiting_def st3_def)
    have R: "take 4 frame @ rd_bytes es = ?R"
      using ph(4) by (simp add: h [symmetric] es(2))
    have "prefix (take 4 frame) frame" by (rule take_is_prefix)
    from awaiting_step_tail [OF aw3, of "env\<lparr>rd := es\<rparr>", OF _ d this _ fr]
    show ?thesis
      using es(1) pre(2) unfolding step head
      by (auto simp: R reply_step_def st3_def split: if_splits)
  qed
qed

lemma bms_drive_awaiting:
  assumes "awaiting st recv" and "prefix recv frame" and "length recv < length frame"
    and "frame = bms_build_frame (tx_addr st) (tx_cmd st) data" and "length data \<le> 255"
    and "\<forall>e \<in> set envs. benign (rd e) \<and> now0 e \<le> deadline st"
    and "recv @ concat (map (\<lambda>e. rd_bytes (rd e)) envs) = frame @ extra"
  shows "\<exists>st'. bms_drive st [] envs = (Some BMS_IO_DONE, st') \<and> rx_body st' = data"
  using assms
proof (induction envs arbitrary: st recv)
  case Nil
  then show ?case by (metis append_Nil2 concat.simps(1) list.map(1) length_append
        linorder_not_le le_add1)
next
  case (Cons env envs)
  let ?R = "recv @ rd_bytes (rd env)"
  have R: "?R @ concat (map (\<lambda>e. rd_bytes (rd e)) envs) = frame @ extra"
    using Cons.prems(7) by simp
  then have cmp: "prefix frame ?R \<or> strict_prefix ?R frame"
    by (metis prefixI prefix_same_cases strict_prefix_def)
  have step: "reply_step st ?R frame data (bms_txrx_step st env) env"
    using Cons.prems cmp by (intro awaiting_step) auto
  show ?case
  proof (cases "length ?R < length frame")
    case True
    then obtain st' where st': "bms_txrx_step st env = (BMS_IO_NEED_READ, st', env\<lparr>rd := []\<rparr>)"
      "awaiting st' ?R" "tx_addr st' = tx_addr st" "tx_cmd st' = tx_cmd st"
      "deadline st' = deadline st"
      using step unfolding reply_step_def by (simp only: if_True) blast
    have "prefix ?R frame" using cmp True prefix_length_le [of frame ?R]
      by (auto simp: strict_prefix_def)
    then have "\<exists>st''. bms_drive st' [] envs = (Some BMS_IO_DONE, st'') \<and> rx_body st'' = data"
      using Cons.prems(4-6) R True st' by (intro Cons.IH [of st' ?R]) auto
    then show ?thesis using st'(1) by (simp add: io_pending_def)
  next
    case False
    then show ?thesis
      using step unfolding reply_step_def by (simp only: if_False) (auto simp: io_pending_def)
  qed
qed

subsection \<open>From the request to the reply\<close>

text \<open>
  What a call's answers let it write: signals interrupt, every other \<open>write\<close> takes some bytes, and at the
  end of the answers the line takes no more for now.
\<close>

fun wr_benign :: "wr_event list \<Rightarrow> bool" where
  "wr_benign [] \<longleftrightarrow> True"
| "wr_benign (WrAccept k # es) \<longleftrightarrow> 0 < k \<and> wr_benign es"
| "wr_benign (WrEintr # es) \<longleftrightarrow> wr_benign es"
| "wr_benign (_ # es) \<longleftrightarrow> False"

fun wr_room :: "wr_event list \<Rightarrow> nat" where
  "wr_room [] = 0"
| "wr_room (WrAccept k # es) = k + wr_room es"
| "wr_room (_ # es) = wr_room es"

lemma write_loop_benign:
  "wr_benign evs \<Longrightarrow> sent \<le> len \<Longrightarrow>
   (if sent + wr_room evs < len then write_loop len sent evs = (WouldBlock, sent + wr_room evs, [])
    else \<exists>es. write_loop len sent evs = (Full, len, es))"
proof (induction len sent evs rule: write_loop.induct)
  case (2 len sent e es)
  then show ?case by (cases e) (auto simp: min_def)
qed auto

text \<open>The machine with \<open>n\<close> bytes of its request written, none of the reply taken.\<close>

definition writing :: "bms_txrx_state \<Rightarrow> nat \<Rightarrow> bool" where
  "writing st n \<longleftrightarrow> tx_phase st = 0 \<and> tx_sent st = n \<and> n \<le> length (tx st) \<and> rx_head st = [] \<and> rx_tail st = []"

definition settling :: "bms_txrx_state \<Rightarrow> bool" where
  "settling st \<longleftrightarrow> tx_phase st = 1 \<and> rx_head st = [] \<and> rx_tail st = []"

lemma writing_step:
  assumes "writing st n" "wr_benign (wr env)" "now0 env \<le> deadline st" "n + wr_room (wr env) < length (tx st)"
  shows "bms_txrx_step st env = (BMS_IO_NEED_WRITE, st\<lparr>tx_sent := n + wr_room (wr env)\<rparr>, env\<lparr>wr := []\<rparr>)"
proof -
  have "write_loop (length (tx st)) (tx_sent st) (wr env) = (WouldBlock, n + wr_room (wr env), [])"
    using write_loop_benign [OF assms(2), of n "length (tx st)"] assms(1,4) by (simp add: writing_def)
  then show ?thesis using assms(1,3) by (simp add: bms_txrx_step_def txrx_write_def writing_def Let_def)
qed

lemma written_step:
  assumes "writing st n" "wr_benign (wr env)" "length (tx st) \<le> n + wr_room (wr env)"
  shows "\<exists>es. txrx_write st env =
    Inr (st\<lparr>tx_sent := length (tx st), settle_until := now1 env + settle_until st, tx_phase := 1\<rparr>, env\<lparr>wr := es\<rparr>)"
proof -
  obtain es where "write_loop (length (tx st)) (tx_sent st) (wr env) = (Full, length (tx st), es)"
    using write_loop_benign [OF assms(2), of n "length (tx st)"] assms(1,3) by (auto simp: writing_def)
  then show ?thesis using assms(1) by (intro exI [of _ es]) (simp add: txrx_write_def writing_def Let_def)
qed

lemma settling_step:
  assumes "settling st" "now0 env \<le> deadline st"
  shows "bms_txrx_step st env =
    (if now2 env < settle_until st then (BMS_IO_NEED_TIME, st, env) else bms_txrx_step (st\<lparr>tx_phase := 2\<rparr>) env)"
  using assms by (simp add: bms_txrx_step_def txrx_write_def txrx_settle_def settling_def)

lemma benign_append: "benign (xs @ ys) \<longleftrightarrow> benign xs \<and> benign ys"
  by (induction xs rule: benign.induct) auto

lemma rd_bytes_append: "rd_bytes (xs @ ys) = rd_bytes xs @ rd_bytes ys"
  by (induction xs rule: rd_bytes.induct) simp_all

text \<open>From the settle delay on: some call comes when it is over, and the bytes complete the reply.\<close>

lemma bms_drive_settling:
  assumes "settling st" and "benign left" and "\<exists>e \<in> set envs. settle_until st \<le> now2 e"
    and "\<forall>e \<in> set envs. benign (rd e) \<and> now0 e \<le> deadline st"
    and "rd_bytes left @ concat (map (\<lambda>e. rd_bytes (rd e)) envs) = bms_build_frame (tx_addr st) (tx_cmd st) data @ extra"
    and "length data \<le> 255"
  shows "\<exists>st'. bms_drive st left envs = (Some BMS_IO_DONE, st') \<and> rx_body st' = data"
  using assms
proof (induction envs arbitrary: left)
  case (Cons env envs)
  let ?env = "env\<lparr>rd := left @ rd env\<rparr>"
  have b: "benign (left @ rd env)" "rd_bytes (left @ rd env) = rd_bytes left @ rd_bytes (rd env)"
    using Cons.prems(2,4) by (simp_all add: benign_append rd_bytes_append)
  have step: "bms_txrx_step st ?env = (if now2 env < settle_until st then (BMS_IO_NEED_TIME, st, ?env)
      else bms_txrx_step (st\<lparr>tx_phase := 2\<rparr>) ?env)"
    using settling_step [OF Cons.prems(1), of ?env] Cons.prems(4) by simp
  show ?case
  proof (cases "now2 env < settle_until st")
    case True
    have "\<exists>st'. bms_drive st (left @ rd env) envs = (Some BMS_IO_DONE, st') \<and> rx_body st' = data"
      using Cons.prems b True by (intro Cons.IH) auto
    then show ?thesis using step True by (simp add: io_pending_def)
  next
    case False
    let ?st = "st\<lparr>tx_phase := 2\<rparr>"
    have aw: "awaiting ?st []" using Cons.prems(1) by (simp add: awaiting_def settling_def)
    have "\<exists>st'. bms_drive ?st [] (?env # envs) = (Some BMS_IO_DONE, st') \<and> rx_body st' = data"
      using Cons.prems(4-6) b aw by (intro bms_drive_awaiting [where recv = "[]" and extra = extra]) auto
    then show ?thesis using step False by simp
  qed
qed simp

lemma bms_drive_writing:
  assumes "writing st n" and "benign left" and "envs = ws @ env # rest"
    and "\<forall>e \<in> set envs. benign (rd e) \<and> now0 e \<le> deadline st" "\<forall>e \<in> set (ws @ [env]). wr_benign (wr e)"
    and "n + sum_list (map (\<lambda>e. wr_room (wr e)) ws) < length (tx st)"
    and "length (tx st) \<le> n + sum_list (map (\<lambda>e. wr_room (wr e)) (ws @ [env]))"
    and "\<exists>e \<in> set (env # rest). now1 env + settle_until st \<le> now2 e"
    and "rd_bytes left @ concat (map (\<lambda>e. rd_bytes (rd e)) envs) = bms_build_frame (tx_addr st) (tx_cmd st) data @ extra"
    and "length data \<le> 255"
  shows "\<exists>st'. bms_drive st left envs = (Some BMS_IO_DONE, st') \<and> rx_body st' = data"
  using assms
proof (induction ws arbitrary: st n left envs)
  case Nil
  let ?env = "env\<lparr>rd := left @ rd env\<rparr>"
  let ?st = "st\<lparr>tx_sent := length (tx st), settle_until := now1 env + settle_until st, tx_phase := 1\<rparr>"
  obtain es where w: "txrx_write st ?env = Inr (?st, ?env\<lparr>wr := es\<rparr>)"
    using written_step [OF Nil.prems(1), of ?env] Nil.prems(5,7) by auto
  have s: "settling ?st" using Nil.prems(1) by (simp add: writing_def settling_def)
  have d: "now0 env \<le> deadline st" using Nil.prems(3,4) by simp
  have pass: "txrx_write ?st e = Inr (?st, e)" for e by (simp add: txrx_write_def)
  have "bms_txrx_step st ?env = bms_txrx_step ?st (?env\<lparr>wr := es\<rparr>)"
    using d Nil.prems(1) unfolding bms_txrx_step_def by (simp add: w pass writing_def)
  then have eq: "bms_drive st left envs = bms_drive ?st left (env\<lparr>wr := es\<rparr> # rest)"
    using Nil.prems(3) by (cases env) simp
  show ?case
    using Nil.prems(2-4,8-10) unfolding eq by (intro bms_drive_settling [OF s, where extra = extra]) auto
next
  case (Cons e ws)
  let ?env = "e\<lparr>rd := left @ rd e\<rparr>"
  let ?n = "n + wr_room (wr e)"
  have b: "benign (left @ rd e)" "rd_bytes (left @ rd e) = rd_bytes left @ rd_bytes (rd e)"
    using Cons.prems(2-4) by (simp_all add: benign_append rd_bytes_append)
  have step: "bms_txrx_step st ?env = (BMS_IO_NEED_WRITE, st\<lparr>tx_sent := ?n\<rparr>, ?env\<lparr>wr := []\<rparr>)"
    using writing_step [OF Cons.prems(1), of ?env] Cons.prems(3-6) by simp
  have "\<exists>st'. bms_drive (st\<lparr>tx_sent := ?n\<rparr>) (left @ rd e) (ws @ env # rest) = (Some BMS_IO_DONE, st') \<and> rx_body st' = data"
    using Cons.prems b by (intro Cons.IH [where n = ?n]) (auto simp: writing_def)
  then show ?case using step Cons.prems(3) by (simp add: io_pending_def)
qed

text \<open>
  C19: A request/response exchange that nothing disturbs completes, however its steps are cut: the request
  is written over any number of calls (interrupted by signals, some of its bytes taken each time), the
  settle delay runs from the call that wrote the last of it and is waited out over any number of calls, and
  the reply arrives in any chunks over any of the calls (interrupted by signals, followed by any further
  bytes). If all calls come before the deadline and one of them when the settle delay is over, the
  exchange is done and \<open>body\<close> is the payload of the reply.
\<close>

theorem bms_exchange_completes:
  assumes "st0 = bms_txrx_init addr cmd req timeout settle t" and "length req \<le> 255" and "length data \<le> 255"
    and "envs = ws @ env # rest" and "\<forall>e \<in> set envs. benign (rd e) \<and> now0 e \<le> deadline st0"
    and "\<forall>e \<in> set (ws @ [env]). wr_benign (wr e)"
    and "sum_list (map (\<lambda>e. wr_room (wr e)) ws) < length req + 6"
    and "length req + 6 \<le> sum_list (map (\<lambda>e. wr_room (wr e)) (ws @ [env]))"
    and "\<exists>e \<in> set (env # rest). now1 env + settle \<le> now2 e"
    and "concat (map (\<lambda>e. rd_bytes (rd e)) envs) = bms_build_frame addr cmd data @ extra"
  shows "\<exists>st'. bms_drive st0 [] envs = (Some BMS_IO_DONE, st') \<and> rx_body st' = data"
proof -
  have st0: "writing st0 0" "tx st0 = bms_build_frame addr cmd req" "settle_until st0 = settle"
      "tx_addr st0 = addr" "tx_cmd st0 = cmd"
    using assms(1,2) by (simp_all add: bms_txrx_init_def writing_def Let_def)
  show ?thesis
    by (rule bms_drive_writing [OF st0(1) _ assms(4), where extra = extra]) (use assms st0 in auto)
qed

theorem bms_exchange_completes_witness:
  "\<exists>st'. bms_drive (bms_txrx_init 1 0x33 [] (3/2) (1/4) 0) []
     [\<lparr>now0 = 1/10, now1 = 1/10, now2 = 1/10, wr = [WrEintr, WrAccept 4], rd = []\<rparr>,
      \<lparr>now0 = 1/10, now1 = 1/10, now2 = 1/10, wr = [WrAccept 2], rd = []\<rparr>,
      \<lparr>now0 = 2/10, now1 = 2/10, now2 = 2/10, wr = [], rd = [RdData [0x7E, 1], RdEintr]\<rparr>,
      \<lparr>now0 = 4/10, now1 = 4/10, now2 = 4/10, wr = [], rd = []\<rparr>,
      \<lparr>now0 = 5/10, now1 = 5/10, now2 = 5/10, wr = [],
       rd = [RdData (drop 2 (bms_build_frame 1 0x33 [0x41, 0x42]) @ [0xFF])]\<rparr>]
     = (Some BMS_IO_DONE, st') \<and> rx_body st' = [0x41, 0x42]"
  by (rule bms_exchange_completes
        [where addr = 1 and cmd = "0x33" and extra = "[0xFF]" and req = "[]" and timeout = "3/2" and settle = "1/4"
          and t = 0 and ws = "[\<lparr>now0 = 1/10, now1 = 1/10, now2 = 1/10, wr = [WrEintr, WrAccept 4], rd = []\<rparr>]"
          and env = "\<lparr>now0 = 1/10, now1 = 1/10, now2 = 1/10, wr = [WrAccept 2], rd = []\<rparr>"
          and rest = "[\<lparr>now0 = 2/10, now1 = 2/10, now2 = 2/10, wr = [], rd = [RdData [0x7E, 1], RdEintr]\<rparr>,
            \<lparr>now0 = 4/10, now1 = 4/10, now2 = 4/10, wr = [], rd = []\<rparr>,
            \<lparr>now0 = 5/10, now1 = 5/10, now2 = 5/10, wr = [],
             rd = [RdData (drop 2 (bms_build_frame 1 0x33 [0x41, 0x42]) @ [0xFF])]\<rparr>]"])
    (simp_all add: bms_txrx_init_def bms_build_frame_def SOI_def Let_def)

subsection \<open>The blocking path\<close>

fun bl_bytes :: "bl_event list \<Rightarrow> byte list" where
  "bl_bytes [] = []"
| "bl_bytes (BlRead bs # es) = bs @ bl_bytes es"
| "bl_bytes (_ # es) = bl_bytes es"

lemma serial_read_exact_bytes:
  "serial_read_exact n got evs = (Some got', es) \<Longrightarrow> got' @ bl_bytes es = got @ bl_bytes evs"
  by (induction n got evs rule: serial_read_exact.induct) (auto split: if_splits bl_event.splits)

lemma read_count_iff: "read_count r = int k \<longleftrightarrow> (\<exists>bs. r = Some bs \<and> length bs = k)"
  by (auto simp: read_count_def split: option.splits)

text \<open>
  The blocking \<open>bms_txrx\<close> returns a payload only when the bytes on the line begin with exactly the
  well-formed reply frame of the requested address and command that carries this payload.
\<close>

theorem bms_txrx_sound:
  assumes "bms_txrx addr cmd data ok evs = Inr body"
  shows "prefix (bms_build_frame addr cmd body) (bl_bytes evs)"
proof -
  obtain rh evs1 where r1: "serial_read_exact 4 [] evs = (rh, evs1)" by force
  have c1: "read_count rh = 4"
    using assms unfolding bms_txrx_def r1 by (simp only: prod.case split: if_splits) simp_all
  then obtain head where head: "rh = Some head" "length head = 4"
    using read_count_iff [of rh 4] by auto
  let ?n = "unat (head ! 3)"
  obtain rr evs2 where r2: "serial_read_exact (?n + 2) [] evs1 = (rr, evs2)" by force
  have c2: "read_count rr = int (?n + 2)"
  proof (rule ccontr)
    assume "read_count rr \<noteq> int (?n + 2)"
    then show False
      using assms by (simp add: bms_txrx_def r1 head Let_def r2 [simplified] read_count_iff [of _ 4] split: if_splits)
  qed
  then obtain tail where tail: "rr = Some tail" "length tail = ?n + 2"
    by (simp only: read_count_iff) blast
  have checks: "head ! 0 = SOI" "head ! 1 = addr" "head ! 2 = cmd"
    "tail ! (?n + 1) = EOI" "tail ! ?n = bms_check (head @ take ?n tail)" "take ?n tail = body"
    using assms c2 by (simp_all add: bms_txrx_def r1 head Let_def r2 [simplified] tail read_count_iff [of _ 4]
        split: if_splits)
  have "bl_bytes evs = head @ tail @ bl_bytes evs2"
    using serial_read_exact_bytes [of 4 "[]" evs head evs1]
      serial_read_exact_bytes [of "?n + 2" "[]" evs1 tail evs2] r1 r2 head tail by simp
  moreover have "head @ tail = bms_build_frame addr cmd body"
    using bms_frame_split [of head tail addr cmd] head tail checks by simp
  ultimately show ?thesis by (metis append.assoc prefixI)
qed

theorem bms_txrx_sound_witness:
  "bms_txrx 1 0x33 [] True [BlSelectEintr, BlRead (bms_build_frame 1 0x33 [0x41])] = Inr [0x41] \<and>
   prefix (bms_build_frame 1 0x33 [0x41]) (bl_bytes [BlSelectEintr, BlRead (bms_build_frame 1 0x33 [0x41])])"
proof -
  have h: "bms_txrx 1 0x33 [] True [BlSelectEintr, BlRead (bms_build_frame 1 0x33 [0x41])] = Inr [0x41]"
    by code_simp
  show ?thesis using h bms_txrx_sound [OF h] by blast
qed

end
