(* ===== verification/XdRealtime.thy ===== *)
theory XdRealtime
  imports XdProto
begin

section \<open>Readings of the Tianpower BMS (src/xd/bms_proto.c)\<close>

text \<open>
  The parser of the realtime payload (command 0x01), which fills a \<open>bms_realtime_t\<close> in place, and
  the table of status flags. The parser is a function of the buffer, the number of payload bytes
  in it, and the record it overwrites; the record it returns is the one the caller sees also
  where the code answers \<open>-1\<close>.
\<close>

subsection \<open>The realtime payload\<close>

text \<open>The arrays have their C sizes: 32 cells, 8 temperatures, 12 status bytes.\<close>

record bms_realtime =
  cell_count :: byte
  temp_count :: byte
  cell_voltages_v :: "cdouble list"
  cell_balancing :: "bool list"
  temperatures_c :: "cdouble list"
  current_a :: cdouble
  soc_pct :: cdouble
  soh_pct :: cdouble
  full_capacity_ah :: cdouble
  remaining_capacity_ah :: cdouble
  pack_voltage_v :: cdouble
  cycles :: u16
  raw_status :: "byte list"

definition be_at :: "byte list \<Rightarrow> nat \<Rightarrow> u16" where
  "be_at b i = be16 (b ! i) (b ! (i + 1))"

definition overlay :: "'a list \<Rightarrow> 'a list \<Rightarrow> 'a list" where
  "overlay new old = new @ drop (length new) old"

definition scaled :: "u16 \<Rightarrow> cdouble \<Rightarrow> cdouble" where
  "scaled w k = of_int (uint w) / k"

definition parse_temp_count :: "byte \<Rightarrow> byte" where
  "parse_temp_count t =
     (let t = (if t < 2 \<or> 6 < t then 5 else t) in if BMS_MAX_TEMPS < unat t then 8 else t)"

definition parse_cells :: "byte list \<Rightarrow> byte \<Rightarrow> byte \<Rightarrow> bms_realtime \<Rightarrow> bms_realtime" where
  "parse_cells b n t r =
     (let k = 2 * unat n;
          full = scaled (be_at b (12 + k)) 100; soc = scaled (be_at b (8 + k)) 100
      in r\<lparr>cell_count := n, temp_count := t,
           cell_voltages_v :=
             overlay (map (\<lambda>i. scaled (be16 (b ! (2 * i + 2) AND 0x1F) (b ! (2 * i + 3))) 1000)
               [0..<unat n]) (cell_voltages_v r),
           cell_balancing :=
             overlay (map (\<lambda>i. b ! (2 * i + 2) AND 0x80 \<noteq> 0) [0..<unat n]) (cell_balancing r),
           current_a := (30000 - of_int (uint (be_at b (4 + k)))) / 100,
           soc_pct := soc,
           full_capacity_ah := full,
           remaining_capacity_ah := full * soc / 100,
           temperatures_c :=
             overlay (map (\<lambda>i. of_int (uint (b ! (17 + k + 2 * i))) - 50) [0..<unat t])
               (temperatures_c r)\<rparr>)"

definition parse_pack :: "byte list \<Rightarrow> nat \<Rightarrow> nat \<Rightarrow> bms_realtime \<Rightarrow> bms_realtime" where
  "parse_pack b len base r =
     r\<lparr>cycles := be_at b (30 + base),
       pack_voltage_v := scaled (be_at b (34 + base)) 100,
       soh_pct := scaled (be_at b (38 + base)) 100,
       raw_status := take 10 (drop (18 + base) b)
         @ [if 42 + base < len then b ! (42 + base) else 0,
            if 43 + base < len then b ! (43 + base) else 0]\<rparr>"

definition bms_parse_realtime :: "byte list \<Rightarrow> nat \<Rightarrow> bms_realtime \<Rightarrow> int \<times> bms_realtime" where
  "bms_parse_realtime b len r =
     (if len < 2 then (- 1, r)
      else let n = b ! 1 in
        if n = 0 \<or> BMS_MAX_CELLS < unat n then (- 1, r)
        else let idx_tcnt = 15 + 2 * unat n in
          if len \<le> idx_tcnt then (- 1, r)
          else let t = parse_temp_count (b ! idx_tcnt);
                   r1 = parse_cells b n t r;
                   base = 2 * unat n + 2 * unat t
               in if len \<le> 39 + base then (- 1, r1) else (0, parse_pack b len base r1))"

definition bms_read_realtime :: "byte \<Rightarrow> bool \<Rightarrow> bl_event list \<Rightarrow> byte list \<Rightarrow> bms_realtime \<Rightarrow> int \<times> bms_realtime" where
  "bms_read_realtime addr write_ok evs buf r =
     (case bms_txrx addr 0x01 [] write_ok evs of
        Inl _ \<Rightarrow> (- 1, r)
      | Inr body \<Rightarrow> bms_parse_realtime (overlay body buf) (length body) r)"

subsection \<open>The status flags\<close>

definition BMS_FLAGS :: "(nat \<times> byte \<times> string) list" where
  "BMS_FLAGS = [
    (0, 0x08, ''cell_vol_low_fault''),
    (0, 0x10, ''vol_line_break''),
    (0, 0x20, ''charge_mos_fault''),
    (0, 0x40, ''discharge_mos_fault''),
    (0, 0x80, ''vol_sensor_fault''),
    (1, 0x01, ''ntc_disconnection''),
    (1, 0x02, ''adc_mod_fault''),
    (1, 0x04, ''reverse_battery''),
    (1, 0x08, ''fan_on_failure''),
    (1, 0x10, ''battery_locked''),
    (2, 0x01, ''disc_ov_temp_protection''),
    (2, 0x02, ''disc_un_temp_protection''),
    (2, 0x08, ''startup_failed''),
    (2, 0x10, ''charge_mos_off''),
    (2, 0x20, ''discharge_mos_off''),
    (2, 0x40, ''host_536_com_timeout''),
    (3, 0x01, ''charging''),
    (3, 0x02, ''discharging''),
    (3, 0x04, ''short_circuit_protection''),
    (3, 0x08, ''ov_cur_protection''),
    (3, 0x40, ''chg_ov_temp_protection''),
    (3, 0x80, ''chg_un_temp_protection''),
    (4, 0x01, ''ambient_low_temp_protection''),
    (4, 0x02, ''ambient_high_temp_protection''),
    (4, 0x80, ''heater_pad_indicator''),
    (5, 0x01, ''manual_chg_mos_open''),
    (5, 0x02, ''manual_chg_mos_off''),
    (5, 0x04, ''manual_disc_mos_open''),
    (5, 0x08, ''manual_disc_mos_off''),
    (5, 0x10, ''heating_pad''),
    (5, 0x20, ''mosfet_ov_temp_protection''),
    (5, 0x40, ''mosfet_lo_temp_protection''),
    (5, 0x80, ''chg_open_temp_too_low''),
    (7, 0x01, ''soc_low_alarm2''),
    (7, 0x02, ''vibration_alarm''),
    (7, 0x08, ''fire_fighting_alarm''),
    (8, 0x01, ''amb_over_temp_alarm''),
    (8, 0x02, ''amb_low_temp_alarm''),
    (8, 0x04, ''mos_over_temp_alarm''),
    (8, 0x08, ''soc_low_alarm''),
    (8, 0x10, ''vol_dif_alarm''),
    (8, 0x20, ''bat_disc_over_temp_alarm''),
    (8, 0x40, ''bat_disc_low_temp_alarm''),
    (9, 0x01, ''cell_over_vol_alarm''),
    (9, 0x02, ''cell_low_vol_alarm''),
    (9, 0x04, ''pack_over_vol_alarm''),
    (9, 0x08, ''pack_low_vol_alarm''),
    (9, 0x10, ''chg_over_cur_alarm''),
    (9, 0x20, ''disc_over_curr_alarm''),
    (9, 0x40, ''bat_over_temp_alarm''),
    (9, 0x80, ''bat_low_temp_alarm''),
    (10, 0x01, ''cell_over_protection''),
    (10, 0x02, ''pack_over_protection''),
    (10, 0x04, ''cell_under_protection''),
    (10, 0x08, ''pack_under_protection''),
    (11, 0x20, ''full_charge_protection'')]"

fun bms_flag_lookup :: "(nat \<times> byte \<times> string) list \<Rightarrow> byte list \<Rightarrow> string \<Rightarrow> bool" where
  "bms_flag_lookup [] st name = False"
| "bms_flag_lookup ((i, m, nm) # fs) st name =
     (if nm = name then (st ! i) AND m \<noteq> 0 else bms_flag_lookup fs st name)"

definition bms_flag_set :: "bms_realtime \<Rightarrow> string \<Rightarrow> bool" where
  "bms_flag_set r name = bms_flag_lookup BMS_FLAGS (raw_status r) name"

subsection \<open>Parsing\<close>

lemma nth_eq_of_take: "take n xs = take n ys \<Longrightarrow> i < n \<Longrightarrow> xs ! i = ys ! i"
  by (metis nth_take)

subsection \<open>Example payloads\<close>

definition sample_payload :: "byte list" where
  "sample_payload = [1, 2, 0x8C, 0xE4, 0x0C, 0xE5, 0, 0, 0x75, 0x30, 0, 0, 0x1F, 0x40, 0, 0, 0x27, 0x10, 0, 2]
     @ replicate 26 0 @ [0x14, 0x50] @ replicate 10 0"

definition blank_realtime :: bms_realtime where
  "blank_realtime = \<lparr>cell_count = 0, temp_count = 0, cell_voltages_v = replicate 32 0,
     cell_balancing = replicate 32 False, temperatures_c = replicate 8 0, current_a = 0, soc_pct = 0,
     soh_pct = 0, full_capacity_ah = 0, remaining_capacity_ah = 0, pack_voltage_v = 0, cycles = 0,
     raw_status = replicate 12 0\<rparr>"

lemma sample_payload_parses:
  "bms_parse_realtime sample_payload 50 blank_realtime =
     (0, snd (bms_parse_realtime sample_payload 50 blank_realtime))"
proof -
  have "fst (bms_parse_realtime sample_payload 50 blank_realtime) = 0" by code_simp
  then show ?thesis by (metis prod.collapse)
qed

text \<open>Each stage of the parser reads only what its length check covers.\<close>

lemma parse_cells_reads:
  assumes "\<And>i. i < len \<Longrightarrow> b' ! i = b ! i"
    and "39 + (2 * unat n + 2 * unat t) < len"
  shows "parse_cells b' n t r = parse_cells b n t r"
proof -
  have be: "be_at b' i = be_at b i" if "i + 1 < len" for i
    using that assms(1) by (simp add: be_at_def)
  have cell: "b' ! (2 * i + 2) = b ! (2 * i + 2)" "b' ! (2 * i + 3) = b ! (2 * i + 3)"
    if "i < unat n" for i
    using that assms(2) by (intro assms(1), linarith)+
  have temp: "b' ! (17 + 2 * unat n + 2 * i) = b ! (17 + 2 * unat n + 2 * i)"
    if "i < unat t" for i
    using that assms(2) by (intro assms(1), linarith)
  have maps: "map (\<lambda>i. scaled (be16 (b' ! (2 * i + 2) AND 0x1F) (b' ! (2 * i + 3))) 1000) [0..<unat n]
      = map (\<lambda>i. scaled (be16 (b ! (2 * i + 2) AND 0x1F) (b ! (2 * i + 3))) 1000) [0..<unat n]"
    "map (\<lambda>i. b' ! (2 * i + 2) AND 0x80 \<noteq> 0) [0..<unat n]
      = map (\<lambda>i. b ! (2 * i + 2) AND 0x80 \<noteq> 0) [0..<unat n]"
    "map (\<lambda>i. of_int (uint (b' ! (17 + 2 * unat n + 2 * i))) - 50 :: cdouble) [0..<unat t]
      = map (\<lambda>i. of_int (uint (b ! (17 + 2 * unat n + 2 * i))) - 50) [0..<unat t]"
    by (rule map_cong [OF refl], simp only: set_upt atLeastLessThan_iff cell temp)+
  show ?thesis
    unfolding parse_cells_def Let_def maps using assms(2) by (simp add: be)
qed

lemma parse_pack_reads:
  assumes "take len b' = take len b" and "39 + base < len"
  shows "parse_pack b' len base r = parse_pack b len base r"
proof -
  have eq: "b' ! i = b ! i" if "i < len" for i
    using nth_eq_of_take [OF assms(1) that] .
  have "take 10 (drop (18 + base) b') = take 10 (drop (18 + base) (take len b'))"
    using assms(2) by (simp add: drop_take min_def)
  also have "\<dots> = take 10 (drop (18 + base) b)"
    using assms(2) unfolding assms(1) by (simp add: drop_take min_def)
  finally show ?thesis
    using assms(2) by (simp add: parse_pack_def be_at_def eq)
qed

text \<open>
  An accepted realtime payload is parsed from its own \<open>len\<close> bytes only: any other buffer that
  agrees on them gives the same reading, so no byte past the payload is ever used.
\<close>

theorem bms_parse_reads_payload_only:
  assumes "bms_parse_realtime b len r = (0, r')" and "take len b' = take len b"
  shows "bms_parse_realtime b' len r = (0, r')"
proof -
  define n where "n = b ! 1"
  define t where "t = parse_temp_count (b ! (15 + 2 * unat n))"
  have g: "\<not> len < 2" "\<not> len \<le> 15 + 2 * unat n" "\<not> len \<le> 39 + (2 * unat n + 2 * unat t)"
    "n \<noteq> 0" "\<not> BMS_MAX_CELLS < unat n"
    using assms(1) by (auto simp: bms_parse_realtime_def Let_def n_def t_def split: if_splits)
  have eq: "b' ! i = b ! i" if "i < len" for i
    using nth_eq_of_take [OF assms(2) that] .
  have same: "b' ! 1 = n" "parse_temp_count (b' ! (15 + 2 * unat n)) = t"
    using g(1,2) by (simp_all add: eq n_def t_def)
  have "parse_cells b' n t r = parse_cells b n t r"
    using g(3) by (intro parse_cells_reads [of len] eq) auto
  moreover have "parse_pack b' len (2 * unat n + 2 * unat t) q =
      parse_pack b len (2 * unat n + 2 * unat t) q" for q
    using g(3) by (intro parse_pack_reads assms(2)) simp
  ultimately have "bms_parse_realtime b' len r = bms_parse_realtime b len r"
    using g unfolding bms_parse_realtime_def Let_def same
    by (simp only: n_def [symmetric] t_def [symmetric] if_False)
  then show ?thesis using assms(1) by simp
qed

theorem bms_parse_reads_payload_only_witness:
  "take 50 (sample_payload @ [0xAA]) = take 50 sample_payload \<and>
   bms_parse_realtime (sample_payload @ [0xAA]) 50 blank_realtime =
     (0, snd (bms_parse_realtime sample_payload 50 blank_realtime))"
proof -
  have h: "take 50 (sample_payload @ [0xAA]) = take 50 sample_payload"
    by (simp add: sample_payload_def)
  show ?thesis using h bms_parse_reads_payload_only [OF sample_payload_parses h] by blast
qed

lemma length_overlay: "length new \<le> length old \<Longrightarrow> length (overlay new old) = length old"
  by (simp add: overlay_def)

lemma nth_overlay: "i < length new \<Longrightarrow> overlay new old ! i = new ! i"
  by (simp add: overlay_def nth_append)

lemma parse_temp_count_range: "2 \<le> unat (parse_temp_count t) \<and> unat (parse_temp_count t) \<le> 6"
proof -
  have "unat t \<noteq> 0" "unat t \<noteq> 1" "unat t \<le> 6" if "\<not> (t < 2 \<or> 6 < t)"
    using that by (auto simp: word_less_nat_alt not_less)
  then show ?thesis
    by (auto simp: parse_temp_count_def Let_def BMS_MAX_TEMPS_def)
qed

lemma scaled_13bit:
  "0 \<le> scaled (be16 (hi AND 0x1F) lo) 1000 \<and> scaled (be16 (hi AND 0x1F) lo) 1000 \<le> 8191 / 1000"
proof -
  have "uint (hi AND 0x1F) \<le> 31"
    using word_and_le1 [of hi "0x1F"] by (simp add: word_le_def)
  then have "0 \<le> uint (be16 (hi AND 0x1F) lo)" "uint (be16 (hi AND 0x1F) lo) \<le> 8191"
    using uint_lt2p [of lo] unfolding uint_be16 by simp_all
  then have "(of_int 0 :: cdouble) \<le> of_int (uint (be16 (hi AND 0x1F) lo))"
    "(of_int (uint (be16 (hi AND 0x1F) lo)) :: cdouble) \<le> of_int 8191"
    by (simp_all only: of_int_le_iff)
  then show ?thesis unfolding scaled_def by simp
qed

text \<open>The sizes of the arrays in \<open>bms_realtime_t\<close>.\<close>

definition realtime_wf :: "bms_realtime \<Rightarrow> bool" where
  "realtime_wf r \<longleftrightarrow> length (cell_voltages_v r) = BMS_MAX_CELLS \<and>
     length (cell_balancing r) = BMS_MAX_CELLS \<and> length (temperatures_c r) = BMS_MAX_TEMPS \<and>
     length (raw_status r) = 12"

lemma parse_cells_wf:
  "realtime_wf r \<Longrightarrow> unat n \<le> BMS_MAX_CELLS \<Longrightarrow> unat t \<le> BMS_MAX_TEMPS \<Longrightarrow>
     realtime_wf (parse_cells b n t r)"
  by (simp add: realtime_wf_def parse_cells_def Let_def length_overlay)

lemma parse_pack_wf:
  "realtime_wf r \<Longrightarrow> len \<le> length b \<Longrightarrow> 39 + base < len \<Longrightarrow> realtime_wf (parse_pack b len base r)"
  by (simp add: realtime_wf_def parse_pack_def)

text \<open>
  An accepted realtime payload keeps the arrays at their C sizes, reports 1 to 32 cells and 2 to 6
  temperatures, and every reported cell voltage is between 0 and 8.191 V and every temperature
  between -50 and 205 degrees.
\<close>

theorem bms_parse_ok_ranges:
  assumes "bms_parse_realtime b len r = (0, r')" and "len \<le> length b" and "realtime_wf r"
  shows "realtime_wf r' \<and> 1 \<le> unat (cell_count r') \<and> unat (cell_count r') \<le> BMS_MAX_CELLS \<and>
    2 \<le> unat (temp_count r') \<and> unat (temp_count r') \<le> 6 \<and>
    (\<forall>i < unat (cell_count r'). 0 \<le> cell_voltages_v r' ! i \<and> cell_voltages_v r' ! i \<le> 8191 / 1000) \<and>
    (\<forall>i < unat (temp_count r'). - 50 \<le> temperatures_c r' ! i \<and> temperatures_c r' ! i \<le> 205)"
proof -
  define n where "n = b ! 1"
  define t where "t = parse_temp_count (b ! (15 + 2 * unat n))"
  have g: "\<not> len \<le> 39 + (2 * unat n + 2 * unat t)" "n \<noteq> 0" "unat n \<le> BMS_MAX_CELLS"
    and r': "r' = parse_pack b len (2 * unat n + 2 * unat t) (parse_cells b n t r)"
    using assms(1) by (auto simp: bms_parse_realtime_def Let_def n_def t_def split: if_splits)
  have t: "2 \<le> unat t" "unat t \<le> 6" using parse_temp_count_range by (auto simp: t_def)
  have wf: "realtime_wf r'"
    unfolding r' using g t assms(2,3)
    by (intro parse_pack_wf parse_cells_wf) (simp_all add: BMS_MAX_TEMPS_def)
  have counts: "cell_count r' = n" "temp_count r' = t"
    by (simp_all add: r' parse_pack_def parse_cells_def Let_def)
  have "unat n \<noteq> 0" using g(2) by (simp add: unat_eq_0)
  moreover have "cell_voltages_v r' ! i =
      scaled (be16 (b ! (2 * i + 2) AND 0x1F) (b ! (2 * i + 3))) 1000" if "i < unat n" for i
    using that by (simp add: r' parse_pack_def parse_cells_def Let_def nth_overlay)
  moreover have "- 50 \<le> temperatures_c r' ! i \<and> temperatures_c r' ! i \<le> 205" if "i < unat t" for i
  proof -
    let ?x = "b ! (17 + 2 * unat n + 2 * i)"
    have "temperatures_c r' ! i = of_int (uint ?x) - 50"
      using that by (simp add: r' parse_pack_def parse_cells_def Let_def nth_overlay)
    moreover have "(of_int (uint ?x) :: cdouble) \<le> of_int 255" "(of_int 0 :: cdouble) \<le> of_int (uint ?x)"
      using uint_lt2p [of ?x] by (simp_all only: of_int_le_iff) simp_all
    ultimately show ?thesis by simp
  qed
  ultimately show ?thesis
    using wf counts g t scaled_13bit by simp
qed

theorem bms_parse_ok_ranges_witness:
  "realtime_wf (snd (bms_parse_realtime sample_payload 50 blank_realtime)) \<and>
   2 \<le> unat (temp_count (snd (bms_parse_realtime sample_payload 50 blank_realtime)))"
proof -
  have "50 \<le> length sample_payload" "realtime_wf blank_realtime"
    by (simp_all add: sample_payload_def realtime_wf_def blank_realtime_def BMS_MAX_CELLS_def
        BMS_MAX_TEMPS_def)
  from bms_parse_ok_ranges [OF sample_payload_parses this] show ?thesis by blast
qed

text \<open>
  A payload that ends before the pack-level fields is rejected with -1, but only after the cell
  count and the state of charge of the caller's record are overwritten: the record then mixes the new cells with
  the old pack voltage and status bytes.
\<close>

theorem bms_parse_short_payload_mixes:
  assumes "2 \<le> len" and "n = b ! 1" and "n \<noteq> 0" and "unat n \<le> BMS_MAX_CELLS"
    and "15 + 2 * unat n < len" and "t = parse_temp_count (b ! (15 + 2 * unat n))"
    and "len \<le> 39 + 2 * unat n + 2 * unat t"
  shows "\<exists>r'. bms_parse_realtime b len r = (- 1, r') \<and> cell_count r' = n \<and>
    soc_pct r' = scaled (be_at b (8 + 2 * unat n)) 100 \<and>
    pack_voltage_v r' = pack_voltage_v r \<and> raw_status r' = raw_status r"
  using assms by (auto simp: bms_parse_realtime_def parse_cells_def Let_def)

theorem bms_parse_short_payload_mixes_witness:
  "\<exists>r'. bms_parse_realtime sample_payload 40 blank_realtime = (- 1, r') \<and> cell_count r' = 2 \<and>
    soc_pct r' = 80 \<and> pack_voltage_v r' = 0"
proof -
  have p: "sample_payload ! Suc 0 = 2" "sample_payload ! 19 = 2" "be_at sample_payload 12 = 8000"
    by (simp_all add: sample_payload_def be_at_def be16_def)
  have "\<exists>r'. bms_parse_realtime sample_payload 40 blank_realtime = (- 1, r') \<and> cell_count r' = 2 \<and>
    soc_pct r' = scaled (be_at sample_payload (8 + 2 * unat (2 :: byte))) 100 \<and>
    pack_voltage_v r' = pack_voltage_v blank_realtime \<and> raw_status r' = raw_status blank_realtime"
    by (rule bms_parse_short_payload_mixes)
      (simp_all add: p BMS_MAX_CELLS_def BMS_MAX_TEMPS_def parse_temp_count_def)
  moreover have "pack_voltage_v blank_realtime = 0" by (simp add: blank_realtime_def)
  ultimately show ?thesis
    by (auto simp: p scaled_def)
qed

subsection \<open>Flags\<close>

lemma bms_flag_lookup_distinct:
  "distinct (map (\<lambda>(i, m, nm). nm) fs) \<Longrightarrow> (i, m, nm) \<in> set fs \<Longrightarrow>
     bms_flag_lookup fs st nm = (st ! i AND m \<noteq> 0)"
  by (induction fs) force+

lemma bms_flag_names_distinct: "distinct (map (\<lambda>(i, m, nm). nm) BMS_FLAGS)"
  by code_simp

lemma bms_flag_bits: "list_all (\<lambda>(i, m, nm). i < 12 \<and> m \<in> set (map (\<lambda>k. 2 ^ k) [0..<8])) BMS_FLAGS"
  by (simp add: BMS_FLAGS_def upt_rec)

text \<open>
  Every name of the flag table is found and reads its own status bit: one bit of one of the twelve
  status bytes.
\<close>

theorem bms_flag_set_reads_its_bit:
  assumes "(i, m, nm) \<in> set BMS_FLAGS"
  shows "bms_flag_set r nm = (raw_status r ! i AND m \<noteq> 0) \<and> i < 12 \<and> (\<exists>k < 8. m = 2 ^ k)"
proof -
  have "i < 12 \<and> m \<in> set (map (\<lambda>k. 2 ^ k) [0..<8])"
    using bms_flag_bits assms by (auto simp: list_all_iff)
  then show ?thesis
    using bms_flag_lookup_distinct [OF bms_flag_names_distinct assms]
    by (auto simp: bms_flag_set_def)
qed

theorem bms_flag_set_reads_its_bit_witness:
  "(3, 0x01, ''charging'') \<in> set BMS_FLAGS \<and>
   bms_flag_set (blank_realtime\<lparr>raw_status := [0, 0, 0, 1]\<rparr>) ''charging''"
proof -
  have h: "(3, 0x01, ''charging'') \<in> set BMS_FLAGS" by (simp add: BMS_FLAGS_def)
  show ?thesis
    using h bms_flag_set_reads_its_bit [OF h, of "blank_realtime\<lparr>raw_status := [0, 0, 0, 1]\<rparr>"] by simp
qed

end
