(* ===== verification/Doubles.thy ===== *)
theory Doubles
  imports Prelude
begin

section \<open>Doubles that came from a text\<close>

text \<open>
  What the code computes itself stays finite and is an exact rational (\<open>cdouble\<close>). A double read
  from a text need not be finite: \<open>strtod\<close> accepts the words for infinity and for not-a-number, and
  gives infinity for a number too large. \<open>xdouble\<close> has these values as well, with the comparisons of
  IEEE 754 (every one with a NaN is false), so that \<open>x < y\<close> and \<open>\<not> y \<le> x\<close> are different
  conditions, as they are in C. The sign of a zero is not kept, and there is no rounding to 53 bits.
\<close>

datatype xdouble =
    XFin cdouble
  | XInf bool  \<comment> \<open>whether negative\<close>
  | XNaN bool

instantiation xdouble :: "{ord, plus}"
begin

fun less_xdouble :: "xdouble \<Rightarrow> xdouble \<Rightarrow> bool" where
  "XFin x < XFin y \<longleftrightarrow> x < y"
| "XFin x < XInf n \<longleftrightarrow> \<not> n"
| "XInf m < XFin y \<longleftrightarrow> m"
| "XInf m < XInf n \<longleftrightarrow> m \<and> \<not> n"
| "(_ :: xdouble) < _ \<longleftrightarrow> False"

fun less_eq_xdouble :: "xdouble \<Rightarrow> xdouble \<Rightarrow> bool" where
  "XFin x \<le> XFin y \<longleftrightarrow> x \<le> y"
| "XFin x \<le> XInf n \<longleftrightarrow> \<not> n"
| "XInf m \<le> XFin y \<longleftrightarrow> m"
| "XInf m \<le> XInf n \<longleftrightarrow> m \<or> \<not> n"
| "(_ :: xdouble) \<le> _ \<longleftrightarrow> False"

fun plus_xdouble :: "xdouble \<Rightarrow> xdouble \<Rightarrow> xdouble" where
  "XFin x + XFin y = XFin (x + y)"
| "XFin x + XInf n = XInf n"
| "XInf m + XFin y = XInf m"
| "XInf m + XInf n = (if m = n then XInf m else XNaN True)"
| "XNaN m + _ = XNaN m"
| "_ + XNaN n = XNaN n"

instance ..

end

definition xd_is_nan :: "xdouble \<Rightarrow> bool" where
  "xd_is_nan x \<longleftrightarrow> (case x of XNaN _ \<Rightarrow> True | _ \<Rightarrow> False)"

lemma xd_is_nan_simps [simp]: "\<not> xd_is_nan (XFin v)" "\<not> xd_is_nan (XInf s)" "xd_is_nan (XNaN s)"
  by (simp_all add: xd_is_nan_def)

lemma xd_nan_compare [simp]:
  "\<not> x < XNaN s" "\<not> XNaN s < x" "\<not> x \<le> XNaN s" "\<not> XNaN s \<le> x"
  by (cases x; simp)+

lemma xd_not_less: "\<not> xd_is_nan x \<Longrightarrow> \<not> xd_is_nan y \<Longrightarrow> \<not> x < y \<longleftrightarrow> y \<le> x"
  by (cases x; cases y) auto

lemma xd_le_fin_trans: "XFin u \<le> x \<Longrightarrow> v \<le> u \<Longrightarrow> XFin v \<le> x"
  by (cases x) auto

subsection \<open>From the number written to the double\<close>

text \<open>
  From halfway beyond the largest double on, the nearest one is infinity; up to half of the smallest,
  it is zero.
\<close>

definition DBL_OVERFLOW :: cdouble where "DBL_OVERFLOW = 2 ^ 1024 - 2 ^ 970"
definition DBL_UNDERFLOW :: cdouble where "DBL_UNDERFLOW = 1 / 2 ^ 1075"

definition to_double :: "bool \<Rightarrow> cdouble \<Rightarrow> xdouble" where
  "to_double neg v =
     (if DBL_OVERFLOW \<le> v then XInf neg
      else if v \<le> DBL_UNDERFLOW then XFin 0
      else XFin (if neg then - v else v))"

text \<open>What evaluates quickly for numbers of an ordinary size.\<close>

lemma to_double_code [code]:
  "to_double neg v =
     (if v = 0 \<or> 1 / 1000000000 \<le> v \<and> v \<le> 1000000000 then XFin (if neg then - v else v)
      else if DBL_OVERFLOW \<le> v then XInf neg
      else if v \<le> DBL_UNDERFLOW then XFin 0
      else XFin (if neg then - v else v))"
proof -
  have "(1000000000 :: cdouble) < DBL_OVERFLOW" by (simp add: DBL_OVERFLOW_def)
  moreover have "DBL_UNDERFLOW < (1 / 1000000000 :: cdouble)" "0 < DBL_UNDERFLOW"
    by (simp_all add: DBL_UNDERFLOW_def)
  ultimately show ?thesis by (auto simp: to_double_def)
qed

lemma to_double_fin: "1 / 1000000000 \<le> v \<Longrightarrow> v \<le> 1000000000 \<Longrightarrow> to_double neg v = XFin (if neg then - v else v)"
  by (simp add: to_double_code)

subsection \<open>Back to an integer\<close>

text \<open>
  The cast of a double to \<open>long\<close>. What does not fit is undefined in C; the conversion instruction of
  x86-64 gives the least \<open>long\<close> for it, a NaN included.
\<close>

definition LONG_MAX :: int where "LONG_MAX = 2 ^ 63 - 1"
definition LONG_MIN :: int where "LONG_MIN = - (2 ^ 63)"

definition c_long :: "xdouble \<Rightarrow> int" where
  "c_long x =
     (case x of
        XFin v \<Rightarrow> let z = c_trunc v in if LONG_MIN \<le> z \<and> z \<le> LONG_MAX then z else LONG_MIN
      | _ \<Rightarrow> LONG_MIN)"

lemma c_long_range: "LONG_MIN \<le> c_long x" "c_long x \<le> LONG_MAX"
  by (auto simp: c_long_def Let_def LONG_MIN_def LONG_MAX_def split: xdouble.splits)

lemma c_long_fin: "LONG_MIN \<le> c_trunc v \<Longrightarrow> c_trunc v \<le> LONG_MAX \<Longrightarrow> c_long (XFin v) = c_trunc v"
  by (simp add: c_long_def)

end
