(* ===== verification/CText.thy ===== *)
theory CText
  imports Doubles
begin

section \<open>Text functions of the C library that several components use\<close>

text \<open>
  Decimal printing (\<open>%d\<close>) and \<open>strtol\<close>, letters without case (\<open>strcasecmp\<close>), the last occurrence of a
  character (\<open>strrchr\<close>), and what they do to each other's results.
\<close>

definition is_space :: "char \<Rightarrow> bool" where
  "is_space c \<longleftrightarrow> c = CHR '' '' \<or> (9 \<le> (of_char c :: nat) \<and> (of_char c :: nat) \<le> 13)"

definition is_digit :: "char \<Rightarrow> bool" where
  "is_digit c \<longleftrightarrow> 48 \<le> (of_char c :: nat) \<and> (of_char c :: nat) \<le> 57"

definition dec_val :: "char \<Rightarrow> nat" where
  "dec_val c = of_char c - 48"

definition digits_val :: "string \<Rightarrow> nat" where
  "digits_val ds = foldl (\<lambda>n c. 10 * n + dec_val c) 0 ds"

fun nat_digits :: "nat \<Rightarrow> string" where
  "nat_digits n = (if n < 10 then [char_of (48 + n)] else nat_digits (n div 10) @ [char_of (48 + n mod 10)])"

declare nat_digits.simps [simp del]

definition dec_int :: "int \<Rightarrow> string" where
  "dec_int z = (if z < 0 then CHR ''-'' # nat_digits (nat (- z)) else nat_digits (nat z))"

text \<open>\<open>%.0f\<close>: the nearest integer, the even one of two equally near.\<close>

definition round_even :: "cdouble \<Rightarrow> int" where
  "round_even x = (let f = \<lfloor>x\<rfloor>; d = x - of_int f in
     if d < 1/2 then f else if 1/2 < d then f + 1 else if even f then f else f + 1)"

definition fmt_0f :: "cdouble \<Rightarrow> string" where
  "fmt_0f x = (if x < 0 then CHR ''-'' # nat_digits (nat (round_even (- x))) else nat_digits (nat (round_even x)))"

text \<open>\<open>%.kf\<close>: \<open>k\<close> decimals.\<close>

definition pad0 :: "nat \<Rightarrow> nat \<Rightarrow> string" where
  "pad0 k n = replicate (k - length (nat_digits n)) (CHR ''0'') @ nat_digits n"

definition fmt_f :: "nat \<Rightarrow> cdouble \<Rightarrow> string" where
  "fmt_f k x =
     (let n = nat (round_even (\<bar>x\<bar> * 10 ^ k)) in
      (if x < 0 then ''-'' else []) @ nat_digits (n div 10 ^ k) @
      (if k = 0 then [] else CHR ''.'' # pad0 k (n mod 10 ^ k)))"

text \<open>\<open>strtol (s, NULL, 10)\<close>, saturating at the ends of a 64-bit \<open>long\<close>.\<close>

definition clamp_int :: "int \<Rightarrow> int \<Rightarrow> int \<Rightarrow> int" where
  "clamp_int lo hi z = (if z < lo then lo else if hi < z then hi else z)"

definition strtol10 :: "string \<Rightarrow> int" where
  "strtol10 s =
     (let s = dropWhile is_space s;
          neg = (s \<noteq> [] \<and> hd s = CHR ''-'');
          s = (if s \<noteq> [] \<and> (hd s = CHR ''-'' \<or> hd s = CHR ''+'') then tl s else s);
          v = int (digits_val (takeWhile is_digit s))
      in clamp_int LONG_MIN LONG_MAX (if neg then - v else v))"

text \<open>\<open>atoi\<close>: the low 32 bits of \<open>strtol\<close>.\<close>

definition atoi :: "string \<Rightarrow> int" where
  "atoi s = (strtol10 s + 2 ^ 31) mod 2 ^ 32 - 2 ^ 31"

text \<open>
  The value of an \<open>xdouble\<close> printed with \<open>%.kf\<close>.
\<close>

definition fmt_fx :: "nat \<Rightarrow> xdouble \<Rightarrow> string" where
  "fmt_fx k x =
     (case x of
        XFin v \<Rightarrow> fmt_f k v
      | XInf neg \<Rightarrow> (if neg then ''-inf'' else ''inf'')
      | XNaN neg \<Rightarrow> (if neg then ''-nan'' else ''nan''))"

definition to_lower :: "char \<Rightarrow> char" where
  "to_lower c = (let n = of_char c :: nat in if 65 \<le> n \<and> n \<le> 90 then char_of (n + 32) else c)"

definition lower :: "string \<Rightarrow> string" where
  "lower s = map to_lower s"

text \<open>
  \<open>atof\<close> is \<open>strtod\<close>: blanks, an optional sign, then the word for infinity or NaN in any case, a
  hexadecimal number (a binary exponent behind \<open>p\<close>), or digits with an optional point and exponent;
  what follows is ignored, and 0 without digits.
\<close>

definition scale10 :: "cdouble \<Rightarrow> int \<Rightarrow> cdouble" where
  "scale10 x e = (if e < 0 then x / 10 ^ nat (- e) else x * 10 ^ nat e)"

definition scale2 :: "cdouble \<Rightarrow> int \<Rightarrow> cdouble" where
  "scale2 x e = (if e < 0 then x / 2 ^ nat (- e) else x * 2 ^ nat e)"

definition atof_exponent :: "char \<Rightarrow> string \<Rightarrow> int" where
  "atof_exponent mark r =
     (case r of
        c # t \<Rightarrow>
          if to_lower c = mark
          then let neg = (t \<noteq> [] \<and> hd t = CHR ''-'');
                   d = takeWhile is_digit (if t \<noteq> [] \<and> (hd t = CHR ''-'' \<or> hd t = CHR ''+'') then tl t else t)
               in if neg then - int (digits_val d) else int (digits_val d)
          else 0
      | [] \<Rightarrow> 0)"

text \<open>The digits before and behind the point, and what follows them.\<close>

definition point_split :: "(char \<Rightarrow> bool) \<Rightarrow> string \<Rightarrow> string \<times> string \<times> string" where
  "point_split digit s =
     (let ip = takeWhile digit s;
          r = dropWhile digit s
      in if r \<noteq> [] \<and> hd r = CHR ''.'' then (ip, takeWhile digit (tl r), dropWhile digit (tl r))
         else (ip, [], r))"

definition is_hex_digit :: "char \<Rightarrow> bool" where
  "is_hex_digit c \<longleftrightarrow> is_digit c \<or> (let n = of_char (to_lower c) :: nat in 97 \<le> n \<and> n \<le> 102)"

definition hex_digit_val :: "char \<Rightarrow> nat" where
  "hex_digit_val c = (if is_digit c then dec_val c else of_char (to_lower c) - 87)"

definition hex_digits_val :: "string \<Rightarrow> nat" where
  "hex_digits_val ds = foldl (\<lambda>n c. 16 * n + hex_digit_val c) 0 ds"

definition is_hex_number :: "string \<Rightarrow> bool" where
  "is_hex_number s \<longleftrightarrow>
     (case s of
        z # x # r \<Rightarrow> z = CHR ''0'' \<and> to_lower x = CHR ''x'' \<and>
          (case point_split is_hex_digit r of (ip, fp, _) \<Rightarrow> ip @ fp \<noteq> [])
      | _ \<Rightarrow> False)"

definition atof_hex :: "string \<Rightarrow> cdouble" where
  "atof_hex s =
     (case point_split is_hex_digit (drop 2 s) of (ip, fp, r) \<Rightarrow>
        scale2 (of_nat (hex_digits_val (ip @ fp))) (atof_exponent (CHR ''p'') r - 4 * int (length fp)))"

definition atof_dec :: "string \<Rightarrow> cdouble" where
  "atof_dec s =
     (case point_split is_digit s of (ip, fp, r) \<Rightarrow>
        if ip @ fp = [] then 0
        else scale10 (of_nat (digits_val (ip @ fp))) (atof_exponent (CHR ''e'') r - int (length fp)))"

definition atof :: "string \<Rightarrow> xdouble" where
  "atof s =
     (let s = dropWhile is_space s;
          neg = (s \<noteq> [] \<and> hd s = CHR ''-'');
          s = (if s \<noteq> [] \<and> (hd s = CHR ''-'' \<or> hd s = CHR ''+'') then tl s else s)
      in if prefix ''inf'' (lower s) then XInf neg
         else if prefix ''nan'' (lower s) then XNaN neg
         else if is_hex_number s then to_double neg (atof_hex s)
         else to_double neg (atof_dec s))"

text \<open>The text of a C array: what stands before its first NUL.\<close>

definition c_text :: "string \<Rightarrow> string" where
  "c_text s = takeWhile (\<lambda>x. x \<noteq> CHR 0x00) s"

definition is_sp_tab :: "char \<Rightarrow> bool" where
  "is_sp_tab c \<longleftrightarrow> c = CHR '' '' \<or> c = CHR 0x09"

text \<open>What stands before and behind the last \<open>x\<close>; \<open>None\<close> without one.\<close>

definition split_last :: "char \<Rightarrow> string \<Rightarrow> (string \<times> string) option" where
  "split_last x s =
     (if x \<in> set s
      then let tail = rev (takeWhile (\<lambda>c. c \<noteq> x) (rev s))
           in Some (take (length s - length tail - 1) s, tail)
      else None)"

text \<open>The first place of a text in another (\<open>strstr\<close>).\<close>

fun strstr_pos :: "string \<Rightarrow> string \<Rightarrow> nat option" where
  "strstr_pos needle [] = (if needle = [] then Some 0 else None)"
| "strstr_pos needle (c # cs) =
     (if prefix needle (c # cs) then Some 0 else map_option Suc (strstr_pos needle cs))"

subsection \<open>Decimals\<close>

lemma of_char_digit [simp]: "k < 10 \<Longrightarrow> of_char (char_of (48 + k) :: char) = 48 + k" for k :: nat
  by simp

lemma is_digit_of [simp]: "k < 10 \<Longrightarrow> is_digit (char_of (48 + k))" for k :: nat
  by (simp add: is_digit_def)

lemma dec_val_digit [simp]: "k < 10 \<Longrightarrow> dec_val (char_of (48 + k)) = k" for k :: nat
  by (simp add: dec_val_def)

lemma nat_digits_dec: "c \<in> set (nat_digits n) \<Longrightarrow> is_digit c"
proof (induction n rule: nat_digits.induct)
  case (1 n)
  then show ?case by (subst (asm) (2) nat_digits.simps) (auto split: if_splits)
qed

lemma nat_digits_not_Nil [simp]: "nat_digits n \<noteq> []"
  by (subst nat_digits.simps) simp

lemma digits_val_snoc: "digits_val (ds @ [c]) = 10 * digits_val ds + dec_val c"
  by (simp add: digits_val_def)

lemma digits_val_nat_digits [simp]: "digits_val (nat_digits n) = n"
proof (induction n rule: nat_digits.induct)
  case (1 n)
  show ?case
  proof (cases "n < 10")
    case True
    then show ?thesis by (subst nat_digits.simps) (simp add: digits_val_def)
  next
    case False
    then show ?thesis using 1 by (subst nat_digits.simps) (simp add: digits_val_snoc)
  qed
qed

lemma nat_digits_inject [simp]: "nat_digits m = nat_digits n \<longleftrightarrow> m = n"
  using digits_val_nat_digits by metis

lemma digit_chars [simp]:
  "char_of (48 :: nat) = CHR ''0''" "char_of (49 :: nat) = CHR ''1''" "char_of (50 :: nat) = CHR ''2''"
  "char_of (51 :: nat) = CHR ''3''" "char_of (52 :: nat) = CHR ''4''" "char_of (53 :: nat) = CHR ''5''"
  "char_of (54 :: nat) = CHR ''6''" "char_of (55 :: nat) = CHR ''7''" "char_of (56 :: nat) = CHR ''8''"
  "char_of (57 :: nat) = CHR ''9''"
  by (simp_all add: char_of_def bit_Suc_0_iff)

lemma is_digit_not_space: "is_digit c \<Longrightarrow> \<not> is_space c \<and> c \<noteq> CHR ''-'' \<and> c \<noteq> CHR ''+'' \<and> c \<noteq> CHR '':''"
  by (auto simp: is_digit_def is_space_def)

lemma length_nat_digits: "n < 10 ^ k \<Longrightarrow> 0 < k \<Longrightarrow> length (nat_digits n) \<le> k"
proof (induction n arbitrary: k rule: nat_digits.induct)
  case (1 n)
  show ?case
  proof (cases "n < 10")
    case True
    then show ?thesis using 1 by (subst nat_digits.simps) simp
  next
    case False
    then obtain k' where k: "k = Suc k'" using 1(3) by (cases k) auto
    moreover from this have "0 < k'" using False 1(2) by (cases k') auto
    ultimately have k: "k = Suc k'" "0 < k'" by blast+
    then have "n div 10 < 10 ^ k'" using 1(2) by (simp add: div_less_iff_less_mult mult.commute)
    then have "length (nat_digits (n div 10)) \<le> k'" using 1(1) False k by blast
    then show ?thesis using False k by (subst nat_digits.simps) simp
  qed
qed

lemma digits_then:
  assumes "r = [] \<or> \<not> is_digit (hd r)"
  shows "takeWhile is_digit (nat_digits n @ r) = nat_digits n"
  using nat_digits_dec assms by (cases r) (auto simp: takeWhile_append1 takeWhile_tail)

lemma strtol10_field:
  assumes "int n \<le> LONG_MAX" "r = [] \<or> \<not> is_digit (hd r)"
  shows "strtol10 (nat_digits n @ r) = int n"
proof -
  obtain c cs where cs: "nat_digits n = c # cs" by (cases "nat_digits n") auto
  have c: "is_digit c" using nat_digits_dec [of c n] cs by simp
  have "digits_val (takeWhile is_digit (c # cs @ r)) = n"
    using digits_then [OF assms(2), of n] cs digits_val_nat_digits [of n] by simp
  then show ?thesis
    using assms(1) is_digit_not_space [OF c] unfolding cs
    by (simp add: strtol10_def Let_def clamp_int_def LONG_MIN_def)
qed

lemma strtol10_nat_digits: "int n \<le> LONG_MAX \<Longrightarrow> strtol10 (nat_digits n) = int n"
  using strtol10_field [of n "[]"] by simp

lemma atoi_field: "int n < 2 ^ 31 \<Longrightarrow> r = [] \<or> \<not> is_digit (hd r) \<Longrightarrow> atoi (nat_digits n @ r) = int n"
  by (simp add: atoi_def strtol10_field LONG_MAX_def)

subsection \<open>The last occurrence of a character\<close>

lemma split_last_append: "x \<notin> set b \<Longrightarrow> split_last x (a @ x # b) = Some (a, b)"
proof -
  assume b: "x \<notin> set b"
  have "takeWhile (\<lambda>c. c \<noteq> x) (rev (a @ x # b)) = rev b"
    using b by (simp, subst takeWhile_append2) auto
  then show ?thesis by (simp add: split_last_def Let_def)
qed

lemma split_last_None: "split_last x s = None \<longleftrightarrow> x \<notin> set s"
  by (simp add: split_last_def Let_def)

subsection \<open>The first occurrence of a text\<close>

lemma strstr_pos_first:
  assumes "needle \<noteq> []" and "\<not> sublist needle (xs @ butlast needle)"
  shows "strstr_pos needle (xs @ needle @ t) = Some (length xs)"
  using assms(2)
proof (induction xs)
  case Nil
  have "prefix needle (needle @ t)" by simp
  then show ?case using assms(1) by (cases "needle @ t") simp_all
next
  case (Cons c xs)
  have "\<not> prefix needle ((c # xs) @ needle @ t)"
  proof
    assume "prefix needle ((c # xs) @ needle @ t)"
    moreover have "prefix ((c # xs) @ butlast needle) ((c # xs) @ needle @ t)"
      using assms(1) by (simp add: prefix_append) (metis append_butlast_last_id append.assoc prefixI)
    moreover have "length needle \<le> length ((c # xs) @ butlast needle)" by simp
    ultimately have "prefix needle ((c # xs) @ butlast needle)" by (rule prefix_length_prefix)
    then show False using Cons.prems prefix_imp_sublist by blast
  qed
  moreover have "\<not> sublist needle (xs @ butlast needle)"
    using Cons.prems by (metis append_Cons sublist_Cons_right)
  ultimately show ?case using Cons.IH by simp
qed

end
