(* ===== verification/MagTables.thy ===== *)
theory MagTables
  imports CText
begin

section \<open>Magnum code tables (src/magnum/mag_decode.c)\<close>

text \<open>
  The enum tables of the Magnum decoder as association lists in the order of the C arrays, the
  linear \<open>lookup\<close> over them, and what the framer and the decoder ask of a model number: is it
  known, which voltage multiplier it has, what it is rated for.
\<close>

type_synonym code_text = "int \<times> string"

fun lookup :: "code_text list \<Rightarrow> int \<Rightarrow> string option \<Rightarrow> string option" where
  "lookup [] code dflt = dflt"
| "lookup ((c, t) # ts) code dflt = (if c = code then Some t else lookup ts code dflt)"

definition k_models :: "code_text list" where
  "k_models = [
    (0x6, ''MM612''), (0x7, ''MM612-AE''), (0x8, ''MM1212''), (0x9, ''MMS1012''),
    (0xA, ''MM1012E''), (0xB, ''MM1512''), (0xC, ''MMS912E''), (0xF, ''ME1512''),
    (0x14, ''ME2012''), (0x15, ''RD2212''), (0x19, ''ME2512''), (0x1E, ''ME3112''),
    (0x23, ''MS2012''), (0x24, ''MS1512E''), (0x28, ''MS2012E''), (0x2C, ''MSH3012M''),
    (0x2D, ''MS2812''), (0x2F, ''MS2712E''), (0x35, ''MM1324E''), (0x36, ''MM1524''),
    (0x37, ''RD1824''), (0x3B, ''RD2624E''), (0x3F, ''RD2824''), (0x45, ''RD4024E''),
    (0x4A, ''RD3924''), (0x5A, ''MS4124E''), (0x5B, ''MS2024''), (0x67, ''MSH4024M''),
    (0x68, ''MSH4024RE''), (0x69, ''MS4024''), (0x6A, ''MS4024AE''), (0x6B, ''MS4024PAE''),
    (0x6F, ''MS4448AE''), (0x70, ''MS3748AEJ''), (0x72, ''MS4048''), (0x73, ''MS4448PAE''),
    (0x74, ''MS3748PAEJ''), (0x75, ''MS4348PE'')]"

definition k_faults :: "code_text list" where
  "k_faults = [
    (0, ''None''), (0x1, ''STUCK RELAY''), (0x2, ''DC OVERLOAD''), (0x3, ''AC OVERLOAD''),
    (0x4, ''DEAD BAT''), (0x5, ''BACKFEED''), (0x8, ''LOW BAT''), (0x9, ''HIGH BAT''),
    (0xA, ''HIGH AC VOLTS''), (0x10, ''BAD_BRIDGE''), (0x12, ''NTC_FAULT''),
    (0x13, ''FET_OVERLOAD''), (0x14, ''INTERNAL_FAULT4''), (0x16, ''STACKER MODE FAULT''),
    (0x18, ''STACKER CLK PH FAULT''), (0x17, ''STACKER NO CLK FAULT''),
    (0x19, ''STACKER PH LOSS FAULT''), (0x20, ''OVER TEMP''), (0x21, ''RELAY FAULT''),
    (0x80, ''CHARGER_FAULT''), (0x81, ''High Battery Temp''), (0x90, ''OPEN SELCO TCO''),
    (0x91, ''CB3 OPEN FAULT'')]"

definition k_modes :: "code_text list" where
  "k_modes = [
    (0, ''Standby''), (0x1, ''EQ''), (0x2, ''FLOAT''), (0x4, ''ABSORB''), (0x8, ''BULK''),
    (0x9, ''BATSAVER''), (0x10, ''CHARGE''), (0x20, ''Off''), (0x40, ''INVERT''),
    (0x50, ''Inverter_Standby''), (0x80, ''SEARCH'')]"

definition k_stack_modes :: "code_text list" where
  "k_stack_modes = [
    (0, ''Stand Alone''), (0x1, ''Parallel stack - master''), (0x2, ''Parallel stack - slave''),
    (0x4, ''Series stack - master''), (0x8, ''Series stack - slave'')]"

definition k_ags_status :: "code_text list" where
  "k_ags_status = [
    (0, ''Not Connected''), (1, ''Off''), (2, ''Ready''), (3, ''Manual Run''), (4, ''AC In''),
    (5, ''In quiet time''), (6, ''Start in test mode''), (7, ''Start on temperature''),
    (8, ''Start on voltage''), (9, ''Fault start on test''), (10, ''Fault start on temp''),
    (11, ''Fault start on voltage''), (12, ''Start TOD''), (13, ''Start SOC''),
    (14, ''Start Exercise''), (15, ''Fault start TOD''), (16, ''Fault start SOC''),
    (17, ''Fault start Exercise''), (18, ''Start on Amp''), (19, ''Start on Topoff''),
    (20, ''Not used''), (21, ''Fault start on Amp''), (22, ''Fault on Topoff''),
    (23, ''Not used''), (24, ''Fault max run''), (25, ''Gen Run Fault''),
    (26, ''Gen in Warm up''), (27, ''Gen in Cool down'')]"

definition k_bmk_faults :: "code_text list" where
  "k_bmk_faults = [
    (0, ''Reserved''), (1, ''Normal''), (2, ''Fault Start'')]"

definition k_pt_modes :: "code_text list" where
  "k_pt_modes = [
    (1, ''Float''), (2, ''Bulk''), (3, ''Absorb''), (4, ''EQ'')]"

definition k_pt_regulation :: "code_text list" where
  "k_pt_regulation = [
    (0, ''Off''), (1, ''Voltage''), (2, ''Current''), (3, ''Temperature''), (4, ''Hardware''),
    (15, ''MPPT'')]"

definition k_pt_faults :: "code_text list" where
  "k_pt_faults = [
    (0, ''No Fault''), (1, ''Input breaker Fault''), (2, ''OPS Fault''), (3, ''PV High Fault''),
    (4, ''Battery High Fault''), (5, ''BTS Shorted Fault''), (6, ''FET Overtemp Fault''),
    (7, ''Battery Overtemp Fault''), (8, ''Over Current Fault''), (9, ''Internal Phase Fault''),
    (10, ''Open BTS Fault''), (11, ''Internal Fault 1''), (12, ''GFP Fault''),
    (13, ''ARC Fault''), (14, ''NTC Fault''), (15, ''HW overtemp Fault''),
    (16, ''Overyemp Fault''), (17, ''USB Fault''), (20, ''Stack Fault''),
    (21, ''Stack warning''), (22, ''Stack DIP Fault''), (23, ''Stack DT Fault'')]"

definition mag_model_known :: "int \<Rightarrow> bool" where
  "mag_model_known model = (lookup k_models model None \<noteq> None)"

definition mag_stackmode_known :: "int \<Rightarrow> bool" where
  "mag_stackmode_known stackmode = (lookup k_stack_modes stackmode None \<noteq> None)"

definition mag_multiplier :: "int \<Rightarrow> int" where
  "mag_multiplier model = (if model \<le> 50 then 1 else if model \<le> 107 then 2 else 4)"

definition mag_mode_text :: "int \<Rightarrow> string" where
  "mag_mode_text c = the (lookup k_modes c (Some ''??''))"

definition mag_fault_text :: "int \<Rightarrow> string" where
  "mag_fault_text c = the (lookup k_faults c (Some ''Unknown''))"

definition mag_model_text :: "int \<Rightarrow> string" where
  "mag_model_text c = the (lookup k_models c (Some ''Unknown''))"

definition mag_stackmode_text :: "int \<Rightarrow> string" where
  "mag_stackmode_text c = the (lookup k_stack_modes c (Some ''Unknown''))"

definition mag_ags_status_text :: "int \<Rightarrow> string" where
  "mag_ags_status_text c = the (lookup k_ags_status c (Some ''Unknown''))"

definition mag_bmk_fault_text :: "int \<Rightarrow> string" where
  "mag_bmk_fault_text c = the (lookup k_bmk_faults c (Some ''Unknown''))"

definition mag_pt_mode_text :: "int \<Rightarrow> string" where
  "mag_pt_mode_text c = the (lookup k_pt_modes c (Some ''Unknown''))"

definition mag_pt_regulation_text :: "int \<Rightarrow> string" where
  "mag_pt_regulation_text c = the (lookup k_pt_regulation c (Some ''Unknown''))"

definition mag_pt_fault_text :: "int \<Rightarrow> string" where
  "mag_pt_fault_text c = the (lookup k_pt_faults c (Some ''unknown''))"

subsection \<open>Ratings from the model name\<close>

definition atoi_digits :: "string \<Rightarrow> int" where
  "atoi_digits ds = foldl (\<lambda>n c. 10 * n + (of_char c - 48)) 0 ds"

definition mag_model_rated_w :: "int \<Rightarrow> int" where
  "mag_model_rated_w model =
     (case lookup k_models model None of None \<Rightarrow> 0
      | Some name \<Rightarrow>
          (let digits = take 7 (takeWhile is_digit (dropWhile (\<lambda>c. \<not> is_digit c) name));
               len = length digits
           in if len < 3 then 0
              else let volts = atoi_digits (drop (len - 2) digits)
                in if volts \<noteq> 12 \<and> volts \<noteq> 24 \<and> volts \<noteq> 48 then 0
                   else atoi_digits (take (len - 2) digits) * 100))"

lemma lookup_SomeD: "lookup ts code None = Some t \<Longrightarrow> (code, t) \<in> set ts"
  by (induction ts) (auto split: if_splits)

lemma lookup_map_of: "lookup ts code None = map_of ts code"
  by (induction ts) auto

lemma mag_multiplier_cases: "mag_multiplier m = 1 \<or> mag_multiplier m = 2 \<or> mag_multiplier m = 4"
  by (simp add: mag_multiplier_def)

lemma known_in_table:
  assumes "mag_model_known m"
  shows "(m, mag_model_text m) \<in> set k_models"
proof -
  have "lookup ts c None = Some t \<Longrightarrow> lookup ts c (Some d) = Some t" for ts c t d
    by (induction ts) (auto split: if_splits)
  then show ?thesis
    using assms lookup_SomeD [of k_models m]
    by (auto simp: mag_model_known_def mag_model_text_def)
qed

text \<open>
  A model number against its name: the name's first run of digits is watts in hundreds followed by
  the battery volts.
\<close>

definition name_digits :: "string \<Rightarrow> string" where
  "name_digits nm = takeWhile is_digit (dropWhile (\<lambda>c. \<not> is_digit c) nm)"

definition name_volts :: "string \<Rightarrow> int" where
  "name_volts nm = (let ds = name_digits nm in atoi_digits (drop (length ds - 2) ds))"

definition model_row_ok :: "int \<times> string \<Rightarrow> bool" where
  "model_row_ok r = (case r of (m, nm) \<Rightarrow>
     lookup k_models m None = Some nm \<and> 0 \<le> m \<and> m \<le> 150 \<and> name_volts nm = 12 * mag_multiplier m \<and>
     600 \<le> mag_model_rated_w m \<and> mag_model_rated_w m \<le> 4400)"

lemma model_rows_ok: "list_all model_row_ok k_models"
  by code_simp

lemma known_model_row: "mag_model_known m \<Longrightarrow> model_row_ok (m, mag_model_text m)"
  using known_in_table [of m] model_rows_ok by (auto simp: list_all_iff)

lemma known_model_le: "mag_model_known m \<Longrightarrow> m \<le> 150"
  using known_model_row [of m] by (simp add: model_row_ok_def)

text \<open>
  For every known model the multiplier computed from the number agrees with the battery voltage in
  the model's name (12, 24 or 48 V), and the rating read from the name is a positive number of
  watts, 600 to 4400.
\<close>

theorem mag_models_consistent:
  assumes "mag_model_known m"
  shows "12 * mag_multiplier m = name_volts (mag_model_text m) \<and>
    600 \<le> mag_model_rated_w m \<and> mag_model_rated_w m \<le> 4400"
  using known_model_row [OF assms] by (simp add: model_row_ok_def)

theorem mag_models_consistent_witness:
  "12 * mag_multiplier 0x73 = name_volts (mag_model_text 0x73) \<and>
    600 \<le> mag_model_rated_w 0x73 \<and> mag_model_rated_w 0x73 \<le> 4400"
proof -
  have "mag_model_known 0x73" by code_simp
  then show ?thesis by (rule mag_models_consistent)
qed

end
