(* ===== verification/MagFrame.thy ===== *)
theory MagFrame
  imports MagTables
begin

section \<open>Framing the Magnum RS-485 bus (src/magnum/mag_frame.c)\<close>

text \<open>
  The framer cuts a passive tap's byte stream into inverter, remote and reply packets by content.
  The theory models its whole state (\<open>mag_frame_t\<close>) and every function of the file, in their
  order. The callback \<open>fn\<close> is modelled by the sequence of its calls, \<open>calls\<close>. The C arrays
  \<open>buf[0..len)\<close> and \<open>held[0..nheld)\<close> are lists, whose lengths are \<open>len\<close> and \<open>nheld\<close>.
\<close>

subsection \<open>Packets, statistics, state\<close>

datatype mag_pkt = MAG_PKT_UNKNOWN | MAG_PKT_INVERTER | MAG_PKT_REMOTE | MAG_PKT_AGS_A1
  | MAG_PKT_AGS_A2 | MAG_PKT_BMK_81 | MAG_PKT_RTR_91 | MAG_PKT_PT_C1 | MAG_PKT_PT_C2
  | MAG_PKT_PT_C3 | MAG_PKT_ACLD_D1

definition MAG_BUF_SIZE :: nat where "MAG_BUF_SIZE = 4096"
definition MAG_INV_LEN :: nat where "MAG_INV_LEN = 21"
definition MAG_REMOTE_LEN :: nat where "MAG_REMOTE_LEN = 21"
definition MAG_IDLE_S :: cdouble where "MAG_IDLE_S = 60 / 1000"
definition MAG_PROBE_S :: cdouble where "MAG_PROBE_S = 1"
definition MAG_RELEARN_BYTES :: u64 where "MAG_RELEARN_BYTES = 4096"
definition MAG_HELD_MAX :: nat where "MAG_HELD_MAX = 4"

record mag_frame_stats =
  bytes_read :: u64
  packets :: "mag_pkt \<Rightarrow> u64"
  bad_packets :: u64
  unknown_bytes :: u64
  resyncs :: u64
  ff_bytes :: u64

datatype mag_fstate = ST_HUNT | ST_AFTER_INV | ST_AFTER_REMOTE

type_synonym mag_call = "mag_pkt \<times> byte list \<times> cdouble"

record mag_frame =
  buf :: "byte list"
  fstate :: mag_fstate
  synced :: bool
  have_id :: bool
  inv_model :: byte
  inv_revision :: byte
  probing :: bool
  probe_model :: byte
  probe_revision :: byte
  held :: "(mag_pkt \<times> byte list) list"
  since_inv :: u64
  last_rx :: cdouble
  st :: mag_frame_stats
  has_fn :: bool
  calls :: "mag_call list"

definition stats_zero :: mag_frame_stats where
  "stats_zero = \<lparr>bytes_read = 0, packets = (\<lambda>_. 0), bad_packets = 0, unknown_bytes = 0,
     resyncs = 0, ff_bytes = 0\<rparr>"

definition mag_frame_init :: "bool \<Rightarrow> mag_frame" where
  "mag_frame_init fn = \<lparr>buf = [], fstate = ST_HUNT, synced = False, have_id = False,
     inv_model = 0, inv_revision = 0, probing = False, probe_model = 0, probe_revision = 0,
     held = [], since_inv = 0, last_rx = 0, st = stats_zero, has_fn = fn, calls = []\<rparr>"

definition mag_frame_reset_stream :: "mag_frame \<Rightarrow> mag_frame" where
  "mag_frame_reset_stream f = f\<lparr>buf := [], fstate := ST_HUNT, synced := False, since_inv := 0,
     probing := False, held := []\<rparr>"

definition mag_frame_reset_stats :: "mag_frame \<Rightarrow> mag_frame" where
  "mag_frame_reset_stats f = f\<lparr>st := stats_zero\<rparr>"

subsection \<open>What the bytes look like\<close>

definition be16s :: "byte \<Rightarrow> byte \<Rightarrow> int" where
  "be16s hi lo = sint (be16 hi lo)"

definition mag_reply_len :: "byte \<Rightarrow> nat" where
  "mag_reply_len b =
     (if b = 0x91 then 2 else if b = 0xA1 then 6 else if b = 0xA2 then 6
      else if b = 0xD1 then 8 else if b = 0xC2 then 13 else if b = 0xC3 then 14
      else if b = 0xC1 then 16 else if b = 0x81 then 18 else 0)"

definition reply_type :: "byte \<Rightarrow> mag_pkt" where
  "reply_type b =
     (if b = 0x91 then MAG_PKT_RTR_91 else if b = 0xA1 then MAG_PKT_AGS_A1
      else if b = 0xA2 then MAG_PKT_AGS_A2 else if b = 0xD1 then MAG_PKT_ACLD_D1
      else if b = 0xC2 then MAG_PKT_PT_C2 else if b = 0xC3 then MAG_PKT_PT_C3
      else if b = 0xC1 then MAG_PKT_PT_C1 else if b = 0x81 then MAG_PKT_BMK_81
      else MAG_PKT_UNKNOWN)"

definition remote_type_ok :: "byte \<Rightarrow> bool" where
  "remote_type_ok b \<longleftrightarrow>
     b \<in> {0x00, 0x11, 0x80, 0xA0, 0xA1, 0xA2, 0xA3, 0xA4, 0xC0, 0xC1, 0xC2, 0xC3, 0xD0}"

text \<open>\<open>p\<close> stands for a pointer into the buffer: the list from there on, of which 21 are read.\<close>

definition mag_frame_is_inverter :: "mag_frame \<Rightarrow> byte list \<Rightarrow> bool" where
  "mag_frame_is_inverter f p =
     (if p ! 20 \<noteq> 0x00 then False
      else if (if have_id f then p ! 14 \<noteq> inv_model f \<or> p ! 10 \<noteq> inv_revision f
               else \<not> mag_model_known (uint (p ! 14)) \<or> \<not> mag_stackmode_known (uint (p ! 15)))
      then False
      else let freq = be16s (p ! 18) (p ! 19) in
        if freq \<noteq> 0 \<and> (freq < 400 \<or> 700 < freq) then False
        else if 150 < p ! 11 \<or> 150 < p ! 12 \<or> 150 < p ! 13 then False
        else let mult = mag_multiplier (uint (p ! 14)); vdc = be16s (p ! 2) (p ! 3) in
          if vdc < 0 \<or> 120 * mult * 2 < vdc then False else True)"

definition reply_ok :: "byte list \<Rightarrow> bool" where
  "reply_ok p =
     (if p ! 0 = 0xA1 then 0 \<le> sint (p ! 1) \<and> sint (p ! 1) \<le> 27
      else if p ! 0 = 0x81 then 0 \<le> sint (p ! 1) \<and> sint (p ! 1) \<le> 100
      else True)"

subsection \<open>Delivering, holding and skipping\<close>

definition add_unknown :: "nat \<Rightarrow> mag_frame \<Rightarrow> mag_frame" where
  "add_unknown n f = f\<lparr>st := (st f)\<lparr>unknown_bytes := unknown_bytes (st f) + of_nat n\<rparr>\<rparr>"

definition deliver :: "mag_frame \<Rightarrow> mag_pkt \<Rightarrow> byte list \<Rightarrow> mag_frame" where
  "deliver f t p =
     (let f = (if t \<noteq> MAG_PKT_UNKNOWN
               then f\<lparr>st := (st f)\<lparr>packets := (packets (st f))(t := packets (st f) t + 1)\<rparr>\<rparr> else f)
      in if has_fn f then f\<lparr>calls := calls f @ [(t, p, last_rx f)]\<rparr> else f)"

definition held_flush :: "mag_frame \<Rightarrow> mag_frame" where
  "held_flush f = (foldl (\<lambda>g (t, p). deliver g t p) f (held f))\<lparr>held := []\<rparr>"

definition held_drop :: "mag_frame \<Rightarrow> mag_frame" where
  "held_drop f =
     (foldl (\<lambda>g (t, p). deliver (add_unknown (length p) g) MAG_PKT_UNKNOWN p) f (held f))
       \<lparr>held := [], probing := False\<rparr>"

definition emit :: "mag_frame \<Rightarrow> mag_pkt \<Rightarrow> byte list \<Rightarrow> mag_frame" where
  "emit f t p =
     (if probing f \<and> t \<noteq> MAG_PKT_UNKNOWN
      then (if length (held f) < MAG_HELD_MAX \<and> length p \<le> MAG_INV_LEN
            then f\<lparr>held := held f @ [(t, p)]\<rparr>
            else deliver (add_unknown (length p) (held_drop f)) MAG_PKT_UNKNOWN p)
      else deliver f t p)"

definition skip :: "mag_frame \<Rightarrow> nat \<Rightarrow> mag_frame" where
  "skip f n =
     (if n = 0 then f
      else let f = (if probing f then held_drop f else f);
               f = emit (add_unknown n f) MAG_PKT_UNKNOWN (take n (buf f))
           in if synced f then f\<lparr>st := (st f)\<lparr>resyncs := resyncs (st f) + 1\<rparr>, synced := False\<rparr> else f)"

subsection \<open>The three states\<close>

datatype used = Changed | Used nat

function hunt_scan :: "mag_frame \<Rightarrow> byte list \<Rightarrow> nat \<Rightarrow> nat" where
  "hunt_scan f p i =
     (if length p < MAG_INV_LEN then i
      else if mag_frame_is_inverter f p then i
      else hunt_scan f (tl p) (i + 1))"
  by pat_completeness auto
termination
  by (relation "measure (\<lambda>(f, p, i). length p)") (auto simp: MAG_INV_LEN_def)

declare hunt_scan.simps [simp del]

definition hunt_learn :: "mag_frame \<Rightarrow> mag_frame" where
  "hunt_learn f =
     (if \<not> have_id f then
        (if probing f \<and> synced f \<and> buf f ! 14 = probe_model f \<and> buf f ! 10 = probe_revision f
         then held_flush (f\<lparr>probing := False, have_id := True, inv_model := buf f ! 14,
                            inv_revision := buf f ! 10\<rparr>)
         else (if probing f then held_drop f else f)
                \<lparr>probing := True, probe_model := buf f ! 14, probe_revision := buf f ! 10\<rparr>)
      else f)"

definition hunt :: "mag_frame \<Rightarrow> used \<times> mag_frame" where
  "hunt f =
     (if length (buf f) < MAG_INV_LEN then (Used 0, f)
      else let i = hunt_scan f (buf f) 0 in
        if length (buf f) < i + MAG_INV_LEN
        then let drop = length (buf f) - (MAG_INV_LEN - 1) in (Used drop, skip f drop)
        else if 0 < i then (Used i, skip f i)
        else let f = (hunt_learn f)\<lparr>since_inv := 0, synced := True\<rparr>
             in (Used MAG_INV_LEN,
                 (emit f MAG_PKT_INVERTER (take MAG_INV_LEN (buf f)))\<lparr>fstate := ST_AFTER_INV\<rparr>))"

definition turnaround_byte :: "byte \<Rightarrow> bool" where
  "turnaround_byte b \<longleftrightarrow> b = 0xFF \<or> b = 0xFE \<or> b = 0xFC \<or> b = 0xF8 \<or> b = 0xF0"

definition add_bad :: "mag_frame \<Rightarrow> mag_frame" where
  "add_bad f = f\<lparr>st := (st f)\<lparr>bad_packets := bad_packets (st f) + 1\<rparr>\<rparr>"

definition after_inv_packet :: "mag_frame \<Rightarrow> used \<times> mag_frame" where
  "after_inv_packet f =
     (let p = buf f in
      if remote_type_ok (p ! 20) \<and> \<not> (p ! 20 = 0x00 \<and> mag_frame_is_inverter f p)
      then (Used MAG_REMOTE_LEN,
            (emit f MAG_PKT_REMOTE (take MAG_REMOTE_LEN p))\<lparr>fstate := ST_AFTER_REMOTE\<rparr>)
      else if mag_frame_is_inverter f p then (Changed, f\<lparr>fstate := ST_HUNT\<rparr>)
      else (Changed, (add_bad f)\<lparr>fstate := ST_HUNT\<rparr>))"

definition after_inv :: "mag_frame \<Rightarrow> used \<times> mag_frame" where
  "after_inv f =
     (let p = buf f in
      if length p < MAG_REMOTE_LEN then (Used 0, f)
      else if turnaround_byte (p ! 0) then
        (if length p < MAG_REMOTE_LEN + 1 then (Used 0, f)
         else if remote_type_ok (p ! MAG_REMOTE_LEN) \<or> mag_frame_is_inverter f (tl p)
         then (Used 1, f)
         else after_inv_packet f)
      else after_inv_packet f)"

definition after_remote :: "mag_frame \<Rightarrow> used \<times> mag_frame" where
  "after_remote f =
     (if length (buf f) < 1 then (Used 0, f)
      else let n = mag_reply_len (buf f ! 0) in
        if n = 0 then (Changed, f\<lparr>fstate := ST_HUNT\<rparr>)
        else if length (buf f) < n then (Used 0, f)
        else let f = f\<lparr>fstate := ST_HUNT\<rparr> in
          if \<not> reply_ok (buf f) then (Changed, add_bad f)
          else (Used n, emit f (reply_type (buf f ! 0)) (take n (buf f))))"

definition consume :: "mag_frame \<Rightarrow> nat \<Rightarrow> mag_frame" where
  "consume f n = f\<lparr>buf := drop n (buf f)\<rparr>"

definition frame_step :: "mag_frame \<Rightarrow> used \<times> mag_frame" where
  "frame_step f = (case fstate f of ST_HUNT \<Rightarrow> hunt f | ST_AFTER_INV \<Rightarrow> after_inv f
     | ST_AFTER_REMOTE \<Rightarrow> after_remote f)"

subsection \<open>What the operations leave alone\<close>

text \<open>
  Delivering, holding and skipping touch only the statistics, the held packets, the calls and the
  probation: \<open>ctl f = ctl g\<close> says that buffer, position, known inverter, clock and callback agree.
\<close>

definition ctl :: "mag_frame \<Rightarrow> byte list \<times> mag_fstate \<times> bool \<times> byte \<times> byte \<times> cdouble \<times> bool" where
  "ctl f = (buf f, fstate f, have_id f, inv_model f, inv_revision f, last_rx f, has_fn f)"

lemma ctl_add_unknown [simp]: "ctl (add_unknown n f) = ctl f"
  by (simp add: ctl_def add_unknown_def)

lemma ctl_deliver [simp]: "ctl (deliver f t p) = ctl f"
  by (simp add: ctl_def deliver_def Let_def)

lemma ctl_held_upd [simp]: "ctl (f\<lparr>held := h\<rparr>) = ctl f" "ctl (f\<lparr>held := h, probing := b\<rparr>) = ctl f"
  by (simp_all add: ctl_def)

lemma ctl_foldl: "(\<And>g x. ctl (h g x) = ctl g) \<Longrightarrow> ctl (foldl h f xs) = ctl f"
  by (induction xs arbitrary: f) simp_all

lemma ctl_held_flush [simp]: "ctl (held_flush f) = ctl f"
  by (simp add: held_flush_def ctl_foldl split_beta)

lemma ctl_held_drop [simp]: "ctl (held_drop f) = ctl f"
  by (simp add: held_drop_def ctl_foldl split_beta)

lemma ctl_emit [simp]: "ctl (emit f t p) = ctl f"
  by (simp add: emit_def)

lemma ctl_skip [simp]: "ctl (skip f n) = ctl f"
  by (auto simp: skip_def Let_def ctl_def [of "_\<lparr>st := _, synced := _\<rparr>"])
    (simp_all add: ctl_def [symmetric])

lemma ctl_fields:
  assumes "ctl f = ctl g"
  shows "buf f = buf g" "fstate f = fstate g" "have_id f = have_id g" "inv_model f = inv_model g"
    "inv_revision f = inv_revision g" "last_rx f = last_rx g" "has_fn f = has_fn g"
  using assms by (simp_all add: ctl_def)

lemmas ctl_simps [simp] =
  ctl_fields [OF ctl_add_unknown] ctl_fields [OF ctl_deliver] ctl_fields [OF ctl_held_flush]
  ctl_fields [OF ctl_held_drop] ctl_fields [OF ctl_emit] ctl_fields [OF ctl_skip]

lemma buf_hunt_learn [simp]: "buf (hunt_learn f) = buf f"
  by (simp add: hunt_learn_def)

lemma buf_frame_step: "frame_step f = (u, f') \<Longrightarrow> buf f' = buf f"
  by (auto simp: frame_step_def hunt_def after_inv_def after_inv_packet_def after_remote_def
      add_bad_def Let_def split: mag_fstate.splits if_splits)

lemma frame_step_progress:
  "frame_step f = (Changed, f') \<Longrightarrow> fstate f \<noteq> ST_HUNT \<and> fstate f' = ST_HUNT"
  "frame_step f = (Used n, f') \<Longrightarrow> 0 < n \<Longrightarrow> buf f \<noteq> []"
  by (auto simp: frame_step_def hunt_def after_inv_def after_inv_packet_def after_remote_def
      add_bad_def Let_def MAG_INV_LEN_def MAG_REMOTE_LEN_def split: mag_fstate.splits if_splits)

lemma frame_step_shrinks:
  "frame_step f = (Changed, f') \<Longrightarrow> length (buf f') = length (buf f)"
  "frame_step f = (Used n, f') \<Longrightarrow> 0 < n \<Longrightarrow> length (buf f') - n < length (buf f)"
  using buf_frame_step [of f _ f'] frame_step_progress(2) [of f n f'] by auto

subsection \<open>The processing loop\<close>

function process :: "mag_frame \<Rightarrow> mag_frame" where
  "process f =
     (case frame_step f of
        (Changed, f') \<Rightarrow> process f'
      | (Used n, f') \<Rightarrow> (if n = 0 then f' else process (consume f' n)))"
  by pat_completeness auto
termination
  by (relation "measures [\<lambda>f. length (buf f), \<lambda>f. if fstate f = ST_HUNT then 0 else 1]")
    (auto simp: consume_def frame_step_shrinks [OF sym] dest: frame_step_progress(1) [OF sym])

declare process.simps [simp del]

text \<open>
  \<open>advance\<close> is one turn of the loop, \<open>None\<close> where it returns. The loop's result is reached by
  turns, and no turn is possible there.
\<close>

definition advance :: "mag_frame \<Rightarrow> mag_frame option" where
  "advance f =
     (case frame_step f of
        (Changed, f') \<Rightarrow> Some f'
      | (Used n, f') \<Rightarrow> (if n = 0 then None else Some (consume f' n)))"

lemma frame_step_waits: "frame_step f = (Used 0, f') \<Longrightarrow> f' = f"
  by (auto simp: frame_step_def hunt_def after_inv_def after_inv_packet_def after_remote_def
      MAG_INV_LEN_def MAG_REMOTE_LEN_def Let_def split: mag_fstate.splits if_splits)

lemma process_advance:
  "process f = (case advance f of None \<Rightarrow> f | Some g \<Rightarrow> process g)"
  by (subst process.simps) (auto simp: advance_def frame_step_waits split: prod.splits used.splits)

lemma process_inv:
  assumes "\<And>f g. P f \<Longrightarrow> advance f = Some g \<Longrightarrow> P g" and "P f"
  shows "P (process f)"
  using assms(2)
proof (induction f rule: process.induct)
  case (1 f)
  show ?case
  proof (cases "advance f")
    case None
    then show ?thesis using "1.prems" by (simp add: process_advance [of f])
  next
    case (Some g)
    then have "P g" using "1.prems" assms(1) by blast
    moreover have "frame_step f = (Changed, g) \<or> (\<exists>n f'. frame_step f = (Used n, f') \<and> n \<noteq> 0 \<and> g = consume f' n)"
      using Some by (auto simp: advance_def split: prod.splits used.splits if_splits)
    ultimately have "P (process g)" using "1.IH" by (metis used.exhaust)
    then show ?thesis using Some by (simp add: process_advance [of f])
  qed
qed

lemma advance_process: "advance (process f) = None"
proof (induction f rule: process.induct)
  case (1 f)
  show ?case
  proof (cases "advance f")
    case None
    then show ?thesis by (simp add: process_advance [of f])
  next
    case (Some g)
    then have "frame_step f = (Changed, g) \<or> (\<exists>n f'. frame_step f = (Used n, f') \<and> n \<noteq> 0 \<and> g = consume f' n)"
      by (auto simp: advance_def split: prod.splits used.splits if_splits)
    then have "advance (process g) = None" using "1.IH" by (metis used.exhaust)
    then show ?thesis using Some by (simp add: process_advance [of f])
  qed
qed

lemma mag_reply_len_le: "mag_reply_len b \<le> 18"
  by (simp add: mag_reply_len_def)

lemma advance_None_length: "advance f = None \<Longrightarrow> length (buf f) \<le> 21"
  using mag_reply_len_le [of "buf f ! 0"]
  by (auto simp: advance_def frame_step_def hunt_def after_inv_def after_inv_packet_def
      after_remote_def MAG_INV_LEN_def MAG_REMOTE_LEN_def Let_def
      split: mag_fstate.splits if_splits prod.splits used.splits)

subsection \<open>Entry points\<close>

text \<open>
  \<open>feed_loop\<close> is the \<open>while (n)\<close> of \<open>mag_frame_feed\<close>. With a full buffer that \<open>process\<close> cannot
  shorten it would not return, so its result is an option.
\<close>

partial_function (option) feed_loop :: "mag_frame \<Rightarrow> byte list \<Rightarrow> mag_frame option" where
  "feed_loop f data =
     (if data = [] then Some f
      else let room = MAG_BUF_SIZE - length (buf f); k = min (length data) room
           in feed_loop (process (f\<lparr>buf := buf f @ take k data\<rparr>)) (drop k data))"

declare feed_loop.simps [code]

definition feed_start :: "mag_frame \<Rightarrow> byte list \<Rightarrow> cdouble \<Rightarrow> mag_frame" where
  "feed_start f data now =
     (let n = of_nat (length data);
          f = f\<lparr>last_rx := now,
                st := (st f)\<lparr>bytes_read := bytes_read (st f) + n,
                             ff_bytes := ff_bytes (st f) + of_nat (length (filter (\<lambda>b. b = 0xFF) data))\<rparr>,
                since_inv := since_inv f + n\<rparr>
      in if have_id f \<and> MAG_RELEARN_BYTES < since_inv f then f\<lparr>have_id := False\<rparr> else f)"

definition mag_frame_feed :: "mag_frame \<Rightarrow> byte list \<Rightarrow> cdouble \<Rightarrow> mag_frame option" where
  "mag_frame_feed f data now =
     (if data = [] then Some f else feed_loop (feed_start f data now) data)"

definition mag_frame_idle :: "mag_frame \<Rightarrow> cdouble \<Rightarrow> mag_frame" where
  "mag_frame_idle f now =
     (let f = (if probing f \<and> MAG_PROBE_S \<le> now - last_rx f then held_drop f else f)
      in if buf f = [] \<or> now - last_rx f < MAG_IDLE_S then f
         else let f = (if fstate f \<noteq> ST_HUNT then add_bad f else f);
                  f = emit (add_unknown (length (buf f)) f) MAG_PKT_UNKNOWN (buf f)
              in f\<lparr>buf := [], fstate := ST_HUNT\<rparr>)"

definition mag_frame_classify :: "mag_frame \<Rightarrow> byte list \<Rightarrow> nat \<Rightarrow> mag_pkt \<times> nat \<times> mag_frame" where
  "mag_frame_classify f p len =
     (let n = (if len = 22 then 21 else if len = 17 then 16 else len) in
      if n = MAG_INV_LEN then
        (if mag_frame_is_inverter f p
         then (MAG_PKT_INVERTER, n,
               if have_id f then f
               else f\<lparr>have_id := True, inv_model := p ! 14, inv_revision := p ! 10\<rparr>)
         else (if remote_type_ok (p ! 20) then MAG_PKT_REMOTE else MAG_PKT_UNKNOWN, n, f))
      else if n \<noteq> 0 \<and> mag_reply_len (p ! 0) = n then (reply_type (p ! 0), n, f)
      else (MAG_PKT_UNKNOWN, n, f))"

definition remote_names :: "(byte \<times> string) list" where
  "remote_names =
     [(0x00, ''REMOTE_00''), (0x11, ''REMOTE_11''), (0x80, ''REMOTE_80''), (0xA0, ''REMOTE_A0''),
      (0xA1, ''REMOTE_A1''), (0xA2, ''REMOTE_A2''), (0xA3, ''REMOTE_A3''), (0xA4, ''REMOTE_A4''),
      (0xC0, ''REMOTE_C0''), (0xC1, ''REMOTE_C1''), (0xC2, ''REMOTE_C2''), (0xC3, ''REMOTE_C3''),
      (0xD0, ''REMOTE_D0'')]"

text \<open>\<open>p\<close> is \<open>None\<close> for a null pointer; \<open>len\<close> is passed beside it.\<close>

fun mag_pkt_name :: "mag_pkt \<Rightarrow> byte list option \<Rightarrow> nat \<Rightarrow> string" where
  "mag_pkt_name MAG_PKT_INVERTER p len = ''INVERTER''"
| "mag_pkt_name MAG_PKT_AGS_A1 p len = ''AGS_A1''"
| "mag_pkt_name MAG_PKT_AGS_A2 p len = ''AGS_A2''"
| "mag_pkt_name MAG_PKT_BMK_81 p len = ''BMK_81''"
| "mag_pkt_name MAG_PKT_RTR_91 p len = ''RTR_91''"
| "mag_pkt_name MAG_PKT_PT_C1 p len = ''PT_C1''"
| "mag_pkt_name MAG_PKT_PT_C2 p len = ''PT_C2''"
| "mag_pkt_name MAG_PKT_PT_C3 p len = ''PT_C3''"
| "mag_pkt_name MAG_PKT_ACLD_D1 p len = ''ACLD_D1''"
| "mag_pkt_name MAG_PKT_REMOTE p len =
     (case p of
        Some bs \<Rightarrow>
          (if MAG_REMOTE_LEN \<le> len
           then (case map_of remote_names (bs ! 20) of Some nm \<Rightarrow> nm | None \<Rightarrow> ''REMOTE'')
           else ''REMOTE'')
      | None \<Rightarrow> ''REMOTE'')"
| "mag_pkt_name MAG_PKT_UNKNOWN p len = ''UNKNOWN''"

end
