(* ===== verification/MagStream.thy ===== *)
theory MagStream
  imports MagFrame
begin

section \<open>The byte stream through the framer\<close>

text \<open>
  What \<open>mag_frame_feed\<close> does to the stream as a whole: it always returns and keeps at most a
  packet's worth of bytes back; everything it is fed comes out in order, once, except the stray
  turnaround bytes; the statistics agree with the calls; and nothing but well-formed packets of
  one confirmed inverter is delivered.
\<close>

subsection \<open>Feeding returns\<close>

lemma feed_loop_rule:
  assumes "length (buf f) < MAG_BUF_SIZE"
    and nil: "\<And>f. R f [] f"
    and step: "\<And>f k data g. 0 < k \<Longrightarrow> k \<le> length data \<Longrightarrow>
      R (process (f\<lparr>buf := buf f @ take k data\<rparr>)) (drop k data) g \<Longrightarrow> R f data g"
  shows "\<exists>g. feed_loop f data = Some g \<and> R f data g \<and> (data \<noteq> [] \<longrightarrow> length (buf g) \<le> 21)"
  using assms(1)
proof (induction "length data" arbitrary: f data rule: less_induct)
  case less
  show ?case
  proof (cases "data = []")
    case True
    then show ?thesis using nil by (simp add: feed_loop.simps)
  next
    case False
    define k where "k = min (length data) (MAG_BUF_SIZE - length (buf f))"
    define f1 where "f1 = process (f\<lparr>buf := buf f @ take k data\<rparr>)"
    have k: "0 < k" "k \<le> length data" using less.prems False by (auto simp: k_def)
    have short: "length (buf f1) \<le> 21"
      unfolding f1_def by (intro advance_None_length advance_process)
    then have "\<exists>g. feed_loop f1 (drop k data) = Some g \<and> R f1 (drop k data) g \<and>
        (drop k data \<noteq> [] \<longrightarrow> length (buf g) \<le> 21)"
      using k False by (intro less.hyps) (auto simp: MAG_BUF_SIZE_def)
    then obtain g where g: "feed_loop f1 (drop k data) = Some g" "R f1 (drop k data) g"
      "drop k data \<noteq> [] \<longrightarrow> length (buf g) \<le> 21" by blast
    have "feed_loop f data = Some g"
      using g(1) False by (subst feed_loop.simps) (simp add: Let_def k_def f1_def)
    moreover have "R f data g" using step [OF k, of f g] g(2) by (simp add: f1_def)
    moreover have "length (buf g) \<le> 21"
    proof (cases "drop k data = []")
      case True
      then show ?thesis using g(1) short by (simp add: feed_loop.simps)
    qed (use g(3) in blast)
    ultimately show ?thesis by blast
  qed
qed

lemma feed_start_simps [simp]:
  "buf (feed_start f data now) = buf f" "fstate (feed_start f data now) = fstate f"
  "held (feed_start f data now) = held f" "probing (feed_start f data now) = probing f"
  "calls (feed_start f data now) = calls f" "has_fn (feed_start f data now) = has_fn f"
  "synced (feed_start f data now) = synced f" "inv_model (feed_start f data now) = inv_model f"
  "inv_revision (feed_start f data now) = inv_revision f"
  "probe_model (feed_start f data now) = probe_model f"
  "probe_revision (feed_start f data now) = probe_revision f"
  by (simp_all add: feed_start_def Let_def)

lemma mag_frame_feed_returns:
  assumes "length (buf f) < MAG_BUF_SIZE"
  shows "\<exists>g. mag_frame_feed f data now = Some g \<and> (data \<noteq> [] \<longrightarrow> length (buf g) \<le> 21)"
  using feed_loop_rule [of "feed_start f data now" "\<lambda>_ _ _. True" data] assms
  by (auto simp: mag_frame_feed_def)

text \<open>A relation between states that every turn respects holds across a feed.\<close>

lemma mag_frame_feed_rule:
  assumes "length (buf f) < MAG_BUF_SIZE" and "mag_frame_feed f data now = Some g"
    and "data \<noteq> [] \<Longrightarrow> P (feed_start f data now)" and "data = [] \<Longrightarrow> P f"
    and "\<And>f xs. P f \<Longrightarrow> P (f\<lparr>buf := buf f @ xs\<rparr>)"
    and "\<And>f h. P f \<Longrightarrow> advance f = Some h \<Longrightarrow> P h"
  shows "P g"
proof (cases "data = []")
  case True
  then show ?thesis using assms(2,4) by (simp add: mag_frame_feed_def)
next
  case False
  have "\<exists>g. feed_loop (feed_start f data now) data = Some g \<and> (P (feed_start f data now) \<longrightarrow> P g) \<and>
      (data \<noteq> [] \<longrightarrow> length (buf g) \<le> 21)"
    by (rule feed_loop_rule) (use assms(1,5,6) process_inv [of P] in auto)
  then show ?thesis using False assms(2,3) by (auto simp: mag_frame_feed_def)
qed

subsection \<open>Order\<close>

definition sent :: "mag_frame \<Rightarrow> byte list" where
  "sent f = concat (map (\<lambda>(t, p, tm). p) (calls f))"

definition kept :: "mag_frame \<Rightarrow> byte list" where
  "kept f = concat (map snd (held f))"

definition stream :: "mag_frame \<Rightarrow> byte list" where
  "stream f = sent f @ kept f @ buf f"

definition hold_inv :: "mag_frame \<Rightarrow> bool" where
  "hold_inv f \<longleftrightarrow> has_fn f \<and> (\<not> probing f \<longrightarrow> held f = [])"

inductive stray_removed :: "byte list \<Rightarrow> byte list \<Rightarrow> bool" where
  stray_nil [simp]: "stray_removed [] []"
| stray_keep: "stray_removed xs ys \<Longrightarrow> stray_removed (x # xs) (x # ys)"
| stray_drop: "turnaround_byte x \<Longrightarrow> stray_removed xs ys \<Longrightarrow> stray_removed (x # xs) ys"

lemma stray_removed_refl [simp]: "stray_removed xs xs"
  by (induction xs) (auto intro: stray_removed.intros)

lemma stray_removed_append:
  "stray_removed xs ys \<Longrightarrow> stray_removed us vs \<Longrightarrow> stray_removed (xs @ us) (ys @ vs)"
  by (induction rule: stray_removed.induct) (auto intro: stray_removed.intros)

lemma stray_removed_trans: "stray_removed xs ys \<Longrightarrow> stray_removed ys zs \<Longrightarrow> stray_removed xs zs"
proof (induction arbitrary: zs rule: stray_removed.induct)
  case (stray_keep xs ys x)
  from stray_keep.prems show ?case
    by (cases rule: stray_removed.cases) (auto intro: stray_removed.intros stray_keep.IH)
qed (auto intro: stray_removed.intros)

lemma stray_removed_subseq: "stray_removed xs ys \<Longrightarrow> subseq ys xs"
  by (induction rule: stray_removed.induct) auto

lemma add_unknown_fields [simp]:
  "calls (add_unknown n f) = calls f" "held (add_unknown n f) = held f"
  "probing (add_unknown n f) = probing f" "synced (add_unknown n f) = synced f"
  "probe_model (add_unknown n f) = probe_model f" "probe_revision (add_unknown n f) = probe_revision f"
  by (simp_all add: add_unknown_def)

lemma deliver_fields [simp]:
  "held (deliver f t p) = held f" "probing (deliver f t p) = probing f"
  "synced (deliver f t p) = synced f" "probe_model (deliver f t p) = probe_model f"
  "probe_revision (deliver f t p) = probe_revision f"
  "calls (deliver f t p) = (if has_fn f then calls f @ [(t, p, last_rx f)] else calls f)"
  by (simp_all add: deliver_def Let_def)

lemma held_flush_fields:
  "held (held_flush f) = []" "probing (held_flush f) = probing f" "synced (held_flush f) = synced f"
  "has_fn f \<Longrightarrow> calls (held_flush f) = calls f @ map (\<lambda>(t, p). (t, p, last_rx f)) (held f)"
proof -
  have "probing (foldl (\<lambda>g (t, p). deliver g t p) f xs) = probing f \<and>
    synced (foldl (\<lambda>g (t, p). deliver g t p) f xs) = synced f \<and>
    (has_fn f \<longrightarrow> calls (foldl (\<lambda>g (t, p). deliver g t p) f xs) =
       calls f @ map (\<lambda>(t, p). (t, p, last_rx f)) xs)" for xs
    by (induction xs arbitrary: f) (auto simp: split_beta)
  then show "held (held_flush f) = []" "probing (held_flush f) = probing f"
    "synced (held_flush f) = synced f"
    "has_fn f \<Longrightarrow> calls (held_flush f) = calls f @ map (\<lambda>(t, p). (t, p, last_rx f)) (held f)"
    by (simp_all add: held_flush_def)
qed

lemma held_drop_fields:
  "held (held_drop f) = []" "\<not> probing (held_drop f)" "synced (held_drop f) = synced f"
  "has_fn f \<Longrightarrow> calls (held_drop f) =
     calls f @ map (\<lambda>(t, p). (MAG_PKT_UNKNOWN, p, last_rx f)) (held f)"
proof -
  let ?h = "\<lambda>g (t :: mag_pkt, p). deliver (add_unknown (length p) g) MAG_PKT_UNKNOWN p"
  have "synced (foldl ?h f xs) = synced f \<and>
    (has_fn f \<longrightarrow> calls (foldl ?h f xs) = calls f @ map (\<lambda>(t, p). (MAG_PKT_UNKNOWN, p, last_rx f)) xs)" for xs
    by (induction xs arbitrary: f) (auto simp: split_beta)
  then show "held (held_drop f) = []" "\<not> probing (held_drop f)" "synced (held_drop f) = synced f"
    "has_fn f \<Longrightarrow> calls (held_drop f) =
       calls f @ map (\<lambda>(t, p). (MAG_PKT_UNKNOWN, p, last_rx f)) (held f)"
    by (simp_all add: held_drop_def)
qed

lemmas hold_fields [simp] = held_flush_fields held_drop_fields

definition acc :: "mag_frame \<Rightarrow> byte list" where
  "acc f = sent f @ kept f"

lemma stream_acc: "stream f = acc f @ buf f"
  by (simp add: stream_def acc_def)

lemma acc_fields: "calls f = calls g \<Longrightarrow> held f = held g \<Longrightarrow> acc f = acc g"
  by (simp add: acc_def sent_def kept_def)

lemma acc_upd [simp]:
  "acc (f\<lparr>st := s\<rparr>) = acc f" "acc (f\<lparr>st := s, synced := b\<rparr>) = acc f"
  "acc (f\<lparr>fstate := q\<rparr>) = acc f" "acc (f\<lparr>since_inv := k, synced := b\<rparr>) = acc f"
  "acc (f\<lparr>buf := bs\<rparr>) = acc f" "acc (f\<lparr>held := held f @ [(t, p)]\<rparr>) = acc f @ p"
  "acc (f\<lparr>probing := b, probe_model := m, probe_revision := r\<rparr>) = acc f"
  "acc (f\<lparr>probing := b, have_id := i, inv_model := m, inv_revision := r\<rparr>) = acc f"
  by (simp_all add: acc_def sent_def kept_def)

lemma acc_add_unknown [simp]: "acc (add_unknown n f) = acc f"
  by (rule acc_fields) simp_all

lemma acc_held_drop [simp]: "has_fn f \<Longrightarrow> acc (held_drop f) = acc f"
  by (simp add: acc_def sent_def kept_def split_beta comp_def)

lemma acc_held_flush [simp]: "has_fn f \<Longrightarrow> acc (held_flush f) = acc f"
  by (simp add: acc_def sent_def kept_def split_beta comp_def)

lemma acc_deliver: "has_fn f \<Longrightarrow> held f = [] \<Longrightarrow> acc (deliver f t p) = acc f @ p"
  by (simp add: acc_def sent_def kept_def)

lemma acc_emit:
  assumes "hold_inv f" and "probing f \<longrightarrow> t \<noteq> MAG_PKT_UNKNOWN"
  shows "acc (emit f t p) = acc f @ p"
proof (cases "probing f")
  case True
  then show ?thesis using assms by (simp add: emit_def acc_deliver hold_inv_def)
next
  case False
  then show ?thesis using assms by (simp add: emit_def acc_deliver hold_inv_def)
qed

lemma hold_inv_emit: "hold_inv f \<Longrightarrow> hold_inv (emit f t p)"
  by (auto simp: emit_def hold_inv_def)

lemma skip_probing: "0 < n \<Longrightarrow> \<not> probing (skip f n)"
  by (simp add: skip_def Let_def emit_def)

lemma acc_skip: "hold_inv f \<Longrightarrow> acc (skip f n) = acc f @ take n (buf f)"
proof -
  assume inv: "hold_inv f"
  define g where "g = add_unknown n (if probing f then held_drop f else f)"
  have g: "hold_inv g" "\<not> probing g" "acc g = acc f" "buf g = buf f"
    using inv by (auto simp: g_def hold_inv_def)
  then have "acc (emit g MAG_PKT_UNKNOWN (take n (buf g))) = acc f @ take n (buf f)"
    by (simp add: acc_emit)
  moreover have "acc (skip f n) = acc (emit g MAG_PKT_UNKNOWN (take n (buf g)))" if "n \<noteq> 0"
    using that by (simp add: skip_def g_def [symmetric] Let_def g(4))
  ultimately show ?thesis by (cases "n = 0") (simp_all add: skip_def)
qed

lemma hold_inv_skip: "hold_inv f \<Longrightarrow> hold_inv (skip f n)"
  by (auto simp: skip_def Let_def hold_inv_def emit_def)


lemma hold_inv_hunt_learn: "hold_inv f \<Longrightarrow> hold_inv (hunt_learn f)"
  by (auto simp: hunt_learn_def hold_inv_def)

lemma acc_hunt_learn: "hold_inv f \<Longrightarrow> acc (hunt_learn f) = acc f"
  by (auto simp: hunt_learn_def hold_inv_def)

text \<open>One turn moves the bytes it consumes to the calls or the held packets, or drops a stray byte.\<close>

definition turn_ok :: "mag_frame \<Rightarrow> used \<times> mag_frame \<Rightarrow> bool" where
  "turn_ok f r \<longleftrightarrow>
     (case r of (u, g) \<Rightarrow> hold_inv g \<and> buf g = buf f \<and>
        (case u of Changed \<Rightarrow> acc g = acc f
         | Used n \<Rightarrow> acc g = acc f @ take n (buf f) \<or>
             n = 1 \<and> acc g = acc f \<and> buf f \<noteq> [] \<and> turnaround_byte (hd (buf f))))"

lemma hold_inv_upd [simp]:
  "hold_inv (f\<lparr>fstate := q\<rparr>) = hold_inv f" "hold_inv (f\<lparr>since_inv := k, synced := b\<rparr>) = hold_inv f"
  "hold_inv (f\<lparr>buf := bs\<rparr>) = hold_inv f" "hold_inv (add_bad f) = hold_inv f"
  by (simp_all add: hold_inv_def add_bad_def)

lemma acc_add_bad [simp]: "acc (add_bad f) = acc f"
  by (simp add: add_bad_def)

lemma buf_add_bad [simp]: "buf (add_bad f) = buf f"
  by (simp add: add_bad_def)

lemma hunt_turn: "hold_inv f \<Longrightarrow> turn_ok f (hunt f)"
proof -
  assume inv: "hold_inv f"
  define g where "g = (hunt_learn f)\<lparr>since_inv := 0, synced := True\<rparr>"
  have "hold_inv g" "acc g = acc f" "buf g = buf f"
    using inv by (simp_all add: g_def hold_inv_hunt_learn acc_hunt_learn)
  then have "turn_ok f (Used MAG_INV_LEN, (emit g MAG_PKT_INVERTER (take MAG_INV_LEN (buf g)))
      \<lparr>fstate := ST_AFTER_INV\<rparr>)"
    by (simp add: turn_ok_def hold_inv_emit acc_emit)
  then show ?thesis
    using inv unfolding hunt_def Let_def g_def [symmetric]
    by (auto simp: turn_ok_def hold_inv_skip acc_skip)
qed

lemma after_inv_packet_turn: "hold_inv f \<Longrightarrow> turn_ok f (after_inv_packet f)"
  by (simp add: after_inv_packet_def turn_ok_def hold_inv_emit acc_emit Let_def)

lemma after_inv_turn: "hold_inv f \<Longrightarrow> turn_ok f (after_inv f)"
  using after_inv_packet_turn [of f]
  by (auto simp: after_inv_def Let_def MAG_REMOTE_LEN_def)
    (auto simp: turn_ok_def hd_conv_nth)

lemma reply_type_known: "mag_reply_len b \<noteq> 0 \<Longrightarrow> reply_type b \<noteq> MAG_PKT_UNKNOWN"
  by (simp add: mag_reply_len_def reply_type_def split: if_splits)

lemma after_remote_turn: "hold_inv f \<Longrightarrow> turn_ok f (after_remote f)"
  using reply_type_known [of "buf f ! 0"]
  by (auto simp: after_remote_def turn_ok_def hold_inv_emit acc_emit Let_def)

lemma frame_step_turn: "hold_inv f \<Longrightarrow> turn_ok f (frame_step f)"
  by (simp add: frame_step_def hunt_turn after_inv_turn after_remote_turn split: mag_fstate.split)

lemma advance_stream:
  assumes "hold_inv f" and "advance f = Some g"
  shows "hold_inv g \<and> stray_removed (stream f) (stream g)"
proof -
  obtain u h where fs: "frame_step f = (u, h)" by force
  then have turn: "turn_ok f (u, h)" using frame_step_turn [OF assms(1)] by simp
  show ?thesis
  proof (cases u)
    case Changed
    then have "g = h" using assms(2) fs by (simp add: advance_def)
    then show ?thesis using turn Changed by (simp add: turn_ok_def stream_acc)
  next
    case (Used n)
    then have g: "g = consume h n" using assms(2) fs by (simp add: advance_def split: if_splits)
    have acc: "acc g = acc h" "buf g = drop n (buf f)" "hold_inv g"
      using turn Used by (simp_all add: g consume_def turn_ok_def)
    consider "acc h = acc f @ take n (buf f)"
      | "n = 1" "acc h = acc f" "buf f \<noteq> []" "turnaround_byte (hd (buf f))"
      using turn Used by (auto simp: turn_ok_def)
    then show ?thesis
    proof cases
      case 1
      then show ?thesis using acc by (simp add: stream_acc)
    next
      case 2
      then have "stray_removed (buf f) (drop 1 (buf f))"
        by (cases "buf f") (auto intro: stray_drop)
      then show ?thesis
        using acc 2 stray_removed_append [OF stray_removed_refl [of "acc f"]]
        by (simp add: stream_acc)
    qed
  qed
qed

lemma process_stream:
  "hold_inv f \<Longrightarrow> hold_inv (process f) \<and> stray_removed (stream f) (stream (process f))"
  by (rule process_inv [where P = "\<lambda>g. hold_inv g \<and> stray_removed (stream f) (stream g)"])
    (auto dest: advance_stream intro: stray_removed_trans)

text \<open>
  C8: Feeding bytes loses and reorders nothing: the bytes of the calls, of the held packets and of the
  buffer, in this order, are the ones before the feed followed by the new ones, except for removed
  turnaround bytes (0xFF, 0xFE, 0xFC, 0xF8, 0xF0).
\<close>

theorem mag_frame_feed_keeps_stream:
  assumes "hold_inv f" and "length (buf f) < MAG_BUF_SIZE"
    and "mag_frame_feed f data now = Some g"
  shows "hold_inv g \<and> stray_removed (stream f @ data) (stream g)"
proof -
  have start: "hold_inv (feed_start f data now)" "stream (feed_start f data now) = stream f"
    using assms(1) by (simp_all add: hold_inv_def stream_def sent_def kept_def)
  have "\<exists>g. feed_loop (feed_start f data now) data = Some g \<and>
      (hold_inv (feed_start f data now) \<longrightarrow>
         hold_inv g \<and> stray_removed (stream (feed_start f data now) @ data) (stream g)) \<and>
      (data \<noteq> [] \<longrightarrow> length (buf g) \<le> 21)"
  proof (rule feed_loop_rule)
    fix f :: mag_frame and k and data :: "byte list" and g
    let ?f1 = "f\<lparr>buf := buf f @ take k data\<rparr>"
    assume "k \<le> length data" and IH: "hold_inv (process ?f1) \<longrightarrow>
      hold_inv g \<and> stray_removed (stream (process ?f1) @ drop k data) (stream g)"
    show "hold_inv f \<longrightarrow> hold_inv g \<and> stray_removed (stream f @ data) (stream g)"
    proof
      assume "hold_inv f"
      then have p: "hold_inv (process ?f1) \<and> stray_removed (stream ?f1) (stream (process ?f1))"
        by (intro process_stream) simp
      have "stream f @ data = stream ?f1 @ drop k data"
        by (simp add: stream_acc)
      then have "stray_removed (stream f @ data) (stream (process ?f1) @ drop k data)"
        using p by (simp add: stray_removed_append)
      then show "hold_inv g \<and> stray_removed (stream f @ data) (stream g)"
        using p IH by (blast intro: stray_removed_trans)
    qed
  qed (use assms(2) in simp_all)
  then show ?thesis
    using start assms(1,3) by (auto simp: mag_frame_feed_def split: if_splits)
qed


subsection \<open>Statistics\<close>

definition n_calls :: "mag_pkt \<Rightarrow> mag_call list \<Rightarrow> nat" where
  "n_calls t cs = length (filter (\<lambda>(u, p, tm). u = t) cs)"

definition unknown_len :: "mag_call list \<Rightarrow> nat" where
  "unknown_len cs = sum_list (map (\<lambda>(t, p, tm). if t = MAG_PKT_UNKNOWN then length p else 0) cs)"

lemma n_calls_simps [simp]:
  "n_calls t [] = 0" "n_calls t (cs @ ds) = n_calls t cs + n_calls t ds"
  "n_calls t ((u, p, tm) # cs) = (if u = t then 1 else 0) + n_calls t cs"
  by (simp_all add: n_calls_def)

lemma unknown_len_simps [simp]:
  "unknown_len [] = 0" "unknown_len (cs @ ds) = unknown_len cs + unknown_len ds"
  "unknown_len ((t, p, tm) # cs) = (if t = MAG_PKT_UNKNOWN then length p else 0) + unknown_len cs"
  by (simp_all add: unknown_len_def)

text \<open>The counters are 64-bit words, so the counts are exact up to their wrap-around.\<close>

definition stats_ok :: "mag_frame \<Rightarrow> bool" where
  "stats_ok f \<longleftrightarrow> has_fn f \<and>
     unknown_bytes (st f) = of_nat (unknown_len (calls f)) \<and>
     (\<forall>t. t \<noteq> MAG_PKT_UNKNOWN \<longrightarrow> packets (st f) t = of_nat (n_calls t (calls f)))"

lemma stats_ok_deliver: "t \<noteq> MAG_PKT_UNKNOWN \<Longrightarrow> stats_ok f \<Longrightarrow> stats_ok (deliver f t p)"
  by (simp add: stats_ok_def deliver_def Let_def)

lemma stats_ok_unknown:
  "stats_ok f \<Longrightarrow> n = length p \<Longrightarrow> stats_ok (deliver (add_unknown n f) MAG_PKT_UNKNOWN p)"
  by (simp add: stats_ok_def deliver_def add_unknown_def Let_def)

lemma stats_ok_upd [simp]:
  "stats_ok (f\<lparr>fstate := q\<rparr>) = stats_ok f" "stats_ok (f\<lparr>since_inv := k, synced := b\<rparr>) = stats_ok f"
  "stats_ok (f\<lparr>buf := bs\<rparr>) = stats_ok f" "stats_ok (f\<lparr>held := h\<rparr>) = stats_ok f"
  "stats_ok (f\<lparr>held := h, probing := b\<rparr>) = stats_ok f" "stats_ok (add_bad f) = stats_ok f"
  "stats_ok (f\<lparr>probing := b, probe_model := m, probe_revision := r\<rparr>) = stats_ok f"
  "stats_ok (f\<lparr>probing := b, have_id := i, inv_model := m, inv_revision := r\<rparr>) = stats_ok f"
  "stats_ok (f\<lparr>st := (st f)\<lparr>resyncs := x\<rparr>, synced := b\<rparr>) = stats_ok f"
  by (simp_all add: stats_ok_def add_bad_def)

text \<open>A held packet is never of the unknown type.\<close>

definition held_known :: "mag_frame \<Rightarrow> bool" where
  "held_known f \<longleftrightarrow> (\<forall>(t, p) \<in> set (held f). t \<noteq> MAG_PKT_UNKNOWN)"

lemma stats_ok_held_drop: "stats_ok f \<Longrightarrow> stats_ok (held_drop f)"
proof -
  have "stats_ok f \<Longrightarrow> stats_ok (foldl (\<lambda>g (t :: mag_pkt, p).
      deliver (add_unknown (length p) g) MAG_PKT_UNKNOWN p) f xs)" for xs f
    by (induction xs arbitrary: f) (auto simp: stats_ok_unknown)
  then show "stats_ok f \<Longrightarrow> stats_ok (held_drop f)" by (simp add: held_drop_def)
qed

lemma stats_ok_held_flush: "stats_ok f \<Longrightarrow> held_known f \<Longrightarrow> stats_ok (held_flush f)"
proof -
  have "stats_ok f \<Longrightarrow> \<forall>(t, p) \<in> set xs. t \<noteq> MAG_PKT_UNKNOWN \<Longrightarrow>
      stats_ok (foldl (\<lambda>g (t, p). deliver g t p) f xs)" for xs f
    by (induction xs arbitrary: f) (auto simp: stats_ok_deliver)
  then show "stats_ok f \<Longrightarrow> held_known f \<Longrightarrow> stats_ok (held_flush f)"
    by (simp add: held_flush_def held_known_def)
qed

lemma stats_ok_emit: "stats_ok f \<Longrightarrow> t \<noteq> MAG_PKT_UNKNOWN \<Longrightarrow> stats_ok (emit f t p)"
  by (simp add: emit_def stats_ok_deliver stats_ok_unknown stats_ok_held_drop)

lemma stats_ok_skip: "stats_ok f \<Longrightarrow> n \<le> length (buf f) \<Longrightarrow> stats_ok (skip f n)"
proof -
  assume ok: "stats_ok f" and n: "n \<le> length (buf f)"
  define g where "g = (if probing f then held_drop f else f)"
  have "stats_ok g" "length (take n (buf g)) = n" "\<not> probing g \<or> True"
    using ok n by (simp_all add: g_def stats_ok_held_drop)
  then have "stats_ok (emit (add_unknown n g) MAG_PKT_UNKNOWN (take n (buf g)))"
    by (simp add: emit_def stats_ok_unknown)
  then show ?thesis using ok by (simp add: skip_def Let_def g_def)
qed

lemma held_known_fields [simp]:
  "held_known (f\<lparr>fstate := q\<rparr>) = held_known f"
  "held_known (f\<lparr>since_inv := k, synced := b\<rparr>) = held_known f"
  "held_known (f\<lparr>buf := bs\<rparr>) = held_known f" "held_known (add_bad f) = held_known f"
  "held_known (held_drop f)" "held_known (held_flush f)" "held_known (deliver f t p) = held_known f"
  "held_known (f\<lparr>probing := b, probe_model := m, probe_revision := r\<rparr>) = held_known f"
  "held_known (f\<lparr>probing := b, have_id := i, inv_model := m, inv_revision := r\<rparr>) = held_known f"
  "held_known (f\<lparr>st := s, synced := b\<rparr>) = held_known f"
  "held_known (add_unknown n f) = held_known f"
  by (simp_all add: held_known_def add_bad_def)

lemma held_known_emit: "held_known f \<Longrightarrow> held_known (emit f t p)"
proof -
  have "held_known (f\<lparr>held := held f @ [(t, p)]\<rparr>)" if "held_known f" "t \<noteq> MAG_PKT_UNKNOWN"
    using that by (auto simp: held_known_def)
  then show "held_known f \<Longrightarrow> held_known (emit f t p)" by (simp add: emit_def)
qed

lemma held_known_skip: "held_known f \<Longrightarrow> held_known (skip f n)"
  by (simp add: skip_def Let_def held_known_emit)

lemma held_known_hunt_learn: "held_known f \<Longrightarrow> held_known (hunt_learn f)"
  by (simp add: hunt_learn_def)

lemma frame_step_stats:
  assumes "stats_ok f" and "held_known f" and "frame_step f = (u, g)"
  shows "stats_ok g \<and> held_known g"
proof -
  define h where "h = (hunt_learn f)\<lparr>since_inv := 0, synced := True\<rparr>"
  have "stats_ok (hunt_learn f)"
    using assms(1,2) by (auto simp: hunt_learn_def stats_ok_held_drop intro!: stats_ok_held_flush)
  then have h: "stats_ok h" "held_known h"
    using assms(2) by (simp_all add: h_def held_known_hunt_learn)
  have hunt: "hunt f = (u, g) \<Longrightarrow> ?thesis"
    using assms(1,2) h unfolding hunt_def Let_def h_def [symmetric]
    by (auto simp: stats_ok_skip held_known_skip stats_ok_emit held_known_emit split: if_splits)
  have inv: "after_inv f = (u, g) \<Longrightarrow> ?thesis"
    using assms(1,2) unfolding after_inv_def after_inv_packet_def Let_def
    by (auto simp: stats_ok_emit held_known_emit split: if_splits)
  have rem: "after_remote f = (u, g) \<Longrightarrow> ?thesis"
    using assms(1,2) unfolding after_remote_def Let_def
    by (auto simp: stats_ok_emit held_known_emit reply_type_known split: if_splits)
  show ?thesis
    using assms(3) hunt inv rem by (simp add: frame_step_def split: mag_fstate.splits)
qed

lemma advance_stats:
  "stats_ok f \<and> held_known f \<Longrightarrow> advance f = Some g \<Longrightarrow> stats_ok g \<and> held_known g"
  using frame_step_stats [of f]
  by (auto simp: advance_def consume_def split: prod.splits used.splits if_splits)


subsection \<open>Reachable framers\<close>

text \<open>What a tap does with its framer: feed it, let it settle, forget the stream on a reopened port.\<close>

inductive mag_reachable :: "mag_frame \<Rightarrow> bool" where
  reach_init: "mag_reachable (mag_frame_init True)"
| reach_feed: "mag_reachable f \<Longrightarrow> mag_frame_feed f data now = Some g \<Longrightarrow> mag_reachable g"
| reach_idle: "mag_reachable f \<Longrightarrow> mag_reachable (mag_frame_idle f now)"
| reach_reset: "mag_reachable f \<Longrightarrow> mag_reachable (mag_frame_reset_stream f)"

lemma feed_loop_inv:
  assumes turn: "\<And>f g. P f \<Longrightarrow> advance f = Some g \<Longrightarrow> P g"
    and grow: "\<And>f xs. P f \<Longrightarrow> P (f\<lparr>buf := buf f @ xs\<rparr>)"
    and ret: "feed_loop f data = Some g" and start: "P f"
  shows "P g"
proof -
  have "P f \<longrightarrow> P g"
  proof (rule feed_loop.raw_induct [where P = "\<lambda>f data g. P f \<longrightarrow> P g", OF _ ret])
    fix feed f data g
    assume IH: "\<And>f data g. feed f data = Some g \<Longrightarrow> P f \<longrightarrow> P g"
      and eq: "(if data = [] then Some f
        else let room = MAG_BUF_SIZE - length (buf f); k = min (length data) room
             in feed (process (f\<lparr>buf := buf f @ take k data\<rparr>)) (drop k data)) = Some g"
    show "P f \<longrightarrow> P g"
      using eq IH process_inv [of P, OF turn] grow by (fastforce simp: Let_def split: if_splits)
  qed
  then show ?thesis using start by blast
qed

text \<open>
  The contract of a framer invariant: it holds at the start and every entry point and every turn
  of the loop keeps it. Then it holds in every reachable framer.
\<close>

locale frame_invariant =
  fixes P :: "mag_frame \<Rightarrow> bool"
  assumes init: "P (mag_frame_init True)"
    and start: "P f \<Longrightarrow> P (feed_start f data now)"
    and grow: "P f \<Longrightarrow> P (f\<lparr>buf := buf f @ xs\<rparr>)"
    and turn: "P f \<Longrightarrow> advance f = Some g \<Longrightarrow> P g"
    and idle: "P f \<Longrightarrow> P (mag_frame_idle f now)"
    and reset: "P f \<Longrightarrow> P (mag_frame_reset_stream f)"
begin

lemma feed: "P f \<Longrightarrow> mag_frame_feed f data now = Some g \<Longrightarrow> P g"
  using feed_loop_inv [of P "feed_start f data now" data g] start turn grow
  by (auto simp: mag_frame_feed_def split: if_splits)

lemma reachable: "mag_reachable f \<Longrightarrow> P f"
  by (induction rule: mag_reachable.induct) (blast intro: init idle reset feed)+

end

text \<open>\<open>mag_frame_idle\<close> as a sequence of updates, and what it leaves.\<close>

lemma mag_frame_idle_cases:
  obtains (quiet) "mag_frame_idle f now = f \<or> mag_frame_idle f now = held_drop f"
  | (tail) g where "g = f \<or> g = held_drop f \<or> g = add_bad f \<or> g = add_bad (held_drop f)"
      "mag_frame_idle f now = (emit (add_unknown (length (buf g)) g) MAG_PKT_UNKNOWN (buf g))
         \<lparr>buf := [], fstate := ST_HUNT\<rparr>"
proof -
  define f1 where "f1 = (if probing f \<and> MAG_PROBE_S \<le> now - last_rx f then held_drop f else f)"
  define g where "g = (if fstate f1 \<noteq> ST_HUNT then add_bad f1 else f1)"
  have f1: "f1 = f \<or> f1 = held_drop f" by (simp add: f1_def)
  have buf: "buf g = buf f1" by (simp add: g_def)
  show thesis
  proof (cases "buf f1 = [] \<or> now - last_rx f1 < MAG_IDLE_S")
    case True
    then have "mag_frame_idle f now = f1"
      by (simp add: mag_frame_idle_def Let_def f1_def [symmetric])
    then show ?thesis using f1 quiet by metis
  next
    case False
    have "mag_frame_idle f now = (emit (add_unknown (length (buf g)) g) MAG_PKT_UNKNOWN (buf g))
         \<lparr>buf := [], fstate := ST_HUNT\<rparr>"
      using False by (simp add: mag_frame_idle_def Let_def f1_def [symmetric] g_def [symmetric] buf)
    moreover have "g = f \<or> g = held_drop f \<or> g = add_bad f \<or> g = add_bad (held_drop f)"
      using f1 by (auto simp: g_def)
    ultimately show ?thesis using tail by blast
  qed
qed

lemma emit_unknown [simp]: "emit f MAG_PKT_UNKNOWN p = deliver f MAG_PKT_UNKNOWN p"
  by (simp add: emit_def)

interpretation stats: frame_invariant "\<lambda>f. stats_ok f \<and> held_known f"
proof unfold_locales
  show "stats_ok (mag_frame_init True) \<and> held_known (mag_frame_init True)"
    by (simp add: mag_frame_init_def stats_ok_def held_known_def stats_zero_def)
next
  fix f data now
  assume "stats_ok f \<and> held_known f"
  then show "stats_ok (feed_start f data now) \<and> held_known (feed_start f data now)"
    by (simp add: stats_ok_def held_known_def feed_start_def Let_def)
next
  fix f now
  assume ok: "stats_ok f \<and> held_known f"
  show "stats_ok (mag_frame_idle f now) \<and> held_known (mag_frame_idle f now)"
  proof (cases rule: mag_frame_idle_cases [of f now])
    case quiet
    then show ?thesis using ok stats_ok_held_drop by auto
  next
    case (tail g)
    then have "stats_ok g \<and> held_known g" using ok stats_ok_held_drop by auto
    then show ?thesis
      using tail(2) stats_ok_unknown [of g "length (buf g)" "buf g"]
      by (simp add: stats_ok_def held_known_def)
  qed
next
  fix f
  assume "stats_ok f \<and> held_known f"
  then show "stats_ok (mag_frame_reset_stream f) \<and> held_known (mag_frame_reset_stream f)"
    by (simp add: mag_frame_reset_stream_def stats_ok_def held_known_def)
next
  fix f g
  assume "stats_ok f \<and> held_known f" and "advance f = Some g"
  then show "stats_ok g \<and> held_known g" by (rule advance_stats)
next
  fix f :: mag_frame and xs
  assume "stats_ok f \<and> held_known f"
  then show "stats_ok (f\<lparr>buf := buf f @ xs\<rparr>) \<and> held_known (f\<lparr>buf := buf f @ xs\<rparr>)" by simp
qed

lemma reach_buf: "mag_reachable f \<Longrightarrow> length (buf f) \<le> 21"
proof (induction rule: mag_reachable.induct)
  case (reach_feed f data now g)
  then show ?case
    using mag_frame_feed_returns [of f data now] by (cases "data = []") (auto simp: MAG_BUF_SIZE_def mag_frame_feed_def)
next
  case (reach_idle f now)
  then show ?case
    by (cases rule: mag_frame_idle_cases [of f now]) auto
qed (simp_all add: mag_frame_init_def mag_frame_reset_stream_def)

text \<open>
  C21: Feeding a reachable framer always returns, whatever the bytes and however many: the loop that
  fills the 4096-byte buffer and processes it never sees it full, and at most 21 bytes stay.
\<close>

theorem mag_feed_total:
  assumes "mag_reachable f"
  shows "\<exists>g. mag_frame_feed f data now = Some g \<and> mag_reachable g \<and> length (buf g) \<le> 21"
proof -
  obtain g where g: "mag_frame_feed f data now = Some g"
    using mag_frame_feed_returns [of f data now] reach_buf [OF assms] by (auto simp: MAG_BUF_SIZE_def)
  then have "mag_reachable g" using assms reach_feed by blast
  then show ?thesis using g reach_buf by blast
qed

text \<open>
  In every reachable framer the statistics agree with what was delivered: each packet type's
  counter is the number of its calls, and \<open>unknown_bytes\<close> is the total length of the unknown runs
  (both modulo 2^64).
\<close>

theorem mag_stats_agree_with_calls:
  assumes "mag_reachable f"
  shows "unknown_bytes (st f) = of_nat (unknown_len (calls f)) \<and>
    (t \<noteq> MAG_PKT_UNKNOWN \<longrightarrow> packets (st f) t = of_nat (n_calls t (calls f)))"
  using stats.reachable [OF assms] by (simp add: stats_ok_def)

subsection \<open>A sample bus\<close>

text \<open>
  Two cycles of a 48 V inverter (model 0x73, 50.5 V), its remote and a battery monitor, as the
  concrete input of the witnesses; \<open>sample_tap\<close> is the framer after reading them.
\<close>

definition sample_inv :: "byte list" where
  "sample_inv = [0x40, 0, 0x01, 0xF9, 0, 0x10, 120, 0, 1, 0, 0x32, 25, 40, 38, 0x73, 0, 0, 5,
     0x02, 0x58, 0]"

definition sample_rem :: "byte list" where
  "sample_rem = [0, 5, 20, 121, 100, 30, 0x30, 1, 0, 121, 155, 132, 10, 20, 0, 0, 0, 0, 0, 0, 0x80]"

definition sample_bmk :: "byte list" where
  "sample_bmk = [0x81, 97, 0x14, 0x50, 0xFF, 0xF0, 0x12, 0x00, 0x16, 0x00, 0, 5, 0, 10, 0, 20, 0x10, 1]"

definition sample_bus :: "byte list" where
  "sample_bus = sample_inv @ sample_rem @ sample_bmk @ sample_inv @ sample_rem"

definition sample_tap :: mag_frame where
  "sample_tap = the (mag_frame_feed (mag_frame_init True) sample_bus 1)"

lemma sample_tap_calls:
  "calls sample_tap = [(MAG_PKT_INVERTER, sample_inv, 1), (MAG_PKT_REMOTE, sample_rem, 1),
     (MAG_PKT_BMK_81, sample_bmk, 1), (MAG_PKT_INVERTER, sample_inv, 1), (MAG_PKT_REMOTE, sample_rem, 1)]"
  by code_simp

lemma sample_tap_state: "have_id sample_tap \<and> inv_model sample_tap = 0x73 \<and> buf sample_tap = []"
  by code_simp

lemma sample_tap_feed: "mag_frame_feed (mag_frame_init True) sample_bus 1 = Some sample_tap"
  using mag_frame_feed_returns [of "mag_frame_init True" sample_bus 1]
  by (auto simp: sample_tap_def mag_frame_init_def MAG_BUF_SIZE_def)

lemma sample_tap_reachable: "mag_reachable sample_tap"
  by (rule reach_feed [OF reach_init sample_tap_feed])

lemma start_reachable: "mag_reachable (mag_frame_init True)"
  by (rule reach_init)

theorem mag_feed_total_witness:
  "\<exists>g. mag_frame_feed sample_tap sample_bus 2 = Some g \<and> mag_reachable g \<and> length (buf g) \<le> 21"
  by (rule mag_feed_total [OF sample_tap_reachable])

theorem mag_frame_feed_keeps_stream_witness:
  "hold_inv sample_tap \<and>
   stray_removed (stream (mag_frame_init True) @ sample_bus) (stream sample_tap)"
  by (rule mag_frame_feed_keeps_stream [OF _ _ sample_tap_feed])
    (simp_all add: hold_inv_def mag_frame_init_def MAG_BUF_SIZE_def)

theorem mag_stats_agree_with_calls_witness:
  "unknown_bytes (st sample_tap) = of_nat (unknown_len (calls sample_tap)) \<and>
   packets (st sample_tap) MAG_PKT_REMOTE = of_nat (n_calls MAG_PKT_REMOTE (calls sample_tap))"
  using mag_stats_agree_with_calls [OF sample_tap_reachable, of MAG_PKT_REMOTE] by simp

end
