(* ===== verification/MagSafety.thy ===== *)
theory MagSafety
  imports MagStream
begin

section \<open>What the framer delivers\<close>

text \<open>
  Two invariants of the framer, proved once per turn and lifted to every reachable framer by the
  contract \<open>frame_invariant\<close>: every packet it delivers has the shape of its type, and an inverter
  packet is delivered only for an inverter that two packets one cycle apart have confirmed.
\<close>

subsection \<open>Shapes\<close>

definition inv_plausible :: "byte list \<Rightarrow> bool" where
  "inv_plausible p \<longleftrightarrow> p ! 20 = 0 \<and> mag_model_known (uint (p ! 14)) \<and>
     (be16s (p ! 18) (p ! 19) = 0 \<or> 400 \<le> be16s (p ! 18) (p ! 19) \<and> be16s (p ! 18) (p ! 19) \<le> 700) \<and>
     p ! 11 \<le> 150 \<and> p ! 12 \<le> 150 \<and> p ! 13 \<le> 150 \<and> 0 \<le> be16s (p ! 2) (p ! 3) \<and>
     be16s (p ! 2) (p ! 3) \<le> 240 * mag_multiplier (uint (p ! 14))"

definition pkt_shape :: "mag_pkt \<Rightarrow> byte list \<Rightarrow> bool" where
  "pkt_shape t p \<longleftrightarrow>
     (case t of
        MAG_PKT_UNKNOWN \<Rightarrow> True
      | MAG_PKT_INVERTER \<Rightarrow> length p = MAG_INV_LEN \<and> inv_plausible p
      | MAG_PKT_REMOTE \<Rightarrow> length p = MAG_REMOTE_LEN \<and> remote_type_ok (p ! 20)
      | _ \<Rightarrow> reply_type (p ! 0) = t \<and> length p = mag_reply_len (p ! 0) \<and> reply_ok p)"

definition shaped :: "mag_frame \<Rightarrow> bool" where
  "shaped f \<longleftrightarrow> has_fn f \<and> (\<forall>(t, p, tm) \<in> set (calls f). pkt_shape t p) \<and>
     (\<forall>(t, p) \<in> set (held f). pkt_shape t p) \<and>
     (have_id f \<longrightarrow> mag_model_known (uint (inv_model f)))"

lemma pkt_shape_unknown [simp]: "pkt_shape MAG_PKT_UNKNOWN p"
  by (simp add: pkt_shape_def)

lemma shaped_upd [simp]:
  "shaped (f\<lparr>fstate := q\<rparr>) = shaped f" "shaped (f\<lparr>since_inv := k, synced := b\<rparr>) = shaped f"
  "shaped (f\<lparr>buf := bs\<rparr>) = shaped f" "shaped (add_bad f) = shaped f"
  "shaped (f\<lparr>buf := bs, fstate := q\<rparr>) = shaped f"
  "shaped (f\<lparr>probing := c, probe_model := m, probe_revision := r\<rparr>) = shaped f"
  "mag_model_known (uint m) \<Longrightarrow>
    shaped (f\<lparr>probing := c, have_id := True, inv_model := m, inv_revision := r\<rparr>) =
    (has_fn f \<and> (\<forall>(t, p, tm) \<in> set (calls f). pkt_shape t p) \<and> (\<forall>(t, p) \<in> set (held f). pkt_shape t p))"
  "shaped (f\<lparr>st := s, synced := b\<rparr>) = shaped f" "shaped (add_unknown n f) = shaped f"
  by (simp_all add: shaped_def add_bad_def)

lemma shaped_deliver: "shaped f \<Longrightarrow> pkt_shape t p \<Longrightarrow> shaped (deliver f t p)"
  by (auto simp: shaped_def)

lemma shaped_held_drop: "shaped f \<Longrightarrow> shaped (held_drop f)"
  by (auto simp: shaped_def)

lemma shaped_held_flush: "shaped f \<Longrightarrow> shaped (held_flush f)"
  by (auto simp: shaped_def)

lemma shaped_emit: "shaped f \<Longrightarrow> pkt_shape t p \<Longrightarrow> shaped (emit f t p)"
proof -
  have "shaped (f\<lparr>held := held f @ [(t, p)]\<rparr>)" if "shaped f" "pkt_shape t p"
    using that by (auto simp: shaped_def)
  then show "shaped f \<Longrightarrow> pkt_shape t p \<Longrightarrow> shaped (emit f t p)"
    by (simp add: emit_def shaped_deliver shaped_held_drop)
qed

lemma shaped_skip: "shaped f \<Longrightarrow> shaped (skip f n)"
  by (simp add: skip_def Let_def shaped_deliver shaped_held_drop)

lemma hunt_scan_ge: "i \<le> hunt_scan f p i"
  by (induction f p i rule: hunt_scan.induct) (subst hunt_scan.simps, auto)

lemma hunt_scan_start:
  assumes "hunt_scan f p i = i" and "\<not> length p < MAG_INV_LEN"
  shows "mag_frame_is_inverter f p"
  using assms hunt_scan_ge [of "i + 1" f "tl p"] by (simp add: hunt_scan.simps [of f p i] split: if_splits)

lemma is_inverter_plausible:
  assumes "shaped f" and "mag_frame_is_inverter f p"
  shows "inv_plausible p"
  using assms unfolding mag_frame_is_inverter_def inv_plausible_def shaped_def Let_def
  by (auto simp: not_less split: if_splits)

lemma inverter_shape:
  assumes "shaped f" and "mag_frame_is_inverter f p" and "\<not> length p < MAG_INV_LEN"
  shows "pkt_shape MAG_PKT_INVERTER (take MAG_INV_LEN p)"
  using is_inverter_plausible [OF assms(1,2)] assms(3)
  by (simp add: pkt_shape_def inv_plausible_def MAG_INV_LEN_def)

lemma shaped_hunt_learn:
  assumes "shaped f" and "mag_frame_is_inverter f (buf f)"
  shows "shaped (hunt_learn f)"
proof -
  have "mag_model_known (uint (buf f ! 14))"
    using is_inverter_plausible [OF assms] by (simp add: inv_plausible_def)
  then show ?thesis
    using assms(1)
    by (auto simp: hunt_learn_def intro!: shaped_held_drop shaped_held_flush)
      (auto simp: shaped_def)
qed

lemma reply_type_cases:
  "mag_reply_len b \<noteq> 0 \<Longrightarrow> reply_type b \<notin> {MAG_PKT_UNKNOWN, MAG_PKT_INVERTER, MAG_PKT_REMOTE}"
  by (simp add: mag_reply_len_def reply_type_def split: if_splits)

lemma reply_shape:
  assumes "mag_reply_len (p ! 0) \<noteq> 0" and "mag_reply_len (p ! 0) \<le> length p" and "reply_ok p"
  shows "pkt_shape (reply_type (p ! 0)) (take (mag_reply_len (p ! 0)) p)"
proof -
  have two: "2 \<le> mag_reply_len (p ! 0)"
    using assms(1) by (simp add: mag_reply_len_def split: if_splits)
  then have "take (mag_reply_len (p ! 0)) p ! 0 = p ! 0" "take (mag_reply_len (p ! 0)) p ! 1 = p ! 1"
    by simp_all
  then have "reply_ok (take (mag_reply_len (p ! 0)) p)"
    using assms(3) unfolding reply_ok_def by (simp only:)
  then show ?thesis
    using reply_type_cases [OF assms(1)] two assms(2)
    by (simp add: pkt_shape_def split: mag_pkt.splits)
qed

lemma hunt_shaped:
  assumes ok: "shaped f" and ret: "hunt f = (u, g)"
  shows "shaped g"
proof (cases "length (buf f) < MAG_INV_LEN \<or> 0 < hunt_scan f (buf f) 0")
  case True
  then show ?thesis using assms by (auto simp: hunt_def Let_def shaped_skip split: if_splits)
next
  case False
  define h where "h = (hunt_learn f)\<lparr>since_inv := 0, synced := True\<rparr>"
  have isinv: "mag_frame_is_inverter f (buf f)" using False by (intro hunt_scan_start) auto
  then have h: "shaped h" "buf h = buf f"
    using ok by (simp_all add: h_def shaped_hunt_learn)
  have "pkt_shape MAG_PKT_INVERTER (take MAG_INV_LEN (buf f))"
    using inverter_shape [OF ok isinv] False by simp
  moreover have "g = (emit h MAG_PKT_INVERTER (take MAG_INV_LEN (buf h)))\<lparr>fstate := ST_AFTER_INV\<rparr>"
    using ret False by (simp add: hunt_def Let_def h_def [symmetric])
  ultimately show ?thesis using h by (simp add: shaped_emit)
qed

lemma frame_step_shaped:
  assumes "shaped f" and "frame_step f = (u, g)"
  shows "shaped g"
proof -
  have inv: "after_inv f = (u, g) \<Longrightarrow> ?thesis"
    using assms(1) unfolding after_inv_def after_inv_packet_def Let_def
    by (auto simp: pkt_shape_def MAG_REMOTE_LEN_def intro!: shaped_emit split: if_splits)
  have rem: "after_remote f = (u, g) \<Longrightarrow> ?thesis"
    using assms(1) reply_shape [of "buf f"] unfolding after_remote_def Let_def
    by (auto intro!: shaped_emit split: if_splits)
  show ?thesis
    using assms inv rem hunt_shaped by (simp add: frame_step_def split: mag_fstate.splits)
qed

interpretation shape: frame_invariant shaped
proof unfold_locales
  show "shaped (mag_frame_init True)"
    by (simp add: mag_frame_init_def shaped_def)
next
  fix f :: mag_frame and data now
  assume "shaped f"
  then show "shaped (feed_start f data now)" by (simp add: shaped_def feed_start_def Let_def)
next
  fix f now
  assume ok: "shaped f"
  show "shaped (mag_frame_idle f now)"
  proof (cases rule: mag_frame_idle_cases [of f now])
    case quiet
    then show ?thesis using ok shaped_held_drop by auto
  next
    case (tail g)
    then have "shaped g" using ok shaped_held_drop by auto
    then show ?thesis using tail(2) by (simp add: shaped_deliver)
  qed
next
  fix f :: mag_frame
  assume "shaped f"
  then show "shaped (mag_frame_reset_stream f)"
    by (simp add: mag_frame_reset_stream_def shaped_def)
next
  fix f g
  assume "shaped f" and "advance f = Some g"
  then show "shaped g"
    using frame_step_shaped [of f]
    by (auto simp: advance_def consume_def split: prod.splits used.splits if_splits)
next
  fix f :: mag_frame and xs
  assume "shaped f"
  then show "shaped (f\<lparr>buf := buf f @ xs\<rparr>)" by simp
qed

text \<open>
  Every packet a reachable framer has delivered has the shape of its type: inverter packets are 21
  bytes ending in 0x00 with a known model and plausible voltage, frequency and temperatures, remote packets 21 bytes ending in a known poll byte, replies have the
  length their first byte announces and a plausible status or state of charge.
\<close>

theorem mag_delivered_shape:
  assumes "mag_reachable f" and "(t, p, tm) \<in> set (calls f)"
  shows "pkt_shape t p"
  using shape.reachable [OF assms(1)] assms(2) by (auto simp: shaped_def)


subsection \<open>One confirmed inverter\<close>

definition inv_held :: "mag_frame \<Rightarrow> byte list list" where
  "inv_held f = map snd (filter (\<lambda>(t, p). t = MAG_PKT_INVERTER) (held f))"

abbreviation n_inv :: "mag_frame \<Rightarrow> nat" where
  "n_inv f \<equiv> n_calls MAG_PKT_INVERTER (calls f)"

definition id_inv :: "mag_frame \<Rightarrow> bool" where
  "id_inv f \<longleftrightarrow> has_fn f \<and> n_inv f \<noteq> 1 \<and> (have_id f \<longrightarrow> 2 \<le> n_inv f \<and> \<not> probing f) \<and>
     (if probing f
      then \<exists>p. inv_held f = [p] \<and> p ! 14 = probe_model f \<and> p ! 10 = probe_revision f
      else held f = [])"

text \<open>
  What a turn may add to the calls: inverter packets only of the inverter known after it, which a
  turn never changes once it is known.
\<close>

definition id_calls :: "mag_frame \<Rightarrow> mag_frame \<Rightarrow> bool" where
  "id_calls f g \<longleftrightarrow>
     (have_id f \<longrightarrow> have_id g \<and> inv_model g = inv_model f \<and> inv_revision g = inv_revision f) \<and>
     (\<exists>new. calls g = calls f @ new \<and>
        (\<forall>(t, p, tm) \<in> set new. t = MAG_PKT_INVERTER \<longrightarrow>
           have_id g \<and> p ! 14 = inv_model g \<and> p ! 10 = inv_revision g))"

lemma id_calls_refl [simp]: "id_calls f f"
  by (simp add: id_calls_def)

lemma id_calls_trans: "id_calls f g \<Longrightarrow> id_calls g h \<Longrightarrow> id_calls f h"
  unfolding id_calls_def by (elim conjE exE) (intro conjI, simp, (rule exI)+, auto)

lemma n_calls_map_unknown [simp]:
  "n_calls MAG_PKT_INVERTER (map (\<lambda>(t, p). (MAG_PKT_UNKNOWN, p, tm)) xs) = 0"
  by (induction xs) auto

lemma n_calls_map [simp]:
  "n_calls MAG_PKT_INVERTER (map (\<lambda>(t, p). (t, p, tm)) xs) =
     length (filter (\<lambda>(t, p). t = MAG_PKT_INVERTER) xs)"
  by (induction xs) auto

lemma inv_held_length: "length (filter (\<lambda>(t, p). t = MAG_PKT_INVERTER) (held f)) = length (inv_held f)"
  by (simp add: inv_held_def)

lemma inv_held_mem: "(MAG_PKT_INVERTER, p) \<in> set (held f) \<Longrightarrow> p \<in> set (inv_held f)"
  by (force simp: inv_held_def)

lemma id_skip: "id_inv f \<Longrightarrow> id_inv (skip f n) \<and> id_calls f (skip f n)"
  by (auto simp: skip_def Let_def id_inv_def id_calls_def)

lemma id_emit_other:
  assumes "id_inv f" and "t \<noteq> MAG_PKT_INVERTER"
  shows "id_inv (emit f t p) \<and> id_calls f (emit f t p)"
  using assms by (auto simp: emit_def id_inv_def id_calls_def inv_held_def)

lemma id_upd [simp]:
  "id_inv (f\<lparr>fstate := q\<rparr>) = id_inv f" "id_inv (add_bad f) = id_inv f"
  "id_inv (f\<lparr>buf := bs\<rparr>) = id_inv f"
  "id_calls f (g\<lparr>fstate := q\<rparr>) = id_calls f g" "id_calls f (add_bad g) = id_calls f g"
  "id_calls f (g\<lparr>buf := bs\<rparr>) = id_calls f g"
  "id_calls (f\<lparr>fstate := q\<rparr>) g = id_calls f g"
  by (simp_all add: id_inv_def id_calls_def inv_held_def add_bad_def)

text \<open>The turn that takes a candidate at the front of the buffer, by what it makes of it.\<close>

lemma id_take_inverter:
  assumes inv: "id_inv f" and isinv: "mag_frame_is_inverter f (buf f)"
    and len: "\<not> length (buf f) < MAG_INV_LEN"
  defines "h \<equiv> (hunt_learn f)\<lparr>since_inv := 0, synced := True\<rparr>"
  defines "g \<equiv> emit h MAG_PKT_INVERTER (take MAG_INV_LEN (buf h))"
  shows "id_inv g \<and> id_calls f g"
proof -
  have b: "take MAG_INV_LEN (buf f) ! 14 = buf f ! 14" "take MAG_INV_LEN (buf f) ! 10 = buf f ! 10"
    by (simp_all add: MAG_INV_LEN_def)
  consider (known) "have_id f"
    | (confirm) "\<not> have_id f" "probing f" "synced f" "buf f ! 14 = probe_model f"
        "buf f ! 10 = probe_revision f"
    | (restart) "\<not> have_id f" "\<not> (probing f \<and> synced f \<and> buf f ! 14 = probe_model f \<and>
        buf f ! 10 = probe_revision f)"
    by blast
  then show ?thesis
  proof cases
    case known
    then have "buf f ! 14 = inv_model f" "buf f ! 10 = inv_revision f"
      using isinv by (auto simp: mag_frame_is_inverter_def split: if_splits)
    then show ?thesis
      using known inv b
      by (simp add: g_def h_def hunt_learn_def emit_def id_inv_def id_calls_def)
  next
    case confirm
    then obtain q where q: "inv_held f = [q]" "q ! 14 = probe_model f" "q ! 10 = probe_revision f"
      using inv by (auto simp: id_inv_def)
    have one: "length (filter (\<lambda>(t, p). t = MAG_PKT_INVERTER) (held f)) = 1"
      by (simp add: inv_held_length q)
    have mem: "p = q" if "(MAG_PKT_INVERTER, p) \<in> set (held f)" for p
      using inv_held_mem [OF that] q by simp
    show ?thesis
      using confirm inv b one q mem
      by (auto simp: g_def h_def hunt_learn_def emit_def id_inv_def id_calls_def)
  next
    case restart
    have "0 < MAG_HELD_MAX" by (simp add: MAG_HELD_MAX_def)
    then show ?thesis
      using restart inv b
      by (auto simp: g_def h_def hunt_learn_def emit_def id_inv_def id_calls_def inv_held_def)
  qed
qed

lemma frame_step_id:
  assumes inv: "id_inv f" and fs: "frame_step f = (u, g)"
  shows "id_inv g \<and> id_calls f g"
proof -
  have hunt: "hunt f = (u, g) \<Longrightarrow> ?thesis"
    using inv id_skip [OF inv] id_take_inverter [OF inv]
    unfolding hunt_def Let_def by (auto dest!: hunt_scan_start split: if_splits)
  have inv': "after_inv f = (u, g) \<Longrightarrow> ?thesis"
    using inv id_emit_other [OF inv] unfolding after_inv_def after_inv_packet_def Let_def
    by (auto split: if_splits)
  have rem: "after_remote f = (u, g) \<Longrightarrow> ?thesis"
    using inv id_emit_other [of "f\<lparr>fstate := ST_HUNT\<rparr>"] reply_type_cases [of "buf f ! 0"]
    unfolding after_remote_def Let_def
    by (auto split: if_splits)
  show ?thesis
    using fs hunt inv' rem by (simp add: frame_step_def split: mag_fstate.splits)
qed

lemma advance_id: "id_inv f \<Longrightarrow> advance f = Some g \<Longrightarrow> id_inv g \<and> id_calls f g"
  using frame_step_id [of f]
  by (auto simp: advance_def consume_def split: prod.splits used.splits if_splits)


lemma id_inv_feed_start: "id_inv f \<Longrightarrow> id_inv (feed_start f data now)"
  by (auto simp: id_inv_def inv_held_def feed_start_def Let_def)

interpretation known: frame_invariant id_inv
proof unfold_locales
  show "id_inv (mag_frame_init True)"
    by (simp add: mag_frame_init_def id_inv_def)
next
  fix f data now
  assume "id_inv f"
  then show "id_inv (feed_start f data now)" by (rule id_inv_feed_start)
next
  fix f now
  assume ok: "id_inv f"
  have drop: "id_inv (held_drop f)" using ok by (auto simp: id_inv_def)
  show "id_inv (mag_frame_idle f now)"
  proof (cases rule: mag_frame_idle_cases [of f now])
    case quiet
    then show ?thesis using ok drop by auto
  next
    case (tail g)
    then have "id_inv g" using ok drop by auto
    then show ?thesis using tail(2) by (auto simp: id_inv_def inv_held_def)
  qed
next
  fix f :: mag_frame
  assume "id_inv f"
  then show "id_inv (mag_frame_reset_stream f)"
    by (auto simp: mag_frame_reset_stream_def id_inv_def)
next
  fix f g
  assume "id_inv f" and "advance f = Some g"
  then show "id_inv g" using advance_id by blast
next
  fix f :: mag_frame and xs
  assume "id_inv f"
  then show "id_inv (f\<lparr>buf := buf f @ xs\<rparr>)" by simp
qed

text \<open>
  C13: A reachable framer has never delivered exactly one inverter packet: a single 21-byte window that
  passes every check is never enough; and it knows an inverter only after it delivered two.
\<close>

theorem mag_inverter_never_alone:
  assumes "mag_reachable f"
  shows "n_inv f \<noteq> 1 \<and> (have_id f \<longrightarrow> 2 \<le> n_inv f)"
  using known.reachable [OF assms] by (simp add: id_inv_def)

text \<open>
  Every inverter packet that one feed delivers carries the model and revision of the inverter the
  framer knows at the end of that feed, so packets of two different inverters are never mixed.
\<close>

theorem mag_feed_one_inverter:
  assumes "mag_reachable f" and "mag_frame_feed f data now = Some g"
  shows "\<exists>new. calls g = calls f @ new \<and>
    (\<forall>(t, p, tm) \<in> set new. t = MAG_PKT_INVERTER \<longrightarrow>
       have_id g \<and> p ! 14 = inv_model g \<and> p ! 10 = inv_revision g)"
proof (cases "data = []")
  case True
  then show ?thesis using assms(2) by (simp add: mag_frame_feed_def)
next
  case False
  let ?f = "feed_start f data now"
  have inv: "id_inv ?f" by (intro id_inv_feed_start known.reachable assms(1))
  have "id_inv g \<and> id_calls ?f g"
  proof (rule feed_loop_inv [where P = "\<lambda>g. id_inv g \<and> id_calls ?f g"])
    show "feed_loop ?f data = Some g" using assms(2) False by (simp add: mag_frame_feed_def)
  qed (use inv advance_id id_calls_trans in auto)
  then show ?thesis by (simp add: id_calls_def)
qed

subsection \<open>Instances on the sample bus\<close>

theorem mag_delivered_shape_witness: "pkt_shape MAG_PKT_BMK_81 sample_bmk"
  by (rule mag_delivered_shape [OF sample_tap_reachable]) (simp add: sample_tap_calls)

theorem mag_inverter_never_alone_witness: "n_inv sample_tap \<noteq> 1 \<and> 2 \<le> n_inv sample_tap"
  using mag_inverter_never_alone [OF sample_tap_reachable] sample_tap_state by blast

theorem mag_feed_one_inverter_witness:
  "\<exists>new. calls sample_tap = calls (mag_frame_init True) @ new \<and>
    list_all (\<lambda>(t, p, tm). t \<noteq> MAG_PKT_INVERTER \<or>
       have_id sample_tap \<and> p ! 14 = inv_model sample_tap \<and> p ! 10 = inv_revision sample_tap) new"
  using mag_feed_one_inverter [OF start_reachable sample_tap_feed] by (auto simp: list_all_iff)

text \<open>
  An order the callback's contract rules out: while an inverter is on probation, an idle tail is
  delivered before the packets held earlier in the stream.
\<close>

lemma mag_idle_delivers_out_of_order:
  "map_option (\<lambda>f. map (\<lambda>(t, p, tm). p) (calls (mag_frame_idle (mag_frame_idle f (11/10)) 3)))
     (mag_frame_feed (mag_frame_init True) (sample_inv @ [1, 2, 3]) 1) = Some [[1, 2, 3], sample_inv]"
  by code_simp

end
