(* ===== verification/MagDecode.thy ===== *)
theory MagDecode
  imports MagSafety
begin

section \<open>Decoding Magnum packets (src/magnum/mag_decode.c)\<close>

text \<open>
  The state a tap builds from the packets the framer delivers: one record per device
  (\<open>mag_inverter_t\<close> \<dots> \<open>mag_acld_t\<close>, the field names with a prefix per record) and the dispatcher
  \<open>mag_decode\<close>. A \<open>const uint8_t *\<close> into a packet is the list of its bytes, whose length is the
  \<open>len\<close> that the dispatcher checks before it reads.
\<close>

subsection \<open>State\<close>

definition MAG_STACK_RELOCK_S :: cdouble where "MAG_STACK_RELOCK_S = 5"

record mag_inverter =
  iv_seen :: bool
  iv_t :: cdouble
  iv_mode :: int
  iv_fault :: int
  iv_dc_voltage_v :: cdouble
  iv_dc_current_a :: cdouble
  iv_ac_out_v :: int
  iv_ac_in_v :: int
  iv_ac_in_a :: int
  iv_ac_out_a :: int
  iv_invled :: bool
  iv_chgled :: bool
  iv_revision :: cdouble
  iv_bat_temp_c :: int
  iv_tfmr_temp_c :: int
  iv_fet_temp_c :: int
  iv_model :: int
  iv_stackmode :: int
  iv_freq_hz :: cdouble

record mag_remote =
  rm_seen :: bool
  rm_t :: cdouble
  rm_revision :: cdouble
  rm_search_w :: int
  rm_battery_type :: int
  rm_absorb_v :: cdouble
  rm_charge_rate :: int
  rm_ac_input_a :: int
  rm_parallel :: int
  rm_lbco_v :: cdouble
  rm_ac_cutout_v :: int
  rm_float_v :: cdouble
  rm_eq_v :: cdouble
  rm_absorb_time_h :: cdouble
  rm_have_80 :: bool
  rm_battery_size :: int
  rm_battery_efficiency_pct :: int
  rm_have_clock :: bool
  rm_clock_min :: int
  rm_have_a0 :: bool
  rm_gen_run_time_h :: cdouble
  rm_gen_start_temp_c :: cdouble
  rm_gen_start_v :: cdouble
  rm_quiet_time :: int
  rm_have_a1 :: bool
  rm_gen_start_time_min :: int
  rm_gen_stop_time_min :: int
  rm_gen_stop_v :: cdouble
  rm_gen_volt_start_delay_s :: int
  rm_gen_volt_stop_delay_s :: int
  rm_gen_max_run_h :: cdouble
  rm_have_a2 :: bool
  rm_gen_soc_start_pct :: int
  rm_gen_soc_stop_pct :: int
  rm_gen_amp_start_a :: int
  rm_gen_amp_start_delay_s :: int
  rm_gen_amp_stop_a :: int
  rm_gen_amp_stop_delay_s :: int
  rm_have_a3 :: bool
  rm_quiet_begin_min :: int
  rm_quiet_end_min :: int
  rm_exercise_start_min :: int
  rm_exercise_run_time_h :: cdouble
  rm_gen_topoff :: int
  rm_have_a4 :: bool
  rm_gen_warmup_s :: int
  rm_gen_cooldown_s :: int

record mag_ags =
  ag_seen :: bool
  ag_t :: cdouble
  ag_have_a1 :: bool
  ag_have_a2 :: bool
  ag_revision :: cdouble
  ag_status :: int
  ag_running :: bool
  ag_temp_valid :: bool
  ag_temp_c :: cdouble
  ag_run_time_h :: cdouble
  ag_battery_voltage_v :: cdouble
  ag_last_run :: int
  ag_last_full_soc :: int
  ag_total_run :: int

record mag_bmk =
  bk_seen :: bool
  bk_t :: cdouble
  bk_revision :: cdouble
  bk_soc_pct :: int
  bk_battery_voltage_v :: cdouble
  bk_battery_current_a :: cdouble
  bk_battery_voltage_min_v :: cdouble
  bk_battery_voltage_max_v :: cdouble
  bk_net_ah :: int
  bk_trip_ah :: cdouble
  bk_lifetime_ah :: int
  bk_fault :: int

record mag_rtr =
  rt_seen :: bool
  rt_t :: cdouble
  rt_revision :: cdouble

record mag_pt100 =
  pt_seen :: bool
  pt_t :: cdouble
  pt_have_c1 :: bool
  pt_have_c2 :: bool
  pt_address :: int
  pt_mode :: int
  pt_regulation :: int
  pt_fault :: int
  pt_battery_voltage_v :: cdouble
  pt_battery_current_a :: cdouble
  pt_pv_voltage_v :: cdouble
  pt_charge_time :: cdouble
  pt_target_voltage_v :: cdouble
  pt_relay_on :: bool
  pt_alarm_on :: bool
  pt_fan_on :: bool
  pt_is_day :: bool
  pt_bat_temp_valid :: bool
  pt_bat_temp_c :: int
  pt_inductor_temp_c :: int
  pt_fet_temp_c :: int
  pt_lifetime_kwh :: int
  pt_resettable_kwh :: cdouble
  pt_ground_fault_current :: int
  pt_stacker_info :: int
  pt_nominal_voltage_v :: cdouble
  pt_dip_switches :: int
  pt_revision :: cdouble
  pt_output_current_rating_a :: int
  pt_input_voltage_rating_v :: int

record mag_acld =
  al_seen :: bool
  al_t :: cdouble

record mag_state =
  ms_inv :: mag_inverter
  ms_rem :: mag_remote
  ms_ags :: mag_ags
  ms_bmk :: mag_bmk
  ms_rtr :: mag_rtr
  ms_pt :: mag_pt100
  ms_acld :: mag_acld
  ms_mult :: int
  ms_stack_locked :: bool
  ms_stack_lock :: int
  ms_other_inverter_packets :: u64

subsection \<open>The zeroed state\<close>

text \<open>\<open>memset(s, 0, sizeof(*s))\<close>, then the multiplier 1.\<close>

definition mag_inverter_zero :: mag_inverter where
  "mag_inverter_zero = \<lparr>
     iv_seen = False, iv_t = 0, iv_mode = 0, iv_fault = 0, iv_dc_voltage_v = 0,
     iv_dc_current_a = 0, iv_ac_out_v = 0, iv_ac_in_v = 0, iv_ac_in_a = 0, iv_ac_out_a = 0,
     iv_invled = False, iv_chgled = False, iv_revision = 0, iv_bat_temp_c = 0,
     iv_tfmr_temp_c = 0, iv_fet_temp_c = 0, iv_model = 0, iv_stackmode = 0, iv_freq_hz = 0\<rparr>"

definition mag_remote_zero :: mag_remote where
  "mag_remote_zero = \<lparr>
     rm_seen = False, rm_t = 0, rm_revision = 0, rm_search_w = 0, rm_battery_type = 0,
     rm_absorb_v = 0, rm_charge_rate = 0, rm_ac_input_a = 0, rm_parallel = 0, rm_lbco_v = 0,
     rm_ac_cutout_v = 0, rm_float_v = 0, rm_eq_v = 0, rm_absorb_time_h = 0, rm_have_80 = False,
     rm_battery_size = 0, rm_battery_efficiency_pct = 0, rm_have_clock = False,
     rm_clock_min = 0, rm_have_a0 = False, rm_gen_run_time_h = 0, rm_gen_start_temp_c = 0,
     rm_gen_start_v = 0, rm_quiet_time = 0, rm_have_a1 = False, rm_gen_start_time_min = 0,
     rm_gen_stop_time_min = 0, rm_gen_stop_v = 0, rm_gen_volt_start_delay_s = 0,
     rm_gen_volt_stop_delay_s = 0, rm_gen_max_run_h = 0, rm_have_a2 = False,
     rm_gen_soc_start_pct = 0, rm_gen_soc_stop_pct = 0, rm_gen_amp_start_a = 0,
     rm_gen_amp_start_delay_s = 0, rm_gen_amp_stop_a = 0, rm_gen_amp_stop_delay_s = 0,
     rm_have_a3 = False, rm_quiet_begin_min = 0, rm_quiet_end_min = 0,
     rm_exercise_start_min = 0, rm_exercise_run_time_h = 0, rm_gen_topoff = 0,
     rm_have_a4 = False, rm_gen_warmup_s = 0, rm_gen_cooldown_s = 0\<rparr>"

definition mag_ags_zero :: mag_ags where
  "mag_ags_zero = \<lparr>
     ag_seen = False, ag_t = 0, ag_have_a1 = False, ag_have_a2 = False, ag_revision = 0,
     ag_status = 0, ag_running = False, ag_temp_valid = False, ag_temp_c = 0,
     ag_run_time_h = 0, ag_battery_voltage_v = 0, ag_last_run = 0, ag_last_full_soc = 0,
     ag_total_run = 0\<rparr>"

definition mag_bmk_zero :: mag_bmk where
  "mag_bmk_zero = \<lparr>
     bk_seen = False, bk_t = 0, bk_revision = 0, bk_soc_pct = 0, bk_battery_voltage_v = 0,
     bk_battery_current_a = 0, bk_battery_voltage_min_v = 0, bk_battery_voltage_max_v = 0,
     bk_net_ah = 0, bk_trip_ah = 0, bk_lifetime_ah = 0, bk_fault = 0\<rparr>"

definition mag_rtr_zero :: mag_rtr where
  "mag_rtr_zero = \<lparr>
     rt_seen = False, rt_t = 0, rt_revision = 0\<rparr>"

definition mag_pt100_zero :: mag_pt100 where
  "mag_pt100_zero = \<lparr>
     pt_seen = False, pt_t = 0, pt_have_c1 = False, pt_have_c2 = False, pt_address = 0,
     pt_mode = 0, pt_regulation = 0, pt_fault = 0, pt_battery_voltage_v = 0,
     pt_battery_current_a = 0, pt_pv_voltage_v = 0, pt_charge_time = 0,
     pt_target_voltage_v = 0, pt_relay_on = False, pt_alarm_on = False, pt_fan_on = False,
     pt_is_day = False, pt_bat_temp_valid = False, pt_bat_temp_c = 0, pt_inductor_temp_c = 0,
     pt_fet_temp_c = 0, pt_lifetime_kwh = 0, pt_resettable_kwh = 0,
     pt_ground_fault_current = 0, pt_stacker_info = 0, pt_nominal_voltage_v = 0,
     pt_dip_switches = 0, pt_revision = 0, pt_output_current_rating_a = 0,
     pt_input_voltage_rating_v = 0\<rparr>"

definition mag_acld_zero :: mag_acld where
  "mag_acld_zero = \<lparr>
     al_seen = False, al_t = 0\<rparr>"

definition mag_state_init :: mag_state where
  "mag_state_init = \<lparr>ms_inv = mag_inverter_zero, ms_rem = mag_remote_zero, ms_ags = mag_ags_zero,
     ms_bmk = mag_bmk_zero, ms_rtr = mag_rtr_zero, ms_pt = mag_pt100_zero,
     ms_acld = mag_acld_zero, ms_mult = 1, ms_stack_locked = False, ms_stack_lock = 0,
     ms_other_inverter_packets = 0\<rparr>"

subsection \<open>Reading fields\<close>

abbreviation ub :: "byte list \<Rightarrow> nat \<Rightarrow> int" where "ub p i \<equiv> uint (p ! i)"
abbreviation sb :: "byte list \<Rightarrow> nat \<Rightarrow> int" where "sb p i \<equiv> sint (p ! i)"

definition u16_at :: "byte list \<Rightarrow> nat \<Rightarrow> int" where
  "u16_at p i = uint (be16 (p ! i) (p ! (i + 1)))"

definition s16_at :: "byte list \<Rightarrow> nat \<Rightarrow> int" where
  "s16_at p i = be16s (p ! i) (p ! (i + 1))"

definition mag_r :: "cdouble \<Rightarrow> int \<Rightarrow> cdouble" where
  "mag_r v dec = (let k = (if dec = 1 then 10 else if dec = 2 then 100 else 1)
                  in of_int (c_round (v * k)) / k)"

definition delay_s :: "int \<Rightarrow> int" where
  "delay_s v = (if 127 < v then (v AND 0x0F) * 60 else v)"

lemma mag_r_tenths [simp]: "mag_r (of_int z / 10) 1 = of_int z / 10"
  by (simp add: mag_r_def)

lemma mag_r_hundredths [simp]: "mag_r (of_int z / 100) 2 = of_int z / 100"
  by (simp add: mag_r_def)

subsection \<open>The inverter\<close>

definition decode_inverter :: "mag_state \<Rightarrow> byte list \<Rightarrow> cdouble \<Rightarrow> bool \<times> mag_state" where
  "decode_inverter s p now =
     (let v = ms_inv s;
          s = (if \<not> ms_stack_locked s \<or> iv_seen v \<and> MAG_STACK_RELOCK_S < now - iv_t v
               then s\<lparr>ms_stack_locked := True, ms_stack_lock := ub p 15\<rparr> else s)
      in if ub p 15 \<noteq> ms_stack_lock s
         then (False, s\<lparr>ms_other_inverter_packets := ms_other_inverter_packets s + 1\<rparr>)
         else
           let v = v\<lparr>iv_seen := True, iv_t := now, iv_mode := ub p 0, iv_fault := ub p 1,
                 iv_dc_voltage_v := mag_r (of_int (s16_at p 2) / 10) 1,
                 iv_dc_current_a := of_int (s16_at p 4), iv_ac_out_v := ub p 6,
                 iv_ac_in_v := ub p 7, iv_invled := p ! 8 \<noteq> 0, iv_chgled := p ! 9 \<noteq> 0,
                 iv_revision := mag_r (of_int (ub p 10) / 10) 1, iv_bat_temp_c := ub p 11,
                 iv_tfmr_temp_c := ub p 12, iv_fet_temp_c := ub p 13, iv_model := ub p 14,
                 iv_stackmode := ub p 15, iv_ac_in_a := ub p 16, iv_ac_out_a := ub p 17,
                 iv_freq_hz := mag_r (of_int (s16_at p 18) / 10) 1\<rparr>;
               s = s\<lparr>ms_inv := v\<rparr>
           in (True, if iv_model v \<le> 150 then s\<lparr>ms_mult := mag_multiplier (iv_model v)\<rparr> else s))"

subsection \<open>The remote\<close>

definition remote_base :: "int \<Rightarrow> mag_remote \<Rightarrow> byte list \<Rightarrow> mag_remote" where
  "remote_base mult v p =
     (let b3 = ub p 3;
          v = v\<lparr>rm_search_w := ub p 1\<rparr>;
          v = (if 100 < b3
               then v\<lparr>rm_absorb_v := mag_r (of_int (b3 * mult) / 10) 1, rm_battery_type := 0\<rparr>
               else v\<lparr>rm_absorb_v := 0, rm_battery_type := b3\<rparr>);
          v = v\<lparr>rm_charge_rate := ub p 4, rm_ac_input_a := sb p 5,
                rm_revision := mag_r (of_int (ub p 6) / 10) 1,
                rm_parallel := uint (p ! 7 AND 0x0F) * 10,
                rm_lbco_v := mag_r (of_int (ub p 9 * mult) / 10) 1,
                rm_ac_cutout_v := ub p 10,
                rm_float_v := mag_r (of_int (ub p 11 * mult) / 10) 1\<rparr>
      in v\<lparr>rm_eq_v := mag_r (rm_absorb_v v + of_int (ub p 12) / 10) 1,
           rm_absorb_time_h := mag_r (of_int (ub p 13) / 10) 1\<rparr>)"

definition decode_remote :: "int \<Rightarrow> mag_remote \<Rightarrow> byte list \<Rightarrow> mag_remote" where
  "decode_remote mult v p =
     (let v = remote_base mult v p; ty = p ! 20 in
      if ty = 0x80 then
        v\<lparr>rm_have_80 := True, rm_battery_size := ub p 2 * 10, rm_have_clock := True,
          rm_clock_min := sb p 14 * 60 + sb p 15, rm_battery_efficiency_pct := sb p 16\<rparr>
      else if ty = 0xA0 then
        v\<lparr>rm_have_a0 := True, rm_have_clock := True, rm_clock_min := ub p 14 * 60 + ub p 15,
          rm_gen_run_time_h := mag_r (of_int (ub p 16) / 10) 1,
          rm_gen_start_temp_c := mag_r (of_int (sb p 17 - 32) * 5 / 9) 1,
          rm_gen_start_v := mag_r (of_int (ub p 18 * mult) / 10) 1, rm_quiet_time := ub p 19\<rparr>
      else if ty = 0xA1 then
        v\<lparr>rm_have_a1 := True, rm_gen_start_time_min := ub p 14 * 15,
          rm_gen_stop_time_min := ub p 15 * 15,
          rm_gen_stop_v := mag_r (of_int (ub p 16 * mult) / 10) 1,
          rm_gen_volt_start_delay_s := delay_s (ub p 17),
          rm_gen_volt_stop_delay_s := delay_s (ub p 18),
          rm_gen_max_run_h := mag_r (of_int (ub p 19) / 10) 1\<rparr>
      else if ty = 0xA2 then
        v\<lparr>rm_have_a2 := True, rm_gen_soc_start_pct := sb p 14, rm_gen_soc_stop_pct := sb p 15,
          rm_gen_amp_start_a := ub p 16, rm_gen_amp_start_delay_s := delay_s (ub p 17),
          rm_gen_amp_stop_a := ub p 18, rm_gen_amp_stop_delay_s := delay_s (ub p 19)\<rparr>
      else if ty = 0xA3 then
        v\<lparr>rm_have_a3 := True, rm_quiet_begin_min := ub p 14 * 15,
          rm_quiet_end_min := ub p 15 * 15, rm_exercise_start_min := ub p 16 * 15,
          rm_exercise_run_time_h := mag_r (of_int (ub p 17) / 10) 1, rm_gen_topoff := ub p 18\<rparr>
      else if ty = 0xA4 then
        v\<lparr>rm_have_a4 := True, rm_gen_warmup_s := delay_s (ub p 14),
          rm_gen_cooldown_s := delay_s (ub p 15)\<rparr>
      else v)"

subsection \<open>Peripherals\<close>

definition ags_running :: "int \<Rightarrow> bool" where
  "ags_running stat \<longleftrightarrow> stat = 3 \<or> stat = 6 \<or> stat = 7 \<or> stat = 8 \<or> stat = 12 \<or> stat = 13 \<or> stat = 14 \<or>
     stat = 18 \<or> stat = 19 \<or> stat = 26 \<or> stat = 27"

definition decode_ags_a1 :: "int \<Rightarrow> mag_ags \<Rightarrow> byte list \<Rightarrow> mag_ags" where
  "decode_ags_a1 mult v p =
     (let stat = sb p 1; temp = sb p 3 in
      v\<lparr>ag_have_a1 := True, ag_status := stat, ag_running := ags_running stat,
        ag_revision := mag_r (of_int (ub p 2) / 10) 1, ag_temp_valid := temp < 105,
        ag_temp_c := (if temp < 105 then mag_r (of_int (temp - 32) * 5 / 9) 1 else 0),
        ag_run_time_h := mag_r (of_int (ub p 4) / 10) 1,
        ag_battery_voltage_v := mag_r (of_int (ub p 5) / 10 * of_int mult) 1\<rparr>)"

definition decode_ags_a2 :: "mag_ags \<Rightarrow> byte list \<Rightarrow> mag_ags" where
  "decode_ags_a2 v p = v\<lparr>ag_have_a2 := True, ag_last_run := ub p 1, ag_last_full_soc := ub p 2,
     ag_total_run := u16_at p 3\<rparr>"

definition decode_bmk :: "mag_bmk \<Rightarrow> byte list \<Rightarrow> mag_bmk" where
  "decode_bmk v p = v\<lparr>bk_soc_pct := sb p 1,
     bk_battery_voltage_v := mag_r (of_int (u16_at p 2) / 100) 2,
     bk_battery_current_a := mag_r (of_int (s16_at p 4) / 10) 1,
     bk_battery_voltage_min_v := mag_r (of_int (u16_at p 6) / 100) 2,
     bk_battery_voltage_max_v := mag_r (of_int (u16_at p 8) / 100) 2,
     bk_net_ah := s16_at p 10, bk_trip_ah := mag_r (of_int (u16_at p 12) / 10) 1,
     bk_lifetime_ah := u16_at p 14 * 100, bk_revision := mag_r (of_int (ub p 16) / 10) 1,
     bk_fault := ub p 17\<rparr>"

definition decode_pt_c1 :: "int \<Rightarrow> mag_pt100 \<Rightarrow> byte list \<Rightarrow> mag_pt100" where
  "decode_pt_c1 mult v p = v\<lparr>pt_have_c1 := True, pt_address := uint (p ! 1 AND 0x07),
     pt_mode := uint (p ! 2 AND 0x0F), pt_regulation := uint (drop_bit 4 (p ! 2) AND 0x0F),
     pt_fault := uint (drop_bit 3 (p ! 3)),
     pt_battery_voltage_v := mag_r (of_int (u16_at p 4) / 10) 1,
     pt_battery_current_a := mag_r (of_int (s16_at p 6) / 10) 1,
     pt_pv_voltage_v := mag_r (of_int (u16_at p 8) / 10) 1,
     pt_charge_time := mag_r (of_int (ub p 10) / 10) 1,
     pt_target_voltage_v := mag_r (of_int (ub p 11) / 10 * of_int mult) 1,
     pt_relay_on := bit (p ! 12) 0, pt_alarm_on := bit (p ! 12) 1, pt_fan_on := bit (p ! 12) 3,
     pt_is_day := bit (p ! 12) 4, pt_bat_temp_valid := \<not> (p ! 13 = 0x97 \<or> p ! 13 = 0x98),
     pt_bat_temp_c := ub p 13, pt_inductor_temp_c := ub p 14, pt_fet_temp_c := ub p 15\<rparr>"

definition decode_pt_c2 :: "mag_pt100 \<Rightarrow> byte list \<Rightarrow> mag_pt100" where
  "decode_pt_c2 v p =
     (let nb = uint (p ! 7 AND 0x03) in
      v\<lparr>pt_have_c2 := True, pt_lifetime_kwh := u16_at p 2 * 10,
        pt_resettable_kwh := mag_r (of_int (u16_at p 4) / 10) 1,
        pt_ground_fault_current := ub p 6, pt_stacker_info := uint (drop_bit 2 (p ! 7)),
        pt_nominal_voltage_v := (if nb = 0 then 12 else of_int nb * 24),
        pt_dip_switches := ub p 8, pt_revision := mag_r (of_int (ub p 9) / 10) 1,
        pt_output_current_rating_a := ub p 10, pt_input_voltage_rating_v := ub p 11 * 10\<rparr>)"

subsection \<open>The dispatcher\<close>

definition mag_decode :: "mag_state \<Rightarrow> mag_pkt \<Rightarrow> byte list \<Rightarrow> cdouble \<Rightarrow> bool \<times> mag_state" where
  "mag_decode s type p now =
     (case type of
        MAG_PKT_INVERTER \<Rightarrow> if MAG_INV_LEN \<le> length p then decode_inverter s p now else (False, s)
      | MAG_PKT_REMOTE \<Rightarrow>
          (False, if length p < MAG_REMOTE_LEN then s
                  else s\<lparr>ms_rem := (decode_remote (ms_mult s) (ms_rem s) p)\<lparr>rm_seen := True, rm_t := now\<rparr>\<rparr>)
      | MAG_PKT_AGS_A1 \<Rightarrow>
          (False, if length p < 6 then s
                  else s\<lparr>ms_ags := (decode_ags_a1 (ms_mult s) (ms_ags s) p)\<lparr>ag_seen := True, ag_t := now\<rparr>\<rparr>)
      | MAG_PKT_AGS_A2 \<Rightarrow>
          (False, if length p < 6 then s
                  else s\<lparr>ms_ags := (decode_ags_a2 (ms_ags s) p)\<lparr>ag_seen := True, ag_t := now\<rparr>\<rparr>)
      | MAG_PKT_BMK_81 \<Rightarrow>
          (False, if length p < 18 then s
                  else s\<lparr>ms_bmk := (decode_bmk (ms_bmk s) p)\<lparr>bk_seen := True, bk_t := now\<rparr>\<rparr>)
      | MAG_PKT_RTR_91 \<Rightarrow>
          (False, if length p < 2 then s
                  else s\<lparr>ms_rtr := \<lparr>rt_seen = True, rt_t = now,
                                    rt_revision = mag_r (of_int (ub p 1) / 10) 1\<rparr>\<rparr>)
      | MAG_PKT_PT_C1 \<Rightarrow>
          (False, s\<lparr>ms_pt := (if 16 \<le> length p \<and> p ! 1 AND 0x07 = 0
                              then decode_pt_c1 (ms_mult s) (ms_pt s) p else ms_pt s)
                                \<lparr>pt_seen := True, pt_t := now\<rparr>\<rparr>)
      | MAG_PKT_PT_C2 \<Rightarrow>
          (False, s\<lparr>ms_pt := (if 13 \<le> length p \<and> p ! 1 AND 0x07 = 0
                              then decode_pt_c2 (ms_pt s) p else ms_pt s)\<lparr>pt_seen := True, pt_t := now\<rparr>\<rparr>)
      | MAG_PKT_PT_C3 \<Rightarrow> (False, s\<lparr>ms_pt := (ms_pt s)\<lparr>pt_seen := True, pt_t := now\<rparr>\<rparr>)
      | MAG_PKT_ACLD_D1 \<Rightarrow> (False, s\<lparr>ms_acld := \<lparr>al_seen = True, al_t = now\<rparr>\<rparr>)
      | MAG_PKT_UNKNOWN \<Rightarrow> (False, s))"

subsection \<open>A sink for the framer's packets\<close>

text \<open>
  What a consumer of the framer's callback relies on: an invariant \<open>I\<close> that every packet satisfying
  the framer's promise \<open>good\<close> keeps. Any number of delivered packets then keeps it.
\<close>

locale packet_sink =
  fixes good :: "mag_pkt \<Rightarrow> byte list \<Rightarrow> bool"
    and I :: "'s \<Rightarrow> bool"
    and take_packet :: "'s \<Rightarrow> mag_call \<Rightarrow> 's"
  assumes keeps: "I s \<Longrightarrow> good t p \<Longrightarrow> I (take_packet s (t, p, tm))"
begin

lemma all: "I s \<Longrightarrow> \<forall>(t, p, tm) \<in> set cs. good t p \<Longrightarrow> I (foldl take_packet s cs)"
  by (induction cs arbitrary: s) (auto intro: keeps)

end

definition on_packet :: "mag_state \<Rightarrow> mag_call \<Rightarrow> mag_state" where
  "on_packet s c = (case c of (t, p, tm) \<Rightarrow> snd (mag_decode s t p tm))"

definition inv_ok :: "mag_state \<Rightarrow> bool" where
  "inv_ok s \<longleftrightarrow> (iv_seen (ms_inv s) \<longrightarrow>
     mag_model_known (iv_model (ms_inv s)) \<and> ms_mult s = mag_multiplier (iv_model (ms_inv s)) \<and>
     0 \<le> iv_dc_voltage_v (ms_inv s) \<and> iv_dc_voltage_v (ms_inv s) \<le> 24 * of_int (ms_mult s) \<and>
     (iv_freq_hz (ms_inv s) = 0 \<or> 40 \<le> iv_freq_hz (ms_inv s) \<and> iv_freq_hz (ms_inv s) \<le> 70) \<and>
     iv_bat_temp_c (ms_inv s) \<le> 150 \<and> iv_tfmr_temp_c (ms_inv s) \<le> 150 \<and>
     iv_fet_temp_c (ms_inv s) \<le> 150)"

definition stack_ok :: "mag_state \<Rightarrow> bool" where
  "stack_ok s \<longleftrightarrow> (iv_seen (ms_inv s) \<longrightarrow> ms_stack_locked s \<and> iv_stackmode (ms_inv s) = ms_stack_lock s)"

definition peers_ok :: "mag_state \<Rightarrow> bool" where
  "peers_ok s \<longleftrightarrow> ms_mult s \<in> {1, 2, 4} \<and>
     0 \<le> ag_status (ms_ags s) \<and> ag_status (ms_ags s) \<le> 27 \<and>
     0 \<le> bk_soc_pct (ms_bmk s) \<and> bk_soc_pct (ms_bmk s) \<le> 100 \<and> pt_address (ms_pt s) = 0"

definition mag_state_ok :: "mag_state \<Rightarrow> bool" where
  "mag_state_ok s \<longleftrightarrow> inv_ok s \<and> stack_ok s \<and> peers_ok s"

lemma decode_inverter_ok:
  assumes ok: "mag_state_ok s" and p: "inv_plausible p"
  shows "mag_state_ok (snd (decode_inverter s p now))"
proof -
  let ?s = "if \<not> ms_stack_locked s \<or> iv_seen (ms_inv s) \<and> MAG_STACK_RELOCK_S < now - iv_t (ms_inv s)
    then s\<lparr>ms_stack_locked := True, ms_stack_lock := ub p 15\<rparr> else s"
  have le: "ub p 14 \<le> 150" and le150: "\<And>x :: byte. x \<le> 150 \<Longrightarrow> uint x \<le> 150"
    using p by (auto simp: inv_plausible_def known_model_le word_le_def)
  have volts: "rat_of_int (s16_at p 2) / 10 \<le> 24 * of_int (mag_multiplier (ub p 14))" if
    "s16_at p 2 \<le> 240 * mag_multiplier (ub p 14)"
  proof -
    have "rat_of_int (s16_at p 2) \<le> of_int (240 * mag_multiplier (ub p 14))"
      using that by (simp only: of_int_le_iff)
    then show ?thesis by simp
  qed
  have freq: "40 \<le> rat_of_int z / 10 \<and> rat_of_int z / 10 \<le> 70" if "400 \<le> z" "z \<le> 700" for z
  proof -
    have "rat_of_int 400 \<le> of_int z" "rat_of_int z \<le> of_int 700" using that by (simp_all only: of_int_le_iff)
    then show ?thesis by simp
  qed
  show ?thesis
  proof (cases "ub p 15 = ms_stack_lock ?s")
    case False
    then show ?thesis
      using ok by (auto simp: decode_inverter_def Let_def mag_state_ok_def inv_ok_def stack_ok_def
          peers_ok_def)
  next
    case True
    then have "stack_ok (snd (decode_inverter s p now))"
      using ok by (auto simp: decode_inverter_def Let_def mag_state_ok_def stack_ok_def)
    moreover have "inv_ok (snd (decode_inverter s p now))"
      using True p le volts freq
      by (auto simp: decode_inverter_def Let_def inv_ok_def inv_plausible_def le150 s16_at_def)
    moreover have "peers_ok (snd (decode_inverter s p now))"
      using True ok mag_multiplier_cases [of "ub p 14"]
      by (auto simp: decode_inverter_def Let_def mag_state_ok_def peers_ok_def)
    ultimately show ?thesis by (simp add: mag_state_ok_def)
  qed
qed

interpretation tap: packet_sink pkt_shape mag_state_ok on_packet
proof unfold_locales
  fix s t p tm
  assume ok: "mag_state_ok s" and sh: "pkt_shape t p"
  show "mag_state_ok (on_packet s (t, p, tm))"
  proof (cases t)
    case MAG_PKT_INVERTER
    then have "inv_plausible p" using sh by (simp add: pkt_shape_def)
    then show ?thesis
      using ok MAG_PKT_INVERTER decode_inverter_ok by (simp add: on_packet_def mag_decode_def)
  next
    case MAG_PKT_AGS_A1
    then have "p ! 0 = 0xA1" "reply_ok p"
      using sh by (simp_all add: pkt_shape_def reply_type_def split: if_splits)
    then show ?thesis
      using ok MAG_PKT_AGS_A1
      by (auto simp: on_packet_def mag_decode_def decode_ags_a1_def Let_def reply_ok_def
          mag_state_ok_def inv_ok_def stack_ok_def peers_ok_def)
  next
    case MAG_PKT_BMK_81
    then have "p ! 0 = 0x81" "reply_ok p"
      using sh by (simp_all add: pkt_shape_def reply_type_def split: if_splits)
    then show ?thesis
      using ok MAG_PKT_BMK_81
      by (auto simp: on_packet_def mag_decode_def decode_bmk_def reply_ok_def
          mag_state_ok_def inv_ok_def stack_ok_def peers_ok_def)
  qed (use ok in \<open>auto simp: on_packet_def mag_decode_def decode_ags_a2_def decode_pt_c1_def
      decode_pt_c2_def Let_def mag_state_ok_def inv_ok_def stack_ok_def peers_ok_def\<close>)
qed

lemma mag_state_ok_init: "mag_state_ok mag_state_init"
  by (simp add: mag_state_ok_def inv_ok_def stack_ok_def peers_ok_def mag_state_init_def
      mag_inverter_zero_def mag_ags_zero_def mag_bmk_zero_def mag_pt100_zero_def)

text \<open>
  C22: Whatever bytes a tap has read, in whatever chunks, the state decoded from the packets its framer
  delivered is plausible: the multiplier is 1, 2 or 4 and is the inverter's, the inverter is a
  known model of the followed stack role, its battery voltage is between 0 and twice the nominal
  voltage, frequency and temperatures are in range, the generator status is in the table and
  the battery monitor's state of charge is a percentage.
\<close>

theorem mag_tap_state_plausible:
  assumes "mag_reachable f"
  shows "mag_state_ok (foldl on_packet mag_state_init (calls f))"
proof (rule tap.all [OF mag_state_ok_init])
  show "\<forall>(t, p, tm) \<in> set (calls f). pkt_shape t p"
    using shape.reachable [OF assms] by (simp add: shaped_def)
qed

subsection \<open>One stack role\<close>

text \<open>
  \<open>role_kept r t cs\<close>: among the calls \<open>cs\<close> no inverter packet comes more than the relock time after
  the last packet of role \<open>r\<close>, the first of which was at \<open>t\<close>. \<open>foreign r c\<close>: an inverter packet of
  another role.
\<close>

definition inv_call :: "mag_call \<Rightarrow> bool" where
  "inv_call c \<longleftrightarrow> fst c = MAG_PKT_INVERTER \<and> MAG_INV_LEN \<le> length (fst (snd c))"

definition foreign :: "int \<Rightarrow> mag_call \<Rightarrow> bool" where
  "foreign r c \<longleftrightarrow> inv_call c \<and> ub (fst (snd c)) 15 \<noteq> r"

fun role_kept :: "int \<Rightarrow> cdouble \<Rightarrow> mag_call list \<Rightarrow> bool" where
  "role_kept r t [] = True"
| "role_kept r t (c # cs) =
     (if inv_call c
      then snd (snd c) - t \<le> MAG_STACK_RELOCK_S \<and>
           role_kept r (if foreign r c then t else snd (snd c)) cs
      else role_kept r t cs)"

definition following :: "int \<Rightarrow> cdouble \<Rightarrow> mag_state \<Rightarrow> bool" where
  "following r t s \<longleftrightarrow> ms_stack_locked s \<and> ms_stack_lock s = r \<and> iv_seen (ms_inv s) \<and> iv_t (ms_inv s) = t"

lemma following_count [simp]: "following r t (s\<lparr>ms_other_inverter_packets := k\<rparr>) = following r t s"
  by (simp add: following_def)

lemma on_packet_other:
  assumes "\<not> inv_call (ty, p, tm)"
  shows "following r t s \<Longrightarrow> following r t (on_packet s (ty, p, tm))"
    and "on_packet (s\<lparr>ms_other_inverter_packets := k\<rparr>) (ty, p, tm) =
      (on_packet s (ty, p, tm))\<lparr>ms_other_inverter_packets := k\<rparr>"
    and "ms_other_inverter_packets (on_packet s (ty, p, tm)) = ms_other_inverter_packets s"
  using assms
  by (cases ty; simp add: inv_call_def on_packet_def mag_decode_def following_def)+

lemma on_packet_own:
  assumes "inv_call (ty, p, tm)" and "ub p 15 = r" and "following r t s" and "tm - t \<le> MAG_STACK_RELOCK_S"
  shows "following r tm (on_packet s (ty, p, tm))"
    and "on_packet (s\<lparr>ms_other_inverter_packets := k\<rparr>) (ty, p, tm) =
      (on_packet s (ty, p, tm))\<lparr>ms_other_inverter_packets := k\<rparr>"
    and "ms_other_inverter_packets (on_packet s (ty, p, tm)) = ms_other_inverter_packets s"
  using assms
  by (simp_all add: inv_call_def on_packet_def mag_decode_def following_def decode_inverter_def Let_def)

lemma on_packet_foreign:
  assumes "inv_call (ty, p, tm)" and "ub p 15 \<noteq> r" and "following r t s" and "tm - t \<le> MAG_STACK_RELOCK_S"
  shows "on_packet s (ty, p, tm) = s\<lparr>ms_other_inverter_packets := ms_other_inverter_packets s + 1\<rparr>"
  using assms
  by (simp add: inv_call_def on_packet_def mag_decode_def following_def decode_inverter_def Let_def)

lemma role_filter:
  assumes "following r t s" and "role_kept r t cs"
  shows "foldl on_packet s cs =
    (foldl on_packet (s\<lparr>ms_other_inverter_packets := k\<rparr>) (filter (\<lambda>c. \<not> foreign r c) cs))
      \<lparr>ms_other_inverter_packets := ms_other_inverter_packets s + of_nat (length (filter (foreign r) cs))\<rparr>"
  using assms
proof (induction cs arbitrary: s t k)
  case (Cons c cs)
  obtain ty p tm where c: "c = (ty, p, tm)" by (cases c) auto
  consider (other) "\<not> inv_call c" "\<not> foreign r c" | (own) "inv_call c" "ub p 15 = r" "\<not> foreign r c"
    | (foreign) "inv_call c" "ub p 15 \<noteq> r" "foreign r c"
    by (auto simp: foreign_def c)
  then show ?case
  proof cases
    case other
    then show ?thesis
      using Cons.IH [of t "on_packet s c" k] Cons.prems on_packet_other [of ty p tm] by (simp add: c)
  next
    case own
    then show ?thesis
      using Cons.IH [of tm "on_packet s c" k] Cons.prems on_packet_own [of ty p tm r t s] by (simp add: c)
  next
    case foreign
    then have eq: "on_packet s c = s\<lparr>ms_other_inverter_packets := ms_other_inverter_packets s + 1\<rparr>"
      using Cons.prems on_packet_foreign [of ty p tm r t s] by (simp add: c)
    show ?thesis
      using Cons.IH [of t "on_packet s c" k] Cons.prems foreign
      by (simp add: eq algebra_simps)
  qed
qed simp

text \<open>
  C38: As long as the followed inverter is heard at least every five seconds, packets of any other stack
  role are invisible: the decoded state is the one decoded from the other packets alone, and
  \<open>other_inverter_packets\<close> has counted exactly the packets ignored.
\<close>

theorem mag_foreign_role_ignored:
  assumes "ms_stack_locked s" and "iv_seen (ms_inv s)" and "role_kept (ms_stack_lock s) (iv_t (ms_inv s)) cs"
  shows "foldl on_packet s cs =
    (foldl on_packet s (filter (\<lambda>c. \<not> foreign (ms_stack_lock s) c) cs))
      \<lparr>ms_other_inverter_packets := ms_other_inverter_packets s +
         of_nat (length (filter (foreign (ms_stack_lock s)) cs))\<rparr>"
  using role_filter [of "ms_stack_lock s" "iv_t (ms_inv s)" s cs "ms_other_inverter_packets s"] assms
  by (simp add: following_def)

subsection \<open>Instances on the sample bus\<close>

theorem mag_tap_state_plausible_witness:
  "mag_state_ok (foldl on_packet mag_state_init (calls sample_tap))"
  by (rule mag_tap_state_plausible [OF sample_tap_reachable])

definition locked_state :: mag_state where
  "locked_state = on_packet mag_state_init (MAG_PKT_INVERTER, sample_inv, 1)"

theorem mag_foreign_role_ignored_witness:
  "foldl on_packet locked_state [(MAG_PKT_INVERTER, sample_inv[15 := 1], 2)] =
    locked_state\<lparr>ms_other_inverter_packets := 1\<rparr>"
proof -
  have "ms_stack_locked locked_state" "iv_seen (ms_inv locked_state)" "ms_stack_lock locked_state = 0"
    "iv_t (ms_inv locked_state) = 1" "ms_other_inverter_packets locked_state = 0"
    by code_simp+
  then show ?thesis
    using mag_foreign_role_ignored [of locked_state "[(MAG_PKT_INVERTER, sample_inv[15 := 1], 2)]"]
    by (simp add: foreign_def inv_call_def sample_inv_def MAG_INV_LEN_def MAG_STACK_RELOCK_S_def)
qed

end
