(* ===== verification/Json.thy ===== *)
theory Json
  imports CText
begin

section \<open>Parsed JSON\<close>

text \<open>
  The value tree of the JSON library (cJSON, third-party) as the code uses it: what a node is, its
  members in order, and the two accessors. Parsing and printing themselves are not modelled; a
  number literal beyond the doubles, which the parser makes an infinity, has no tree here.
\<close>

datatype json =
    JNull
  | JBool bool
  | JNumber cdouble
  | JString string
  | JArray "json list"
  | JObject "(string \<times> json) list"

text \<open>The library's type tag, in which true and false differ.\<close>

fun jtype :: "json \<Rightarrow> nat" where
  "jtype (JBool b) = (if b then 2 else 1)"
| "jtype JNull = 4"
| "jtype (JNumber x) = 8"
| "jtype (JString s) = 16"
| "jtype (JArray xs) = 32"
| "jtype (JObject kvs) = 64"

text \<open>\<open>cJSON_GetObjectItemCaseSensitive\<close> and \<open>cJSON_GetArrayItem\<close>; \<open>None\<close> is the null pointer.\<close>

fun get_item :: "json \<Rightarrow> string \<Rightarrow> json option" where
  "get_item (JObject kvs) key = map_of kvs key"
| "get_item _ key = None"

fun get_index :: "json \<Rightarrow> nat \<Rightarrow> json option" where
  "get_index (JArray xs) k = (if k < length xs then Some (xs ! k) else None)"
| "get_index _ k = None"

text \<open>
  A number added to a document, as whoever parses the printed text sees it: there is no JSON for an
  infinity or a NaN, and null is printed.
\<close>

definition json_number :: "xdouble \<Rightarrow> json" where
  "json_number x = (case x of XFin v \<Rightarrow> JNumber v | _ \<Rightarrow> JNull)"

definition opt_item :: "json option \<Rightarrow> string \<Rightarrow> json option" where
  "opt_item j key = Option.bind j (\<lambda>j. get_item j key)"

text \<open>
  \<open>cJSON_GetObjectItem\<close> compares keys without case. \<open>valueint\<close> is the number as an \<open>int\<close>, the ends of
  the range standing for what is beyond them.
\<close>

fun get_item_ci :: "json \<Rightarrow> string \<Rightarrow> json option" where
  "get_item_ci (JObject kvs) key = map_option snd (find (\<lambda>kv. lower (fst kv) = lower key) kvs)"
| "get_item_ci _ key = None"

definition INT_MAX :: int where "INT_MAX = 2147483647"
definition INT_MIN :: int where "INT_MIN = -2147483648"

definition valueint :: "cdouble \<Rightarrow> int" where
  "valueint x = clamp_int INT_MIN INT_MAX (c_trunc x)"

text \<open>\<open>cJSON_DeleteItemFromObjectCaseSensitive\<close>: the first member with the key goes.\<close>

fun delete_item :: "string \<Rightarrow> (string \<times> json) list \<Rightarrow> (string \<times> json) list" where
  "delete_item key [] = []"
| "delete_item key ((k, v) # kvs) = (if k = key then kvs else (k, v) # delete_item key kvs)"

fun is_object :: "json \<Rightarrow> bool" where
  "is_object (JObject kvs) = True"
| "is_object _ = False"

lemma get_item_cases: "get_item j key = Some c \<Longrightarrow> \<exists>kvs. j = JObject kvs \<and> map_of kvs key = Some c"
  by (cases j) auto

lemma get_index_cases: "get_index j k = Some c \<Longrightarrow> \<exists>xs. j = JArray xs \<and> k < length xs \<and> c = xs ! k"
  by (cases j) (auto split: if_splits)

lemma valueint_of_int [simp]: "INT_MIN \<le> z \<Longrightarrow> z \<le> INT_MAX \<Longrightarrow> valueint (of_int z) = z"
  by (simp add: valueint_def clamp_int_def)

lemma valueint_bounds: "INT_MIN \<le> valueint x \<and> valueint x \<le> INT_MAX"
  by (simp add: valueint_def clamp_int_def INT_MIN_def INT_MAX_def)

text \<open>A member is smaller than its object, an element than its array.\<close>

lemma size_get_item: "get_item j key = Some c \<Longrightarrow> size c < size j"
proof -
  assume "get_item j key = Some c"
  then obtain kvs where j: "j = JObject kvs" "map_of kvs key = Some c" using get_item_cases by blast
  then have "(key, c) \<in> set kvs" by (simp add: map_of_SomeD)
  then have "size c < Suc (size_list (size_prod (\<lambda>_. 0) size) kvs)"
    by (induction kvs) auto
  then show ?thesis by (simp add: j)
qed

lemma size_get_index: "get_index j k = Some c \<Longrightarrow> size c < size j"
proof -
  assume "get_index j k = Some c"
  then obtain xs where j: "j = JArray xs" "k < length xs" "c = xs ! k" using get_index_cases by blast
  then have "c \<in> set xs" by simp
  then have "size c < Suc (size_list size xs)" by (induction xs) auto
  then show ?thesis by (simp add: j)
qed

text \<open>The number at the end of a path of keys and indices.\<close>

datatype step = Key string | Idx nat

fun descend :: "step \<Rightarrow> json \<Rightarrow> json option" where
  "descend (Key k) j = get_item j k"
| "descend (Idx i) j = get_index j i"

fun num_at :: "step list \<Rightarrow> json \<Rightarrow> cdouble option" where
  "num_at [] (JNumber x) = Some x"
| "num_at [] _ = None"
| "num_at (s # p) j = Option.bind (descend s j) (num_at p)"

end
