(* ===== verification/MagJson.thy ===== *)
theory MagJson
  imports MagDecode Json
begin

section \<open>A tap's reading as JSON (src/magnum/mag_json.c)\<close>

text \<open>
  The object that \<open>mag_reading_json\<close> builds, member by member in the order of the code, and its
  trimming. A 64-bit counter enters as the integer it holds. The printer of the JSON library is the
  parameter \<open>pr\<close>.
\<close>

definition MAG_READING_MAX :: nat where "MAG_READING_MAX = 4000"

type_synonym member = "string \<times> json"

definition num :: "string \<Rightarrow> cdouble \<Rightarrow> member" where "num k v = (k, JNumber v)"

abbreviation inum :: "string \<Rightarrow> int \<Rightarrow> member" where "inum k v \<equiv> num k (of_int v)"
abbreviation str :: "string \<Rightarrow> string \<Rightarrow> member" where "str k s \<equiv> (k, JString s)"

definition age :: "cdouble \<Rightarrow> cdouble \<Rightarrow> member" where
  "age t now = num ''last_seen_s'' (of_int (c_round ((now - t) * 10)) / 10)"

text \<open>C's quotient and remainder round towards zero; \<open>%02d\<close> pads with a zero.\<close>

definition c_quot :: "int \<Rightarrow> int \<Rightarrow> int" where "c_quot a b = sgn a * (\<bar>a\<bar> div b)"
definition c_rem :: "int \<Rightarrow> int \<Rightarrow> int" where "c_rem a b = a - b * c_quot a b"

definition pad2 :: "int \<Rightarrow> string" where
  "pad2 z = (if z < 0 then dec_int z else pad0 2 (nat z))"

definition clock_text :: "string \<Rightarrow> int \<Rightarrow> member" where
  "clock_text k minutes = str k (c_copy 8 (pad2 (c_rem (c_quot minutes 60) 100) @ '':'' @ pad2 (c_rem minutes 60)))"

definition null_or :: "string \<Rightarrow> json option \<Rightarrow> member" where
  "null_or k v = (k, case v of Some j \<Rightarrow> j | None \<Rightarrow> JNull)"

definition add_inverter :: "mag_inverter \<Rightarrow> member list" where
  "add_inverter v =
     [inum ''mode'' (iv_mode v), str ''mode_text'' (mag_mode_text (iv_mode v)),
      inum ''fault'' (iv_fault v), str ''fault_text'' (mag_fault_text (iv_fault v)),
      num ''dc_voltage_v'' (iv_dc_voltage_v v), num ''dc_current_a'' (iv_dc_current_a v),
      num ''dc_power_w'' (of_int (c_round (iv_dc_voltage_v v * iv_dc_current_a v * 10)) / 10),
      (''inverting'', JBool (iv_mode v = 0x40 \<or> iv_mode v = 0x80)),
      inum ''ac_out_v'' (iv_ac_out_v v), inum ''ac_out_a'' (iv_ac_out_a v),
      inum ''ac_in_v'' (iv_ac_in_v v), inum ''ac_in_a'' (iv_ac_in_a v), num ''freq_hz'' (iv_freq_hz v),
      (''invled'', JBool (iv_invled v)), (''chgled'', JBool (iv_chgled v)),
      inum ''bat_temp_c'' (iv_bat_temp_c v), inum ''tfmr_temp_c'' (iv_tfmr_temp_c v),
      inum ''fet_temp_c'' (iv_fet_temp_c v), inum ''model'' (iv_model v),
      str ''model_text'' (mag_model_text (iv_model v)),
      null_or ''rated_w'' (if 0 < mag_model_rated_w (iv_model v)
                         then Some (JNumber (of_int (mag_model_rated_w (iv_model v)))) else None),
      inum ''stackmode'' (iv_stackmode v), str ''stackmode_text'' (mag_stackmode_text (iv_stackmode v)),
      num ''revision'' (iv_revision v)]"

definition remote_obj :: "mag_state \<Rightarrow> cdouble \<Rightarrow> json" where
  "remote_obj s now =
     (let v = ms_rem s in JObject
       ([age (rm_t v) now, num ''revision'' (rm_revision v), inum ''search_w'' (rm_search_w v),
         inum ''battery_type'' (rm_battery_type v), num ''absorb_v'' (rm_absorb_v v),
         num ''float_v'' (rm_float_v v), num ''eq_v'' (rm_eq_v v),
         num ''absorb_time_h'' (rm_absorb_time_h v), inum ''charge_rate'' (rm_charge_rate v),
         inum ''ac_input_a'' (rm_ac_input_a v), inum ''ac_cutout_v'' (rm_ac_cutout_v v),
         num ''lbco_v'' (rm_lbco_v v), inum ''parallel'' (rm_parallel v),
         (if rm_have_clock v then clock_text ''clock_time'' (rm_clock_min v) else (''clock_time'', JNull)),
         (if rm_have_80 v then inum ''battery_size'' (rm_battery_size v) else (''battery_size'', JNull))] @
        (if bk_seen (ms_bmk s) \<and> rm_have_80 v
         then [inum ''battery_efficiency_pct'' (rm_battery_efficiency_pct v)] else []) @
        (if \<not> ag_seen (ms_ags s) then [] else
          (if rm_have_a0 v then
             [num ''gen_run_time_h'' (rm_gen_run_time_h v), num ''gen_start_temp_c'' (rm_gen_start_temp_c v),
              num ''gen_start_v'' (rm_gen_start_v v), inum ''quiet_time'' (rm_quiet_time v)] else []) @
          (if rm_have_a1 v then
             [clock_text ''gen_start_time'' (rm_gen_start_time_min v),
              clock_text ''gen_stop_time'' (rm_gen_stop_time_min v), num ''gen_stop_v'' (rm_gen_stop_v v),
              inum ''gen_volt_start_delay_s'' (rm_gen_volt_start_delay_s v),
              inum ''gen_volt_stop_delay_s'' (rm_gen_volt_stop_delay_s v),
              num ''gen_max_run_h'' (rm_gen_max_run_h v)] else []) @
          (if rm_have_a2 v then
             [inum ''gen_soc_start_pct'' (rm_gen_soc_start_pct v), inum ''gen_soc_stop_pct'' (rm_gen_soc_stop_pct v),
              inum ''gen_amp_start_a'' (rm_gen_amp_start_a v),
              inum ''gen_amp_start_delay_s'' (rm_gen_amp_start_delay_s v),
              inum ''gen_amp_stop_a'' (rm_gen_amp_stop_a v),
              inum ''gen_amp_stop_delay_s'' (rm_gen_amp_stop_delay_s v)] else []) @
          (if rm_have_a3 v then
             [clock_text ''quiet_begin_time'' (rm_quiet_begin_min v),
              clock_text ''quiet_end_time'' (rm_quiet_end_min v),
              clock_text ''exercise_start_time'' (rm_exercise_start_min v),
              num ''exercise_run_time_h'' (rm_exercise_run_time_h v), inum ''gen_topoff'' (rm_gen_topoff v)] else []) @
          (if rm_have_a4 v then
             [inum ''gen_warmup_s'' (rm_gen_warmup_s v), inum ''gen_cooldown_s'' (rm_gen_cooldown_s v)] else []))))"

definition ags_obj :: "mag_ags \<Rightarrow> cdouble \<Rightarrow> json" where
  "ags_obj v now = JObject
     ([age (ag_t v) now] @
      (if ag_have_a1 v then
         [num ''revision'' (ag_revision v), inum ''status'' (ag_status v),
          str ''status_text'' (mag_ags_status_text (ag_status v)), (''running'', JBool (ag_running v)),
          null_or ''temp_c'' (if ag_temp_valid v then Some (JNumber (ag_temp_c v)) else None),
          num ''run_time_h'' (ag_run_time_h v), num ''battery_voltage_v'' (ag_battery_voltage_v v)] else []) @
      (if ag_have_a2 v then
         [inum ''last_run'' (ag_last_run v), inum ''last_full_soc'' (ag_last_full_soc v),
          inum ''total_run'' (ag_total_run v)] else []))"

definition bmk_obj :: "mag_bmk \<Rightarrow> cdouble \<Rightarrow> json" where
  "bmk_obj v now = JObject
     [age (bk_t v) now, num ''revision'' (bk_revision v), inum ''soc_pct'' (bk_soc_pct v),
      num ''battery_voltage_v'' (bk_battery_voltage_v v), num ''battery_current_a'' (bk_battery_current_a v),
      num ''battery_voltage_min_v'' (bk_battery_voltage_min_v v),
      num ''battery_voltage_max_v'' (bk_battery_voltage_max_v v), inum ''net_ah'' (bk_net_ah v),
      num ''trip_ah'' (bk_trip_ah v), inum ''lifetime_ah'' (bk_lifetime_ah v), inum ''fault'' (bk_fault v),
      str ''fault_text'' (mag_bmk_fault_text (bk_fault v))]"

text \<open>The eight switches, the highest bit first.\<close>

definition dip_text :: "int \<Rightarrow> string" where
  "dip_text z = map (\<lambda>i. if bit z (7 - i) then CHR ''1'' else CHR ''0'') [0..<8]"

definition pt100_obj :: "mag_pt100 \<Rightarrow> cdouble \<Rightarrow> json" where
  "pt100_obj v now = JObject
     ([age (pt_t v) now] @
      (if \<not> pt_have_c1 v then [] else
        [inum ''address'' (pt_address v), inum ''mode'' (pt_mode v), str ''mode_text'' (mag_pt_mode_text (pt_mode v)),
         inum ''regulation'' (pt_regulation v), str ''regulation_text'' (mag_pt_regulation_text (pt_regulation v)),
         inum ''fault'' (pt_fault v), str ''fault_text'' (mag_pt_fault_text (pt_fault v)),
         num ''battery_voltage_v'' (pt_battery_voltage_v v), num ''battery_current_a'' (pt_battery_current_a v),
         num ''pv_voltage_v'' (pt_pv_voltage_v v), num ''charge_time'' (pt_charge_time v),
         num ''target_voltage_v'' (pt_target_voltage_v v), (''relay_on'', JBool (pt_relay_on v)),
         (''alarm_on'', JBool (pt_alarm_on v)), (''fan_on'', JBool (pt_fan_on v)),
         (''is_day'', JBool (pt_is_day v)),
         null_or ''bat_temp_c'' (if pt_bat_temp_valid v then Some (JNumber (of_int (pt_bat_temp_c v))) else None),
         inum ''inductor_temp_c'' (pt_inductor_temp_c v), inum ''fet_temp_c'' (pt_fet_temp_c v)] @
        (if \<not> pt_have_c2 v then [] else
          [num ''revision'' (pt_revision v), inum ''lifetime_kwh'' (pt_lifetime_kwh v),
           num ''resettable_kwh'' (pt_resettable_kwh v), inum ''ground_fault_current'' (pt_ground_fault_current v),
           num ''nominal_voltage_v'' (pt_nominal_voltage_v v), inum ''stacker_info'' (pt_stacker_info v),
           str ''dip_switches'' (dip_text (pt_dip_switches v)),
           inum ''output_current_rating_a'' (pt_output_current_rating_a v),
           inum ''input_voltage_rating_v'' (pt_input_voltage_rating_v v)])))"

abbreviation u64_num :: "string \<Rightarrow> u64 \<Rightarrow> member" where "u64_num k w \<equiv> inum k (uint w)"

definition diag_obj :: "mag_state \<Rightarrow> mag_frame_stats \<Rightarrow> string \<Rightarrow> cdouble \<Rightarrow> json" where
  "diag_obj s fs port now =
     (let n = packets fs;
          pk = [u64_num ''inverter'' (n MAG_PKT_INVERTER), u64_num ''remote'' (n MAG_PKT_REMOTE),
                u64_num ''router'' (n MAG_PKT_RTR_91), u64_num ''ags'' (n MAG_PKT_AGS_A1 + n MAG_PKT_AGS_A2),
                u64_num ''bmk'' (n MAG_PKT_BMK_81),
                u64_num ''pt100'' (n MAG_PKT_PT_C1 + n MAG_PKT_PT_C2 + n MAG_PKT_PT_C3),
                u64_num ''acld'' (n MAG_PKT_ACLD_D1)]
      in JObject
        [u64_num ''bytes_read'' (bytes_read fs), (''packets'', JObject pk), u64_num ''bad_packets'' (bad_packets fs),
         u64_num ''unknown_bytes'' (unknown_bytes fs), u64_num ''resyncs'' (resyncs fs),
         u64_num ''ff_bytes'' (ff_bytes fs), u64_num ''other_inverter_packets'' (ms_other_inverter_packets s),
         null_or ''last_inverter_s''
           (if iv_seen (ms_inv s) then Some (JNumber (of_int (c_round ((now - iv_t (ms_inv s)) * 10)) / 10)) else None),
         null_or ''port'' (if port \<noteq> [] then Some (JString port) else None)])"

definition router_obj :: "mag_rtr \<Rightarrow> cdouble \<Rightarrow> json" where
  "router_obj v now = JObject [age (rt_t v) now, num ''revision'' (rt_revision v)]"

text \<open>The whole object, before it is printed.\<close>

definition mag_reading_members :: "mag_state \<Rightarrow> mag_frame_stats \<Rightarrow> string \<Rightarrow> string \<Rightarrow> cdouble \<Rightarrow> member list" where
  "mag_reading_members s fs tap port now =
     [null_or ''tap'' (if tap \<noteq> [] then Some (JString tap) else None)] @ add_inverter (ms_inv s) @
     (if rm_seen (ms_rem s) then [(''remote'', remote_obj s now)] else []) @
     (if rt_seen (ms_rtr s) then [(''router'', router_obj (ms_rtr s) now)] else []) @
     (if ag_seen (ms_ags s) then [(''ags'', ags_obj (ms_ags s) now)] else []) @
     (if bk_seen (ms_bmk s) then [(''bmk'', bmk_obj (ms_bmk s) now)] else []) @
     (if pt_seen (ms_pt s) then [(''pt100'', pt100_obj (ms_pt s) now)] else []) @
     (if al_seen (ms_acld s) then [(''acld'', JObject [age (al_t (ms_acld s)) now])] else []) @
     [(''diag'', diag_obj s fs port now)]"

text \<open>The mark is appended to the first member \<open>diag\<close>.\<close>

fun mark_trimmed :: "member list \<Rightarrow> member list" where
  "mark_trimmed [] = []"
| "mark_trimmed ((k, j) # ms) =
     (if k = ''diag''
      then (k, case j of JObject kvs \<Rightarrow> JObject (kvs @ [(''trimmed'', JBool True)]) | _ \<Rightarrow> j) # ms
      else (k, j) # mark_trimmed ms)"

fun shed :: "(json \<Rightarrow> string) \<Rightarrow> (string \<times> bool) list \<Rightarrow> member list \<Rightarrow> member list" where
  "shed pr [] ms = ms"
| "shed pr ((k, mark) # ks) ms =
     (if MAG_READING_MAX < length (pr (JObject ms))
      then shed pr ks (let ms = delete_item k ms in if mark then mark_trimmed ms else ms)
      else ms)"

definition trim_order :: "(string \<times> bool) list" where
  "trim_order = [(''pt100'', True), (''bmk'', False), (''remote'', False)]"

definition mag_reading_json ::
  "(json \<Rightarrow> string) \<Rightarrow> mag_state \<Rightarrow> mag_frame_stats \<Rightarrow> string \<Rightarrow> string \<Rightarrow> cdouble \<Rightarrow> string" where
  "mag_reading_json pr s fs tap port now =
     pr (JObject (shed pr trim_order (mag_reading_members s fs tap port now)))"

subsection \<open>What a reader finds\<close>

lemma map_of_deleted: "k \<noteq> j \<Longrightarrow> map_of (delete_item j ms) k = map_of ms k"
  by (induction ms) auto

lemma map_of_mark: "k \<noteq> ''diag'' \<Longrightarrow> map_of (mark_trimmed ms) k = map_of ms k"
  by (induction ms rule: mark_trimmed.induct) auto

lemma shed_keeps: "k \<notin> fst ` set ks \<Longrightarrow> k \<noteq> ''diag'' \<Longrightarrow> map_of (shed pr ks ms) k = map_of ms k"
  by (induction pr ks ms rule: shed.induct) (auto simp: map_of_deleted map_of_mark Let_def)

lemma delete_item_keys: "k \<noteq> j \<Longrightarrow> k \<in> fst ` set (delete_item j ms) \<longleftrightarrow> k \<in> fst ` set ms"
  by (induction j ms rule: delete_item.induct) auto

lemma mark_keys [simp]: "map fst (mark_trimmed ms) = map fst ms"
  by (induction ms rule: mark_trimmed.induct) auto

lemma delete_item_distinct:
  "distinct (map fst ms) \<Longrightarrow> distinct (map fst (delete_item k ms)) \<and> set (map fst (delete_item k ms)) = set (map fst ms) - {k}"
  by (induction k ms rule: delete_item.induct) auto

lemma shed_bound:
  assumes "distinct (map fst ms)"
  shows "length (pr (JObject (shed pr ks ms))) \<le> MAG_READING_MAX \<or>
    set (map fst (shed pr ks ms)) = set (map fst ms) - set (map fst ks)"
  using assms
proof (induction pr ks ms rule: shed.induct)
  case (2 pr k mark ks ms)
  let ?ms = "if mark then mark_trimmed (delete_item k ms) else delete_item k ms"
  have d: "distinct (map fst ?ms)" "set (map fst ?ms) = set (map fst ms) - {k}"
    using delete_item_distinct [OF "2.prems", of k] by (simp_all del: set_map)
  show ?case
  proof (cases "MAG_READING_MAX < length (pr (JObject ms))")
    case True
    then have eq: "shed pr ((k, mark) # ks) ms = shed pr ks ?ms" by (simp only: shed.simps Let_def if_True)
    have "length (pr (JObject (shed pr ks ?ms))) \<le> MAG_READING_MAX \<or>
        set (map fst (shed pr ks ?ms)) = set (map fst ?ms) - set (map fst ks)"
      using "2.IH" [unfolded Let_def, OF True d(1)] .
    moreover have "set (map fst ?ms) - set (map fst ks) = set (map fst ms) - set (map fst ((k, mark) # ks))"
      unfolding d(2) by auto
    ultimately show ?thesis unfolding eq by argo
  next
    case False
    then have "shed pr ((k, mark) # ks) ms = ms" by (simp only: shed.simps if_False)
    then show ?thesis using False by (simp add: not_less)
  qed
qed simp

definition reading_keys :: "string list" where
  "reading_keys = [''tap'', ''mode'', ''mode_text'', ''fault'', ''fault_text'', ''dc_voltage_v'', ''dc_current_a'',
     ''dc_power_w'', ''inverting'', ''ac_out_v'', ''ac_out_a'', ''ac_in_v'', ''ac_in_a'', ''freq_hz'', ''invled'',
     ''chgled'', ''bat_temp_c'', ''tfmr_temp_c'', ''fet_temp_c'', ''model'', ''model_text'', ''rated_w'', ''stackmode'',
     ''stackmode_text'', ''revision'', ''remote'', ''router'', ''ags'', ''bmk'', ''pt100'', ''acld'', ''diag'']"

lemma reading_keys_distinct: "distinct reading_keys"
  by code_simp

lemma subseq_opt: "subseq xs ys \<Longrightarrow> subseq ((if b then [k] else []) @ xs) (k # ys)"
  by auto

lemma members_distinct: "distinct (map fst (mag_reading_members s fs tap port now))"
proof -
  have inv: "''tap'' # map fst (add_inverter v) = take 25 reading_keys" for v
    by (simp add: add_inverter_def null_or_def num_def reading_keys_def)
  have "map fst (mag_reading_members s fs tap port now) = take 25 reading_keys @
     (if rm_seen (ms_rem s) then [''remote''] else []) @ (if rt_seen (ms_rtr s) then [''router''] else []) @
     (if ag_seen (ms_ags s) then [''ags''] else []) @ (if bk_seen (ms_bmk s) then [''bmk''] else []) @
     (if pt_seen (ms_pt s) then [''pt100''] else []) @ (if al_seen (ms_acld s) then [''acld''] else []) @ [''diag'']"
    unfolding mag_reading_members_def inv [symmetric, of "ms_inv s"] by (simp add: null_or_def)
  moreover have "subseq \<dots> (take 25 reading_keys @ drop 25 reading_keys)"
    by (intro list_emb_append_mono subseq_order.order_refl) (simp add: reading_keys_def)
  ultimately have "subseq (map fst (mag_reading_members s fs tap port now)) reading_keys" by simp
  then show ?thesis using reading_keys_distinct by (auto simp: subseq_conv_nths intro: distinct_nthsI)
qed

text \<open>
  A tap's reading keeps every member except the three the code may shed (and the mark in its
  diagnostics), whatever the printer makes of it; and either it is at most 4000 characters long or
  neither the solar charger nor the battery monitor nor the remote is left in it.
\<close>

theorem mag_reading_trimmed:
  "\<exists>ms. mag_reading_json pr s fs tap port now = pr (JObject ms) \<and>
     (\<forall>k. k \<notin> {''pt100'', ''bmk'', ''remote'', ''diag''} \<longrightarrow>
        map_of ms k = map_of (mag_reading_members s fs tap port now) k) \<and>
     (length (mag_reading_json pr s fs tap port now) \<le> 4000 \<or>
      {''pt100'', ''bmk'', ''remote''} \<inter> fst ` set ms = {})"
proof -
  let ?ms = "mag_reading_members s fs tap port now"
  have "length (pr (JObject (shed pr trim_order ?ms))) \<le> 4000 \<or>
      fst ` set (shed pr trim_order ?ms) = fst ` set ?ms - {''pt100'', ''bmk'', ''remote''}"
    using shed_bound [OF members_distinct, of pr trim_order] by (simp add: trim_order_def MAG_READING_MAX_def)
  moreover have "map_of (shed pr trim_order ?ms) k = map_of ?ms k" if "k \<notin> {''pt100'', ''bmk'', ''remote'', ''diag''}" for k
    using that shed_keeps [of k trim_order pr ?ms] by (auto simp: trim_order_def)
  moreover have "{''pt100'', ''bmk'', ''remote''} \<inter> (fst ` set ?ms - {''pt100'', ''bmk'', ''remote''}) = {}" by blast
  ultimately show ?thesis unfolding mag_reading_json_def by metis
qed

end
