(* ===== verification/UsbId.thy ===== *)
theory UsbId
  imports CText
begin

section \<open>USB identity and endpoint events (src/usb/usb_id.c, usb_id.h)\<close>

text \<open>
  The ring of endpoint events, the identity of a serial adapter, and the policy that decides which
  device node a module uses. The operating system's answers (the entries of
  \<open>/dev/serial/by-id\<close> in \<open>readdir\<close> order with their link targets, and the sysfs attribute files)
  are the record \<open>usb_fs\<close>; the static ring and the fake root of the tests are the state.
\<close>

definition MF_USB_PATH_SIZE :: nat where "MF_USB_PATH_SIZE = 128"
definition MF_USB_SERIAL_SIZE :: nat where "MF_USB_SERIAL_SIZE = 64"
definition MF_USB_BYID_SIZE :: nat where "MF_USB_BYID_SIZE = 256"
definition MF_USB_UUID_SIZE :: nat where "MF_USB_UUID_SIZE = 40"
definition RING_CAP :: nat where "RING_CAP = 16"

record usb_id =
  ui_path :: string
  ui_serial_id :: string
  ui_by_id :: string
  ui_vid_pid :: string

record usb_want =
  uw_path :: string
  uw_serial_id :: string
  uw_by_id :: string
  uw_auto_port :: bool
  uw_path_ok :: bool

record endpoint_event =
  ev_uuid :: string
  ev_path :: string
  ev_serial_id :: string
  ev_by_id :: string

definition usb_id_zero :: usb_id where
  "usb_id_zero = \<lparr>ui_path = [], ui_serial_id = [], ui_by_id = [], ui_vid_pid = []\<rparr>"

definition event_zero :: endpoint_event where
  "event_zero = \<lparr>ev_uuid = [], ev_path = [], ev_serial_id = [], ev_by_id = []\<rparr>"

subsection \<open>The ring\<close>

record ring =
  rg_slots :: "endpoint_event list"
  rg_head :: nat
  rg_cnt :: nat

definition mf_endpoint_reset :: ring where
  "mf_endpoint_reset = \<lparr>rg_slots = replicate RING_CAP event_zero, rg_head = 0, rg_cnt = 0\<rparr>"

definition mf_endpoint_enqueue :: "endpoint_event option \<Rightarrow> ring \<Rightarrow> bool \<times> ring" where
  "mf_endpoint_enqueue ev r =
     (case ev of
        None \<Rightarrow> (False, r)
      | Some ev \<Rightarrow>
          if ev_uuid ev = [] then (False, r)
          else if RING_CAP \<le> rg_cnt r then (False, r)
          else let slot = (rg_head r + rg_cnt r) mod RING_CAP
               in (True, r\<lparr>rg_slots := (rg_slots r)[slot := ev], rg_cnt := rg_cnt r + 1\<rparr>))"

fun mf_endpoint_drain :: "nat \<Rightarrow> ring \<Rightarrow> endpoint_event list \<times> ring" where
  "mf_endpoint_drain 0 r = ([], r)"
| "mf_endpoint_drain (Suc n) r =
     (if rg_cnt r = 0 then ([], r)
      else let (es, r') = mf_endpoint_drain n
                 (r\<lparr>rg_head := (rg_head r + 1) mod RING_CAP, rg_cnt := rg_cnt r - 1\<rparr>)
           in (rg_slots r ! rg_head r # es, r'))"

text \<open>The contract of a bounded queue, and what its client relies on.\<close>

locale bounded_queue =
  fixes abs :: "'q \<Rightarrow> 'e list" and ok :: "'q \<Rightarrow> bool" and cap :: nat and good :: "'e \<Rightarrow> bool"
    and enq :: "'e \<Rightarrow> 'q \<Rightarrow> bool \<times> 'q" and deq :: "nat \<Rightarrow> 'q \<Rightarrow> 'e list \<times> 'q"
  assumes enq_room: "ok q \<Longrightarrow> good e \<Longrightarrow> length (abs q) < cap \<Longrightarrow>
        fst (enq e q) \<and> ok (snd (enq e q)) \<and> abs (snd (enq e q)) = abs q @ [e]"
    and enq_refuse: "ok q \<Longrightarrow> \<not> (good e \<and> length (abs q) < cap) \<Longrightarrow> enq e q = (False, q)"
    and deq_front: "ok q \<Longrightarrow> fst (deq n q) = take n (abs q) \<and> ok (snd (deq n q)) \<and>
        abs (snd (deq n q)) = drop n (abs q)"
begin

lemma enq_all:
  "ok q \<Longrightarrow> ok (fold (\<lambda>e. snd \<circ> enq e) es q) \<and>
     abs (fold (\<lambda>e. snd \<circ> enq e) es q) = abs q @ take (cap - length (abs q)) (filter good es)"
proof (induction es arbitrary: q)
  case (Cons e es)
  show ?case
  proof (cases "good e \<and> length (abs q) < cap")
    case True
    then show ?thesis
      using enq_room [OF Cons.prems, of e] Cons.IH [of "snd (enq e q)"] by (simp add: take_Cons' Suc_diff_Suc)
  next
    case False
    then show ?thesis
      using enq_refuse [OF Cons.prems, of e] Cons.IH [OF Cons.prems] by auto
  qed
qed simp

lemma fifo: "ok q \<Longrightarrow>
    fst (deq n (fold (\<lambda>e. snd \<circ> enq e) es q)) = take n (abs q @ take (cap - length (abs q)) (filter good es))"
  using enq_all deq_front by metis

end

definition ring_ok :: "ring \<Rightarrow> bool" where
  "ring_ok r \<longleftrightarrow> length (rg_slots r) = RING_CAP \<and> rg_head r < RING_CAP \<and> rg_cnt r \<le> RING_CAP"

definition ring_list :: "ring \<Rightarrow> endpoint_event list" where
  "ring_list r = map (\<lambda>i. rg_slots r ! ((rg_head r + i) mod RING_CAP)) [0..<rg_cnt r]"

lemma mod_ring_distinct:
  assumes "i < n" and "n < RING_CAP" and "h < RING_CAP"
  shows "(h + i) mod RING_CAP \<noteq> (h + n) mod RING_CAP"
  using assms by (auto simp: RING_CAP_def mod_if split: if_splits)

lemma ring_enqueue:
  assumes "ring_ok r" and "rg_cnt r < RING_CAP" and "ev_uuid ev \<noteq> []"
  shows "fst (mf_endpoint_enqueue (Some ev) r) \<and> ring_ok (snd (mf_endpoint_enqueue (Some ev) r)) \<and>
    ring_list (snd (mf_endpoint_enqueue (Some ev) r)) = ring_list r @ [ev]"
proof -
  let ?n = "rg_cnt r" and ?h = "rg_head r"
  have "(?h + ?n) mod RING_CAP < length (rg_slots r)" using assms(1) by (simp add: ring_ok_def RING_CAP_def)
  then have "map (\<lambda>i. (rg_slots r)[(?h + ?n) mod RING_CAP := ev] ! ((?h + i) mod RING_CAP)) [0..<?n] = ring_list r"
    using mod_ring_distinct [of _ ?n ?h] assms(1,2) 
    by (auto simp: ring_list_def ring_ok_def nth_list_update) metis
  then show ?thesis
    using assms \<open>(?h + ?n) mod RING_CAP < length (rg_slots r)\<close>
    by (simp add: mf_endpoint_enqueue_def Let_def ring_ok_def ring_list_def)
qed

lemma ring_drain:
  "ring_ok r \<Longrightarrow> fst (mf_endpoint_drain n r) = take n (ring_list r) \<and> ring_ok (snd (mf_endpoint_drain n r)) \<and>
     ring_list (snd (mf_endpoint_drain n r)) = drop n (ring_list r)"
proof (induction n r rule: mf_endpoint_drain.induct)
  case (2 n r)
  show ?case
  proof (cases "rg_cnt r")
    case 0
    then show ?thesis using "2.prems" by (simp add: ring_list_def)
  next
    case (Suc k)
    let ?r = "r\<lparr>rg_head := (rg_head r + 1) mod RING_CAP, rg_cnt := rg_cnt r - 1\<rparr>"
    have ok: "ring_ok ?r" using "2.prems" Suc by (simp add: ring_ok_def RING_CAP_def)
    have "ring_list r = rg_slots r ! rg_head r # ring_list ?r"
      using "2.prems" Suc
      by (simp add: ring_list_def ring_ok_def upt_conv_Cons map_Suc_upt [symmetric] mod_simps
          del: upt_Suc)
    then show ?thesis
      using "2.IH" ok Suc by (simp add: split_beta)
  qed
qed simp

interpretation events: bounded_queue ring_list ring_ok RING_CAP "\<lambda>ev. ev_uuid ev \<noteq> []"
  "\<lambda>ev. mf_endpoint_enqueue (Some ev)" mf_endpoint_drain
proof unfold_locales
  fix q and e :: endpoint_event
  assume "ring_ok q" "ev_uuid e \<noteq> []" "length (ring_list q) < RING_CAP"
  then show "fst (mf_endpoint_enqueue (Some e) q) \<and> ring_ok (snd (mf_endpoint_enqueue (Some e) q)) \<and>
      ring_list (snd (mf_endpoint_enqueue (Some e) q)) = ring_list q @ [e]"
    using ring_enqueue [of q e] by (simp add: ring_list_def)
next
  fix q and e :: endpoint_event
  assume "ring_ok q" "\<not> (ev_uuid e \<noteq> [] \<and> length (ring_list q) < RING_CAP)"
  then show "mf_endpoint_enqueue (Some e) q = (False, q)"
    by (auto simp: mf_endpoint_enqueue_def ring_list_def)
next
  fix q n
  assume "ring_ok q"
  then show "fst (mf_endpoint_drain n q) = take n (ring_list q) \<and> ring_ok (snd (mf_endpoint_drain n q)) \<and>
      ring_list (snd (mf_endpoint_drain n q)) = drop n (ring_list q)"
    by (rule ring_drain)
qed

text \<open>
  C36: The event ring is a first-in first-out queue of 16: publishing any events to a well-formed ring
  and draining returns the pending ones, then the new ones with a uuid, in the order published,
  as many as fit; the newest are the ones lost.
\<close>

theorem endpoint_ring_fifo:
  assumes "ring_ok r"
  shows "fst (mf_endpoint_drain n (fold (\<lambda>ev. snd \<circ> mf_endpoint_enqueue (Some ev)) evs r)) =
    take n (ring_list r @ take (16 - length (ring_list r)) (filter (\<lambda>ev. ev_uuid ev \<noteq> []) evs))"
  using events.fifo [OF assms] by (simp add: RING_CAP_def)

theorem endpoint_ring_fifo_witness:
  "fst (mf_endpoint_drain 16 (fold (\<lambda>ev. snd \<circ> mf_endpoint_enqueue (Some ev))
     [event_zero\<lparr>ev_uuid := ''a''\<rparr>, event_zero, event_zero\<lparr>ev_uuid := ''b''\<rparr>] mf_endpoint_reset)) =
   [event_zero\<lparr>ev_uuid := ''a''\<rparr>, event_zero\<lparr>ev_uuid := ''b''\<rparr>]"
proof -
  have "ring_ok mf_endpoint_reset" "ring_list mf_endpoint_reset = []"
    by (simp_all add: ring_ok_def ring_list_def mf_endpoint_reset_def RING_CAP_def)
  then show ?thesis
    using endpoint_ring_fifo [of mf_endpoint_reset 16
        "[event_zero\<lparr>ev_uuid := ''a''\<rparr>, event_zero, event_zero\<lparr>ev_uuid := ''b''\<rparr>]"]
    by (simp add: event_zero_def)
qed

subsection \<open>Names\<close>

text \<open>The text after the last slash, as \<open>strrchr\<close> finds it.\<close>

definition after_slash :: "string \<Rightarrow> string" where
  "after_slash s = rev (takeWhile (\<lambda>c. c \<noteq> CHR ''/'') (rev s))"

definition tty_basename :: "string \<Rightarrow> string option" where
  "tty_basename dev_path = (if dev_path = [] then None else Some (after_slash dev_path))"

definition make_dev_path :: "nat \<Rightarrow> string \<Rightarrow> string" where
  "make_dev_path cap tty =
     (if tty \<noteq> [] \<and> hd tty = CHR ''/'' then c_copy cap tty
      else c_copy cap (''/dev/'' @ take (cap - 6) tty))"

definition is_blank :: "char \<Rightarrow> bool" where
  "is_blank c \<longleftrightarrow> c = CHR 0x0A \<or> c = CHR 0x0D \<or> c = CHR '' '' \<or> c = CHR 0x09"

definition trim_nl :: "string \<Rightarrow> string" where
  "trim_nl s = rev (dropWhile is_blank (rev s))"

text \<open>\<open>read_text\<close> of an attribute whose first line is \<open>s\<close> (\<open>fgets\<close> into \<open>cap\<close> bytes); \<open>None\<close>: no file.\<close>

definition read_text :: "nat \<Rightarrow> string option \<Rightarrow> string option" where
  "read_text cap file =
     (case file of None \<Rightarrow> None
      | Some s \<Rightarrow> let t = trim_nl (take (cap - 1) s) in if t = [] then None else Some t)"

definition serial_from_byid :: "nat \<Rightarrow> string \<Rightarrow> string option" where
  "serial_from_byid cap by_id =
     (case strstr_pos ''-if'' by_id of
        None \<Rightarrow> None
      | Some k \<Rightarrow>
          if k = 0 then None
          else let front = take k by_id;
                   serial = rev (takeWhile (\<lambda>c. c \<noteq> CHR ''_'') (rev front));
                   us = k - length serial
               in if us = 0 \<or> k \<le> us then None
                  else if length serial = 0 \<or> cap \<le> length serial then None
                  else Some serial)"

subsection \<open>The operating system's answers\<close>

record usb_fs =
  fs_by_id :: "(string \<times> string option) list option"
  fs_device :: "string \<Rightarrow> bool"
  fs_serial :: "string \<Rightarrow> string option"
  fs_vendor :: "string \<Rightarrow> string option"
  fs_product :: "string \<Rightarrow> string option"

definition sysfs_identity :: "usb_fs \<Rightarrow> string \<Rightarrow> usb_id \<Rightarrow> usb_id" where
  "sysfs_identity fs tty out =
     (if \<not> fs_device fs tty then out
      else
        let out = out\<lparr>ui_serial_id := (case read_text MF_USB_SERIAL_SIZE (fs_serial fs tty) of
                Some s \<Rightarrow> s | None \<Rightarrow> [])\<rparr>;
            vend = (case read_text 8 (fs_vendor fs tty) of Some s \<Rightarrow> s | None \<Rightarrow> []);
            prd = (case read_text 8 (fs_product fs tty) of Some s \<Rightarrow> s | None \<Rightarrow> [])
        in if vend \<noteq> [] \<and> prd \<noteq> [] then out\<lparr>ui_vid_pid := c_copy 16 (vend @ '':'' @ prd)\<rparr> else out)"

definition byid_for_tty :: "usb_fs \<Rightarrow> string \<Rightarrow> string" where
  "byid_for_tty fs tty =
     (case fs_by_id fs of None \<Rightarrow> []
      | Some ents \<Rightarrow> foldl (\<lambda>b (nm, target). case target of
            None \<Rightarrow> b
          | Some t \<Rightarrow> if nm \<noteq> [] \<and> hd nm = CHR ''.'' then b
                      else if after_slash t \<noteq> tty then b else c_copy MF_USB_BYID_SIZE nm) [] ents)"

definition mf_usb_identify :: "usb_fs \<Rightarrow> string \<Rightarrow> usb_id option" where
  "mf_usb_identify fs dev_path =
     (case tty_basename dev_path of
        None \<Rightarrow> None
      | Some tty \<Rightarrow>
          if tty = [] then None
          else
            let out = usb_id_zero\<lparr>ui_path := make_dev_path MF_USB_PATH_SIZE tty,
                                  ui_by_id := byid_for_tty fs tty\<rparr>;
                out = sysfs_identity fs tty out;
                out = (if ui_serial_id out = [] \<and> ui_by_id out \<noteq> []
                       then out\<lparr>ui_serial_id := (case serial_from_byid MF_USB_SERIAL_SIZE (ui_by_id out) of
                              Some s \<Rightarrow> s | None \<Rightarrow> [])\<rparr> else out);
                out = (if ui_serial_id out = [] \<and> ui_vid_pid out \<noteq> []
                       then out\<lparr>ui_serial_id := c_copy MF_USB_SERIAL_SIZE (''usb-'' @ ui_vid_pid out)\<rparr>
                       else out)
            in if ui_serial_id out = [] \<and> ui_by_id out = [] \<and> ui_vid_pid out = [] then None
               else Some out)"

datatype usb_find = Found usb_id | None_found | Ambiguous

text \<open>The scan loop: at most eight hits, the last of them that has the hinted name.\<close>

fun scan_hits :: "usb_fs \<Rightarrow> string \<Rightarrow> string \<Rightarrow> (string \<times> string option) list \<Rightarrow> usb_id list \<Rightarrow>
    usb_id option \<Rightarrow> usb_id list \<times> usb_id option" where
  "scan_hits fs serial hint [] hits hinted = (hits, hinted)"
| "scan_hits fs serial hint ((nm, target) # ents) hits hinted =
     (if 8 \<le> length hits then (hits, hinted)
      else case target of
        None \<Rightarrow> scan_hits fs serial hint ents hits hinted
      | Some t \<Rightarrow>
          if nm \<noteq> [] \<and> hd nm = CHR ''.'' then scan_hits fs serial hint ents hits hinted
          else case mf_usb_identify fs (make_dev_path MF_USB_PATH_SIZE (after_slash t)) of
            None \<Rightarrow> scan_hits fs serial hint ents hits hinted
          | Some i \<Rightarrow>
              if ui_serial_id i \<noteq> serial then scan_hits fs serial hint ents hits hinted
              else scan_hits fs serial hint ents (hits @ [i])
                     (if hint \<noteq> [] \<and> ui_by_id i = hint then Some i else hinted))"

definition mf_usb_find_by_serial :: "usb_fs \<Rightarrow> string \<Rightarrow> string \<Rightarrow> usb_find" where
  "mf_usb_find_by_serial fs serial_id by_id_hint =
     (if serial_id = [] then None_found
      else case fs_by_id fs of
        None \<Rightarrow> None_found
      | Some ents \<Rightarrow>
          (let (hits, hinted) = scan_hits fs serial_id by_id_hint ents [] None
           in if hits = [] then None_found
              else if length hits = 1 then Found (hd hits)
              else case hinted of Some i \<Rightarrow> Found i | None \<Rightarrow> Ambiguous))"

subsection \<open>The auto-port policy\<close>

datatype usb_decision = MF_USB_USE | MF_USB_LEARN | MF_USB_RELOCATE | MF_USB_ERROR

definition serial_matches :: "usb_id \<Rightarrow> usb_want \<Rightarrow> bool" where
  "serial_matches i want \<longleftrightarrow>
     uw_serial_id want \<noteq> [] \<and> ui_serial_id i \<noteq> [] \<and> uw_serial_id want = ui_serial_id i \<or>
     uw_by_id want \<noteq> [] \<and> ui_by_id i \<noteq> [] \<and> uw_by_id want = ui_by_id i"

definition publish :: "string \<Rightarrow> usb_id \<Rightarrow> ring \<Rightarrow> ring" where
  "publish uuid i r =
     (if uuid = [] then r
      else snd (mf_endpoint_enqueue (Some \<lparr>ev_uuid = c_copy MF_USB_UUID_SIZE uuid,
             ev_path = c_copy MF_USB_PATH_SIZE (ui_path i),
             ev_serial_id = c_copy MF_USB_SERIAL_SIZE (ui_serial_id i),
             ev_by_id = c_copy MF_USB_BYID_SIZE (ui_by_id i)\<rparr>) r))"

definition relocate ::
  "usb_fs \<Rightarrow> string \<Rightarrow> usb_want \<Rightarrow> ring \<Rightarrow> usb_decision \<times> usb_id \<times> ring" where
  "relocate fs uuid want r =
     (if \<not> uw_auto_port want then (MF_USB_ERROR, usb_id_zero, r)
      else if uw_serial_id want = [] then (MF_USB_ERROR, usb_id_zero, r)
      else case mf_usb_find_by_serial fs (uw_serial_id want) (uw_by_id want) of
        Found i \<Rightarrow>
          if uw_path want \<noteq> [] \<and> ui_path i = uw_path want then (MF_USB_USE, i, r)
          else (MF_USB_RELOCATE, i, publish uuid i r)
      | _ \<Rightarrow> (MF_USB_ERROR, usb_id_zero, r))"

definition mf_usb_resolve ::
  "usb_fs \<Rightarrow> string \<Rightarrow> usb_want \<Rightarrow> ring \<Rightarrow> usb_decision \<times> usb_id \<times> ring" where
  "mf_usb_resolve fs uuid want r =
     (if uw_path want \<noteq> [] \<and> uw_path_ok want then
        (let got = mf_usb_identify fs (uw_path want); path = c_copy MF_USB_PATH_SIZE (uw_path want) in
         if uw_serial_id want = [] \<and> uw_by_id want = [] then
           (case got of
              Some i \<Rightarrow> (MF_USB_LEARN, i\<lparr>ui_path := path\<rparr>, publish uuid (i\<lparr>ui_path := path\<rparr>) r)
            | None \<Rightarrow> (MF_USB_USE, usb_id_zero\<lparr>ui_path := path\<rparr>, r))
         else case got of
           Some i \<Rightarrow> if serial_matches i want then (MF_USB_USE, i\<lparr>ui_path := path\<rparr>, r)
                     else relocate fs uuid want r
         | None \<Rightarrow> relocate fs uuid want r)
      else relocate fs uuid want r)"

lemma scan_hits_serial:
  assumes "scan_hits fs serial hint ents hits hinted = (hs, h)"
    and "\<forall>i \<in> set hits. ui_serial_id i = serial"
    and "hinted = None \<or> (\<exists>i \<in> set hits. hinted = Some i \<and> ui_by_id i = hint \<and> hint \<noteq> [])"
  shows "(\<forall>i \<in> set hs. ui_serial_id i = serial) \<and>
    (h = None \<or> (\<exists>i \<in> set hs. h = Some i \<and> ui_by_id i = hint \<and> hint \<noteq> [])) \<and> set hits \<subseteq> set hs"
  using assms
proof (induction fs serial hint ents hits hinted rule: scan_hits.induct)
  case (2 fs serial hint nm target ents hits hinted)
  show ?case
  proof (cases "8 \<le> length hits")
    case True
    then show ?thesis using "2.prems" by auto
  next
    case False
    show ?thesis
    proof (cases target)
      case None
      then show ?thesis using "2.IH"(1) "2.prems" False by simp
    next
      case (Some t)
      let ?i = "mf_usb_identify fs (make_dev_path MF_USB_PATH_SIZE (after_slash t))"
      consider (dot) "nm \<noteq> [] \<and> hd nm = CHR ''.''" | (none) "\<not> (nm \<noteq> [] \<and> hd nm = CHR ''.'')" "?i = None"
        | (other) i where "\<not> (nm \<noteq> [] \<and> hd nm = CHR ''.'')" "?i = Some i" "ui_serial_id i \<noteq> serial"
        | (hit) i where "\<not> (nm \<noteq> [] \<and> hd nm = CHR ''.'')" "?i = Some i" "ui_serial_id i = serial"
        by (cases ?i) auto
      then show ?thesis
      proof cases
        case dot
        then show ?thesis using "2.IH"(2) "2.prems" False Some by simp
      next
        case none
        then show ?thesis using "2.IH"(3) "2.prems" False Some by auto
      next
        case other
        then have "scan_hits fs serial hint ents hits hinted = (hs, h)"
          using "2.prems"(1) False Some by (cases nm) auto
        then show ?thesis
          using "2.IH"(4) [OF False Some other(1,2)] other(3) "2.prems"(2,3) by blast
      next
        case hit
        let ?h = "if hint \<noteq> [] \<and> ui_by_id i = hint then Some i else hinted"
        have "scan_hits fs serial hint ents (hits @ [i]) ?h = (hs, h)"
          using "2.prems"(1) hit False Some by auto
        moreover have "\<forall>j \<in> set (hits @ [i]). ui_serial_id j = serial"
          using "2.prems"(2) hit by simp
        moreover have "?h = None \<or> (\<exists>j \<in> set (hits @ [i]). ?h = Some j \<and> ui_by_id j = hint \<and> hint \<noteq> [])"
          using "2.prems"(3) by auto
        ultimately have "(\<forall>j \<in> set hs. ui_serial_id j = serial) \<and>
            (h = None \<or> (\<exists>j \<in> set hs. h = Some j \<and> ui_by_id j = hint \<and> hint \<noteq> [])) \<and>
            set (hits @ [i]) \<subseteq> set hs"
          using "2.IH"(5) [OF False Some hit(1,2)] hit(3) by blast
        then show ?thesis by simp
      qed
    qed
  qed
qed auto

lemma find_by_serial:
  assumes "mf_usb_find_by_serial fs serial hint = Found i"
  shows "ui_serial_id i = serial \<and> (\<exists>ents hits hinted. fs_by_id fs = Some ents \<and>
    scan_hits fs serial hint ents [] None = (hits, hinted) \<and> (hits = [i] \<or> ui_by_id i = hint \<and> hint \<noteq> []))"
proof -
  obtain ents where e: "fs_by_id fs = Some ents" "serial \<noteq> []"
    using assms by (auto simp: mf_usb_find_by_serial_def split: if_splits option.splits)
  obtain hs h where s: "scan_hits fs serial hint ents [] None = (hs, h)" by force
  have inv: "(\<forall>i \<in> set hs. ui_serial_id i = serial) \<and>
      (h = None \<or> (\<exists>i \<in> set hs. h = Some i \<and> ui_by_id i = hint \<and> hint \<noteq> []))"
    using scan_hits_serial [OF s] by simp
  have "hs \<noteq> []" "(length hs = 1 \<and> i = hd hs) \<or> h = Some i"
    using assms e s by (auto simp: mf_usb_find_by_serial_def split: if_splits option.splits)
  moreover have "hs = [i]" if "length hs = 1" "i = hd hs"
    using that by (cases hs) auto
  ultimately have "i \<in> set hs" "hs = [i] \<or> ui_by_id i = hint \<and> hint \<noteq> []"
    using inv by auto
  then show ?thesis using inv e(1) s by blast
qed

text \<open>
  The auto-port policy keeps its promises: it never relocates when auto-port is off or no serial is
  known; a USE answer keeps the wanted path (cut to its buffer); it relocates only to an adapter
  with the wanted serial, unique or with the hinted by-id name; and only LEARN and RELOCATE
  publish an event.
\<close>

theorem usb_resolve_policy:
  assumes "mf_usb_resolve fs uuid want r = (d, got, r')"
  shows "(d = MF_USB_RELOCATE \<longrightarrow> uw_auto_port want \<and> uw_serial_id want \<noteq> [] \<and>
      ui_serial_id got = uw_serial_id want \<and>
      (\<exists>ents hits hinted. fs_by_id fs = Some ents \<and>
         scan_hits fs (uw_serial_id want) (uw_by_id want) ents [] None = (hits, hinted) \<and>
         (hits = [got] \<or> ui_by_id got = uw_by_id want \<and> uw_by_id want \<noteq> []))) \<and>
    (d = MF_USB_USE \<longrightarrow> ui_path got = c_copy MF_USB_PATH_SIZE (uw_path want) \<or> ui_path got = uw_path want) \<and>
    (d = MF_USB_LEARN \<longrightarrow> uw_serial_id want = [] \<and> uw_by_id want = [] \<and> uw_path_ok want) \<and>
    (d = MF_USB_USE \<or> d = MF_USB_ERROR \<longrightarrow> r' = r)"
proof -
  have rel: "?thesis" if "relocate fs uuid want r = (d, got, r')"
    using that find_by_serial [of fs "uw_serial_id want" "uw_by_id want" got]
    by (auto simp: relocate_def split: if_splits usb_find.splits)
  show ?thesis
  proof (cases "uw_path want \<noteq> [] \<and> uw_path_ok want")
    case False
    then have "relocate fs uuid want r = (d, got, r')"
      using assms unfolding mf_usb_resolve_def by presburger
    then show ?thesis by (rule rel)
  next
    case True
    show ?thesis
    proof (cases "mf_usb_identify fs (uw_path want)")
      case None
      then show ?thesis using True assms rel by (auto simp: mf_usb_resolve_def Let_def split: if_splits)
    next
      case (Some i)
      then show ?thesis using True assms rel by (auto simp: mf_usb_resolve_def Let_def split: if_splits)
    qed
  qed
qed

subsection \<open>Serials in by-id names\<close>

text \<open>
  The serial in a udev by-id name is read back: from \<open><vendor and product>_<serial>-if<rest>\<close> the
  code takes the serial, whatever the vendor part, when the serial has no underscore, fits the
  buffer and \<open>-if\<close> does not occur before.
\<close>

theorem usb_serial_from_byid_roundtrip:
  assumes "serial \<noteq> []" and "CHR ''_'' \<notin> set serial" and "length serial < cap"
    and "\<not> sublist ''-if'' (vendor @ ''_'' @ serial @ ''-i'')"
  shows "serial_from_byid cap (vendor @ ''_'' @ serial @ ''-if'' @ rest) = Some serial"
proof -
  let ?front = "vendor @ ''_'' @ serial"
  have pos: "strstr_pos ''-if'' (?front @ ''-if'' @ rest) = Some (length ?front)"
    using strstr_pos_first [of "''-if''" ?front rest] assms(4) by simp
  have "takeWhile (\<lambda>c. c \<noteq> CHR ''_'') (rev serial @ ''_'' @ rev vendor) = rev serial"
    using assms(2) by (subst takeWhile_append2) auto
  then have tw: "rev (takeWhile (\<lambda>c. c \<noteq> CHR ''_'') (rev ?front)) = serial" by simp
  have "take (length ?front) (?front @ ''-if'' @ rest) = ?front" by simp
  then show ?thesis
    using assms(1,3) pos tw unfolding serial_from_byid_def Let_def append.assoc
    by (simp add: option.case)
qed

theorem usb_serial_from_byid_roundtrip_witness:
  "serial_from_byid 64 (''usb-Silicon_Labs_CP2102N'' @ ''_'' @ ''0001'' @ ''-if'' @ ''00-port0'') = Some ''0001''"
proof (rule usb_serial_from_byid_roundtrip)
  show "\<not> sublist ''-if'' (''usb-Silicon_Labs_CP2102N'' @ ''_'' @ ''0001'' @ ''-i'')" by code_simp
qed simp_all

definition sample_fs :: usb_fs where
  "sample_fs = \<lparr>fs_by_id = Some [(''usb-A_B_S1-if00'', Some ''../../ttyUSB3'')], fs_device = (\<lambda>_. False),
     fs_serial = (\<lambda>_. None), fs_vendor = (\<lambda>_. None), fs_product = (\<lambda>_. None)\<rparr>"

definition sample_want :: usb_want where
  "sample_want = \<lparr>uw_path = ''/dev/ttyUSB0'', uw_serial_id = ''S1'', uw_by_id = [], uw_auto_port = True,
     uw_path_ok = False\<rparr>"

theorem usb_resolve_policy_witness:
  "uw_auto_port sample_want \<and>
   ui_serial_id (fst (snd (mf_usb_resolve sample_fs ''m1'' sample_want mf_endpoint_reset))) = ''S1''"
proof -
  let ?x = "mf_usb_resolve sample_fs ''m1'' sample_want mf_endpoint_reset"
  have d: "fst ?x = MF_USB_RELOCATE" by code_simp
  have "?x = (MF_USB_RELOCATE, fst (snd ?x), snd (snd ?x))" using d by (metis prod.collapse)
  from usb_resolve_policy [OF this] show ?thesis by (simp add: sample_want_def)
qed

end
