(* ===== verification/Sockets.thy ===== *)
theory Sockets
  imports Main
begin

section \<open>Non-blocking sockets\<close>

text \<open>
  What the calls on one socket return is a script of events, in the order of the calls: a chunk that
  has arrived (the empty one is the end of the stream), \<open>EAGAIN\<close> or an error; for writing the number of
  bytes accepted. The HTTP server and the plugins share it.
\<close>

datatype sock_read = Chunk string | Rd_again | Rd_fail
datatype sock_write = Accepts nat | Wr_again | Wr_fail

datatype got = Got string | Again | Eof | Failed

text \<open>\<open>read (fd, buf, room)\<close>: no more than \<open>room\<close> bytes, the rest of a chunk waits for the next call.\<close>

fun read_some :: "nat \<Rightarrow> sock_read list \<Rightarrow> got \<times> sock_read list" where
  "read_some room [] = (Again, [])"
| "read_some room (Rd_again # es) = (Again, es)"
| "read_some room (Rd_fail # es) = (Failed, es)"
| "read_some room (Chunk xs # es) =
     (if xs = [] then (Eof, es)
      else if length xs \<le> room then (Got xs, es)
      else (Got (take room xs), Chunk (drop room xs) # es))"

fun ev_size :: "sock_read list \<Rightarrow> nat" where
  "ev_size [] = 0"
| "ev_size (Chunk xs # es) = Suc (length xs) + ev_size es"
| "ev_size (e # es) = Suc (ev_size es)"

lemma read_some_progress: "read_some room es = (Got bs, es') \<Longrightarrow> 0 < room \<Longrightarrow> ev_size es' < ev_size es"
  by (induction room es rule: read_some.induct) (auto split: if_splits)

lemma read_some_len: "read_some room es = (Got bs, es') \<Longrightarrow> length bs \<le> room"
  by (induction room es rule: read_some.induct) (auto split: if_splits)

text \<open>
  A log of the descriptors a driver opens and closes, and those that are open after it; there is no
  answer when one is closed that is not open. A driver that accounts for them leaves exactly the one it
  holds.
\<close>

datatype port_event = Opened nat | Closed nat

fun ports_after :: "nat list \<Rightarrow> port_event list \<Rightarrow> nat list option" where
  "ports_after ps [] = Some ps"
| "ports_after ps (Opened k # evs) = ports_after (k # ps) evs"
| "ports_after ps (Closed k # evs) = (if k \<in> set ps then ports_after (remove1 k ps) evs else None)"

lemma ports_after_append [simp]:
  "ports_after ps (xs @ ys) = Option.bind (ports_after ps xs) (\<lambda>qs. ports_after qs ys)"
  by (induction ps xs rule: ports_after.induct) simp_all

definition held_list :: "nat option \<Rightarrow> nat list" where
  "held_list fd = (case fd of None \<Rightarrow> [] | Some k \<Rightarrow> [k])"

lemma held_list_simps [simp]: "held_list None = []" "held_list (Some k) = [k]"
  by (simp_all add: held_list_def)

end
