(* ===== verification/PluginApi.thy ===== *)
theory PluginApi
  imports CText Sockets
begin

section \<open>The plugin interface (src/include/mf_plugin.h) and the text scanning of the drivers\<close>

text \<open>
  The result codes, capability bits and step results of the plugin interface, and the small
  functions the battery and charger drivers each carry a copy of: looking up a key in the text of a
  JSON document (no parser: the first \<open>"key"\<close> anywhere, then the first colon behind it), and printing
  into a bounded buffer. A document is NUL-free text.
\<close>

definition MF_OK :: int where "MF_OK = 0"
definition MF_ERR_INVAL :: int where "MF_ERR_INVAL = -1"
definition MF_ERR_OFFLINE :: int where "MF_ERR_OFFLINE = -2"
definition MF_ERR_UNSUPPORTED :: int where "MF_ERR_UNSUPPORTED = -3"
definition MF_ERR_BUSY :: int where "MF_ERR_BUSY = -4"

lemmas mf_codes = MF_OK_def MF_ERR_INVAL_def MF_ERR_OFFLINE_def MF_ERR_UNSUPPORTED_def MF_ERR_BUSY_def

datatype mf_step = MF_STEP_IDLE | MF_STEP_UPDATED | MF_STEP_ERROR

definition MF_CAP_READ :: nat where "MF_CAP_READ = 1"
definition MF_CAP_WRITE_SETTINGS :: nat where "MF_CAP_WRITE_SETTINGS = 2"
definition MF_CAP_ACTION_SWITCH :: nat where "MF_CAP_ACTION_SWITCH = 4"
definition MF_CAP_ACTION_REFRESH :: nat where "MF_CAP_ACTION_REFRESH = 8"
definition MF_CAP_PROBE :: nat where "MF_CAP_PROBE = 16"
definition MF_CAP_AUTO_PORT :: nat where "MF_CAP_AUTO_PORT = 32"
definition MF_CAP_AUTO_NET :: nat where "MF_CAP_AUTO_NET = 64"
definition MF_CAP_NOTIFY :: nat where "MF_CAP_NOTIFY = 128"

subsection \<open>Scanning\<close>

definition json_find_key :: "string \<Rightarrow> string \<Rightarrow> string option" where
  "json_find_key js key = map_option (\<lambda>k. drop k js) (strstr_pos (c_copy 64 (''\"'' @ key @ ''\"'')) js)"

text \<open>What stands behind the first colon behind the key.\<close>

definition json_value_text :: "string \<Rightarrow> string \<Rightarrow> string option" where
  "json_value_text js key =
     (case json_find_key js key of
        None \<Rightarrow> None
      | Some p \<Rightarrow> (case dropWhile (\<lambda>c. c \<noteq> CHR '':'') p of [] \<Rightarrow> None | _ # v \<Rightarrow> Some v))"

definition json_str :: "string \<Rightarrow> string \<Rightarrow> nat \<Rightarrow> string" where
  "json_str js key cap =
     (case json_value_text js key of
        None \<Rightarrow> []
      | Some v \<Rightarrow>
          (case dropWhile is_sp_tab v of
             [] \<Rightarrow> []
           | c # r \<Rightarrow> if c = CHR ''\"'' \<and> CHR ''\"'' \<in> set r then c_copy cap (takeWhile (\<lambda>c. c \<noteq> CHR ''\"'') r) else []))"

definition json_double :: "string \<Rightarrow> string \<Rightarrow> xdouble \<Rightarrow> xdouble" where
  "json_double js key dflt = (case json_value_text js key of None \<Rightarrow> dflt | Some v \<Rightarrow> atof v)"

definition json_int :: "string \<Rightarrow> string \<Rightarrow> int \<Rightarrow> int" where
  "json_int js key dflt = (case json_value_text js key of None \<Rightarrow> dflt | Some v \<Rightarrow> atoi v)"

definition json_bool :: "string \<Rightarrow> string \<Rightarrow> bool \<Rightarrow> bool" where
  "json_bool js key dflt =
     (case json_value_text js key of
        None \<Rightarrow> dflt
      | Some v \<Rightarrow> (let p = dropWhile is_sp_tab v
                   in if take 4 p = ''true'' then True else if take 5 p = ''false'' then False else dflt))"

lemma json_str_length: "0 < cap \<Longrightarrow> length (json_str js key cap) < cap"
  by (auto simp: json_str_def split: option.split list.split)

subsection \<open>Bounded printing\<close>

text \<open>\<open>js_append\<close>: the offset stops at the end of the buffer, which keeps what fitted.\<close>

definition js_append :: "nat \<Rightarrow> string \<Rightarrow> string \<Rightarrow> string" where
  "js_append cap buf piece =
     (if cap \<le> length buf then buf
      else if cap - length buf \<le> length piece then take (cap - 1) (buf @ piece) else buf @ piece)"

lemma js_append_take: "0 < cap \<Longrightarrow> js_append cap (take (cap - 1) xs) piece = take (cap - 1) (xs @ piece)"
  by (cases "length xs \<le> cap - 1"; cases piece) (auto simp: js_append_def)

lemma js_append_fold: "0 < cap \<Longrightarrow> foldl (js_append cap) [] ps = c_copy cap (concat ps)"
proof (induction ps rule: rev_induct)
  case (snoc p ps)
  then show ?case using js_append_take [OF snoc.prems, of "concat ps" p] by (simp add: c_copy_def)
qed (simp add: c_copy_def)

text \<open>\<open>%g\<close>-free booleans of the readings.\<close>

definition bool_text :: "bool \<Rightarrow> string" where
  "bool_text b = (if b then ''true'' else ''false'')"

subsection \<open>Hexadecimal text\<close>

definition hex_nibble :: "char \<Rightarrow> nat option" where
  "hex_nibble ch =
     (let n = of_char ch :: nat in
      if 48 \<le> n \<and> n \<le> 57 then Some (n - 48)
      else if 97 \<le> n \<and> n \<le> 102 then Some (n - 97 + 10)
      else if 65 \<le> n \<and> n \<le> 70 then Some (n - 65 + 10) else None)"

fun hex_decode :: "string \<Rightarrow> nat \<Rightarrow> byte list" where
  "hex_decode (a # b # cs) (Suc cap) =
     (case (hex_nibble a, hex_nibble b) of
        (Some hi, Some lo) \<Rightarrow> of_nat (16 * hi + lo) # hex_decode cs cap
      | _ \<Rightarrow> [])"
| "hex_decode _ _ = []"

definition hex_digits :: string where "hex_digits = ''0123456789abcdef''"

definition hex_encode :: "byte list \<Rightarrow> nat \<Rightarrow> string" where
  "hex_encode xs cap =
     (let n = (if cap < length xs * 2 + 1 then (cap - 1) div 2 else length xs)
      in concat (map (\<lambda>b. [hex_digits ! (unat b div 16), hex_digits ! (unat b mod 16)]) (take n xs)))"

lemma hex_nibble_digit: "k < 16 \<Longrightarrow> hex_nibble (hex_digits ! k) = Some k"
proof -
  have "\<forall>k \<in> set [0..<16]. hex_nibble (hex_digits ! k) = Some k" by code_simp
  then show "k < 16 \<Longrightarrow> hex_nibble (hex_digits ! k) = Some k" by simp
qed

lemma unat_byte_split: "of_nat (16 * (unat b div 16) + unat b mod 16) = (b :: byte)"
  by (simp only: mult_div_mod_eq of_nat_unat ucast_id)

lemma hex_roundtrip:
  assumes "length xs \<le> n" and "length xs * 2 < cap"
  shows "hex_decode (hex_encode xs cap) n = xs"
proof -
  let ?f = "\<lambda>b :: byte. [hex_digits ! (unat b div 16), hex_digits ! (unat b mod 16)]"
  have "unat b div 16 < 16" for b :: byte using unsigned_less [of b, where 'a = nat] by (simp add: div_less_iff_less_mult)
  then have "length ys \<le> m \<Longrightarrow> hex_decode (concat (map ?f ys)) m = ys" for ys m
  proof (induction ys arbitrary: m)
    case (Cons b ys)
    then obtain k where "m = Suc k" by (cases m) auto
    then show ?case using Cons hex_nibble_digit by (simp add: unat_byte_split)
  qed (cases m, simp_all)
  then show ?thesis using assms by (simp add: hex_encode_def)
qed

end
