(* ===== verification/MagPlugin.thy ===== *)
theory MagPlugin
  imports MagJson UsbId PluginApi
begin

section \<open>The Magnum inverter driver (src/plugins/inverter_magnum/plugin.c, src/magnum/mag_tty.c)\<close>

text \<open>
  One context per tap: it opens the adapter's port read-only, drains it into the framer, decodes the
  packets the framer delivers and rebuilds its reading. \<open>mag_env\<close> is what one step finds outside: the
  clock, the file system, the descriptors of the process, the answers to opening the port, and the
  results of reading it. The framer's calls are the packets delivered so far; those a call of the
  framer adds go to \<open>on_packet\<close>. A step lists the ports it opened and closed.
\<close>

definition PUBLISH_DEFAULT_S :: cdouble where "PUBLISH_DEFAULT_S = 1"
definition PUBLISH_MIN_S :: cdouble where "PUBLISH_MIN_S = 1/2"
definition STALE_DEFAULT_S :: cdouble where "STALE_DEFAULT_S = 5"
definition REOPEN_S :: cdouble where "REOPEN_S = 2"
definition OWNED_RETRY_S :: cdouble where "OWNED_RETRY_S = 10"
definition DRAIN_MAX :: nat where "DRAIN_MAX = 16384"
definition TAP_MAX :: nat where "TAP_MAX = 60"
definition MAG_PATH_MAX :: nat where "MAG_PATH_MAX = 4096"

subsection \<open>The serial port\<close>

definition mag_tty_path_unstable :: "string \<Rightarrow> bool" where
  "mag_tty_path_unstable path =
     (if take 11 path = ''/dev/ttyUSB'' \<or> take 11 path = ''/dev/ttyACM''
      then drop 11 path \<noteq> [] \<and> list_all is_digit (drop 11 path)
      else False)"

text \<open>What the calls on a device node answer, with the text of \<open>errno\<close> of the one that fails.\<close>

record tty_os =
  ty_open :: "nat option"
  ty_busy :: bool
  ty_lock :: bool
  ty_getattr :: bool
  ty_setattr :: bool
  ty_errno :: string

text \<open>The descriptor or the error text.\<close>

definition mag_tty_open :: "tty_os \<Rightarrow> string \<Rightarrow> (string + nat) \<times> port_event list" where
  "mag_tty_open os path =
     (case ty_open os of
        None \<Rightarrow>
          (Inl (if ty_busy os then take 200 path @ '' is in use by another reader''
                else take 200 path @ '': '' @ take 30 (ty_errno os)), [])
      | Some fd \<Rightarrow>
          if \<not> ty_lock os then (Inl (take 200 path @ '' is in use by another reader''), [Opened fd, Closed fd])
          else if \<not> ty_getattr os then (Inl (take 200 path @ '' is not a serial port''), [Opened fd, Closed fd])
          else if \<not> ty_setattr os
          then (Inl (take 200 path @ '': tcsetattr: '' @ take 20 (ty_errno os)), [Opened fd, Closed fd])
          else (Inr fd, [Opened fd]))"

definition mag_tty_close :: "nat option \<Rightarrow> port_event list" where
  "mag_tty_close fd = (case fd of None \<Rightarrow> [] | Some k \<Rightarrow> [Closed k])"

subsection \<open>Data\<close>

record mag_ctx =
  mc_uuid :: string
  mc_path :: string
  mc_serial_id :: string
  mc_auto_port :: bool
  mc_tap :: string
  mc_poll_s :: xdouble
  mc_stale_s :: xdouble
  mc_fd :: "nat option"
  mc_port :: string
  mc_opened_at :: cdouble
  mc_next_open :: cdouble
  mc_last_rx :: cdouble
  mc_fr :: mag_frame
  mc_st :: mag_state
  mc_reading :: "string option"
  mc_online :: bool
  mc_next_publish :: xdouble
  mc_err :: string

datatype tty_read = Rx "byte list" | Rx_intr | Rx_again | Rx_error

record mag_env =
  me_now :: cdouble
  me_exists :: "string \<Rightarrow> bool"
  me_realpath :: "string \<Rightarrow> string option"
  me_strerror :: string
  me_fs :: usb_fs
  me_self_fds :: "(string \<times> string option) list option"
  me_tty :: "string \<Rightarrow> tty_os"
  me_reads :: "tty_read list"

definition mag_ctx_zero :: mag_ctx where
  "mag_ctx_zero = \<lparr>mc_uuid = [], mc_path = [], mc_serial_id = [], mc_auto_port = False, mc_tap = [], mc_poll_s = XFin 0,
     mc_stale_s = XFin 0, mc_fd = None, mc_port = [], mc_opened_at = 0, mc_next_open = 0, mc_last_rx = 0,
     mc_fr = mag_frame_init True, mc_st = mag_state_init, mc_reading = None, mc_online = False,
     mc_next_publish = XFin 0, mc_err = []\<rparr>"

definition mc_set_err :: "string \<Rightarrow> mag_ctx \<Rightarrow> mag_ctx" where
  "mc_set_err m c = c\<lparr>mc_err := c_copy 256 m\<rparr>"

subsection \<open>Settings\<close>

text \<open>A member of an object of the settings, nested or under the dotted name.\<close>

definition setting_item :: "json \<Rightarrow> string \<Rightarrow> string \<Rightarrow> json option" where
  "setting_item j obj key =
     (case opt_item (get_item j obj) key of
        Some v \<Rightarrow> Some v
      | None \<Rightarrow> get_item j (c_copy 64 (obj @ ''.'' @ key)))"

definition setting_str :: "json \<Rightarrow> string \<Rightarrow> string \<Rightarrow> string \<Rightarrow> nat \<Rightarrow> string" where
  "setting_str j obj key out cap =
     (case setting_item j obj key of Some (JString s) \<Rightarrow> c_copy cap s | _ \<Rightarrow> out)"

definition setting_bool :: "json \<Rightarrow> string \<Rightarrow> string \<Rightarrow> bool \<Rightarrow> bool" where
  "setting_bool j obj key dflt =
     (case setting_item j obj key of
        Some (JBool b) \<Rightarrow> b
      | Some (JString s) \<Rightarrow> s = ''true'' \<or> s = ''1''
      | _ \<Rightarrow> dflt)"

definition number :: "json option \<Rightarrow> xdouble \<Rightarrow> xdouble" where
  "number v dflt =
     (case v of
        Some (JNumber x) \<Rightarrow> XFin x
      | Some (JString s) \<Rightarrow> if s \<noteq> [] then atof s else dflt
      | _ \<Rightarrow> dflt)"

text \<open>\<open>spec\<close> is the parsed text (\<open>None\<close>: no text, or not JSON), \<open>stale\<close> the environment variable.\<close>

definition mag_open :: "json option \<Rightarrow> string option \<Rightarrow> string + mag_ctx" where
  "mag_open spec stale =
     (case spec of
        Some (JObject kvs) \<Rightarrow>
          (let o' = JObject kvs;
               poll = number (get_item o' ''poll_interval_s'') (XFin PUBLISH_DEFAULT_S);
               c = mag_ctx_zero\<lparr>mc_path := setting_str o' ''usb'' ''path'' [] 256,
                     mc_serial_id := setting_str o' ''usb'' ''serial_id'' [] 64,
                     mc_tap := setting_str o' ''magnum'' ''tap'' [] (TAP_MAX + 4),
                     mc_auto_port := setting_bool o' ''usb'' ''auto_port'' True,
                     mc_uuid := (case get_item o' ''uuid'' of Some (JString u) \<Rightarrow> c_copy 40 u | _ \<Rightarrow> []),
                     mc_poll_s := (if poll < XFin PUBLISH_MIN_S then XFin PUBLISH_MIN_S else poll)\<rparr>
           in if mag_tty_path_unstable (mc_path c)
              then Inl (''use a /dev/serial/by-id path, not '' @ take 40 (mc_path c))
              else if mc_path c = [] \<and> mc_serial_id c = []
              then Inl ''set usb.path (a /dev/serial/by-id/... path) or usb.serial_id''
              else Inr (c\<lparr>mc_tap := take TAP_MAX (mc_tap c),
                          mc_stale_s := (case stale of
                              Some v \<Rightarrow> if XFin 0 < atof v then atof v else XFin STALE_DEFAULT_S
                            | None \<Rightarrow> XFin STALE_DEFAULT_S)\<rparr>))
      | _ \<Rightarrow> Inl ''bad module config'')"

definition mag_close :: "mag_ctx option \<Rightarrow> port_event list" where
  "mag_close c = (case c of None \<Rightarrow> [] | Some c \<Rightarrow> mag_tty_close (mc_fd c))"

definition mag_fd :: "mag_ctx \<Rightarrow> nat option" where "mag_fd c = mc_fd c"

definition mag_mask_read :: "mag_ctx \<Rightarrow> bool" where "mag_mask_read c \<longleftrightarrow> mc_fd c \<noteq> None"

subsection \<open>Opening the port\<close>

definition open_in_this_process :: "mag_env \<Rightarrow> string \<Rightarrow> bool" where
  "open_in_this_process e dev =
     (case me_self_fds e of
        None \<Rightarrow> False
      | Some ents \<Rightarrow> list_ex (\<lambda>(nm, target). (nm = [] \<or> hd nm \<noteq> CHR ''.'') \<and>
            (case target of None \<Rightarrow> False | Some t \<Rightarrow> t \<noteq> [] \<and> take (MAG_PATH_MAX - 1) t = dev)) ents)"

definition port_source :: "mag_ctx \<Rightarrow> mag_env \<Rightarrow> string + string" where
  "port_source c e =
     (if mc_path c \<noteq> [] \<and> me_exists e (mc_path c) then Inr (mc_path c)
      else if mc_serial_id c \<noteq> [] \<and> (mc_auto_port c \<or> mc_path c = []) then
        (case mf_usb_find_by_serial (me_fs e) (mc_serial_id c) [] of
           Found i \<Rightarrow> Inr (ui_path i)
         | _ \<Rightarrow> Inl (''adapter missing: no USB serial '' @ take 50 (mc_serial_id c)))
      else Inl (''adapter missing: '' @ take 70 (mc_path c)))"

definition resolve_port :: "mag_ctx \<Rightarrow> mag_env \<Rightarrow> string + string" where
  "resolve_port c e =
     (case port_source c e of
        Inl m \<Rightarrow> Inl m
      | Inr src \<Rightarrow>
          (case me_realpath e src of
             None \<Rightarrow> Inl (''adapter missing: '' @ take 50 src @ '': '' @ take 20 (me_strerror e))
           | Some dev \<Rightarrow> Inr (c_copy MAG_PATH_MAX dev)))"

definition try_open :: "mag_ctx \<Rightarrow> mag_env \<Rightarrow> mag_ctx \<times> port_event list" where
  "try_open c e =
     (let now = me_now e; c = c\<lparr>mc_next_open := now + REOPEN_S\<rparr> in
      case resolve_port c e of
        Inl m \<Rightarrow> (mc_set_err m c, [])
      | Inr dev \<Rightarrow>
          if open_in_this_process e dev
          then (mc_set_err (take 40 dev @ '' is already open (another module owns it)'')
                  (c\<lparr>mc_next_open := now + OWNED_RETRY_S\<rparr>), [])
          else case mag_tty_open (me_tty e dev) dev of
            (Inl m, evs) \<Rightarrow> (mc_set_err m c, evs)
          | (Inr fd, evs) \<Rightarrow>
              (let c = c\<lparr>mc_fd := Some fd, mc_port := dev, mc_opened_at := now, mc_last_rx := 0,
                         mc_fr := mag_frame_reset_stream (mc_fr c)\<rparr>;
                   c = (if mc_serial_id c = []
                        then (case mf_usb_identify (me_fs e) dev of
                                Some i \<Rightarrow> if ui_serial_id i \<noteq> [] then c\<lparr>mc_serial_id := c_copy 64 (ui_serial_id i)\<rparr>
                                          else c
                              | None \<Rightarrow> c)
                        else c)
               in (c\<lparr>mc_err := []\<rparr>, evs)))"

subsection \<open>Reading\<close>

text \<open>The packets a call of the framer delivers reach the decoder.\<close>

definition take_frame :: "mag_ctx \<Rightarrow> mag_frame \<Rightarrow> mag_ctx" where
  "take_frame c f = c\<lparr>mc_fr := f, mc_st := foldl on_packet (mc_st c) (drop (length (calls (mc_fr c))) (calls f))\<rparr>"

text \<open>
  \<open>drain\<close> with the read results still to come; the boolean is whether the adapter is there. \<open>None\<close>
  stands for a framer that does not return.
\<close>

function drain :: "mag_ctx \<Rightarrow> cdouble \<Rightarrow> tty_read list \<Rightarrow> nat \<Rightarrow> (bool \<times> mag_ctx) option" where
  "drain c now es got =
     (if DRAIN_MAX \<le> got then Some (True, c)
      else case es of
        [] \<Rightarrow> Some (True, c)
      | Rx bs # es' \<Rightarrow>
          if bs = [] then Some (False, c)
          else let n = min (length bs) 1024;
                   rest = (if n < length bs then Rx (drop n bs) # es' else es')
               in case mag_frame_feed (mc_fr c) (take n bs) now of
                    None \<Rightarrow> None
                  | Some f \<Rightarrow> drain (take_frame (c\<lparr>mc_last_rx := now\<rparr>) f) now rest (got + n)
      | Rx_intr # es' \<Rightarrow> drain c now es' got
      | Rx_again # es' \<Rightarrow> Some (True, c)
      | Rx_error # es' \<Rightarrow> Some (False, c))"
  by pat_completeness auto
termination
  by (relation "measures [\<lambda>(c, now, es, got). DRAIN_MAX - got, \<lambda>(c, now, es, got). length es]") auto

declare drain.simps [simp del]

definition ff_percent :: "mag_frame_stats \<Rightarrow> u64" where
  "ff_percent fs = (if bytes_read fs = 0 then 0 else ff_bytes fs * 100 div bytes_read fs)"

definition offline_reason :: "mag_ctx \<Rightarrow> cdouble \<Rightarrow> mag_ctx" where
  "offline_reason c now =
     (let what = (if iv_seen (ms_inv (mc_st c)) then ''no inverter packets'' else ''no inverter yet'') in
      mc_set_err
        (if mc_last_rx c = 0 then
           (if XFin (now - mc_opened_at c) < mc_stale_s c then ''waiting for bus data on '' @ take 60 (mc_port c)
            else ''no data on the bus ('' @ take 40 (mc_port c) @ ''): tap or ARTR port silent'')
         else if mc_stale_s c < XFin (now - mc_last_rx c)
         then ''no data on the bus for '' @ fmt_0f (now - mc_last_rx c) @ '' s ('' @ take 40 (mc_port c) @ '')''
         else what @ '': bus data but none from an inverter ('' @
              nat_digits (unat (ff_percent (st (mc_fr c)))) @ ''% 0xFF: check A/B wiring)'') c)"

subsection \<open>The step\<close>

text \<open>Opening and reading, the first half of \<open>mag_step\<close>.\<close>

definition mag_input :: "mag_ctx \<Rightarrow> mag_env \<Rightarrow> (mag_ctx \<times> port_event list) option" where
  "mag_input c e =
     (let now = me_now e;
          (c, evs) = (if mc_fd c = None \<and> mc_next_open c \<le> now then try_open c e else (c, []))
      in if mc_fd c = None then Some (c, evs)
         else case drain c now (me_reads e) 0 of
           None \<Rightarrow> None
         | Some (True, c) \<Rightarrow> Some (c, evs)
         | Some (False, c) \<Rightarrow>
             Some ((mc_set_err (''adapter disconnected ('' @ take 60 (mc_port c) @ '')'') c)
                     \<lparr>mc_fd := None, mc_next_open := now + REOPEN_S\<rparr>, evs @ mag_tty_close (mc_fd c)))"

definition inverter_recent :: "mag_ctx \<Rightarrow> cdouble \<Rightarrow> bool" where
  "inverter_recent c now \<longleftrightarrow> \<not> (mc_fd c = None \<or> \<not> iv_seen (ms_inv (mc_st c)) \<or>
     mc_stale_s c < XFin (now - iv_t (ms_inv (mc_st c))))"

text \<open>Publishing, the second half.\<close>

definition mag_output :: "(json \<Rightarrow> string) \<Rightarrow> mag_ctx \<Rightarrow> cdouble \<Rightarrow> mf_step \<times> mag_ctx" where
  "mag_output pr c now =
     (let c = take_frame c (mag_frame_idle (mc_fr c) now) in
      if \<not> inverter_recent c now then
        (let c = (if mc_fd c \<noteq> None then offline_reason c now else c)
         in (MF_STEP_ERROR, c\<lparr>mc_online := False, mc_reading := None\<rparr>))
      else
        let c = c\<lparr>mc_online := True, mc_err := []\<rparr>
        in if mc_reading c = None \<or> mc_next_publish c \<le> XFin now
           then (MF_STEP_UPDATED,
                 c\<lparr>mc_reading := Some (mag_reading_json pr (mc_st c) (st (mc_fr c)) (mc_tap c) (mc_port c) now),
                   mc_next_publish := XFin now + mc_poll_s c\<rparr>)
           else (MF_STEP_IDLE, c))"

definition mag_step :: "(json \<Rightarrow> string) \<Rightarrow> mag_ctx \<Rightarrow> mag_env \<Rightarrow> (mf_step \<times> mag_ctx \<times> port_event list) option" where
  "mag_step pr c e =
     (case mag_input c e of
        None \<Rightarrow> None
      | Some (c, evs) \<Rightarrow> (case mag_output pr c (me_now e) of (r, c) \<Rightarrow> Some (r, c, evs)))"

subsection \<open>Readings, settings and actions\<close>

definition mag_caps :: nat where
  "mag_caps = MF_CAP_READ + MF_CAP_WRITE_SETTINGS + MF_CAP_ACTION_REFRESH + MF_CAP_AUTO_PORT"

definition mag_last_error :: "mag_ctx \<Rightarrow> string option" where
  "mag_last_error c = (if mc_err c \<noteq> [] then Some (mc_err c) else None)"

definition mag_get_reading :: "mag_ctx \<Rightarrow> nat \<Rightarrow> int \<times> string option" where
  "mag_get_reading c cap =
     (if \<not> mc_online c then (MF_ERR_OFFLINE, None)
      else case mc_reading c of
        None \<Rightarrow> (MF_ERR_OFFLINE, None)
      | Some s \<Rightarrow> if cap \<le> length s then (MF_ERR_INVAL, None) else (MF_OK, Some s))"

definition mag_settings_obj :: "mag_ctx \<Rightarrow> json" where
  "mag_settings_obj c = JObject [(''usb.path'', JString (mc_path c)), (''usb.serial_id'', JString (mc_serial_id c)),
     (''usb.auto_port'', JBool (mc_auto_port c)), (''magnum.tap'', JString (mc_tap c))]"

definition mag_get_settings :: "(json \<Rightarrow> string) \<Rightarrow> mag_ctx \<Rightarrow> nat \<Rightarrow> int \<times> string option" where
  "mag_get_settings pr c cap =
     (let s = pr (mag_settings_obj c) in if length s < cap then (MF_OK, Some s) else (MF_ERR_INVAL, None))"

definition mag_put_settings :: "mag_ctx \<Rightarrow> json option \<Rightarrow> (int \<times> string) \<times> mag_ctx" where
  "mag_put_settings c json =
     (case json of
        Some (JObject kvs) \<Rightarrow>
          (let b = JObject kvs; tap = get_item b ''magnum.tap''; poll = get_item b ''poll_interval_s'';
               p = number poll (XFin (-1))
           in if (case tap of None \<Rightarrow> False | Some (JString t) \<Rightarrow> TAP_MAX < length t | Some _ \<Rightarrow> True)
              then ((MF_ERR_INVAL, ''magnum.tap must be text, at most 60 characters''), c)
              else if poll \<noteq> None \<and> p < XFin PUBLISH_MIN_S
              then ((MF_ERR_INVAL, ''poll_interval_s must be at least 0.5''), c)
              else
                let c = (case tap of Some (JString t) \<Rightarrow> c\<lparr>mc_tap := c_copy (TAP_MAX + 4) t\<rparr> | _ \<Rightarrow> c);
                    c = (if poll \<noteq> None then c\<lparr>mc_poll_s := p\<rparr> else c);
                    c = (if get_item b ''usb.auto_port'' \<noteq> None
                         then c\<lparr>mc_auto_port := setting_bool b ''usb'' ''auto_port'' (mc_auto_port c)\<rparr> else c)
                in ((MF_OK, []), c\<lparr>mc_next_publish := XFin 0\<rparr>))
      | _ \<Rightarrow> ((MF_ERR_INVAL, ''settings are not a JSON object''), c))"

definition mag_action :: "mag_ctx \<Rightarrow> string option \<Rightarrow> (int \<times> string) \<times> mag_ctx" where
  "mag_action c action =
     (if action = Some ''refresh''
      then ((MF_OK, []), c\<lparr>mc_fr := mag_frame_reset_stats (mc_fr c),
              mc_st := (mc_st c)\<lparr>ms_other_inverter_packets := 0\<rparr>, mc_next_publish := XFin 0\<rparr>)
      else ((MF_ERR_UNSUPPORTED, ''unknown action: '' @ (case action of Some a \<Rightarrow> a | None \<Rightarrow> [])), c))"

end
