(* ===== verification/MagTap.thy ===== *)
theory MagTap
  imports MagPlugin
begin

section \<open>A tap over its history\<close>

text \<open>
  What holds of a tap's context after any sequence of steps, settings and actions: every step
  returns, the decoded state is plausible, one port at most is open and none is lost, and a reading
  that is offered is a recent one of an inverter that is still heard.
\<close>

datatype mag_op = MStep mag_env | MPut "json option" | MAction "string option"

fun mag_do :: "(json \<Rightarrow> string) \<Rightarrow> mag_ctx \<Rightarrow> mag_op \<Rightarrow> (mag_ctx \<times> port_event list) option" where
  "mag_do pr c (MStep e) = map_option (\<lambda>(r, c, evs). (c, evs)) (mag_step pr c e)"
| "mag_do pr c (MPut j) = Some (snd (mag_put_settings c j), [])"
| "mag_do pr c (MAction a) = Some (snd (mag_action c a), [])"

fun mag_run :: "(json \<Rightarrow> string) \<Rightarrow> mag_ctx \<Rightarrow> mag_op list \<Rightarrow> (mag_ctx \<times> port_event list) option" where
  "mag_run pr c [] = Some (c, [])"
| "mag_run pr c (x # xs) =
     (case mag_do pr c x of
        None \<Rightarrow> None
      | Some (c, evs) \<Rightarrow> map_option (\<lambda>(c, evs'). (c, evs @ evs')) (mag_run pr c xs))"

text \<open>The ports a context holds.\<close>

definition held_port :: "mag_ctx \<Rightarrow> nat list" where
  "held_port c = (case mc_fd c of None \<Rightarrow> [] | Some k \<Rightarrow> [k])"

lemma mag_run_snoc:
  "mag_run pr c (xs @ [x]) =
     (case mag_run pr c xs of
        None \<Rightarrow> None
      | Some (c1, evs) \<Rightarrow> map_option (\<lambda>(c2, evs'). (c2, evs @ evs')) (mag_do pr c1 x))"
  by (induction xs arbitrary: c) (auto simp: option.map_comp comp_def case_prod_unfold split: option.split)

subsection \<open>The invariant of a context\<close>

definition tap_ok :: "mag_ctx \<Rightarrow> bool" where
  "tap_ok c \<longleftrightarrow> shaped (mc_fr c) \<and> length (buf (mc_fr c)) \<le> 21 \<and> mag_state_ok (mc_st c)"

definition offer_ok :: "mag_ctx \<Rightarrow> bool" where
  "offer_ok c \<longleftrightarrow> (mc_online c \<longleftrightarrow> mc_reading c \<noteq> None) \<and> (mc_reading c \<noteq> None \<longrightarrow> mc_fd c \<noteq> None) \<and>
     length (mc_tap c) \<le> TAP_MAX \<and> \<not> mc_poll_s c < XFin PUBLISH_MIN_S"

text \<open>The fields that the framer and the port do not touch.\<close>

definition label_of :: "mag_ctx \<Rightarrow> string \<times> xdouble \<times> xdouble \<times> string option \<times> bool \<times> xdouble" where
  "label_of c = (mc_tap c, mc_poll_s c, mc_stale_s c, mc_reading c, mc_online c, mc_next_publish c)"

lemma take_frame_ok:
  assumes "mag_state_ok (mc_st c)" and "shaped f" and "length (buf f) \<le> 21"
  shows "tap_ok (take_frame c f)"
proof -
  have "\<forall>(t, p, tm) \<in> set (drop n (calls f)). pkt_shape t p" for n
    using assms(2) set_drop_subset [of n "calls f"] by (auto simp: shaped_def)
  then show ?thesis using tap.all [OF assms(1)] assms(2,3) by (simp add: tap_ok_def take_frame_def)
qed

lemma take_frame_fields [simp]:
  "label_of (take_frame c f) = label_of c" "mc_fd (take_frame c f) = mc_fd c" "mc_port (take_frame c f) = mc_port c"
  "mc_fr (take_frame c f) = f"
  by (simp_all add: take_frame_def label_of_def)

lemma drain_ok:
  "tap_ok c \<Longrightarrow> \<exists>b c'. drain c now es got = Some (b, c') \<and> tap_ok c' \<and> label_of c' = label_of c \<and>
     mc_fd c' = mc_fd c \<and> mc_port c' = mc_port c"
proof (induction c now es got rule: drain.induct)
  case (1 c now es got)
  show ?case
  proof (cases "DRAIN_MAX \<le> got \<or> es = [] \<or> (\<exists>es'. es = Rx [] # es' \<or> es = Rx_again # es' \<or> es = Rx_error # es')")
    case True
    then show ?thesis using "1.prems" by (auto simp: drain.simps [of c now es got])
  next
    case False
    then consider (rx) bs es' where "es = Rx bs # es'" "bs \<noteq> []" | (intr) es' where "es = Rx_intr # es'"
      by (cases es; cases "hd es") auto
    then show ?thesis
    proof cases
      case rx
      define n where "n = min (length bs) 1024"
      define rest where "rest = (if n < length bs then Rx (drop n bs) # es' else es')"
      have n: "take n bs \<noteq> []" using rx by (auto simp: n_def)
      obtain f where f: "mag_frame_feed (mc_fr c) (take n bs) now = Some f" "length (buf f) \<le> 21"
        using mag_frame_feed_returns [of "mc_fr c" "take n bs" now] "1.prems" n
        by (auto simp: tap_ok_def MAG_BUF_SIZE_def)
      let ?c = "take_frame (c\<lparr>mc_last_rx := now\<rparr>) f"
      have "tap_ok ?c"
        using take_frame_ok [of "c\<lparr>mc_last_rx := now\<rparr>" f] shape.feed [OF _ f(1)] f(2) "1.prems" by (simp add: tap_ok_def)
      then have "\<exists>b c'. drain ?c now rest (got + n) = Some (b, c') \<and> tap_ok c' \<and> label_of c' = label_of ?c \<and>
          mc_fd c' = mc_fd ?c \<and> mc_port c' = mc_port ?c"
        using "1.IH"(1) False rx f(1) by (auto simp: n_def rest_def)
      moreover have "drain c now es got = drain ?c now rest (got + n)"
        using False rx f(1) by (subst drain.simps) (simp add: n_def rest_def Let_def)
      ultimately show ?thesis by (simp add: label_of_def take_frame_def)
    next
      case intr
      then show ?thesis using "1.IH"(2) "1.prems" False by (subst drain.simps) simp
    qed
  qed
qed

lemma reset_stream_ok: "shaped f \<Longrightarrow> shaped (mag_frame_reset_stream f) \<and> buf (mag_frame_reset_stream f) = []"
  using shape.reset by (simp add: mag_frame_reset_stream_def)

lemma try_open_cases:
  assumes "try_open c e = (c', evs)"
  shows "label_of c' = label_of c \<and> mc_st c' = mc_st c \<and>
    ((mc_fd c' = mc_fd c \<and> mc_fr c' = mc_fr c \<and> mc_port c' = mc_port c \<and> (\<exists>k. evs = [] \<or> evs = [Opened k, Closed k])) \<or>
     (\<exists>k. mc_fd c' = Some k \<and> mc_fr c' = mag_frame_reset_stream (mc_fr c) \<and> evs = [Opened k]))"
  using assms
  by (auto simp: try_open_def Let_def mag_tty_open_def mc_set_err_def label_of_def
      split: sum.splits option.splits if_splits)

lemma idle_buf: "length (buf (mag_frame_idle f now)) \<le> length (buf f)"
  by (rule mag_frame_idle_cases [of f now]) auto

lemma mag_input_ok:
  assumes "tap_ok c"
  shows "\<exists>c' evs. mag_input c e = Some (c', evs) \<and> tap_ok c' \<and> label_of c' = label_of c \<and>
    ports_after (held_port c) evs = Some (held_port c') \<and> (mc_fd c \<noteq> None \<longrightarrow> mc_port c' = mc_port c)"
proof -
  obtain c1 evs where o: "(if mc_fd c = None \<and> mc_next_open c \<le> me_now e then try_open c e else (c, [])) = (c1, evs)"
    by fastforce
  have l: "label_of c1 = label_of c" "mc_fd c \<noteq> None \<longrightarrow> mc_port c1 = mc_port c"
    and p: "ports_after (held_port c) evs = Some (held_port c1)"
    and ok: "tap_ok c1"
    using o try_open_cases [of c e c1 evs] assms reset_stream_ok [of "mc_fr c"]
    by (auto simp: held_port_def tap_ok_def split: if_splits)
  show ?thesis
  proof (cases "mc_fd c1")
    case None
    then have "mag_input c e = Some (c1, evs)" using o by (simp add: mag_input_def)
    then show ?thesis using l p ok by blast
  next
    case (Some k)
    obtain b c2 where d: "drain c1 (me_now e) (me_reads e) 0 = Some (b, c2)" "tap_ok c2" "label_of c2 = label_of c1"
      "mc_fd c2 = mc_fd c1" "mc_port c2 = mc_port c1"
      using drain_ok [OF ok] by metis
    show ?thesis
    proof (cases b)
      case True
      then have "mag_input c e = Some (c2, evs)" using o d Some by (simp add: mag_input_def)
      then show ?thesis using l p d by (simp add: held_port_def)
    next
      case False
      define m where "m = ''adapter disconnected ('' @ take 60 (mc_port c2) @ '')''"
      let ?c = "(mc_set_err m c2)\<lparr>mc_fd := None, mc_next_open := me_now e + REOPEN_S\<rparr>"
      have "mag_input c e = Some (?c, evs @ [Closed k])"
        using o d Some False by (simp add: mag_input_def mag_tty_close_def m_def)
      moreover have "tap_ok ?c" "label_of ?c = label_of c" "mc_port ?c = mc_port c1" "held_port ?c = []"
        using d l by (simp_all add: tap_ok_def label_of_def mc_set_err_def held_port_def)
      moreover have "ports_after (held_port c) (evs @ [Closed k]) = Some []" using p Some by (simp add: held_port_def)
      ultimately show ?thesis using l(2) by metis
    qed
  qed
qed

lemma offline_reason_err: "\<exists>m. offline_reason c now = c\<lparr>mc_err := m\<rparr>"
  unfolding offline_reason_def Let_def mc_set_err_def by (rule exI, rule refl)

lemma mag_output_cases:
  assumes "mag_output pr c now = (r, c')"
  defines "g \<equiv> take_frame c (mag_frame_idle (mc_fr c) now)"
  shows "mc_fr c' = mc_fr g \<and> mc_st c' = mc_st g \<and> mc_fd c' = mc_fd c \<and> mc_port c' = mc_port c \<and> mc_tap c' = mc_tap c \<and>
    mc_poll_s c' = mc_poll_s c \<and> mc_stale_s c' = mc_stale_s c \<and>
    (r = MF_STEP_ERROR \<and> \<not> inverter_recent g now \<and> mc_reading c' = None \<and> \<not> mc_online c' \<or>
     inverter_recent g now \<and> mc_online c' \<and>
     (r = MF_STEP_UPDATED \<and> mc_next_publish c' = XFin now + mc_poll_s c \<and>
      mc_reading c' = Some (mag_reading_json pr (mc_st c') (st (mc_fr c')) (mc_tap c') (mc_port c') now) \<or>
      r = MF_STEP_IDLE \<and> \<not> mc_next_publish c \<le> XFin now \<and> mc_next_publish c' = mc_next_publish c \<and>
      mc_reading c' = mc_reading c \<and> mc_reading c \<noteq> None))"
proof -
  have f: "mc_tap g = mc_tap c" "mc_poll_s g = mc_poll_s c" "mc_stale_s g = mc_stale_s c" "mc_reading g = mc_reading c"
    "mc_next_publish g = mc_next_publish c" "mc_fd g = mc_fd c" "mc_port g = mc_port c"
    by (simp_all add: g_def take_frame_def)
  have out: "mag_output pr c now =
     (if \<not> inverter_recent g now then
        (MF_STEP_ERROR, (if mc_fd g \<noteq> None then offline_reason g now else g)\<lparr>mc_online := False, mc_reading := None\<rparr>)
      else if mc_reading g = None \<or> mc_next_publish g \<le> XFin now
      then (MF_STEP_UPDATED, (g\<lparr>mc_online := True, mc_err := []\<rparr>)
              \<lparr>mc_reading := Some (mag_reading_json pr (mc_st g) (st (mc_fr g)) (mc_tap g) (mc_port g) now),
               mc_next_publish := XFin now + mc_poll_s g\<rparr>)
      else (MF_STEP_IDLE, g\<lparr>mc_online := True, mc_err := []\<rparr>))"
    unfolding mag_output_def g_def Let_def by simp
  consider (off) "\<not> inverter_recent g now" | (new) "inverter_recent g now" "mc_reading g = None \<or> mc_next_publish g \<le> XFin now"
    | (old) "inverter_recent g now" "mc_reading g \<noteq> None" "\<not> mc_next_publish g \<le> XFin now"
    by force
  then show ?thesis
  proof cases
    case off
    obtain m where "offline_reason g now = g\<lparr>mc_err := m\<rparr>" using offline_reason_err by blast
    then have "r = MF_STEP_ERROR \<and> (\<exists>h. c' = h\<lparr>mc_online := False, mc_reading := None\<rparr> \<and> (h = g \<or> h = g\<lparr>mc_err := m\<rparr>))"
      using off assms(1) unfolding out by auto
    then show ?thesis using off f by auto
  next
    case new
    then show ?thesis using assms(1) f unfolding out by auto
  next
    case old
    then show ?thesis using assms(1) f unfolding out by auto
  qed
qed

subsection \<open>Every history\<close>

lemma if_Inr: "(if b then Inl x else y) = Inr z \<Longrightarrow> y = Inr z"
  by (simp split: if_splits)

lemma mag_open_ok:
  assumes "mag_open spec stale = Inr c"
  shows "tap_ok c \<and> offer_ok c \<and> held_port c = [] \<and> mc_reading c = None"
proof -
  obtain kvs where "spec = Some (JObject kvs)"
    using assms by (simp add: mag_open_def split: option.splits json.splits)
  note eq = assms [unfolded this mag_open_def option.case json.case Let_def]
  note new = if_Inr [OF if_Inr [OF eq], unfolded sum.inject]
  have "shaped (mag_frame_init True)" "buf (mag_frame_init True) = []"
    using shape.init by (simp_all add: mag_frame_init_def)
  then show ?thesis
    unfolding new [symmetric] using mag_state_ok_init
    by (simp add: tap_ok_def offer_ok_def held_port_def mag_ctx_zero_def)
qed

lemma mag_step_eq:
  assumes "tap_ok c"
  obtains c1 evs r c2 where "mag_input c e = Some (c1, evs)" "tap_ok c1" "label_of c1 = label_of c"
    "ports_after (held_port c) evs = Some (held_port c1)" "mc_fd c \<noteq> None \<longrightarrow> mc_port c1 = mc_port c"
    "mag_output pr c1 (me_now e) = (r, c2)" "mag_step pr c e = Some (r, c2, evs)"
proof -
  obtain c1 evs where i: "mag_input c e = Some (c1, evs)" "tap_ok c1" "label_of c1 = label_of c"
    "ports_after (held_port c) evs = Some (held_port c1)" "mc_fd c \<noteq> None \<longrightarrow> mc_port c1 = mc_port c"
    using mag_input_ok [OF assms, of e] by blast
  obtain r c2 where "mag_output pr c1 (me_now e) = (r, c2)" by fastforce
  then show thesis using i that by (simp add: mag_step_def)
qed

lemma mag_step_ok:
  assumes "tap_ok c" and "offer_ok c"
  shows "\<exists>r c' evs. mag_step pr c e = Some (r, c', evs) \<and> tap_ok c' \<and> offer_ok c' \<and>
    ports_after (held_port c) evs = Some (held_port c')"
proof -
  obtain c1 evs r c2 where s: "mag_input c e = Some (c1, evs)" "tap_ok c1" "label_of c1 = label_of c"
    "ports_after (held_port c) evs = Some (held_port c1)" "mc_fd c \<noteq> None \<longrightarrow> mc_port c1 = mc_port c"
    "mag_output pr c1 (me_now e) = (r, c2)" "mag_step pr c e = Some (r, c2, evs)"
    using mag_step_eq [OF assms(1), of e pr] by metis
  let ?g = "take_frame c1 (mag_frame_idle (mc_fr c1) (me_now e))"
  note out = mag_output_cases [OF s(6)]
  have g: "tap_ok ?g"
    using s(2) idle_buf [of "mc_fr c1" "me_now e"] shape.idle [of "mc_fr c1"]
    by (intro take_frame_ok) (auto simp: tap_ok_def)
  have fr: "mc_fr c2 = mc_fr ?g" "mc_st c2 = mc_st ?g" "held_port c2 = held_port c1"
    using out by (simp_all only: held_port_def)
  have "tap_ok c2" using g unfolding tap_ok_def fr .
  moreover have "offer_ok c2"
    using out assms(2) s(3) by (auto simp: offer_ok_def label_of_def inverter_recent_def)
  ultimately show ?thesis using s(4,7) fr(3) by simp
qed

lemma mag_put_cases:
  assumes "offer_ok c"
  shows "snd (mag_put_settings c j) = c \<or> (\<exists>t p a. length t \<le> TAP_MAX \<and> \<not> p < XFin PUBLISH_MIN_S \<and>
    snd (mag_put_settings c j) = c\<lparr>mc_tap := t, mc_poll_s := p, mc_auto_port := a, mc_next_publish := XFin 0\<rparr>)"
proof (cases "\<exists>kvs. j = Some (JObject kvs)")
  case False
  then have "snd (mag_put_settings c j) = c"
    unfolding mag_put_settings_def by (auto split: option.split json.split)
  then show ?thesis ..
next
  case True
  then obtain kvs where j: "j = Some (JObject kvs)" by blast
  define tap where "tap = get_item (JObject kvs) ''magnum.tap''"
  define poll where "poll = get_item (JObject kvs) ''poll_interval_s''"
  define p where "p = number poll (XFin (-1))"
  define bad_tap where "bad_tap = (case tap of None \<Rightarrow> False | Some (JString t) \<Rightarrow> TAP_MAX < length t | Some _ \<Rightarrow> True)"
  define c1 where "c1 = (case tap of Some (JString t) \<Rightarrow> c\<lparr>mc_tap := c_copy (TAP_MAX + 4) t\<rparr> | _ \<Rightarrow> c)"
  define c2 where "c2 = (if poll \<noteq> None then c1\<lparr>mc_poll_s := p\<rparr> else c1)"
  define a where "a = setting_bool (JObject kvs) ''usb'' ''auto_port'' (mc_auto_port c2)"
  note put = mag_put_settings_def [of c j, unfolded j option.case json.case Let_def, folded tap_def poll_def,
      folded p_def bad_tap_def c1_def, folded c2_def, folded a_def]
  show ?thesis
  proof (cases "bad_tap \<or> poll \<noteq> None \<and> p < XFin PUBLISH_MIN_S")
    case True
    then have "snd (mag_put_settings c j) = c" unfolding j put by auto
    then show ?thesis ..
  next
    case False
    obtain t where c1: "c1 = c\<lparr>mc_tap := t\<rparr>" "length t \<le> TAP_MAX"
    proof (cases "\<exists>t. tap = Some (JString t)")
      case True
      then show ?thesis using that False by (auto simp: c1_def bad_tap_def c_copy_def TAP_MAX_def)
    next
      case F: False
      then have "c1 = c\<lparr>mc_tap := mc_tap c\<rparr>" by (auto simp: c1_def split: option.split json.split)
      then show ?thesis using that [of "mc_tap c"] assms by (simp add: offer_ok_def)
    qed
    obtain q where c2: "c2 = c1\<lparr>mc_poll_s := q\<rparr>" "\<not> q < XFin PUBLISH_MIN_S"
    proof (cases "poll = None")
      case True
      then have "c2 = c1\<lparr>mc_poll_s := mc_poll_s c\<rparr>" by (simp add: c2_def c1(1))
      then show ?thesis using that [of "mc_poll_s c"] assms by (simp add: offer_ok_def c1(1))
    next
      case F: False
      then show ?thesis using that [of p] False by (simp add: c2_def)
    qed
    have "\<exists>a. snd (mag_put_settings c j) = c2\<lparr>mc_auto_port := a, mc_next_publish := XFin 0\<rparr>"
    proof (cases "get_item (JObject kvs) ''usb.auto_port'' \<noteq> None")
      case True
      then have "snd (mag_put_settings c j) = c2\<lparr>mc_auto_port := a, mc_next_publish := XFin 0\<rparr>"
        unfolding j put using False by (simp only: if_True if_False snd_conv de_Morgan_disj) simp
      then show ?thesis ..
    next
      case F: False
      then have "snd (mag_put_settings c j) = c2\<lparr>mc_auto_port := mc_auto_port c2, mc_next_publish := XFin 0\<rparr>"
        unfolding j put using False by (simp only: if_True if_False snd_conv de_Morgan_disj) simp
      then show ?thesis ..
    qed
    then show ?thesis using c1 c2 by auto
  qed
qed

lemma mag_put_ok:
  assumes "offer_ok c"
  shows "offer_ok (snd (mag_put_settings c j)) \<and> mc_fr (snd (mag_put_settings c j)) = mc_fr c \<and>
    mc_st (snd (mag_put_settings c j)) = mc_st c \<and> mc_fd (snd (mag_put_settings c j)) = mc_fd c \<and>
    mc_port (snd (mag_put_settings c j)) = mc_port c \<and> mc_reading (snd (mag_put_settings c j)) = mc_reading c \<and>
    (mc_next_publish (snd (mag_put_settings c j)) = XFin 0 \<or> snd (mag_put_settings c j) = c)"
  using mag_put_cases [OF assms, of j] assms by (auto simp: offer_ok_def)

lemma mag_action_ok:
  assumes "tap_ok c"
  shows "tap_ok (snd (mag_action c a)) \<and> label_of (snd (mag_action c a)) = (label_of c) \<or>
    tap_ok (snd (mag_action c a)) \<and> mc_next_publish (snd (mag_action c a)) = XFin 0 \<and>
    label_of ((snd (mag_action c a))\<lparr>mc_next_publish := mc_next_publish c\<rparr>) = label_of c"
  using assms
  by (auto simp: mag_action_def tap_ok_def label_of_def shaped_def mag_frame_reset_stats_def mag_state_ok_def
      inv_ok_def stack_ok_def peers_ok_def)

lemma mag_action_port: "mc_fd (snd (mag_action c a)) = mc_fd c \<and> mc_port (snd (mag_action c a)) = mc_port c"
  by (simp add: mag_action_def)

lemma mag_do_ok:
  assumes "tap_ok c" and "offer_ok c"
  shows "\<exists>c' evs. mag_do pr c x = Some (c', evs) \<and> tap_ok c' \<and> offer_ok c' \<and>
    ports_after (held_port c) evs = Some (held_port c')"
proof (cases x)
  case (MStep e)
  then show ?thesis using mag_step_ok [OF assms, of pr e] by fastforce
next
  case (MPut j)
  then show ?thesis using mag_put_ok [OF assms(2), of j] assms(1) by (simp add: tap_ok_def held_port_def)
next
  case (MAction a)
  have "offer_ok (snd (mag_action c a))"
    using mag_action_ok [OF assms(1), of a] mag_action_port [of c a] assms(2)
    by (auto simp: offer_ok_def label_of_def)
  then show ?thesis using MAction mag_action_ok [OF assms(1), of a] mag_action_port [of c a]
    by (auto simp: held_port_def)
qed

lemma mag_run_ok:
  assumes "tap_ok c" and "offer_ok c"
  shows "\<exists>c' evs. mag_run pr c ops = Some (c', evs) \<and> tap_ok c' \<and> offer_ok c' \<and>
    ports_after (held_port c) evs = Some (held_port c')"
  using assms
proof (induction ops arbitrary: c)
  case (Cons x xs)
  obtain c1 evs where d: "mag_do pr c x = Some (c1, evs)" "tap_ok c1" "offer_ok c1"
    "ports_after (held_port c) evs = Some (held_port c1)"
    using mag_do_ok [OF Cons.prems] by blast
  show ?case using Cons.IH [OF d(2,3)] d by auto
qed simp

text \<open>
  Whatever happens to a tap that was opened -- any bytes on the bus in any pieces, adapters coming and
  going, settings and actions in any order -- every call returns, the state decoded from the bus is
  plausible, at most one port is open and every other port that was opened has been closed, and a
  reading is offered only while the port is open.
\<close>

theorem mag_tap_safe:
  assumes "mag_open spec stale = Inr c0"
  shows "\<exists>c evs. mag_run pr c0 ops = Some (c, evs) \<and> mag_state_ok (mc_st c) \<and>
    ports_after [] evs = Some (case mc_fd c of None \<Rightarrow> [] | Some k \<Rightarrow> [k]) \<and>
    (mc_fd c = None \<longrightarrow> fst (mag_get_reading c cap) = MF_ERR_OFFLINE)"
proof -
  have o: "tap_ok c0" "offer_ok c0" "held_port c0 = []" using mag_open_ok [OF assms] by blast+
  then obtain c evs where r: "mag_run pr c0 ops = Some (c, evs)" "tap_ok c" "offer_ok c"
    "ports_after (held_port c0) evs = Some (held_port c)"
    using mag_run_ok by blast
  moreover have "mc_fd c = None \<longrightarrow> fst (mag_get_reading c cap) = MF_ERR_OFFLINE"
    using r(3) by (auto simp: offer_ok_def mag_get_reading_def)
  ultimately show ?thesis using o(3) by (simp add: tap_ok_def held_port_def)
qed

subsection \<open>What is offered\<close>

text \<open>
  \<open>built_in pr c0 ops c t e0\<close>: the text \<open>t\<close> is what the step \<open>e0\<close> of the history \<open>ops\<close> built, and the
  label and the port it was built with are still those of \<open>c\<close>, or the reading is due.
\<close>

definition built_in ::
  "(json \<Rightarrow> string) \<Rightarrow> mag_ctx \<Rightarrow> mag_op list \<Rightarrow> string \<Rightarrow> string \<Rightarrow> string \<Rightarrow> mag_env \<Rightarrow> bool" where
  "built_in pr c0 ops tap port t e0 \<longleftrightarrow>
     (\<exists>pre post c1 evs. ops = pre @ MStep e0 # post \<and> mag_run pr c0 (pre @ [MStep e0]) = Some (c1, evs) \<and>
        t = mag_reading_json pr (mc_st c1) (st (mc_fr c1)) tap port (me_now e0))"

lemma built_in_snoc: "built_in pr c0 ops tap port t e0 \<Longrightarrow> built_in pr c0 (ops @ [x]) tap port t e0"
  unfolding built_in_def by (metis append.assoc append_Cons)

definition offer_from :: "(json \<Rightarrow> string) \<Rightarrow> mag_ctx \<Rightarrow> mag_op list \<Rightarrow> mag_ctx \<Rightarrow> bool" where
  "offer_from pr c0 ops c \<longleftrightarrow> (\<forall>t. mc_reading c = Some t \<longrightarrow>
     (\<exists>tap e0. built_in pr c0 ops tap (mc_port c) t e0 \<and>
        (mc_next_publish c = XFin 0 \<or> mc_next_publish c = XFin (me_now e0) + mc_poll_s c \<and> tap = mc_tap c)))"

lemma mag_step_offer:
  assumes ok: "tap_ok c" "offer_ok c" and run: "mag_run pr c0 ops = Some (c, evs)" and old: "offer_from pr c0 ops c"
    and s: "mag_step pr c e = Some (r, c', evs')"
  shows "offer_from pr c0 (ops @ [MStep e]) c' \<and>
    (mc_online c' \<longrightarrow> iv_seen (ms_inv (mc_st c')) \<and> \<not> mc_stale_s c' < XFin (me_now e - iv_t (ms_inv (mc_st c')))) \<and>
    (0 \<le> me_now e \<longrightarrow> (\<forall>t. mc_reading c' = Some t \<longrightarrow>
      (\<exists>e0. built_in pr c0 (ops @ [MStep e]) (mc_tap c') (mc_port c') t e0 \<and> (e0 = e \<or> \<not> XFin (me_now e0) + mc_poll_s c' \<le> XFin (me_now e)))))"
proof -
  obtain c1 where i: "mag_input c e = Some (c1, evs')" "label_of c1 = label_of c"
    "mc_fd c \<noteq> None \<longrightarrow> mc_port c1 = mc_port c" and o: "mag_output pr c1 (me_now e) = (r, c')"
    by (rule mag_step_eq [OF ok(1), of e pr]) (use s in auto)
  let ?g = "take_frame c1 (mag_frame_idle (mc_fr c1) (me_now e))"
  note out = mag_output_cases [OF o]
  have l: "mc_tap c1 = mc_tap c" "mc_poll_s c1 = mc_poll_s c" "mc_reading c1 = mc_reading c"
    "mc_next_publish c1 = mc_next_publish c" using i(2) by (simp_all add: label_of_def)
  have run': "mag_run pr c0 (ops @ [MStep e]) = Some (c', evs @ evs')"
    by (simp add: mag_run_snoc run s)
  consider (off) "mc_reading c' = None" "\<not> mc_online c'"
    | (new) "inverter_recent ?g (me_now e)" "mc_next_publish c' = XFin (me_now e) + mc_poll_s c'"
        "mc_reading c' = Some (mag_reading_json pr (mc_st c') (st (mc_fr c')) (mc_tap c') (mc_port c') (me_now e))"
    | (kept) "inverter_recent ?g (me_now e)" "\<not> mc_next_publish c' \<le> XFin (me_now e)" "mc_next_publish c' = mc_next_publish c"
        "mc_reading c' = mc_reading c" "mc_reading c \<noteq> None"
    using out l by auto
  then show ?thesis
  proof cases
    case off
    then show ?thesis by (simp add: offer_from_def)
  next
    case new
    have "built_in pr c0 (ops @ [MStep e]) (mc_tap c') (mc_port c') t e" if "mc_reading c' = Some t" for t
      unfolding built_in_def using run' that new(3) by (intro exI [of _ ops] exI [of _ "[]"]) simp
    moreover have "mc_poll_s c' = mc_poll_s c" "inverter_recent ?g (me_now e)" "mc_st c' = mc_st ?g" "mc_stale_s c' = mc_stale_s ?g"
      using out new(1) l(2) by (simp_all add: take_frame_def)
    ultimately show ?thesis using new unfolding offer_from_def inverter_recent_def by fastforce
  next
    case kept
    then have "mc_fd c \<noteq> None" using ok(2) by (simp add: offer_ok_def)
    then have same: "mc_port c' = mc_port c" "mc_poll_s c' = mc_poll_s c" "mc_tap c' = mc_tap c"
      "mc_st c' = mc_st ?g" "mc_stale_s c' = mc_stale_s ?g"
      using out i(3) l by (simp_all add: take_frame_def)
    have "\<exists>tap e0. built_in pr c0 (ops @ [MStep e]) tap (mc_port c') t e0 \<and>
        (mc_next_publish c' = XFin 0 \<or> mc_next_publish c' = XFin (me_now e0) + mc_poll_s c' \<and> tap = mc_tap c')"
      if "mc_reading c' = Some t" for t
      using old that kept(3,4) same built_in_snoc unfolding offer_from_def by metis
    moreover have "iv_seen (ms_inv (mc_st c')) \<and> \<not> mc_stale_s c' < XFin (me_now e - iv_t (ms_inv (mc_st c')))"
      using kept(1) same unfolding inverter_recent_def by auto
    moreover have "0 \<le> me_now e \<Longrightarrow> mc_next_publish c' \<noteq> XFin 0" using kept(2) by auto
    ultimately show ?thesis using kept(2) unfolding offer_from_def by fastforce
  qed
qed

lemma mag_run_offer:
  assumes "mag_open spec stale = Inr c0" and "mag_run pr c0 ops = Some (c, evs)"
  shows "tap_ok c \<and> offer_ok c \<and> offer_from pr c0 ops c"
  using assms(2)
proof (induction ops arbitrary: c evs rule: rev_induct)
  case Nil
  then show ?case using mag_open_ok [OF assms(1)] by (simp add: offer_from_def)
next
  case (snoc x ops)
  obtain c1 evs1 evs2 where r: "mag_run pr c0 ops = Some (c1, evs1)" "mag_do pr c1 x = Some (c, evs2)"
    using snoc.prems by (auto simp: mag_run_snoc split: option.splits)
  note ih = snoc.IH [OF r(1)]
  have keep: "tap_ok c \<and> offer_ok c"
    using mag_do_ok [of c1 pr x] ih r(2) by auto
  have "offer_from pr c0 (ops @ [x]) c"
  proof (cases x)
    case (MStep e)
    then show ?thesis using mag_step_offer [of c1 pr c0 ops evs1 e] ih r by auto
  next
    case (MPut j)
    then have c: "c = snd (mag_put_settings c1 j)" using r(2) by simp
    have "mc_reading c = mc_reading c1 \<and> mc_port c = mc_port c1 \<and> (mc_next_publish c = XFin 0 \<or> c = c1)"
      using mag_put_ok [of c1 j] ih unfolding c by blast
    then show ?thesis using ih built_in_snoc unfolding offer_from_def by metis
  next
    case (MAction a)
    then have c: "c = snd (mag_action c1 a)" using r(2) by simp
    have "mc_reading c = mc_reading c1 \<and> mc_port c = mc_port c1 \<and> (mc_next_publish c = XFin 0 \<or> c = c1)"
      unfolding c by (simp add: mag_action_def)
    then show ?thesis using ih built_in_snoc unfolding offer_from_def by metis
  qed
  then show ?case using keep by blast
qed

text \<open>
  What a tap offers after a step is recent: the text was built by that step or by an earlier one of its
  history after which the poll interval has not yet passed, from the state decoded up to then, with the
  label and the port the tap has now; and the inverter has been heard within the staleness limit before
  the latest step. (With an interval or a limit that is a NaN, nothing ever passes it.)
\<close>

theorem mag_reading_recent:
  assumes "mag_open spec stale = Inr c0" and "mag_run pr c0 (ops @ [MStep e]) = Some (c, evs)"
    and "mag_get_reading c cap = (MF_OK, Some t)" and "0 \<le> me_now e"
  shows "\<exists>pre e0 post c1 evs1. ops @ [MStep e] = pre @ MStep e0 # post \<and>
     mag_run pr c0 (pre @ [MStep e0]) = Some (c1, evs1) \<and>
     t = mag_reading_json pr (mc_st c1) (st (mc_fr c1)) (mc_tap c) (mc_port c) (me_now e0) \<and>
     (e0 = e \<or> \<not> XFin (me_now e0) + mc_poll_s c \<le> XFin (me_now e)) \<and>
     iv_seen (ms_inv (mc_st c)) \<and> \<not> mc_stale_s c < XFin (me_now e - iv_t (ms_inv (mc_st c)))"
proof -
  obtain cm evs1 r evs2 where m: "mag_run pr c0 ops = Some (cm, evs1)" "mag_step pr cm e = Some (r, c, evs2)"
    using assms(2) by (auto simp: mag_run_snoc split: option.splits)
  have on: "mc_online c" "mc_reading c = Some t"
    using assms(3) by (auto simp: mag_get_reading_def mf_codes split: if_splits option.splits)
  have ih: "tap_ok cm" "offer_ok cm" "offer_from pr c0 ops cm" using mag_run_offer [OF assms(1) m(1)] by blast+
  note new = mag_step_offer [OF ih(1,2) m(1) ih(3) m(2)]
  obtain e0 where e0: "built_in pr c0 (ops @ [MStep e]) (mc_tap c) (mc_port c) t e0" "(e0 = e \<or> \<not> XFin (me_now e0) + mc_poll_s c \<le> XFin (me_now e))"
    using new on(2) assms(4) by blast
  moreover have "iv_seen (ms_inv (mc_st c))" "\<not> mc_stale_s c < XFin (me_now e - iv_t (ms_inv (mc_st c)))" using new on(1) by blast+
  ultimately show ?thesis unfolding built_in_def by blast
qed

end
