(* ===== verification/MagBus.thy ===== *)
theory MagBus
  imports MagSafety
begin

section \<open>A clean bus is delivered completely\<close>

text \<open>
  The bus as the inverter runs it: cycles of an inverter packet, the remote's packet and at most one
  reply. Whatever the pieces in which its bytes arrive, a framer that has just been started delivers
  every packet, in order and with its type, from the first on -- the first cycle once the second has
  confirmed the inverter.
\<close>

subsection \<open>The packets of a bus\<close>

definition inv_fields :: "byte list \<Rightarrow> bool" where
  "inv_fields p \<longleftrightarrow> p ! 20 = 0 \<and>
     (let freq = be16s (p ! 18) (p ! 19) in \<not> (freq \<noteq> 0 \<and> (freq < 400 \<or> 700 < freq))) \<and>
     \<not> (150 < p ! 11 \<or> 150 < p ! 12 \<or> 150 < p ! 13) \<and>
     (let vdc = be16s (p ! 2) (p ! 3) in \<not> (vdc < 0 \<or> 120 * mag_multiplier (uint (p ! 14)) * 2 < vdc))"

definition looks_inv :: "byte \<Rightarrow> byte \<Rightarrow> byte list \<Rightarrow> bool" where
  "looks_inv m r p \<longleftrightarrow> inv_fields p \<and> (p ! 14 = m \<and> p ! 10 = r \<or>
     mag_model_known (uint (p ! 14)) \<and> mag_stackmode_known (uint (p ! 15)))"

text \<open>The mode byte of an inverter is never the first byte of a reply.\<close>

definition good_inv :: "byte \<Rightarrow> byte \<Rightarrow> byte list \<Rightarrow> bool" where
  "good_inv m r p \<longleftrightarrow> length p = MAG_INV_LEN \<and> inv_fields p \<and> p ! 14 = m \<and> p ! 10 = r \<and>
     mag_model_known (uint m) \<and> mag_stackmode_known (uint (p ! 15)) \<and> mag_reply_len (p ! 0) = 0"

definition good_remote :: "byte \<Rightarrow> byte \<Rightarrow> byte list \<Rightarrow> bool" where
  "good_remote m r p \<longleftrightarrow> length p = MAG_REMOTE_LEN \<and> remote_type_ok (p ! 20) \<and> \<not> looks_inv m r p \<and>
     \<not> turnaround_byte (p ! 0)"

definition good_reply :: "byte list \<Rightarrow> bool" where
  "good_reply p \<longleftrightarrow> p \<noteq> [] \<and> length p = mag_reply_len (p ! 0) \<and> reply_ok p"

type_synonym packet = "mag_pkt \<times> byte list"

text \<open>\<open>expects m r q ps\<close>: from the state \<open>q\<close> on, the packets \<open>ps\<close> are a clean bus.\<close>

fun expects :: "byte \<Rightarrow> byte \<Rightarrow> mag_fstate \<Rightarrow> packet list \<Rightarrow> bool" where
  "expects m r q [] = True"
| "expects m r ST_HUNT ((t, p) # ps) = (t = MAG_PKT_INVERTER \<and> good_inv m r p \<and> expects m r ST_AFTER_INV ps)"
| "expects m r ST_AFTER_INV ((t, p) # ps) = (t = MAG_PKT_REMOTE \<and> good_remote m r p \<and> expects m r ST_AFTER_REMOTE ps)"
| "expects m r ST_AFTER_REMOTE ((t, p) # ps) =
     (if t = MAG_PKT_INVERTER then good_inv m r p \<and> expects m r ST_AFTER_INV ps
      else good_reply p \<and> t = reply_type (p ! 0) \<and> expects m r ST_HUNT ps)"

abbreviation bytes_of :: "packet list \<Rightarrow> byte list" where "bytes_of ps \<equiv> concat (map snd ps)"

subsection \<open>The framer on such a bus\<close>

text \<open>What has come out of the framer, held packets included.\<close>

definition delivered :: "mag_frame \<Rightarrow> packet list" where
  "delivered f = map (\<lambda>(t, p, tm). (t, p)) (calls f) @ held f"

text \<open>Nothing seen yet, one cycle seen, or the inverter known.\<close>

definition fresh :: "mag_frame \<Rightarrow> bool" where
  "fresh f \<longleftrightarrow> \<not> have_id f \<and> \<not> probing f \<and> held f = [] \<and> fstate f = ST_HUNT"

definition probed :: "byte \<Rightarrow> byte \<Rightarrow> mag_frame \<Rightarrow> bool" where
  "probed m r f \<longleftrightarrow> \<not> have_id f \<and> probing f \<and> synced f \<and> probe_model f = m \<and> probe_revision f = r \<and>
     length (held f) \<le> (case fstate f of ST_AFTER_INV \<Rightarrow> 1 | ST_AFTER_REMOTE \<Rightarrow> 2 | ST_HUNT \<Rightarrow> 3)"

definition known :: "byte \<Rightarrow> byte \<Rightarrow> mag_frame \<Rightarrow> bool" where
  "known m r f \<longleftrightarrow> have_id f \<and> \<not> probing f \<and> held f = [] \<and> inv_model f = m \<and> inv_revision f = r"

definition in_step :: "byte \<Rightarrow> byte \<Rightarrow> mag_frame \<Rightarrow> bool" where
  "in_step m r f \<longleftrightarrow> has_fn f \<and> (fresh f \<or> probed m r f \<or> known m r f)"

lemma is_inverter_fields:
  "mag_frame_is_inverter f p \<longleftrightarrow> inv_fields p \<and>
     (if have_id f then p ! 14 = inv_model f \<and> p ! 10 = inv_revision f
      else mag_model_known (uint (p ! 14)) \<and> mag_stackmode_known (uint (p ! 15)))"
  by (auto simp: mag_frame_is_inverter_def inv_fields_def Let_def)

lemma good_is_inverter:
  assumes "in_step m r f" and "good_inv m r p"
  shows "mag_frame_is_inverter f (p @ xs)"
proof -
  have "(p @ xs) ! k = p ! k" if "k \<le> 20" for k
    using assms(2) that by (simp add: good_inv_def MAG_INV_LEN_def nth_append)
  moreover from this have "inv_fields (p @ xs) = inv_fields p" unfolding inv_fields_def by simp
  ultimately have "inv_fields (p @ xs)" "(p @ xs) ! 14 = m" "(p @ xs) ! 10 = r" "mag_stackmode_known (uint ((p @ xs) ! 15))"
    using assms(2) by (simp_all add: good_inv_def)
  then show ?thesis
    using assms by (auto simp: is_inverter_fields in_step_def known_def fresh_def probed_def good_inv_def)
qed

lemma remote_not_inverter:
  assumes "in_step m r f" and "good_remote m r p"
  shows "\<not> mag_frame_is_inverter f (p @ xs)"
proof -
  have nth: "(p @ xs) ! k = p ! k" if "k \<le> 20" for k
    using assms(2) that by (simp add: good_remote_def MAG_REMOTE_LEN_def nth_append)
  have "mag_frame_is_inverter f (p @ xs) = mag_frame_is_inverter f p"
    unfolding is_inverter_fields inv_fields_def by (simp add: nth)
  then show ?thesis
    using assms by (auto simp: is_inverter_fields in_step_def known_def fresh_def probed_def good_remote_def looks_inv_def)
qed

text \<open>What a complete packet does to the framer.\<close>

definition takes :: "byte \<Rightarrow> byte \<Rightarrow> mag_frame \<Rightarrow> packet \<Rightarrow> mag_fstate \<Rightarrow> mag_frame \<Rightarrow> bool" where
  "takes m r f x q g \<longleftrightarrow> in_step m r g \<and> fstate g = q \<and> buf g = buf f \<and> delivered g = delivered f @ [x] \<and>
     last_rx g = last_rx f \<and> \<not> fresh g \<and>
     (known m r f \<or> probed m r f \<and> fst x = MAG_PKT_INVERTER \<longrightarrow> known m r g)"

lemma delivered_upd [simp]:
  "delivered (f\<lparr>fstate := q\<rparr>) = delivered f" "delivered (f\<lparr>since_inv := k, synced := b\<rparr>) = delivered f"
  "delivered (f\<lparr>buf := bs\<rparr>) = delivered f" "delivered (consume f n) = delivered f"
  by (simp_all add: delivered_def consume_def)

lemma framer_known_upd [simp]:
  "known m r (f\<lparr>fstate := q\<rparr>) = known m r f" "known m r (f\<lparr>since_inv := k, synced := b\<rparr>) = known m r f"
  "known m r (f\<lparr>buf := bs\<rparr>) = known m r f"
  by (simp_all add: known_def)

lemma emit_known:
  assumes "known m r f" and "has_fn f"
  shows "known m r (emit f t p) \<and> has_fn (emit f t p) \<and> delivered (emit f t p) = delivered f @ [(t, p)]"
  using assms by (auto simp: emit_def known_def delivered_def)

lemma emit_probing:
  assumes "probing f" and "t \<noteq> MAG_PKT_UNKNOWN" and "length (held f) < 4" and "length p \<le> 21"
  shows "emit f t p = f\<lparr>held := held f @ [(t, p)]\<rparr>"
  using assms by (simp add: emit_def MAG_HELD_MAX_def MAG_INV_LEN_def)

lemma hunt_learn_step:
  assumes "in_step m r f" and "fstate f = ST_HUNT" and "buf f ! 14 = m" and "buf f ! 10 = r"
  defines "h \<equiv> (hunt_learn f)\<lparr>since_inv := 0, synced := True\<rparr>"
  shows "has_fn h \<and> delivered h = delivered f \<and>
    (known m r h \<or> fresh f \<and> \<not> have_id h \<and> probing h \<and> synced h \<and> probe_model h = m \<and> probe_revision h = r \<and> held h = [])"
proof -
  consider (fresh) "fresh f" | (probed) "probed m r f" | (known) "known m r f" using assms(1) by (auto simp: in_step_def)
  then show ?thesis
  proof cases
    case fresh
    then show ?thesis using assms by (simp add: h_def hunt_learn_def fresh_def in_step_def delivered_def)
  next
    case probed
    let ?k = "f\<lparr>probing := False, have_id := True, inv_model := m, inv_revision := r\<rparr>"
    have "hunt_learn f = held_flush ?k" using probed assms(3,4) by (simp add: hunt_learn_def probed_def)
    moreover have "has_fn ?k" using assms(1) by (simp add: in_step_def)
    ultimately show ?thesis using assms(1)
      by (simp add: h_def known_def in_step_def delivered_def comp_def split_beta)
  next
    case known
    then show ?thesis using assms by (simp add: h_def hunt_learn_def known_def in_step_def delivered_def)
  qed
qed

lemma hunt_takes:
  assumes f: "in_step m r f" "fstate f = ST_HUNT" and p: "good_inv m r p" and buf: "buf f = p @ xs"
  shows "\<exists>g. frame_step f = (Used (length p), g) \<and> takes m r f (MAG_PKT_INVERTER, p) ST_AFTER_INV g \<and> since_inv g = 0"
proof -
  define h where "h = (hunt_learn f)\<lparr>since_inv := 0, synced := True\<rparr>"
  have len: "length p = 21" using p by (simp add: good_inv_def MAG_INV_LEN_def)
  have isinv: "mag_frame_is_inverter f (buf f)" using good_is_inverter [OF f(1) p] buf by simp
  have nth: "buf f ! 14 = m" "buf f ! 10 = r" using p len by (simp_all add: buf good_inv_def nth_append)
  note learn = hunt_learn_step [OF f nth, folded h_def]
  have scan: "hunt_scan f (buf f) 0 = 0"
    by (subst hunt_scan.simps) (simp add: isinv)
  let ?g = "(emit h MAG_PKT_INVERTER p)\<lparr>fstate := ST_AFTER_INV\<rparr>"
  have step: "frame_step f = (Used (length p), ?g)"
    using f(2) scan len buf by (simp add: frame_step_def hunt_def MAG_INV_LEN_def Let_def h_def)
  have flds: "buf h = buf f" "last_rx h = last_rx f" "since_inv h = 0"
    by (simp_all add: h_def hunt_learn_def)
  have si: "since_inv (emit h MAG_PKT_INVERTER p) = 0"
    using flds(3) learn len by (auto simp: emit_def known_def deliver_def MAG_HELD_MAX_def MAG_INV_LEN_def)
  consider "known m r h" | "fresh f \<and> \<not> have_id h \<and> probing h \<and> synced h \<and> probe_model h = m \<and> probe_revision h = r \<and> held h = []"
    using learn by blast
  then have "takes m r f (MAG_PKT_INVERTER, p) ST_AFTER_INV ?g"
  proof cases
    case 1
    then show ?thesis using emit_known [OF 1] learn flds by (simp add: takes_def in_step_def) (simp add: fresh_def)
  next
    case 2
    then have "emit h MAG_PKT_INVERTER p = h\<lparr>held := held h @ [(MAG_PKT_INVERTER, p)]\<rparr>"
      using len by (intro emit_probing) auto
    then show ?thesis using 2 learn flds by (simp add: takes_def in_step_def probed_def delivered_def fresh_def known_def)
  qed
  then show ?thesis using step si by auto
qed

text \<open>A remote packet or a reply: the position moves from \<open>q\<close> to \<open>q'\<close>.\<close>

lemma emit_takes:
  assumes f: "in_step m r f" and q: "fstate f = ST_AFTER_INV \<and> q = ST_AFTER_REMOTE \<or> fstate f = ST_AFTER_REMOTE \<and> q = ST_HUNT"
    and t: "t \<noteq> MAG_PKT_UNKNOWN" "t \<noteq> MAG_PKT_INVERTER" and p: "length p \<le> 21"
  shows "takes m r f (t, p) q ((emit f t p)\<lparr>fstate := q\<rparr>) \<and> since_inv (emit f t p) = since_inv f"
proof -
  consider (probed) "probed m r f" | (known) "known m r f" using f q by (auto simp: in_step_def fresh_def)
  then show ?thesis
  proof cases
    case probed
    then have "emit f t p = f\<lparr>held := held f @ [(t, p)]\<rparr>"
      using q t p by (intro emit_probing) (auto simp: probed_def)
    then show ?thesis using probed q f t(2) by (auto simp: takes_def in_step_def probed_def delivered_def fresh_def known_def)
  next
    case known
    then have "since_inv (emit f t p) = since_inv f" by (simp add: emit_def known_def deliver_def)
    then show ?thesis using emit_known [OF known] f by (simp add: takes_def in_step_def) (simp add: fresh_def known_def)
  qed
qed

lemma remote_takes:
  assumes f: "in_step m r f" "fstate f = ST_AFTER_INV" and p: "good_remote m r p" and buf: "buf f = p @ xs"
  shows "\<exists>g. frame_step f = (Used (length p), g) \<and> takes m r f (MAG_PKT_REMOTE, p) ST_AFTER_REMOTE g \<and> since_inv g = since_inv f"
proof -
  have len: "length p = 21" using p by (simp add: good_remote_def MAG_REMOTE_LEN_def)
  then have "(p @ xs) ! 20 = p ! 20" "(p @ xs) ! 0 = p ! 0" by (simp_all add: nth_append)
  then have "frame_step f = (Used (length p), (emit f MAG_PKT_REMOTE p)\<lparr>fstate := ST_AFTER_REMOTE\<rparr>)"
    using f(2) len p remote_not_inverter [OF f(1) p, of xs] buf
    by (simp add: frame_step_def after_inv_def after_inv_packet_def Let_def MAG_REMOTE_LEN_def good_remote_def)
  then show ?thesis using emit_takes [OF f(1), of ST_AFTER_REMOTE MAG_PKT_REMOTE p] f(2) len by simp
qed

lemma reply_takes:
  assumes f: "in_step m r f" "fstate f = ST_AFTER_REMOTE" and p: "good_reply p" and buf: "buf f = p @ xs"
  shows "\<exists>g. frame_step f = (Used (length p), g) \<and> takes m r f (reply_type (p ! 0), p) ST_HUNT g \<and> since_inv g = since_inv f"
proof -
  have len: "length p = mag_reply_len (p ! 0)" "p \<noteq> []" using p by (simp_all add: good_reply_def)
  have n: "mag_reply_len (p ! 0) \<noteq> 0" "2 \<le> length p" "length p \<le> 18"
    using len mag_reply_len_le [of "p ! 0"] by (auto simp: mag_reply_len_def split: if_splits)
  have nth: "(p @ xs) ! 0 = p ! 0" "(p @ xs) ! 1 = p ! 1" using n(2) len(2) by (simp_all add: nth_append)
  have "reply_ok (p @ xs) = reply_ok p" by (simp only: reply_ok_def nth)
  then have ok: "reply_ok (p @ xs)" using p by (simp add: good_reply_def)
  let ?f = "f\<lparr>fstate := ST_HUNT\<rparr>"
  have "frame_step f = (Used (length p), emit ?f (reply_type (p ! 0)) p)"
    using f(2) n len ok nth buf by (simp add: frame_step_def after_remote_def Let_def del: nth_append)
  moreover have "emit ?f t p = (emit f t p)\<lparr>fstate := ST_HUNT\<rparr>" if "t \<noteq> MAG_PKT_UNKNOWN" for t
    using that f n(3) unfolding in_step_def fresh_def probed_def known_def
    by (auto simp: emit_def deliver_def Let_def MAG_HELD_MAX_def MAG_INV_LEN_def)
  ultimately show ?thesis
    using emit_takes [OF f(1), of ST_HUNT "reply_type (p ! 0)" p] f(2) n reply_type_cases [of "p ! 0"] by auto
qed

text \<open>The interval of the stream since the last inverter packet, as far as it can still grow.\<close>

definition since_base :: "mag_fstate \<Rightarrow> nat" where
  "since_base q = (case q of ST_AFTER_INV \<Rightarrow> 0 | ST_AFTER_REMOTE \<Rightarrow> 21 | ST_HUNT \<Rightarrow> 39)"

text \<open>
  The relation between the framer and the bus: what has been delivered and what is buffered or still to
  come (\<open>rest\<close>) are the packets of the bus, and the position agrees.
\<close>

definition n_inverters :: "packet list \<Rightarrow> nat" where
  "n_inverters ps = length (filter (\<lambda>x. fst x = MAG_PKT_INVERTER) ps)"

text \<open>Until the inverter is known at most one of its packets has come by.\<close>

definition probed_once :: "byte \<Rightarrow> byte \<Rightarrow> mag_frame \<Rightarrow> bool" where
  "probed_once m r f \<longleftrightarrow> (fresh f \<longrightarrow> n_inverters (delivered f) = 0) \<and> (probed m r f \<longrightarrow> n_inverters (delivered f) \<le> 1)"

lemma takes_once:
  assumes "in_step m r f" and "probed_once m r f" and "takes m r f x q g"
  shows "probed_once m r g"
proof -
  have d: "n_inverters (delivered g) = n_inverters (delivered f) + (if fst x = MAG_PKT_INVERTER then 1 else 0)"
    using assms(3) by (simp add: takes_def n_inverters_def)
  have "\<not> fresh g" using assms(3) by (simp add: takes_def)
  moreover have "n_inverters (delivered g) \<le> 1" if "probed m r g"
  proof -
    have "\<not> known m r g" using that by (simp add: probed_def known_def)
    then have "fresh f \<or> probed m r f \<and> fst x \<noteq> MAG_PKT_INVERTER" using assms(1,3) by (auto simp: in_step_def takes_def)
    then show ?thesis using assms(2) d by (auto simp: probed_once_def)
  qed
  ultimately show ?thesis by (simp add: probed_once_def)
qed

lemma probed_once_upd [simp]: "probed_once m r (f\<lparr>buf := bs\<rparr>) = probed_once m r f"
  by (simp add: probed_once_def fresh_def probed_def)

definition follows :: "byte \<Rightarrow> byte \<Rightarrow> packet list \<Rightarrow> byte list \<Rightarrow> mag_frame \<Rightarrow> bool" where
  "follows m r ps rest f \<longleftrightarrow> in_step m r f \<and> probed_once m r f \<and> unat (since_inv f) \<le> since_base (fstate f) + length (buf f) \<and>
     (\<exists>ps2. ps = delivered f @ ps2 \<and> expects m r (fstate f) ps2 \<and> buf f @ rest = bytes_of ps2)"

lemma expects_packet:
  assumes "expects m r q ((t, p) # ps)"
  obtains (inv) "q = ST_HUNT \<or> q = ST_AFTER_REMOTE" "t = MAG_PKT_INVERTER" "good_inv m r p" "expects m r ST_AFTER_INV ps"
  | (rem) "q = ST_AFTER_INV" "t = MAG_PKT_REMOTE" "good_remote m r p" "expects m r ST_AFTER_REMOTE ps"
  | (reply) "q = ST_AFTER_REMOTE" "t = reply_type (p ! 0)" "good_reply p" "expects m r ST_HUNT ps"
  using assms by (cases q) (auto split: if_splits)

lemma good_length:
  "good_inv m r p \<Longrightarrow> length p = 21" "good_remote m r p \<Longrightarrow> length p = 21"
  "good_reply p \<Longrightarrow> length p = mag_reply_len (p ! 0) \<and> 2 \<le> length p \<and> length p \<le> 18"
  using mag_reply_len_le [of "p ! 0"]
  by (auto simp: good_inv_def good_remote_def good_reply_def MAG_INV_LEN_def MAG_REMOTE_LEN_def mag_reply_len_def
      split: if_splits)

text \<open>An incomplete packet waits; the first byte of an inverter packet behind a remote's ends the wait for a reply.\<close>

lemma step_incomplete:
  assumes f: "in_step m r f" and e: "expects m r (fstate f) ((t, p) # ps)" and buf: "prefix (buf f) p" "buf f \<noteq> p"
  shows "advance f = None \<or> fstate f = ST_AFTER_REMOTE \<and> t = MAG_PKT_INVERTER \<and> advance f = Some (f\<lparr>fstate := ST_HUNT\<rparr>)"
proof -
  obtain xs where p: "p = buf f @ xs" "xs \<noteq> []" using buf by (auto simp: prefix_def)
  then have len: "length (buf f) < length p" by simp
  have nth: "buf f ! 0 = p ! 0" if "buf f \<noteq> []" using p that by (simp add: nth_append)
  from e show ?thesis
  proof (cases rule: expects_packet)
    case inv
    then have "length (buf f) < 21" using len good_length(1) by metis
    moreover have "mag_reply_len (p ! 0) = 0" using inv by (simp add: good_inv_def)
    ultimately show ?thesis
      using inv nth by (cases "buf f = []")
        (auto simp: advance_def frame_step_def hunt_def after_remote_def MAG_INV_LEN_def Let_def)
  next
    case rem
    then have "length (buf f) < 21" using len good_length(2) by metis
    then show ?thesis using rem by (simp add: advance_def frame_step_def after_inv_def MAG_REMOTE_LEN_def Let_def)
  next
    case reply
    then have "mag_reply_len (p ! 0) = length p" "2 \<le> length p" using good_length(3) [OF reply(3)] by auto
    then show ?thesis
      using reply len nth by (cases "buf f = []") (auto simp: advance_def frame_step_def after_remote_def Let_def)
  qed
qed

lemma step_complete:
  assumes f: "in_step m r f" and e: "expects m r (fstate f) ((t, p) # ps)" and buf: "prefix p (buf f)"
  shows "fstate f = ST_AFTER_REMOTE \<and> t = MAG_PKT_INVERTER \<and> advance f = Some (f\<lparr>fstate := ST_HUNT\<rparr>) \<or>
    (\<exists>g q. frame_step f = (Used (length p), g) \<and> 0 < length p \<and> takes m r f (t, p) q g \<and> expects m r q ps \<and>
       (since_inv g = 0 \<or> since_inv g = since_inv f \<and> since_base (fstate f) + length p \<le> since_base q))"
proof -
  obtain xs where b: "buf f = p @ xs" using buf by (auto simp: prefix_def)
  from e show ?thesis
  proof (cases rule: expects_packet)
    case inv
    show ?thesis
    proof (cases "fstate f = ST_HUNT")
      case True
      then show ?thesis using hunt_takes [OF f _ inv(3) b] inv good_length(1) [OF inv(3)] by auto
    next
      case False
      then have "p ! 0 = buf f ! 0" "mag_reply_len (p ! 0) = 0" "buf f \<noteq> []"
        using inv good_length(1) [OF inv(3)] by (auto simp: b nth_append good_inv_def)
      then show ?thesis using inv False by (simp add: advance_def frame_step_def after_remote_def Let_def)
    qed
  next
    case rem
    then obtain g where "frame_step f = (Used (length p), g)" "takes m r f (t, p) ST_AFTER_REMOTE g" "since_inv g = since_inv f"
      using remote_takes [OF f rem(1,3) b] by blast
    moreover have "since_base (fstate f) + length p \<le> since_base ST_AFTER_REMOTE" "0 < length p"
      using rem good_length(2) [OF rem(3)] by (simp_all add: since_base_def)
    ultimately show ?thesis using rem(4) by blast
  next
    case reply
    then obtain g where "frame_step f = (Used (length p), g)" "takes m r f (t, p) ST_HUNT g" "since_inv g = since_inv f"
      using reply_takes [OF f reply(1,3) b] by blast
    moreover have "since_base (fstate f) + length p \<le> since_base ST_HUNT" "0 < length p"
      using reply good_length(3) [OF reply(3)] by (simp_all add: since_base_def)
    ultimately show ?thesis using reply(4) by blast
  qed
qed

lemma advance_follows:
  assumes "follows m r ps rest f" and "advance f = Some g"
  shows "follows m r ps rest g \<and> last_rx g = last_rx f"
proof -
  obtain ps2 where f: "in_step m r f" "unat (since_inv f) \<le> since_base (fstate f) + length (buf f)"
    "ps = delivered f @ ps2" "expects m r (fstate f) ps2" "buf f @ rest = bytes_of ps2" "probed_once m r f"
    using assms(1) by (auto simp: follows_def)
  show ?thesis
  proof (cases ps2)
    case Nil
    then have "buf f = []" using f(5) by simp
    then have "advance f = None \<or> False"
      by (cases "fstate f") (simp_all add: advance_def frame_step_def hunt_def after_inv_def after_remote_def
          MAG_INV_LEN_def MAG_REMOTE_LEN_def)
    then show ?thesis using assms(2) by simp
  next
    case (Cons x ps3)
    obtain t p where x: "x = (t, p)" by fastforce
    have e: "expects m r (fstate f) ((t, p) # ps3)" and b: "buf f @ rest = p @ bytes_of ps3"
      using f(4,5) by (simp_all add: Cons x)
    have hunt: ?thesis if "fstate f = ST_AFTER_REMOTE" "t = MAG_PKT_INVERTER" "advance f = Some (f\<lparr>fstate := ST_HUNT\<rparr>)"
    proof -
      have g: "g = f\<lparr>fstate := ST_HUNT\<rparr>" using that(3) assms(2) by simp
      have "in_step m r g"
        using f(1) that(1) by (auto simp: g in_step_def fresh_def probed_def known_def)
      moreover have "probed_once m r g"
      proof -
        have "probed m r f \<or> known m r f" using f(1) that(1) by (auto simp: in_step_def fresh_def)
        then have "\<not> fresh g" "probed m r g \<Longrightarrow> probed m r f" using that(1) by (auto simp: g fresh_def probed_def known_def)
        then show ?thesis using f(6) by (simp add: probed_once_def g)
      qed
      moreover have "expects m r ST_HUNT ps2" using e that(1,2) by (simp add: Cons x)
      ultimately show ?thesis
        using f that(1) by (simp add: g follows_def since_base_def)
    qed
    from b have "prefix p (buf f) \<or> prefix (buf f) p \<and> buf f \<noteq> p"
      by (metis append_eq_append_conv2 prefixI prefix_order.order_refl)
    then show ?thesis
    proof
      assume "prefix (buf f) p \<and> buf f \<noteq> p"
      then show ?thesis using step_incomplete [OF f(1) e] hunt assms(2) by auto
    next
      assume pre: "prefix p (buf f)"
      from step_complete [OF f(1) e this] show ?thesis
      proof
        assume "\<exists>h q. frame_step f = (Used (length p), h) \<and> 0 < length p \<and> takes m r f (t, p) q h \<and> expects m r q ps3 \<and>
          (since_inv h = 0 \<or> since_inv h = since_inv f \<and> since_base (fstate f) + length p \<le> since_base q)"
        then obtain h q where h: "frame_step f = (Used (length p), h)" "0 < length p" "takes m r f (t, p) q h"
          "expects m r q ps3" "since_inv h = 0 \<or> since_inv h = since_inv f \<and> since_base (fstate f) + length p \<le> since_base q"
          by blast
        then have g: "g = consume h (length p)" using assms(2) by (simp add: advance_def)
        obtain ys where ys: "buf f = p @ ys" using pre by (auto simp: prefix_def)
        have "in_step m r g" "fstate g = q" "buf g = ys" "delivered g = delivered f @ [(t, p)]"
          "last_rx g = last_rx f" "since_inv g = since_inv h"
          using h(3) ys by (auto simp: g takes_def consume_def in_step_def fresh_def probed_def known_def delivered_def)
        moreover have "probed_once m r g" using takes_once [OF f(1,6) h(3)] by (simp add: g consume_def)
        moreover have "unat (since_inv h) \<le> since_base q + length ys" using h(5) f(2) ys by auto
        moreover have "ys @ rest = bytes_of ps3" using b ys by simp
        ultimately show ?thesis using h(4) f(3) by (auto simp: follows_def Cons x)
      qed (use hunt in blast)
    qed
  qed
qed

lemma process_follows:
  assumes "follows m r ps rest f"
  shows "follows m r ps rest (process f) \<and> last_rx (process f) = last_rx f"
proof (rule process_inv)
  fix h g
  assume "follows m r ps rest h \<and> last_rx h = last_rx f" and "advance h = Some g"
  then show "follows m r ps rest g \<and> last_rx g = last_rx f" using advance_follows [of m r ps rest h g] by simp
qed (use assms in simp)

lemma follows_grow:
  assumes "follows m r ps (xs @ rest) f"
  shows "follows m r ps rest (f\<lparr>buf := buf f @ xs\<rparr>)"
proof -
  let ?g = "f\<lparr>buf := buf f @ xs\<rparr>"
  obtain ps2 where f: "in_step m r f" "unat (since_inv f) \<le> since_base (fstate f) + length (buf f)"
    "ps = delivered f @ ps2" "expects m r (fstate f) ps2" "buf f @ xs @ rest = bytes_of ps2" "probed_once m r f"
    using assms unfolding follows_def by blast
  have "in_step m r ?g" using f(1) by (simp add: in_step_def fresh_def probed_def known_def)
  moreover have "ps = delivered ?g @ ps2" "buf ?g @ rest = bytes_of ps2" using f(3,5) by simp_all
  moreover have "unat (since_inv ?g) \<le> since_base (fstate ?g) + length (buf ?g)" using f(2) by simp
  ultimately show ?thesis using f(4,6) unfolding follows_def by auto
qed

text \<open>When all has arrived nothing is left in the buffer.\<close>

lemma follows_done:
  assumes "follows m r ps [] f" and "advance f = None"
  shows "ps = delivered f \<and> buf f = []"
proof -
  obtain ps2 where f: "in_step m r f" "ps = delivered f @ ps2" "expects m r (fstate f) ps2" "buf f = bytes_of ps2"
    using assms(1) by (auto simp: follows_def)
  show ?thesis
  proof (cases ps2)
    case (Cons x ps3)
    obtain t p where x: "x = (t, p)" by fastforce
    have "prefix p (buf f)" using f(4) by (simp add: Cons x)
    then have "advance f \<noteq> None"
      using step_complete [OF f(1), of t p ps3] f(3) by (auto simp: Cons x advance_def)
    then show ?thesis using assms(2) by simp
  qed (use f in simp)
qed

subsection \<open>Feeding the bus\<close>

lemma feed_follows:
  assumes f: "follows m r ps (data @ rest) f" and buf: "length (buf f) \<le> 21" and n: "data \<noteq> []" "length data \<le> 1024"
  shows "\<exists>g. mag_frame_feed f data now = Some g \<and> follows m r ps rest g \<and> length (buf g) \<le> 21 \<and> advance g = None \<and>
    last_rx g = now"
proof -
  obtain ps2 where s: "in_step m r f" "probed_once m r f" "unat (since_inv f) \<le> since_base (fstate f) + length (buf f)"
    "ps = delivered f @ ps2" "expects m r (fstate f) ps2" "buf f @ data @ rest = bytes_of ps2"
    using f unfolding follows_def by blast
  define f0 where "f0 = feed_start f data now"
  define f1 where "f1 = f0\<lparr>buf := buf f0 @ data\<rparr>"
  have small: "unat (since_inv f) \<le> 60" using s(3) buf by (cases "fstate f") (simp_all add: since_base_def)
  have "unat (since_inv f) + length data < 2 ^ 64" using small n(2) by simp
  then have si: "unat (since_inv f + of_nat (length data)) = unat (since_inv f) + length data"
    using n(2) by (simp add: unat_add_lem [THEN iffD1] unat_of_nat take_bit_eq_mod)
  have no: "\<not> MAG_RELEARN_BYTES < since_inv f + of_nat (length data)"
    using si small n(2) by (simp add: MAG_RELEARN_BYTES_def word_less_nat_alt)
  have f0: "buf f0 = buf f" "fstate f0 = fstate f" "delivered f0 = delivered f" "in_step m r f0" "probed_once m r f0"
    "since_inv f0 = since_inv f + of_nat (length data)" "last_rx f0 = now" "have_id f0 = have_id f"
    using s(1,2) no
    by (simp_all add: f0_def feed_start_def Let_def delivered_def in_step_def probed_once_def fresh_def probed_def known_def)
  have "follows m r ps rest f1"
    using s f0 si no unfolding follows_def f1_def
    by (simp add: in_step_def fresh_def probed_def known_def)
  from process_follows [OF this] have p: "follows m r ps rest (process f1)" "last_rx (process f1) = now"
    using f0(7) by (simp_all add: f1_def)
  have "feed_loop f0 data = feed_loop (process f1) []"
    using n buf f0(1) by (subst feed_loop.simps) (simp add: Let_def f1_def MAG_BUF_SIZE_def)
  also have "\<dots> = Some (process f1)" by (subst feed_loop.simps) simp
  finally have "mag_frame_feed f data now = Some (process f1)" using n(1) by (simp add: mag_frame_feed_def f0_def)
  then show ?thesis using p advance_process [of f1] advance_None_length [OF advance_process, of f1] by blast
qed

fun feed_all :: "mag_frame \<Rightarrow> (byte list \<times> cdouble) list \<Rightarrow> mag_frame option" where
  "feed_all f [] = Some f"
| "feed_all f ((data, now) # cs) =
     (case mag_frame_feed f data now of None \<Rightarrow> None | Some g \<Rightarrow> feed_all g cs)"

lemma follows_init:
  assumes "expects m r ST_HUNT ps"
  shows "follows m r ps (bytes_of ps) (mag_frame_init True)"
  using assms
  by (auto simp: follows_def in_step_def fresh_def probed_once_def probed_def mag_frame_init_def delivered_def n_inverters_def)

lemma feed_all_follows:
  assumes "follows m r ps (concat (map fst cs) @ rest) f" and "length (buf f) \<le> 21"
    and "\<forall>c \<in> set cs. fst c \<noteq> [] \<and> length (fst c) \<le> 1024"
  shows "\<exists>g. feed_all f cs = Some g \<and> follows m r ps rest g \<and> length (buf g) \<le> 21 \<and> (cs \<noteq> [] \<longrightarrow> advance g = None)"
  using assms
proof (induction cs arbitrary: f)
  case (Cons c cs)
  obtain data now where c: "c = (data, now)" by fastforce
  obtain g where g: "mag_frame_feed f data now = Some g" "follows m r ps (concat (map fst cs) @ rest) g" "length (buf g) \<le> 21"
    "advance g = None"
    using feed_follows [of m r ps data "concat (map fst cs) @ rest" f now] Cons.prems by (auto simp: c)
  then obtain h where "feed_all g cs = Some h" "follows m r ps rest h" "length (buf h) \<le> 21" "cs \<noteq> [] \<longrightarrow> advance h = None"
    using Cons.IH [OF g(2,3)] Cons.prems(3) by auto
  then show ?case using g(1,4) by (cases cs) (auto simp: c)
qed simp

lemma follows_known:
  assumes "follows m r ps rest f" and "delivered f = ps" and "2 \<le> n_inverters ps"
  shows "held f = [] \<and> map (\<lambda>(t, p, tm). (t, p)) (calls f) = ps"
proof -
  have "known m r f" using assms by (auto simp: follows_def in_step_def probed_once_def)
  then show ?thesis using assms(2) by (simp add: known_def delivered_def)
qed

text \<open>
  A clean bus is delivered completely: in whatever pieces the bytes of its packets arrive, a fresh
  framer hands on exactly these packets, in order and with their types, and keeps nothing back.
\<close>

theorem mag_clean_bus_delivered:
  assumes bus: "expects m r ST_HUNT ps" and two: "2 \<le> n_inverters ps"
    and pieces: "concat (map fst cs) = bytes_of ps" and sizes: "\<forall>c \<in> set cs. fst c \<noteq> [] \<and> length (fst c) \<le> 1024"
  shows "\<exists>g. feed_all (mag_frame_init True) cs = Some g \<and> map (\<lambda>(t, p, tm). (t, p)) (calls g) = ps \<and>
    held g = [] \<and> buf g = []"
proof -
  have "ps \<noteq> []" using two by (auto simp: n_inverters_def)
  then have "bytes_of ps \<noteq> []" using bus by (cases ps) (auto simp: good_inv_def MAG_INV_LEN_def)
  then have ne: "cs \<noteq> []" using pieces by (metis concat.simps(1) list.map(1))
  have "length (buf (mag_frame_init True)) \<le> 21" by (simp add: mag_frame_init_def)
  then obtain g where g: "feed_all (mag_frame_init True) cs = Some g" "follows m r ps [] g" "advance g = None"
    using feed_all_follows [of m r ps cs "[]" "mag_frame_init True"] follows_init [OF bus] pieces sizes ne by auto
  have d: "ps = delivered g" "buf g = []" using follows_done [OF g(2,3)] by blast+
  then show ?thesis using g(1) follows_known [OF g(2) d(1) [symmetric] two] by blast
qed

subsection \<open>A sample bus\<close>

definition sample_packets :: "packet list" where
  "sample_packets = [(MAG_PKT_INVERTER, sample_inv), (MAG_PKT_REMOTE, sample_rem), (MAG_PKT_BMK_81, sample_bmk),
     (MAG_PKT_INVERTER, sample_inv), (MAG_PKT_REMOTE, sample_rem)]"

theorem mag_clean_bus_delivered_witness:
  "\<exists>g. feed_all (mag_frame_init True) [(take 50 (bytes_of sample_packets), 1), (drop 50 (bytes_of sample_packets), 2)] = Some g \<and>
     map (\<lambda>(t, p, tm). (t, p)) (calls g) = sample_packets \<and> held g = [] \<and> buf g = []"
proof (rule mag_clean_bus_delivered [of "sample_inv ! 14" "sample_inv ! 10"])
  show "expects (sample_inv ! 14) (sample_inv ! 10) ST_HUNT sample_packets" by code_simp
  show "2 \<le> n_inverters sample_packets" by code_simp
  have "length bs = 102 \<Longrightarrow> \<forall>c \<in> set [(take 50 bs, 1 :: cdouble), (drop 50 bs, 2)].
      fst c \<noteq> [] \<and> length (fst c) \<le> 1024" for bs :: "byte list" by auto
  moreover have "length (bytes_of sample_packets) = 102" by code_simp
  ultimately show "\<forall>c \<in> set [(take 50 (bytes_of sample_packets), 1 :: cdouble), (drop 50 (bytes_of sample_packets), 2)].
      fst c \<noteq> [] \<and> length (fst c) \<le> 1024" by blast
qed simp

end
