(* ===== verification/MagServe.thy ===== *)
theory MagServe
  imports MagTap MagBus
begin

section \<open>From the bus to the decoded inverter\<close>

text \<open>
  The driver, the framer and the decoder together: the steps of a tap on a clean bus, reading it in
  any pieces, leave the values of the last inverter packet in the state the reading is built from.
\<close>

subsection \<open>The framer only appends calls\<close>

lemma calls_upd [simp]:
  "calls (add_bad f) = calls f" "calls (f\<lparr>since_inv := k, synced := b\<rparr>) = calls f"
  "has_fn (add_bad f) = has_fn f"
  by (simp_all add: add_bad_def)

lemma emit_calls: "has_fn f \<Longrightarrow> prefix (calls f) (calls (emit f t p)) \<and> has_fn (emit f t p)"
  by (auto simp: emit_def)

lemma skip_calls: "has_fn f \<Longrightarrow> prefix (calls f) (calls (skip f n)) \<and> has_fn (skip f n)"
  by (auto simp: skip_def Let_def)

lemma hunt_learn_calls: "has_fn f \<Longrightarrow> prefix (calls f) (calls (hunt_learn f)) \<and> has_fn (hunt_learn f)"
  by (auto simp: hunt_learn_def)

lemma frame_step_calls:
  assumes "has_fn f" and "frame_step f = (u, g)"
  shows "prefix (calls f) (calls g) \<and> has_fn g"
proof (cases "fstate f")
  case ST_HUNT
  define h where "h = (hunt_learn f)\<lparr>since_inv := 0, synced := True\<rparr>"
  have h: "prefix (calls f) (calls h) \<and> has_fn h" using hunt_learn_calls [OF assms(1)] by (simp add: h_def)
  then have "prefix (calls f) (calls (emit h t p)) \<and> has_fn (emit h t p)" for t p
    using emit_calls [of h t p] prefix_order.order_trans by blast
  then show ?thesis
    using assms ST_HUNT skip_calls [OF assms(1)]
    by (auto simp: frame_step_def hunt_def Let_def h_def [symmetric] split: if_splits)
next
  case ST_AFTER_INV
  then show ?thesis
    using assms emit_calls [OF assms(1)]
    by (auto simp: frame_step_def after_inv_def after_inv_packet_def Let_def split: if_splits)
next
  case ST_AFTER_REMOTE
  then show ?thesis
    using assms emit_calls [of "f\<lparr>fstate := ST_HUNT\<rparr>"]
    by (auto simp: frame_step_def after_remote_def Let_def split: if_splits)
qed

lemma feed_calls:
  assumes "has_fn f" and "length (buf f) < MAG_BUF_SIZE" and "mag_frame_feed f data now = Some g"
  shows "prefix (calls f) (calls g)"
proof -
  have "prefix (calls f) (calls g) \<and> has_fn g"
  proof (rule mag_frame_feed_rule [OF assms(2,3)])
    fix h k assume h: "prefix (calls f) (calls h) \<and> has_fn h" and "advance h = Some k"
    then obtain u h' where s: "frame_step h = (u, h')" "calls k = calls h'" "has_fn k = has_fn h'"
      by (auto simp: advance_def consume_def split: prod.splits used.splits if_splits)
    then show "prefix (calls f) (calls k) \<and> has_fn k"
      using frame_step_calls [of h u h'] h prefix_order.order_trans by metis
  qed (use assms(1) in auto)
  then show ?thesis ..
qed

subsection \<open>One step of the driver\<close>

definition decoded :: "mag_ctx \<Rightarrow> bool" where
  "decoded c \<longleftrightarrow> mc_st c = foldl on_packet mag_state_init (calls (mc_fr c))"

lemma idle_fresh: "last_rx f = now \<Longrightarrow> mag_frame_idle f now = f"
  by (simp add: mag_frame_idle_def MAG_PROBE_S_def MAG_IDLE_S_def)

lemma step_follows:
  assumes f: "follows m r ps (data @ rest) (mc_fr c)" and buf: "length (buf (mc_fr c)) \<le> 21"
    and n: "data \<noteq> []" "length data \<le> 1024"
    and c: "decoded c" "mc_fd c \<noteq> None" and e: "me_reads e = [Rx data]"
  shows "\<exists>res c' evs. mag_step pr c e = Some (res, c', evs) \<and> follows m r ps rest (mc_fr c') \<and> length (buf (mc_fr c')) \<le> 21 \<and>
    advance (mc_fr c') = None \<and> decoded c' \<and> mc_fd c' \<noteq> None"
proof -
  obtain g where g: "mag_frame_feed (mc_fr c) data (me_now e) = Some g" "follows m r ps rest g" "length (buf g) \<le> 21"
    "advance g = None" "last_rx g = me_now e"
    using feed_follows [OF f buf n] by blast
  let ?c = "take_frame (c\<lparr>mc_last_rx := me_now e\<rparr>) g"
  have "drain ?c (me_now e) [] (length data) = Some (True, ?c)" by (subst drain.simps) simp
  then have "drain c (me_now e) [Rx data] 0 = Some (True, ?c)"
    using n g(1) by (subst drain.simps) (simp add: DRAIN_MAX_def)
  then have i: "mag_input c e = Some (?c, [])" using c(2) e by (auto simp: mag_input_def)
  obtain res c2 where o: "mag_output pr ?c (me_now e) = (res, c2)" by fastforce
  have "take_frame ?c (mag_frame_idle (mc_fr ?c) (me_now e)) = ?c"
    using idle_fresh [OF g(5)] by (simp add: take_frame_def)
  with mag_output_cases [OF o] idle_fresh [OF g(5)] have "mc_fr c2 = g" "mc_st c2 = mc_st ?c" "mc_fd c2 = mc_fd c" by simp_all
  moreover have "has_fn (mc_fr c)" using f by (auto simp: follows_def in_step_def)
  then have "prefix (calls (mc_fr c)) (calls g)" using feed_calls [OF _ _ g(1)] buf by (simp add: MAG_BUF_SIZE_def)
  then obtain new where "calls g = calls (mc_fr c) @ new" by (auto simp: prefix_def)
  then have "mc_st ?c = foldl on_packet mag_state_init (calls g)" using c(1) by (simp add: take_frame_def decoded_def)
  ultimately show ?thesis using g c(2) i o by (simp add: mag_step_def decoded_def)
qed

lemma run_follows:
  assumes "follows m r ps (concat bss) (mc_fr c)" and "length (buf (mc_fr c)) \<le> 21"
    and "decoded c" and "mc_fd c \<noteq> None"
    and "map me_reads es = map (\<lambda>bs. [Rx bs]) bss" and "\<forall>bs \<in> set bss. bs \<noteq> [] \<and> length bs \<le> 1024"
  shows "\<exists>c' evs. mag_run pr c (map MStep es) = Some (c', evs) \<and> follows m r ps [] (mc_fr c') \<and>
    (es \<noteq> [] \<longrightarrow> advance (mc_fr c') = None) \<and> decoded c'"
  using assms
proof (induction es arbitrary: c bss)
  case (Cons e es)
  obtain bs bss' where b: "bss = bs # bss'" "me_reads e = [Rx bs]" "map me_reads es = map (\<lambda>bs. [Rx bs]) bss'"
    using Cons.prems(5) by (cases bss) auto
  obtain res c1 evs where s: "mag_step pr c e = Some (res, c1, evs)" "follows m r ps (concat bss') (mc_fr c1)"
    "length (buf (mc_fr c1)) \<le> 21" "advance (mc_fr c1) = None" "decoded c1" "mc_fd c1 \<noteq> None"
    using step_follows [of m r ps bs "concat bss'" c e pr] Cons.prems b by auto
  obtain c2 evs2 where "mag_run pr c1 (map MStep es) = Some (c2, evs2)" "follows m r ps [] (mc_fr c2)"
    "es \<noteq> [] \<longrightarrow> advance (mc_fr c2) = None" "decoded c2"
    using Cons.IH [OF s(2,3,5,6) b(3)] Cons.prems(6) b(1) by auto
  then show ?case using s(1,4) by (cases "es = []") auto
qed simp

subsection \<open>What the decoder keeps of a bus\<close>

definition shows_inverter :: "mag_inverter \<Rightarrow> byte list \<Rightarrow> bool" where
  "shows_inverter v p \<longleftrightarrow> iv_seen v \<and> iv_mode v = ub p 0 \<and> iv_fault v = ub p 1 \<and>
     iv_dc_voltage_v v = of_int (s16_at p 2) / 10 \<and> iv_dc_current_a v = of_int (s16_at p 4) \<and>
     iv_ac_out_v v = ub p 6 \<and> iv_ac_in_v v = ub p 7 \<and> iv_model v = ub p 14 \<and> iv_stackmode v = ub p 15 \<and>
     iv_freq_hz v = of_int (s16_at p 18) / 10"

definition last_inverter :: "packet list \<Rightarrow> byte list" where
  "last_inverter ps = snd (last (filter (\<lambda>x. fst x = MAG_PKT_INVERTER) ps))"

lemma on_packet_shows:
  assumes "length p = MAG_INV_LEN" and "ms_stack_locked s \<longrightarrow> ms_stack_lock s = ub p 15"
  shows "shows_inverter (ms_inv (on_packet s (MAG_PKT_INVERTER, p, tm))) p \<and>
    ms_stack_locked (on_packet s (MAG_PKT_INVERTER, p, tm)) \<and> ms_stack_lock (on_packet s (MAG_PKT_INVERTER, p, tm)) = ub p 15"
  using assms by (auto simp: on_packet_def mag_decode_def decode_inverter_def Let_def shows_inverter_def)

lemma on_packet_inv_kept:
  "t \<noteq> MAG_PKT_INVERTER \<Longrightarrow> ms_inv (on_packet s (t, p, tm)) = ms_inv s \<and>
     ms_stack_locked (on_packet s (t, p, tm)) = ms_stack_locked s \<and> ms_stack_lock (on_packet s (t, p, tm)) = ms_stack_lock s"
  by (cases t) (simp_all add: on_packet_def mag_decode_def)

lemma foldl_shows:
  assumes "\<forall>(t, p, tm) \<in> set cs. t = MAG_PKT_INVERTER \<longrightarrow> length p = MAG_INV_LEN \<and> ub p 15 = role"
  shows "(let s = foldl on_packet mag_state_init cs in
     (ms_stack_locked s \<longrightarrow> ms_stack_lock s = role) \<and>
     (n_calls MAG_PKT_INVERTER cs \<noteq> 0 \<longrightarrow>
        shows_inverter (ms_inv s) (last_inverter (map (\<lambda>(t, p, tm). (t, p)) cs))))"
  using assms
proof (induction cs rule: rev_induct)
  case Nil
  then show ?case by (simp add: mag_state_init_def)
next
  case (snoc c cs)
  obtain t p tm where c: "c = (t, p, tm)" by (cases c) auto
  let ?s = "foldl on_packet mag_state_init cs"
  have ih: "ms_stack_locked ?s \<longrightarrow> ms_stack_lock ?s = role"
    "n_calls MAG_PKT_INVERTER cs \<noteq> 0 \<longrightarrow> shows_inverter (ms_inv ?s) (last_inverter (map (\<lambda>(t, p, tm). (t, p)) cs))"
    using snoc by (simp_all add: Let_def)
  show ?case
  proof (cases "t = MAG_PKT_INVERTER")
    case True
    then have "length p = MAG_INV_LEN" "ub p 15 = role" using snoc.prems by (auto simp: c)
    then show ?thesis using on_packet_shows [of p ?s tm] ih(1) True by (simp add: c Let_def last_inverter_def)
  next
    case False
    then show ?thesis using on_packet_inv_kept [of t ?s p tm] ih by (simp add: c Let_def last_inverter_def)
  qed
qed

lemma expects_inverters: "expects m r q ps \<Longrightarrow> (MAG_PKT_INVERTER, p) \<in> set ps \<Longrightarrow> good_inv m r p"
proof (induction m r q ps rule: expects.induct)
  case (4 m r t p' ps)
  have "reply_type (p' ! 0) \<noteq> MAG_PKT_INVERTER" using reply_type_cases [of "p' ! 0"] by (auto simp: reply_type_def)
  then show ?case using 4 by (auto split: if_splits)
qed auto

text \<open>
  A tap whose port is open, and whose framer is fresh, reads a clean bus in any pieces, one per step.
  Afterwards the state its reading is built from shows the last inverter packet that was on the bus:
  mode, fault, battery voltage and current, output and input voltage, model, stack role and frequency.
\<close>

theorem mag_bus_decoded:
  assumes ctx: "mc_fr c = mag_frame_init True" "mc_st c = mag_state_init" "mc_fd c \<noteq> None"
    and bus: "expects m r ST_HUNT ps" "2 \<le> n_inverters ps"
    and role: "\<forall>(t, p) \<in> set ps. t = MAG_PKT_INVERTER \<longrightarrow> ub p 15 = role"
    and reads: "map me_reads es = map (\<lambda>bs. [Rx bs]) bss" "concat bss = bytes_of ps"
      "\<forall>bs \<in> set bss. bs \<noteq> [] \<and> length bs \<le> 1024"
  shows "\<exists>c' evs. mag_run pr c (map MStep es) = Some (c', evs) \<and>
    shows_inverter (ms_inv (mc_st c')) (last_inverter ps) \<and> buf (mc_fr c') = []"
proof -
  have "ps \<noteq> []" using bus(2) by (auto simp: n_inverters_def)
  then have "bytes_of ps \<noteq> []" using bus(1) by (cases ps) (auto simp: good_inv_def MAG_INV_LEN_def)
  then have "bss \<noteq> []" using reads(2) by (metis concat.simps(1))
  then have ne: "es \<noteq> []" using reads(1) by auto
  have start: "follows m r ps (concat bss) (mc_fr c)" "length (buf (mc_fr c)) \<le> 21" "decoded c"
    using follows_init [OF bus(1)] ctx reads(2) by (simp_all add: decoded_def mag_frame_init_def)
  obtain c' evs where r: "mag_run pr c (map MStep es) = Some (c', evs)" "follows m r ps [] (mc_fr c')"
    "advance (mc_fr c') = None" "decoded c'"
    using run_follows [OF start ctx(3) reads(1,3), of pr] ne by blast
  have d: "delivered (mc_fr c') = ps" "buf (mc_fr c') = []" using follows_done [OF r(2,3)] by auto
  have cs: "map (\<lambda>(t, p, tm). (t, p)) (calls (mc_fr c')) = ps" using follows_known [OF r(2) d(1) bus(2)] by blast
  have n: "n_calls MAG_PKT_INVERTER cs = n_inverters (map (\<lambda>(t, p, tm). (t, p)) cs)" for cs
    by (induction cs) (auto simp: n_inverters_def)
  have "\<forall>(t, p, tm) \<in> set (calls (mc_fr c')). t = MAG_PKT_INVERTER \<longrightarrow> length p = MAG_INV_LEN \<and> ub p 15 = role"
  proof clarify
    fix t p tm assume "(MAG_PKT_INVERTER, p, tm) \<in> set (calls (mc_fr c'))"
    then have "(MAG_PKT_INVERTER, p) \<in> set ps" using cs by force
    then show "length p = MAG_INV_LEN \<and> ub p 15 = role" using expects_inverters [OF bus(1)] role by (auto simp: good_inv_def)
  qed
  from foldl_shows [OF this] have "shows_inverter (ms_inv (mc_st c')) (last_inverter ps)"
    using r(4) bus(2) n [of "calls (mc_fr c')"] cs by (simp add: decoded_def Let_def)
  then show ?thesis using r(1) d(2) by blast
qed

subsection \<open>A sample tap\<close>

text \<open>A module on the adapter \<open>by-id/x\<close>, its port opened as descriptor 5 at second 1; then the sample bus in two reads.\<close>

definition tap_spec :: json where
  "tap_spec = JObject [(''usb'', JObject [(''path'', JString ''/dev/serial/by-id/x'')]),
     (''magnum'', JObject [(''tap'', JString ''main'')])]"

definition tap_env :: "cdouble \<Rightarrow> tty_read list \<Rightarrow> mag_env" where
  "tap_env now rs = \<lparr>me_now = now, me_exists = (\<lambda>_. True), me_realpath = (\<lambda>_. Some ''/dev/ttyUSB0''),
     me_strerror = [], me_fs = \<lparr>fs_by_id = None, fs_device = (\<lambda>_. False), fs_serial = (\<lambda>_. None),
       fs_vendor = (\<lambda>_. None), fs_product = (\<lambda>_. None)\<rparr>, me_self_fds = None,
     me_tty = (\<lambda>_. \<lparr>ty_open = Some 5, ty_busy = False, ty_lock = True, ty_getattr = True, ty_setattr = True,
       ty_errno = []\<rparr>), me_reads = rs\<rparr>"

definition tap_open :: mag_ctx where
  "tap_open = (case mag_open (Some tap_spec) None of Inr c \<Rightarrow> c | Inl _ \<Rightarrow> mag_ctx_zero)"

definition tap_up :: mag_ctx where
  "tap_up = (case mag_run (\<lambda>_. ''{}'') tap_open [MStep (tap_env 1 [Rx_again])] of Some (c, _) \<Rightarrow> c | None \<Rightarrow> mag_ctx_zero)"

lemma tap_open_eq: "mag_open (Some tap_spec) None = Inr tap_open"
  by (simp add: tap_open_def tap_spec_def mag_open_def setting_str_def setting_item_def setting_bool_def opt_item_def
      c_copy_def mag_tty_path_unstable_def Let_def)

theorem mag_tap_safe_witness:
  "\<exists>c evs. mag_run (\<lambda>_. ''{}'') tap_open [MStep (tap_env 1 [Rx_again])] = Some (c, evs) \<and> mag_state_ok (mc_st c) \<and>
    ports_after [] evs = Some (case mc_fd c of None \<Rightarrow> [] | Some k \<Rightarrow> [k])"
  using mag_tap_safe [OF tap_open_eq, of "\<lambda>_. ''{}''" "[MStep (tap_env 1 [Rx_again])]" 9] by blast

lemma sample_bytes: "length (bytes_of sample_packets) = 102"
  by code_simp

theorem mag_bus_decoded_witness:
  "\<exists>c' evs. mag_run (\<lambda>_. ''{}'') (mag_ctx_zero\<lparr>mc_fd := Some 5\<rparr>)
       (map MStep [tap_env 2 [Rx (take 50 (bytes_of sample_packets))], tap_env 3 [Rx (drop 50 (bytes_of sample_packets))]]) =
     Some (c', evs) \<and> shows_inverter (ms_inv (mc_st c')) (last_inverter sample_packets) \<and> buf (mc_fr c') = []"
proof (rule mag_bus_decoded [of _ "sample_inv ! 14" "sample_inv ! 10" sample_packets 0 _
      "[take 50 (bytes_of sample_packets), drop 50 (bytes_of sample_packets)]"])
  show "expects (sample_inv ! 14) (sample_inv ! 10) ST_HUNT sample_packets" by code_simp
  show "2 \<le> n_inverters sample_packets" by code_simp
  show "\<forall>(t, p) \<in> set sample_packets. t = MAG_PKT_INVERTER \<longrightarrow> ub p 15 = 0"
    by (simp add: sample_packets_def sample_inv_def)
  have "length bs = 102 \<Longrightarrow> \<forall>x \<in> set [take 50 bs, drop 50 bs]. x \<noteq> [] \<and> length x \<le> 1024" for bs :: "byte list" by auto
  then show "\<forall>bs \<in> set [take 50 (bytes_of sample_packets), drop 50 (bytes_of sample_packets)]. bs \<noteq> [] \<and> length bs \<le> 1024"
    using sample_bytes by blast
qed (simp_all add: mag_ctx_zero_def tap_env_def)

definition tap_heard :: mag_env where
  "tap_heard = tap_env 2 [Rx (bytes_of sample_packets)]"

lemma tap_offers:
  "map_option (\<lambda>(c, evs). mag_get_reading c 10) (mag_run (\<lambda>_. ''{}'') tap_open [MStep (tap_env 1 [Rx_again]), MStep tap_heard]) =
     Some (MF_OK, Some ''{}'')"
  by code_simp

theorem mag_reading_recent_witness:
  "\<exists>c evs. mag_run (\<lambda>_. ''{}'') tap_open ([MStep (tap_env 1 [Rx_again])] @ [MStep tap_heard]) = Some (c, evs) \<and>
     iv_seen (ms_inv (mc_st c)) \<and> \<not> mc_stale_s c < XFin (2 - iv_t (ms_inv (mc_st c)))"
proof -
  obtain c evs where r: "mag_run (\<lambda>_. ''{}'') tap_open ([MStep (tap_env 1 [Rx_again])] @ [MStep tap_heard]) = Some (c, evs)"
    "mag_get_reading c 10 = (MF_OK, Some ''{}'')"
    using tap_offers by (auto simp del: mag_run.simps)
  have "me_now tap_heard = 2" by (simp add: tap_heard_def tap_env_def)
  then show ?thesis using mag_reading_recent [OF tap_open_eq r] r(1) by auto
qed

end
