(* ===== verification/JkProto.thy ===== *)
theory JkProto
  imports Doubles
begin

section \<open>JK BMS: commands, clamps and assembler (src/jk/jk_proto.c)\<close>

text \<open>
  The command frames written to a JK BMS, the clamps that bound every voltage the daemon writes,
  and the assembler that cuts 300-byte response frames out of BLE notification chunks. The static
  command buffer that \<open>jk_build_command\<close> returns is the returned list; a payload of \<open>None\<close> is a
  null pointer. The assembler's array with its length is the list of its valid bytes.
\<close>

definition JK_FRAME_SIZE :: nat where "JK_FRAME_SIZE = 300"
definition JK_CMD_FRAME_SIZE :: nat where "JK_CMD_FRAME_SIZE = 20"
definition JK_CMD_CRC_OFFSET :: nat where "JK_CMD_CRC_OFFSET = 19"
definition JK_CELL_CRC_OFFSET :: nat where "JK_CELL_CRC_OFFSET = 299"
definition JK_HEADER_RSP :: "byte list" where "JK_HEADER_RSP = [0x55, 0xAA, 0xEB, 0x90]"
definition JK_HEADER_CMD :: "byte list" where "JK_HEADER_CMD = [0xAA, 0x55, 0x90, 0xEB]"
definition AT_JUNK :: "byte list" where "AT_JUNK = [0x41, 0x54, 0x0D, 0x0A]"
definition JK_FRAME_SETTINGS :: byte where "JK_FRAME_SETTINGS = 0x01"
definition JK_FRAME_CELL_INFO :: byte where "JK_FRAME_CELL_INFO = 0x02"
definition JK_FRAME_DEVICE_INFO :: byte where "JK_FRAME_DEVICE_INFO = 0x03"

definition JK_TRIGGER_MIN_V :: cdouble where "JK_TRIGGER_MIN_V = 3/1000"
definition JK_TRIGGER_MAX_V :: cdouble where "JK_TRIGGER_MAX_V = 1"
definition JK_START_MIN_V :: cdouble where "JK_START_MIN_V = 120/100"
definition JK_START_MAX_V :: cdouble where "JK_START_MAX_V = 425/100"
definition JK_OVP_MIN_V :: cdouble where "JK_OVP_MIN_V = 250/100"
definition JK_OVP_MAX_V :: cdouble where "JK_OVP_MAX_V = 420/100"
definition JK_OVPR_GAP_V :: cdouble where "JK_OVPR_GAP_V = 10/100"

subsection \<open>Checksum and command frames\<close>

definition jk_crc8 :: "byte list \<Rightarrow> byte" where
  "jk_crc8 data = foldl (+) 0 data"

lemma foldl_add_word: "foldl (+) (a :: 'a::len word) xs = a + sum_list xs"
  by (induction xs arbitrary: a) (auto simp: add.assoc)

lemma jk_crc8_sum: "jk_crc8 data = sum_list data"
  by (simp add: jk_crc8_def foldl_add_word)

definition write_at :: "byte list \<Rightarrow> nat \<Rightarrow> byte list \<Rightarrow> byte list" where
  "write_at xs i ys = take i xs @ ys @ drop (i + length ys) xs"

definition jk_build_command :: "byte \<Rightarrow> byte list option \<Rightarrow> byte \<Rightarrow> byte list" where
  "jk_build_command cmd value counter =
     (let f = write_at (replicate JK_CMD_FRAME_SIZE 0) 0 JK_HEADER_CMD;
          f = f[4 := cmd];
          f = f[5 := of_nat (case value of None \<Rightarrow> 0 | Some v \<Rightarrow> length v)];
          f = (case value of
                 Some v \<Rightarrow> if v \<noteq> [] then write_at f 6 (take 13 v) else f[16 := counter]
               | None \<Rightarrow> f[16 := counter])
      in f[JK_CMD_CRC_OFFSET := jk_crc8 (take JK_CMD_CRC_OFFSET f)])"

definition jk_build_switch_cmd :: "byte \<Rightarrow> bool \<Rightarrow> byte list" where
  "jk_build_switch_cmd reg on = jk_build_command reg (Some [if on then 1 else 0, 0, 0, 0]) 0"

definition jk_build_register_cmd :: "byte \<Rightarrow> u32 \<Rightarrow> byte list" where
  "jk_build_register_cmd reg v =
     jk_build_command reg
       (Some [ucast v, ucast (drop_bit 8 v), ucast (drop_bit 16 v), ucast (drop_bit 24 v)]) 0"

text \<open>What a command frame must satisfy for the BMS to accept it.\<close>

definition jk_cmd_ok :: "byte list \<Rightarrow> bool" where
  "jk_cmd_ok f \<longleftrightarrow> length f = JK_CMD_FRAME_SIZE \<and> take 4 f = JK_HEADER_CMD \<and>
     f ! JK_CMD_CRC_OFFSET = sum_list (take JK_CMD_CRC_OFFSET f)"

lemma length_write_at [simp]: "i + length ys \<le> length xs \<Longrightarrow> length (write_at xs i ys) = length xs"
  by (simp add: write_at_def)

lemma take_write_at [simp]: "n \<le> i \<Longrightarrow> i \<le> length xs \<Longrightarrow> take n (write_at xs i ys) = take n xs"
  by (simp add: write_at_def)

lemma nth_write_at:
  assumes "i + length ys \<le> length xs"
  shows "write_at xs i ys ! k = (if k < i then xs ! k else if k < i + length ys then ys ! (k - i) else xs ! k)"
  using assms by (auto simp: write_at_def nth_append)

lemma jk_cmd_ok_build: "jk_cmd_ok (jk_build_command cmd value counter)"
proof -
  define f where "f = (let f = (write_at (replicate JK_CMD_FRAME_SIZE 0) 0 JK_HEADER_CMD)[4 := cmd];
          f = f[5 := of_nat (case value of None \<Rightarrow> 0 | Some v \<Rightarrow> length v)]
      in (case value of
                 Some v \<Rightarrow> if v \<noteq> [] then write_at f 6 (take 13 v) else f[16 := counter]
               | None \<Rightarrow> f[16 := counter]))"
  have len: "length f = 20" and hd: "take 4 f = JK_HEADER_CMD"
    by (auto simp: f_def Let_def JK_CMD_FRAME_SIZE_def JK_HEADER_CMD_def write_at_def split: option.splits)
  have b: "jk_build_command cmd value counter = f[JK_CMD_CRC_OFFSET := jk_crc8 (take JK_CMD_CRC_OFFSET f)]"
    by (simp add: jk_build_command_def f_def Let_def)
  show ?thesis
    using len hd by (simp add: b jk_cmd_ok_def jk_crc8_sum JK_CMD_FRAME_SIZE_def JK_CMD_CRC_OFFSET_def)
qed

lemma jk_build_command_payload:
  assumes "v \<noteq> []" and "length v \<le> 13"
  shows "jk_build_command cmd (Some v) counter ! 4 = cmd"
    and "unat (jk_build_command cmd (Some v) counter ! 5) = length v"
    and "take (length v) (drop 6 (jk_build_command cmd (Some v) counter)) = v"
proof -
  have lb: "length (of_nat (length v) # v) \<le> 14" using assms by simp
  show "jk_build_command cmd (Some v) counter ! 4 = cmd"
    using assms by (simp add: jk_build_command_def Let_def nth_list_update nth_write_at
        JK_CMD_FRAME_SIZE_def JK_HEADER_CMD_def JK_CMD_CRC_OFFSET_def)
  have "length v < 256" using assms by simp
  then show "unat (jk_build_command cmd (Some v) counter ! 5) = length v"
    using assms by (simp add: jk_build_command_def Let_def nth_list_update nth_write_at
        JK_CMD_FRAME_SIZE_def JK_HEADER_CMD_def JK_CMD_CRC_OFFSET_def unat_of_nat)
  show "take (length v) (drop 6 (jk_build_command cmd (Some v) counter)) = v"
    using assms by (intro nth_equalityI)
      (auto simp: jk_build_command_def Let_def nth_list_update nth_write_at
        JK_CMD_FRAME_SIZE_def JK_HEADER_CMD_def JK_CMD_CRC_OFFSET_def)
qed

lemma le32_bytes: "le32 (ucast v) (ucast (drop_bit 8 v)) (ucast (drop_bit 16 v)) (ucast (drop_bit 24 v)) = (v :: u32)"
proof (rule bit_word_eqI)
  fix n assume n: "n < LENGTH(32)"
  then show "bit (le32 (ucast v) (ucast (drop_bit 8 v)) (ucast (drop_bit 16 v)) (ucast (drop_bit 24 v))) n = bit v n"
    by (cases "n < 8"; cases "n < 16"; cases "n < 24") (auto simp: le32_def bit_simps)
qed

text \<open>
  A register write is a frame the BMS accepts (20 bytes, command header, checksum byte equal to the
  sum of the others) from which it reads back exactly the register and the 32-bit value.
\<close>

theorem jk_register_cmd_roundtrip:
  "jk_cmd_ok (jk_build_register_cmd reg v) \<and> jk_build_register_cmd reg v ! 4 = reg \<and>
   jk_build_register_cmd reg v ! 5 = 4 \<and>
   le32 (jk_build_register_cmd reg v ! 6) (jk_build_register_cmd reg v ! 7)
        (jk_build_register_cmd reg v ! 8) (jk_build_register_cmd reg v ! 9) = v"
proof -
  let ?v = "[ucast v, ucast (drop_bit 8 v), ucast (drop_bit 16 v), ucast (drop_bit 24 v)] :: byte list"
  let ?f = "jk_build_register_cmd reg v"
  have p: "?f ! 4 = reg" "unat (?f ! 5) = 4" "take 4 (drop 6 ?f) = ?v"
    using jk_build_command_payload [of ?v reg 0]
    by (simp_all add: jk_build_register_cmd_def eval_nat_numeral)
  have len: "length ?f = 20"
    using jk_cmd_ok_build [of reg "Some ?v" 0]
    by (simp add: jk_build_register_cmd_def jk_cmd_ok_def JK_CMD_FRAME_SIZE_def)
  have "?f ! (6 + k) = take 4 (drop 6 ?f) ! k" if "k < 4" for k
    using that len by simp
  then have "?f ! (6 + k) = ?v ! k" if "k < 4" for k
    using that unfolding p(3) by blast
  from this [of 0] this [of 1] this [of 2] this [of 3]
  have "le32 (?f ! 6) (?f ! 7) (?f ! 8) (?f ! 9) = v" by (simp add: le32_bytes)
  moreover have "?f ! 5 = 4" by (simp only: word_unat_eq_iff p(2)) simp
  ultimately show ?thesis
    using p(1) jk_cmd_ok_build by (simp add: jk_build_register_cmd_def)
qed

subsection \<open>Clamps\<close>

text \<open>
  The voltage may come from a text and be no number: a NaN and an infinity stay what they are in the
  multiplication, and the cast to \<open>long\<close> makes them its least value, as it does with a number too large.
\<close>

definition to_milli :: "xdouble \<Rightarrow> xdouble" where
  "to_milli v =
     (case v of XFin x \<Rightarrow> XFin (if 0 \<le> x then x * 1000 + 1/2 else x * 1000 - 1/2) | _ \<Rightarrow> v)"

definition round3 :: "xdouble \<Rightarrow> cdouble" where
  "round3 v = of_int (c_long (to_milli v)) / 1000"

definition jk_clamp_trigger_v :: "xdouble \<Rightarrow> cdouble" where
  "jk_clamp_trigger_v volts =
     (let v = round3 volts in
      if v < JK_TRIGGER_MIN_V then JK_TRIGGER_MIN_V
      else if JK_TRIGGER_MAX_V < v then JK_TRIGGER_MAX_V else v)"

definition jk_clamp_start_v :: "xdouble \<Rightarrow> cdouble" where
  "jk_clamp_start_v volts =
     (let v = round3 volts in
      if v < JK_START_MIN_V then JK_START_MIN_V else if JK_START_MAX_V < v then JK_START_MAX_V else v)"

definition jk_clamp_ovp_v :: "xdouble \<Rightarrow> cdouble" where
  "jk_clamp_ovp_v volts =
     (let v = round3 volts in
      if v < JK_OVP_MIN_V then JK_OVP_MIN_V else if JK_OVP_MAX_V < v then JK_OVP_MAX_V else v)"

definition jk_clamp_ovpr_v :: "xdouble \<Rightarrow> cdouble \<Rightarrow> cdouble" where
  "jk_clamp_ovpr_v volts ovp_v =
     (let ovp_v = jk_clamp_ovp_v (XFin ovp_v);
          cap = round3 (XFin (ovp_v - JK_OVPR_GAP_V));
          cap = (if cap < JK_OVP_MIN_V - JK_OVPR_GAP_V then JK_OVP_MIN_V - JK_OVPR_GAP_V else cap);
          v = round3 volts;
          v = (if cap < v then cap else v)
      in if v < 240/100 then 240/100 else v)"

definition jk_volts_to_mv :: "xdouble \<Rightarrow> u32" where
  "jk_volts_to_mv volts = (if XFin 0 \<le> volts then of_int (c_long (to_milli volts)) else 0)"

text \<open>A voltage on the millivolt grid: \<open>round3\<close> lands there and leaves such a voltage alone.\<close>

definition on_grid :: "cdouble \<Rightarrow> bool" where
  "on_grid v \<longleftrightarrow> v * 1000 \<in> \<int>"

lemma floor_half: "\<lfloor>rat_of_int z + 1/2\<rfloor> = z"
  by (simp add: floor_eq_iff)

lemma round3_grid [simp]: "on_grid (round3 v)"
  by (simp add: on_grid_def round3_def)

lemma c_trunc_bound: "\<bar>v\<bar> \<le> of_int z \<Longrightarrow> - z \<le> c_trunc v \<and> c_trunc v \<le> z" for v :: cdouble
proof -
  assume v: "\<bar>v\<bar> \<le> of_int z"
  have "- z \<le> \<lfloor>v\<rfloor>" "\<lfloor>v\<rfloor> \<le> z" "- z \<le> \<lfloor>- v\<rfloor>" "\<lfloor>- v\<rfloor> \<le> z"
    using v by (simp_all add: le_floor_iff floor_le_iff abs_le_iff)
  then show ?thesis by (simp add: c_trunc_def)
qed

text \<open>Volts of an ordinary size fit the cast.\<close>

lemma round3_fin:
  assumes "\<bar>v\<bar> \<le> 4294967"
  shows "round3 (XFin v) = of_int (c_trunc (if 0 \<le> v then v * 1000 + 1/2 else v * 1000 - 1/2)) / 1000"
proof -
  have "\<bar>if 0 \<le> v then v * 1000 + 1/2 else v * 1000 - 1/2\<bar> \<le> rat_of_int 5000000000"
    using assms by (auto simp: abs_le_iff)
  from c_trunc_bound [OF this] show ?thesis
    by (simp add: round3_def to_milli_def c_long_fin LONG_MIN_def LONG_MAX_def)
qed

lemma round3_id:
  assumes "on_grid v" and "\<bar>v\<bar> \<le> 4294967"
  shows "round3 (XFin v) = v"
proof -
  obtain z where z: "v = of_int z / 1000"
    using assms(1) unfolding on_grid_def Ints_def by (auto simp: field_simps)
  show ?thesis
  proof (cases "0 \<le> v")
    case True
    then have "round3 (XFin v) = of_int \<lfloor>v * 1000 + 1/2\<rfloor> / 1000"
      by (simp add: round3_fin [OF assms(2)] c_trunc_def)
    then show ?thesis using floor_half [of z] by (simp add: z)
  next
    case False
    have "\<lfloor>- (rat_of_int z - 1/2)\<rfloor> = - z" using floor_half [of "- z"] by (simp add: algebra_simps)
    moreover have "round3 (XFin v) = - of_int \<lfloor>- (v * 1000 - 1/2)\<rfloor> / 1000"
      using False by (simp add: round3_fin [OF assms(2)] c_trunc_def)
    ultimately show ?thesis by (simp add: z)
  qed
qed

lemma round3_error:
  assumes "\<bar>v\<bar> \<le> 4294967"
  shows "\<bar>round3 (XFin v) - v\<bar> \<le> 1/2000"
proof -
  have fl: "of_int \<lfloor>y\<rfloor> \<le> y \<and> y < of_int \<lfloor>y\<rfloor> + 1" for y :: rat
    using floor_correct [of y] by simp
  show ?thesis
  proof (cases "0 \<le> v")
    case True
    then have "round3 (XFin v) = of_int \<lfloor>v * 1000 + 1/2\<rfloor> / 1000" by (simp add: round3_fin [OF assms] c_trunc_def)
    then show ?thesis using fl [of "v * 1000 + 1/2"] unfolding abs_le_iff by linarith
  next
    case False
    then have "round3 (XFin v) = - of_int \<lfloor>- (v * 1000 - 1/2)\<rfloor> / 1000"
      by (simp add: round3_fin [OF assms] c_trunc_def)
    then show ?thesis using fl [of "- (v * 1000 - 1/2)"] unfolding abs_le_iff by linarith
  qed
qed

lemma volts_to_mv_fin:
  assumes "0 \<le> v" and "v \<le> 4294967"
  shows "jk_volts_to_mv (XFin v) = of_int \<lfloor>v * 1000 + 1/2\<rfloor>"
proof -
  have "\<bar>v * 1000 + 1/2\<bar> \<le> rat_of_int 5000000000" using assms by (auto simp: abs_le_iff)
  from c_trunc_bound [OF this] show ?thesis
    using assms(1) by (simp add: jk_volts_to_mv_def to_milli_def c_long_fin LONG_MIN_def LONG_MAX_def c_trunc_def)
qed

text \<open>What is no number is written as 0 mV.\<close>

lemma volts_to_mv_nan: "jk_volts_to_mv (XNaN s) = 0"
  by (simp add: jk_volts_to_mv_def)

lemma volts_to_mv_grid:
  assumes "on_grid v" and "0 \<le> v" and "v \<le> 4294967"
  shows "of_int (uint (jk_volts_to_mv (XFin v))) = v * 1000"
proof -
  obtain z where z: "v = of_int z / 1000"
    using assms(1) unfolding on_grid_def Ints_def by (auto simp: field_simps)
  have b: "0 \<le> z" "z \<le> 4294967000"
  proof -
    show "0 \<le> z" using assms(2) by (simp add: z)
    have "rat_of_int z \<le> of_int 4294967000" using assms(3) by (simp add: z)
    then show "z \<le> 4294967000" by (simp only: of_int_le_iff)
  qed
  then have "uint (of_int z :: u32) = z" by (simp add: unsigned_of_int take_bit_int_eq_self)
  then show ?thesis
    using volts_to_mv_fin [OF assms(2,3)] floor_half [of z] by (simp add: z)
qed

lemma jk_ovp_range:
  "on_grid (jk_clamp_ovp_v v)" "JK_OVP_MIN_V \<le> jk_clamp_ovp_v v" "jk_clamp_ovp_v v \<le> JK_OVP_MAX_V"
  by (auto simp: jk_clamp_ovp_v_def Let_def JK_OVP_MIN_V_def JK_OVP_MAX_V_def on_grid_def
      intro: round3_grid [unfolded on_grid_def])

lemma jk_clamp_ovp_id:
  "on_grid v \<Longrightarrow> JK_OVP_MIN_V \<le> v \<Longrightarrow> v \<le> JK_OVP_MAX_V \<Longrightarrow> jk_clamp_ovp_v (XFin v) = v"
  by (simp add: jk_clamp_ovp_v_def round3_id JK_OVP_MIN_V_def JK_OVP_MAX_V_def)

lemma jk_clamp_ovp_idem: "jk_clamp_ovp_v (XFin (jk_clamp_ovp_v v)) = jk_clamp_ovp_v v"
  by (intro jk_clamp_ovp_id jk_ovp_range)

lemma on_grid_gap: "on_grid v \<Longrightarrow> on_grid (v - JK_OVPR_GAP_V)"
proof -
  have "(v - JK_OVPR_GAP_V) * 1000 = v * 1000 - 100" by (simp add: JK_OVPR_GAP_V_def algebra_simps)
  then show "on_grid v \<Longrightarrow> on_grid (v - JK_OVPR_GAP_V)" unfolding on_grid_def by (simp only: Ints_diff Ints_numeral)
qed

lemma jk_clamp_ovpr_alt:
  "jk_clamp_ovpr_v v ovp = max (24/10) (min (round3 v) (jk_clamp_ovp_v (XFin ovp) - JK_OVPR_GAP_V))"
proof -
  let ?o = "jk_clamp_ovp_v (XFin ovp)"
  have "\<bar>?o - JK_OVPR_GAP_V\<bar> \<le> 4294967"
    using jk_ovp_range(2,3) [of "XFin ovp"] by (auto simp: abs_le_iff JK_OVP_MIN_V_def JK_OVP_MAX_V_def JK_OVPR_GAP_V_def)
  then have "round3 (XFin (?o - JK_OVPR_GAP_V)) = ?o - JK_OVPR_GAP_V"
    by (intro round3_id on_grid_gap jk_ovp_range)
  moreover have "\<not> ?o - JK_OVPR_GAP_V < JK_OVP_MIN_V - JK_OVPR_GAP_V"
    using jk_ovp_range(2) [of "XFin ovp"] by simp
  ultimately show ?thesis by (auto simp: jk_clamp_ovpr_v_def Let_def max_def min_def)
qed

lemma jk_ovp_pair_core:
  fixes v w :: xdouble
  defines "ovp \<equiv> jk_clamp_ovp_v v" and "ovpr \<equiv> jk_clamp_ovpr_v w (jk_clamp_ovp_v v)"
  shows "250/100 \<le> ovp \<and> ovp \<le> 420/100 \<and> 240/100 \<le> ovpr \<and> ovpr + JK_OVPR_GAP_V \<le> ovp \<and>
    of_int (uint (jk_volts_to_mv (XFin ovp))) = ovp * 1000 \<and> of_int (uint (jk_volts_to_mv (XFin ovpr))) = ovpr * 1000"
proof -
  have o: "on_grid ovp" "250/100 \<le> ovp" "ovp \<le> 420/100"
    using jk_ovp_range [of v] by (simp_all add: ovp_def JK_OVP_MIN_V_def JK_OVP_MAX_V_def)
  have "jk_clamp_ovp_v (XFin ovp) = ovp" by (simp add: ovp_def jk_clamp_ovp_idem)
  then have alt: "ovpr = max (24/10) (min (round3 w) (ovp - JK_OVPR_GAP_V))"
    using jk_clamp_ovpr_alt [of w ovp] by (simp add: ovpr_def ovp_def)
  have "on_grid (24/10)" by (simp add: on_grid_def)
  then have g: "on_grid ovpr"
    using o(1) round3_grid [of w] on_grid_gap [of ovp] unfolding alt max_def min_def by presburger
  have r: "240/100 \<le> ovpr" "ovpr + JK_OVPR_GAP_V \<le> ovp"
    using o(2) by (auto simp: alt JK_OVPR_GAP_V_def)
  have "0 \<le> ovp" "ovp \<le> 4294967" "0 \<le> ovpr" "ovpr \<le> 4294967"
    using o r by (auto simp: JK_OVPR_GAP_V_def)
  then show ?thesis using o r g volts_to_mv_grid [of ovp] volts_to_mv_grid [of ovpr] by simp
qed

text \<open>
  The pair of over-voltage thresholds written to a BMS is safe whatever was asked, a NaN or an infinity
  included: the trip is between 2.50 and 4.20 V, the recovery is at least 2.40 V and at least 0.10 V
  below the trip, and both go out as exactly their millivolts.
\<close>

theorem jk_ovp_pair_safe:
  fixes v w :: xdouble
  defines "ovp \<equiv> jk_clamp_ovp_v v" and "ovpr \<equiv> jk_clamp_ovpr_v w (jk_clamp_ovp_v v)"
  shows "250/100 \<le> ovp \<and> ovp \<le> 420/100 \<and> 240/100 \<le> ovpr \<and> ovpr + JK_OVPR_GAP_V \<le> ovp \<and>
    of_int (uint (jk_volts_to_mv (XFin ovp))) = ovp * 1000 \<and> of_int (uint (jk_volts_to_mv (XFin ovpr))) = ovpr * 1000"
  unfolding ovp_def ovpr_def by (rule jk_ovp_pair_core)

text \<open>
  The clamps for the balance trigger, the balance start and the trip saturate to their ranges, leave
  a millivolt value of the range alone, and otherwise move a value of the range by at most half
  a millivolt.
\<close>

theorem jk_clamps_saturate:
  "JK_TRIGGER_MIN_V \<le> jk_clamp_trigger_v x \<and> jk_clamp_trigger_v x \<le> JK_TRIGGER_MAX_V \<and>
   JK_START_MIN_V \<le> jk_clamp_start_v x \<and> jk_clamp_start_v x \<le> JK_START_MAX_V \<and>
   jk_clamp_trigger_v (XFin (jk_clamp_trigger_v x)) = jk_clamp_trigger_v x \<and>
   jk_clamp_start_v (XFin (jk_clamp_start_v x)) = jk_clamp_start_v x \<and>
   jk_clamp_ovp_v (XFin (jk_clamp_ovp_v x)) = jk_clamp_ovp_v x \<and>
   (JK_START_MIN_V \<le> v \<and> v \<le> JK_START_MAX_V \<longrightarrow> \<bar>jk_clamp_start_v (XFin v) - v\<bar> \<le> 1/2000) \<and>
   (JK_OVP_MIN_V \<le> v \<and> v \<le> JK_OVP_MAX_V \<longrightarrow> \<bar>jk_clamp_ovp_v (XFin v) - v\<bar> \<le> 1/2000)"
proof -
  have trig: "on_grid (jk_clamp_trigger_v x)" "JK_TRIGGER_MIN_V \<le> jk_clamp_trigger_v x"
      "jk_clamp_trigger_v x \<le> JK_TRIGGER_MAX_V"
    by (auto simp: jk_clamp_trigger_v_def Let_def JK_TRIGGER_MIN_V_def JK_TRIGGER_MAX_V_def on_grid_def
        intro: round3_grid [unfolded on_grid_def])
  have start: "on_grid (jk_clamp_start_v x)" "JK_START_MIN_V \<le> jk_clamp_start_v x"
      "jk_clamp_start_v x \<le> JK_START_MAX_V"
    by (auto simp: jk_clamp_start_v_def Let_def JK_START_MIN_V_def JK_START_MAX_V_def on_grid_def
        intro: round3_grid [unfolded on_grid_def])
  have "\<bar>jk_clamp_trigger_v x\<bar> \<le> 4294967" "\<bar>jk_clamp_start_v x\<bar> \<le> 4294967"
    using trig start by (auto simp: abs_le_iff JK_TRIGGER_MIN_V_def JK_TRIGGER_MAX_V_def JK_START_MIN_V_def JK_START_MAX_V_def)
  then have idem: "jk_clamp_trigger_v (XFin (jk_clamp_trigger_v x)) = jk_clamp_trigger_v x"
      "jk_clamp_start_v (XFin (jk_clamp_start_v x)) = jk_clamp_start_v x"
    using trig start
    by (simp_all add: jk_clamp_trigger_v_def [of "XFin (jk_clamp_trigger_v x)"]
        jk_clamp_start_v_def [of "XFin (jk_clamp_start_v x)"] round3_id)
  have small: "\<bar>v\<bar> \<le> 4294967" if "0 \<le> v" "v \<le> 5" using that by (simp add: abs_le_iff)
  have near: "JK_START_MIN_V \<le> v \<Longrightarrow> v \<le> JK_START_MAX_V \<Longrightarrow> \<bar>jk_clamp_start_v (XFin v) - v\<bar> \<le> 1/2000"
    using round3_error [OF small] by (auto simp: jk_clamp_start_v_def Let_def abs_le_iff JK_START_MIN_V_def JK_START_MAX_V_def)
  have near': "JK_OVP_MIN_V \<le> v \<Longrightarrow> v \<le> JK_OVP_MAX_V \<Longrightarrow> \<bar>jk_clamp_ovp_v (XFin v) - v\<bar> \<le> 1/2000"
    using round3_error [OF small] by (auto simp: jk_clamp_ovp_v_def Let_def abs_le_iff JK_OVP_MIN_V_def JK_OVP_MAX_V_def)
  show ?thesis using trig start idem jk_clamp_ovp_idem near near' by blast
qed

text \<open>
  A voltage too large for the cast (an infinity, or from 9.3e15 V on) and a NaN end at the lower end of
  each range, not at the upper one.
\<close>

lemma round3_out_of_range:
  assumes "\<And>v. x = XFin v \<Longrightarrow> 9300000000000000 \<le> v"
  shows "round3 x = of_int LONG_MIN / 1000"
proof (cases x)
  case (XFin v)
  then have v: "9300000000000000 \<le> v" by (rule assms)
  then have "rat_of_int LONG_MAX < of_int \<lfloor>v * 1000 + 1/2\<rfloor>"
    using floor_correct [of "v * 1000 + 1/2"] by (simp add: LONG_MAX_def)
  then have "LONG_MAX < c_trunc (v * 1000 + 1/2)" using v by (simp add: c_trunc_def)
  then show ?thesis using v by (simp add: XFin round3_def to_milli_def c_long_def)
qed (simp_all add: round3_def to_milli_def c_long_def)

theorem jk_huge_clamps_low:
  assumes "\<And>v. x = XFin v \<Longrightarrow> 9300000000000000 \<le> v"
  shows "jk_clamp_trigger_v x = JK_TRIGGER_MIN_V \<and> jk_clamp_start_v x = JK_START_MIN_V \<and> jk_clamp_ovp_v x = JK_OVP_MIN_V"
  by (simp add: jk_clamp_trigger_v_def jk_clamp_start_v_def jk_clamp_ovp_v_def round3_out_of_range [OF assms]
      LONG_MIN_def JK_TRIGGER_MIN_V_def JK_START_MIN_V_def JK_OVP_MIN_V_def)

theorem jk_huge_clamps_low_witness: "jk_clamp_ovp_v (XFin 10000000000000000) = 250/100"
  using jk_huge_clamps_low [of "XFin 10000000000000000"] by (simp add: JK_OVP_MIN_V_def)

theorem jk_clamps_saturate_witness: "\<bar>jk_clamp_start_v (XFin (34567/10000)) - 34567/10000\<bar> \<le> 1/2000"
  using jk_clamps_saturate [where v = "34567/10000"] by (simp add: JK_START_MIN_V_def JK_START_MAX_V_def)

end
