(* ===== verification/JkAssembler.thy ===== *)
theory JkAssembler
  imports JkProto
begin

section \<open>The JK frame assembler (src/jk/jk_proto.c, src/plugins/battery_jk/plugin.c)\<close>

text \<open>
  BLE notifications arrive as chunks of any length; the assembler finds the 300-byte frames in
  them. \<open>jk_assembler_feed\<close> returns the frames it copied to the caller (whose buffer holds the last
  of them) and the new state; \<open>jk_collect\<close> is the loop of the plugin's \<open>on_line\<close> that feeds one
  notification and then drains with empty chunks.
\<close>

record jk_assembler =
  as_buf :: "byte list"
  as_dropped :: u32
  as_corrupt :: u32

definition JK_ASM_SIZE :: nat where "JK_ASM_SIZE = 512"

definition jk_assembler_init :: jk_assembler where
  "jk_assembler_init = \<lparr>as_buf = [], as_dropped = 0, as_corrupt = 0\<rparr>"

definition hdr_at :: "byte list \<Rightarrow> bool" where
  "hdr_at xs \<longleftrightarrow> take 4 xs = JK_HEADER_RSP"

text \<open>The header scan: the position where the loop stops, past \<open>length - 4\<close> when there is none.\<close>

fun find_hdr :: "byte list \<Rightarrow> nat" where
  "find_hdr [] = 0"
| "find_hdr (x # xs) =
     (if length (x # xs) < 4 then 0 else if hdr_at (x # xs) then 0 else Suc (find_hdr xs))"

definition jk_type_known :: "byte \<Rightarrow> bool" where
  "jk_type_known b \<longleftrightarrow> b = JK_FRAME_CELL_INFO \<or> b = JK_FRAME_SETTINGS \<or> b = JK_FRAME_DEVICE_INFO"

definition drop_front :: "nat \<Rightarrow> jk_assembler \<Rightarrow> jk_assembler" where
  "drop_front n a = a\<lparr>as_dropped := as_dropped a + of_nat n, as_buf := drop n (as_buf a)\<rparr>"

lemma drop_front_fields [simp]:
  "as_buf (drop_front n a) = drop n (as_buf a)" "as_corrupt (drop_front n a) = as_corrupt a"
  by (simp_all add: drop_front_def)

function jk_drain :: "nat \<Rightarrow> jk_assembler \<Rightarrow> byte list list \<times> jk_assembler" where
  "jk_drain max_frames a =
     (let buf = as_buf a; len = length buf in
      if max_frames = 0 \<or> len < 4 then ([], a)
      else let hpos = find_hdr buf in
        if len < hpos + 4 then ([], if 4 < len then drop_front (len - 4) a else a)
        else if 0 < hpos then jk_drain max_frames (drop_front hpos a)
        else if len < JK_FRAME_SIZE then ([], a)
        else if jk_crc8 (take (JK_FRAME_SIZE - 1) buf) = buf ! JK_CELL_CRC_OFFSET \<and> jk_type_known (buf ! 4)
        then let (fs, a') = jk_drain (max_frames - 1) (a\<lparr>as_buf := drop JK_FRAME_SIZE buf\<rparr>)
             in (take JK_FRAME_SIZE buf # fs, a')
        else let a = a\<lparr>as_corrupt := as_corrupt a + 1\<rparr>; k = Suc (find_hdr (tl buf)) in
          if k + 3 < len then jk_drain max_frames (drop_front k a)
          else jk_drain max_frames (if 4 < len then drop_front (len - 4) a else a\<lparr>as_buf := []\<rparr>))"
  by pat_completeness auto
termination
  by (relation "measure (\<lambda>(m, a). length (as_buf a))") (auto simp: JK_FRAME_SIZE_def drop_front_def)

declare jk_drain.simps [simp del]

definition strip_at :: "byte list \<Rightarrow> byte list" where
  "strip_at c =
     (let c = (if 4 \<le> length c \<and> take 4 c = AT_JUNK then drop 4 c else c)
      in if 4 \<le> length c \<and> drop (length c - 4) c = AT_JUNK then take (length c - 4) c else c)"

definition jk_assembler_feed :: "jk_assembler \<Rightarrow> byte list \<Rightarrow> nat \<Rightarrow> byte list list \<times> jk_assembler" where
  "jk_assembler_feed a chunk max_frames =
     (let c = strip_at chunk; avail = JK_ASM_SIZE - length (as_buf a) in
      if c = [] \<and> length (as_buf a) < JK_FRAME_SIZE then ([], a)
      else if avail < length c
      then ([], a\<lparr>as_buf := as_buf a @ take avail c,
                   as_dropped := as_dropped a + of_nat (length c - avail)\<rparr>)
      else jk_drain max_frames (a\<lparr>as_buf := as_buf a @ c\<rparr>))"

subsection \<open>Invariant, soundness and accounting\<close>

definition jk_frame_valid :: "byte list \<Rightarrow> bool" where
  "jk_frame_valid f \<longleftrightarrow> length f = JK_FRAME_SIZE \<and> hdr_at f \<and>
     jk_crc8 (take (JK_FRAME_SIZE - 1) f) = f ! JK_CELL_CRC_OFFSET \<and> jk_type_known (f ! 4)"

lemma find_hdr_hit: "find_hdr xs + 4 \<le> length xs \<Longrightarrow> hdr_at (drop (find_hdr xs) xs)"
proof (induction xs)
  case (Cons x xs)
  then show ?case by (cases "length xs < 3") (auto split: if_splits)
qed simp

lemma find_hdr_zero: "hdr_at xs \<Longrightarrow> find_hdr xs = 0"
  by (cases xs) auto

text \<open>
  What a drain did: the bytes it was given are, in order, runs it dropped and the valid frames it
  returned, then the bytes it kept. \<open>parsed xs fs n ys\<close> collects this with the number \<open>n\<close> dropped.
\<close>

inductive parsed :: "byte list \<Rightarrow> byte list list \<Rightarrow> nat \<Rightarrow> byte list \<Rightarrow> bool" where
  parsed_keep: "parsed xs [] 0 xs"
| parsed_drop: "parsed (drop k xs) fs n ys \<Longrightarrow> k \<le> length xs \<Longrightarrow> parsed xs fs (k + n) ys"
| parsed_frame: "jk_frame_valid f \<Longrightarrow> parsed xs fs n ys \<Longrightarrow> parsed (f @ xs) (f # fs) n ys"

lemma parsed_count: "parsed xs fs n ys \<Longrightarrow> length xs = JK_FRAME_SIZE * length fs + n + length ys"
  by (induction rule: parsed.induct) (auto simp: jk_frame_valid_def)

lemma parsed_frames: "parsed xs fs n ys \<Longrightarrow> \<forall>f \<in> set fs. jk_frame_valid f \<and> sublist f xs"
proof (induction rule: parsed.induct)
  case (parsed_drop k xs fs n ys)
  have "sublist f (drop k xs) \<Longrightarrow> sublist f xs" for f
    by (metis append_take_drop_id sublist_append)
  then show ?case using parsed_drop by blast
next
  case (parsed_frame f xs fs n ys)
  then show ?case by (auto simp: sublist_append)
qed simp

text \<open>One round of the drain loop, as the cases the proofs below share.\<close>

lemma jk_drain_cases:
  obtains (stop) "jk_drain m a = ([], a)"
  | (cut) n where "jk_drain m a = ([], drop_front n a)" "n \<le> length (as_buf a)"
      "length (as_buf a) < find_hdr (as_buf a) + 4" "m \<noteq> 0"
  | (skip) k b where "jk_drain m a = jk_drain m (drop_front k b)" "0 < k" "k \<le> length (as_buf a)"
      "b = a \<or> b = a\<lparr>as_corrupt := as_corrupt a + 1\<rparr>" "m \<noteq> 0"
      "\<not> jk_frame_valid (take JK_FRAME_SIZE (as_buf a))"
  | (good) "jk_drain m a = (case jk_drain (m - 1) (a\<lparr>as_buf := drop JK_FRAME_SIZE (as_buf a)\<rparr>) of
        (fs, a') \<Rightarrow> (take JK_FRAME_SIZE (as_buf a) # fs, a'))" "m \<noteq> 0"
      "jk_frame_valid (take JK_FRAME_SIZE (as_buf a))"
proof -
  let ?buf = "as_buf a"
  let ?ok = "jk_crc8 (take (JK_FRAME_SIZE - 1) ?buf) = ?buf ! JK_CELL_CRC_OFFSET \<and> jk_type_known (?buf ! 4)"
  have valid: "jk_frame_valid (take JK_FRAME_SIZE ?buf) \<longleftrightarrow> \<not> length ?buf < JK_FRAME_SIZE \<and> hdr_at ?buf \<and> ?ok"
    by (auto simp: jk_frame_valid_def hdr_at_def min_def JK_FRAME_SIZE_def JK_CELL_CRC_OFFSET_def)
  consider (a) "m = 0 \<or> length ?buf < 4" | (b) "m \<noteq> 0" "\<not> length ?buf < 4" "length ?buf < find_hdr ?buf + 4"
    | (c) "m \<noteq> 0" "\<not> length ?buf < 4" "\<not> length ?buf < find_hdr ?buf + 4" "0 < find_hdr ?buf"
    | (d) "m \<noteq> 0" "\<not> length ?buf < 4" "\<not> length ?buf < find_hdr ?buf + 4" "find_hdr ?buf = 0"
    by auto
  then show thesis
  proof cases
    case a
    then show ?thesis using stop by (auto simp: jk_drain.simps [of m a] Let_def)
  next
    case b
    then show ?thesis
      using stop cut [of "length ?buf - 4"]
      by (cases "4 < length ?buf") (simp_all add: jk_drain.simps [of m a] Let_def)
  next
    case c
    then have "\<not> hdr_at ?buf" using find_hdr_zero by force
    then show ?thesis
      using c skip [of "find_hdr ?buf" a] valid by (auto simp: jk_drain.simps [of m a] Let_def)
  next
    case d
    then have h: "hdr_at ?buf" using find_hdr_hit [of ?buf] by simp
    consider (wait) "length ?buf < JK_FRAME_SIZE" | (ok) "\<not> length ?buf < JK_FRAME_SIZE" ?ok
      | (bad) "\<not> length ?buf < JK_FRAME_SIZE" "\<not> ?ok" by blast
    then show ?thesis
    proof cases
      case wait
      then show ?thesis using d stop by (simp add: jk_drain.simps [of m a] Let_def)
    next
      case ok
      then show ?thesis using d h good valid by (simp add: jk_drain.simps [of m a] Let_def)
    next
      case bad
      let ?b = "a\<lparr>as_corrupt := as_corrupt a + 1\<rparr>"
      let ?k = "Suc (find_hdr (tl ?buf))"
      define k where "k = (if ?k + 3 < length ?buf then ?k else length ?buf - 4)"
      have "jk_drain m a = jk_drain m (drop_front k ?b)" "k \<le> length ?buf" "0 < k"
        using d bad by (auto simp: jk_drain.simps [of m a] Let_def k_def JK_FRAME_SIZE_def)
      then show ?thesis using bad valid d skip [of k ?b] by blast
    qed
  qed
qed

lemma jk_drain_parsed:
  "jk_drain m a = (fs, a') \<Longrightarrow>
     \<exists>n. parsed (as_buf a) fs n (as_buf a') \<and> as_dropped a' = as_dropped a + of_nat n \<and> length fs \<le> m"
proof (induction "length (as_buf a)" arbitrary: m a fs a' rule: less_induct)
  case less
  show ?case
  proof (cases rule: jk_drain_cases [of m a])
    case stop
    then show ?thesis using less.prems parsed_keep by (intro exI [of _ 0]) auto
  next
    case (cut n)
    then show ?thesis
      using less.prems parsed_drop [OF parsed_keep, of n "as_buf a"]
      by (intro exI [of _ n]) (auto simp: drop_front_def)
  next
    case (skip k b)
    then have b: "as_buf b = as_buf a" "as_dropped b = as_dropped a" by auto
    have "length (as_buf (drop_front k b)) < length (as_buf a)"
      using skip(2,3) by (simp add: b)
    then obtain n where "parsed (drop k (as_buf a)) fs n (as_buf a')"
        "as_dropped a' = as_dropped a + of_nat k + of_nat n" "length fs \<le> m"
      using less.hyps [of "drop_front k b" m fs a'] less.prems skip(1)
      by (auto simp: drop_front_def b)
    then show ?thesis
      using skip(3) parsed_drop [of k "as_buf a" fs n "as_buf a'"]
      by (intro exI [of _ "k + n"]) (simp add: add.assoc)
  next
    case good
    let ?f = "take JK_FRAME_SIZE (as_buf a)"
    let ?b = "a\<lparr>as_buf := drop JK_FRAME_SIZE (as_buf a)\<rparr>"
    obtain gs where gs: "jk_drain (m - 1) ?b = (gs, a')" "fs = ?f # gs"
      using good less.prems by (auto split: prod.splits)
    have "length (as_buf ?b) < length (as_buf a)"
      using good(3) by (auto simp: jk_frame_valid_def JK_FRAME_SIZE_def)
    then obtain n where "parsed (as_buf ?b) gs n (as_buf a')" "as_dropped a' = as_dropped ?b + of_nat n"
        "length gs \<le> m - 1"
      using less.hyps [OF _ gs(1)] by blast
    then show ?thesis
      using good parsed_frame [OF good(3), of "as_buf ?b" gs n "as_buf a'"] gs(2)
      by (intro exI [of _ n]) auto
  qed
qed

text \<open>
  C12: The assembler invents and hides nothing. Out of a buffer within its 512 bytes and a chunk (less
  the AT framing), a feed returns at most the frames asked for, each of them 300 contiguous
  bytes of its input with the response header, a correct checksum and a known type; and every
  other byte is either still buffered, within the 512 bytes, or counted in \<open>dropped\<close>.
\<close>

theorem jk_feed_accounts:
  assumes "jk_assembler_feed a chunk m = (fs, a')" and "length (as_buf a) \<le> JK_ASM_SIZE"
  shows "length fs \<le> m \<and> (\<forall>f \<in> set fs. jk_frame_valid f \<and> sublist f (as_buf a @ strip_at chunk)) \<and>
    length (as_buf a') \<le> JK_ASM_SIZE \<and>
    (\<exists>n. as_dropped a' = as_dropped a + of_nat n \<and>
       length (as_buf a) + length (strip_at chunk) = JK_FRAME_SIZE * length fs + n + length (as_buf a'))"
proof -
  let ?c = "strip_at chunk"
  consider (idle) "?c = []" "length (as_buf a) < JK_FRAME_SIZE"
    | (over) "?c \<noteq> [] \<or> \<not> length (as_buf a) < JK_FRAME_SIZE" "JK_ASM_SIZE - length (as_buf a) < length ?c"
    | (fits) "?c \<noteq> [] \<or> \<not> length (as_buf a) < JK_FRAME_SIZE" "length ?c \<le> JK_ASM_SIZE - length (as_buf a)"
    by linarith
  then show ?thesis
  proof cases
    case idle
    then show ?thesis using assms by (auto simp: jk_assembler_feed_def intro!: exI [of _ 0])
  next
    case over
    then have "fs = []" "as_buf a' = as_buf a @ take (JK_ASM_SIZE - length (as_buf a)) ?c"
        "as_dropped a' = as_dropped a + of_nat (length ?c - (JK_ASM_SIZE - length (as_buf a)))"
      using assms(1) by (auto simp: jk_assembler_feed_def Let_def split: if_splits)
    then show ?thesis
      using over assms(2)
      by (auto intro!: exI [of _ "length ?c - (JK_ASM_SIZE - length (as_buf a))"])
  next
    case fits
    then have "jk_drain m (a\<lparr>as_buf := as_buf a @ ?c\<rparr>) = (fs, a')"
      using assms(1) by (auto simp: jk_assembler_feed_def Let_def split: if_splits)
    then obtain n where n: "parsed (as_buf a @ ?c) fs n (as_buf a')" "as_dropped a' = as_dropped a + of_nat n"
        "length fs \<le> m"
      using jk_drain_parsed by fastforce
    have "length (as_buf a) + length ?c = JK_FRAME_SIZE * length fs + n + length (as_buf a')"
      using parsed_count [OF n(1)] by simp
    moreover from this have "length (as_buf a') \<le> JK_ASM_SIZE"
      using fits(2) assms(2) by linarith
    ultimately show ?thesis
      using parsed_frames [OF n(1)] n(2,3) by blast
  qed
qed

subsection \<open>The plugin's loop over one notification\<close>

lemma feed_shrinks:
  assumes "jk_assembler_feed a chunk m = (f # fs, a')"
  shows "length (as_buf a') + JK_FRAME_SIZE \<le> length (as_buf a) + length chunk"
proof -
  have sub: "length (strip_at chunk) \<le> length chunk" by (auto simp: strip_at_def Let_def)
  have "jk_drain m (a\<lparr>as_buf := as_buf a @ strip_at chunk\<rparr>) = (f # fs, a')"
    using assms by (auto simp: jk_assembler_feed_def Let_def split: if_splits)
  then obtain n where "parsed (as_buf a @ strip_at chunk) (f # fs) n (as_buf a')"
    using jk_drain_parsed by fastforce
  then show ?thesis using parsed_count sub by fastforce
qed

function jk_collect :: "jk_assembler \<Rightarrow> byte list \<Rightarrow> byte list list \<times> jk_assembler" where
  "jk_collect a chunk =
     (case jk_assembler_feed a chunk 1 of
        ([], a') \<Rightarrow> ([], a')
      | (f # fs, a') \<Rightarrow> (let (gs, b) = jk_collect a' [] in ((f # fs) @ gs, b)))"
  by pat_completeness auto
termination
  by (relation "measure (\<lambda>(a, c). length (as_buf a) + length c)")
    (auto simp: JK_FRAME_SIZE_def dest!: feed_shrinks [OF sym])

declare jk_collect.simps [simp del]

fun jk_notifications :: "jk_assembler \<Rightarrow> byte list list \<Rightarrow> byte list list \<times> jk_assembler" where
  "jk_notifications a [] = ([], a)"
| "jk_notifications a (c # cs) =
     (let (fs, b) = jk_collect a c; (gs, d) = jk_notifications b cs in (fs @ gs, d))"

subsection \<open>A clean stream\<close>

text \<open>\<open>tail_of p gs\<close>: \<open>p\<close> is the part of the next frame of \<open>gs\<close> that has arrived.\<close>

definition tail_of :: "byte list \<Rightarrow> byte list list \<Rightarrow> bool" where
  "tail_of p gs \<longleftrightarrow> length p < JK_FRAME_SIZE \<and> (\<forall>g \<in> set gs. jk_frame_valid g) \<and> prefix p (concat gs)"

lemma split_frames:
  assumes "prefix xs (concat fs)" and "\<forall>f \<in> set fs. jk_frame_valid f"
  shows "\<exists>gs hs p. fs = gs @ hs \<and> xs = concat gs @ p \<and> tail_of p hs"
  using assms
proof (induction fs arbitrary: xs)
  case Nil
  then show ?case by (auto simp: tail_of_def JK_FRAME_SIZE_def)
next
  case (Cons f fs)
  then have lf: "length f = JK_FRAME_SIZE" by (simp add: jk_frame_valid_def)
  show ?case
  proof (cases "length xs < JK_FRAME_SIZE")
    case True
    then show ?thesis using Cons.prems
      by (intro exI [of _ "[]"] exI [of _ "f # fs"] exI [of _ xs]) (auto simp: tail_of_def)
  next
    case False
    then obtain ys where ys: "xs = f @ ys" "prefix ys (concat fs)"
      using Cons.prems(1) lf
      by (metis concat.simps(2) prefix_def prefix_length_prefix same_prefix_prefix
          linorder_not_less prefixI)
    then obtain gs hs p where "fs = gs @ hs" "ys = concat gs @ p" "tail_of p hs"
      using Cons.IH [of ys] Cons.prems(2) by auto
    then have "f # fs = (f # gs) @ hs" "xs = concat (f # gs) @ p" using ys by simp_all
    then show ?thesis using \<open>tail_of p hs\<close> by blast
  qed
qed

lemma tail_hdr: "tail_of p gs \<Longrightarrow> 4 \<le> length p \<Longrightarrow> hdr_at p"
proof -
  assume t: "tail_of p gs" and len: "4 \<le> length p"
  then obtain g hs where gs: "gs = g # hs" by (cases gs) (auto simp: tail_of_def)
  have "take 4 p = take 4 (concat gs)"
    using t len by (metis tail_of_def take_prefix_eq)
  also have "\<dots> = take 4 g"
    using t by (simp add: gs tail_of_def jk_frame_valid_def JK_FRAME_SIZE_def)
  finally show "hdr_at p" using t by (simp add: hdr_at_def tail_of_def gs jk_frame_valid_def)
qed

lemma drain_tail: "tail_of (as_buf a) gs \<Longrightarrow> jk_drain m a = ([], a)"
  using tail_hdr [of "as_buf a" gs] find_hdr_zero [of "as_buf a"]
  by (auto simp: jk_drain.simps [of m a] Let_def tail_of_def not_less)

lemma drain_frame:
  assumes "jk_frame_valid f" and "m \<noteq> 0" and "as_buf a = f @ xs"
  shows "jk_drain m a = (let (fs, b) = jk_drain (m - 1) (a\<lparr>as_buf := xs\<rparr>) in (f # fs, b))"
proof -
  have f: "length f = 300" "hdr_at f" "jk_crc8 (take 299 f) = f ! 299" "jk_type_known (f ! 4)"
    using assms(1) by (simp_all add: jk_frame_valid_def JK_FRAME_SIZE_def JK_CELL_CRC_OFFSET_def)
  then have "find_hdr (f @ xs) = 0" by (intro find_hdr_zero) (simp add: hdr_at_def)
  then show ?thesis
    using f assms(2,3)
    by (simp add: jk_drain.simps [of m a] Let_def JK_FRAME_SIZE_def JK_CELL_CRC_OFFSET_def nth_append)
qed

lemma collect_clean:
  assumes "as_buf a @ strip_at chunk = concat gs @ p" and "\<forall>g \<in> set gs. jk_frame_valid g"
    and "tail_of p hs" and "length (as_buf a @ strip_at chunk) \<le> JK_ASM_SIZE"
  shows "jk_collect a chunk = (gs, a\<lparr>as_buf := p\<rparr>)"
  using assms
proof (induction gs arbitrary: a chunk)
  case Nil
  have "jk_assembler_feed a chunk 1 = ([], a\<lparr>as_buf := p\<rparr>)"
  proof (cases "strip_at chunk = [] \<and> length (as_buf a) < JK_FRAME_SIZE")
    case True
    then have "as_buf a = p" using Nil by simp
    then show ?thesis using True by (simp add: jk_assembler_feed_def)
  next
    case False
    then show ?thesis
      using Nil drain_tail [of "a\<lparr>as_buf := p\<rparr>" hs 1] by (auto simp: jk_assembler_feed_def Let_def)
  qed
  then show ?case by (simp add: jk_collect.simps)
next
  case (Cons g gs)
  have lg: "length g = 300" using Cons.prems(2) by (simp add: jk_frame_valid_def JK_FRAME_SIZE_def)
  have len: "300 \<le> length (as_buf a) + length (strip_at chunk)"
    using arg_cong [OF Cons.prems(1), of length] lg by simp
  have "jk_assembler_feed a chunk 1 = jk_drain 1 (a\<lparr>as_buf := concat (g # gs) @ p\<rparr>)"
    using Cons.prems(1,4) len unfolding jk_assembler_feed_def Let_def length_append
    by (auto simp: JK_FRAME_SIZE_def)
  also have "\<dots> = ([g], a\<lparr>as_buf := concat gs @ p\<rparr>)"
    using Cons.prems(2) drain_frame [of g 1 "a\<lparr>as_buf := concat (g # gs) @ p\<rparr>" "concat gs @ p"]
    by (simp add: jk_drain.simps [of 0])
  finally have feed: "jk_assembler_feed a chunk 1 = ([g], a\<lparr>as_buf := concat gs @ p\<rparr>)" .
  have "strip_at [] = []" by (simp add: strip_at_def)
  then have "jk_collect (a\<lparr>as_buf := concat gs @ p\<rparr>) [] = (gs, a\<lparr>as_buf := p\<rparr>)"
    using Cons.IH [of "a\<lparr>as_buf := concat gs @ p\<rparr>" "[]"] Cons.prems by auto
  then show ?case by (simp add: jk_collect.simps [of a chunk] feed [simplified])
qed

lemma notifications_clean:
  assumes "as_buf a @ concat cs = concat fs" and "\<forall>f \<in> set fs. jk_frame_valid f"
    and "length (as_buf a) < JK_FRAME_SIZE" and "\<forall>c \<in> set cs. strip_at c = c \<and> length c \<le> 213"
  shows "jk_notifications a cs = (fs, a\<lparr>as_buf := []\<rparr>)"
  using assms
proof (induction cs arbitrary: a fs)
  case Nil
  then have "fs = []"
  proof (cases fs)
    case (Cons f gs)
    then show ?thesis using Nil by (auto simp: jk_frame_valid_def dest!: arg_cong [of _ _ length])
  qed simp
  then show ?case using Nil by simp
next
  case (Cons c cs)
  have c: "strip_at c = c" "length c \<le> 213" using Cons.prems(4) by auto
  have "prefix (as_buf a @ c) (concat fs)"
    using Cons.prems(1) by (metis append.assoc concat.simps(2) prefixI)
  from split_frames [OF this Cons.prems(2)] obtain gs hs p where
    s: "fs = gs @ hs" "as_buf a @ c = concat gs @ p" "tail_of p hs" by blast
  have "length (as_buf a @ strip_at c) \<le> JK_ASM_SIZE"
    using c Cons.prems(3) by (simp add: JK_ASM_SIZE_def JK_FRAME_SIZE_def)
  then have col: "jk_collect a c = (gs, a\<lparr>as_buf := p\<rparr>)"
    using collect_clean [of a c gs p hs] s c Cons.prems(2) by auto
  have "concat gs @ (p @ concat cs) = concat gs @ concat hs"
    using Cons.prems(1) unfolding s(1) append.assoc [symmetric] s(2) [symmetric] by simp
  then have "p @ concat cs = concat hs" by (simp only: same_append_eq)
  then have "jk_notifications (a\<lparr>as_buf := p\<rparr>) cs = (hs, a\<lparr>as_buf := []\<rparr>)"
    using Cons.IH [of "a\<lparr>as_buf := p\<rparr>" hs] Cons.prems s(1,3) by (auto simp: tail_of_def)
  then show ?case by (simp add: col s(1))
qed

text \<open>
  C16: A stream of valid frames cut into notifications anywhere (each at most 213 bytes, none looking
  like AT framing) comes out as exactly these frames, in order, whatever the cuts: nothing is
  dropped, nothing counted corrupt, nothing left over.
\<close>

theorem jk_clean_stream_delivered:
  assumes "concat cs = concat fs" and "\<forall>f \<in> set fs. jk_frame_valid f"
    and "\<forall>c \<in> set cs. strip_at c = c \<and> length c \<le> 213"
  shows "jk_notifications jk_assembler_init cs = (fs, jk_assembler_init)"
  using notifications_clean [of jk_assembler_init cs fs] assms
  by (simp add: jk_assembler_init_def JK_FRAME_SIZE_def)

subsection \<open>The stall\<close>

text \<open>
  Once the 512-byte buffer is full, the assembler is dead: whatever notifications follow (other than
  ones empty after AT framing is removed), none is delivered and every byte is dropped.
\<close>

theorem jk_full_buffer_stalls:
  assumes "length (as_buf a) = JK_ASM_SIZE" and "\<forall>c \<in> set cs. strip_at c \<noteq> []"
  shows "\<exists>d. jk_notifications a cs = ([], a\<lparr>as_dropped := d\<rparr>)"
  using assms
proof (induction cs arbitrary: a)
  case Nil
  then show ?case by (metis jk_assembler.surjective jk_assembler.update_convs(2) jk_notifications.simps(1))
next
  case (Cons c cs)
  have "jk_collect a c = ([], a\<lparr>as_dropped := as_dropped a + of_nat (length (strip_at c))\<rparr>)"
    using Cons.prems by (simp add: jk_collect.simps jk_assembler_feed_def)
  then show ?case
    using Cons.IH [of "a\<lparr>as_dropped := as_dropped a + of_nat (length (strip_at c))\<rparr>"] Cons.prems by auto
qed

subsection \<open>Instances\<close>

definition sample_frame :: "byte list" where
  "sample_frame = (let f = JK_HEADER_RSP @ [JK_FRAME_DEVICE_INFO] @ replicate 294 7
     in f @ [jk_crc8 f])"

lemma sample_frame_valid: "jk_frame_valid sample_frame"
  by code_simp

theorem jk_feed_accounts_witness:
  "sublist sample_frame (as_buf jk_assembler_init @ strip_at sample_frame) \<and>
   (\<exists>n. as_dropped jk_assembler_init = as_dropped jk_assembler_init + of_nat n \<and>
      length (strip_at sample_frame) = 300 + n)"
proof -
  have "jk_assembler_feed jk_assembler_init sample_frame 1 = ([sample_frame], jk_assembler_init)"
    by code_simp
  then show ?thesis
    using jk_feed_accounts [of jk_assembler_init sample_frame 1 "[sample_frame]" jk_assembler_init]
    by (simp add: jk_assembler_init_def JK_FRAME_SIZE_def)
qed

theorem jk_clean_stream_delivered_witness:
  "jk_notifications jk_assembler_init [take 200 sample_frame, drop 200 sample_frame] =
     ([sample_frame], jk_assembler_init)"
proof -
  have "list_all (\<lambda>c. strip_at c = c \<and> length c \<le> 213) [take 200 sample_frame, drop 200 sample_frame]"
    by code_simp
  then show ?thesis
    using jk_clean_stream_delivered [of "[take 200 sample_frame, drop 200 sample_frame]" "[sample_frame]"]
      sample_frame_valid by (simp add: list_all_iff)
qed

theorem jk_full_buffer_stalls_witness:
  "\<exists>d. jk_notifications (jk_assembler_init\<lparr>as_buf := replicate 512 1\<rparr>) [sample_frame, sample_frame] =
     ([], jk_assembler_init\<lparr>as_buf := replicate 512 1, as_dropped := d\<rparr>)"
proof -
  have "strip_at sample_frame \<noteq> []" by code_simp
  then show ?thesis
    using jk_full_buffer_stalls [of "jk_assembler_init\<lparr>as_buf := replicate 512 1\<rparr>" "[sample_frame, sample_frame]"]
    by (simp add: JK_ASM_SIZE_def)
qed

end
