(* ===== verification/JkDecode.thy ===== *)
theory JkDecode
  imports JkAssembler
begin

section \<open>Decoding JK frames (src/jk/jk_proto.c, jk_proto.h)\<close>

text \<open>
  The three decoders of 300-byte response frames. A frame argument is an option (\<open>None\<close> is a null
  pointer), its length is \<open>len\<close>. Each decoder returns its result code and the \<open>out\<close> structure as it
  leaves it, on errors too. The cell array with \<open>cell_count\<close> is the list of its live cells.
\<close>

datatype jk_result = JK_OK | JK_EBADLEN | JK_EBADHDR | JK_EBADTYPE | JK_ECRC | JK_EIMPLAUSIBLE | JK_ENOMEM

datatype jk_proto = JK_PROTO_JK02_32S | JK_PROTO_JK02_24S

definition JK_TEMP_ABSENT :: int where "JK_TEMP_ABSENT = -2000"

subsection \<open>Field reads\<close>

definition jk_u16 :: "byte list \<Rightarrow> nat \<Rightarrow> u16" where
  "jk_u16 data off = be16 (data ! (off + 1)) (data ! off)"

definition jk_i16 :: "byte list \<Rightarrow> nat \<Rightarrow> int" where
  "jk_i16 data off = sint (jk_u16 data off)"

definition jk_u32 :: "byte list \<Rightarrow> nat \<Rightarrow> u32" where
  "jk_u32 data off = le32 (data ! off) (data ! (off + 1)) (data ! (off + 2)) (data ! (off + 3))"

definition jk_i32 :: "byte list \<Rightarrow> nat \<Rightarrow> int" where
  "jk_i32 data off = sint (jk_u32 data off)"

definition jk_temp_c :: "byte list \<Rightarrow> nat \<Rightarrow> cdouble" where
  "jk_temp_c data off =
     (let raw = jk_i16 data off in if raw = JK_TEMP_ABSENT then of_int JK_TEMP_ABSENT else of_int raw / 10)"

definition milli :: "'a::len word \<Rightarrow> cdouble" where
  "milli w = of_int (uint w) / 1000"

definition tenth :: "'a::len word \<Rightarrow> cdouble" where
  "tenth w = of_int (uint w) / 10"

definition is_space_c :: "byte \<Rightarrow> bool" where
  "is_space_c b \<longleftrightarrow> b = 0x20 \<or> b = 0x09 \<or> b = 0x0D \<or> b = 0x0A"

text \<open>
  \<open>_read_str\<close>: copies up to a NUL into a zeroed buffer, then strips white space back from position
  \<open>n\<close>, which is the end of the text only when the field held no NUL.
\<close>

definition read_str :: "byte list \<Rightarrow> nat \<Rightarrow> nat \<Rightarrow> byte list" where
  "read_str data off len =
     (if JK_FRAME_SIZE \<le> off then []
      else let n = (if JK_FRAME_SIZE < off + len then JK_FRAME_SIZE - off else len);
               field = take n (drop off data)
           in if 0 \<in> set field then takeWhile (\<lambda>b. b \<noteq> 0) field
              else rev (dropWhile is_space_c (rev field)))"

definition jk_cstring :: "byte list \<Rightarrow> nat \<Rightarrow> nat \<Rightarrow> nat \<Rightarrow> byte list" where
  "jk_cstring data offset len max_len =
     (let n = min len (max_len - 1) in takeWhile (\<lambda>b. b \<noteq> 0) (take n (drop offset data)))"

subsection \<open>The checks common to the decoders\<close>

definition jk_check :: "byte list option \<Rightarrow> byte \<Rightarrow> jk_result" where
  "jk_check frame ty =
     (case frame of None \<Rightarrow> JK_EBADLEN
      | Some data \<Rightarrow>
          if length data < JK_FRAME_SIZE then JK_EBADLEN
          else if take 4 data \<noteq> JK_HEADER_RSP then JK_EBADHDR
          else if data ! 4 \<noteq> ty then JK_EBADTYPE
          else if jk_crc8 (take (JK_FRAME_SIZE - 1) data) \<noteq> data ! JK_CELL_CRC_OFFSET then JK_ECRC
          else JK_OK)"

lemma jk_check_valid: "jk_frame_valid f \<Longrightarrow> jk_check (Some f) ty = (if f ! 4 = ty then JK_OK else JK_EBADTYPE)"
  by (simp add: jk_frame_valid_def jk_check_def hdr_at_def)

lemma jk_check_OK: "jk_check frame ty = JK_OK \<Longrightarrow>
    \<exists>data. frame = Some data \<and> JK_FRAME_SIZE \<le> length data \<and> data ! 4 = ty \<and>
      jk_crc8 (take (JK_FRAME_SIZE - 1) data) = data ! JK_CELL_CRC_OFFSET"
  by (auto simp: jk_check_def split: option.splits if_splits)

subsection \<open>Cell information\<close>

record jk_cell =
  jc_index :: byte
  jc_voltage_v :: cdouble
  jc_resistance_ohm :: cdouble
  jc_enabled :: bool
  jc_balancing :: bool

record jk_cell_info =
  ci_cells :: "jk_cell list"
  ci_enabled_mask :: u32
  ci_average_cell_v :: cdouble
  ci_delta_cell_v :: cdouble
  ci_max_cell_number :: byte
  ci_min_cell_number :: byte
  ci_mosfet_temp_c :: cdouble
  ci_wire_resistance_warnings :: u32
  ci_pack_voltage_v :: cdouble
  ci_pack_power_w :: cdouble
  ci_current_a :: cdouble
  ci_temp1_c :: cdouble
  ci_temp2_c :: cdouble
  ci_temp3_c :: cdouble
  ci_temp4_c :: cdouble
  ci_temp5_c :: cdouble
  ci_errors_bitmask :: u32
  ci_balance_current_a :: cdouble
  ci_balancing_action :: int
  ci_soc_pct :: cdouble
  ci_remaining_ah :: cdouble
  ci_nominal_ah :: cdouble
  ci_cycle_count :: u32
  ci_cycle_capacity_ah :: cdouble
  ci_soh_pct :: cdouble
  ci_precharge_on :: bool
  ci_runtime_s :: u32
  ci_charge_mosfet_on :: bool
  ci_discharge_mosfet_on :: bool
  ci_precharging :: bool
  ci_balancing_indicator :: bool
  ci_heating_on :: bool
  ci_emergency_countdown_s :: u16
  ci_charge_status :: byte
  ci_raw :: "byte list option"

definition jk_cell_info_zero :: jk_cell_info where
  "jk_cell_info_zero = \<lparr>ci_cells = [], ci_enabled_mask = 0, ci_average_cell_v = 0,
     ci_delta_cell_v = 0, ci_max_cell_number = 0, ci_min_cell_number = 0, ci_mosfet_temp_c = 0,
     ci_wire_resistance_warnings = 0, ci_pack_voltage_v = 0, ci_pack_power_w = 0,
     ci_current_a = 0, ci_temp1_c = 0, ci_temp2_c = 0, ci_temp3_c = 0, ci_temp4_c = 0,
     ci_temp5_c = 0, ci_errors_bitmask = 0, ci_balance_current_a = 0, ci_balancing_action = 0,
     ci_soc_pct = 0, ci_remaining_ah = 0, ci_nominal_ah = 0, ci_cycle_count = 0,
     ci_cycle_capacity_ah = 0, ci_soh_pct = 0, ci_precharge_on = False, ci_runtime_s = 0,
     ci_charge_mosfet_on = False, ci_discharge_mosfet_on = False, ci_precharging = False,
     ci_balancing_indicator = False, ci_heating_on = False, ci_emergency_countdown_s = 0,
     ci_charge_status = 0, ci_raw = None\<rparr>"

definition jk_off :: "jk_proto \<Rightarrow> nat" where
  "jk_off proto = (if proto = JK_PROTO_JK02_24S then 32 else 0)"

definition jk_slots :: "jk_proto \<Rightarrow> nat" where
  "jk_slots proto = (if proto = JK_PROTO_JK02_32S then 32 else 24)"

definition decode_cell :: "byte list \<Rightarrow> jk_proto \<Rightarrow> nat \<Rightarrow> jk_cell" where
  "decode_cell data proto i =
     (let roff = 80 - jk_off proto + i * 2 in
      \<lparr>jc_index = of_nat (i + 1), jc_voltage_v = milli (jk_u16 data (6 + i * 2)),
       jc_resistance_ohm = (if roff + 2 \<le> JK_FRAME_SIZE then milli (jk_u16 data roff) else 0),
       jc_enabled = True, jc_balancing = False\<rparr>)"

definition decode_cells :: "byte list \<Rightarrow> jk_proto \<Rightarrow> jk_cell list" where
  "decode_cells data proto =
     map (decode_cell data proto) (filter (\<lambda>i. jk_u16 data (6 + i * 2) \<noteq> 0) [0..<jk_slots proto])"

definition derived_fields :: "byte list \<Rightarrow> jk_proto \<Rightarrow> jk_cell_info \<Rightarrow> jk_cell_info" where
  "derived_fields data proto out =
     (let o24 = jk_off proto;
          out = out\<lparr>
            ci_average_cell_v := milli (jk_u16 data (74 - o24)),
            ci_delta_cell_v := milli (jk_u16 data (76 - o24)),
            ci_max_cell_number := data ! (78 - o24), ci_min_cell_number := data ! (79 - o24),
            ci_mosfet_temp_c := jk_temp_c data (144 - o24),
            ci_wire_resistance_warnings := jk_u32 data (146 - o24),
            ci_pack_voltage_v := milli (jk_u32 data (150 - o24)),
            ci_current_a := of_int (jk_i32 data (158 - o24)) / 1000,
            ci_temp1_c := jk_temp_c data (162 - o24), ci_temp2_c := jk_temp_c data (164 - o24),
            ci_errors_bitmask := jk_u32 data (166 - o24),
            ci_balance_current_a := of_int (jk_i16 data (170 - o24)) / 1000,
            ci_balancing_action := uint (data ! (172 - o24)),
            ci_soc_pct := of_int (uint (data ! (173 - o24))),
            ci_remaining_ah := milli (jk_u32 data (174 - o24)),
            ci_nominal_ah := milli (jk_u32 data (178 - o24)),
            ci_cycle_count := jk_u32 data (182 - o24),
            ci_cycle_capacity_ah := milli (jk_u32 data (186 - o24)),
            ci_soh_pct := of_int (uint (data ! (190 - o24))),
            ci_precharge_on := data ! (191 - o24) \<noteq> 0,
            ci_runtime_s := jk_u32 data (194 - o24),
            ci_charge_mosfet_on := data ! (198 - o24) \<noteq> 0,
            ci_discharge_mosfet_on := data ! (199 - o24) \<noteq> 0,
            ci_precharging := data ! (200 - o24) \<noteq> 0,
            ci_balancing_indicator := data ! (201 - o24) \<noteq> 0,
            ci_heating_on := (215 - o24 < JK_FRAME_SIZE \<and> data ! (215 - o24) \<noteq> 0),
            ci_emergency_countdown_s :=
              (if 218 - o24 + 2 \<le> JK_FRAME_SIZE then jk_u16 data (218 - o24) else 0)\<rparr>;
          out = (if proto = JK_PROTO_JK02_32S
                 then out\<lparr>ci_temp5_c := jk_temp_c data 254, ci_temp4_c := jk_temp_c data 256,
                          ci_temp3_c := jk_temp_c data 258, ci_charge_status := data ! 280\<rparr>
                 else out)
      in out\<lparr>ci_pack_power_w := ci_pack_voltage_v out * ci_current_a out\<rparr>)"

definition cell_sum :: "jk_cell list \<Rightarrow> cdouble" where
  "cell_sum cells = foldl (\<lambda>s c. s + jc_voltage_v c) 0 cells"

definition cell_max :: "jk_cell list \<Rightarrow> cdouble" where
  "cell_max cells = foldl (\<lambda>m c. if m < jc_voltage_v c then jc_voltage_v c else m) 0 cells"

definition mark_balancing :: "jk_cell_info \<Rightarrow> jk_cell_info" where
  "mark_balancing out =
     (if ci_balancing_action out \<noteq> 0 \<or> ci_balancing_indicator out
      then out\<lparr>ci_cells := map (\<lambda>c. c\<lparr>jc_balancing :=
             cell_max (ci_cells out) - jc_voltage_v c \<le> 2/1000\<rparr>) (ci_cells out)\<rparr>
      else out)"

definition jk_decode_cell_info ::
  "byte list option \<Rightarrow> jk_proto \<Rightarrow> byte \<Rightarrow> jk_result \<times> jk_cell_info" where
  "jk_decode_cell_info frame proto expected_cells =
     (let zero = jk_cell_info_zero; chk = jk_check frame JK_FRAME_CELL_INFO in
      if chk \<noteq> JK_OK then (chk, zero)
      else let data = the frame;
               out = zero\<lparr>ci_raw := Some data, ci_enabled_mask := jk_u32 data (70 - jk_off proto),
                          ci_cells := decode_cells data proto\<rparr>;
               n = length (ci_cells out)
           in if jk_slots proto < n then (JK_EIMPLAUSIBLE, out)
              else if expected_cells \<noteq> 0 \<and> unat expected_cells + 1 < n then (JK_EIMPLAUSIBLE, out)
              else
                let out = derived_fields data proto out;
                    sum = cell_sum (ci_cells out)
                in if \<exists>c \<in> set (ci_cells out). jc_voltage_v c < 1/2 \<or> 5 < jc_voltage_v c
                   then (JK_EIMPLAUSIBLE, out)
                   else if 0 < n \<and> (ci_pack_voltage_v out < sum - (15/100 * sum + 1) \<or>
                                    sum + (15/100 * sum + 1) < ci_pack_voltage_v out)
                   then (JK_EIMPLAUSIBLE, out)
                   else if 2000 < ci_current_a out \<or> ci_current_a out < -2000 then (JK_EIMPLAUSIBLE, out)
                   else if 100 < ci_soc_pct out then (JK_EIMPLAUSIBLE, out)
                   else (JK_OK, mark_balancing out))"

subsection \<open>Device information and settings\<close>

record jk_device_info =
  di_vendor :: "byte list"
  di_hardware_version :: "byte list"
  di_software_version :: "byte list"
  di_uptime_s :: u32
  di_power_on_count :: u32
  di_device_name :: "byte list"
  di_device_passcode :: "byte list"
  di_manufacturing_date :: "byte list"
  di_serial_number :: "byte list"
  di_user_data :: "byte list"
  di_raw :: "byte list option"

definition jk_decode_device_info :: "byte list option \<Rightarrow> jk_result \<times> jk_device_info" where
  "jk_decode_device_info frame =
     (let zero = \<lparr>di_vendor = [], di_hardware_version = [], di_software_version = [],
            di_uptime_s = 0, di_power_on_count = 0, di_device_name = [], di_device_passcode = [],
            di_manufacturing_date = [], di_serial_number = [], di_user_data = [], di_raw = frame\<rparr>;
          chk = jk_check frame JK_FRAME_DEVICE_INFO; data = the frame
      in if chk \<noteq> JK_OK then (chk, zero)
         else (JK_OK, \<lparr>di_vendor = read_str data 6 16, di_hardware_version = read_str data 22 8,
            di_software_version = read_str data 30 8, di_uptime_s = jk_u32 data 38,
            di_power_on_count = jk_u32 data 42, di_device_name = read_str data 46 16,
            di_device_passcode = read_str data 62 16, di_manufacturing_date = read_str data 78 8,
            di_serial_number = read_str data 86 16, di_user_data = read_str data 102 16,
            di_raw = frame\<rparr>))"

record jk_settings =
  js_cell_uvp_v :: cdouble
  js_cell_uvpr_v :: cdouble
  js_cell_ovp_v :: cdouble
  js_cell_ovpr_v :: cdouble
  js_cell_rcv_v :: xdouble
  js_balance_trigger_v :: cdouble
  js_start_balance_v :: cdouble
  js_power_off_v :: cdouble
  js_max_charge_a :: cdouble
  js_max_discharge_a :: cdouble
  js_max_balance_a :: cdouble
  js_charge_otp_c :: cdouble
  js_discharge_otp_c :: cdouble
  js_charge_utp_c :: cdouble
  js_power_tube_otp_c :: cdouble
  js_cell_count :: byte
  js_charge_switch :: bool
  js_discharge_switch :: bool
  js_balancer_switch :: bool
  js_nominal_ah :: cdouble
  js_raw :: "byte list option"

definition jk_settings_zero :: jk_settings where
  "jk_settings_zero = \<lparr>js_cell_uvp_v = 0, js_cell_uvpr_v = 0, js_cell_ovp_v = 0,
     js_cell_ovpr_v = 0, js_cell_rcv_v = XFin 0, js_balance_trigger_v = 0, js_start_balance_v = 0,
     js_power_off_v = 0, js_max_charge_a = 0, js_max_discharge_a = 0, js_max_balance_a = 0,
     js_charge_otp_c = 0, js_discharge_otp_c = 0, js_charge_utp_c = 0, js_power_tube_otp_c = 0,
     js_cell_count = 0, js_charge_switch = False, js_discharge_switch = False,
     js_balancer_switch = False, js_nominal_ah = 0, js_raw = None\<rparr>"

definition jk_decode_settings :: "byte list option \<Rightarrow> jk_result \<times> jk_settings" where
  "jk_decode_settings frame =
     (let zero = jk_settings_zero\<lparr>js_raw := frame\<rparr>; chk = jk_check frame JK_FRAME_SETTINGS; data = the frame
      in if chk \<noteq> JK_OK then (chk, zero)
         else (JK_OK, \<lparr>js_cell_uvp_v = milli (jk_u32 data 10), js_cell_uvpr_v = milli (jk_u32 data 14),
            js_cell_ovp_v = milli (jk_u32 data 18), js_cell_ovpr_v = milli (jk_u32 data 22),
            js_cell_rcv_v = XFin (milli (jk_u32 data 38)), js_balance_trigger_v = milli (jk_u32 data 26),
            js_start_balance_v = milli (jk_u32 data 138), js_power_off_v = milli (jk_u32 data 46),
            js_max_charge_a = milli (jk_u32 data 50), js_max_discharge_a = milli (jk_u32 data 62),
            js_max_balance_a = milli (jk_u32 data 78), js_charge_otp_c = tenth (jk_u32 data 82),
            js_discharge_otp_c = tenth (jk_u32 data 90),
            js_charge_utp_c = of_int (jk_i32 data 98) / 10,
            js_power_tube_otp_c = of_int (jk_i32 data 106) / 10,
            js_cell_count = data ! 114, js_charge_switch = data ! 118 \<noteq> 0,
            js_discharge_switch = data ! 122 \<noteq> 0, js_balancer_switch = data ! 126 \<noteq> 0,
            js_nominal_ah = milli (jk_u32 data 130), js_raw = frame\<rparr>))"

subsection \<open>What an accepted cell frame satisfies\<close>

definition cell_ok :: "byte list \<Rightarrow> jk_proto \<Rightarrow> jk_cell \<Rightarrow> bool" where
  "cell_ok data proto c \<longleftrightarrow> 1 \<le> jc_index c \<and> unat (jc_index c) \<le> jk_slots proto \<and> jc_enabled c \<and>
     jc_voltage_v c = milli (jk_u16 data (6 + (unat (jc_index c) - 1) * 2)) \<and>
     1/2 \<le> jc_voltage_v c \<and> jc_voltage_v c \<le> 5"

lemma cell_ok_balancing [simp]: "cell_ok data proto (c\<lparr>jc_balancing := b\<rparr>) = cell_ok data proto c"
  by (simp add: cell_ok_def)

lemma jk_slots_le: "jk_slots proto \<le> 32"
  by (simp add: jk_slots_def)

lemma index_decode_cell [simp]:
  "i < jk_slots proto \<Longrightarrow> unat (jc_index (decode_cell data proto i)) = i + 1"
  using jk_slots_le [of proto] unat_of_nat [of "i + 1", where 'a = 8]
  by (simp add: decode_cell_def Let_def)

lemma decode_cell_fields [simp]:
  "jc_voltage_v (decode_cell data proto i) = milli (jk_u16 data (6 + i * 2))"
  "jc_enabled (decode_cell data proto i)"
  by (simp_all add: decode_cell_def Let_def)

lemma decode_cells_index:
  "map (\<lambda>c. unat (jc_index c)) (decode_cells data proto) =
     map Suc (filter (\<lambda>i. jk_u16 data (6 + i * 2) \<noteq> 0) [0..<jk_slots proto])"
  by (auto simp: decode_cells_def)

lemma derived_cells [simp]: "ci_cells (derived_fields data proto out) = ci_cells out"
  by (simp add: derived_fields_def Let_def)

lemma mark_balancing_fields [simp]:
  "ci_soc_pct (mark_balancing out) = ci_soc_pct out" "ci_current_a (mark_balancing out) = ci_current_a out"
  "ci_pack_voltage_v (mark_balancing out) = ci_pack_voltage_v out"
  "ci_balancing_action (mark_balancing out) = ci_balancing_action out"
  "ci_balancing_indicator (mark_balancing out) = ci_balancing_indicator out"
  "map jc_voltage_v (ci_cells (mark_balancing out)) = map jc_voltage_v (ci_cells out)"
  "map (\<lambda>c. unat (jc_index c)) (ci_cells (mark_balancing out)) = map (\<lambda>c. unat (jc_index c)) (ci_cells out)"
  by (simp_all add: mark_balancing_def)

lemma cell_sum_map: "map jc_voltage_v cs = map jc_voltage_v ds \<Longrightarrow> cell_sum cs = cell_sum ds"
proof -
  have "foldl (\<lambda>s c. s + jc_voltage_v c) a cs = a + sum_list (map jc_voltage_v cs)"
    for a and cs :: "jk_cell list" by (induction cs arbitrary: a) (auto simp: add.assoc)
  then show "map jc_voltage_v cs = map jc_voltage_v ds \<Longrightarrow> cell_sum cs = cell_sum ds"
    by (simp add: cell_sum_def)
qed

lemma unsigned_nonneg [simp]: "0 \<le> (unsigned w :: rat)"
  using of_nat_0_le_iff [of "unat w", where 'a = rat] by simp

text \<open>The one place where the decoder says yes.\<close>

lemma decode_cell_info_OK:
  assumes "jk_decode_cell_info frame proto expected = (JK_OK, r)"
  obtains data out where "frame = Some data" "jk_check frame JK_FRAME_CELL_INFO = JK_OK"
    "ci_cells out = decode_cells data proto" "r = mark_balancing out"
    "length (decode_cells data proto) \<le> jk_slots proto"
    "expected \<noteq> 0 \<longrightarrow> length (decode_cells data proto) \<le> unat expected + 1"
    "\<forall>c \<in> set (decode_cells data proto). 1/2 \<le> jc_voltage_v c \<and> jc_voltage_v c \<le> 5"
    "decode_cells data proto \<noteq> [] \<longrightarrow>
       \<bar>ci_pack_voltage_v out - cell_sum (decode_cells data proto)\<bar> \<le> 15/100 * cell_sum (decode_cells data proto) + 1"
    "\<bar>ci_current_a out\<bar> \<le> 2000" "ci_soc_pct out \<le> 100" "0 \<le> ci_soc_pct out"
proof -
  have chk: "jk_check frame JK_FRAME_CELL_INFO = JK_OK"
    using assms by (auto simp: jk_decode_cell_info_def Let_def split: if_splits)
  then obtain data where data: "frame = Some data" using jk_check_OK by blast
  define out where "out = derived_fields data proto (jk_cell_info_zero\<lparr>ci_raw := Some data,
    ci_enabled_mask := jk_u32 data (70 - jk_off proto), ci_cells := decode_cells data proto\<rparr>)"
  have cells: "ci_cells out = decode_cells data proto" by (simp add: out_def)
  have soc: "0 \<le> ci_soc_pct out" by (simp add: out_def derived_fields_def Let_def)
  have "ci_cells (jk_cell_info_zero\<lparr>ci_raw := Some data,
      ci_enabled_mask := jk_u32 data (70 - jk_off proto), ci_cells := decode_cells data proto\<rparr>) =
      decode_cells data proto" by simp
  note eq = assms [unfolded jk_decode_cell_info_def Let_def chk data option.sel, simplified, folded out_def]
  show thesis
    by (rule that [of data out])
      (use eq chk data cells soc in \<open>auto simp: not_less abs_le_iff split: if_splits\<close>)
qed

text \<open>
  A cell-information frame is accepted only if it is plausible: every live cell is a slot of the
  protocol with the slot's own voltage, between 0.5 and 5 V, the cells in slot order and no more
  than one above the expected count; the pack voltage agrees with their sum within 15% and 1 V,
  the current is within 2000 A and the state of charge a percentage.
\<close>

theorem jk_cell_info_plausible:
  assumes "jk_decode_cell_info frame proto expected = (JK_OK, r)"
  shows "\<exists>data. frame = Some data \<and> (\<forall>c \<in> set (ci_cells r). cell_ok data proto c) \<and>
    sorted_wrt (<) (map (\<lambda>c. unat (jc_index c)) (ci_cells r)) \<and>
    (expected \<noteq> 0 \<longrightarrow> length (ci_cells r) \<le> unat expected + 1) \<and>
    (ci_cells r \<noteq> [] \<longrightarrow> \<bar>ci_pack_voltage_v r - cell_sum (ci_cells r)\<bar> \<le> 15/100 * cell_sum (ci_cells r) + 1) \<and>
    \<bar>ci_current_a r\<bar> \<le> 2000 \<and> 0 \<le> ci_soc_pct r \<and> ci_soc_pct r \<le> 100"
proof -
  from assms obtain data out where o: "frame = Some data" "ci_cells out = decode_cells data proto"
    "r = mark_balancing out" "expected \<noteq> 0 \<longrightarrow> length (decode_cells data proto) \<le> unat expected + 1"
    "\<forall>c \<in> set (decode_cells data proto). 1/2 \<le> jc_voltage_v c \<and> jc_voltage_v c \<le> 5"
    "decode_cells data proto \<noteq> [] \<longrightarrow>
       \<bar>ci_pack_voltage_v out - cell_sum (decode_cells data proto)\<bar> \<le> 15/100 * cell_sum (decode_cells data proto) + 1"
    "\<bar>ci_current_a out\<bar> \<le> 2000" "ci_soc_pct out \<le> 100" "0 \<le> ci_soc_pct out"
    by (elim decode_cell_info_OK) blast
  have "cell_ok data proto c" if "c \<in> set (decode_cells data proto)" for c
    using that o(5) jk_slots_le [of proto]
    by (auto simp: cell_ok_def decode_cells_def word_le_nat_alt)
  then have ok: "\<forall>c \<in> set (ci_cells r). cell_ok data proto c"
    by (auto simp: o(2,3) mark_balancing_def)
  have idx: "map (\<lambda>c. unat (jc_index c)) (ci_cells r) =
      map Suc (filter (\<lambda>i. jk_u16 data (6 + i * 2) \<noteq> 0) [0..<jk_slots proto])"
    by (simp add: o(2,3) decode_cells_index)
  have "sorted_wrt (<) (map (\<lambda>c. unat (jc_index c)) (ci_cells r))"
    unfolding idx by (simp add: sorted_wrt_map sorted_wrt_filter)
  moreover have "length (ci_cells r) = length (decode_cells data proto)"
    using o(2,3) by (metis length_map mark_balancing_fields(6))
  moreover have "cell_sum (ci_cells r) = cell_sum (decode_cells data proto)"
    using o(2,3) by (metis cell_sum_map mark_balancing_fields(6))
  ultimately show ?thesis using o ok by auto
qed

text \<open>
  Every frame the assembler delivers passes each decoder's length, header and checksum tests: its
  type alone decides which decoder takes it, settings and device frames are then always
  accepted, and a cell frame is either accepted or rejected as implausible.
\<close>

theorem jk_delivered_frames_decode:
  assumes "jk_assembler_feed a chunk m = (fs, a')" and "f \<in> set fs"
  shows "fst (jk_decode_settings (Some f)) = (if f ! 4 = JK_FRAME_SETTINGS then JK_OK else JK_EBADTYPE) \<and>
    fst (jk_decode_device_info (Some f)) = (if f ! 4 = JK_FRAME_DEVICE_INFO then JK_OK else JK_EBADTYPE) \<and>
    (if f ! 4 = JK_FRAME_CELL_INFO then fst (jk_decode_cell_info (Some f) proto n) \<in> {JK_OK, JK_EIMPLAUSIBLE}
     else fst (jk_decode_cell_info (Some f) proto n) = JK_EBADTYPE)"
proof -
  have "jk_frame_valid f"
  proof (cases "strip_at chunk = [] \<and> length (as_buf a) < JK_FRAME_SIZE \<or>
      JK_ASM_SIZE - length (as_buf a) < length (strip_at chunk)")
    case True
    then show ?thesis using assms by (auto simp: jk_assembler_feed_def Let_def split: if_splits)
  next
    case False
    then have "jk_drain m (a\<lparr>as_buf := as_buf a @ strip_at chunk\<rparr>) = (fs, a')"
      using assms(1) by (auto simp: jk_assembler_feed_def Let_def split: if_splits)
    then show ?thesis using jk_drain_parsed parsed_frames assms(2) by blast
  qed
  note chk = jk_check_valid [OF this]
  show ?thesis
    by (auto simp: jk_decode_settings_def jk_decode_device_info_def jk_decode_cell_info_def Let_def chk)
qed

text \<open>
  With the 24-slot protocol the fixed 32-byte shift moves fields onto the cell voltages: the mask of
  enabled cells is read from the voltages of slots 17 and 18, and the resistances of slots 1 to
  3 are the voltages of slots 22 to 24.
\<close>

theorem jk_24s_fields_overlap_voltages:
  assumes "jk_decode_cell_info frame JK_PROTO_JK02_24S n = (JK_OK, r)"
  shows "\<exists>data. frame = Some data \<and>
    ci_enabled_mask r = le32 (data ! (6 + 16 * 2)) (data ! (6 + 16 * 2 + 1))
                             (data ! (6 + 17 * 2)) (data ! (6 + 17 * 2 + 1)) \<and>
    (\<forall>c \<in> set (ci_cells r). unat (jc_index c) \<le> 3 \<longrightarrow>
       jc_resistance_ohm c = milli (jk_u16 data (6 + (unat (jc_index c) - 1 + 21) * 2)))"
proof -
  let ?P = JK_PROTO_JK02_24S
  obtain data where data: "frame = Some data"
    using assms jk_check_OK [of frame JK_FRAME_CELL_INFO]
    by (auto simp: jk_decode_cell_info_def Let_def split: if_splits)
  have m: "ci_enabled_mask (mark_balancing out) = ci_enabled_mask out"
      "ci_enabled_mask (derived_fields data ?P out) = ci_enabled_mask out" for out
    by (simp_all add: mark_balancing_def derived_fields_def Let_def)
  have mask: "ci_enabled_mask r = jk_u32 data 38"
    using assms by (auto simp: jk_decode_cell_info_def Let_def data jk_off_def m split: if_splits)
  have res: "jc_resistance_ohm c = milli (jk_u16 data (6 + (unat (jc_index c) - 1 + 21) * 2))"
    if c: "c \<in> set (decode_cells data ?P)" and le: "unat (jc_index c) \<le> 3" for c
  proof -
    obtain i where i: "c = decode_cell data ?P i" "i < jk_slots ?P" using c by (auto simp: decode_cells_def)
    have "jc_resistance_ohm c = milli (jk_u16 data (48 + i * 2))"
      using i le by (simp add: decode_cell_def Let_def jk_off_def JK_FRAME_SIZE_def jk_slots_def)
    then show ?thesis using i by (simp add: add.commute)
  qed
  have "\<exists>d\<in>set (decode_cells data ?P). jc_index c = jc_index d \<and> jc_resistance_ohm c = jc_resistance_ohm d"
    if "c \<in> set (ci_cells r)" for c
  proof -
    from assms obtain out where "ci_cells out = decode_cells data ?P" "r = mark_balancing out"
      by (rule decode_cell_info_OK) (use data in auto)
    then show ?thesis using that by (auto simp: mark_balancing_def split: if_splits)
  qed
  then have "\<forall>c \<in> set (ci_cells r). unat (jc_index c) \<le> 3 \<longrightarrow>
      jc_resistance_ohm c = milli (jk_u16 data (6 + (unat (jc_index c) - 1 + 21) * 2))"
    using res by metis
  then show ?thesis using data mask by (simp add: jk_u32_def)
qed

subsection \<open>Instances\<close>

definition sample_cell_frame :: "byte list" where
  "sample_cell_frame =
     (let f = write_at (replicate 299 0) 0 (JK_HEADER_RSP @ [JK_FRAME_CELL_INFO, 1, 0xE4, 0x0C, 0xE5, 0x0C]);
          f = write_at f 118 [0xC9, 0x19]; f = write_at f 150 [0xC9, 0x19]
      in f @ [jk_crc8 f])"

lemma sample_cells_32: "fst (jk_decode_cell_info (Some sample_cell_frame) JK_PROTO_JK02_32S 2) = JK_OK"
  by code_simp

lemma sample_cells_24: "fst (jk_decode_cell_info (Some sample_cell_frame) JK_PROTO_JK02_24S 2) = JK_OK"
  by code_simp

theorem jk_cell_info_plausible_witness:
  "ci_soc_pct (snd (jk_decode_cell_info (Some sample_cell_frame) JK_PROTO_JK02_32S 2)) \<le> 100"
proof -
  have "jk_decode_cell_info (Some sample_cell_frame) JK_PROTO_JK02_32S 2 =
      (JK_OK, snd (jk_decode_cell_info (Some sample_cell_frame) JK_PROTO_JK02_32S 2))"
    using sample_cells_32 by (metis prod.collapse)
  from jk_cell_info_plausible [OF this] show ?thesis by blast
qed

theorem jk_24s_fields_overlap_voltages_witness:
  "\<exists>data. Some sample_cell_frame = Some data \<and>
    ci_enabled_mask (snd (jk_decode_cell_info (Some sample_cell_frame) JK_PROTO_JK02_24S 2)) =
      le32 (data ! 38) (data ! 39) (data ! 40) (data ! 41)"
proof -
  have "jk_decode_cell_info (Some sample_cell_frame) JK_PROTO_JK02_24S 2 =
      (JK_OK, snd (jk_decode_cell_info (Some sample_cell_frame) JK_PROTO_JK02_24S 2))"
    using sample_cells_24 by (metis prod.collapse)
  from jk_24s_fields_overlap_voltages [OF this] show ?thesis by auto
qed

theorem jk_delivered_frames_decode_witness:
  "fst (jk_decode_device_info (Some sample_frame)) = JK_OK"
proof -
  have "jk_assembler_feed jk_assembler_init sample_frame 1 = ([sample_frame], jk_assembler_init)"
    and "sample_frame ! 4 = JK_FRAME_DEVICE_INFO"
    by code_simp+
  then show ?thesis using jk_delivered_frames_decode [of jk_assembler_init sample_frame 1] by fastforce
qed

end
