(* ===== verification/ClassicCodec.thy ===== *)
theory ClassicCodec
  imports Prelude
begin

section \<open>The Classic charge controller's registers (src/classic/classic_codec.c, .h)\<close>

text \<open>
  The decoder of a MidNite Classic's Modbus register image. The image is the list of its registers
  (\<open>None\<close> for a null pointer), indexed by wire address. A result is the code with the \<open>out\<close>
  structure as the function leaves it: without an image it is the one passed in, otherwise it is cleared
  first, and an early return leaves the fields decoded so far.
\<close>

datatype classic_result = CLASSIC_OK | CLASSIC_EBADLEN | CLASSIC_ETYPE_MISMATCH | CLASSIC_EMISSING_REG
  | CLASSIC_EBADREG

datatype classic_stage = CLASSIC_STAGE_RESTING | CLASSIC_STAGE_ABSORB | CLASSIC_STAGE_BULK_MPPT
  | CLASSIC_STAGE_FLOAT | CLASSIC_STAGE_FLOAT_MPPT | CLASSIC_STAGE_EQUALIZE | CLASSIC_STAGE_HYPERVOC
  | CLASSIC_STAGE_EQMPPT | CLASSIC_STAGE_CODE byte

definition CLASSIC_REG_UNIT_MAC_LO :: nat where "CLASSIC_REG_UNIT_MAC_LO = 4105"
definition CLASSIC_REG_UNIT_MAC_MID :: nat where "CLASSIC_REG_UNIT_MAC_MID = 4106"
definition CLASSIC_REG_UNIT_MAC_HI :: nat where "CLASSIC_REG_UNIT_MAC_HI = 4107"
definition CLASSIC_REG_DEVICE_ID_LO :: nat where "CLASSIC_REG_DEVICE_ID_LO = 4110"
definition CLASSIC_REG_DEVICE_ID_HI :: nat where "CLASSIC_REG_DEVICE_ID_HI = 4111"
definition CLASSIC_REG_BATT_VOLTAGE :: nat where "CLASSIC_REG_BATT_VOLTAGE = 4114"
definition CLASSIC_REG_IBATT :: nat where "CLASSIC_REG_IBATT = 4116"
definition CLASSIC_REG_KWH_TODAY :: nat where "CLASSIC_REG_KWH_TODAY = 4117"
definition CLASSIC_REG_WATTS :: nat where "CLASSIC_REG_WATTS = 4118"
definition CLASSIC_REG_CHARGE_STAGE :: nat where "CLASSIC_REG_CHARGE_STAGE = 4119"
definition CLASSIC_REG_AH_TODAY :: nat where "CLASSIC_REG_AH_TODAY = 4124"
definition CLASSIC_REG_LIFETIME_KWH_LO :: nat where "CLASSIC_REG_LIFETIME_KWH_LO = 4125"
definition CLASSIC_REG_LIFETIME_KWH_HI :: nat where "CLASSIC_REG_LIFETIME_KWH_HI = 4126"
definition CLASSIC_REG_CLASSIC_NAME :: nat where "CLASSIC_REG_CLASSIC_NAME = 4209"
definition CLASSIC_EXPECTED_NAME :: u16 where "CLASSIC_EXPECTED_NAME = 0x4C43"

lemmas classic_regs =
  CLASSIC_REG_UNIT_MAC_LO_def CLASSIC_REG_UNIT_MAC_MID_def CLASSIC_REG_UNIT_MAC_HI_def
  CLASSIC_REG_DEVICE_ID_LO_def CLASSIC_REG_DEVICE_ID_HI_def CLASSIC_REG_BATT_VOLTAGE_def
  CLASSIC_REG_IBATT_def CLASSIC_REG_KWH_TODAY_def CLASSIC_REG_WATTS_def
  CLASSIC_REG_CHARGE_STAGE_def CLASSIC_REG_AH_TODAY_def CLASSIC_REG_LIFETIME_KWH_LO_def
  CLASSIC_REG_LIFETIME_KWH_HI_def CLASSIC_REG_CLASSIC_NAME_def

record classic_data =
  cd_battery_voltage_v :: cdouble
  cd_ibatt_raw :: int
  cd_ibatt_a :: cdouble
  cd_kwh_today :: cdouble
  cd_watts :: u16
  cd_ah_today :: cdouble
  cd_lifetime_kwh :: u32
  cd_charge_stage :: classic_stage
  cd_charge_stage_name :: string
  cd_charge_stage_msb :: byte
  cd_unit_mac :: "byte list"
  cd_device_id :: u32
  cd_classic_name :: u16

definition classic_data_zero :: classic_data where
  "classic_data_zero = \<lparr>cd_battery_voltage_v = 0, cd_ibatt_raw = 0, cd_ibatt_a = 0,
     cd_kwh_today = 0, cd_watts = 0, cd_ah_today = 0, cd_lifetime_kwh = 0,
     cd_charge_stage = CLASSIC_STAGE_RESTING, cd_charge_stage_name = [], cd_charge_stage_msb = 0,
     cd_unit_mac = replicate 6 0, cd_device_id = 0, cd_classic_name = 0\<rparr>"

text \<open>\<open>%u\<close> of a byte.\<close>

definition dec_digit :: "nat \<Rightarrow> char" where
  "dec_digit d = char_of (48 + d mod 10)"

definition dec_byte :: "byte \<Rightarrow> string" where
  "dec_byte b = (let n = unat b in
     (if 100 \<le> n then [dec_digit (n div 100)] else []) @
     (if 10 \<le> n then [dec_digit (n div 10)] else []) @ [dec_digit n])"

definition classic_charge_stage_name :: "byte \<Rightarrow> string" where
  "classic_charge_stage_name msb =
     (if msb = 0 then ''Resting'' else if msb = 3 then ''Absorb'' else if msb = 4 then ''BulkMppt''
      else if msb = 5 then ''Float'' else if msb = 6 then ''FloatMppt''
      else if msb = 7 then ''Equalize'' else if msb = 10 then ''HyperVoc''
      else if msb = 18 then ''EqMppt'' else c_copy 16 (''Unknown('' @ dec_byte msb @ '')''))"

definition classic_charge_stage :: "byte \<Rightarrow> classic_stage" where
  "classic_charge_stage msb =
     (if msb = 0 then CLASSIC_STAGE_RESTING else if msb = 3 then CLASSIC_STAGE_ABSORB
      else if msb = 4 then CLASSIC_STAGE_BULK_MPPT else if msb = 5 then CLASSIC_STAGE_FLOAT
      else if msb = 6 then CLASSIC_STAGE_FLOAT_MPPT else if msb = 7 then CLASSIC_STAGE_EQUALIZE
      else if msb = 10 then CLASSIC_STAGE_HYPERVOC else if msb = 18 then CLASSIC_STAGE_EQMPPT
      else CLASSIC_STAGE_CODE msb)"

text \<open>
  The macro \<open>R(addr)\<close> returns early when a register is missing: \<open>need\<close> continues with the rest of
  the function only where it is present. \<open>U16\<close> reads 0 beyond the image.
\<close>

definition need ::
  "u16 list \<Rightarrow> nat \<Rightarrow> classic_data \<Rightarrow> (classic_data \<Rightarrow> classic_result \<times> classic_data)
     \<Rightarrow> classic_result \<times> classic_data" where
  "need regs addr out rest = (if length regs \<le> addr then (CLASSIC_EMISSING_REG, out) else rest out)"

definition U16 :: "u16 list \<Rightarrow> nat \<Rightarrow> u16" where
  "U16 regs addr = (if addr < length regs then regs ! addr else 0)"

definition hi_byte :: "u16 \<Rightarrow> byte" where "hi_byte w = ucast (drop_bit 8 w)"
definition lo_byte :: "u16 \<Rightarrow> byte" where "lo_byte w = ucast w"

definition classic_decode :: "u16 list option \<Rightarrow> classic_data \<Rightarrow> classic_result \<times> classic_data" where
  "classic_decode input out =
     (case input of None \<Rightarrow> (CLASSIC_EBADREG, out)
      | Some regs \<Rightarrow>
          need regs CLASSIC_REG_CLASSIC_NAME classic_data_zero (\<lambda>out.
          let out = out\<lparr>cd_classic_name := U16 regs CLASSIC_REG_CLASSIC_NAME\<rparr> in
          if cd_classic_name out \<noteq> CLASSIC_EXPECTED_NAME then (CLASSIC_ETYPE_MISMATCH, out)
          else need regs CLASSIC_REG_BATT_VOLTAGE out (\<lambda>out.
          let out = out\<lparr>cd_battery_voltage_v := of_int (uint (U16 regs CLASSIC_REG_BATT_VOLTAGE)) / 10\<rparr> in
          need regs CLASSIC_REG_IBATT out (\<lambda>out.
          let raw = sint (U16 regs CLASSIC_REG_IBATT);
              out = out\<lparr>cd_ibatt_raw := raw, cd_ibatt_a := of_int raw / 10\<rparr> in
          need regs CLASSIC_REG_KWH_TODAY out (\<lambda>out.
          let out = out\<lparr>cd_kwh_today := of_int (uint (U16 regs CLASSIC_REG_KWH_TODAY)) / 10\<rparr> in
          need regs CLASSIC_REG_WATTS out (\<lambda>out.
          let out = out\<lparr>cd_watts := U16 regs CLASSIC_REG_WATTS\<rparr> in
          need regs CLASSIC_REG_CHARGE_STAGE out (\<lambda>out.
          let msb = hi_byte (U16 regs CLASSIC_REG_CHARGE_STAGE);
              out = out\<lparr>cd_charge_stage_msb := msb,
                        cd_charge_stage_name := c_copy 16 (classic_charge_stage_name msb),
                        cd_charge_stage := classic_charge_stage msb\<rparr> in
          need regs CLASSIC_REG_AH_TODAY out (\<lambda>out.
          let out = out\<lparr>cd_ah_today := of_int (uint (U16 regs CLASSIC_REG_AH_TODAY))\<rparr> in
          need regs CLASSIC_REG_LIFETIME_KWH_LO out (\<lambda>out.
          need regs CLASSIC_REG_LIFETIME_KWH_HI out (\<lambda>out.
          let out = out\<lparr>cd_lifetime_kwh := join32 (U16 regs CLASSIC_REG_LIFETIME_KWH_HI)
                                                  (U16 regs CLASSIC_REG_LIFETIME_KWH_LO)\<rparr> in
          need regs CLASSIC_REG_UNIT_MAC_LO out (\<lambda>out.
          need regs CLASSIC_REG_UNIT_MAC_MID out (\<lambda>out.
          need regs CLASSIC_REG_UNIT_MAC_HI out (\<lambda>out.
          let hi = U16 regs CLASSIC_REG_UNIT_MAC_HI; mid = U16 regs CLASSIC_REG_UNIT_MAC_MID;
              lo = U16 regs CLASSIC_REG_UNIT_MAC_LO;
              out = out\<lparr>cd_unit_mac := [hi_byte hi, lo_byte hi, hi_byte mid, lo_byte mid,
                                        hi_byte lo, lo_byte lo]\<rparr> in
          need regs CLASSIC_REG_DEVICE_ID_LO out (\<lambda>out.
          need regs CLASSIC_REG_DEVICE_ID_HI out (\<lambda>out.
          let out = out\<lparr>cd_device_id := join32 (U16 regs CLASSIC_REG_DEVICE_ID_HI)
                                               (U16 regs CLASSIC_REG_DEVICE_ID_LO)\<rparr> in
          (CLASSIC_OK, out))))))))))))))))"

subsection \<open>The register image of a reading\<close>

text \<open>What the controller answers for a reading: the specification's inverse of the decoder.\<close>

definition classic_image :: "classic_data \<Rightarrow> u16 list" where
  "classic_image d =
     (let r = replicate 4210 0;
          r = r[CLASSIC_REG_CLASSIC_NAME := CLASSIC_EXPECTED_NAME];
          r = r[CLASSIC_REG_BATT_VOLTAGE := of_int (c_round (cd_battery_voltage_v d * 10))];
          r = r[CLASSIC_REG_IBATT := of_int (cd_ibatt_raw d)];
          r = r[CLASSIC_REG_KWH_TODAY := of_int (c_round (cd_kwh_today d * 10))];
          r = r[CLASSIC_REG_WATTS := cd_watts d];
          r = r[CLASSIC_REG_CHARGE_STAGE := be16 (cd_charge_stage_msb d) 0];
          r = r[CLASSIC_REG_AH_TODAY := of_int (c_round (cd_ah_today d))];
          r = r[CLASSIC_REG_LIFETIME_KWH_LO := ucast (cd_lifetime_kwh d)];
          r = r[CLASSIC_REG_LIFETIME_KWH_HI := ucast (drop_bit 16 (cd_lifetime_kwh d))];
          r = r[CLASSIC_REG_UNIT_MAC_HI := be16 (cd_unit_mac d ! 0) (cd_unit_mac d ! 1)];
          r = r[CLASSIC_REG_UNIT_MAC_MID := be16 (cd_unit_mac d ! 2) (cd_unit_mac d ! 3)];
          r = r[CLASSIC_REG_UNIT_MAC_LO := be16 (cd_unit_mac d ! 4) (cd_unit_mac d ! 5)];
          r = r[CLASSIC_REG_DEVICE_ID_LO := ucast (cd_device_id d)];
          r = r[CLASSIC_REG_DEVICE_ID_HI := ucast (drop_bit 16 (cd_device_id d))]
      in r)"

definition tenths_u16 :: "cdouble \<Rightarrow> bool" where
  "tenths_u16 v \<longleftrightarrow> (\<exists>z :: u16. v = of_int (uint z) / 10)"

text \<open>The readings a controller can express.\<close>

definition classic_wf :: "classic_data \<Rightarrow> bool" where
  "classic_wf d \<longleftrightarrow> tenths_u16 (cd_battery_voltage_v d) \<and> tenths_u16 (cd_kwh_today d) \<and>
     (\<exists>z :: u16. cd_ah_today d = of_int (uint z)) \<and>
     - 32768 \<le> cd_ibatt_raw d \<and> cd_ibatt_raw d < 32768 \<and> cd_ibatt_a d = of_int (cd_ibatt_raw d) / 10 \<and>
     cd_charge_stage d = classic_charge_stage (cd_charge_stage_msb d) \<and>
     cd_charge_stage_name d = classic_charge_stage_name (cd_charge_stage_msb d) \<and>
     length (cd_unit_mac d) = 6 \<and> cd_classic_name d = CLASSIC_EXPECTED_NAME"

lemma hi_lo_be16 [simp]: "hi_byte (be16 a b) = a" "lo_byte (be16 a b) = b"
  by (auto simp: hi_byte_def lo_byte_def be16_def bit_eq_iff bit_simps)

lemma join32_split [simp]: "join32 (ucast (drop_bit 16 w)) (ucast (w :: u32)) = w"
proof (rule bit_word_eqI)
  fix n assume "n < LENGTH(32)"
  then show "bit (join32 (ucast (drop_bit 16 w)) (ucast w)) n = bit w n"
    by (cases "n < 16") (auto simp: join32_def bit_simps)
qed

lemma uint_back: "uint (of_int (uint z) :: u16) = uint (z :: u16)"
  by simp

lemma tenths_back: "tenths_u16 v \<Longrightarrow> of_int (uint (of_int (c_round (v * 10)) :: u16)) / 10 = v"
  by (auto simp: tenths_u16_def uint_back simp del: of_int_uint)

lemma stage_name_short: "length (classic_charge_stage_name msb) < 16"
  by (simp add: classic_charge_stage_name_def min_less_iff_disj)

text \<open>
  The decoder has three outcomes on an image: it misses a register exactly when the image does not
  reach the type register 4209 (then nothing is decoded), it reports a type mismatch exactly when
  that register is not 'LC', and otherwise it decodes; the later register checks never fail.
\<close>

theorem classic_decode_outcomes:
  "fst (classic_decode (Some regs) out) =
     (if length regs \<le> 4209 then CLASSIC_EMISSING_REG
      else if regs ! 4209 \<noteq> 0x4C43 then CLASSIC_ETYPE_MISMATCH else CLASSIC_OK) \<and>
   (length regs \<le> 4209 \<longrightarrow> snd (classic_decode (Some regs) out) = classic_data_zero)"
  by (simp add: classic_decode_def need_def Let_def classic_regs U16_def CLASSIC_EXPECTED_NAME_def)

lemma classic_image_decodes:
  assumes "classic_wf d"
  shows "classic_decode (Some (classic_image d)) out = (CLASSIC_OK, d)"
proof -
  have mac: "cd_unit_mac d = [cd_unit_mac d ! 0, cd_unit_mac d ! 1, cd_unit_mac d ! 2,
      cd_unit_mac d ! 3, cd_unit_mac d ! 4, cd_unit_mac d ! 5]"
    using assms by (intro nth_equalityI) (auto simp: classic_wf_def less_Suc_eq numeral_eq_Suc)
  have raw: "sint (of_int (cd_ibatt_raw d) :: u16) = cd_ibatt_raw d"
    using assms by (simp add: classic_wf_def signed_of_int signed_take_bit_int_eq_self)
  have ah: "of_int (uint (of_int (c_round (cd_ah_today d)) :: u16)) = cd_ah_today d"
    using assms by (auto simp: classic_wf_def uint_back simp del: of_int_uint)
  have name: "c_copy 16 (cd_charge_stage_name d) = cd_charge_stage_name d"
    using assms stage_name_short by (simp add: classic_wf_def)
  have len: "length (classic_image d) = 4210" by (simp add: classic_image_def Let_def)
  have at: "classic_image d ! CLASSIC_REG_CLASSIC_NAME = CLASSIC_EXPECTED_NAME"
    "classic_image d ! CLASSIC_REG_BATT_VOLTAGE = of_int (c_round (cd_battery_voltage_v d * 10))"
    "classic_image d ! CLASSIC_REG_IBATT = of_int (cd_ibatt_raw d)"
    "classic_image d ! CLASSIC_REG_KWH_TODAY = of_int (c_round (cd_kwh_today d * 10))"
    "classic_image d ! CLASSIC_REG_WATTS = cd_watts d"
    "classic_image d ! CLASSIC_REG_CHARGE_STAGE = be16 (cd_charge_stage_msb d) 0"
    "classic_image d ! CLASSIC_REG_AH_TODAY = of_int (c_round (cd_ah_today d))"
    "classic_image d ! CLASSIC_REG_LIFETIME_KWH_LO = ucast (cd_lifetime_kwh d)"
    "classic_image d ! CLASSIC_REG_LIFETIME_KWH_HI = ucast (drop_bit 16 (cd_lifetime_kwh d))"
    "classic_image d ! CLASSIC_REG_UNIT_MAC_HI = be16 (cd_unit_mac d ! 0) (cd_unit_mac d ! 1)"
    "classic_image d ! CLASSIC_REG_UNIT_MAC_MID = be16 (cd_unit_mac d ! 2) (cd_unit_mac d ! 3)"
    "classic_image d ! CLASSIC_REG_UNIT_MAC_LO = be16 (cd_unit_mac d ! 4) (cd_unit_mac d ! 5)"
    "classic_image d ! CLASSIC_REG_DEVICE_ID_LO = ucast (cd_device_id d)"
    "classic_image d ! CLASSIC_REG_DEVICE_ID_HI = ucast (drop_bit 16 (cd_device_id d))"
    by (simp_all add: classic_image_def Let_def classic_regs nth_list_update)
  have rest: "cd_charge_stage d = classic_charge_stage (cd_charge_stage_msb d)"
    "classic_charge_stage_name (cd_charge_stage_msb d) = cd_charge_stage_name d"
    "cd_classic_name d = CLASSIC_EXPECTED_NAME" "cd_ibatt_a d = of_int (cd_ibatt_raw d) / 10"
    "tenths_u16 (cd_battery_voltage_v d)" "tenths_u16 (cd_kwh_today d)"
    using assms by (simp_all add: classic_wf_def)
  have U: "U16 (classic_image d) a = classic_image d ! a" if "a \<le> 4209" for a
    using that len by (simp add: U16_def)
  have n: "need (classic_image d) a out k = k out" if "a \<le> 4209" for a out k
    using that len by (simp add: need_def)
  have le: "CLASSIC_REG_CLASSIC_NAME \<le> 4209" "CLASSIC_REG_BATT_VOLTAGE \<le> 4209" "CLASSIC_REG_IBATT \<le> 4209"
    "CLASSIC_REG_KWH_TODAY \<le> 4209" "CLASSIC_REG_WATTS \<le> 4209" "CLASSIC_REG_CHARGE_STAGE \<le> 4209"
    "CLASSIC_REG_AH_TODAY \<le> 4209" "CLASSIC_REG_LIFETIME_KWH_LO \<le> 4209" "CLASSIC_REG_LIFETIME_KWH_HI \<le> 4209"
    "CLASSIC_REG_UNIT_MAC_HI \<le> 4209" "CLASSIC_REG_UNIT_MAC_MID \<le> 4209" "CLASSIC_REG_UNIT_MAC_LO \<le> 4209"
    "CLASSIC_REG_DEVICE_ID_LO \<le> 4209" "CLASSIC_REG_DEVICE_ID_HI \<le> 4209"
    by (simp_all add: classic_regs)
  let ?X = "classic_data_zero\<lparr>cd_classic_name := CLASSIC_EXPECTED_NAME,
    cd_battery_voltage_v := cd_battery_voltage_v d, cd_ibatt_raw := cd_ibatt_raw d,
    cd_ibatt_a := cd_ibatt_a d, cd_kwh_today := cd_kwh_today d, cd_watts := cd_watts d,
    cd_charge_stage_msb := cd_charge_stage_msb d, cd_charge_stage_name := cd_charge_stage_name d,
    cd_charge_stage := cd_charge_stage d, cd_ah_today := cd_ah_today d,
    cd_lifetime_kwh := cd_lifetime_kwh d, cd_unit_mac := [cd_unit_mac d ! 0, cd_unit_mac d ! 1,
      cd_unit_mac d ! 2, cd_unit_mac d ! 3, cd_unit_mac d ! 4, cd_unit_mac d ! 5],
    cd_device_id := cd_device_id d\<rparr>"
  have "classic_decode (Some (classic_image d)) out = (CLASSIC_OK, ?X)"
    using tenths_back [OF rest(5)] tenths_back [OF rest(6)]
    by (simp add: classic_decode_def Let_def n U le at raw ah name rest(1,2,4) del: of_int_uint)
  also have "?X = d"
    by (rule classic_data.equality) (simp_all add: mac [symmetric, simplified] rest(3))
  finally show ?thesis .
qed

text \<open>
  Decoding is the inverse of the register image: every reading a controller can express comes back
  field by field, negative battery currents, both 32-bit counters and the MAC address included.
\<close>

theorem classic_roundtrip:
  assumes "classic_wf d"
  shows "classic_decode (Some (classic_image d)) out = (CLASSIC_OK, d)"
  using assms by (rule classic_image_decodes)

definition sample_reading :: classic_data where
  "sample_reading = classic_data_zero\<lparr>cd_battery_voltage_v := 531/10, cd_ibatt_raw := -12,
     cd_ibatt_a := -12/10, cd_watts := 800, cd_lifetime_kwh := 70000, cd_charge_stage_msb := 4,
     cd_charge_stage := CLASSIC_STAGE_BULK_MPPT, cd_charge_stage_name := ''BulkMppt'',
     cd_classic_name := CLASSIC_EXPECTED_NAME\<rparr>"

theorem classic_decode_outcomes_witness:
  "snd (classic_decode (Some (replicate 4209 7)) classic_data_zero) = classic_data_zero"
  using classic_decode_outcomes [of "replicate 4209 7"] by simp

theorem classic_roundtrip_witness:
  "classic_decode (Some (classic_image sample_reading)) classic_data_zero = (CLASSIC_OK, sample_reading)"
proof (rule classic_roundtrip)
  have "tenths_u16 (531/10)" unfolding tenths_u16_def by (rule exI [of _ 531]) simp
  moreover have "tenths_u16 0" unfolding tenths_u16_def by (rule exI [of _ 0]) simp
  moreover have "\<exists>z :: u16. (0 :: rat) = of_int (uint z)" by (rule exI [of _ 0]) simp
  ultimately show "classic_wf sample_reading"
    by (simp add: classic_wf_def sample_reading_def classic_data_zero_def classic_charge_stage_def
        classic_charge_stage_name_def)
qed

end
