(* ===== verification/ClassicPlugin.thy ===== *)
theory ClassicPlugin
  imports ClassicCodec PluginApi
begin

section \<open>The Classic charge controller driver (src/plugins/charger_classic/plugin.c)\<close>

text \<open>
  A Modbus TCP client that never blocks: it connects, asks for the registers 4100 to 4212 in one FC3
  request, decodes the reply and holds the connection until the next poll; on every failure it drops
  the connection and tries the next unit id of its list. \<open>cl_env\<close> is what lies outside: the clock, the
  connections still to be made (each with the script of its socket), the socket in use, and the logs of
  descriptors and of the bytes sent, one stream per connection. The buffers \<open>tx\<close> and \<open>rx\<close> are the bytes
  in use. The register image is cleared before every use and therefore local to \<open>parse_fc3\<close>.
\<close>

definition REG_START :: nat where "REG_START = 4100"
definition REG_QTY :: nat where "REG_QTY = 113"
definition REG_IMAGE :: nat where "REG_IMAGE = 4220"
definition CL_IO_TIMEOUT_S :: cdouble where "CL_IO_TIMEOUT_S = 3/2"
definition RECONNECT_S :: cdouble where "RECONNECT_S = 30"
definition CL_POLL_DEFAULT :: cdouble where "CL_POLL_DEFAULT = 5"
definition CL_POLL_MIN :: cdouble where "CL_POLL_MIN = 1"
definition RX_CAP :: nat where "RX_CAP = 512"

subsection \<open>Data\<close>

datatype cl_state = ST_DISCONNECTED | ST_CONNECTING | ST_HOLD | ST_SEND | ST_RECV

record classic_ctx =
  cc_ip :: string
  cc_port :: int
  cc_unit_cfg :: int
  cc_unit_try :: "int list"
  cc_itry :: nat
  cc_unit_ok :: int
  cc_poll_interval_s :: xdouble
  cc_fd :: "nat option"
  cc_want_read :: bool
  cc_want_write :: bool
  cc_state :: cl_state
  cc_io_deadline :: xdouble
  cc_last_ok :: cdouble
  cc_next_poll :: xdouble
  cc_have_data :: bool
  cc_ever_ok :: bool
  cc_tx :: "byte list"
  cc_tx_off :: nat
  cc_rx :: "byte list"
  cc_tid :: u16
  cc_data :: classic_data
  cc_err :: string

text \<open>
  What the calls on one connection answer: the descriptor of \<open>socket\<close>, whether \<open>connect\<close> is under way, and
  the scripts of \<open>poll\<close> with \<open>SO_ERROR\<close>, of \<open>send\<close> and of \<open>recv\<close>.
\<close>

datatype cl_conn_poll = Not_ready | Connected | Conn_error

record cl_conn =
  cn_fd :: "nat option"
  cn_connect :: bool
  cn_polls :: "cl_conn_poll list"
  cn_writes :: "sock_write list"
  cn_reads :: "sock_read list"

record cl_env =
  ce_now :: cdouble
  ce_conns :: "cl_conn list"
  ce_polls :: "cl_conn_poll list"
  ce_writes :: "sock_write list"
  ce_reads :: "sock_read list"
  ce_inet :: "string \<Rightarrow> bool"
  ce_strerror :: string
  ce_ports :: "port_event list"
  ce_streams :: "byte list list"

definition classic_ctx_zero :: classic_ctx where
  "classic_ctx_zero = \<lparr>cc_ip = [], cc_port = 0, cc_unit_cfg = 0, cc_unit_try = [], cc_itry = 0, cc_unit_ok = 0,
     cc_poll_interval_s = XFin 0, cc_fd = None, cc_want_read = False, cc_want_write = False, cc_state = ST_DISCONNECTED,
     cc_io_deadline = XFin 0, cc_last_ok = 0, cc_next_poll = XFin 0, cc_have_data = False, cc_ever_ok = False, cc_tx = [],
     cc_tx_off = 0, cc_rx = [], cc_tid = 0, cc_data = classic_data_zero, cc_err = []\<rparr>"

definition cl_set_err :: "string \<Rightarrow> classic_ctx \<Rightarrow> classic_ctx" where
  "cl_set_err m c = c\<lparr>cc_err := c_copy 96 m\<rparr>"

definition char_byte :: "char \<Rightarrow> byte" where "char_byte ch = of_nat (of_char ch)"

definition cl_be16 :: "byte list \<Rightarrow> nat \<Rightarrow> u16" where
  "cl_be16 p i = be16 (p ! i) (p ! (i + 1))"

definition put_be16 :: "u16 \<Rightarrow> byte list" where
  "put_be16 v = [hi_byte v, lo_byte v]"

definition json_modbus_scope :: "string \<Rightarrow> string" where
  "json_modbus_scope js = (case json_find_key js ''modbus'' of Some p \<Rightarrow> p | None \<Rightarrow> js)"

subsection \<open>Connecting\<close>

definition cl_sock_close :: "classic_ctx \<Rightarrow> cl_env \<Rightarrow> classic_ctx \<times> cl_env" where
  "cl_sock_close c e =
     (c\<lparr>cc_fd := None, cc_want_read := False, cc_want_write := False, cc_state := ST_DISCONNECTED, cc_tx := [],
        cc_tx_off := 0, cc_rx := []\<rparr>,
      case cc_fd c of None \<Rightarrow> e | Some k \<Rightarrow> e\<lparr>ce_ports := ce_ports e @ [Closed k]\<rparr>)"

definition build_unit_list :: "classic_ctx \<Rightarrow> classic_ctx" where
  "build_unit_list c =
     (let u = cc_unit_cfg c in
      c\<lparr>cc_unit_try := (if 0 < u then [u] else []) @ (if u = 10 then [] else [10]) @ (if u = 1 then [] else [1]),
        cc_itry := 0\<rparr>)"

definition current_unit :: "classic_ctx \<Rightarrow> int" where
  "current_unit c = (if length (cc_unit_try c) \<le> cc_itry c then 10 else cc_unit_try c ! cc_itry c)"

text \<open>The boolean is whether the code returns 0. Without a further connection \<open>socket\<close> fails.\<close>

definition cl_start_connect :: "classic_ctx \<Rightarrow> cl_env \<Rightarrow> bool \<times> classic_ctx \<times> cl_env" where
  "cl_start_connect c e =
     (let (c, e) = cl_sock_close c e in
      case ce_conns e of
        [] \<Rightarrow> (False, cl_set_err (''socket: '' @ ce_strerror e) c, e)
      | cn # cns \<Rightarrow>
          (let e = e\<lparr>ce_conns := cns\<rparr> in
           case cn_fd cn of
             None \<Rightarrow> (False, cl_set_err (''socket: '' @ ce_strerror e) c, e)
           | Some fd \<Rightarrow>
               if \<not> ce_inet e (cc_ip c)
               then (False, cl_set_err (''bad ip '' @ cc_ip c) c, e\<lparr>ce_ports := ce_ports e @ [Opened fd, Closed fd]\<rparr>)
               else if \<not> cn_connect cn
               then (False, cl_set_err (''connect: '' @ ce_strerror e) c,
                     e\<lparr>ce_ports := ce_ports e @ [Opened fd, Closed fd]\<rparr>)
               else (True,
                     c\<lparr>cc_fd := Some fd, cc_state := ST_CONNECTING, cc_want_write := True, cc_want_read := False,
                       cc_io_deadline := XFin (ce_now e + CL_IO_TIMEOUT_S), cc_tx := [], cc_tx_off := 0, cc_rx := []\<rparr>,
                     e\<lparr>ce_ports := ce_ports e @ [Opened fd], ce_polls := cn_polls cn, ce_writes := cn_writes cn,
                       ce_reads := cn_reads cn, ce_streams := ce_streams e @ [[]]\<rparr>)))"

definition fc3_request :: "u16 \<Rightarrow> byte \<Rightarrow> byte list" where
  "fc3_request tid unit = put_be16 tid @ put_be16 0 @ put_be16 6 @ [unit, 0x03] @
     put_be16 (of_nat REG_START) @ put_be16 (of_nat REG_QTY)"

definition build_fc3 :: "classic_ctx \<Rightarrow> cdouble \<Rightarrow> classic_ctx" where
  "build_fc3 c now =
     (let tid = cc_tid c + 1; tid = (if tid = 0 then 1 else tid) in
      c\<lparr>cc_tid := tid, cc_tx := fc3_request tid (of_int (current_unit c)), cc_tx_off := 0, cc_rx := [],
        cc_state := ST_SEND, cc_want_write := True, cc_want_read := False, cc_io_deadline := XFin (now + CL_IO_TIMEOUT_S)\<rparr>)"

subsection \<open>The reply\<close>

datatype fc3_result = FC3_MORE | FC3_BAD | FC3_EXCEPTION | FC3_OK

text \<open>The image with the registers of the reply at their addresses and zero elsewhere.\<close>

definition fc3_image :: "byte list \<Rightarrow> u16 list" where
  "fc3_image rx = replicate REG_START 0 @ map (\<lambda>i. cl_be16 rx (9 + 2 * i)) [0 ..< REG_QTY] @
     replicate (REG_IMAGE - REG_START - REG_QTY) 0"

text \<open>\<open>decode %d\<close>: the number of the decoder's result.\<close>

definition classic_rc :: "classic_result \<Rightarrow> int" where
  "classic_rc r = (case r of CLASSIC_OK \<Rightarrow> 0 | CLASSIC_EBADLEN \<Rightarrow> -1 | CLASSIC_ETYPE_MISMATCH \<Rightarrow> -2
     | CLASSIC_EMISSING_REG \<Rightarrow> -3 | CLASSIC_EBADREG \<Rightarrow> -4)"

definition parse_fc3 :: "classic_ctx \<Rightarrow> cdouble \<Rightarrow> fc3_result \<times> classic_ctx" where
  "parse_fc3 c now =
     (let rx = cc_rx c in
      if length rx < 6 then (FC3_MORE, c)
      else let len = unat (cl_be16 rx 4) in
        if len < 3 \<or> RX_CAP < len + 6 then (FC3_BAD, c)
        else if length rx < 6 + len then (FC3_MORE, c)
        else if rx ! 7 AND 0x80 \<noteq> 0 then (FC3_EXCEPTION, c)
        else if rx ! 7 \<noteq> 0x03 then (FC3_BAD, c)
        else if rx ! 8 \<noteq> of_nat (REG_QTY * 2) \<or> 6 + len < 9 + unat (rx ! 8) then (FC3_BAD, c)
        else let (rc, d) = classic_decode (Some (fc3_image rx)) (cc_data c); c = c\<lparr>cc_data := d\<rparr> in
          if rc \<noteq> CLASSIC_OK then (FC3_BAD, cl_set_err (''decode '' @ dec_int (classic_rc rc)) c)
          else (FC3_OK, c\<lparr>cc_unit_ok := current_unit c, cc_have_data := True, cc_ever_ok := True, cc_last_ok := now,
                           cc_next_poll := XFin now + cc_poll_interval_s c, cc_err := []\<rparr>))"

subsection \<open>Trying the units\<close>

definition next_unit_or_reconnect :: "classic_ctx \<Rightarrow> cl_env \<Rightarrow> classic_ctx \<times> cl_env" where
  "next_unit_or_reconnect c e =
     (let (c, e) = cl_sock_close c e; c = c\<lparr>cc_itry := cc_itry c + 1\<rparr> in
      if length (cc_unit_try c) \<le> cc_itry c
      then (cl_set_err ''no unit id answered'' (c\<lparr>cc_itry := 0\<rparr>), e)
      else snd (cl_start_connect c e))"

text \<open>0: not yet; 1: connected; -1: failed.\<close>

definition connect_ready :: "classic_ctx \<Rightarrow> cl_env \<Rightarrow> int \<times> classic_ctx \<times> cl_env" where
  "connect_ready c e =
     (case ce_polls e of
        [] \<Rightarrow> (0, c, e)
      | p # ps \<Rightarrow>
          (let e = e\<lparr>ce_polls := ps\<rparr> in
           case p of
             Not_ready \<Rightarrow> (0, c, e)
           | Connected \<Rightarrow> (1, c, e)
           | Conn_error \<Rightarrow> (-1, cl_set_err (''connect: '' @ ce_strerror e) c, e)))"

fun index_of :: "int \<Rightarrow> int list \<Rightarrow> nat option" where
  "index_of u [] = None"
| "index_of u (x # xs) = (if x = u then Some 0 else map_option Suc (index_of u xs))"

definition prefer_unit_ok :: "classic_ctx \<Rightarrow> classic_ctx" where
  "prefer_unit_ok c =
     (if cc_unit_ok c = 0 then c
      else case index_of (cc_unit_ok c) (cc_unit_try c) of Some i \<Rightarrow> c\<lparr>cc_itry := i\<rparr> | None \<Rightarrow> c)"

subsection \<open>Sending and receiving\<close>

text \<open>The end of a turn, or its continuation.\<close>

type_synonym cl_turn = "mf_step \<times> classic_ctx \<times> cl_env"

definition cl_fail :: "classic_ctx \<Rightarrow> cl_env \<Rightarrow> cl_turn" where
  "cl_fail c e = (MF_STEP_ERROR, next_unit_or_reconnect c e)"

text \<open>The bytes of the log belong to the connection in use.\<close>

definition log_sent :: "byte list \<Rightarrow> cl_env \<Rightarrow> cl_env" where
  "log_sent bs e = e\<lparr>ce_streams := (if ce_streams e = [] then [] else butlast (ce_streams e) @ [last (ce_streams e) @ bs])\<rparr>"

fun cl_send :: "classic_ctx \<Rightarrow> cl_env \<Rightarrow> sock_write list \<Rightarrow> cl_turn + classic_ctx \<times> cl_env" where
  "cl_send c e ws =
     (if length (cc_tx c) \<le> cc_tx_off c then Inr (c, e\<lparr>ce_writes := ws\<rparr>)
      else case ws of
        [] \<Rightarrow> Inl (MF_STEP_IDLE, c, e\<lparr>ce_writes := []\<rparr>)
      | Wr_again # ws \<Rightarrow> Inl (MF_STEP_IDLE, c, e\<lparr>ce_writes := ws\<rparr>)
      | Wr_fail # ws \<Rightarrow> Inl (cl_fail (cl_set_err (''send: '' @ ce_strerror e) c) (e\<lparr>ce_writes := ws\<rparr>))
      | Accepts n # ws \<Rightarrow>
          (let k = min n (length (cc_tx c) - cc_tx_off c) in
           if k = 0 then Inl (cl_fail c (e\<lparr>ce_writes := ws\<rparr>))
           else cl_send (c\<lparr>cc_tx_off := cc_tx_off c + k\<rparr>) (log_sent (take k (drop (cc_tx_off c) (cc_tx c))) e) ws))"

declare cl_send.simps [simp del]

function cl_recv :: "classic_ctx \<Rightarrow> cl_env \<Rightarrow> cl_turn" where
  "cl_recv c e =
     (if RX_CAP \<le> length (cc_rx c) then cl_fail c e
      else case read_some (RX_CAP - length (cc_rx c)) (ce_reads e) of
        (Again, rs) \<Rightarrow> (MF_STEP_IDLE, c, e\<lparr>ce_reads := rs\<rparr>)
      | (Failed, rs) \<Rightarrow> cl_fail (cl_set_err (''recv: '' @ ce_strerror e) c) (e\<lparr>ce_reads := rs\<rparr>)
      | (Eof, rs) \<Rightarrow> cl_fail c (e\<lparr>ce_reads := rs\<rparr>)
      | (Got xs, rs) \<Rightarrow>
          (case parse_fc3 (c\<lparr>cc_rx := cc_rx c @ map char_byte xs\<rparr>) (ce_now e) of
             (FC3_MORE, c) \<Rightarrow> cl_recv c (e\<lparr>ce_reads := rs\<rparr>)
           | (FC3_BAD, c) \<Rightarrow> cl_fail c (e\<lparr>ce_reads := rs\<rparr>)
           | (FC3_EXCEPTION, c) \<Rightarrow> cl_fail (cl_set_err ''modbus exception'' c) (e\<lparr>ce_reads := rs\<rparr>)
           | (FC3_OK, c) \<Rightarrow>
               (MF_STEP_UPDATED,
                c\<lparr>cc_state := ST_HOLD, cc_want_read := False, cc_want_write := False, cc_tx := [], cc_tx_off := 0,
                  cc_rx := [], cc_io_deadline := cc_next_poll c + XFin RECONNECT_S\<rparr>, e\<lparr>ce_reads := rs\<rparr>)))"
  by pat_completeness auto
termination
  by (relation "measure (\<lambda>(c, e). ev_size (ce_reads e))") (auto dest: read_some_progress [OF sym])

declare cl_recv.simps [simp del]

text \<open>From \<open>ST_SEND\<close> on, then from \<open>ST_RECV\<close> on.\<close>

definition cl_transfer :: "classic_ctx \<Rightarrow> cl_env \<Rightarrow> cl_turn" where
  "cl_transfer c e =
     (case (if cc_state c = ST_SEND
            then (case cl_send c e (ce_writes e) of
                    Inl t \<Rightarrow> Inl t
                  | Inr (c, e) \<Rightarrow> Inr (c\<lparr>cc_state := ST_RECV, cc_want_read := True, cc_want_write := False, cc_rx := [],
                                        cc_io_deadline := XFin (ce_now e + CL_IO_TIMEOUT_S)\<rparr>, e))
            else Inr (c, e)) of
        Inl t \<Rightarrow> t
      | Inr (c, e) \<Rightarrow> if cc_state c = ST_RECV then cl_recv c e else (MF_STEP_IDLE, c, e))"

definition cl_progress :: "classic_ctx \<Rightarrow> cl_env \<Rightarrow> cl_turn" where
  "cl_progress c e =
     (let now = ce_now e in
      if cc_state c = ST_DISCONNECTED then
        (case cl_start_connect (c\<lparr>cc_itry := 0\<rparr>) e of
           (True, r) \<Rightarrow> (MF_STEP_IDLE, r)
         | (False, r) \<Rightarrow> (MF_STEP_ERROR, r))
      else if cc_state c \<noteq> ST_HOLD \<and> cc_io_deadline c < XFin now
      then cl_fail (cl_set_err (''io timeout unit '' @ dec_int (current_unit c)) c) e
      else if cc_state c = ST_CONNECTING then
        (case connect_ready c e of
           (cr, c, e) \<Rightarrow>
             if cr = 0 then (MF_STEP_IDLE, c, e)
             else if cr < 0 then cl_fail c e
             else cl_transfer (build_fc3 (prefer_unit_ok c) now) e)
      else cl_transfer c e)"

definition cl_pump :: "classic_ctx \<Rightarrow> cl_env \<Rightarrow> cl_turn" where
  "cl_pump c e =
     (let now = ce_now e in
      if cc_state c = ST_HOLD then
        (if XFin now < cc_next_poll c then (MF_STEP_IDLE, c, e)
         else if RECONNECT_S \<le> now - cc_last_ok c then
           (let (c, e) = cl_sock_close c e in
            case cl_start_connect (c\<lparr>cc_itry := 0\<rparr>) e of
              (True, r) \<Rightarrow> (MF_STEP_IDLE, r)
            | (False, r) \<Rightarrow> (MF_STEP_ERROR, r))
         else cl_progress (build_fc3 (prefer_unit_ok c) now) e)
      else cl_progress c e)"

subsection \<open>The plugin's operations\<close>

definition classic_open :: "string \<Rightarrow> cl_env \<Rightarrow> string \<times> classic_ctx \<times> cl_env" where
  "classic_open spec e =
     (let mb = json_modbus_scope spec; ip = json_str mb ''ip'' 64; port = json_int mb ''port'' 502;
          iv = json_double spec ''poll_interval_s'' (XFin 0);
          poll = (if iv \<le> XFin 0 then XFin CL_POLL_DEFAULT else iv);
          c = build_unit_list (classic_ctx_zero
                \<lparr>cc_ip := (if ip = [] then ''127.0.0.1'' else ip),
                 cc_port := (if port \<le> 0 \<or> 65535 < port then 502 else port),
                 cc_unit_cfg := json_int mb ''unit_id'' 10,
                 cc_poll_interval_s := (if poll < XFin CL_POLL_MIN then XFin CL_POLL_MIN else poll)\<rparr>)
      in case cl_start_connect c e of
           (True, r) \<Rightarrow> ([], r)
         | (False, c, e) \<Rightarrow> (cc_err c, c, e))"

definition classic_close :: "classic_ctx option \<Rightarrow> cl_env \<Rightarrow> cl_env" where
  "classic_close c e = (case c of None \<Rightarrow> e | Some c \<Rightarrow> snd (cl_sock_close c e))"

definition classic_fd :: "classic_ctx option \<Rightarrow> nat option" where
  "classic_fd c = Option.bind c cc_fd"

definition classic_mask :: "classic_ctx option \<Rightarrow> bool \<times> bool" where
  "classic_mask c = (case c of None \<Rightarrow> (False, False) | Some c \<Rightarrow> (cc_want_read c, cc_want_write c))"

definition classic_step :: "classic_ctx \<Rightarrow> cl_env \<Rightarrow> cl_turn" where
  "classic_step c e = cl_pump c e"

definition classic_caps :: nat where
  "classic_caps = MF_CAP_READ + MF_CAP_PROBE + MF_CAP_AUTO_NET"

definition classic_last_error :: "classic_ctx option \<Rightarrow> string" where
  "classic_last_error c = (case c of None \<Rightarrow> [] | Some c \<Rightarrow> cc_err c)"

definition mac_text :: "byte list \<Rightarrow> string" where
  "mac_text m = concat (map (\<lambda>i. (if i = 0 then [] else '':'') @ hex_encode [m ! i] 3) [0 ..< 6])"

definition classic_get_reading :: "classic_ctx \<Rightarrow> nat \<Rightarrow> string option" where
  "classic_get_reading c cap =
     (if cap = 0 then None
      else if \<not> cc_have_data c then Some (c_copy cap ''{}'')
      else let d = cc_data c in Some (c_copy cap
        (''{\"battery_voltage_v\":'' @ fmt_f 2 (cd_battery_voltage_v d) @ '',\"battery_current_a\":'' @ fmt_f 2 (cd_ibatt_a d) @
         '',\"charging_watts\":'' @ nat_digits (unat (cd_watts d)) @ '',\"kwh_today\":'' @ fmt_f 2 (cd_kwh_today d) @
         '',\"ah_today\":'' @ fmt_f 1 (cd_ah_today d) @ '',\"lifetime_kwh\":'' @ nat_digits (unat (cd_lifetime_kwh d)) @
         '',\"charge_stage\":\"'' @ cd_charge_stage_name d @ ''\",\"classic_mac\":\"'' @ mac_text (cd_unit_mac d) @
         ''\",\"unit_device_id\":'' @ nat_digits (unat (cd_device_id d)) @ '',\"unit_id\":'' @
         dec_int (if cc_unit_ok c \<noteq> 0 then cc_unit_ok c else current_unit c) @ ''}'')))"

definition classic_get_settings :: "classic_ctx \<Rightarrow> nat \<Rightarrow> string option" where
  "classic_get_settings c cap =
     (if cap = 0 then None
      else Some (c_copy cap (''{\"modbus.ip\":\"'' @ cc_ip c @ ''\",\"modbus.port\":'' @ dec_int (cc_port c) @
        '',\"modbus.unit_id\":'' @ dec_int (cc_unit_cfg c) @ '',\"poll_interval_s\":'' @
        fmt_fx 1 (cc_poll_interval_s c) @ ''}'')))"

definition classic_put_settings :: "int \<times> string" where
  "classic_put_settings = (MF_ERR_UNSUPPORTED, ''read-only'')"

definition classic_action :: "int \<times> string" where
  "classic_action = (MF_ERR_UNSUPPORTED, ''read-only'')"

end
