(* ===== verification/ClassicSafety.thy ===== *)
theory ClassicSafety
  imports ClassicPlugin
begin

section \<open>A Classic driver over its history\<close>

text \<open>
  Whatever the network does, the driver accounts for its sockets and only ever asks: every byte it has
  sent on any connection belongs to a request to read the registers 4100 to 4212 of one of the unit
  ids of its list.
\<close>

subsection \<open>Streams of requests\<close>

definition requests :: "(u16 \<times> byte) list \<Rightarrow> byte list" where
  "requests qs = concat (map (\<lambda>(t, u). fc3_request t u) qs)"

definition asks_only :: "byte set \<Rightarrow> byte list \<Rightarrow> bool" where
  "asks_only us s \<longleftrightarrow> (\<exists>qs t u k. s = requests qs @ take k (fc3_request t u) \<and> snd ` set qs \<subseteq> us \<and> u \<in> us)"

definition cl_asked :: "byte set \<Rightarrow> byte list \<Rightarrow> bool" where
  "cl_asked us s \<longleftrightarrow> (\<exists>qs. s = requests qs \<and> snd ` set qs \<subseteq> us)"

text \<open>
  The request written out: a transaction number, protocol 0, six bytes to follow, the unit, function 3
  (read holding registers), the first register 4100 and their number 113.
\<close>

definition modbus_read :: "u16 \<Rightarrow> byte \<Rightarrow> byte list" where
  "modbus_read t u = [hi_byte t, lo_byte t, 0, 0, 0, 6, u, 3, 0x10, 0x04, 0, 0x71]"

definition reads_only :: "byte set \<Rightarrow> byte list \<Rightarrow> bool" where
  "reads_only us s \<longleftrightarrow> (\<exists>qs t u k. s = concat (map (\<lambda>(t, u). modbus_read t u) qs) @ take k (modbus_read t u) \<and>
     snd ` set qs \<subseteq> us \<and> u \<in> us)"

lemma fc3_is_read: "fc3_request t u = modbus_read t u"
  by (simp add: fc3_request_def modbus_read_def put_be16_def hi_byte_def lo_byte_def REG_START_def REG_QTY_def)

lemma asks_only_reads: "asks_only us s \<longleftrightarrow> reads_only us s"
  by (simp add: asks_only_def reads_only_def requests_def fc3_is_read)

lemma fc3_length [simp]: "length (fc3_request t u) = 12"
  by (simp add: fc3_request_def put_be16_def)

lemma asked_only: "cl_asked us s \<Longrightarrow> u \<in> us \<Longrightarrow> asks_only us (s @ take k (fc3_request t u))"
  unfolding cl_asked_def asks_only_def by blast

lemma asked_asks: "cl_asked us s \<Longrightarrow> us \<noteq> {} \<Longrightarrow> asks_only us s"
  using asked_only [of us s _ 0] by auto

lemma asked_Nil [simp]: "cl_asked us []"
  unfolding cl_asked_def by (rule exI [of _ "[]"]) (simp add: requests_def)

lemma asked_more:
  assumes "cl_asked us s" and "u \<in> us"
  shows "cl_asked us (s @ fc3_request t u)"
proof -
  obtain qs where "s = requests qs" "snd ` set qs \<subseteq> us" using assms(1) by (auto simp: cl_asked_def)
  then have "s @ fc3_request t u = requests (qs @ [(t, u)])" "snd ` set (qs @ [(t, u)]) \<subseteq> us"
    using assms(2) by (auto simp: requests_def)
  then show ?thesis unfolding cl_asked_def by blast
qed

subsection \<open>The invariant\<close>

definition unit_bytes :: "classic_ctx \<Rightarrow> byte set" where
  "unit_bytes c = of_int ` set (cc_unit_try c)"

definition units_ok :: "classic_ctx \<Rightarrow> bool" where
  "units_ok c \<longleftrightarrow> cc_itry c < length (cc_unit_try c) \<and> (cc_unit_ok c = 0 \<or> cc_unit_ok c \<in> set (cc_unit_try c)) \<and>
     (cc_unit_ok c \<noteq> 0 \<and> cc_state c \<in> {ST_SEND, ST_RECV} \<longrightarrow> current_unit c = cc_unit_ok c)"

definition cl_link_ok :: "classic_ctx \<Rightarrow> cl_env \<Rightarrow> bool" where
  "cl_link_ok c e \<longleftrightarrow> (cc_fd c = None \<longleftrightarrow> cc_state c = ST_DISCONNECTED) \<and>
     ports_after [] (ce_ports e) = Some (held_list (cc_fd c))"

definition past_ok :: "byte set \<Rightarrow> cl_env \<Rightarrow> bool" where
  "past_ok us e \<longleftrightarrow> (\<forall>s \<in> set (ce_streams e). asks_only us s)"

definition wire_ok :: "classic_ctx \<Rightarrow> cl_env \<Rightarrow> bool" where
  "wire_ok c e \<longleftrightarrow> past_ok (unit_bytes c) e \<and>
     (cc_state c \<noteq> ST_DISCONNECTED \<longrightarrow> ce_streams e \<noteq> [] \<and>
       (if cc_state c = ST_SEND
        then \<exists>s t u. cl_asked (unit_bytes c) s \<and> u \<in> unit_bytes c \<and> cc_tx c = fc3_request t u \<and>
               last (ce_streams e) = s @ take (cc_tx_off c) (cc_tx c) \<and> u = of_int (current_unit c)
        else cl_asked (unit_bytes c) (last (ce_streams e))))"

definition rx_ok :: "classic_ctx \<Rightarrow> bool" where
  "rx_ok c \<longleftrightarrow> length (cc_rx c) < RX_CAP"

definition cl_ok :: "classic_ctx \<Rightarrow> cl_env \<Rightarrow> bool" where
  "cl_ok c e \<longleftrightarrow> units_ok c \<and> cl_link_ok c e \<and> wire_ok c e \<and> rx_ok c"

text \<open>The fields of the unit list.\<close>

definition units_of :: "classic_ctx \<Rightarrow> int list \<times> nat \<times> int \<times> xdouble" where
  "units_of c = (cc_unit_try c, cc_itry c, cc_unit_ok c, cc_poll_interval_s c)"

lemma unit_bytes_eq: "cc_unit_try c' = cc_unit_try c \<Longrightarrow> unit_bytes c' = unit_bytes c"
  by (simp add: unit_bytes_def)

lemma set_err_fields [simp]:
  "units_of (cl_set_err m c) = units_of c" "cc_fd (cl_set_err m c) = cc_fd c" "cc_state (cl_set_err m c) = cc_state c"
  "cc_unit_try (cl_set_err m c) = cc_unit_try c" "cc_itry (cl_set_err m c) = cc_itry c" "cc_rx (cl_set_err m c) = cc_rx c"
  "cc_unit_ok (cl_set_err m c) = cc_unit_ok c" "current_unit (cl_set_err m c) = current_unit c"
  "cc_tx (cl_set_err m c) = cc_tx c" "cc_tx_off (cl_set_err m c) = cc_tx_off c"
  by (simp_all add: cl_set_err_def units_of_def current_unit_def)

lemma cl_set_err_ok [simp]: "cl_ok (cl_set_err m c) e = cl_ok c e"
  by (simp add: cl_ok_def units_ok_def cl_link_ok_def wire_ok_def rx_ok_def unit_bytes_def)

lemma cl_sock_close_ok:
  assumes "cl_link_ok c e" and "past_ok us e" and "cl_sock_close c e = (c', e')"
  shows "cl_link_ok c' e' \<and> past_ok us e' \<and> units_of c' = units_of c \<and> cc_state c' = ST_DISCONNECTED \<and> cc_rx c' = [] \<and>
    ce_streams e' = ce_streams e \<and> ce_conns e' = ce_conns e"
  using assms by (auto simp: cl_sock_close_def cl_link_ok_def past_ok_def units_of_def split: option.splits)

lemma cl_start_connect_ok:
  assumes l: "cl_link_ok c e" and p: "past_ok (unit_bytes c) e" and ne: "cc_unit_try c \<noteq> []"
    and s: "cl_start_connect c e = (b, c', e')"
  shows "cl_link_ok c' e' \<and> wire_ok c' e' \<and> rx_ok c' \<and> units_of c' = units_of c \<and>
    (cc_state c' = ST_DISCONNECTED \<or> cc_state c' = ST_CONNECTING)"
proof -
  obtain c1 e1 where c1: "cl_sock_close c e = (c1, e1)" by fastforce
  note cl = cl_sock_close_ok [OF l p c1]
  have us: "cc_unit_try c1 = cc_unit_try c" using cl by (simp add: units_of_def)
  have new: "asks_only (unit_bytes c) []"
    using ne asked_asks [of "unit_bytes c" "[]"] by (simp add: unit_bytes_def)
  note start = s [unfolded cl_start_connect_def c1 Let_def prod.case]
  show ?thesis
  proof (cases "ce_conns e1")
    case Nil
    then show ?thesis
      using start cl us by (auto simp: wire_ok_def rx_ok_def RX_CAP_def cl_link_ok_def unit_bytes_def)
  next
    case (Cons cn cns)
    show ?thesis
    proof (cases "cn_fd cn")
      case None
      then show ?thesis
        using start Cons cl us
        by (auto simp: wire_ok_def past_ok_def rx_ok_def RX_CAP_def cl_link_ok_def unit_bytes_def)
    next
      case (Some fd)
      show ?thesis
      proof (cases "ce_inet e1 (cc_ip c1) \<and> cn_connect cn")
        case False
        then have "cc_fd c' = cc_fd c1 \<and> cc_state c' = cc_state c1 \<and> units_of c' = units_of c1 \<and> cc_rx c' = cc_rx c1 \<and>
            cc_unit_try c' = cc_unit_try c1 \<and>
            ce_ports e' = ce_ports e1 @ [Opened fd, Closed fd] \<and> ce_streams e' = ce_streams e1"
          using start Cons Some by (auto split: if_splits)
        then show ?thesis
          using cl us by (auto simp: wire_ok_def past_ok_def rx_ok_def RX_CAP_def cl_link_ok_def unit_bytes_def)
      next
        case True
        then have "cc_fd c' = Some fd \<and> cc_state c' = ST_CONNECTING \<and> units_of c' = units_of c1 \<and> cc_rx c' = [] \<and>
            cc_unit_try c' = cc_unit_try c1 \<and>
            ce_ports e' = ce_ports e1 @ [Opened fd] \<and> ce_streams e' = ce_streams e1 @ [[]]"
          using start Cons Some by (auto simp: units_of_def)
        then show ?thesis
          using cl us new by (auto simp: wire_ok_def past_ok_def rx_ok_def RX_CAP_def cl_link_ok_def unit_bytes_def)
      qed
    qed
  qed
qed

lemma units_ok_idle:
  assumes "units_of c' = units_of c" and "cc_itry c < length (cc_unit_try c)"
    and "cc_unit_ok c = 0 \<or> cc_unit_ok c \<in> set (cc_unit_try c)" and "cc_state c' \<notin> {ST_SEND, ST_RECV}"
  shows "units_ok c'"
  using assms by (auto simp: units_ok_def units_of_def)

text \<open>A connection that is given up leaves the invariant, and the remembered unit.\<close>

lemma next_unit_ok:
  assumes "cl_ok c e" and "next_unit_or_reconnect c e = (c', e')"
  shows "cl_ok c' e' \<and> cc_unit_try c' = cc_unit_try c \<and> cc_unit_ok c' = cc_unit_ok c"
proof -
  have c: "cl_link_ok c e" "past_ok (unit_bytes c) e" "units_ok c" using assms(1) by (simp_all add: cl_ok_def wire_ok_def)
  obtain c1 e1 where c1: "cl_sock_close c e = (c1, e1)" by fastforce
  note cl = cl_sock_close_ok [OF c(1,2) c1]
  let ?c = "c1\<lparr>cc_itry := cc_itry c1 + 1\<rparr>"
  have us: "cc_unit_try c1 = cc_unit_try c" "cc_unit_ok c1 = cc_unit_ok c" "cc_itry c1 = cc_itry c"
    using cl by (simp_all add: units_of_def)
  note nxt = assms(2) [unfolded next_unit_or_reconnect_def c1 Let_def prod.case]
  show ?thesis
  proof (cases "length (cc_unit_try ?c) \<le> cc_itry ?c")
    case True
    then have e: "c' = cl_set_err ''no unit id answered'' (c1\<lparr>cc_itry := 0\<rparr>)" "e' = e1" using nxt by auto
    have "units_ok (c1\<lparr>cc_itry := 0\<rparr>)" using c(3) us cl by (auto simp: units_ok_def)
    moreover have "cl_link_ok (c1\<lparr>cc_itry := 0\<rparr>) e1" "wire_ok (c1\<lparr>cc_itry := 0\<rparr>) e1" "rx_ok (c1\<lparr>cc_itry := 0\<rparr>)"
      using cl us by (auto simp: cl_link_ok_def wire_ok_def rx_ok_def RX_CAP_def unit_bytes_def)
    ultimately show ?thesis unfolding e cl_set_err_ok set_err_fields using us by (simp add: cl_ok_def)
  next
    case False
    then obtain b where s: "cl_start_connect ?c e1 = (b, c', e')" using nxt by (cases "cl_start_connect ?c e1") auto
    have l: "cl_link_ok ?c e1" "past_ok (unit_bytes ?c) e1" using cl us by (simp_all add: cl_link_ok_def unit_bytes_def)
    note st = cl_start_connect_ok [OF l _ s]
    have ne: "cc_unit_try ?c \<noteq> []" using c(3) us by (auto simp: units_ok_def)
    have "units_ok c'"
      using st [OF ne] False c(3) us by (intro units_ok_idle [of _ ?c]) (auto simp: units_ok_def)
    then show ?thesis using st [OF ne] us by (simp add: cl_ok_def units_of_def)
  qed
qed

lemma cl_fail_ok:
  assumes "cl_ok c e" and "cl_fail c e = (r, c', e')"
  shows "r = MF_STEP_ERROR \<and> cl_ok c' e' \<and> cc_unit_try c' = cc_unit_try c \<and> cc_unit_ok c' = cc_unit_ok c"
  using next_unit_ok [OF assms(1)] assms(2) by (cases "next_unit_or_reconnect c e") (auto simp: cl_fail_def)

subsection \<open>Turns\<close>

text \<open>What a turn keeps: the list of units, and the remembered unit once there is one.\<close>

definition keeps_unit :: "classic_ctx \<Rightarrow> classic_ctx \<Rightarrow> bool" where
  "keeps_unit c c' \<longleftrightarrow> cc_unit_try c' = cc_unit_try c \<and> (cc_unit_ok c \<noteq> 0 \<longrightarrow> cc_unit_ok c' = cc_unit_ok c)"

lemma keeps_unit_refl [simp]: "keeps_unit c c"
  by (simp add: keeps_unit_def)

lemma keeps_unit_trans: "keeps_unit a b \<Longrightarrow> keeps_unit b c \<Longrightarrow> keeps_unit a c"
  by (auto simp: keeps_unit_def)

lemma cl_fail_turn:
  "cl_ok c e \<Longrightarrow> cl_fail c e = (r, c', e') \<Longrightarrow> cl_ok c' e' \<and> keeps_unit c c'"
  using cl_fail_ok [of c e r c' e'] by (simp add: keeps_unit_def)

lemma cl_ok_scripts [simp]:
  "cl_ok c (e\<lparr>ce_writes := ws\<rparr>) = cl_ok c e" "cl_ok c (e\<lparr>ce_reads := rs\<rparr>) = cl_ok c e"
  "cl_ok c (e\<lparr>ce_polls := qs\<rparr>) = cl_ok c e"
  by (simp_all add: cl_ok_def cl_link_ok_def wire_ok_def past_ok_def)

lemma log_sent_streams:
  "ce_streams e \<noteq> [] \<Longrightarrow> ce_streams (log_sent bs e) = butlast (ce_streams e) @ [last (ce_streams e) @ bs]"
  "ce_ports (log_sent bs e) = ce_ports e"
  by (simp_all add: log_sent_def)

lemma send_piece_ok:
  assumes ok: "cl_ok c e" and s: "cc_state c = ST_SEND" and k: "cc_tx_off c + k \<le> length (cc_tx c)"
  shows "cl_ok (c\<lparr>cc_tx_off := cc_tx_off c + k\<rparr>) (log_sent (take k (drop (cc_tx_off c) (cc_tx c))) e)"
proof -
  let ?c = "c\<lparr>cc_tx_off := cc_tx_off c + k\<rparr>" and ?e = "log_sent (take k (drop (cc_tx_off c) (cc_tx c))) e"
  have ne: "ce_streams e \<noteq> []" using ok s by (auto simp: cl_ok_def wire_ok_def)
  obtain s0 t u where w: "cl_asked (unit_bytes c) s0" "u \<in> unit_bytes c" "cc_tx c = fc3_request t u"
    "last (ce_streams e) = s0 @ take (cc_tx_off c) (cc_tx c)" "u = of_int (current_unit c)"
    using ok s unfolding cl_ok_def wire_ok_def by auto
  have past: "past_ok (unit_bytes c) e" using ok by (simp add: cl_ok_def wire_ok_def)
  have "take (cc_tx_off c) (cc_tx c) @ take k (drop (cc_tx_off c) (cc_tx c)) = take (cc_tx_off c + k) (cc_tx c)"
    by (simp add: take_add)
  then have l: "last (ce_streams ?e) = s0 @ take (cc_tx_off c + k) (cc_tx c)" using w(4) ne by (simp add: log_sent_streams)
  have "asks_only (unit_bytes c) (s0 @ take (cc_tx_off c + k) (cc_tx c))" using asked_only [OF w(1,2)] w(3) by simp
  then have "asks_only (unit_bytes c) (last (ce_streams ?e))" unfolding l .
  then have "past_ok (unit_bytes c) ?e"
    using past ne by (auto simp: past_ok_def log_sent_streams dest: in_set_butlastD)
  moreover have us: "unit_bytes ?c = unit_bytes c" "current_unit ?c = current_unit c"
    by (simp_all add: unit_bytes_def current_unit_def)
  moreover have "\<exists>s t u. cl_asked (unit_bytes c) s \<and> u \<in> unit_bytes c \<and> cc_tx ?c = fc3_request t u \<and>
      last (ce_streams ?e) = s @ take (cc_tx_off ?c) (cc_tx ?c) \<and> u = of_int (current_unit c)"
    using w l by (intro exI [of _ s0] exI [of _ t] exI [of _ u]) simp
  ultimately have "wire_ok ?c ?e" using s ne unfolding wire_ok_def us by (simp add: log_sent_streams)
  moreover have "units_ok ?c" "cl_link_ok ?c ?e" "rx_ok ?c"
    using ok s by (auto simp: cl_ok_def units_ok_def cl_link_ok_def rx_ok_def log_sent_streams current_unit_def)
  ultimately show ?thesis by (simp add: cl_ok_def)
qed

text \<open>The sending loop: a turn that ends here, or the whole request is out.\<close>

definition sent_ok :: "classic_ctx \<Rightarrow> cl_turn + classic_ctx \<times> cl_env \<Rightarrow> bool" where
  "sent_ok c r \<longleftrightarrow>
     (case r of
        Inl (s, c', e') \<Rightarrow> cl_ok c' e' \<and> keeps_unit c c'
      | Inr (c', e') \<Rightarrow> cl_ok c' e' \<and> keeps_unit c c' \<and> cc_state c' = ST_SEND \<and> length (cc_tx c') \<le> cc_tx_off c')"

lemma sent_fail: "cl_ok c e \<Longrightarrow> keeps_unit c0 c \<Longrightarrow> sent_ok c0 (Inl (cl_fail c e))"
  using cl_fail_turn [of c e] keeps_unit_trans by (cases "cl_fail c e") (auto simp: sent_ok_def)

lemma cl_send_ok: "cl_ok c e \<Longrightarrow> cc_state c = ST_SEND \<Longrightarrow> sent_ok c (cl_send c e ws)"
proof (induction c e ws rule: cl_send.induct)
  case (1 c e ws)
  show ?case
  proof (cases "length (cc_tx c) \<le> cc_tx_off c")
    case True
    then show ?thesis using 1 by (simp add: cl_send.simps [of c e ws] sent_ok_def)
  next
    case more: False
    show ?thesis
    proof (cases ws)
      case Nil
      then show ?thesis using 1 more by (simp add: cl_send.simps [of c e "[]"] sent_ok_def)
    next
      case (Cons w ws')
      show ?thesis
      proof (cases w)
        case Wr_again
        then show ?thesis using 1 more Cons by (subst cl_send.simps) (simp add: sent_ok_def)
      next
        case Wr_fail
        then show ?thesis
          using 1 more Cons sent_fail [of "cl_set_err (''send: '' @ ce_strerror e) c" "e\<lparr>ce_writes := ws'\<rparr>" c]
          by (subst cl_send.simps) (simp add: keeps_unit_def)
      next
        case (Accepts n)
        define k where "k = min n (length (cc_tx c) - cc_tx_off c)"
        show ?thesis
        proof (cases "k = 0")
          case True
          then show ?thesis
            using 1 more Cons Accepts sent_fail [of c "e\<lparr>ce_writes := ws'\<rparr>" c] 
            by (subst cl_send.simps) (simp add: k_def [symmetric])
        next
          case False
          let ?c = "c\<lparr>cc_tx_off := cc_tx_off c + k\<rparr>" and ?e = "log_sent (take k (drop (cc_tx_off c) (cc_tx c))) e"
          have "cl_ok ?c ?e" using send_piece_ok [OF "1.prems"] more by (simp add: k_def)
          then have "sent_ok ?c (cl_send ?c ?e ws')"
            using "1.IH" [OF more Cons Accepts k_def] False "1.prems"(2) by simp
          moreover have "cl_send c e ws = cl_send ?c ?e ws'"
            using more Cons Accepts False by (subst cl_send.simps) (simp add: k_def [symmetric] Let_def)
          ultimately show ?thesis by (simp add: sent_ok_def keeps_unit_def split: sum.splits prod.splits)
        qed
      qed
    qed
  qed
qed

text \<open>Parsing leaves the connection alone; a good reply remembers the unit that was asked.\<close>

lemma parse_fc3_fields:
  assumes "parse_fc3 c now = (r, c')"
  shows "cc_unit_try c' = cc_unit_try c \<and> cc_itry c' = cc_itry c \<and> cc_fd c' = cc_fd c \<and> cc_state c' = cc_state c \<and>
    cc_rx c' = cc_rx c \<and> cc_tx c' = cc_tx c \<and> cc_tx_off c' = cc_tx_off c \<and>
    (r = FC3_OK \<longrightarrow> cc_unit_ok c' = current_unit c) \<and> (r \<noteq> FC3_OK \<longrightarrow> cc_unit_ok c' = cc_unit_ok c) \<and>
    (r = FC3_MORE \<longrightarrow> c' = c \<and> length (cc_rx c) < RX_CAP)"
  using assms
  by (auto simp: parse_fc3_def Let_def cl_set_err_def RX_CAP_def current_unit_def split: if_splits prod.splits)

definition cl_turn_ok :: "classic_ctx \<Rightarrow> cl_turn \<Rightarrow> bool" where
  "cl_turn_ok c t \<longleftrightarrow> (case t of (s, c', e') \<Rightarrow> cl_ok c' e' \<and> keeps_unit c c')"

lemma turn_fail: "cl_ok c e \<Longrightarrow> keeps_unit c0 c \<Longrightarrow> cl_turn_ok c0 (cl_fail c e)"
  using cl_fail_turn [of c e] keeps_unit_trans by (cases "cl_fail c e") (auto simp: cl_turn_ok_def)

text \<open>Fields the receiving loop changes keep the invariant.\<close>

lemma recv_update_ok:
  assumes "cl_ok c e" and "cc_state c = ST_RECV" and "rx_ok c'"
    and "cc_unit_try c' = cc_unit_try c" "cc_itry c' = cc_itry c" "cc_fd c' = cc_fd c" "cc_state c' = ST_RECV"
    and "cc_unit_ok c' = cc_unit_ok c \<or> cc_unit_ok c' = current_unit c"
  shows "cl_ok c' e \<and> keeps_unit c c'"
proof -
  have cur: "current_unit c' = current_unit c" using assms by (simp add: current_unit_def)
  have mem: "current_unit c \<in> set (cc_unit_try c)"
    using assms(1) by (simp add: cl_ok_def units_ok_def current_unit_def)
  have same: "cc_unit_ok c \<noteq> 0 \<longrightarrow> current_unit c = cc_unit_ok c"
    using assms(1,2) by (simp add: cl_ok_def units_ok_def)
  have "units_ok c'" using assms cur mem same by (auto simp: cl_ok_def units_ok_def)
  then show ?thesis
    using assms same by (auto simp: cl_ok_def cl_link_ok_def wire_ok_def unit_bytes_def keeps_unit_def)
qed

lemma bad_update_ok:
  assumes "cl_ok c e" and "units_of c' = units_of c" and "cc_fd c' = cc_fd c" and "cc_state c' = cc_state c"
    and "cc_tx c' = cc_tx c" and "cc_tx_off c' = cc_tx_off c"
  shows "units_ok c' \<and> cl_link_ok c' e \<and> wire_ok c' e"
  using assms by (auto simp: cl_ok_def units_ok_def cl_link_ok_def wire_ok_def unit_bytes_def units_of_def current_unit_def)

lemma cl_fail_rx: "cl_fail (c\<lparr>cc_rx := xs\<rparr>) e = cl_fail c e"
  by (simp add: cl_fail_def next_unit_or_reconnect_def cl_sock_close_def)

lemma recv_fail:
  assumes "cl_ok c e" and "cc_state c = ST_RECV" and "cc_unit_try c' = cc_unit_try c" "cc_itry c' = cc_itry c"
    "cc_fd c' = cc_fd c" "cc_state c' = ST_RECV" "cc_unit_ok c' = cc_unit_ok c"
  shows "cl_turn_ok c (cl_fail c' (e\<lparr>ce_reads := rs\<rparr>))"
proof -
  have "cl_ok (c'\<lparr>cc_rx := []\<rparr>) e \<and> keeps_unit c (c'\<lparr>cc_rx := []\<rparr>)"
    by (rule recv_update_ok [OF assms(1,2)]) (use assms in \<open>simp_all add: rx_ok_def RX_CAP_def\<close>)
  then have "cl_turn_ok c (cl_fail (c'\<lparr>cc_rx := []\<rparr>) (e\<lparr>ce_reads := rs\<rparr>))" by (intro turn_fail) simp_all
  then show ?thesis by (simp only: cl_fail_rx)
qed

lemma cl_recv_ok: "cl_ok c e \<Longrightarrow> cc_state c = ST_RECV \<Longrightarrow> cl_turn_ok c (cl_recv c e)"
proof (induction c e rule: cl_recv.induct)
  case (1 c e)
  have room: "\<not> RX_CAP \<le> length (cc_rx c)" using "1.prems"(1) by (simp add: cl_ok_def rx_ok_def)
  obtain g rs where r: "read_some (RX_CAP - length (cc_rx c)) (ce_reads e) = (g, rs)" by fastforce
  show ?case
  proof (cases g)
    case Again
    then show ?thesis using "1.prems" room r by (subst cl_recv.simps) (simp add: cl_turn_ok_def)
  next
    case Eof
    have "cl_turn_ok c (cl_fail c (e\<lparr>ce_reads := rs\<rparr>))" using recv_fail [OF "1.prems"] "1.prems"(2) by blast
    then show ?thesis using room r Eof by (subst cl_recv.simps) simp
  next
    case Failed
    have "cl_turn_ok c (cl_fail (cl_set_err (''recv: '' @ ce_strerror e) c) (e\<lparr>ce_reads := rs\<rparr>))"
      by (rule recv_fail [OF "1.prems"]) (use "1.prems"(2) in simp_all)
    then show ?thesis using room r Failed by (subst cl_recv.simps) simp
  next
    case (Got xs)
    let ?c = "c\<lparr>cc_rx := cc_rx c @ map char_byte xs\<rparr>"
    obtain pr c2 where p: "parse_fc3 ?c (ce_now e) = (pr, c2)" by fastforce
    have cur: "current_unit ?c = current_unit c" by (simp add: current_unit_def)
    note f = parse_fc3_fields [OF p]
    have rec: "cl_recv c e = (case pr of
        FC3_MORE \<Rightarrow> cl_recv c2 (e\<lparr>ce_reads := rs\<rparr>)
      | FC3_BAD \<Rightarrow> cl_fail c2 (e\<lparr>ce_reads := rs\<rparr>)
      | FC3_EXCEPTION \<Rightarrow> cl_fail (cl_set_err ''modbus exception'' c2) (e\<lparr>ce_reads := rs\<rparr>)
      | FC3_OK \<Rightarrow> (MF_STEP_UPDATED,
          c2\<lparr>cc_state := ST_HOLD, cc_want_read := False, cc_want_write := False, cc_tx := [], cc_tx_off := 0,
            cc_rx := [], cc_io_deadline := cc_next_poll c2 + XFin RECONNECT_S\<rparr>, e\<lparr>ce_reads := rs\<rparr>))"
      using room r Got p by (subst cl_recv.simps) (simp split: fc3_result.split)
    show ?thesis
    proof (cases pr)
      case FC3_MORE
      then have c2: "c2 = ?c" "length (cc_rx ?c) < RX_CAP" using f by auto
      have "cl_ok ?c e \<and> keeps_unit c ?c"
        by (rule recv_update_ok [OF "1.prems"]) (use c2 "1.prems"(2) in \<open>simp_all add: rx_ok_def\<close>)
      moreover from this have "cl_turn_ok c2 (cl_recv c2 (e\<lparr>ce_reads := rs\<rparr>))"
        using "1.IH" [OF room r [symmetric] Got p [symmetric] FC3_MORE] c2(1) "1.prems"(2) by simp
      ultimately show ?thesis
        using rec FC3_MORE c2(1) keeps_unit_trans by (auto simp: cl_turn_ok_def split: prod.splits)
    next
      case FC3_BAD
      have "cl_turn_ok c (cl_fail c2 (e\<lparr>ce_reads := rs\<rparr>))"
        by (rule recv_fail [OF "1.prems"]) (use f FC3_BAD "1.prems"(2) in simp_all)
      then show ?thesis using rec FC3_BAD by simp
    next
      case FC3_EXCEPTION
      have "cl_turn_ok c (cl_fail (cl_set_err ''modbus exception'' c2) (e\<lparr>ce_reads := rs\<rparr>))"
        by (rule recv_fail [OF "1.prems"]) (use f FC3_EXCEPTION "1.prems"(2) in simp_all)
      then show ?thesis using rec FC3_EXCEPTION by simp
    next
      case FC3_OK
      have k: "cl_ok (c2\<lparr>cc_rx := []\<rparr>) e \<and> keeps_unit c (c2\<lparr>cc_rx := []\<rparr>)"
        by (rule recv_update_ok [OF "1.prems"]) (use f FC3_OK cur "1.prems"(2) in \<open>simp_all add: rx_ok_def RX_CAP_def\<close>)
      let ?h = "c2\<lparr>cc_state := ST_HOLD, cc_want_read := False, cc_want_write := False, cc_tx := [], cc_tx_off := 0,
            cc_rx := [], cc_io_deadline := cc_next_poll c2 + XFin RECONNECT_S\<rparr>"
      have "cl_ok ?h e" using k f "1.prems"(2)
        by (auto simp: cl_ok_def units_ok_def cl_link_ok_def wire_ok_def rx_ok_def unit_bytes_def)
      then show ?thesis using rec FC3_OK k by (simp add: cl_turn_ok_def keeps_unit_def)
    qed
  qed
qed

subsection \<open>A whole turn\<close>

lemma index_of_Some: "index_of u xs = Some i \<Longrightarrow> i < length xs \<and> xs ! i = u"
  by (induction xs arbitrary: i) (auto split: if_splits)

lemma index_of_mem: "u \<in> set xs \<Longrightarrow> \<exists>i. index_of u xs = Some i"
  by (induction xs) auto

lemma prefer_unit:
  assumes "cc_itry c < length (cc_unit_try c)" and "cc_unit_ok c = 0 \<or> cc_unit_ok c \<in> set (cc_unit_try c)"
  shows "\<exists>i. prefer_unit_ok c = c\<lparr>cc_itry := i\<rparr> \<and> i < length (cc_unit_try c) \<and>
    (cc_unit_ok c \<noteq> 0 \<longrightarrow> cc_unit_try c ! i = cc_unit_ok c)"
proof (cases "cc_unit_ok c = 0")
  case True
  then have "prefer_unit_ok c = c\<lparr>cc_itry := cc_itry c\<rparr>" by (simp add: prefer_unit_ok_def)
  then show ?thesis using assms(1) True by blast
next
  case False
  then obtain i where "index_of (cc_unit_ok c) (cc_unit_try c) = Some i" using assms(2) index_of_mem by blast
  then show ?thesis using False index_of_Some by (auto simp: prefer_unit_ok_def)
qed

lemma build_fc3_ok:
  assumes ok: "cl_ok c e" and st: "cc_state c = ST_HOLD \<or> cc_state c = ST_CONNECTING"
  shows "cl_ok (build_fc3 (prefer_unit_ok c) now) e \<and> keeps_unit c (build_fc3 (prefer_unit_ok c) now) \<and>
    cc_state (build_fc3 (prefer_unit_ok c) now) = ST_SEND"
proof -
  obtain i where i: "prefer_unit_ok c = c\<lparr>cc_itry := i\<rparr>" "i < length (cc_unit_try c)"
    "cc_unit_ok c \<noteq> 0 \<longrightarrow> cc_unit_try c ! i = cc_unit_ok c"
    using prefer_unit [of c] ok by (auto simp: cl_ok_def units_ok_def)
  define tid where "tid = (let tid = cc_tid c + 1 in if tid = 0 then 1 else tid)"
  define u where "u = cc_unit_try c ! i"
  let ?b = "c\<lparr>cc_itry := i, cc_tid := tid, cc_tx := fc3_request tid (of_int u), cc_tx_off := 0, cc_rx := [],
    cc_state := ST_SEND, cc_want_write := True, cc_want_read := False, cc_io_deadline := XFin (now + CL_IO_TIMEOUT_S)\<rparr>"
  have b: "build_fc3 (prefer_unit_ok c) now = ?b"
    using i(2) by (simp add: i(1) build_fc3_def Let_def tid_def u_def current_unit_def)
  have u: "of_int u \<in> unit_bytes c" using i(2) by (simp add: unit_bytes_def u_def)
  have w: "past_ok (unit_bytes c) e" "ce_streams e \<noteq> []" "cl_asked (unit_bytes c) (last (ce_streams e))"
    using ok st by (auto simp: cl_ok_def wire_ok_def)
  have us: "unit_bytes ?b = unit_bytes c" by (simp add: unit_bytes_def)
  have "\<exists>s t v. cl_asked (unit_bytes c) s \<and> v \<in> unit_bytes c \<and> cc_tx ?b = fc3_request t v \<and>
      last (ce_streams e) = s @ take (cc_tx_off ?b) (cc_tx ?b) \<and> v = of_int (current_unit ?b)"
    using w(3) u i(2) by (intro exI [of _ "last (ce_streams e)"] exI [of _ tid] exI [of _ "of_int u"]) (simp add: current_unit_def u_def)
  then have "wire_ok ?b e" using w(1,2) unfolding wire_ok_def us by simp
  moreover have "units_ok ?b" using ok i by (auto simp: cl_ok_def units_ok_def current_unit_def)
  moreover have "cl_link_ok ?b e" using ok st by (auto simp: cl_ok_def cl_link_ok_def)
  ultimately show ?thesis unfolding b by (simp add: cl_ok_def keeps_unit_def rx_ok_def RX_CAP_def)
qed

lemma cl_transfer_ok:
  assumes ok: "cl_ok c e"
  shows "cl_turn_ok c (cl_transfer c e)"
proof (cases "cc_state c = ST_SEND")
  case True
  note s = cl_send_ok [OF ok True, of "ce_writes e"]
  show ?thesis
  proof (cases "cl_send c e (ce_writes e)")
    case (Inl t)
    then have "cl_transfer c e = t" using True by (simp add: cl_transfer_def)
    then show ?thesis using s Inl by (cases t) (simp add: sent_ok_def cl_turn_ok_def)
  next
    case (Inr ce)
    obtain c1 e1 where ce: "ce = (c1, e1)" by fastforce
    have k: "cl_ok c1 e1" "keeps_unit c c1" "cc_state c1 = ST_SEND" "length (cc_tx c1) \<le> cc_tx_off c1"
      using s Inr ce by (simp_all add: sent_ok_def)
    let ?r = "c1\<lparr>cc_state := ST_RECV, cc_want_read := True, cc_want_write := False, cc_rx := [],
        cc_io_deadline := XFin (ce_now e1 + CL_IO_TIMEOUT_S)\<rparr>"
    obtain s0 t u where w: "cl_asked (unit_bytes c1) s0" "u \<in> unit_bytes c1" "cc_tx c1 = fc3_request t u"
      "last (ce_streams e1) = s0 @ take (cc_tx_off c1) (cc_tx c1)"
      using k(1,3) unfolding cl_ok_def wire_ok_def by auto
    have "cl_asked (unit_bytes c1) (last (ce_streams e1))"
      using asked_more [OF w(1,2), of t] w(3,4) k(4) by simp
    then have "cl_ok ?r e1"
      using k(1,3) by (auto simp: cl_ok_def units_ok_def cl_link_ok_def wire_ok_def rx_ok_def unit_bytes_def current_unit_def RX_CAP_def)
    then have "cl_turn_ok ?r (cl_recv ?r e1)" by (rule cl_recv_ok) simp
    moreover have "cl_transfer c e = cl_recv ?r e1" using True Inr ce by (simp add: cl_transfer_def)
    ultimately show ?thesis using k(2) keeps_unit_trans by (auto simp: cl_turn_ok_def keeps_unit_def split: prod.splits)
  qed
next
  case False
  then show ?thesis
    using ok cl_recv_ok [OF ok] by (auto simp: cl_transfer_def cl_turn_ok_def)
qed

lemma connect_turn_ok:
  assumes ok: "cl_ok c e" and d: "cc_state c = ST_DISCONNECTED"
  shows "cl_turn_ok c (case cl_start_connect (c\<lparr>cc_itry := 0\<rparr>) e of (True, r) \<Rightarrow> (MF_STEP_IDLE, r) | (False, r) \<Rightarrow> (MF_STEP_ERROR, r))"
proof -
  let ?c = "c\<lparr>cc_itry := 0\<rparr>"
  obtain b c' e' where s: "cl_start_connect ?c e = (b, c', e')" using prod_cases3 by blast
  have pre: "cl_link_ok ?c e" "past_ok (unit_bytes ?c) e" "cc_unit_try ?c \<noteq> []"
    using ok by (auto simp: cl_ok_def cl_link_ok_def wire_ok_def unit_bytes_def units_ok_def)
  note st = cl_start_connect_ok [OF pre s]
  have "units_ok c'"
    using st ok pre(3) by (intro units_ok_idle [of _ ?c]) (auto simp: cl_ok_def units_ok_def)
  then show ?thesis using st s by (cases b) (auto simp: cl_turn_ok_def cl_ok_def keeps_unit_def units_of_def)
qed

lemma cl_progress_ok:
  assumes ok: "cl_ok c e"
  shows "cl_turn_ok c (cl_progress c e)"
proof -
  consider (down) "cc_state c = ST_DISCONNECTED"
    | (late) "cc_state c \<noteq> ST_DISCONNECTED" "cc_state c \<noteq> ST_HOLD \<and> cc_io_deadline c < XFin (ce_now e)"
    | (conn) "cc_state c = ST_CONNECTING" "\<not> cc_io_deadline c < XFin (ce_now e)"
    | (other) "cc_state c \<noteq> ST_DISCONNECTED" "cc_state c \<noteq> ST_CONNECTING"
        "\<not> (cc_state c \<noteq> ST_HOLD \<and> cc_io_deadline c < XFin (ce_now e))"
    by (cases "cc_state c") auto
  then show ?thesis
  proof cases
    case down
    then show ?thesis using connect_turn_ok [OF ok down] by (simp add: cl_progress_def)
  next
    case late
    have "cl_turn_ok c (cl_fail (cl_set_err (''io timeout unit '' @ dec_int (current_unit c)) c) e)"
      using ok by (intro turn_fail) (simp_all add: keeps_unit_def)
    then show ?thesis using late by (simp add: cl_progress_def)
  next
    case conn
    obtain cr c1 e1 where r: "connect_ready c e = (cr, c1, e1)" using prod_cases3 by blast
    then have k: "cl_ok c1 e1 \<and> keeps_unit c c1 \<and> cc_state c1 = cc_state c"
      using ok by (auto simp: connect_ready_def keeps_unit_def Let_def split: list.splits cl_conn_poll.splits)
    have "cl_turn_ok c (cl_fail c1 e1)" using k by (intro turn_fail) simp_all
    moreover have b: "cl_ok (build_fc3 (prefer_unit_ok c1) (ce_now e)) e1 \<and>
        keeps_unit c (build_fc3 (prefer_unit_ok c1) (ce_now e))"
      using build_fc3_ok [of c1 e1 "ce_now e"] k conn keeps_unit_trans by metis
    then have "cl_turn_ok c (cl_transfer (build_fc3 (prefer_unit_ok c1) (ce_now e)) e1)"
      using cl_transfer_ok keeps_unit_trans by (fastforce simp: cl_turn_ok_def)
    ultimately show ?thesis using conn r k by (simp add: cl_progress_def cl_turn_ok_def)
  next
    case other
    then show ?thesis using cl_transfer_ok [OF ok] by (auto simp: cl_progress_def Let_def)
  qed
qed

lemma cl_pump_ok:
  assumes ok: "cl_ok c e"
  shows "cl_turn_ok c (cl_pump c e)"
proof -
  consider (run) "cc_state c \<noteq> ST_HOLD" | (wait) "cc_state c = ST_HOLD" "XFin (ce_now e) < cc_next_poll c"
    | (old) "cc_state c = ST_HOLD" "\<not> XFin (ce_now e) < cc_next_poll c" "RECONNECT_S \<le> ce_now e - cc_last_ok c"
    | (due) "cc_state c = ST_HOLD" "\<not> XFin (ce_now e) < cc_next_poll c" "\<not> RECONNECT_S \<le> ce_now e - cc_last_ok c"
    by blast
  then show ?thesis
  proof cases
    case run
    then show ?thesis using cl_progress_ok [OF ok] by (simp add: cl_pump_def)
  next
    case wait
    then show ?thesis using ok by (simp add: cl_pump_def cl_turn_ok_def)
  next
    case old
    obtain c1 e1 where s: "cl_sock_close c e = (c1, e1)" by fastforce
    have "cl_link_ok c e" "past_ok (unit_bytes c) e" "units_ok c" using ok by (simp_all add: cl_ok_def wire_ok_def)
    note k = cl_sock_close_ok [OF this(1,2) s]
    have "cc_unit_try c1 = cc_unit_try c" "cc_unit_ok c1 = cc_unit_ok c" "cc_itry c1 = cc_itry c"
      using k by (simp_all add: units_of_def)
    then have c1: "cl_ok c1 e1" "keeps_unit c c1"
      using k \<open>units_ok c\<close>
      by (auto simp: cl_ok_def wire_ok_def units_ok_def rx_ok_def RX_CAP_def unit_bytes_def keeps_unit_def)
    have "cl_turn_ok c1 (case cl_start_connect (c1\<lparr>cc_itry := 0\<rparr>) e1 of (True, r) \<Rightarrow> (MF_STEP_IDLE, r) | (False, r) \<Rightarrow> (MF_STEP_ERROR, r))"
      using connect_turn_ok [OF c1(1)] k by blast
    then show ?thesis
      using old s c1(2) keeps_unit_trans by (fastforce simp: cl_pump_def cl_turn_ok_def)
  next
    case due
    then have b: "cl_ok (build_fc3 (prefer_unit_ok c) (ce_now e)) e" "keeps_unit c (build_fc3 (prefer_unit_ok c) (ce_now e))"
      using build_fc3_ok [OF ok] by auto
    have "cl_turn_ok c (cl_progress (build_fc3 (prefer_unit_ok c) (ce_now e)) e)"
      using cl_progress_ok [OF b(1)] b(2) keeps_unit_trans by (fastforce simp: cl_turn_ok_def)
    then show ?thesis using due by (simp add: cl_pump_def)
  qed
qed

subsection \<open>Every history\<close>

text \<open>What has happened outside since the last turn: the time, new connections, and what the socket in use answers next.\<close>

record cl_news =
  nw_now :: cdouble
  nw_conns :: "cl_conn list"
  nw_polls :: "cl_conn_poll list"
  nw_writes :: "sock_write list"
  nw_reads :: "sock_read list"

definition arrive :: "cl_news \<Rightarrow> cl_env \<Rightarrow> cl_env" where
  "arrive n e = e\<lparr>ce_now := nw_now n, ce_conns := ce_conns e @ nw_conns n, ce_polls := ce_polls e @ nw_polls n,
     ce_writes := ce_writes e @ nw_writes n, ce_reads := ce_reads e @ nw_reads n\<rparr>"

fun cl_run :: "classic_ctx \<Rightarrow> cl_env \<Rightarrow> cl_news list \<Rightarrow> classic_ctx \<times> cl_env" where
  "cl_run c e [] = (c, e)"
| "cl_run c e (n # ns) = (case classic_step c (arrive n e) of (r, c, e) \<Rightarrow> cl_run c e ns)"

lemma cl_ok_arrive [simp]: "cl_ok c (arrive n e) = cl_ok c e"
  by (simp add: arrive_def cl_ok_def cl_link_ok_def wire_ok_def past_ok_def)

lemma cl_run_ok:
  "cl_ok c e \<Longrightarrow> cl_run c e ns = (c', e') \<Longrightarrow> cl_ok c' e' \<and> keeps_unit c c'"
proof (induction ns arbitrary: c e)
  case (Cons n ns)
  obtain r c1 e1 where s: "classic_step c (arrive n e) = (r, c1, e1)" using prod_cases3 by blast
  then have "cl_ok c1 e1 \<and> keeps_unit c c1"
    using cl_pump_ok [of c "arrive n e"] Cons.prems(1) by (simp add: classic_step_def cl_turn_ok_def)
  then show ?case using Cons.IH [of c1 e1] Cons.prems(2) s keeps_unit_trans by auto
qed simp

text \<open>A new driver finds no socket open and nothing sent.\<close>

definition cl_env_new :: "cl_env \<Rightarrow> bool" where
  "cl_env_new e \<longleftrightarrow> ce_ports e = [] \<and> ce_streams e = []"

lemma classic_open_ok:
  assumes "cl_env_new e" and "classic_open spec e = (m, c, e')"
  shows "cl_ok c e' \<and> cc_unit_try c = (let u = cc_unit_cfg c in
    (if 0 < u then [u] else []) @ (if u = 10 then [] else [10]) @ (if u = 1 then [] else [1]))"
proof -
  obtain c0 where c0: "m = [] \<or> m = cc_err c" "cc_state c0 = ST_DISCONNECTED" "cc_fd c0 = None" "cc_itry c0 = 0" "cc_unit_ok c0 = 0"
    "\<exists>b. cl_start_connect c0 e = (b, c, e')" "cc_unit_try c0 = (let u = cc_unit_cfg c0 in
      (if 0 < u then [u] else []) @ (if u = 10 then [] else [10]) @ (if u = 1 then [] else [1]))"
  proof -
    define c0 where "c0 = build_unit_list (classic_ctx_zero
      \<lparr>cc_ip := (if json_str (json_modbus_scope spec) ''ip'' 64 = [] then ''127.0.0.1'' else json_str (json_modbus_scope spec) ''ip'' 64),
       cc_port := (if json_int (json_modbus_scope spec) ''port'' 502 \<le> 0 \<or> 65535 < json_int (json_modbus_scope spec) ''port'' 502
                   then 502 else json_int (json_modbus_scope spec) ''port'' 502),
       cc_unit_cfg := json_int (json_modbus_scope spec) ''unit_id'' 10,
       cc_poll_interval_s :=
         (if (if json_double spec ''poll_interval_s'' (XFin 0) \<le> XFin 0 then XFin CL_POLL_DEFAULT else json_double spec ''poll_interval_s'' (XFin 0)) < XFin CL_POLL_MIN
          then XFin CL_POLL_MIN
          else if json_double spec ''poll_interval_s'' (XFin 0) \<le> XFin 0 then XFin CL_POLL_DEFAULT
          else json_double spec ''poll_interval_s'' (XFin 0))\<rparr>)"
    have "cc_state c0 = ST_DISCONNECTED \<and> cc_fd c0 = None \<and> cc_itry c0 = 0 \<and> cc_unit_ok c0 = 0"
      unfolding c0_def build_unit_list_def by (simp add: Let_def classic_ctx_zero_def)
    moreover have "cc_unit_try c0 = (let u = cc_unit_cfg c0 in
      (if 0 < u then [u] else []) @ (if u = 10 then [] else [10]) @ (if u = 1 then [] else [1]))"
      unfolding c0_def build_unit_list_def by (simp add: Let_def)
    moreover obtain b c1 e1 where s: "cl_start_connect c0 e = (b, c1, e1)" using prod_cases3 by blast
    then have "classic_open spec e = (if b then [] else cc_err c1, c1, e1)"
      unfolding classic_open_def Let_def c0_def [symmetric] by (cases b) simp_all
    ultimately show ?thesis using assms(2) s by (intro that [of c0]) (auto split: if_splits)
  qed
  then obtain b where s: "cl_start_connect c0 e = (b, c, e')" by blast
  have ne: "cc_unit_try c0 \<noteq> []" using c0(7) by (auto simp: Let_def)
  have "cl_link_ok c0 e" "past_ok (unit_bytes c0) e"
    using assms(1) c0(2,3) by (simp_all add: cl_link_ok_def past_ok_def cl_env_new_def)
  note st = cl_start_connect_ok [OF this ne s]
  have "units_ok c" using st ne c0(4,5) by (intro units_ok_idle [of _ c0]) auto
  moreover have "cc_unit_cfg c = cc_unit_cfg c0"
    using s by (auto simp: cl_start_connect_def cl_sock_close_def cl_set_err_def Let_def split: option.splits list.splits if_splits)
  ultimately show ?thesis using st c0(7) by (simp add: cl_ok_def units_of_def)
qed

text \<open>
  C37: Whatever a Classic driver that was opened lives through, it only reads: every byte it has sent on
  any of its connections belongs to a Modbus request for the registers 4100 to 4212, addressed to one of
  the units of its list; and its sockets are accounted for: none was closed twice, the open ones are the
  one it holds, and none is open once the driver is closed.
\<close>

theorem classic_reads_only:
  assumes "cl_env_new e0" and "classic_open spec e0 = (m, c0, e1)" and "cl_run c0 e1 ns = (c, e)"
  shows "(\<forall>s \<in> set (ce_streams e). reads_only (of_int ` set (cc_unit_try c0)) s) \<and>
    ports_after [] (ce_ports e) = Some (held_list (cc_fd c)) \<and>
    ports_after [] (ce_ports (classic_close (Some c) e)) = Some [] \<and>
    (cc_fd c = None \<longleftrightarrow> cc_state c = ST_DISCONNECTED) \<and> length (cc_rx c) < RX_CAP"
proof -
  have "cl_ok c0 e1" using classic_open_ok [OF assms(1,2)] by blast
  from cl_run_ok [OF this assms(3)] have "cl_ok c e" "cc_unit_try c = cc_unit_try c0" by (auto simp: keeps_unit_def)
  then show ?thesis
    by (auto simp: cl_ok_def wire_ok_def past_ok_def cl_link_ok_def rx_ok_def unit_bytes_def classic_close_def
        cl_sock_close_def asks_only_reads split: option.split)
qed

text \<open>
  Once a unit has answered it is the only one asked: after the first good reply every request
  carries that unit id, so the other ids of the list are never tried again, although every failure
  moves on to the next one.
\<close>

theorem classic_unit_sticks:
  assumes "cl_env_new e0" and "classic_open spec e0 = (m, c0, e1)" and "cl_run c0 e1 ns = (c, e)"
    and "cc_unit_ok c = u" and "u \<noteq> 0" and "cl_run c e ns' = (c', e')"
  shows "cc_unit_ok c' = u \<and> (cc_state c' = ST_SEND \<longrightarrow> (\<exists>t. cc_tx c' = fc3_request t (of_int u))) \<and>
    (cc_state c' = ST_RECV \<longrightarrow> current_unit c' = u)"
proof -
  have "cl_ok c e" using classic_open_ok [OF assms(1,2)] cl_run_ok [OF _ assms(3)] by blast
  from cl_run_ok [OF this assms(6)] have "cl_ok c' e'" "cc_unit_ok c' = u" using assms(4,5) by (auto simp: keeps_unit_def)
  then show ?thesis using assms(5) by (auto simp: cl_ok_def units_ok_def wire_ok_def)
qed

subsection \<open>An instance\<close>

definition cl_net :: cl_env where
  "cl_net = \<lparr>ce_now = 1, ce_conns = [\<lparr>cn_fd = Some 5, cn_connect = True, cn_polls = [Connected], cn_writes = [Accepts 12],
     cn_reads = []\<rparr>], ce_polls = [], ce_writes = [], ce_reads = [], ce_inet = (\<lambda>_. True), ce_strerror = [],
     ce_ports = [], ce_streams = []\<rparr>"

definition cl_later :: "cdouble \<Rightarrow> cl_news" where
  "cl_later t = \<lparr>nw_now = t, nw_conns = [], nw_polls = [], nw_writes = [], nw_reads = []\<rparr>"

theorem classic_reads_only_witness:
  "\<exists>c e. cl_run (fst (snd (classic_open ''{\"unit_id\":3}'' cl_net))) (snd (snd (classic_open ''{\"unit_id\":3}'' cl_net)))
       [cl_later 2, cl_later 3] = (c, e) \<and> list_all (reads_only {3, 10, 1}) (ce_streams e) \<and>
     ports_after [] (ce_ports e) = Some (held_list (cc_fd c)) \<and> ce_streams e = [fc3_request 1 3]"
proof -
  let ?o = "classic_open ''{\"unit_id\":3}'' cl_net"
  let ?r = "cl_run (fst (snd ?o)) (snd (snd ?o)) [cl_later 2, cl_later 3]"
  have o: "?o = (fst ?o, fst (snd ?o), snd (snd ?o))" by simp
  have r: "?r = (fst ?r, snd ?r)" by simp
  have u: "cc_unit_try (fst (snd ?o)) = [3, 10, 1]" by code_simp
  have "cl_env_new cl_net" by (simp add: cl_env_new_def cl_net_def)
  note safe = classic_reads_only [OF this o r]
  have "ce_streams (snd ?r) = [fc3_request 1 3]" by code_simp
  then show ?thesis
    using safe unfolding u by (intro exI [of _ "fst ?r"] exI [of _ "snd ?r"]) (simp add: list_all_iff)
qed

end
