(* ===== verification/ClassicReading.thy ===== *)
theory ClassicReading
  imports ClassicSafety
begin

section \<open>From the controller's registers to the driver's reading\<close>

text \<open>
  The reply of a controller, the register image the driver makes of it and the decoder, composed: a
  reading comes back field by field however the network cuts the reply.
\<close>

definition fc3_reply :: "u16 \<Rightarrow> byte \<Rightarrow> u16 list \<Rightarrow> byte list" where
  "fc3_reply tid unit regs = put_be16 tid @ put_be16 0 @ put_be16 (of_nat (3 + 2 * length regs)) @
     [unit, 0x03, of_nat (2 * length regs)] @ concat (map put_be16 regs)"

text \<open>The registers 4100 to 4212 of a controller with the reading \<open>d\<close>.\<close>

definition classic_window :: "classic_data \<Rightarrow> u16 list" where
  "classic_window d = drop REG_START (classic_image d) @ replicate 3 0"

lemma be16_hi_lo [simp]: "be16 (hi_byte w) (lo_byte w) = w"
  by (auto simp: hi_byte_def lo_byte_def be16_def bit_eq_iff bit_simps)

lemma put_be16_nth [simp]: "put_be16 w ! 0 = hi_byte w" "put_be16 w ! Suc 0 = lo_byte w" "length (put_be16 w) = 2"
  by (simp_all add: put_be16_def)

lemma concat_words_length: "length (concat (map put_be16 ws)) = 2 * length ws"
  by (induction ws) simp_all

lemma concat_words_nth:
  "i < length ws \<Longrightarrow> concat (map put_be16 ws) ! (2 * i) = hi_byte (ws ! i) \<and>
     concat (map put_be16 ws) ! Suc (2 * i) = lo_byte (ws ! i)"
proof (induction ws arbitrary: i)
  case (Cons w ws)
  then show ?case by (cases i) (simp_all add: nth_append put_be16_def)
qed simp

lemma reply_length: "length (fc3_reply tid unit regs) = 9 + 2 * length regs"
  by (simp add: fc3_reply_def concat_words_length)

lemma reply_fields:
  assumes "length regs = 113"
  shows "cl_be16 (fc3_reply tid unit regs) 4 = 229" "fc3_reply tid unit regs ! 7 = 0x03"
    "fc3_reply tid unit regs ! 8 = 226"
    "i < 113 \<Longrightarrow> cl_be16 (fc3_reply tid unit regs) (9 + 2 * i) = regs ! i"
proof -
  have head: "fc3_reply tid unit regs = [hi_byte tid, lo_byte tid, hi_byte 0, lo_byte 0, hi_byte 229, lo_byte 229,
      unit, 0x03, 226] @ concat (map put_be16 regs)"
    using assms by (simp add: fc3_reply_def put_be16_def)
  then show "cl_be16 (fc3_reply tid unit regs) 4 = 229" "fc3_reply tid unit regs ! 7 = 0x03"
    "fc3_reply tid unit regs ! 8 = 226"
    by (simp_all add: cl_be16_def)
  have "([a0, a1, a2, a3, a4, a5, a6, a7, a8] @ ws) ! (9 + k) = ws ! k" for a0 a1 a2 a3 a4 a5 a6 a7 a8 and ws :: "byte list" and k
    by (simp add: nth_append)
  from this [of _ _ _ _ _ _ _ _ _ _ "2 * i"] this [of _ _ _ _ _ _ _ _ _ _ "Suc (2 * i)"]
  show "i < 113 \<Longrightarrow> cl_be16 (fc3_reply tid unit regs) (9 + 2 * i) = regs ! i"
    using concat_words_nth [of i regs] assms unfolding head cl_be16_def by (simp add: add.assoc)
qed

lemma reply_image:
  assumes "length regs = 113"
  shows "fc3_image (fc3_reply tid unit regs) = replicate REG_START 0 @ regs @ replicate 7 0"
proof -
  have "map (\<lambda>i. cl_be16 (fc3_reply tid unit regs) (9 + 2 * i)) [0 ..< REG_QTY] = regs"
    using reply_fields(4) [OF assms] assms by (intro nth_equalityI) (simp_all add: REG_QTY_def)
  then show ?thesis by (simp add: fc3_image_def REG_IMAGE_def REG_START_def REG_QTY_def)
qed

subsection \<open>The decoder looks at the window only\<close>

lemma classic_decode_cong:
  assumes len: "4209 < length r" "4209 < length r'" and same: "\<And>a. 4100 \<le> a \<Longrightarrow> a \<le> 4209 \<Longrightarrow> r ! a = r' ! a"
  shows "classic_decode (Some r) out = classic_decode (Some r') out"
proof -
  have U: "U16 r a = U16 r' a" if "4100 \<le> a" "a \<le> 4209" for a
    using that len same by (simp add: U16_def)
  have n: "need r a out k = k out" "need r' a out k = k out" if "a \<le> 4209" for a out k
    using that len by (simp_all add: need_def)
  have le: "CLASSIC_REG_CLASSIC_NAME \<le> 4209" "CLASSIC_REG_BATT_VOLTAGE \<le> 4209" "CLASSIC_REG_IBATT \<le> 4209"
    "CLASSIC_REG_KWH_TODAY \<le> 4209" "CLASSIC_REG_WATTS \<le> 4209" "CLASSIC_REG_CHARGE_STAGE \<le> 4209"
    "CLASSIC_REG_AH_TODAY \<le> 4209" "CLASSIC_REG_LIFETIME_KWH_LO \<le> 4209" "CLASSIC_REG_LIFETIME_KWH_HI \<le> 4209"
    "CLASSIC_REG_UNIT_MAC_HI \<le> 4209" "CLASSIC_REG_UNIT_MAC_MID \<le> 4209" "CLASSIC_REG_UNIT_MAC_LO \<le> 4209"
    "CLASSIC_REG_DEVICE_ID_LO \<le> 4209" "CLASSIC_REG_DEVICE_ID_HI \<le> 4209"
    by (simp_all add: classic_regs)
  have ge: "4100 \<le> CLASSIC_REG_CLASSIC_NAME" "4100 \<le> CLASSIC_REG_BATT_VOLTAGE" "4100 \<le> CLASSIC_REG_IBATT"
    "4100 \<le> CLASSIC_REG_KWH_TODAY" "4100 \<le> CLASSIC_REG_WATTS" "4100 \<le> CLASSIC_REG_CHARGE_STAGE"
    "4100 \<le> CLASSIC_REG_AH_TODAY" "4100 \<le> CLASSIC_REG_LIFETIME_KWH_LO" "4100 \<le> CLASSIC_REG_LIFETIME_KWH_HI"
    "4100 \<le> CLASSIC_REG_UNIT_MAC_HI" "4100 \<le> CLASSIC_REG_UNIT_MAC_MID" "4100 \<le> CLASSIC_REG_UNIT_MAC_LO"
    "4100 \<le> CLASSIC_REG_DEVICE_ID_LO" "4100 \<le> CLASSIC_REG_DEVICE_ID_HI"
    by (simp_all add: classic_regs)
  show ?thesis by (simp add: classic_decode_def Let_def n le U [OF ge(1) le(1)] U [OF ge(2) le(2)] U [OF ge(3) le(3)]
      U [OF ge(4) le(4)] U [OF ge(5) le(5)] U [OF ge(6) le(6)] U [OF ge(7) le(7)] U [OF ge(8) le(8)] U [OF ge(9) le(9)]
      U [OF ge(10) le(10)] U [OF ge(11) le(11)] U [OF ge(12) le(12)] U [OF ge(13) le(13)] U [OF ge(14) le(14)])
qed

lemma image_length: "length (classic_image d) = 4210"
  by (simp add: classic_image_def Let_def)

lemma window_length: "length (classic_window d) = 113"
  by (simp add: classic_window_def image_length REG_START_def)

lemma window_decodes:
  assumes "classic_wf d"
  shows "classic_decode (Some (replicate REG_START 0 @ classic_window d @ replicate 7 0)) out = (CLASSIC_OK, d)"
proof -
  have "(replicate REG_START 0 @ classic_window d @ replicate 7 0) ! a = classic_image d ! a" if "4100 \<le> a" "a \<le> 4209" for a
  proof -
    have "a - 4100 < 110" using that by linarith
    then show ?thesis using that by (simp add: nth_append classic_window_def image_length REG_START_def)
  qed
  then have "classic_decode (Some (replicate REG_START 0 @ classic_window d @ replicate 7 0)) out = classic_decode (Some (classic_image d)) out"
    by (intro classic_decode_cong) (simp_all add: image_length window_length REG_START_def)
  then show ?thesis using classic_image_decodes [OF assms] by simp
qed

subsection \<open>The reply in pieces\<close>

definition byte_char :: "byte \<Rightarrow> char" where "byte_char b = char_of (unat b)"

lemma char_byte_back [simp]: "char_byte (byte_char b) = b"
proof -
  have "unat b mod 256 = unat b" using unsigned_less [of b, where 'a = nat] by simp
  then show ?thesis by (simp add: char_byte_def byte_char_def)
qed

lemma map_char_byte [simp]: "map (char_byte \<circ> byte_char) bs = bs"
  by (simp add: comp_def)

lemma parse_incomplete:
  assumes "length regs = 113" and "cc_rx c = take n (fc3_reply tid unit regs)" and "n < 235"
  shows "parse_fc3 c now = (FC3_MORE, c)"
proof -
  have len: "length (cc_rx c) = n" using assms reply_length [of tid unit regs] by simp
  have "cl_be16 (cc_rx c) 4 = 229" if "6 \<le> n"
    using that reply_fields(1) [OF assms(1), where tid = tid and unit = unit] by (simp add: assms(2) cl_be16_def)
  then show ?thesis using len assms(3) by (cases "n < 6") (simp_all add: parse_fc3_def Let_def RX_CAP_def)
qed

definition poll_done :: "classic_ctx \<Rightarrow> cdouble \<Rightarrow> classic_data \<Rightarrow> classic_ctx" where
  "poll_done c now d = c\<lparr>cc_data := d, cc_unit_ok := current_unit c, cc_have_data := True, cc_ever_ok := True,
     cc_last_ok := now, cc_next_poll := XFin now + cc_poll_interval_s c, cc_err := []\<rparr>"

lemma fc3_complete:
  assumes d: "classic_wf d" and rx: "cc_rx c = fc3_reply tid unit (classic_window d)"
  shows "parse_fc3 c now = (FC3_OK, poll_done c now d)"
proof -
  note f = reply_fields(1-3) [OF window_length [of d], where tid = tid and unit = unit]
  have len: "length (cc_rx c) = 235" by (simp add: rx reply_length window_length)
  have "classic_decode (Some (fc3_image (cc_rx c))) (cc_data c) = (CLASSIC_OK, d)"
    unfolding rx reply_image [OF window_length] using window_decodes [OF d] .
  then show ?thesis
    using len f rx
    by (simp add: parse_fc3_def Let_def RX_CAP_def REG_QTY_def poll_done_def current_unit_def)
qed

text \<open>Reading what has arrived of the reply: the pieces before the last byte leave the driver waiting.\<close>

abbreviation chunks :: "byte list list \<Rightarrow> sock_read list" where
  "chunks bss \<equiv> map (\<lambda>bs. Chunk (map byte_char bs)) bss"

lemma recv_piece:
  assumes "length (cc_rx c) + length bs \<le> 235" and "bs \<noteq> []" and "ce_reads e = chunks (bs # bss)"
    and "parse_fc3 (c\<lparr>cc_rx := cc_rx c @ bs\<rparr>) (ce_now e) = (FC3_MORE, c2)"
  shows "cl_recv c e = cl_recv c2 (e\<lparr>ce_reads := chunks bss\<rparr>)"
proof -
  have "length bs \<le> RX_CAP - length (cc_rx c)" "\<not> RX_CAP \<le> length (cc_rx c)" using assms(1) by (simp_all add: RX_CAP_def)
  then show ?thesis using assms(2-4) by (subst cl_recv.simps) simp
qed

lemma recv_waits:
  assumes "length regs = 113" and "cc_rx c @ concat bss = take n (fc3_reply tid unit regs)" and "n < 235"
    and "\<forall>bs \<in> set bss. bs \<noteq> []" and "ce_reads e = chunks bss"
  shows "cl_recv c e = (MF_STEP_IDLE, c\<lparr>cc_rx := cc_rx c @ concat bss\<rparr>, e\<lparr>ce_reads := []\<rparr>)"
  using assms(2,4,5)
proof (induction bss arbitrary: c e)
  case Nil
  have "length (cc_rx c) = n" using Nil assms(1,3) reply_length [of tid unit regs] by simp
  then show ?case using Nil assms(3) by (subst cl_recv.simps) (simp add: RX_CAP_def)
next
  case (Cons bs bss)
  define k where "k = length (cc_rx c @ bs)"
  have len: "length (cc_rx c @ bs @ concat bss) = n" using Cons.prems(1) assms(1,3) reply_length [of tid unit regs] by simp
  then have k: "k \<le> n" by (simp add: k_def)
  have "cc_rx c @ bs = take k (cc_rx c @ concat (bs # bss))" by (simp add: k_def)
  also have "\<dots> = take k (fc3_reply tid unit regs)" unfolding Cons.prems(1) using k by (simp add: min_def)
  finally have rx: "cc_rx c @ bs = take k (fc3_reply tid unit regs)" .
  let ?c = "c\<lparr>cc_rx := cc_rx c @ bs\<rparr>"
  have "parse_fc3 ?c (ce_now e) = (FC3_MORE, ?c)" by (rule parse_incomplete [OF assms(1), of _ k]) (use rx k assms(3) in simp_all)
  then have "cl_recv c e = cl_recv ?c (e\<lparr>ce_reads := chunks bss\<rparr>)"
    using Cons.prems(2,3) len assms(3) by (intro recv_piece) simp_all
  also have "\<dots> = (MF_STEP_IDLE, ?c\<lparr>cc_rx := cc_rx ?c @ concat bss\<rparr>, (e\<lparr>ce_reads := chunks bss\<rparr>)\<lparr>ce_reads := []\<rparr>)"
    by (rule Cons.IH) (use Cons.prems in simp_all)
  finally show ?case by simp
qed

definition back_on_hold :: "classic_ctx \<Rightarrow> classic_ctx" where
  "back_on_hold c = c\<lparr>cc_state := ST_HOLD, cc_want_read := False, cc_want_write := False, cc_tx := [], cc_tx_off := 0,
     cc_rx := [], cc_io_deadline := cc_next_poll c + XFin RECONNECT_S\<rparr>"

lemma recv_completes:
  assumes d: "classic_wf d" and all: "cc_rx c @ concat bss = fc3_reply tid unit (classic_window d)"
    and ne: "bss \<noteq> []" "\<forall>bs \<in> set bss. bs \<noteq> []" and r: "ce_reads e = chunks bss"
  shows "\<exists>e'. cl_recv c e = (MF_STEP_UPDATED, back_on_hold (poll_done (c\<lparr>cc_rx := cc_rx c @ concat bss\<rparr>) (ce_now e) d), e')"
  using all ne r
proof (induction bss arbitrary: c e)
  case (Cons bs bss)
  have len: "length (cc_rx c @ bs @ concat bss) = 235" using Cons.prems(1) by (simp add: reply_length window_length)
  let ?c = "c\<lparr>cc_rx := cc_rx c @ bs\<rparr>"
  show ?case
  proof (cases bss)
    case Nil
    then have "parse_fc3 ?c (ce_now e) = (FC3_OK, poll_done ?c (ce_now e) d)"
      using Cons.prems(1) by (intro fc3_complete [OF d]) simp
    moreover have "length bs \<le> RX_CAP - length (cc_rx c)" "\<not> RX_CAP \<le> length (cc_rx c)" using len by (simp_all add: RX_CAP_def)
    ultimately show ?thesis
      using Cons.prems Nil by (subst cl_recv.simps) (simp add: back_on_hold_def)
  next
    case (Cons bs' bss')
    define k where "k = length (cc_rx c @ bs)"
    have "bs' \<noteq> []" using Cons.prems(3) Cons by simp
    then have k: "k < 235" using len by (cases bs') (simp_all add: k_def Cons)
    have "take k (cc_rx c @ bs @ concat bss) = cc_rx c @ bs" by (simp add: k_def)
    moreover have "fc3_reply tid unit (classic_window d) = cc_rx c @ bs @ concat bss" using Cons.prems(1) by simp
    ultimately have rx: "cc_rx c @ bs = take k (fc3_reply tid unit (classic_window d))" by (simp only:)
    have "parse_fc3 ?c (ce_now e) = (FC3_MORE, ?c)"
      by (rule parse_incomplete [OF window_length [of d], of _ k]) (use rx k in simp_all)
    then have "cl_recv c e = cl_recv ?c (e\<lparr>ce_reads := chunks bss\<rparr>)"
      using Cons.prems(3,4) len by (intro recv_piece) simp_all
    moreover have "\<exists>e'. cl_recv ?c (e\<lparr>ce_reads := chunks bss\<rparr>) =
        (MF_STEP_UPDATED, back_on_hold (poll_done (?c\<lparr>cc_rx := cc_rx ?c @ concat bss\<rparr>) (ce_now (e\<lparr>ce_reads := chunks bss\<rparr>)) d), e')"
      by (rule Cons.IH) (use Cons.prems Cons in simp_all)
    ultimately show ?thesis by simp
  qed
qed simp

subsection \<open>A poll across turns\<close>

text \<open>The news of one turn: its time and the pieces that have arrived.\<close>

definition turn_news :: "cdouble \<times> byte list list \<Rightarrow> cl_news" where
  "turn_news x = \<lparr>nw_now = fst x, nw_conns = [], nw_polls = [], nw_writes = [], nw_reads = chunks (snd x)\<rparr>"

lemma recv_turn:
  assumes "cc_state c = ST_RECV" and "\<not> cc_io_deadline c < XFin (fst x)" and "ce_reads e = []"
  shows "classic_step c (arrive (turn_news x) e) = cl_recv c (arrive (turn_news x) e) \<and>
    ce_reads (arrive (turn_news x) e) = chunks (snd x) \<and> ce_now (arrive (turn_news x) e) = fst x"
  using assms by (simp add: classic_step_def cl_pump_def cl_progress_def cl_transfer_def arrive_def turn_news_def)

lemma turns_complete:
  assumes d: "classic_wf d" and st: "cc_state c = ST_RECV" and r: "ce_reads e = []"
    and all: "cc_rx c @ concat (concat (map snd (xs @ [x]))) = fc3_reply tid unit (classic_window d)"
    and ne: "snd x \<noteq> []" "\<forall>y \<in> set (xs @ [x]). \<forall>bs \<in> set (snd y). bs \<noteq> []"
    and time: "\<forall>y \<in> set (xs @ [x]). \<not> cc_io_deadline c < XFin (fst y)"
  shows "\<exists>c1 e'. cl_run c e (map turn_news (xs @ [x])) = (back_on_hold (poll_done c1 (fst x) d), e') \<and>
    units_of c1 = units_of c \<and> cc_fd c1 = cc_fd c"
  using st r all ne time
proof (induction xs arbitrary: c e)
  case Nil
  obtain e' where "cl_recv c (arrive (turn_news x) e) =
      (MF_STEP_UPDATED, back_on_hold (poll_done (c\<lparr>cc_rx := cc_rx c @ concat (snd x)\<rparr>) (fst x) d), e')"
    using recv_completes [OF d, of c "snd x" tid unit "arrive (turn_news x) e"] Nil recv_turn [of c x e] by auto
  then have "cl_run c e (map turn_news ([] @ [x])) = (back_on_hold (poll_done (c\<lparr>cc_rx := cc_rx c @ concat (snd x)\<rparr>) (fst x) d), e')"
    using recv_turn [of c x e] Nil by simp
  moreover have "units_of (c\<lparr>cc_rx := cc_rx c @ concat (snd x)\<rparr>) = units_of c \<and> cc_fd (c\<lparr>cc_rx := cc_rx c @ concat (snd x)\<rparr>) = cc_fd c"
    by (simp add: units_of_def)
  ultimately show ?case by blast
next
  case (Cons y ys)
  define n where "n = length (cc_rx c @ concat (snd y))"
  define rest where "rest = concat (concat (map snd (ys @ [x])))"
  have full: "(cc_rx c @ concat (snd y)) @ rest = fc3_reply tid unit (classic_window d)"
    using Cons.prems(3) by (simp add: rest_def)
  have "concat (snd x) \<noteq> []" using Cons.prems(4,5) by (cases "snd x") auto
  then have "rest \<noteq> []" by (simp add: rest_def)
  then have "n < 235" using arg_cong [OF full, of length] by (cases rest) (simp_all add: n_def reply_length window_length)
  moreover have "cc_rx c @ concat (snd y) = take n (fc3_reply tid unit (classic_window d))"
    unfolding full [symmetric] by (simp add: n_def)
  ultimately have "cl_recv c (arrive (turn_news y) e) =
      (MF_STEP_IDLE, c\<lparr>cc_rx := cc_rx c @ concat (snd y)\<rparr>, (arrive (turn_news y) e)\<lparr>ce_reads := []\<rparr>)"
    using recv_waits [OF window_length, of c "snd y" n tid unit d "arrive (turn_news y) e"] recv_turn [of c y e] Cons.prems by simp
  then have "cl_run c e (map turn_news ((y # ys) @ [x])) =
      cl_run (c\<lparr>cc_rx := cc_rx c @ concat (snd y)\<rparr>) ((arrive (turn_news y) e)\<lparr>ce_reads := []\<rparr>) (map turn_news (ys @ [x]))"
    using recv_turn [of c y e] Cons.prems by simp
  moreover have "\<exists>c1 e'. cl_run (c\<lparr>cc_rx := cc_rx c @ concat (snd y)\<rparr>) ((arrive (turn_news y) e)\<lparr>ce_reads := []\<rparr>) (map turn_news (ys @ [x])) =
      (back_on_hold (poll_done c1 (fst x) d), e') \<and> units_of c1 = units_of (c\<lparr>cc_rx := cc_rx c @ concat (snd y)\<rparr>) \<and>
      cc_fd c1 = cc_fd (c\<lparr>cc_rx := cc_rx c @ concat (snd y)\<rparr>)"
    by (rule Cons.IH) (use Cons.prems full in \<open>simp_all add: rest_def\<close>)
  ultimately show ?case by (simp add: units_of_def)
qed

text \<open>
  A controller's reading reaches the driver: when the reply to the request under way arrives before its
  deadline, in any pieces over any number of turns, the driver ends up holding the connection with exactly
  that reading, field by field, with the unit it asked remembered and the next poll one interval after
  the last piece.
\<close>

theorem classic_reading_arrives:
  assumes "classic_wf d" and "cc_state c = ST_RECV" and "cc_rx c = []" and "ce_reads e = []"
    and "concat (concat (map snd (xs @ [x]))) = fc3_reply tid unit (classic_window d)"
    and "snd x \<noteq> []" and "\<forall>y \<in> set (xs @ [x]). \<forall>bs \<in> set (snd y). bs \<noteq> []"
    and "\<forall>y \<in> set (xs @ [x]). \<not> cc_io_deadline c < XFin (fst y)"
  shows "\<exists>c' e'. cl_run c e (map turn_news (xs @ [x])) = (c', e') \<and> cc_data c' = d \<and> cc_have_data c' \<and>
    cc_state c' = ST_HOLD \<and> cc_fd c' = cc_fd c \<and> cc_unit_ok c' = current_unit c \<and>
    cc_next_poll c' = XFin (fst x) + cc_poll_interval_s c \<and> cc_err c' = []"
proof -
  have all: "cc_rx c @ concat (concat (map snd (xs @ [x]))) = fc3_reply tid unit (classic_window d)"
    using assms(3,5) by simp
  obtain c1 e' where r: "cl_run c e (map turn_news (xs @ [x])) = (back_on_hold (poll_done c1 (fst x) d), e')"
    "units_of c1 = units_of c" "cc_fd c1 = cc_fd c"
    using turns_complete [OF assms(1,2,4) all assms(6-8)] by blast
  have u: "current_unit c1 = current_unit c" "cc_poll_interval_s c1 = cc_poll_interval_s c"
    using r(2) by (simp_all add: units_of_def current_unit_def)
  let ?c = "back_on_hold (poll_done c1 (fst x) d)"
  have "cc_data ?c = d \<and> cc_have_data ?c \<and> cc_state ?c = ST_HOLD \<and> cc_fd ?c = cc_fd c \<and> cc_unit_ok ?c = current_unit c \<and>
      cc_next_poll ?c = XFin (fst x) + cc_poll_interval_s c \<and> cc_err ?c = []"
    using r(3) u by (simp add: back_on_hold_def poll_done_def)
  then show ?thesis using r(1) by blast
qed

text \<open>
  A reply is not matched to its request: transaction id, protocol id and unit id of what is received
  make no difference, so whatever stands in the socket first is taken for the answer.
\<close>

theorem classic_reply_unmatched:
  assumes "6 < length (cc_rx c)"
  shows "fst (parse_fc3 (c\<lparr>cc_rx := (cc_rx c)[0 := a, 1 := b, 2 := p, 3 := q, 6 := u]\<rparr>) now) = fst (parse_fc3 c now) \<and>
    cc_data (snd (parse_fc3 (c\<lparr>cc_rx := (cc_rx c)[0 := a, 1 := b, 2 := p, 3 := q, 6 := u]\<rparr>) now)) =
    cc_data (snd (parse_fc3 c now))"
proof -
  let ?rx = "(cc_rx c)[0 := a, 1 := b, 2 := p, 3 := q, 6 := u]"
  have nth: "?rx ! k = cc_rx c ! k" if "k \<notin> {0, 1, 2, 3, 6}" for k using that by simp
  have len: "length ?rx = length (cc_rx c)" by simp
  have "cl_be16 ?rx (9 + 2 * i) = cl_be16 (cc_rx c) (9 + 2 * i)" for i unfolding cl_be16_def by (simp add: nth)
  then have img: "fc3_image ?rx = fc3_image (cc_rx c)" by (simp add: fc3_image_def)
  have b: "cl_be16 ?rx 4 = cl_be16 (cc_rx c) 4" "?rx ! 7 = cc_rx c ! 7" "?rx ! 8 = cc_rx c ! 8"
    unfolding cl_be16_def by (simp_all add: nth)
  obtain rc v where dec: "classic_decode (Some (fc3_image (cc_rx c))) (cc_data c) = (rc, v)" by fastforce
  have rx: "cc_rx (c\<lparr>cc_rx := ?rx\<rparr>) = ?rx" "cc_data (c\<lparr>cc_rx := ?rx\<rparr>) = cc_data c" by simp_all
  show ?thesis
    unfolding parse_fc3_def Let_def rx len b img dec prod.case
    by (simp add: cl_set_err_def)
qed

end
