(* ===== verification/SystemTotals.thy ===== *)
theory SystemTotals
  imports Prelude
begin

section \<open>System totals (src/system/system.c, system.h)\<close>

text \<open>
  The totals over the devices marked active: display state of charge, the accumulators that add one
  device each, and the closing computation. \<open>device\<close> is one call of an accumulator, \<open>add_device\<close>
  performs it.
\<close>

subsection \<open>Display state of charge\<close>

definition mf_soc_voltage_check :: "string option \<Rightarrow> bool" where
  "mf_soc_voltage_check driver \<longleftrightarrow> driver = Some ''jk''"

definition soc_points :: "(cdouble \<times> cdouble) list" where
  "soc_points = [(280/100, 0), (300/100, 5), (320/100, 10), (325/100, 20), (328/100, 30),
     (330/100, 40), (333/100, 50), (335/100, 60), (337/100, 70), (340/100, 85),
     (345/100, 95), (350/100, 99), (360/100, 100)]"

text \<open>The interpolation loop: from the point \<open>(v0, s0)\<close> on, the first segment that ends at or after \<open>v\<close>.\<close>

fun soc_segment :: "cdouble \<Rightarrow> cdouble \<Rightarrow> (cdouble \<times> cdouble) list \<Rightarrow> cdouble \<Rightarrow> cdouble" where
  "soc_segment v0 s0 [] v = 100"
| "soc_segment v0 s0 ((v1, s1) # ps) v =
     (if v \<le> v1
      then (let span = v1 - v0; t = (if 0 < span then (v - v0) / span else 0) in s0 + t * (s1 - s0))
      else soc_segment v1 s1 ps v)"

definition voltage_soc :: "cdouble \<Rightarrow> cdouble" where
  "voltage_soc v =
     (if v \<le> fst (hd soc_points) then snd (hd soc_points)
      else if fst (last soc_points) \<le> v then snd (last soc_points)
      else soc_segment (fst (hd soc_points)) (snd (hd soc_points)) (tl soc_points) v)"

definition clamp_soc :: "cdouble \<Rightarrow> cdouble" where
  "clamp_soc soc = (let soc = (if soc < 0 then 0 else soc) in if 100 < soc then 100 else soc)"

definition mf_display_soc ::
  "cdouble \<Rightarrow> cdouble \<Rightarrow> cdouble \<Rightarrow> cdouble \<Rightarrow> cdouble \<Rightarrow> bool \<Rightarrow> cdouble" where
  "mf_display_soc bms_soc rem_ah full_ah avg_cell_v current_a voltage_check =
     (let soc = (if 0 < full_ah \<and> 0 \<le> rem_ah then rem_ah / full_ah * 100 else bms_soc) in
      if \<not> voltage_check \<or> avg_cell_v \<le> 0 \<or> current_a \<le> - (1/2) \<or> 1/2 \<le> current_a then clamp_soc soc
      else let vsoc = voltage_soc avg_cell_v in
        clamp_soc (if 20 < soc - vsoc \<or> 20 < vsoc - soc then vsoc else soc))"

subsection \<open>Accumulators\<close>

record mf_totals =
  sy_chargers_total :: int
  sy_chargers_counted :: int
  sy_batteries_total :: int
  sy_batteries_counted :: int
  sy_input_w :: cdouble
  sy_input_max_w :: cdouble
  sy_capacity_wh :: cdouble
  sy_stored_wh :: cdouble
  sy_soc_pct :: cdouble
  sy_charge_w :: cdouble
  sy_discharge_w :: cdouble
  sy_discharge_max_w :: cdouble
  sy_battery_discharge_w :: cdouble
  sy_inverter_output_w :: cdouble
  sy_inverter_output_n :: int
  sy_inverter_ac_w :: cdouble
  sy_inverter_ac_n :: int
  sy_load_w :: cdouble
  sy_load_net_w :: cdouble
  sy_load_from_inverters :: bool
  sy_battery_limit_w :: cdouble
  sy_battery_limit_n :: int
  sy_inverters_total :: int
  sy_inverters_counted :: int
  sy_inverter_rated_w :: cdouble
  sy_inverter_rated_n :: int
  sy_soc_sum :: cdouble
  sy_soc_n :: int

definition mf_system_init :: "cdouble \<Rightarrow> cdouble \<Rightarrow> mf_totals" where
  "mf_system_init input_max_w discharge_max_w = \<lparr>sy_chargers_total = 0, sy_chargers_counted = 0,
     sy_batteries_total = 0, sy_batteries_counted = 0, sy_input_w = 0,
     sy_input_max_w = input_max_w, sy_capacity_wh = 0, sy_stored_wh = 0, sy_soc_pct = -1,
     sy_charge_w = 0, sy_discharge_w = 0, sy_discharge_max_w = discharge_max_w,
     sy_battery_discharge_w = 0, sy_inverter_output_w = 0, sy_inverter_output_n = 0,
     sy_inverter_ac_w = 0, sy_inverter_ac_n = 0, sy_load_w = 0, sy_load_net_w = 0,
     sy_load_from_inverters = False, sy_battery_limit_w = 0, sy_battery_limit_n = 0,
     sy_inverters_total = 0, sy_inverters_counted = 0, sy_inverter_rated_w = 0,
     sy_inverter_rated_n = 0, sy_soc_sum = 0, sy_soc_n = 0\<rparr>"

definition mf_system_add_charger :: "mf_totals \<Rightarrow> bool \<Rightarrow> bool \<Rightarrow> cdouble \<Rightarrow> mf_totals" where
  "mf_system_add_charger t active online charging_w =
     (let t = t\<lparr>sy_chargers_total := sy_chargers_total t + 1\<rparr> in
      if \<not> active \<or> \<not> online then t
      else let t = t\<lparr>sy_chargers_counted := sy_chargers_counted t + 1\<rparr> in
        if 0 < charging_w then t\<lparr>sy_input_w := sy_input_w t + charging_w\<rparr> else t)"

definition mf_system_add_battery ::
  "mf_totals \<Rightarrow> bool \<Rightarrow> bool \<Rightarrow> cdouble \<Rightarrow> cdouble \<Rightarrow> cdouble \<Rightarrow> cdouble \<Rightarrow> cdouble \<Rightarrow> int \<Rightarrow> bool \<Rightarrow> mf_totals"
where
  "mf_system_add_battery t active online pack_v current_a bms_soc rem_ah full_ah cell_count voltage_check =
     (let avg_cell_v = (if 0 < cell_count then pack_v / of_int cell_count else 0);
          t = t\<lparr>sy_batteries_total := sy_batteries_total t + 1\<rparr> in
      if \<not> active \<or> \<not> online then t
      else
        let t = t\<lparr>sy_batteries_counted := sy_batteries_counted t + 1\<rparr>;
            soc = mf_display_soc bms_soc rem_ah full_ah avg_cell_v current_a voltage_check;
            t = (if 0 < full_ah \<and> 0 < pack_v
                 then let full_wh = full_ah * pack_v in
                   t\<lparr>sy_capacity_wh := sy_capacity_wh t + full_wh,
                     sy_stored_wh := sy_stored_wh t + full_wh * soc / 100\<rparr>
                 else t\<lparr>sy_soc_sum := sy_soc_sum t + soc, sy_soc_n := sy_soc_n t + 1\<rparr>);
            power_w = pack_v * current_a
        in if 0 < power_w then t\<lparr>sy_charge_w := sy_charge_w t + power_w\<rparr>
           else t\<lparr>sy_battery_discharge_w := sy_battery_discharge_w t - power_w\<rparr>)"

definition mf_system_add_battery_limit :: "mf_totals \<Rightarrow> bool \<Rightarrow> bool \<Rightarrow> cdouble \<Rightarrow> mf_totals" where
  "mf_system_add_battery_limit t active online max_discharge_w =
     (if \<not> active \<or> \<not> online \<or> max_discharge_w \<le> 0 then t
      else t\<lparr>sy_battery_limit_w := sy_battery_limit_w t + max_discharge_w,
             sy_battery_limit_n := sy_battery_limit_n t + 1\<rparr>)"

definition mf_system_add_inverter ::
  "mf_totals \<Rightarrow> bool \<Rightarrow> bool \<Rightarrow> cdouble \<Rightarrow> cdouble \<Rightarrow> cdouble \<Rightarrow> mf_totals" where
  "mf_system_add_inverter t active online rated_w output_w ac_out_w =
     (let t = t\<lparr>sy_inverters_total := sy_inverters_total t + 1\<rparr> in
      if \<not> active \<or> \<not> online then t
      else
        let t = t\<lparr>sy_inverters_counted := sy_inverters_counted t + 1\<rparr>;
            t = (if 0 < rated_w
                 then t\<lparr>sy_inverter_rated_w := sy_inverter_rated_w t + rated_w,
                        sy_inverter_rated_n := sy_inverter_rated_n t + 1\<rparr> else t);
            t = (if 0 \<le> output_w
                 then t\<lparr>sy_inverter_output_w := sy_inverter_output_w t + output_w,
                        sy_inverter_output_n := sy_inverter_output_n t + 1\<rparr> else t)
        in if 0 \<le> ac_out_w
           then t\<lparr>sy_inverter_ac_w := sy_inverter_ac_w t + ac_out_w,
                  sy_inverter_ac_n := sy_inverter_ac_n t + 1\<rparr> else t)"

definition mf_system_battery_limit_known :: "mf_totals \<Rightarrow> bool" where
  "mf_system_battery_limit_known t \<longleftrightarrow>
     0 < sy_batteries_counted t \<and> sy_battery_limit_n t = sy_batteries_counted t"

definition mf_system_inverter_rated_known :: "mf_totals \<Rightarrow> bool" where
  "mf_system_inverter_rated_known t \<longleftrightarrow>
     0 < sy_inverters_counted t \<and> sy_inverter_rated_n t = sy_inverters_counted t"

definition mf_system_inverter_output_known :: "mf_totals \<Rightarrow> bool" where
  "mf_system_inverter_output_known t \<longleftrightarrow>
     0 < sy_inverters_counted t \<and> sy_inverter_output_n t = sy_inverters_counted t"

definition mf_system_inverter_ac_known :: "mf_totals \<Rightarrow> bool" where
  "mf_system_inverter_ac_known t \<longleftrightarrow>
     0 < sy_inverters_counted t \<and> sy_inverter_ac_n t = sy_inverters_counted t"

definition mf_system_finish :: "mf_totals \<Rightarrow> mf_totals" where
  "mf_system_finish t =
     (let t = t\<lparr>sy_discharge_w := sy_battery_discharge_w t\<rparr>;
          t = t\<lparr>sy_load_net_w := sy_input_w t + sy_battery_discharge_w t - sy_charge_w t\<rparr>;
          t = (if sy_load_net_w t < 0 then t\<lparr>sy_load_net_w := 0\<rparr> else t);
          t = t\<lparr>sy_load_from_inverters := mf_system_inverter_output_known t\<rparr>;
          t = t\<lparr>sy_load_w := if sy_load_from_inverters t then sy_inverter_output_w t else sy_load_net_w t\<rparr>
      in if 0 < sy_capacity_wh t then t\<lparr>sy_soc_pct := sy_stored_wh t / sy_capacity_wh t * 100\<rparr>
         else if 0 < sy_soc_n t then t\<lparr>sy_soc_pct := sy_soc_sum t / of_int (sy_soc_n t)\<rparr>
         else t\<lparr>sy_soc_pct := -1\<rparr>)"

datatype device =
    Charger bool bool cdouble
  | Battery bool bool cdouble cdouble cdouble cdouble cdouble int bool
  | Battery_limit bool bool cdouble
  | Inverter bool bool cdouble cdouble cdouble

fun add_device :: "mf_totals \<Rightarrow> device \<Rightarrow> mf_totals" where
  "add_device t (Charger a o' w) = mf_system_add_charger t a o' w"
| "add_device t (Battery a o' v i soc rem full n chk) = mf_system_add_battery t a o' v i soc rem full n chk"
| "add_device t (Battery_limit a o' w) = mf_system_add_battery_limit t a o' w"
| "add_device t (Inverter a o' r out ac) = mf_system_add_inverter t a o' r out ac"

definition system_totals :: "cdouble \<Rightarrow> cdouble \<Rightarrow> device list \<Rightarrow> mf_totals" where
  "system_totals input_max discharge_max ds =
     mf_system_finish (foldl add_device (mf_system_init input_max discharge_max) ds)"

subsection \<open>State of charge is a percentage\<close>

lemma clamp_soc_range: "0 \<le> clamp_soc s \<and> clamp_soc s \<le> 100"
  by (simp add: clamp_soc_def Let_def)

lemma clamp_soc_id: "0 \<le> s \<Longrightarrow> s \<le> 100 \<Longrightarrow> clamp_soc s = s"
  by (simp add: clamp_soc_def)

lemma display_soc_range: "0 \<le> mf_display_soc b r f v i c \<and> mf_display_soc b r f v i c \<le> 100"
  by (simp add: mf_display_soc_def Let_def clamp_soc_range)

text \<open>A curve: points with increasing voltage and non-decreasing charge up to 100.\<close>

fun curve :: "cdouble \<Rightarrow> cdouble \<Rightarrow> (cdouble \<times> cdouble) list \<Rightarrow> bool" where
  "curve v0 s0 [] \<longleftrightarrow> s0 \<le> 100"
| "curve v0 s0 ((v1, s1) # ps) \<longleftrightarrow> v0 < v1 \<and> s0 \<le> s1 \<and> curve v1 s1 ps"

lemma curve_le: "curve v0 s0 ps \<Longrightarrow> s0 \<le> 100"
  by (induction v0 s0 ps rule: curve.induct) auto

lemma segment_bounds:
  fixes v0 v1 s0 s1 :: rat
  assumes "v0 < v1" "s0 \<le> s1" "v0 \<le> v" "v \<le> v1"
  shows "s0 \<le> s0 + (v - v0) / (v1 - v0) * (s1 - s0) \<and> s0 + (v - v0) / (v1 - v0) * (s1 - s0) \<le> s1"
proof -
  have t: "0 \<le> (v - v0) / (v1 - v0)" "(v - v0) / (v1 - v0) \<le> 1"
    using assms by (simp_all add: field_simps)
  define p where "p = (v - v0) / (v1 - v0) * (s1 - s0)"
  have "p \<le> 1 * (s1 - s0)" "0 \<le> p"
    unfolding p_def using t assms(2) by (intro mult_right_mono mult_nonneg_nonneg; simp)+
  then show ?thesis unfolding p_def [symmetric] by simp
qed

lemma soc_segment_bounds:
  "curve v0 s0 ps \<Longrightarrow> v0 \<le> v \<Longrightarrow> s0 \<le> soc_segment v0 s0 ps v \<and> soc_segment v0 s0 ps v \<le> 100"
proof (induction v0 s0 ps v rule: soc_segment.induct)
  case (1 v0 s0 v)
  then show ?case by simp
next
  case (2 v0 s0 v1 s1 ps v)
  then have c: "v0 < v1" "s0 \<le> s1" "curve v1 s1 ps" "s1 \<le> 100"
    using curve_le [of v1 s1 ps] by simp_all
  show ?case
  proof (cases "v \<le> v1")
    case True
    then have "soc_segment v0 s0 ((v1, s1) # ps) v = s0 + (v - v0) / (v1 - v0) * (s1 - s0)"
      using c(1) by (simp only: soc_segment.simps Let_def if_True diff_gt_0_iff_gt)
    then show ?thesis using segment_bounds [OF c(1,2) "2.prems"(2) True] c(4) by simp
  next
    case False
    then show ?thesis using "2.IH" c by simp
  qed
qed

lemma soc_segment_mono:
  "curve v0 s0 ps \<Longrightarrow> v0 \<le> v \<Longrightarrow> v \<le> w \<Longrightarrow> soc_segment v0 s0 ps v \<le> soc_segment v0 s0 ps w"
proof (induction v0 s0 ps v rule: soc_segment.induct)
  case (1 v0 s0 v)
  then show ?case by simp
next
  case (2 v0 s0 v1 s1 ps v)
  consider (low) "w \<le> v1" | (across) "v \<le> v1" "v1 < w" | (high) "v1 < v" using "2.prems" by linarith
  then show ?case
  proof cases
    case low
    have "(v - v0) / (v1 - v0) * (s1 - s0) \<le> (w - v0) / (v1 - v0) * (s1 - s0)"
      using low "2.prems" by (intro mult_right_mono divide_right_mono) auto
    then show ?thesis using low "2.prems" by (simp add: Let_def)
  next
    case across
    have "soc_segment v0 s0 ((v1, s1) # ps) v \<le> s1"
      using across(1) "2.prems" segment_bounds [of v0 v1 s0 s1 v] by (simp add: Let_def)
    moreover have "s1 \<le> soc_segment v1 s1 ps w"
      using across "2.prems" soc_segment_bounds [of v1 s1 ps w] by simp
    ultimately show ?thesis using across by simp
  next
    case high
    then show ?thesis using 2 by simp
  qed
qed

lemma soc_points_curve: "curve (fst (hd soc_points)) (snd (hd soc_points)) (tl soc_points)"
  by (simp add: soc_points_def)

text \<open>
  The voltage curve is a percentage and never falls as the cell voltage rises, across the
  interpolated segments and both flat ends.
\<close>

theorem voltage_soc_monotone:
  assumes "v \<le> w"
  shows "voltage_soc v \<le> voltage_soc w \<and> 0 \<le> voltage_soc v \<and> voltage_soc w \<le> 100"
proof -
  have b: "0 \<le> voltage_soc x \<and> voltage_soc x \<le> 100" for x
    using soc_segment_bounds [OF soc_points_curve, of x]
    by (simp add: voltage_soc_def soc_points_def)
  have "voltage_soc v \<le> voltage_soc w"
    using assms soc_segment_mono [OF soc_points_curve, of v w] b [of v] b [of w]
      soc_segment_bounds [OF soc_points_curve, of v] soc_segment_bounds [OF soc_points_curve, of w]
    by (auto simp: voltage_soc_def soc_points_def)
  then show ?thesis using b by blast
qed

subsection \<open>What is added\<close>

text \<open>Adding is componentwise: each device adds a fixed vector, whatever the totals are.\<close>

definition tot_plus :: "mf_totals \<Rightarrow> mf_totals \<Rightarrow> mf_totals" where
  "tot_plus t d = t\<lparr>
     sy_chargers_total := sy_chargers_total t + sy_chargers_total d,
     sy_chargers_counted := sy_chargers_counted t + sy_chargers_counted d,
     sy_batteries_total := sy_batteries_total t + sy_batteries_total d,
     sy_batteries_counted := sy_batteries_counted t + sy_batteries_counted d,
     sy_input_w := sy_input_w t + sy_input_w d,
     sy_capacity_wh := sy_capacity_wh t + sy_capacity_wh d,
     sy_stored_wh := sy_stored_wh t + sy_stored_wh d,
     sy_charge_w := sy_charge_w t + sy_charge_w d,
     sy_battery_discharge_w := sy_battery_discharge_w t + sy_battery_discharge_w d,
     sy_inverter_output_w := sy_inverter_output_w t + sy_inverter_output_w d,
     sy_inverter_output_n := sy_inverter_output_n t + sy_inverter_output_n d,
     sy_inverter_ac_w := sy_inverter_ac_w t + sy_inverter_ac_w d,
     sy_inverter_ac_n := sy_inverter_ac_n t + sy_inverter_ac_n d,
     sy_battery_limit_w := sy_battery_limit_w t + sy_battery_limit_w d,
     sy_battery_limit_n := sy_battery_limit_n t + sy_battery_limit_n d,
     sy_inverters_total := sy_inverters_total t + sy_inverters_total d,
     sy_inverters_counted := sy_inverters_counted t + sy_inverters_counted d,
     sy_inverter_rated_w := sy_inverter_rated_w t + sy_inverter_rated_w d,
     sy_inverter_rated_n := sy_inverter_rated_n t + sy_inverter_rated_n d,
     sy_soc_sum := sy_soc_sum t + sy_soc_sum d,
     sy_soc_n := sy_soc_n t + sy_soc_n d\<rparr>"

definition contribution :: "device \<Rightarrow> mf_totals" where
  "contribution d = add_device (mf_system_init 0 0) d"

lemma add_device_plus: "add_device t d = tot_plus t (contribution d)"
  by (cases d; rule mf_totals.equality)
    (simp_all add: contribution_def tot_plus_def mf_system_init_def mf_system_add_charger_def
      mf_system_add_battery_def mf_system_add_battery_limit_def mf_system_add_inverter_def Let_def)

text \<open>A device that is not active or not online is only counted as being there.\<close>

fun counted :: "device \<Rightarrow> bool" where
  "counted (Charger a o' w) \<longleftrightarrow> a \<and> o'"
| "counted (Battery a o' v i soc rem full n chk) \<longleftrightarrow> a \<and> o'"
| "counted (Battery_limit a o' w) \<longleftrightarrow> a \<and> o'"
| "counted (Inverter a o' r out ac) \<longleftrightarrow> a \<and> o'"

definition strip :: "mf_totals \<Rightarrow> mf_totals" where
  "strip t = t\<lparr>sy_chargers_total := 0, sy_batteries_total := 0, sy_inverters_total := 0\<rparr>"

lemma strip_plus: "strip (tot_plus t d) = tot_plus (strip t) (strip d)"
  by (rule mf_totals.equality) (simp_all add: strip_def tot_plus_def)

lemma strip_excluded: "\<not> counted d \<Longrightarrow> strip (contribution d) = mf_system_init 0 0"
  by (cases d) (auto simp: contribution_def strip_def mf_system_init_def mf_system_add_charger_def
      mf_system_add_battery_def mf_system_add_battery_limit_def mf_system_add_inverter_def)

lemma plus_nothing: "tot_plus t (mf_system_init 0 0) = t"
  by (rule mf_totals.equality) (simp_all add: tot_plus_def mf_system_init_def)

lemma strip_foldl:
  "strip s = strip t \<Longrightarrow> strip (foldl add_device s ds) = strip (foldl add_device t (filter counted ds))"
proof (induction ds arbitrary: s t)
  case (Cons d ds)
  show ?case
  proof (cases "counted d")
    case True
    have "strip (add_device s d) = strip (add_device t d)" by (simp only: add_device_plus strip_plus Cons.prems)
    from Cons.IH [OF this] show ?thesis using True by simp
  next
    case False
    have "strip (add_device s d) = strip t"
      by (simp only: add_device_plus strip_plus strip_excluded [OF False] plus_nothing Cons.prems)
    from Cons.IH [OF this] show ?thesis using False by simp
  qed
qed simp

subsection \<open>Totals are sane\<close>

definition tot_ok :: "mf_totals \<Rightarrow> bool" where
  "tot_ok t \<longleftrightarrow> 0 \<le> sy_stored_wh t \<and> sy_stored_wh t \<le> sy_capacity_wh t \<and>
     0 \<le> sy_soc_sum t \<and> sy_soc_sum t \<le> 100 * of_int (sy_soc_n t) \<and> 0 \<le> sy_soc_n t \<and>
     0 \<le> sy_input_w t \<and> 0 \<le> sy_charge_w t \<and> 0 \<le> sy_battery_discharge_w t \<and>
     0 \<le> sy_inverter_output_w t \<and> 0 \<le> sy_batteries_counted t \<and>
     (sy_batteries_counted t = 0 \<longleftrightarrow> sy_capacity_wh t = 0 \<and> sy_soc_n t = 0) \<and>
     sy_inverter_output_n t \<le> sy_inverters_counted t"

lemma tot_ok_init: "tot_ok (mf_system_init a b)"
  by (simp add: tot_ok_def mf_system_init_def)

lemma tot_ok_plus: "tot_ok t \<Longrightarrow> tot_ok d \<Longrightarrow> tot_ok (tot_plus t d)"
  by (auto simp: tot_ok_def tot_plus_def)

lemma stored_le:
  fixes w s :: rat
  assumes "0 \<le> w" "0 \<le> s" "s \<le> 100"
  shows "0 \<le> w * s / 100 \<and> w * s / 100 \<le> w"
  using assms mult_left_mono [of s 100 w] by simp

lemma tot_ok_contribution: "tot_ok (contribution d)"
proof (cases d)
  case (Battery a o' v i soc rem full n chk)
  have w: "0 < full \<Longrightarrow> 0 < v \<Longrightarrow> 0 < full * v" by simp
  show ?thesis
    using w stored_le [of "full * v" "mf_display_soc soc rem full (if 0 < n then v / of_int n else 0) i chk"]
      display_soc_range [of soc rem full "if 0 < n then v / of_int n else 0" i chk]
    by (auto simp: Battery contribution_def mf_system_add_battery_def Let_def tot_ok_def mf_system_init_def)
qed (auto simp: contribution_def mf_system_add_charger_def mf_system_add_battery_limit_def
    mf_system_add_inverter_def Let_def tot_ok_def mf_system_init_def)

lemma tot_ok_foldl: "tot_ok t \<Longrightarrow> tot_ok (foldl add_device t ds)"
  by (induction ds arbitrary: t) (simp_all add: add_device_plus tot_ok_plus tot_ok_contribution)

lemma known_upd [simp]:
  "mf_system_inverter_output_known (t\<lparr>sy_discharge_w := a\<rparr>) = mf_system_inverter_output_known t"
  "mf_system_inverter_output_known (t\<lparr>sy_load_net_w := a\<rparr>) = mf_system_inverter_output_known t"
  "mf_system_inverter_output_known (t\<lparr>sy_load_from_inverters := b\<rparr>) = mf_system_inverter_output_known t"
  "mf_system_inverter_output_known (t\<lparr>sy_load_w := a\<rparr>) = mf_system_inverter_output_known t"
  "mf_system_inverter_output_known (t\<lparr>sy_soc_pct := a\<rparr>) = mf_system_inverter_output_known t"
  by (simp_all add: mf_system_inverter_output_known_def)

lemma finish_alt:
  "mf_system_finish t =
     (let net = max 0 (sy_input_w t + sy_battery_discharge_w t - sy_charge_w t);
          known = mf_system_inverter_output_known t
      in t\<lparr>sy_discharge_w := sy_battery_discharge_w t, sy_load_net_w := net,
           sy_load_from_inverters := known,
           sy_load_w := (if known then sy_inverter_output_w t else net),
           sy_soc_pct := (if 0 < sy_capacity_wh t then sy_stored_wh t / sy_capacity_wh t * 100
             else if 0 < sy_soc_n t then sy_soc_sum t / of_int (sy_soc_n t) else -1)\<rparr>)"
  by (simp add: mf_system_finish_def Let_def max_def)

lemma strip_reads:
  "sy_input_w (strip t) = sy_input_w t" "sy_battery_discharge_w (strip t) = sy_battery_discharge_w t"
  "sy_charge_w (strip t) = sy_charge_w t" "sy_inverter_output_w (strip t) = sy_inverter_output_w t"
  "sy_capacity_wh (strip t) = sy_capacity_wh t" "sy_stored_wh (strip t) = sy_stored_wh t"
  "sy_soc_sum (strip t) = sy_soc_sum t" "sy_soc_n (strip t) = sy_soc_n t"
  "mf_system_inverter_output_known (strip t) = mf_system_inverter_output_known t"
  by (simp_all add: strip_def mf_system_inverter_output_known_def)

lemma strip_results:
  "strip (t\<lparr>sy_discharge_w := a, sy_load_net_w := b, sy_load_from_inverters := k, sy_load_w := l, sy_soc_pct := p\<rparr>) =
   (strip t)\<lparr>sy_discharge_w := a, sy_load_net_w := b, sy_load_from_inverters := k, sy_load_w := l, sy_soc_pct := p\<rparr>"
  by (simp add: strip_def)

lemma strip_finish: "strip (mf_system_finish t) = mf_system_finish (strip t)"
  by (simp only: finish_alt Let_def strip_results strip_reads)

text \<open>
  Only the devices that are active and online make the totals: leaving out the others changes nothing
  but how many chargers, batteries and inverters there are in all.
\<close>

theorem system_totals_excluded:
  "strip (system_totals input_max discharge_max ds) = strip (system_totals input_max discharge_max (filter counted ds))"
  unfolding system_totals_def strip_finish by (rule arg_cong [OF strip_foldl [OF refl]])

text \<open>
  Whatever the devices report, the finished totals are sane: the state of charge is a percentage, or
  -1 exactly when no battery is counted; the load is never negative, and is the inverters' own
  figure exactly when every counted inverter reported one, else input plus discharge less charge
  (floored at 0).
\<close>

theorem system_totals_sane:
  fixes ds :: "device list" and input_max discharge_max :: cdouble
  defines "t \<equiv> system_totals input_max discharge_max ds"
  shows "(if sy_batteries_counted t = 0 then sy_soc_pct t = -1 else 0 \<le> sy_soc_pct t \<and> sy_soc_pct t \<le> 100) \<and>
    0 \<le> sy_load_w t \<and> sy_load_net_w t = max 0 (sy_input_w t + sy_discharge_w t - sy_charge_w t) \<and>
    sy_load_w t = (if mf_system_inverter_output_known t then sy_inverter_output_w t else sy_load_net_w t)"
proof -
  define u where "u = foldl add_device (mf_system_init input_max discharge_max) ds"
  have ok: "tot_ok u" unfolding u_def by (rule tot_ok_foldl [OF tot_ok_init])
  have t: "t = mf_system_finish u" by (simp add: t_def system_totals_def u_def)
  have fields: "sy_batteries_counted t = sy_batteries_counted u" "sy_inverter_output_w t = sy_inverter_output_w u"
    "mf_system_inverter_output_known t = mf_system_inverter_output_known u"
    "sy_input_w t = sy_input_w u" "sy_charge_w t = sy_charge_w u" "sy_discharge_w t = sy_battery_discharge_w u"
    "sy_load_net_w t = max 0 (sy_input_w u + sy_battery_discharge_w u - sy_charge_w u)"
    "sy_load_w t = (if mf_system_inverter_output_known u then sy_inverter_output_w u else sy_load_net_w t)"
    "sy_soc_pct t = (if 0 < sy_capacity_wh u then sy_stored_wh u / sy_capacity_wh u * 100
        else if 0 < sy_soc_n u then sy_soc_sum u / of_int (sy_soc_n u) else -1)"
    by (simp_all add: t finish_alt Let_def)
  have "0 \<le> sy_stored_wh u / sy_capacity_wh u * 100 \<and> sy_stored_wh u / sy_capacity_wh u * 100 \<le> 100"
    if "0 < sy_capacity_wh u"
    using that ok by (simp add: tot_ok_def field_simps)
  moreover have "0 \<le> sy_soc_sum u / of_int (sy_soc_n u) \<and> sy_soc_sum u / of_int (sy_soc_n u) \<le> 100"
    if "0 < sy_soc_n u"
    using that ok by (simp add: tot_ok_def field_simps)
  ultimately have "if sy_batteries_counted u = 0 then sy_soc_pct t = -1 else 0 \<le> sy_soc_pct t \<and> sy_soc_pct t \<le> 100"
    using ok unfolding tot_ok_def fields(9) by auto
  then show ?thesis using ok by (simp add: fields(1-8) tot_ok_def)
qed

subsection \<open>Instances\<close>

theorem voltage_soc_monotone_witness:
  "voltage_soc (331/100) \<le> voltage_soc (334/100) \<and> 0 \<le> voltage_soc (331/100) \<and> voltage_soc (334/100) \<le> 100"
  by (rule voltage_soc_monotone) simp

end
