(* ===== verification/Average.thy ===== *)
theory Average
  imports Json
begin

section \<open>Averaging readings (src/phantom/average.c)\<close>

text \<open>
  The recursive average of the readings a phantom module shadows. \<open>nodes\<close> are the values that the
  readings have at one place; \<open>pick\<close> is the inner loop that collects the values one level down.
\<close>

definition MAX_READINGS :: nat where "MAX_READINGS = 32"

fun first_of :: "json \<Rightarrow> json list \<Rightarrow> json" where
  "first_of JNull (x # xs) = first_of x xs"
| "first_of f _ = f"

definition pick :: "json \<Rightarrow> json option list \<Rightarrow> json list" where
  "pick it cs = foldl (\<lambda>sub c. case c of None \<Rightarrow> sub
     | Some c \<Rightarrow> if sub = [] \<or> jtype c = jtype it \<or> hd sub = JNull then sub @ [c] else sub) [] cs"

definition is_num :: "json \<Rightarrow> bool" where
  "is_num j \<longleftrightarrow> (case j of JNumber x \<Rightarrow> True | _ \<Rightarrow> False)"

definition num_of :: "json \<Rightarrow> cdouble" where
  "num_of j = (case j of JNumber x \<Rightarrow> x | _ \<Rightarrow> 0)"

definition round4 :: "cdouble \<Rightarrow> cdouble" where
  "round4 v = of_int (c_round (v * 10000)) / 10000"

definition avg_number :: "json list \<Rightarrow> json" where
  "avg_number nodes =
     (let nums = map num_of (filter is_num nodes);
          sum = foldl (+) 0 nums
      in JNumber (round4 (sum / of_nat (length nums))))"

lemma first_of_mem: "first_of (hd nodes) nodes \<in> set nodes" if "nodes \<noteq> []"
proof -
  have "first_of f xs \<in> insert f (set xs)" for f xs
    by (induction f xs rule: first_of.induct) auto
  from this [of "hd nodes" nodes] that show ?thesis by (cases nodes) auto
qed

lemma pick_aux:
  assumes "foldl (\<lambda>sub c. case c of None \<Rightarrow> sub
     | Some c \<Rightarrow> if sub = [] \<or> jtype c = jtype it \<or> hd sub = JNull then sub @ [c] else sub) sub0 cs = sub"
  shows "\<exists>ds. sub = sub0 @ ds \<and> subseq (map Some ds) cs"
  using assms
proof (induction cs arbitrary: sub0)
  case (Cons c cs)
  show ?case
  proof (cases "\<exists>d. c = Some d \<and> (sub0 = [] \<or> jtype d = jtype it \<or> hd sub0 = JNull)")
    case True
    then obtain d where "c = Some d" "sub0 = [] \<or> jtype d = jtype it \<or> hd sub0 = JNull" by blast
    then show ?thesis using Cons.IH [of "sub0 @ [d]"] Cons.prems by auto
  next
    case False
    then show ?thesis using Cons.IH [of sub0] Cons.prems by (cases c) auto
  qed
qed simp

lemma pick_subseq: "subseq (map Some (pick it cs)) cs"
  using pick_aux [of it "[]" cs "pick it cs"] by (auto simp: pick_def)

lemma pick_mem: "d \<in> set (pick it cs) \<Longrightarrow> Some d \<in> set cs"
  using list_emb_set [OF pick_subseq [of it cs], of "Some d"] by force

text \<open>The values one level down are smaller in total than the nodes they come from.\<close>

lemma children_size:
  fixes g :: "json \<Rightarrow> json option"
  assumes child: "\<And>j c. g j = Some c \<Longrightarrow> size c < size j"
    and "subseq (map Some ds) (map g nodes)" and "f \<in> set nodes" and "0 < size f"
  shows "sum_list (map size ds) < sum_list (map size nodes)"
proof -
  have le: "sum_list (map size ds) + length ds \<le> sum_list (map size nodes)"
    using assms(2)
  proof (induction nodes arbitrary: ds)
    case Nil
    then show ?case by (cases ds) auto
  next
    case (Cons j js)
    show ?case
    proof (cases ds)
      case (Cons d ds')
      consider (take) "g j = Some d" "subseq (map Some ds') (map g js)"
        | (leave) "subseq (map Some ds) (map g js)"
        using Cons.prems \<open>ds = d # ds'\<close> by (auto split: if_splits elim: subseq_Cons')
      then show ?thesis
      proof cases
        case take
        then show ?thesis using Cons.IH [of ds'] child [of j d] \<open>ds = d # ds'\<close> by simp
      next
        case leave
        then show ?thesis using Cons.IH [of ds] by simp
      qed
    qed simp
  qed
  have "0 < sum_list (map size nodes)"
    using assms(3,4) by (induction nodes) auto
  then show ?thesis using le by (cases ds) auto
qed

function avg_node :: "json list \<Rightarrow> json" where
  "avg_node nodes =
     (if nodes = [] then JNull
      else case first_of (hd nodes) nodes of
        JNumber x \<Rightarrow> avg_number nodes
      | JObject kvs \<Rightarrow>
          JObject (map (\<lambda>(k, it). (k, avg_node (pick it (map (\<lambda>j. get_item j k) nodes)))) kvs)
      | JArray xs \<Rightarrow>
          JArray (map (\<lambda>i. avg_node (pick (xs ! i) (map (\<lambda>j. get_index j i) nodes))) [0..<length xs])
      | first \<Rightarrow> first)"
  by pat_completeness auto
termination
  by (relation "measure (\<lambda>nodes. sum_list (map size nodes))")
    (auto intro!: children_size [where g = "\<lambda>j. get_item j _", OF size_get_item pick_subseq first_of_mem]
      children_size [where g = "\<lambda>j. get_index j _", OF size_get_index pick_subseq first_of_mem])

declare avg_node.simps [simp del]

definition mf_phantom_average :: "json list \<Rightarrow> json option" where
  "mf_phantom_average readings =
     (if readings = [] then None else Some (avg_node (take MAX_READINGS readings)))"

subsection \<open>An average lies between the readings\<close>

lemma round4_error: "\<bar>round4 x - x\<bar> \<le> 1/20000"
  using c_round_error [of "x * 10000"] unfolding round4_def abs_le_iff by (simp add: field_simps)

lemma mean_bounds:
  fixes xs :: "rat list"
  assumes "xs \<noteq> []"
  shows "\<exists>a \<in> set xs. \<exists>b \<in> set xs. a \<le> foldl (+) 0 xs / of_nat (length xs) \<and>
    foldl (+) 0 xs / of_nat (length xs) \<le> b"
proof -
  have fold: "foldl (+) a xs = a + sum_list xs" for a :: rat and xs
    by (induction xs arbitrary: a) (auto simp: add.assoc)
  have lo: "of_nat (length xs) * Min (set xs) \<le> sum_list xs"
    and hi: "sum_list xs \<le> of_nat (length xs) * Max (set xs)"
  proof -
    have "of_nat (length ys) * m \<le> sum_list ys" if "\<forall>y \<in> set ys. m \<le> y" for ys :: "rat list" and m
      using that by (induction ys) (auto simp: algebra_simps)
    then show "of_nat (length xs) * Min (set xs) \<le> sum_list xs" by simp
    have "sum_list ys \<le> of_nat (length ys) * m" if "\<forall>y \<in> set ys. y \<le> m" for ys :: "rat list" and m
      using that by (induction ys) (auto simp: algebra_simps)
    then show "sum_list xs \<le> of_nat (length xs) * Max (set xs)" by simp
  qed
  have pos: "0 < (of_nat (length xs) :: rat)" using assms by simp
  have "Min (set xs) \<in> set xs" "Max (set xs) \<in> set xs" using assms by simp_all
  moreover have "Min (set xs) \<le> sum_list xs / of_nat (length xs)"
    using lo pos by (simp add: pos_le_divide_eq mult.commute)
  moreover have "sum_list xs / of_nat (length xs) \<le> Max (set xs)"
    using hi pos by (simp add: pos_divide_le_eq mult.commute)
  ultimately show ?thesis unfolding fold by auto
qed

lemma avg_number_between:
  assumes "JNumber x \<in> set nodes" and "avg_number nodes = JNumber v"
  shows "\<exists>a b. JNumber a \<in> set nodes \<and> JNumber b \<in> set nodes \<and> a - 1/20000 \<le> v \<and> v \<le> b + 1/20000"
proof -
  let ?xs = "map num_of (filter is_num nodes)"
  have "JNumber x \<in> set (filter is_num nodes)" using assms(1) by (simp add: is_num_def)
  then have ne: "?xs \<noteq> []" by (metis empty_iff list.map_disc_iff list.set(1))
  have mem: "a \<in> set ?xs \<Longrightarrow> JNumber a \<in> set nodes" for a
    by (auto simp: is_num_def num_of_def split: json.splits)
  have v: "v = round4 (foldl (+) 0 ?xs / of_nat (length ?xs))"
    using assms(2) by (simp add: avg_number_def Let_def)
  define m where "m = foldl (+) 0 ?xs / of_nat (length ?xs)"
  obtain a b where ab: "a \<in> set ?xs" "b \<in> set ?xs" "a \<le> m" "m \<le> b"
    using mean_bounds [OF ne] unfolding m_def by blast
  have "a - 1/20000 \<le> v" "v \<le> b + 1/20000"
    using ab(3,4) round4_error [of m] unfolding v m_def [symmetric] abs_le_iff by linarith+
  then show ?thesis using mem [OF ab(1)] mem [OF ab(2)] by blast
qed

lemma avg_node_descend:
  assumes "descend s (avg_node nodes) = Some c"
  shows "\<exists>ds. c = avg_node ds \<and> (\<forall>d \<in> set ds. \<exists>j \<in> set nodes. descend s j = Some d)"
proof (cases s)
  case (Key k)
  then obtain kvs where kvs: "nodes \<noteq> []" "first_of (hd nodes) nodes = JObject kvs"
    using assms by (auto simp: avg_node.simps [of nodes] avg_number_def Let_def split: json.splits if_splits)
  then have "map_of (map (\<lambda>(k, it). (k, avg_node (pick it (map (\<lambda>j. get_item j k) nodes)))) kvs) k = Some c"
    using assms Key by (simp add: avg_node.simps [of nodes])
  then obtain it where "c = avg_node (pick it (map (\<lambda>j. get_item j k) nodes))"
    by (auto dest!: map_of_SomeD)
  then show ?thesis using Key pick_mem by fastforce
next
  case (Idx i)
  then obtain xs where xs: "nodes \<noteq> []" "first_of (hd nodes) nodes = JArray xs" "i < length xs"
    using assms by (auto simp: avg_node.simps [of nodes] avg_number_def Let_def split: json.splits if_splits)
  then have "c = avg_node (pick (xs ! i) (map (\<lambda>j. get_index j i) nodes))"
    using assms Idx by (simp add: avg_node.simps [of nodes])
  then show ?thesis using Idx pick_mem by fastforce
qed

lemma avg_node_between:
  "num_at p (avg_node nodes) = Some v \<Longrightarrow>
     \<exists>j \<in> set nodes. \<exists>l \<in> set nodes. \<exists>a b. num_at p j = Some a \<and> num_at p l = Some b \<and>
       a - 1/20000 \<le> v \<and> v \<le> b + 1/20000"
proof (induction p arbitrary: nodes)
  case Nil
  then have ne: "nodes \<noteq> []" by (auto simp: avg_node.simps)
  have "avg_node nodes = JNumber v" using Nil by (cases "avg_node nodes") auto
  then obtain x where "first_of (hd nodes) nodes = JNumber x" "avg_number nodes = JNumber v"
    using ne by (auto simp: avg_node.simps [of nodes] split: json.splits)
  then show ?case using avg_number_between [of x nodes v] first_of_mem [OF ne] by force
next
  case (Cons s p)
  then obtain c where c: "descend s (avg_node nodes) = Some c" "num_at p c = Some v"
    by (auto simp: bind_eq_Some_conv)
  then obtain ds where ds: "c = avg_node ds" "\<forall>d \<in> set ds. \<exists>j \<in> set nodes. descend s j = Some d"
    using avg_node_descend by blast
  obtain j l a b where jl: "j \<in> set ds" "l \<in> set ds" "num_at p j = Some a" "num_at p l = Some b"
    "a - 1/20000 \<le> v" "v \<le> b + 1/20000"
    using Cons.IH [of ds] c(2) ds(1) by blast
  obtain j' l' where "j' \<in> set nodes" "descend s j' = Some j" "l' \<in> set nodes" "descend s l' = Some l"
    using ds(2) jl(1,2) by blast
  then show ?case using jl by (intro bexI [of _ j'] bexI [of _ l'] exI [of _ a] exI [of _ b]) auto
qed

lemma phantom_average_between_aux:
  assumes "mf_phantom_average readings = Some avg" and "num_at p avg = Some v"
  shows "\<exists>j \<in> set readings. \<exists>l \<in> set readings. \<exists>a b. num_at p j = Some a \<and> num_at p l = Some b \<and>
    a - 1/20000 \<le> v \<and> v \<le> b + 1/20000"
proof -
  have "avg = avg_node (take MAX_READINGS readings)"
    using assms(1) by (simp add: mf_phantom_average_def split: if_splits)
  then show ?thesis
    using avg_node_between [of p "take MAX_READINGS readings" v] assms(2) by (meson in_set_takeD)
qed

text \<open>
  Every number in a phantom's reading, however deep, lies between numbers that two of the shadowed
  readings have at the same place, up to the rounding to four decimals: the average invents no
  value and no place.
\<close>

theorem phantom_average_between:
  assumes "mf_phantom_average readings = Some avg" and "num_at p avg = Some v"
  shows "\<exists>j \<in> set readings. \<exists>l \<in> set readings. \<exists>a b. num_at p j = Some a \<and> num_at p l = Some b \<and>
    a - 1/20000 \<le> v \<and> v \<le> b + 1/20000"
  using phantom_average_between_aux [OF assms] .

end
