(* ===== verification/Phantom.thy ===== *)
theory Phantom
  imports Average PluginApi
begin

section \<open>The phantom driver (src/phantom/phantom.c)\<close>

text \<open>
  A phantom module reports the average of the real modules it shadows. The registry of live modules
  (\<open>mf_devices_find_live\<close>) and the clock are arguments; a module's reading is the parsed JSON it
  published. The phantom's own reading is kept parsed instead of printed. Allocation failures are
  not modelled.
\<close>

definition MF_UUID_LEN :: nat where "MF_UUID_LEN = 37"
definition MAX_SHADOWS :: nat where "MAX_SHADOWS = 8"
definition POLL_DEFAULT_S :: cdouble where "POLL_DEFAULT_S = 2"
definition POLL_MIN_S :: cdouble where "POLL_MIN_S = 1/2"
definition MF_PHANTOM_DRIVER :: string where "MF_PHANTOM_DRIVER = ''phantom''"

record mf_devinfo =
  di_name :: string
  di_kind :: string
  di_driver :: string
  di_online :: bool
  di_active :: bool
  di_reading :: "json option"

datatype ph_error = Not_a_list | Not_a_module_id string | Too_many_shadows | Not_an_object
  | Shadows_itself | No_module string | Is_a_phantom string | Wrong_kind string string

record ph_ctx =
  ph_uuid :: string
  ph_kind :: string
  ph_shadows :: "string list"
  ph_poll_s :: cdouble
  ph_next :: cdouble
  ph_reading :: "json option"
  ph_err :: string

subsection \<open>The list of shadows\<close>

definition is_xdigit :: "char \<Rightarrow> bool" where
  "is_xdigit c \<longleftrightarrow> (let n = (of_char c :: nat) in
     48 \<le> n \<and> n \<le> 57 \<or> 65 \<le> n \<and> n \<le> 70 \<or> 97 \<le> n \<and> n \<le> 102)"

definition is_uuid :: "string \<Rightarrow> bool" where
  "is_uuid s \<longleftrightarrow> 8 \<le> length s \<and> length s < MF_UUID_LEN \<and> (\<forall>c \<in> set s. is_xdigit c \<or> c = CHR ''-'')"

definition is_delim :: "char \<Rightarrow> bool" where
  "is_delim c \<longleftrightarrow> c = CHR '','' \<or> c = CHR '' ''"

definition strtok_all :: "string \<Rightarrow> string list" where
  "strtok_all s = filter (\<lambda>t. t \<noteq> []) (split_on is_delim s)"

definition SHADOW_BUF :: nat where "SHADOW_BUF = MAX_SHADOWS * MF_UUID_LEN + MAX_SHADOWS"

text \<open>The \<open>snprintf\<close> loop over an array: the offset grows by the length wanted, the text is cut.\<close>

definition join_items :: "json list \<Rightarrow> nat \<times> string" where
  "join_items items = foldl (\<lambda>(off, b) it. case it of
       JString s \<Rightarrow> if off < SHADOW_BUF - 1
                    then let piece = (if off \<noteq> 0 then '','' else []) @ s
                         in (off + length piece, take (SHADOW_BUF - 1) (b @ piece))
                    else (off, b)
     | _ \<Rightarrow> (off, b)) (0, []) items"

fun add_shadows :: "string list \<Rightarrow> string list \<Rightarrow> ph_error + string list" where
  "add_shadows out [] = Inr out"
| "add_shadows out (t # ts) =
     (if \<not> is_uuid t then Inl (Not_a_module_id t)
      else if t \<in> set out then add_shadows out ts
      else if MAX_SHADOWS \<le> length out then Inl Too_many_shadows
      else add_shadows (out @ [c_copy MF_UUID_LEN t]) ts)"

definition parse_shadows :: "json option \<Rightarrow> ph_error + string list" where
  "parse_shadows v =
     (case v of
        Some (JArray items) \<Rightarrow> add_shadows [] (strtok_all (snd (join_items items)))
      | Some (JString s) \<Rightarrow> add_shadows [] (strtok_all (c_copy SHADOW_BUF s))
      | None \<Rightarrow> add_shadows [] (strtok_all [])
      | Some JNull \<Rightarrow> add_shadows [] (strtok_all [])
      | _ \<Rightarrow> Inl Not_a_list)"

subsection \<open>Open, step, settings\<close>

definition str_of :: "nat \<Rightarrow> json option \<Rightarrow> string" where
  "str_of cap j = (case j of Some (JString s) \<Rightarrow> c_copy cap s | _ \<Rightarrow> [])"

definition poll_of :: "cdouble \<Rightarrow> json option \<Rightarrow> cdouble" where
  "poll_of dflt j = (case j of Some (JNumber x) \<Rightarrow> if POLL_MIN_S \<le> x then x else dflt | _ \<Rightarrow> dflt)"

definition ph_open :: "json option \<Rightarrow> ph_error + ph_ctx" where
  "ph_open spec =
     (case spec of
        Some (JObject kvs) \<Rightarrow>
          (let spec = JObject kvs;
               nested = opt_item (get_item spec ''phantom'') ''shadows'';
               it = (case nested of Some j \<Rightarrow> Some j | None \<Rightarrow> get_item spec ''phantom.shadows'')
           in case parse_shadows it of
                Inl e \<Rightarrow> Inl e
              | Inr l \<Rightarrow> Inr \<lparr>ph_uuid = str_of MF_UUID_LEN (get_item spec ''uuid''),
                  ph_kind = str_of 16 (get_item spec ''kind''), ph_shadows = l,
                  ph_poll_s = poll_of POLL_DEFAULT_S (get_item spec ''poll_interval_s''), ph_next = 0,
                  ph_reading = None, ph_err = []\<rparr>)
      | _ \<Rightarrow> Inl Not_an_object)"

text \<open>One shadow in \<open>ph_step\<close>'s loop: skipped, skipped with a reason, or a reading to average.\<close>

datatype shadow_use = Skip_it | Because string | Use string json

definition use_shadow :: "string \<Rightarrow> mf_devinfo option \<Rightarrow> shadow_use" where
  "use_shadow kind found =
     (case found of
        None \<Rightarrow> Skip_it
      | Some info \<Rightarrow>
          if di_kind info \<noteq> kind \<or> di_driver info = MF_PHANTOM_DRIVER then Skip_it
          else if \<not> di_active info \<or> \<not> di_online info
          then Because (c_copy 96 (di_name info @ '' is '' @
                 (if \<not> di_active info then ''inactive'' else ''offline'')))
          else case di_reading info of
                 Some (JObject kvs) \<Rightarrow> if kvs = [] then Skip_it else Use (di_name info) (JObject kvs)
               | _ \<Rightarrow> Skip_it)"

definition used_readings :: "string \<Rightarrow> (string \<Rightarrow> mf_devinfo option) \<Rightarrow> string list \<Rightarrow> (string \<times> json) list" where
  "used_readings kind find_live shadows =
     List.map_filter (\<lambda>u. case use_shadow kind (find_live u) of Use nm r \<Rightarrow> Some (nm, r) | _ \<Rightarrow> None) shadows"

definition last_reason :: "string \<Rightarrow> (string \<Rightarrow> mf_devinfo option) \<Rightarrow> string list \<Rightarrow> string" where
  "last_reason kind find_live shadows =
     foldl (\<lambda>why u. case use_shadow kind (find_live u) of Because w \<Rightarrow> w | _ \<Rightarrow> why) [] shadows"

definition ph_step :: "(string \<Rightarrow> mf_devinfo option) \<Rightarrow> cdouble \<Rightarrow> ph_ctx \<Rightarrow> mf_step \<times> ph_ctx" where
  "ph_step find_live t c =
     (if t < ph_next c then (MF_STEP_IDLE, c)
      else
        let c = c\<lparr>ph_next := t + ph_poll_s c\<rparr>;
            used = used_readings (ph_kind c) find_live (ph_shadows c);
            why = last_reason (ph_kind c) find_live (ph_shadows c)
        in case mf_phantom_average (map snd used) of
             None \<Rightarrow> (MF_STEP_ERROR, c\<lparr>ph_reading := None, ph_err := c_copy 96
                (if ph_shadows c = [] then ''no modules to shadow''
                 else if why \<noteq> [] then ''shadowed '' @ why
                 else ''no shadowed module is running'')\<rparr>)
           | Some avg \<Rightarrow>
               (MF_STEP_UPDATED,
                c\<lparr>ph_reading := Some (case avg of
                      JObject kvs \<Rightarrow> JObject (kvs @ [(''phantom_of'', JArray (map (JString \<circ> fst) used))])
                    | _ \<Rightarrow> avg), ph_err := []\<rparr>))"

fun print_shadows :: "bool \<Rightarrow> string list \<Rightarrow> string" where
  "print_shadows first [] = []"
| "print_shadows first (s # ss) = (if first then [] else '','') @ s @ print_shadows False ss"

definition ph_get_settings :: "ph_ctx \<Rightarrow> json" where
  "ph_get_settings c = JObject [(''phantom.shadows'', JString (print_shadows True (ph_shadows c)))]"

fun check_shadows :: "(string \<Rightarrow> mf_devinfo option) \<Rightarrow> ph_ctx \<Rightarrow> string list \<Rightarrow> ph_error option" where
  "check_shadows find_live c [] = None"
| "check_shadows find_live c (u # us) =
     (if u = ph_uuid c then Some Shadows_itself
      else case find_live u of
        None \<Rightarrow> Some (No_module u)
      | Some info \<Rightarrow>
          if di_driver info = MF_PHANTOM_DRIVER then Some (Is_a_phantom (di_name info))
          else if di_kind info \<noteq> ph_kind c then Some (Wrong_kind (di_name info) (di_kind info))
          else check_shadows find_live c us)"

definition ph_put_settings ::
  "(string \<Rightarrow> mf_devinfo option) \<Rightarrow> json option \<Rightarrow> ph_ctx \<Rightarrow> ph_error option \<times> ph_ctx" where
  "ph_put_settings find_live body c =
     (case body of
        Some (JObject kvs) \<Rightarrow>
          (let b = JObject kvs;
               c = c\<lparr>ph_poll_s := poll_of (ph_poll_s c) (get_item b ''poll_interval_s'')\<rparr>
           in case get_item b ''phantom.shadows'' of
                None \<Rightarrow> (None, c)
              | Some v \<Rightarrow>
                  (case parse_shadows (Some v) of
                     Inl e \<Rightarrow> (Some e, c)
                   | Inr l \<Rightarrow>
                       (case check_shadows find_live c l of
                          Some e \<Rightarrow> (Some e, c)
                        | None \<Rightarrow> (None, c\<lparr>ph_shadows := l, ph_next := 0\<rparr>))))
      | _ \<Rightarrow> (Some Not_an_object, c))"

subsection \<open>The list is well formed\<close>

definition shadows_ok :: "string list \<Rightarrow> bool" where
  "shadows_ok l \<longleftrightarrow> distinct l \<and> length l \<le> MAX_SHADOWS \<and> (\<forall>u \<in> set l. is_uuid u)"

definition ph_ok :: "ph_ctx \<Rightarrow> bool" where
  "ph_ok c \<longleftrightarrow> shadows_ok (ph_shadows c) \<and> POLL_MIN_S \<le> ph_poll_s c"

lemma uuid_short: "is_uuid u \<Longrightarrow> length u < MF_UUID_LEN"
  by (simp add: is_uuid_def)

lemma add_shadows_ok: "add_shadows out ts = Inr l \<Longrightarrow> shadows_ok out \<Longrightarrow> shadows_ok l"
  by (induction out ts rule: add_shadows.induct)
    (auto simp: shadows_ok_def uuid_short split: if_splits)

lemma parse_shadows_ok: "parse_shadows v = Inr l \<Longrightarrow> shadows_ok l"
proof -
  assume ok: "parse_shadows v = Inr l"
  have "add_shadows [] ts = Inr l \<Longrightarrow> ?thesis" for ts
    using add_shadows_ok [of "[]" ts l] by (simp add: shadows_ok_def)
  then show ?thesis
    using ok by (cases v; cases "the v"; simp add: parse_shadows_def)
qed

lemma poll_of_ge: "POLL_MIN_S \<le> dflt \<Longrightarrow> POLL_MIN_S \<le> poll_of dflt j"
  by (auto simp: poll_of_def split: option.splits json.splits)

lemma check_shadows_ok:
  "check_shadows find_live c l = None \<Longrightarrow> u \<in> set l \<Longrightarrow>
     u \<noteq> ph_uuid c \<and> (\<exists>info. find_live u = Some info \<and> di_driver info \<noteq> MF_PHANTOM_DRIVER \<and> di_kind info = ph_kind c)"
  by (induction l) (auto split: if_splits option.splits)

text \<open>What the daemon does with a phantom: open it, step it, change its settings.\<close>

inductive ph_reachable :: "ph_ctx \<Rightarrow> bool" where
  ph_reach_open: "ph_open spec = Inr c \<Longrightarrow> ph_reachable c"
| ph_reach_step: "ph_reachable c \<Longrightarrow> ph_reachable (snd (ph_step find_live t c))"
| ph_reach_put: "ph_reachable c \<Longrightarrow> ph_reachable (snd (ph_put_settings find_live body c))"

lemma ph_step_shadows [simp]:
  "ph_shadows (snd (ph_step find_live t c)) = ph_shadows c"
  "ph_poll_s (snd (ph_step find_live t c)) = ph_poll_s c"
  by (simp_all add: ph_step_def Let_def split: option.splits)

text \<open>The outcomes of a settings request.\<close>

lemma ph_put_cases:
  obtains (reject) e where "fst (ph_put_settings find_live body c) = Some e"
      "snd (ph_put_settings find_live body c) = c \<or>
       (\<exists>j. snd (ph_put_settings find_live body c) = c\<lparr>ph_poll_s := poll_of (ph_poll_s c) j\<rparr>)"
  | (same) j where "fst (ph_put_settings find_live body c) = None"
      "snd (ph_put_settings find_live body c) = c\<lparr>ph_poll_s := poll_of (ph_poll_s c) j\<rparr>"
  | (change) j v l where "fst (ph_put_settings find_live body c) = None" "parse_shadows (Some v) = Inr l"
      "check_shadows find_live (c\<lparr>ph_poll_s := poll_of (ph_poll_s c) j\<rparr>) l = None"
      "snd (ph_put_settings find_live body c) =
         c\<lparr>ph_poll_s := poll_of (ph_poll_s c) j, ph_shadows := l, ph_next := 0\<rparr>"
proof (cases "\<exists>kvs. body = Some (JObject kvs)")
  case False
  then have "ph_put_settings find_live body c = (Some Not_an_object, c)"
    by (cases body; cases "the body"; simp add: ph_put_settings_def)
  then show ?thesis using reject by simp
next
  case True
  then obtain kvs where body: "body = Some (JObject kvs)" by blast
  let ?c = "c\<lparr>ph_poll_s := poll_of (ph_poll_s c) (get_item (JObject kvs) ''poll_interval_s'')\<rparr>"
  note eq = ph_put_settings_def [of find_live body c, unfolded body option.case json.case Let_def]
  show ?thesis
  proof (cases "get_item (JObject kvs) ''phantom.shadows''")
    case None
    then show ?thesis using same eq by (simp add: body)
  next
    case (Some v)
    show ?thesis
    proof (cases "parse_shadows (Some v)")
      case (Inl e)
      then show ?thesis using Some eq reject by (simp add: body) blast
    next
      case (Inr l)
      then show ?thesis
        using Some eq reject change [of v l] by (cases "check_shadows find_live ?c l") (simp_all add: body, blast)
    qed
  qed
qed

lemma ph_put_ok: "ph_ok c \<Longrightarrow> ph_ok (snd (ph_put_settings find_live body c))"
  by (cases rule: ph_put_cases [of find_live body c]) (auto simp: ph_ok_def poll_of_ge parse_shadows_ok)

lemma ph_open_ok: "ph_open spec = Inr c \<Longrightarrow> ph_ok c"
proof -
  assume ok: "ph_open spec = Inr c"
  then obtain kvs where spec: "spec = Some (JObject kvs)"
    by (cases spec; cases "the spec"; simp add: ph_open_def)
  obtain v l where "parse_shadows v = Inr l" "ph_shadows c = l"
      "ph_poll_s c = poll_of POLL_DEFAULT_S (get_item (JObject kvs) ''poll_interval_s'')"
    using ok by (simp add: ph_open_def spec Let_def split: sum.splits) force
  then show ?thesis
    using parse_shadows_ok poll_of_ge [of POLL_DEFAULT_S]
    by (simp add: ph_ok_def POLL_DEFAULT_S_def POLL_MIN_S_def)
qed

lemma ph_reachable_ok: "ph_reachable c \<Longrightarrow> ph_ok c"
  by (induction rule: ph_reachable.induct) (simp_all add: ph_open_ok ph_put_ok, simp add: ph_ok_def)

text \<open>
  C26: However a phantom was opened, stepped and reconfigured, its shadow list holds at most eight
  distinct well-formed module ids, and its poll interval is at least half a second.
\<close>

theorem phantom_list_well_formed:
  assumes "ph_reachable c"
  shows "distinct (ph_shadows c) \<and> length (ph_shadows c) \<le> 8 \<and> (\<forall>u \<in> set (ph_shadows c). is_uuid u) \<and>
    1/2 \<le> ph_poll_s c"
  using ph_reachable_ok [OF assms] by (simp add: ph_ok_def shadows_ok_def MAX_SHADOWS_def POLL_MIN_S_def)

text \<open>
  A settings request that is accepted leaves the shadows alone or sets them to live modules of the
  phantom's own kind, none of them a phantom and none itself; a rejected request leaves the
  shadows alone.
\<close>

theorem phantom_put_settings_safe:
  assumes "ph_put_settings find_live body c = (e, c')"
  shows "ph_uuid c' = ph_uuid c \<and> ph_kind c' = ph_kind c \<and>
    (ph_shadows c' \<noteq> ph_shadows c \<longrightarrow> e = None \<and>
      (\<forall>u \<in> set (ph_shadows c'). u \<noteq> ph_uuid c \<and>
        (\<exists>info. find_live u = Some info \<and> di_driver info \<noteq> MF_PHANTOM_DRIVER \<and> di_kind info = ph_kind c)))"
proof (cases rule: ph_put_cases [of find_live body c])
  case (change j v l)
  then show ?thesis
    using assms check_shadows_ok [OF change(3)] by auto
qed (use assms in auto)

subsection \<open>The settings text reads back\<close>

fun join_commas :: "string list \<Rightarrow> string" where
  "join_commas [] = []"
| "join_commas [w] = w"
| "join_commas (w # v # ws) = w @ CHR '','' # join_commas (v # ws)"

lemma uuid_chars: "is_uuid u \<Longrightarrow> \<forall>c \<in> set u. \<not> is_delim c"
  by (auto simp: is_uuid_def is_delim_def is_xdigit_def Let_def)

lemma uuid_nonempty: "is_uuid u \<Longrightarrow> u \<noteq> []"
  by (auto simp: is_uuid_def)

lemma strtok_join: "\<forall>u \<in> set us. is_uuid u \<Longrightarrow> strtok_all (join_commas us) = us"
proof (induction us rule: join_commas.induct)
  case (2 w)
  then show ?case
    using split_on_last [of w is_delim] uuid_chars [of w] uuid_nonempty [of w] by (simp add: strtok_all_def)
next
  case (3 w v ws)
  then show ?case
    using split_on_word [of w is_delim "CHR '',''" "join_commas (v # ws)"] uuid_chars [of w] uuid_nonempty [of w]
    by (simp add: strtok_all_def is_delim_def)
qed (simp add: strtok_all_def)

lemma length_join: "\<forall>u \<in> set us. is_uuid u \<Longrightarrow> length (join_commas us) \<le> MF_UUID_LEN * length us"
  by (induction us rule: join_commas.induct) (auto dest!: uuid_short)

lemma add_shadows_id:
  "shadows_ok (out @ us) \<Longrightarrow> add_shadows out us = Inr (out @ us)"
  by (induction us arbitrary: out) (auto simp: shadows_ok_def uuid_short)

lemma join_commas_Cons: "join_commas (w # ws) = (if ws = [] then w else w @ CHR '','' # join_commas ws)"
  by (cases ws) simp_all

lemma print_join: "print_shadows True us = join_commas us"
proof -
  have "print_shadows False vs = (if vs = [] then [] else CHR '','' # join_commas vs)" for vs
  proof (induction vs)
    case (Cons v vs)
    then show ?case by (simp add: join_commas_Cons)
  qed simp
  then show ?thesis by (cases us) (simp_all add: join_commas_Cons)
qed

text \<open>
  The settings a phantom reports read back as the shadow list they were printed from, so saving and
  reloading the configuration keeps every shadow, up to the full eight.
\<close>

theorem phantom_settings_roundtrip:
  assumes "ph_reachable c"
  shows "parse_shadows (get_item (ph_get_settings c) ''phantom.shadows'') = Inr (ph_shadows c)"
proof -
  have ok: "shadows_ok (ph_shadows c)" using ph_reachable_ok [OF assms] by (simp add: ph_ok_def)
  then have ids: "\<forall>u \<in> set (ph_shadows c). is_uuid u" and n: "length (ph_shadows c) \<le> 8"
    by (simp_all add: shadows_ok_def MAX_SHADOWS_def)
  have "MF_UUID_LEN * length (ph_shadows c) \<le> MF_UUID_LEN * 8"
    using n by (rule mult_le_mono2)
  then have "length (join_commas (ph_shadows c)) < SHADOW_BUF"
    using length_join [OF ids] by (simp add: SHADOW_BUF_def MAX_SHADOWS_def MF_UUID_LEN_def)
  then show ?thesis
    using strtok_join [OF ids] add_shadows_id [of "[]" "ph_shadows c"] ok
    by (simp add: ph_get_settings_def print_join parse_shadows_def)
qed

subsection \<open>The reading\<close>

lemma used_readings_mem:
  assumes "(nm, r) \<in> set (used_readings kind find_live us)"
  shows "\<exists>u \<in> set us. \<exists>info. find_live u = Some info \<and> di_kind info = kind \<and>
    di_driver info \<noteq> MF_PHANTOM_DRIVER \<and> di_active info \<and> di_online info \<and> di_reading info = Some r"
proof -
  obtain u where u: "u \<in> set us" "use_shadow kind (find_live u) = Use nm r"
    using assms by (auto simp: used_readings_def map_filter_def split: shadow_use.splits)
  then obtain info where "find_live u = Some info" by (cases "find_live u") (auto simp: use_shadow_def)
  then show ?thesis
    using u by (intro bexI [OF _ u(1)] exI [of _ info])
      (auto simp: use_shadow_def split: if_splits option.splits json.splits)
qed

lemma descend_string [simp]: "descend s (JString x) = None"
  by (cases s) simp_all

lemma num_at_strings: "num_at p (JArray (map (JString \<circ> f) xs)) = None"
proof (cases p)
  case (Cons s q)
  then show ?thesis by (cases s; cases q) (auto simp: bind_eq_None_conv split: if_splits)
qed simp

lemma num_at_names:
  "num_at p (JObject (kvs @ [(''phantom_of'', JArray (map (JString \<circ> f) xs))])) = Some v \<Longrightarrow>
     num_at p (JObject kvs) = Some v"
proof (cases p)
  case (Cons s q)
  then show "num_at p (JObject (kvs @ [(''phantom_of'', JArray (map (JString \<circ> f) xs))])) = Some v \<Longrightarrow> ?thesis"
    using num_at_strings [of q f xs]
    by (cases s) (auto simp: map_add_def bind_eq_Some_conv split: option.splits if_splits)
qed simp

text \<open>
  After a due step the phantom has a reading exactly when some shadow is live, of its kind, not a
  phantom, active, online and publishing; and every number of the reading lies between numbers
  such shadows publish at the same place (to the rounding). No stale average survives.
\<close>

theorem phantom_step_reading:
  assumes "ph_next c \<le> t" and "ph_step find_live t c = (r, c')"
  defines "good \<equiv> \<lambda>j. \<exists>u \<in> set (ph_shadows c). \<exists>info. find_live u = Some info \<and> di_kind info = ph_kind c \<and>
    di_driver info \<noteq> MF_PHANTOM_DRIVER \<and> di_active info \<and> di_online info \<and> di_reading info = Some j"
  shows "(ph_reading c' = None \<longleftrightarrow> r = MF_STEP_ERROR) \<and>
    (\<forall>rd p v. ph_reading c' = Some rd \<and> num_at p rd = Some v \<longrightarrow>
      (\<exists>j l a b. good j \<and> good l \<and> num_at p j = Some a \<and> num_at p l = Some b \<and>
         a - 1/20000 \<le> v \<and> v \<le> b + 1/20000))"
proof -
  define used where "used = used_readings (ph_kind c) find_live (ph_shadows c)"
  have mem: "good j" if j: "j \<in> set (map snd used)" for j
  proof -
    obtain nm where "(nm, j) \<in> set used" using j by auto
    then show ?thesis unfolding used_def good_def by (rule used_readings_mem)
  qed
  show ?thesis
  proof (cases "mf_phantom_average (map snd used)")
    case None
    then show ?thesis using assms(1,2) by (auto simp: ph_step_def Let_def used_def)
  next
    case (Some avg)
    let ?rd = "case avg of JObject kvs \<Rightarrow> JObject (kvs @ [(''phantom_of'', JArray (map (JString \<circ> fst) used))])
      | _ \<Rightarrow> avg"
    have c': "r = MF_STEP_UPDATED" "ph_reading c' = Some ?rd"
      using Some assms(1,2) by (cases avg; simp add: ph_step_def Let_def used_def; auto)+
    have "num_at p avg = Some v" if "num_at p ?rd = Some v" for p v
      using that num_at_names by (cases avg) auto
    then show ?thesis
      using phantom_average_between_aux [OF Some] mem c' by (auto; metis)
  qed
qed

subsection \<open>Instances\<close>

definition sample_real :: mf_devinfo where
  "sample_real = \<lparr>di_name = ''Pack'', di_kind = ''battery'', di_driver = ''xd'', di_online = True,
     di_active = True, di_reading = Some (JObject [(''v'', JNumber 53)])\<rparr>"

definition sample_live :: "string \<Rightarrow> mf_devinfo option" where
  "sample_live u = (if u = ''0000000a'' then Some sample_real else None)"

definition sample_phantom :: ph_ctx where
  "sample_phantom = \<lparr>ph_uuid = ''00000001'', ph_kind = ''battery'', ph_shadows = [''0000000a''],
     ph_poll_s = 2, ph_next = 0, ph_reading = None, ph_err = []\<rparr>"

definition sample_spec :: json where
  "sample_spec = JObject [(''uuid'', JString ''00000001''), (''kind'', JString ''battery''),
     (''phantom.shadows'', JString ''0000000a'')]"

lemma sample_phantom_open: "ph_open (Some sample_spec) = Inr sample_phantom"
  by code_simp

lemma sample_phantom_reachable: "ph_reachable sample_phantom"
  by (rule ph_reach_open [OF sample_phantom_open])

theorem phantom_average_between_witness:
  "\<exists>j \<in> {JNumber 1, JNumber 2}. \<exists>l \<in> {JNumber 1, JNumber 2}. \<exists>a b. num_at [] j = Some a \<and>
     num_at [] l = Some b \<and> a - 1/20000 \<le> 3/2 \<and> 3/2 \<le> b + 1/20000"
proof -
  have "mf_phantom_average [JNumber 1, JNumber 2] = Some (JNumber (3/2))" by code_simp
  from phantom_average_between [OF this, of "[]" "3/2"] show ?thesis by simp
qed

theorem phantom_list_well_formed_witness: "distinct (ph_shadows sample_phantom) \<and> 1/2 \<le> ph_poll_s sample_phantom"
  using phantom_list_well_formed [OF sample_phantom_reachable] by simp

theorem phantom_put_settings_safe_witness:
  "''0000000b'' \<noteq> ph_uuid sample_phantom \<and> di_driver sample_real \<noteq> MF_PHANTOM_DRIVER"
proof -
  have put: "ph_put_settings (\<lambda>u. Some sample_real)
      (Some (JObject [(''phantom.shadows'', JString ''0000000b'')])) sample_phantom =
      (None, sample_phantom\<lparr>ph_shadows := [''0000000b'']\<rparr>)"
    by code_simp
  have "ph_shadows sample_phantom \<noteq> [''0000000b'']" by (simp add: sample_phantom_def)
  then show ?thesis using phantom_put_settings_safe [OF put] by simp
qed

theorem phantom_settings_roundtrip_witness:
  "parse_shadows (get_item (ph_get_settings sample_phantom) ''phantom.shadows'') = Inr [''0000000a'']"
  using phantom_settings_roundtrip [OF sample_phantom_reachable] by (simp add: sample_phantom_def)

theorem phantom_step_reading_witness:
  "ph_reading (snd (ph_step sample_live 5 sample_phantom)) \<noteq> None"
proof -
  have "ph_step sample_live 5 sample_phantom = (MF_STEP_UPDATED, snd (ph_step sample_live 5 sample_phantom))"
    by code_simp
  then show ?thesis
    using phantom_step_reading [of sample_phantom 5 sample_live MF_STEP_UPDATED]
    by (simp add: sample_phantom_def)
qed

end
