(* ===== verification/Textbelt.thy ===== *)
theory Textbelt
  imports Json MagTables
begin

section \<open>Textbelt text messages (src/textbelt/tb.c, tb.h)\<close>

text \<open>
  The plain data handling of the SMS service: phone numbers, recipient lists, form encoding, replies
  and the text of a message. A null pointer is \<open>None\<close>; \<open>malloc\<close> failures are not modelled.
\<close>

definition TB_PHONE_MAX :: nat where "TB_PHONE_MAX = 20"
definition TB_MSG_MAX :: nat where "TB_MSG_MAX = 320"

subsection \<open>Phone numbers\<close>

fun phone_digits :: "string \<Rightarrow> string \<Rightarrow> string option" where
  "phone_digits digits [] = Some digits"
| "phone_digits digits (c # cs) =
     (if is_digit c then (if 32 \<le> length digits + 1 then None else phone_digits (digits @ [c]) cs)
      else if c \<notin> set '' -.()'' then None else phone_digits digits cs)"

definition tb_phone_norm :: "string option \<Rightarrow> nat \<Rightarrow> string option" where
  "tb_phone_norm inp cap =
     (case inp of None \<Rightarrow> None
      | Some s \<Rightarrow>
          if cap < TB_PHONE_MAX then None
          else
            let p = dropWhile is_space s;
                plus = (p \<noteq> [] \<and> hd p = CHR ''+'');
                p = (if plus then tl p else p)
            in case phone_digits [] p of None \<Rightarrow> None
               | Some digits \<Rightarrow>
                   let n = length digits in
                   if plus then
                     (if n < 8 \<or> 15 < n \<or> hd digits = CHR ''0'' then None
                      else Some (c_copy cap (CHR ''+'' # digits)))
                   else if n = 11 \<and> hd digits = CHR ''1'' then Some (c_copy cap (CHR ''+'' # digits))
                   else if n \<noteq> 10 then None
                   else Some (c_copy cap digits))"

definition tb_phone_mask :: "string option \<Rightarrow> nat \<Rightarrow> string" where
  "tb_phone_mask phone cap =
     (case phone of
        Some s \<Rightarrow> if length s < 4 then c_copy cap ''***'' else c_copy cap (''***'' @ drop (length s - 4) s)
      | None \<Rightarrow> c_copy cap ''***'')"

definition phone_ok :: "string \<Rightarrow> bool" where
  "phone_ok p \<longleftrightarrow>
     length p = 10 \<and> list_all is_digit p \<or>
     (\<exists>ds. p = CHR ''+'' # ds \<and> list_all is_digit ds \<and> 8 \<le> length ds \<and> length ds \<le> 15 \<and> hd ds \<noteq> CHR ''0'')"

lemma phone_digits_sound:
  "phone_digits acc cs = Some ds \<Longrightarrow> list_all is_digit acc \<Longrightarrow> list_all is_digit ds \<and> length acc \<le> length ds"
  by (induction acc cs rule: phone_digits.induct) (fastforce split: if_splits)+

lemma phone_digits_all: "list_all is_digit cs \<Longrightarrow> length acc + length cs < 32 \<Longrightarrow> phone_digits acc cs = Some (acc @ cs)"
  by (induction cs arbitrary: acc) auto

lemma c_copy_phone: "TB_PHONE_MAX \<le> cap \<Longrightarrow> length s \<le> 16 \<Longrightarrow> c_copy cap s = s"
  by (simp add: TB_PHONE_MAX_def)

lemma tb_phone_norm_ok: "tb_phone_norm inp cap = Some p \<Longrightarrow> phone_ok p"
proof -
  assume n: "tb_phone_norm inp cap = Some p"
  then obtain s where inp: "inp = Some s" and cap: "TB_PHONE_MAX \<le> cap"
    by (auto simp: tb_phone_norm_def Let_def split: option.splits if_splits)
  define q where "q = dropWhile is_space s"
  define plus where "plus = (q \<noteq> [] \<and> hd q = CHR ''+'')"
  obtain ds where d: "phone_digits [] (if plus then tl q else q) = Some ds"
    using n by (auto simp: tb_phone_norm_def inp Let_def q_def plus_def split: option.splits if_splits)
  have dig: "list_all is_digit ds" using phone_digits_sound [OF d] by simp
  have len: "length ds = 11 \<Longrightarrow> hd ds = CHR ''1'' \<Longrightarrow> hd ds \<noteq> CHR ''0''" by simp
  show ?thesis
    using n d dig cap c_copy_phone [of cap "CHR ''+'' # ds"] c_copy_phone [of cap ds] len
    by (auto simp: tb_phone_norm_def inp Let_def q_def [symmetric] plus_def [symmetric] phone_ok_def
        split: if_splits)
qed

lemma digit_not_space: "is_digit c \<Longrightarrow> \<not> is_space c \<and> c \<noteq> CHR ''+''"
  by (auto simp: is_digit_def is_space_def)

lemma tb_phone_norm_id: "phone_ok p \<Longrightarrow> TB_PHONE_MAX \<le> cap \<Longrightarrow> tb_phone_norm (Some p) cap = Some p"
proof -
  assume ok: "phone_ok p" and cap: "TB_PHONE_MAX \<le> cap"
  from ok consider (us) "length p = 10" "list_all is_digit p"
    | (intl) ds where "p = CHR ''+'' # ds" "list_all is_digit ds" "8 \<le> length ds" "length ds \<le> 15"
        "hd ds \<noteq> CHR ''0''"
    by (auto simp: phone_ok_def)
  then show ?thesis
  proof cases
    case us
    then obtain c cs where p: "p = c # cs" by (cases p) auto
    then have "\<not> is_space c" "c \<noteq> CHR ''+''" using us digit_not_space [of c] by simp_all
    then show ?thesis
      using us cap phone_digits_all [of p "[]"] p c_copy_phone [of cap p]
      by (simp add: tb_phone_norm_def Let_def)
  next
    case intl
    have "\<not> is_space (CHR ''+'')" by (simp add: is_space_def)
    then show ?thesis
      using intl cap phone_digits_all [of ds "[]"] c_copy_phone [of cap p]
      by (simp add: tb_phone_norm_def Let_def)
  qed
qed

text \<open>
  A normalized phone number is ten digits, or a plus sign and 8 to 15 digits of which the first is
  not 0; and normalizing it again changes nothing.
\<close>

theorem tb_phone_norm_sound:
  assumes "tb_phone_norm inp cap = Some p"
  shows "phone_ok p \<and> tb_phone_norm (Some p) cap = Some p"
proof -
  have "TB_PHONE_MAX \<le> cap"
    using assms by (auto simp: tb_phone_norm_def Let_def split: option.splits if_splits)
  then show ?thesis using tb_phone_norm_ok [OF assms] tb_phone_norm_id by blast
qed

theorem tb_phone_norm_sound_witness: "phone_ok ''+15558838530''"
proof -
  have "tb_phone_norm (Some ''1 (555) 883-8530'') 20 = Some ''+15558838530''" by code_simp
  from tb_phone_norm_sound [OF this] show ?thesis by simp
qed

subsection \<open>Recipients\<close>

definition trim :: "string \<Rightarrow> string" where
  "trim s = rev (dropWhile is_space (rev (dropWhile is_space s)))"

fun recipients_loop :: "nat \<Rightarrow> string list \<Rightarrow> string list \<Rightarrow> string + string list" where
  "recipients_loop mx out [] = Inr out"
| "recipients_loop mx out (item # items) =
     (let s = trim (take 63 item) in
      if s = [] then recipients_loop mx out items
      else if mx \<le> length out then Inl ''too many numbers''
      else case tb_phone_norm (Some s) TB_PHONE_MAX of
        None \<Rightarrow> Inl s
      | Some p \<Rightarrow> recipients_loop mx (out @ [p]) items)"

definition is_sep :: "char \<Rightarrow> bool" where
  "is_sep c \<longleftrightarrow> c = CHR '','' \<or> c = CHR '';''"

definition tb_recipients :: "string option \<Rightarrow> nat \<Rightarrow> string + string list" where
  "tb_recipients lst mx =
     (case lst of None \<Rightarrow> Inr [] | Some s \<Rightarrow> recipients_loop mx [] (split_on is_sep s))"

lemma recipients_loop_ok:
  "recipients_loop mx out items = Inr ps \<Longrightarrow> list_all phone_ok out \<Longrightarrow> length out \<le> mx \<Longrightarrow>
     list_all phone_ok ps \<and> length ps \<le> mx"
proof (induction mx out items rule: recipients_loop.induct)
  case (2 mx out item items)
  then show ?case
    using tb_phone_norm_ok [of "Some (trim (take 63 item))" TB_PHONE_MAX]
    by (auto simp: Let_def split: if_splits option.splits)
qed auto

lemma digit_plus_not_space: "\<not> is_space (CHR ''+'')" "\<not> is_sep (CHR ''+'')" "is_digit c \<Longrightarrow> \<not> is_sep c"
  by (auto simp: is_space_def is_sep_def is_digit_def)

lemma trim_phone: "phone_ok p \<Longrightarrow> trim (take 63 p) = p"
proof -
  assume ok: "phone_ok p"
  then have "p \<noteq> []" "length p \<le> 16" "\<forall>c \<in> set p. \<not> is_space c"
    using digit_not_space digit_plus_not_space by (auto simp: phone_ok_def list_all_iff)
  then have "dropWhile is_space p = p" "dropWhile is_space (rev p) = rev p"
    by (simp_all add: dropWhile_eq_self_iff last_rev [symmetric] hd_rev)
  then show ?thesis using \<open>length p \<le> 16\<close> by (simp add: trim_def)
qed

lemma phone_no_sep: "phone_ok p \<Longrightarrow> \<forall>c \<in> set p. \<not> is_sep c"
  using digit_plus_not_space by (auto simp: phone_ok_def list_all_iff)

lemma recipients_loop_id:
  "list_all phone_ok ps \<Longrightarrow> length out + length ps \<le> mx \<Longrightarrow> recipients_loop mx out ps = Inr (out @ ps)"
proof (induction ps arbitrary: out)
  case (Cons p ps)
  then have "p \<noteq> []" "tb_phone_norm (Some p) TB_PHONE_MAX = Some p"
    using tb_phone_norm_id [of p TB_PHONE_MAX] by (auto simp: phone_ok_def)
  then show ?case using Cons trim_phone [of p] by simp
qed simp

fun join_with :: "char \<Rightarrow> string list \<Rightarrow> string" where
  "join_with x [] = []"
| "join_with x [w] = w"
| "join_with x (w # v # ws) = w @ x # join_with x (v # ws)"

lemma split_join:
  assumes "d x" and "ws \<noteq> []"
  shows "\<forall>w \<in> set ws. \<forall>c \<in> set w. \<not> d c \<Longrightarrow> split_on d (join_with x ws) = ws"
  using assms(2)
proof (induction ws rule: induct_list012)
  case (3 w v ws)
  then show ?case using split_on_word [of w d x "join_with x (v # ws)"] assms(1) by simp
qed (simp_all add: split_on_last)

text \<open>
  An accepted recipient list is at most the allowed number of normalized phone numbers, and joining
  them with commas and reading that list again gives the same numbers.
\<close>

theorem tb_recipients_sound:
  assumes "tb_recipients lst mx = Inr ps"
  shows "list_all phone_ok ps \<and> length ps \<le> mx \<and> tb_recipients (Some (join_with (CHR '','') ps)) mx = Inr ps"
proof -
  have ok: "list_all phone_ok ps \<and> length ps \<le> mx"
    using assms recipients_loop_ok [of mx "[]"] by (auto simp: tb_recipients_def split: option.splits)
  show ?thesis
  proof (cases "ps = []")
    case True
    then show ?thesis by (simp add: tb_recipients_def trim_def)
  next
    case False
    have "\<forall>w \<in> set ps. \<forall>c \<in> set w. \<not> is_sep c" using ok phone_no_sep by (auto simp: list_all_iff)
    then have "split_on is_sep (join_with (CHR '','') ps) = ps"
      using split_join [of is_sep "CHR '',''" ps] False by (simp add: is_sep_def)
    then show ?thesis using ok recipients_loop_id [of ps "[]" mx] by (simp add: tb_recipients_def)
  qed
qed

theorem tb_recipients_sound_witness: "list_all phone_ok [''5558838530'', ''+15558838530'']"
proof -
  have "tb_recipients (Some '' (555) 883-8530 ; 1-555-883-8530,'') 5 = Inr [''5558838530'', ''+15558838530'']"
    by code_simp
  from tb_recipients_sound [OF this] show ?thesis by simp
qed

subsection \<open>Form encoding\<close>

definition is_unreserved :: "char \<Rightarrow> bool" where
  "is_unreserved c \<longleftrightarrow> is_digit c \<or> (let n = (of_char c :: nat) in 65 \<le> n \<and> n \<le> 90 \<or> 97 \<le> n \<and> n \<le> 122) \<or>
     c = CHR ''-'' \<or> c = CHR ''.'' \<or> c = CHR ''_'' \<or> c = CHR ''~''"

definition hex_digit :: "nat \<Rightarrow> char" where
  "hex_digit n = ''0123456789ABCDEF'' ! n"

definition tb_escape :: "string option \<Rightarrow> string" where
  "tb_escape s = concat (map (\<lambda>c. if is_unreserved c then [c]
     else [CHR ''%'', hex_digit (of_char c div 16), hex_digit (of_char c mod 16)])
     (case s of None \<Rightarrow> [] | Some s \<Rightarrow> s))"

definition tb_form :: "string option \<Rightarrow> string option \<Rightarrow> string option \<Rightarrow> string" where
  "tb_form phone message key =
     ''phone='' @ tb_escape phone @ ''&message='' @ tb_escape message @ ''&key='' @ tb_escape key"

text \<open>What a server does with a form: split at the ampersands and equal signs, then unescape.\<close>

definition hex_val :: "char \<Rightarrow> nat" where
  "hex_val c = (if is_digit c then of_char c - 48 else of_char c - 55)"

fun unescape :: "string \<Rightarrow> string" where
  "unescape (CHR ''%'' # a # b # cs) = char_of (16 * hex_val a + hex_val b) # unescape cs"
| "unescape (c # cs) = c # unescape cs"
| "unescape [] = []"

definition parse_form :: "string \<Rightarrow> string list list" where
  "parse_form body = map (\<lambda>f. map unescape (split_on (\<lambda>c. c = CHR ''='') f)) (split_on (\<lambda>c. c = CHR ''&'') body)"

lemma hex_back: "n < 16 \<Longrightarrow> hex_val (hex_digit n) = n"
proof -
  have "\<forall>n \<in> set [0..<16]. hex_val (hex_digit n) = n" by code_simp
  then show "n < 16 \<Longrightarrow> hex_val (hex_digit n) = n" by simp
qed

lemma hex_plain: "n < 16 \<Longrightarrow> hex_digit n \<noteq> CHR ''&'' \<and> hex_digit n \<noteq> CHR ''=''"
proof -
  have "\<forall>n \<in> set [0..<16]. hex_digit n \<noteq> CHR ''&'' \<and> hex_digit n \<noteq> CHR ''=''" by code_simp
  then show "n < 16 \<Longrightarrow> hex_digit n \<noteq> CHR ''&'' \<and> hex_digit n \<noteq> CHR ''=''" by simp
qed

lemma of_char_lt: "(of_char c :: nat) < 256"
  by (metis of_char_mod_256 mod_less_divisor zero_less_numeral)

lemma of_char_div: "(of_char c :: nat) div 16 < 16"
  by (rule less_mult_imp_div_less) (use of_char_lt [of c] in simp)

lemma unescape_plain: "c \<noteq> CHR ''%'' \<Longrightarrow> unescape (c # cs) = c # unescape cs"
  by (cases "(c # cs)" rule: unescape.cases) auto

lemma unescape_escape: "unescape (tb_escape (Some s)) = s"
proof (induction s)
  case (Cons c s)
  show ?case
  proof (cases "is_unreserved c")
    case True
    then have "c \<noteq> CHR ''%''" by (auto simp: is_unreserved_def is_digit_def)
    then show ?thesis using True Cons unescape_plain by (simp add: tb_escape_def)
  next
    case False
    have "hex_val (hex_digit (of_char c div 16)) = of_char c div 16" "hex_val (hex_digit (of_char c mod 16)) = of_char c mod 16"
      using of_char_div [of c] by (intro hex_back; simp)+
    then have "char_of (16 * hex_val (hex_digit (of_char c div 16)) + hex_val (hex_digit (of_char c mod 16))) = c"
      by simp
    then show ?thesis using False Cons by (simp add: tb_escape_def)
  qed
qed (simp add: tb_escape_def)

lemma escape_plain: "c \<in> set (tb_escape s) \<Longrightarrow> c \<noteq> CHR ''&'' \<and> c \<noteq> CHR ''=''"
proof -
  assume "c \<in> set (tb_escape s)"
  then obtain x where x: "c \<in> set (if is_unreserved x then [x]
      else [CHR ''%'', hex_digit (of_char x div 16), hex_digit (of_char x mod 16)])"
    unfolding tb_escape_def set_concat set_map by blast
  have n: "(of_char x :: nat) div 16 < 16" "(of_char x :: nat) mod 16 < 16"
    using of_char_div [of x] by simp_all
  show ?thesis
    using x hex_plain [OF n(1)] hex_plain [OF n(2)]
    by (auto simp: is_unreserved_def is_digit_def split: if_splits)
qed

lemma split_on_delim: "\<forall>c \<in> set w. \<not> d c \<Longrightarrow> d x \<Longrightarrow> split_on d (w @ x # rest) = w # split_on d rest"
  using split_on_word [of w d x rest] by simp

lemma split_field:
  assumes "\<forall>c \<in> set v. c \<noteq> CHR ''=''" and "\<forall>c \<in> set k. c \<noteq> CHR ''=''"
  shows "split_on (\<lambda>c. c = CHR ''='') (k @ CHR ''='' # v) = [k, v]"
  using assms split_on_word [of k "\<lambda>c. c = CHR ''=''" "CHR ''=''" v] split_on_last [of v "\<lambda>c. c = CHR ''=''"]
  by simp

text \<open>
  The body of a send reads back, whatever bytes the message holds: a server that splits the form and
  unescapes it gets exactly the phone, the message and the key.
\<close>

theorem tb_form_roundtrip:
  "parse_form (tb_form (Some phone) (Some message) (Some key)) =
     [[''phone'', phone], [''message'', message], [''key'', key]]"
proof -
  let ?E = "\<lambda>s. tb_escape (Some s)" and ?amp = "\<lambda>c. c = CHR ''&''"
  have amp: "\<forall>c \<in> set (k @ CHR ''='' # ?E s). \<not> ?amp c" if "\<forall>c \<in> set k. \<not> ?amp c" for k s
    using that escape_plain by auto
  have form: "tb_form (Some phone) (Some message) (Some key) =
      (''phone'' @ CHR ''='' # ?E phone) @ CHR ''&'' #
      ((''message'' @ CHR ''='' # ?E message) @ CHR ''&'' # (''key'' @ CHR ''='' # ?E key))"
    by (simp add: tb_form_def)
  have keys: "\<forall>c \<in> set ''phone''. \<not> ?amp c" "\<forall>c \<in> set ''message''. \<not> ?amp c" "\<forall>c \<in> set ''key''. \<not> ?amp c"
    by simp_all
  have fields: "split_on ?amp (tb_form (Some phone) (Some message) (Some key)) =
      [''phone'' @ CHR ''='' # ?E phone, ''message'' @ CHR ''='' # ?E message, ''key'' @ CHR ''='' # ?E key]"
    unfolding form split_on_delim [OF amp [OF keys(1)] refl] split_on_delim [OF amp [OF keys(2)] refl]
      split_on_last [OF amp [OF keys(3)]] by (rule refl)
  have field: "map unescape (split_on (\<lambda>c. c = CHR ''='') (k @ CHR ''='' # ?E s)) = [unescape k, s]"
    if "\<forall>c \<in> set k. c \<noteq> CHR ''=''" for k s
    using that escape_plain split_field [of "?E s" k] unescape_escape [of s] by simp
  have "parse_form (tb_form (Some phone) (Some message) (Some key)) =
      [[unescape ''phone'', phone], [unescape ''message'', message], [unescape ''key'', key]]"
    unfolding parse_form_def fields list.map by (subst field, simp)+ simp
  then show ?thesis by (simp add: unescape_plain)
qed

subsection \<open>Replies\<close>

record tb_reply =
  tr_success :: bool
  tr_quota :: int
  tr_text_id :: string
  tr_error :: string

text \<open>The reply's parsed body; \<open>None\<close> is the code's -1. \<close>

definition tb_parse_reply :: "json option \<Rightarrow> tb_reply option" where
  "tb_parse_reply body =
     (case opt_item body ''success'' of
        Some (JBool ok) \<Rightarrow>
          Some \<lparr>tr_success = ok,
            tr_quota = (case opt_item body ''quotaRemaining'' of Some (JNumber x) \<Rightarrow> c_trunc x | _ \<Rightarrow> -1),
            tr_text_id = (case opt_item body ''textId'' of
                Some (JString s) \<Rightarrow> c_copy 32 s
              | Some (JNumber x) \<Rightarrow> c_copy 32 (fmt_0f x) | _ \<Rightarrow> []),
            tr_error = (case opt_item body ''error'' of Some (JString s) \<Rightarrow> c_copy 96 s | _ \<Rightarrow> [])\<rparr>
      | _ \<Rightarrow> None)"

subsection \<open>The text of a message\<close>

text \<open>
  \<open>put_text\<close> appends to the text so far: \<open>off\<close> is its length, \<open>out[off - 1]\<close> its last character.
\<close>

definition display_char :: "char \<Rightarrow> char" where
  "display_char c = (if (of_char c :: nat) < 32 then CHR '' '' else c)"

fun put_text :: "nat \<Rightarrow> string \<Rightarrow> string \<Rightarrow> string" where
  "put_text cap out [] = out"
| "put_text cap out (c # cs) =
     (if length out + 1 < cap
      then (let ch = display_char c in
            if ch = CHR '' '' \<and> (out = [] \<or> last out = CHR '' '') then put_text cap out cs
            else put_text cap (out @ [ch]) cs)
      else out)"

definition strip_end :: "string \<Rightarrow> string" where
  "strip_end s = rev (dropWhile (\<lambda>c. c = CHR '' '') (rev s))"

text \<open>A UTF-8 continuation byte; the cut moves back to a byte that is not one.\<close>

definition is_cont :: "char \<Rightarrow> bool" where
  "is_cont c \<longleftrightarrow> 128 \<le> (of_char c :: nat) \<and> (of_char c :: nat) < 192"

fun back_to_char :: "string \<Rightarrow> nat \<Rightarrow> nat" where
  "back_to_char b 0 = 0"
| "back_to_char b (Suc k) = (if is_cont (b ! Suc k) then back_to_char b k else Suc k)"

definition TB_BUF :: nat where "TB_BUF = TB_MSG_MAX * 2 + 8"

definition message_text :: "string option \<Rightarrow> string option \<Rightarrow> string" where
  "message_text title message =
     (let msg = (case message of None \<Rightarrow> [] | Some m \<Rightarrow> m);
          m = put_text TB_BUF [] msg
      in if m = [] \<or> m = '' '' then []
         else let b = (case title of
                  Some t \<Rightarrow> if t = [] then []
                            else let b = strip_end (put_text TB_BUF [] t)
                                 in if b \<noteq> [] \<and> length b + 2 < TB_BUF then b @ '': '' else b
                | None \<Rightarrow> [])
              in strip_end (put_text TB_BUF b msg))"

definition cut_text :: "nat \<Rightarrow> string \<Rightarrow> string" where
  "cut_text mx b =
     (if mx < length b \<and> 4 \<le> mx
      then strip_end (take (back_to_char b (mx - 3)) b) @ ''...'' else b)"

definition tb_message :: "string option \<Rightarrow> string option \<Rightarrow> nat \<Rightarrow> string" where
  "tb_message title message cap =
     c_copy cap (cut_text (min (cap - 1) TB_MSG_MAX) (message_text title message))"

text \<open>Display text: no control characters, no double, leading or trailing blank.\<close>

definition no_double :: "string \<Rightarrow> bool" where
  "no_double s \<longleftrightarrow> (\<forall>i. Suc i < length s \<longrightarrow> \<not> (s ! i = CHR '' '' \<and> s ! Suc i = CHR '' ''))"

definition half_clean :: "string \<Rightarrow> bool" where
  "half_clean s \<longleftrightarrow> list_all (\<lambda>c. 32 \<le> (of_char c :: nat)) s \<and> no_double s \<and> (s \<noteq> [] \<longrightarrow> hd s \<noteq> CHR '' '')"

definition clean :: "string \<Rightarrow> bool" where
  "clean s \<longleftrightarrow> half_clean s \<and> (s \<noteq> [] \<longrightarrow> last s \<noteq> CHR '' '')"

lemma no_double_append1:
  assumes "no_double s" and "\<not> (c = CHR '' '' \<and> s \<noteq> [] \<and> last s = CHR '' '')"
  shows "no_double (s @ [c])"
  unfolding no_double_def
proof (intro allI impI)
  fix i assume i: "Suc i < length (s @ [c])"
  show "\<not> ((s @ [c]) ! i = CHR '' '' \<and> (s @ [c]) ! Suc i = CHR '' '')"
  proof (cases "Suc i < length s")
    case True
    then show ?thesis using assms(1) by (simp add: no_double_def nth_append)
  next
    case False
    then have e: "Suc i = length s" "s \<noteq> []" using i by auto
    then have "last s = s ! i" by (simp add: last_conv_nth flip: e(1))
    then show ?thesis using assms(2) e by (auto simp: nth_append)
  qed
qed

lemma no_double_dots: "no_double s \<Longrightarrow> no_double (s @ ''...'')"
  using no_double_append1 [of s "CHR ''.''"] no_double_append1 [of "s @ ''.''" "CHR ''.''"]
    no_double_append1 [of "s @ ''..''" "CHR ''.''"] by simp

lemma no_double_take: "no_double s \<Longrightarrow> no_double (take n s)"
  by (simp add: no_double_def)

lemma half_clean_take: "half_clean s \<Longrightarrow> half_clean (take n s)"
  using no_double_take [of s n]
  by (cases n; cases s) (auto simp: half_clean_def list_all_iff dest: in_set_takeD)

lemma put_text_half_clean: "half_clean out \<Longrightarrow> half_clean (put_text cap out cs)"
proof (induction cap out cs rule: put_text.induct)
  case (2 cap out c cs)
  have "half_clean (out @ [display_char c])"
    if "\<not> (display_char c = CHR '' '' \<and> (out = [] \<or> last out = CHR '' ''))"
    using that "2.prems" no_double_append1 [of out "display_char c"]
    by (cases out) (auto simp: half_clean_def display_char_def)
  then show ?case using 2 by (auto simp: Let_def)
qed simp

lemma put_text_length: "length out < cap \<Longrightarrow> length (put_text cap out cs) < cap"
  by (induction cap out cs rule: put_text.induct) (auto simp: Let_def)

lemma strip_end_take: "\<exists>n. strip_end s = take n s"
  unfolding strip_end_def using dropWhile_eq_drop [of "\<lambda>c. c = CHR '' ''" "rev s"]
  by (metis rev_drop rev_rev_ident)

lemma strip_end_last: "strip_end s \<noteq> [] \<Longrightarrow> last (strip_end s) \<noteq> CHR '' ''"
  unfolding strip_end_def
  by (metis (mono_tags, lifting) hd_dropWhile last_rev rev_is_Nil_conv)

lemma strip_end_clean: "half_clean s \<Longrightarrow> clean (strip_end s)"
  using strip_end_take [of s] half_clean_take strip_end_last [of s] by (auto simp: clean_def)

lemma length_strip_end: "length (strip_end s) \<le> length s"
  using length_dropWhile_le [of "\<lambda>c. c = CHR '' ''" "rev s"] by (simp add: strip_end_def)

lemma half_clean_append:
  "clean s \<Longrightarrow> s \<noteq> [] \<Longrightarrow> half_clean (s @ '': '')"
proof -
  assume c: "clean s" and ne: "s \<noteq> []"
  then have "no_double s" by (simp add: clean_def half_clean_def)
  then have "no_double (s @ '': '')"
    using no_double_append1 [of s "CHR '':''"] no_double_append1 [of "s @ '':''" "CHR '' ''"] by simp
  then show ?thesis using c ne by (auto simp: clean_def half_clean_def)
qed

lemma message_text_clean: "clean (message_text title message)"
proof -
  have nil: "half_clean []" by (simp add: half_clean_def no_double_def)
  have b: "half_clean (let b = strip_end (put_text TB_BUF [] t) in if b \<noteq> [] \<and> length b + 2 < TB_BUF then b @ '': '' else b)"
    for t
    using strip_end_clean [OF put_text_half_clean [OF nil, of TB_BUF t]] half_clean_append
    by (auto simp: Let_def clean_def)
  have "half_clean (case title of Some t \<Rightarrow> if t = [] then [] else
      let b = strip_end (put_text TB_BUF [] t) in if b \<noteq> [] \<and> length b + 2 < TB_BUF then b @ '': '' else b
      | None \<Rightarrow> [])"
    using b nil by (auto split: option.splits)
  then show ?thesis
    using strip_end_clean [OF put_text_half_clean] nil
    by (auto simp: message_text_def Let_def clean_def)
qed

lemma back_to_char_le: "back_to_char b n \<le> n"
  by (induction b n rule: back_to_char.induct) auto

lemma cut_text_clean: "clean b \<Longrightarrow> clean (cut_text mx b)"
proof -
  assume c: "clean b"
  let ?t = "strip_end (take (back_to_char b (mx - 3)) b)"
  have t: "clean ?t" using c strip_end_clean half_clean_take by (simp add: clean_def)
  then have "no_double (?t @ ''...'')" by (intro no_double_dots) (simp add: clean_def half_clean_def)
  then have "clean (?t @ ''...'')" using t by (cases ?t) (auto simp: clean_def half_clean_def)
  then show ?thesis using c by (simp add: cut_text_def)
qed

lemma cut_text_length: "4 \<le> mx \<Longrightarrow> length (cut_text mx b) \<le> mx"
  using length_strip_end [of "take (back_to_char b (mx - 3)) b"] back_to_char_le [of b "mx - 3"]
  by (auto simp: cut_text_def)

text \<open>
  A message's text fits its buffer and two SMS segments (320 bytes), and is clean: no control
  characters, no leading, trailing or double blanks, whatever the title and the message hold.
\<close>

theorem tb_message_clean:
  assumes "5 \<le> cap"
  shows "length (tb_message title message cap) \<le> min (cap - 1) 320 \<and> clean (tb_message title message cap)"
proof -
  let ?m = "min (cap - 1) TB_MSG_MAX"
  have le: "length (cut_text ?m (message_text title message)) \<le> ?m"
    using assms by (intro cut_text_length) (simp add: TB_MSG_MAX_def)
  then have "c_copy cap (cut_text ?m (message_text title message)) = cut_text ?m (message_text title message)"
    using assms by (intro c_copy_fits) linarith
  then show ?thesis
    using le cut_text_clean [OF message_text_clean] by (simp add: tb_message_def TB_MSG_MAX_def)
qed

theorem tb_message_clean_witness: "clean (tb_message (Some ''Low  '') (Some '' battery at 12%'') 64)"
  using tb_message_clean [of 64 "Some ''Low  ''" "Some '' battery at 12%''"] by simp

end
