(* ===== verification/Secret.thy ===== *)
theory Secret
  imports Json
begin

section \<open>Secret, action and read-only fields (src/rest/secret.c, secret.h)\<close>

text \<open>
  What a REST client sees of a plugin's secrets and what happens to the masks it sends back. The
  \<open>fields\<close> array of a plugin is the list of its elements; settings and module objects are parsed
  JSON. Functions that edit an object in place return the edited object.
\<close>

definition MF_SECRET_MASK :: string where "MF_SECRET_MASK = ''********''"

fun find_field :: "json list \<Rightarrow> string \<Rightarrow> json option" where
  "find_field [] key = None"
| "find_field (f # fs) key =
     (if get_item f ''key'' = Some (JString key) then Some f else find_field fs key)"

definition type_is :: "json option \<Rightarrow> string \<Rightarrow> bool" where
  "type_is f ty \<longleftrightarrow> opt_item f ''type'' = Some (JString ty)"

definition mf_field_is_secret :: "json list \<Rightarrow> string \<Rightarrow> bool" where
  "mf_field_is_secret fields key = type_is (find_field fields key) ''secret''"

definition mf_field_not_setting :: "json list \<Rightarrow> string \<Rightarrow> bool" where
  "mf_field_not_setting fields key =
     (let f = find_field fields key in type_is f ''action'' \<or> opt_item f ''readonly'' = Some (JBool True))"

definition mf_secret_is_mask :: "string \<Rightarrow> bool" where
  "mf_secret_is_mask v \<longleftrightarrow> prefix MF_SECRET_MASK v"

definition mf_secret_mask :: "string \<Rightarrow> nat \<Rightarrow> string" where
  "mf_secret_mask v cap =
     (let n = length v in
      if n = 0 then []
      else if mf_secret_is_mask v then c_copy cap v
      else if 12 \<le> n then c_copy cap (MF_SECRET_MASK @ drop (n - 4) v)
      else c_copy cap MF_SECRET_MASK)"

fun mask_item :: "json \<Rightarrow> json" where
  "mask_item (JString s) = JString (mf_secret_mask s 32)"
| "mask_item j = j"

definition mf_secret_mask_settings :: "(string \<times> json) list \<Rightarrow> json list \<Rightarrow> (string \<times> json) list" where
  "mf_secret_mask_settings settings fields =
     map (\<lambda>(k, v). (k, if mf_field_is_secret fields k then mask_item v else v)) settings"

definition unwanted :: "json list \<Rightarrow> string \<times> json \<Rightarrow> bool" where
  "unwanted fields it = (case it of (k, v) \<Rightarrow>
     mf_field_not_setting fields k \<or>
     mf_field_is_secret fields k \<and> (case v of JString s \<Rightarrow> mf_secret_is_mask s | _ \<Rightarrow> False))"

text \<open>
  The loop walks the members; \<open>passed\<close> are those behind the current one. Deleting by key removes the
  first member with it, which is the current one unless a passed member has the same key.
\<close>

fun clean_loop :: "json list \<Rightarrow> (string \<times> json) list \<Rightarrow> (string \<times> json) list \<Rightarrow> (string \<times> json) list" where
  "clean_loop fields passed [] = passed"
| "clean_loop fields passed ((k, v) # rest) =
     (if unwanted fields (k, v)
      then (if k \<in> fst ` set passed then clean_loop fields (delete_item k passed @ [(k, v)]) rest
            else clean_loop fields passed rest)
      else clean_loop fields (passed @ [(k, v)]) rest)"

definition mf_secret_clean_body :: "(string \<times> json) list \<Rightarrow> json list \<Rightarrow> (string \<times> json) list" where
  "mf_secret_clean_body body fields = clean_loop fields [] body"

text \<open>\<open>split\<close>: namespace and leaf of a dotted key.\<close>

definition split_key :: "string \<Rightarrow> nat \<Rightarrow> (string \<times> string) option" where
  "split_key key nscap =
     (let ns = takeWhile (\<lambda>c. c \<noteq> CHR ''.'') key; rest = drop (length ns) key in
      if rest = [] \<or> ns = [] \<or> tl rest = [] then None
      else if nscap \<le> length ns then None
      else Some (ns, tl rest))"

definition secret_path :: "json \<Rightarrow> (string \<times> string) option" where
  "secret_path f =
     (if type_is (Some f) ''secret''
      then (case get_item f ''key'' of Some (JString k) \<Rightarrow> split_key k 32 | _ \<Rightarrow> None)
      else None)"

text \<open>Editing the first member with a key in place; nothing happens without one.\<close>

primrec update_assoc :: "string \<Rightarrow> (json \<Rightarrow> json) \<Rightarrow> (string \<times> json) list \<Rightarrow> (string \<times> json) list" where
  "update_assoc key f [] = []"
| "update_assoc key f (kv # r) =
     (if fst kv = key then (key, f (snd kv)) # r else kv # update_assoc key f r)"

fun update_item :: "string \<Rightarrow> (json \<Rightarrow> json) \<Rightarrow> json \<Rightarrow> json" where
  "update_item key f (JObject kvs) = JObject (update_assoc key f kvs)"
| "update_item key f j = j"

definition mf_secret_mask_module :: "json \<Rightarrow> json list \<Rightarrow> json" where
  "mf_secret_mask_module modul fields = foldl (\<lambda>m f. case secret_path f of
       None \<Rightarrow> m | Some (ns, leaf) \<Rightarrow> update_item ns (update_item leaf mask_item) m) modul fields"

definition restore_block :: "string \<Rightarrow> string \<Rightarrow> json \<Rightarrow> json" where
  "restore_block leaf lv nb =
     (case nb of
        JObject kvs \<Rightarrow>
          (case map_of kvs leaf of
             None \<Rightarrow> JObject (kvs @ [(leaf, JString lv)])
           | Some nv \<Rightarrow>
               if nv = JNull \<or> (case nv of JString s \<Rightarrow> mf_secret_is_mask s | _ \<Rightarrow> False)
               then JObject (delete_item leaf kvs @ [(leaf, JString lv)]) else nb)
      | _ \<Rightarrow> nb)"

definition restore_field :: "json \<Rightarrow> json \<Rightarrow> json \<Rightarrow> json" where
  "restore_field live nxt f =
     (case secret_path f of
        None \<Rightarrow> nxt
      | Some (ns, leaf) \<Rightarrow>
          (case opt_item (get_item live ns) leaf of
             Some (JString lv) \<Rightarrow>
               if lv = [] then nxt
               else (case (get_item nxt ns, nxt) of
                   (None, JObject kvs) \<Rightarrow> JObject (kvs @ [(ns, restore_block leaf lv (JObject []))])
                 | _ \<Rightarrow> update_item ns (restore_block leaf lv) nxt)
           | _ \<Rightarrow> nxt))"

text \<open>
  The arguments are the parsed texts (an empty text is the empty object); \<open>fits\<close> tells whether the
  printed result fits the caller's buffer. \<open>None\<close> is the code's -1.
\<close>

definition mf_secret_restore_extra ::
  "json option \<Rightarrow> json option \<Rightarrow> json list \<Rightarrow> (json \<Rightarrow> bool) \<Rightarrow> json option" where
  "mf_secret_restore_extra nxt live fields fits =
     (case (nxt, live) of
        (Some n, Some l) \<Rightarrow>
          if \<not> is_object n \<or> \<not> is_object l then None
          else let r = foldl (restore_field l) n fields in if fits r then Some r else None
      | _ \<Rightarrow> None)"

subsection \<open>Masks\<close>

lemma mask_is_mask: "v \<noteq> [] \<Longrightarrow> mf_secret_is_mask (mf_secret_mask v 32)"
  by (auto simp: mf_secret_mask_def mf_secret_is_mask_def MF_SECRET_MASK_def Let_def c_copy_def prefix_def)

lemma mask_nil [simp]: "mf_secret_mask [] cap = []"
  by (simp add: mf_secret_mask_def)

lemma mask_idem: "mf_secret_mask (mf_secret_mask v 32) 32 = mf_secret_mask v 32"
proof (cases "v = []")
  case False
  have "length (mf_secret_mask v 32) < 32"
    by (auto simp: mf_secret_mask_def Let_def)
  moreover have "mf_secret_mask v 32 \<noteq> []"
    using mask_is_mask [OF False] by (auto simp: mf_secret_is_mask_def MF_SECRET_MASK_def)
  ultimately show ?thesis
    using mask_is_mask [OF False] by (simp add: mf_secret_mask_def [of "mf_secret_mask v 32"])
qed simp

lemma mask_item_idem: "mask_item (mask_item j) = mask_item j"
  by (cases j) (simp_all add: mask_idem)

text \<open>
  A mask gives away at most four characters: two secrets that are not masks themselves are shown as
  the same text whenever both are short (under 12 characters), or both are long with the same
  last four characters; what is shown is at most 12 characters.
\<close>

theorem secret_mask_hides:
  assumes "v \<noteq> []" "w \<noteq> []" and "\<not> mf_secret_is_mask v" "\<not> mf_secret_is_mask w"
    and "length v < 12 \<longleftrightarrow> length w < 12"
    and "12 \<le> length v \<Longrightarrow> drop (length v - 4) v = drop (length w - 4) w"
  shows "mf_secret_mask v 32 = mf_secret_mask w 32 \<and> length (mf_secret_mask v 32) \<le> 12"
  using assms by (auto simp: mf_secret_mask_def Let_def MF_SECRET_MASK_def c_copy_def)

theorem secret_mask_hides_witness:
  "mf_secret_mask ''textbelt-key-A1234'' 32 = mf_secret_mask ''other-key-of-1234'' 32"
proof -
  have "\<not> mf_secret_is_mask ''textbelt-key-A1234''" "\<not> mf_secret_is_mask ''other-key-of-1234''"
    by (simp_all add: mf_secret_is_mask_def MF_SECRET_MASK_def)
  then show ?thesis
    using secret_mask_hides [of "''textbelt-key-A1234''" "''other-key-of-1234''"] by simp
qed

subsection \<open>A client's settings\<close>

lemma clean_loop_distinct:
  "distinct (map fst (passed @ body)) \<Longrightarrow>
     clean_loop fields passed body = passed @ filter (\<lambda>it. \<not> unwanted fields it) body"
proof (induction fields passed body rule: clean_loop.induct)
  case (2 fields passed k v rest)
  then have "k \<notin> fst ` set passed" by force
  then show ?case using 2 by auto
qed simp

text \<open>
  Sending back the settings as they were shown changes no secret: cleaning the masked settings of an
  object without duplicate keys leaves exactly its members that are neither non-empty text
  secrets nor actions or read-only values, unchanged and in order.
\<close>

theorem secret_echo_is_noop:
  assumes "distinct (map fst settings)"
  shows "mf_secret_clean_body (mf_secret_mask_settings settings fields) fields =
    filter (\<lambda>(k, v). \<not> mf_field_not_setting fields k \<and>
       \<not> (mf_field_is_secret fields k \<and> (\<exists>s. v = JString s \<and> s \<noteq> []))) settings"
proof -
  let ?m = "\<lambda>(k, v). (k, if mf_field_is_secret fields k then mask_item v else v)"
  have keys: "map fst (map ?m settings) = map fst settings"
    by (simp add: split_beta comp_def)
  have bad: "unwanted fields (?m (k, v)) \<longleftrightarrow> mf_field_not_setting fields k \<or>
      mf_field_is_secret fields k \<and> (\<exists>s. v = JString s \<and> s \<noteq> [])" for k v
    using mask_is_mask by (cases v) (auto simp: unwanted_def mf_secret_is_mask_def MF_SECRET_MASK_def)
  have same: "?m (k, v) = (k, v)" if "\<not> (mf_field_is_secret fields k \<and> (\<exists>s. v = JString s \<and> s \<noteq> []))" for k v
    using that by (cases v) auto
  have "filter (\<lambda>it. \<not> unwanted fields it) (map ?m settings) =
      filter (\<lambda>(k, v). \<not> mf_field_not_setting fields k \<and>
        \<not> (mf_field_is_secret fields k \<and> (\<exists>s. v = JString s \<and> s \<noteq> []))) settings"
  proof (induction settings)
    case (Cons it settings)
    obtain k v where it: "it = (k, v)" by force
    show ?case using Cons bad [of k v] same [of k v] unfolding it by auto
  qed simp
  moreover have "distinct (map fst ([] @ map ?m settings))"
    unfolding append_Nil keys by (rule assms)
  then have "clean_loop fields [] (map ?m settings) =
      [] @ filter (\<lambda>it. \<not> unwanted fields it) (map ?m settings)"
    by (rule clean_loop_distinct)
  ultimately show ?thesis
    by (simp only: mf_secret_clean_body_def mf_secret_mask_settings_def append_Nil)
qed

definition sample_fields :: "json list" where
  "sample_fields =
     [JObject [(''key'', JString ''api_key''), (''type'', JString ''secret'')],
      JObject [(''key'', JString ''mqtt.password''), (''type'', JString ''secret'')],
      JObject [(''key'', JString ''test''), (''type'', JString ''action'')]]"

theorem secret_echo_is_noop_witness:
  "mf_secret_clean_body (mf_secret_mask_settings
      [(''api_key'', JString ''abcdefgh12345678''), (''test'', JNull), (''name'', JString ''house'')]
      sample_fields) sample_fields = [(''name'', JString ''house'')]"
proof -
  let ?set = "[(''api_key'', JString ''abcdefgh12345678''), (''test'', JNull), (''name'', JString ''house'')]"
  have "distinct (map fst ?set)" by simp
  from secret_echo_is_noop [OF this, of sample_fields] show ?thesis
    by (simp add: mf_field_not_setting_def mf_field_is_secret_def type_is_def sample_fields_def
        opt_item_def Let_def)
qed

text \<open>
  Two members with one key are cleaned wrongly: deleting the mask by its key takes the first member,
  a real value, and the mask stays.
\<close>

lemma clean_duplicate_keeps_mask:
  "mf_secret_clean_body [(''api_key'', JString ''new-value''), (''api_key'', JString MF_SECRET_MASK)] sample_fields
     = [(''api_key'', JString MF_SECRET_MASK)]"
  by (simp add: mf_secret_clean_body_def unwanted_def mf_field_not_setting_def mf_field_is_secret_def
      type_is_def sample_fields_def opt_item_def Let_def mf_secret_is_mask_def MF_SECRET_MASK_def)

subsection \<open>Nested secrets\<close>

definition look :: "json \<Rightarrow> string \<Rightarrow> string \<Rightarrow> json option" where
  "look j ns leaf = opt_item (get_item j ns) leaf"

lemma map_of_update_assoc:
  "map_of (update_assoc key f kvs) k = (if k = key then map_option f (map_of kvs key) else map_of kvs k)"
  by (induction kvs) auto

lemma keys_update_assoc [simp]: "map fst (update_assoc key f kvs) = map fst kvs"
  by (induction kvs) auto

lemma get_item_update:
  "get_item (update_item key f j) k = (if k = key then map_option f (get_item j key) else get_item j k)"
  by (cases j) (simp_all add: map_of_update_assoc)

lemma is_object_update [simp]: "is_object (update_item key f j) = is_object j"
  by (cases j) simp_all

lemma set_delete_item: "set (delete_item key kvs) \<subseteq> set kvs"
  by (induction kvs) (auto split: if_splits)

lemmas keys_delete_item = image_mono [OF set_delete_item, of fst]

lemma distinct_delete_item:
  "distinct (map fst kvs) \<Longrightarrow> distinct (map fst (delete_item key kvs)) \<and> key \<notin> fst ` set (delete_item key kvs)"
proof (induction kvs)
  case (Cons kv kvs)
  then show ?case using keys_delete_item [of key kvs] by (cases kv) auto
qed simp

lemma map_of_delete_item:
  "distinct (map fst kvs) \<Longrightarrow> map_of (delete_item key kvs) k = (if k = key then None else map_of kvs k)"
proof (induction kvs)
  case (Cons kv kvs)
  then have "map_of kvs (fst kv) = None" by (simp add: map_of_eq_None_iff)
  with Cons show ?case by (cases kv) auto
qed simp

text \<open>
  \<open>masked P ns kvs kvs'\<close>: the block \<open>kvs'\<close> is the block \<open>kvs\<close> of the live module in which at most
  the secrets of the paths \<open>P\<close> were replaced by their masks.
\<close>

definition masked :: "(string \<times> string) set \<Rightarrow> string \<Rightarrow> (string \<times> json) list \<Rightarrow> (string \<times> json) list \<Rightarrow> bool" where
  "masked P ns kvs kvs' \<longleftrightarrow> distinct (map fst kvs') \<and> (\<forall>leaf. map_of kvs' leaf = map_of kvs leaf \<or>
     (ns, leaf) \<in> P \<and> (\<exists>s. map_of kvs leaf = Some (JString s) \<and> s \<noteq> [] \<and>
        map_of kvs' leaf = Some (JString (mf_secret_mask s 32))))"

definition masked_module :: "(string \<times> string) set \<Rightarrow> json \<Rightarrow> json \<Rightarrow> bool" where
  "masked_module P live m \<longleftrightarrow> is_object m \<and> (\<forall>ns. case get_item live ns of
     Some (JObject kvs) \<Rightarrow> (\<exists>kvs'. get_item m ns = Some (JObject kvs') \<and> masked P ns kvs kvs')
   | b \<Rightarrow> get_item m ns = b)"

definition blocks_distinct :: "json \<Rightarrow> bool" where
  "blocks_distinct live \<longleftrightarrow> is_object live \<and>
     (\<forall>ns kvs. get_item live ns = Some (JObject kvs) \<longrightarrow> distinct (map fst kvs))"

lemma masked_module_start: "blocks_distinct live \<Longrightarrow> masked_module P live live"
  by (auto simp: masked_module_def blocks_distinct_def masked_def split: option.splits json.splits)

lemma masked_mono: "P \<subseteq> Q \<Longrightarrow> masked P ns kvs kvs' \<Longrightarrow> masked Q ns kvs kvs'"
  unfolding masked_def by blast

lemma masked_mask:
  assumes "masked P ns kvs kvs'"
  shows "masked (insert (ns, leaf) P) ns kvs (update_assoc leaf mask_item kvs')"
proof -
  have "map_of (update_assoc leaf mask_item kvs') l = map_of kvs l \<or>
      (ns, l) \<in> insert (ns, leaf) P \<and> (\<exists>s. map_of kvs l = Some (JString s) \<and> s \<noteq> [] \<and>
        map_of (update_assoc leaf mask_item kvs') l = Some (JString (mf_secret_mask s 32)))" for l
  proof (cases "l = leaf")
    case True
    consider "map_of kvs' leaf = map_of kvs leaf"
      | s where "map_of kvs leaf = Some (JString s)" "s \<noteq> []"
          "map_of kvs' leaf = Some (JString (mf_secret_mask s 32))"
      using assms unfolding masked_def by blast
    then show ?thesis
    proof cases
      case 1
      then show ?thesis using True
        by (cases "map_of kvs leaf" rule: option.exhaust; cases "the (map_of kvs leaf)")
          (auto simp: map_of_update_assoc)
    next
      case 2
      then show ?thesis using True by (simp add: map_of_update_assoc mask_idem)
    qed
  next
    case False
    then show ?thesis using assms by (auto simp: masked_def map_of_update_assoc)
  qed
  then show ?thesis using assms by (simp add: masked_def)
qed

lemma masked_module_mono:
  assumes "P \<subseteq> Q" "masked_module P live m"
  shows "masked_module Q live m"
proof -
  have "case get_item live ns of Some (JObject kvs) \<Rightarrow>
      \<exists>kvs'. get_item m ns = Some (JObject kvs') \<and> masked Q ns kvs kvs' | b \<Rightarrow> get_item m ns = b"
    if "case get_item live ns of Some (JObject kvs) \<Rightarrow>
      \<exists>kvs'. get_item m ns = Some (JObject kvs') \<and> masked P ns kvs kvs' | b \<Rightarrow> get_item m ns = b" for ns
  proof (cases "\<exists>kvs. get_item live ns = Some (JObject kvs)")
    case True
    with that masked_mono [OF assms(1)] show ?thesis by (elim exE) (simp, blast)
  next
    case False
    with that show ?thesis by (auto split: option.splits json.splits)
  qed
  then show ?thesis using assms(2) by (simp add: masked_module_def)
qed

text \<open>An edit of one block that acts on the blocks as \<open>P\<close> to \<open>Q\<close> acts so on the module.\<close>

lemma masked_module_update:
  assumes "masked_module P live m"
    and "\<And>kvs kvs'. masked P ns kvs kvs' \<Longrightarrow> get_item live ns = Some (JObject kvs) \<Longrightarrow>
       \<exists>kvs''. f (JObject kvs') = JObject kvs'' \<and> masked Q ns kvs kvs''"
    and "\<And>n kvs kvs'. n \<noteq> ns \<Longrightarrow> masked P n kvs kvs' \<Longrightarrow> masked Q n kvs kvs'"
    and "\<And>b. \<not> is_object b \<Longrightarrow> f b = b"
  shows "masked_module Q live (update_item ns f m)"
proof -
  have "case get_item live n of
      Some (JObject kvs) \<Rightarrow> \<exists>kvs'. get_item (update_item ns f m) n = Some (JObject kvs') \<and> masked Q n kvs kvs'
    | b \<Rightarrow> get_item (update_item ns f m) n = b" for n
  proof -
    have old: "case get_item live n of
      Some (JObject kvs) \<Rightarrow> \<exists>kvs'. get_item m n = Some (JObject kvs') \<and> masked P n kvs kvs'
    | b \<Rightarrow> get_item m n = b"
      using assms(1) by (simp add: masked_module_def)
    show ?thesis
    proof (cases "get_item live n")
      case None
      with old show ?thesis by (auto simp: get_item_update)
    next
      case (Some b)
      show ?thesis
      proof (cases "is_object b")
        case True
        then obtain kvs where b: "b = JObject kvs" by (cases b) auto
        with old Some obtain kvs' where m: "get_item m n = Some (JObject kvs')" "masked P n kvs kvs'"
          by auto
        show ?thesis
        proof (cases "n = ns")
          case True
          with assms(2) m Some b obtain kvs'' where "f (JObject kvs') = JObject kvs''" "masked Q ns kvs kvs''"
            by blast
          then show ?thesis using True Some b m by (simp add: get_item_update)
        next
          case False
          then show ?thesis using Some b m assms(3) [OF False m(2)] by (simp add: get_item_update)
        qed
      next
        case False
        then have "get_item m n = Some b" using old Some by (cases b) simp_all
        then have "get_item (update_item ns f m) n = Some b"
          using assms(4) [OF False] by (auto simp: get_item_update)
        then show ?thesis using Some False by (cases b) simp_all
      qed
    qed
  qed
  then show ?thesis using assms(1) by (simp add: masked_module_def)
qed

lemma masked_module_step:
  assumes "masked_module P live m"
  shows "masked_module (insert (ns, leaf) P) live (update_item ns (update_item leaf mask_item) m)"
proof (rule masked_module_update [OF assms])
  show "update_item leaf mask_item b = b" if "\<not> is_object b" for b
    using that by (cases b) simp_all
next
  show "\<exists>kvs''. update_item leaf mask_item (JObject kvs') = JObject kvs'' \<and> masked (insert (ns, leaf) P) ns kvs kvs''"
    if "masked P ns kvs kvs'" for kvs kvs'
    using masked_mask [OF that] by simp
  show "masked (insert (ns, leaf) P) n kvs kvs'" if "masked P n kvs kvs'" for n kvs kvs'
    by (rule masked_mono [OF _ that]) blast
qed

text \<open>The paths of the secrets of a fields array.\<close>

definition secret_paths :: "json list \<Rightarrow> (string \<times> string) set" where
  "secret_paths fields = {p. \<exists>f \<in> set fields. secret_path f = Some p}"

lemma masked_by_mask_module:
  assumes "blocks_distinct live"
  shows "masked_module (secret_paths fields) live (mf_secret_mask_module live fields)"
proof -
  let ?step = "\<lambda>m f. case secret_path f of
       None \<Rightarrow> m | Some (ns, leaf) \<Rightarrow> update_item ns (update_item leaf mask_item) m"
  have "masked_module P live m \<Longrightarrow> masked_module (P \<union> secret_paths fs) live (foldl ?step m fs)" for P m fs
  proof (induction fs arbitrary: P m)
    case (Cons f fs)
    show ?case
    proof (cases "secret_path f")
      case None
      have "masked_module (P \<union> secret_paths fs) live (foldl ?step m fs)" by (rule Cons)+
      moreover have "P \<union> secret_paths fs \<subseteq> P \<union> secret_paths (f # fs)" by (auto simp: secret_paths_def)
      ultimately have "masked_module (P \<union> secret_paths (f # fs)) live (foldl ?step m fs)"
        by (rule masked_module_mono [rotated])
      then show ?thesis using None by simp
    next
      case (Some p)
      obtain ns leaf where p: "p = (ns, leaf)" by force
      have "masked_module (insert (ns, leaf) P \<union> secret_paths fs) live
          (foldl ?step (update_item ns (update_item leaf mask_item) m) fs)"
        by (rule Cons.IH [OF masked_module_step [OF Cons.prems]])
      moreover have "insert (ns, leaf) P \<union> secret_paths fs \<subseteq> P \<union> secret_paths (f # fs)"
        using Some p by (auto simp: secret_paths_def)
      ultimately have "masked_module (P \<union> secret_paths (f # fs)) live
          (foldl ?step (update_item ns (update_item leaf mask_item) m) fs)"
        by (rule masked_module_mono [rotated])
      then show ?thesis using Some p by simp
    qed
  qed (simp add: secret_paths_def)
  from this [OF masked_module_start [OF assms]] show ?thesis
    by (auto simp: mf_secret_mask_module_def intro: masked_module_mono [rotated])
qed

text \<open>Restoring one secret of a masked block puts the live value back.\<close>

lemma masked_restore:
  assumes "masked P ns kvs kvs'" "map_of kvs leaf = Some (JString lv)" "lv \<noteq> []"
  shows "\<exists>kvs''. restore_block leaf lv (JObject kvs') = JObject kvs'' \<and> masked (P - {(ns, leaf)}) ns kvs kvs''"
proof -
  have d: "distinct (map fst kvs')" using assms(1) by (simp add: masked_def)
  have rest: "map_of kvs' l = map_of kvs l \<or> (ns, l) \<in> P \<and> (\<exists>s. map_of kvs l = Some (JString s) \<and> s \<noteq> [] \<and>
        map_of kvs' l = Some (JString (mf_secret_mask s 32)))" for l
    using assms(1) unfolding masked_def by blast
  have leaf: "\<exists>v. map_of kvs' leaf = Some (JString v) \<and> (v = lv \<or> mf_secret_is_mask v)"
    using rest [of leaf] assms(2,3) mask_is_mask by auto
  then obtain v where v: "map_of kvs' leaf = Some (JString v)" "v = lv \<or> mf_secret_is_mask v" by blast
  show ?thesis
  proof (cases "mf_secret_is_mask v")
    case True
    let ?n = "delete_item leaf kvs' @ [(leaf, JString lv)]"
    have "distinct (map fst ?n)" using distinct_delete_item [OF d, of leaf] by auto
    moreover have "map_of ?n l = (if l = leaf then Some (JString lv) else map_of kvs' l)" for l
      by (simp add: map_add_def map_of_delete_item [OF d] split: option.splits)
    then have "map_of ?n l = map_of kvs l \<or> (ns, l) \<in> P - {(ns, leaf)} \<and>
        (\<exists>s. map_of kvs l = Some (JString s) \<and> s \<noteq> [] \<and> map_of ?n l = Some (JString (mf_secret_mask s 32)))" for l
      using rest [of l] assms(2) by auto
    ultimately show ?thesis using True v by (simp add: restore_block_def masked_def)
  next
    case False
    then have "v = lv" using v by blast
    then have "masked (P - {(ns, leaf)}) ns kvs kvs'"
      using d rest v assms(2) unfolding masked_def by (metis DiffI Pair_inject singletonD)
    then show ?thesis using False v by (simp add: restore_block_def)
  qed
qed

lemma masked_drop:
  assumes "masked P ns kvs kvs'" "n = ns \<Longrightarrow> \<not> (\<exists>lv. map_of kvs leaf = Some (JString lv) \<and> lv \<noteq> [])"
  shows "masked (P - {(n, leaf)}) ns kvs kvs'"
  using assms unfolding masked_def by (metis DiffI Pair_inject singletonD)

lemma restore_block_other: "\<not> is_object b \<Longrightarrow> restore_block leaf lv b = b"
  by (cases b) (simp_all add: restore_block_def)

lemma masked_module_restore:
  assumes "masked_module P live m" "secret_path f = Some (ns, leaf)"
  shows "masked_module (P - {(ns, leaf)}) live (restore_field live m f)"
proof (cases "\<exists>lv. opt_item (get_item live ns) leaf = Some (JString lv) \<and> lv \<noteq> []")
  case True
  then obtain lv where lv: "opt_item (get_item live ns) leaf = Some (JString lv)" "lv \<noteq> []" by blast
  then obtain b where b: "get_item live ns = Some b" "get_item b leaf = Some (JString lv)"
    by (cases "get_item live ns") (auto simp: opt_item_def)
  then obtain kvs where kvs: "b = JObject kvs" "map_of kvs leaf = Some (JString lv)"
    using get_item_cases by blast
  have "case get_item live ns of Some (JObject kvs) \<Rightarrow>
      \<exists>kvs'. get_item m ns = Some (JObject kvs') \<and> masked P ns kvs kvs' | b \<Rightarrow> get_item m ns = b"
    using assms(1) by (simp add: masked_module_def)
  then obtain kvs' where m: "get_item m ns = Some (JObject kvs')"
    using b kvs by auto
  have step: "restore_field live m f = update_item ns (restore_block leaf lv) m"
    using lv m by (simp add: restore_field_def assms(2))
  show ?thesis unfolding step
  proof (rule masked_module_update [OF assms(1)])
    show "\<exists>kvs''. restore_block leaf lv (JObject k') = JObject kvs'' \<and> masked (P - {(ns, leaf)}) ns k kvs''"
      if "masked P ns k k'" "get_item live ns = Some (JObject k)" for k k'
      using masked_restore [OF that(1)] that(2) b kvs lv by simp
    show "masked (P - {(ns, leaf)}) n k k'" if "n \<noteq> ns" "masked P n k k'" for n k k'
      using masked_drop [OF that(2), of ns leaf] that(1) by auto
  qed (rule restore_block_other)
next
  case False
  then have same: "restore_field live m f = m"
    by (auto simp: restore_field_def assms(2) split: option.splits json.splits)
  have "case get_item live n of Some (JObject kvs) \<Rightarrow>
      \<exists>kvs'. get_item m n = Some (JObject kvs') \<and> masked (P - {(ns, leaf)}) n kvs kvs' | b \<Rightarrow> get_item m n = b" for n
  proof (cases "\<exists>kvs. get_item live n = Some (JObject kvs)")
    case True
    then obtain kvs where kvs: "get_item live n = Some (JObject kvs)" by blast
    have "case get_item live n of Some (JObject kvs) \<Rightarrow>
      \<exists>kvs'. get_item m n = Some (JObject kvs') \<and> masked P n kvs kvs' | b \<Rightarrow> get_item m n = b"
      using assms(1) by (simp add: masked_module_def)
    then obtain kvs' where m: "get_item m n = Some (JObject kvs')" "masked P n kvs kvs'"
      using kvs by auto
    have "masked (P - {(ns, leaf)}) n kvs kvs'"
      by (rule masked_drop [OF m(2)]) (use False kvs in \<open>auto simp: opt_item_def\<close>)
    then show ?thesis using kvs m by simp
  next
    case False
    have "case get_item live n of Some (JObject kvs) \<Rightarrow>
      \<exists>kvs'. get_item m n = Some (JObject kvs') \<and> masked P n kvs kvs' | b \<Rightarrow> get_item m n = b"
      using assms(1) by (simp add: masked_module_def)
    with False show ?thesis by (auto split: option.splits json.splits)
  qed
  then show ?thesis using assms(1) by (simp add: same masked_module_def)
qed

lemma masked_module_restore_all:
  "masked_module P live m \<Longrightarrow> masked_module (P - secret_paths fs) live (foldl (restore_field live) m fs)"
proof (induction fs arbitrary: P m)
  case (Cons f fs)
  show ?case
  proof (cases "secret_path f")
    case None
    then have "secret_paths (f # fs) = secret_paths fs" by (auto simp: secret_paths_def)
    then show ?thesis using None Cons by (simp add: restore_field_def)
  next
    case (Some p)
    obtain ns leaf where p: "p = (ns, leaf)" by force
    have "masked_module (P - {(ns, leaf)} - secret_paths fs) live
        (foldl (restore_field live) (restore_field live m f) fs)"
      by (rule Cons.IH [OF masked_module_restore [OF Cons.prems]]) (simp add: Some p)
    moreover have "P - {(ns, leaf)} - secret_paths fs \<subseteq> P - secret_paths (f # fs)"
      using Some p by (auto simp: secret_paths_def)
    ultimately show ?thesis using masked_module_mono by simp
  qed
qed (simp add: secret_paths_def)

lemma masked_module_look: "masked_module {} live m \<Longrightarrow> look m ns leaf = look live ns leaf"
proof -
  assume "masked_module {} live m"
  then have "case get_item live ns of Some (JObject kvs) \<Rightarrow>
      \<exists>kvs'. get_item m ns = Some (JObject kvs') \<and> masked {} ns kvs kvs' | b \<Rightarrow> get_item m ns = b"
    by (simp add: masked_module_def)
  then show ?thesis
    by (auto simp: look_def opt_item_def masked_def split: option.splits json.splits)
qed

text \<open>
  C23: A client that sends a module's blocks back exactly as it was shown them, masks included, changes
  nothing: restoring the masked blocks from the live ones gives every member of every block its
  live value, secrets included, provided no block has a key twice. Nothing is returned only when
  the result does not fit the caller's buffer.
\<close>

theorem secret_module_echo_restores:
  assumes "blocks_distinct live"
  shows "\<exists>r. mf_secret_restore_extra (Some (mf_secret_mask_module live fields)) (Some live) fields fits =
        (if fits r then Some r else None) \<and> (\<forall>ns leaf. look r ns leaf = look live ns leaf)"
proof -
  let ?m = "mf_secret_mask_module live fields"
  let ?r = "foldl (restore_field live) ?m fields"
  have m: "masked_module (secret_paths fields) live ?m"
    by (rule masked_by_mask_module [OF assms])
  have "masked_module {} live ?r"
    using masked_module_restore_all [OF m, of fields] by simp
  then have "\<forall>ns leaf. look ?r ns leaf = look live ns leaf"
    by (blast intro: masked_module_look)
  moreover have "is_object ?m" "is_object live"
    using m assms by (simp_all add: masked_module_def blocks_distinct_def)
  ultimately show ?thesis
    by (intro exI [of _ ?r]) (simp add: mf_secret_restore_extra_def Let_def)
qed

theorem secret_module_echo_restores_witness:
  "\<exists>r. mf_secret_restore_extra
        (Some (JObject [(''mqtt'', JObject [(''password'', JString MF_SECRET_MASK), (''port'', JNull)])]))
        (Some (JObject [(''mqtt'', JObject [(''password'', JString ''hunter2''), (''port'', JNull)])]))
        sample_fields (\<lambda>_. True) = Some r \<and> look r ''mqtt'' ''password'' = Some (JString ''hunter2'')"
proof -
  let ?live = "JObject [(''mqtt'', JObject [(''password'', JString ''hunter2''), (''port'', JNull)])]"
  have d: "blocks_distinct ?live"
    by (auto simp: blocks_distinct_def split: if_splits)
  have m: "mf_secret_mask_module ?live sample_fields =
      JObject [(''mqtt'', JObject [(''password'', JString MF_SECRET_MASK), (''port'', JNull)])]"
    by code_simp
  show ?thesis
    using secret_module_echo_restores [OF d, of sample_fields "\<lambda>_. True"] unfolding m
    by (auto simp: look_def opt_item_def)
qed

end
