(* ===== verification/Config.thy ===== *)
theory Config
  imports Json
begin

section \<open>Configuration documents (src/config/config.c, config.h)\<close>

text \<open>
  The daemon's configuration and the client's, what a JSON document changes in them (\<open>apply\<close>) and
  the document written for them (\<open>to_json\<close>). Documents are parsed JSON. A \<open>char\<close> array is its text;
  \<open>strncpy\<close> into it keeps what fits. The \<open>extra_json\<close> text of a device is always the print of an object
  the daemon built itself and is only ever read back by the parser, so it is kept as that object's
  members (no members: the empty text); \<open>fits\<close> tells whether the printed object fits the field.
\<close>

subsection \<open>Data\<close>

definition MF_DEV_BUS_SIZE :: nat where "MF_DEV_BUS_SIZE = 32"
definition MF_DEV_UUID_SIZE :: nat where "MF_DEV_UUID_SIZE = 40"
definition MF_DEV_NAME_SIZE :: nat where "MF_DEV_NAME_SIZE = 64"
definition MF_DEV_DRIVER_SIZE :: nat where "MF_DEV_DRIVER_SIZE = 32"
definition MF_DEV_KIND_SIZE :: nat where "MF_DEV_KIND_SIZE = 32"
definition MF_DEV_USB_PATH_SIZE :: nat where "MF_DEV_USB_PATH_SIZE = 128"
definition MF_DEV_USB_SERIAL_SIZE :: nat where "MF_DEV_USB_SERIAL_SIZE = 64"
definition MF_DEV_USB_BYID_SIZE :: nat where "MF_DEV_USB_BYID_SIZE = 256"
definition MF_DEV_BLE_ADDR_SIZE :: nat where "MF_DEV_BLE_ADDR_SIZE = 32"
definition MF_DEV_BLE_ADAPTER_SIZE :: nat where "MF_DEV_BLE_ADAPTER_SIZE = 16"
definition MF_DEV_BLE_PROTO_SIZE :: nat where "MF_DEV_BLE_PROTO_SIZE = 32"
definition MF_DEV_BLE_PASSWORD_SIZE :: nat where "MF_DEV_BLE_PASSWORD_SIZE = 64"
definition MF_DEV_MODBUS_IP_SIZE :: nat where "MF_DEV_MODBUS_IP_SIZE = 64"
definition MF_DEV_MODBUS_MAC_SIZE :: nat where "MF_DEV_MODBUS_MAC_SIZE = 32"
definition MF_HISTORY_PATH_SIZE :: nat where "MF_HISTORY_PATH_SIZE = 256"
definition MF_MAX_DEVICES :: nat where "MF_MAX_DEVICES = 16"
definition MF_MAX_PROFILES :: nat where "MF_MAX_PROFILES = 16"
definition MF_PROFILE_NAME_SIZE :: nat where "MF_PROFILE_NAME_SIZE = 48"
definition MF_PROFILE_HOST_SIZE :: nat where "MF_PROFILE_HOST_SIZE = 128"

lemmas config_sizes = MF_DEV_BUS_SIZE_def MF_DEV_UUID_SIZE_def MF_DEV_NAME_SIZE_def
  MF_DEV_DRIVER_SIZE_def MF_DEV_KIND_SIZE_def MF_DEV_USB_PATH_SIZE_def MF_DEV_USB_SERIAL_SIZE_def
  MF_DEV_USB_BYID_SIZE_def MF_DEV_BLE_ADDR_SIZE_def MF_DEV_BLE_ADAPTER_SIZE_def
  MF_DEV_BLE_PROTO_SIZE_def MF_DEV_BLE_PASSWORD_SIZE_def MF_DEV_MODBUS_IP_SIZE_def
  MF_DEV_MODBUS_MAC_SIZE_def MF_HISTORY_PATH_SIZE_def MF_MAX_DEVICES_def MF_MAX_PROFILES_def
  MF_PROFILE_NAME_SIZE_def MF_PROFILE_HOST_SIZE_def

record mf_config_history =
  hs_path :: string
  hs_dir :: string
  hs_enabled :: bool

record mf_config_usb =
  cu_path :: string
  cu_serial_id :: string
  cu_by_id :: string
  cu_auto_port :: bool
  cu_baud :: int
  cu_addr :: int

record mf_config_ble =
  cb_address :: string
  cb_adapter :: string
  cb_protocol :: string
  cb_password :: string
  cb_write_response :: bool
  cb_connect_timeout_s :: int

record mf_config_modbus =
  cm_ip :: string
  cm_port :: int
  cm_unit_id :: int
  cm_mac :: string
  cm_unit_device_id :: int
  cm_auto_net :: bool

record mf_config_device =
  dv_uuid :: string
  dv_name :: string
  dv_kind :: string
  dv_driver :: string
  dv_enabled :: bool
  dv_active :: bool
  dv_poll_interval_s :: cdouble
  dv_capture_interval_s :: cdouble
  dv_retention_days :: cdouble
  dv_bus :: string
  dv_usb :: mf_config_usb
  dv_ble :: mf_config_ble
  dv_modbus :: mf_config_modbus
  dv_extra :: "(string \<times> json) list"

record mf_config_system =
  cs_input_max_w :: cdouble
  cs_discharge_max_w :: cdouble

record mf_daemon_config =
  dc_listen :: string
  dc_plugin_dir :: string
  dc_gatt_bin :: string
  dc_history :: mf_config_history
  dc_system :: mf_config_system
  dc_devices :: "mf_config_device list"
  dc_config_gen :: u64

record mf_conn_profile =
  pf_name :: string
  pf_host :: string
  pf_port :: int

record mf_tui_config =
  tc_profiles :: "mf_conn_profile list"
  tc_default_profile :: string
  tc_refresh_interval_s :: cdouble
  tc_discharge_scale :: string
  tc_discharge_scale_w :: cdouble
  tc_load_source :: string

subsection \<open>Defaults\<close>

text \<open>The install paths \<open>MF_PLUGIN_DIR\<close> and \<open>MF_GATT_BIN\<close> as the source gives them without a build flag.\<close>

definition MF_PLUGIN_DIR :: string where "MF_PLUGIN_DIR = ''/usr/local/lib/moon-flare''"
definition MF_GATT_BIN :: string where "MF_GATT_BIN = ''/usr/local/libexec/mf_gatt''"

definition mf_config_defaults :: mf_daemon_config where
  "mf_config_defaults =
     \<lparr>dc_listen = ''0.0.0.0:5250'', dc_plugin_dir = MF_PLUGIN_DIR, dc_gatt_bin = MF_GATT_BIN,
      dc_history = \<lparr>hs_path = ''/var/lib/moonflare/history.sqlite'',
        hs_dir = ''/var/lib/moonflare/history'', hs_enabled = True\<rparr>,
      dc_system = \<lparr>cs_input_max_w = 3500, cs_discharge_max_w = 3000\<rparr>,
      dc_devices = [], dc_config_gen = 1\<rparr>"

definition mf_tui_config_defaults :: mf_tui_config where
  "mf_tui_config_defaults =
     \<lparr>tc_profiles = [\<lparr>pf_name = ''local'', pf_host = ''127.0.0.1'', pf_port = 5250\<rparr>],
      tc_default_profile = ''local'', tc_refresh_interval_s = 1, tc_discharge_scale = ''auto'',
      tc_discharge_scale_w = 0, tc_load_source = ''inverters''\<rparr>"

definition usb_zero :: mf_config_usb where
  "usb_zero = \<lparr>cu_path = [], cu_serial_id = [], cu_by_id = [], cu_auto_port = False, cu_baud = 0, cu_addr = 0\<rparr>"

definition ble_zero :: mf_config_ble where
  "ble_zero = \<lparr>cb_address = [], cb_adapter = [], cb_protocol = [], cb_password = [],
     cb_write_response = False, cb_connect_timeout_s = 0\<rparr>"

definition modbus_zero :: mf_config_modbus where
  "modbus_zero = \<lparr>cm_ip = [], cm_port = 0, cm_unit_id = 0, cm_mac = [], cm_unit_device_id = 0, cm_auto_net = False\<rparr>"

definition device_zero :: mf_config_device where
  "device_zero = \<lparr>dv_uuid = [], dv_name = [], dv_kind = [], dv_driver = [], dv_enabled = False,
     dv_active = False, dv_poll_interval_s = 0, dv_capture_interval_s = 0, dv_retention_days = 0,
     dv_bus = [], dv_usb = usb_zero, dv_ble = ble_zero, dv_modbus = modbus_zero, dv_extra = []\<rparr>"

subsection \<open>Reading a document\<close>

text \<open>
  The recurring tests: a member of the right type replaces a field, anything else leaves it.
\<close>

definition set_str :: "json \<Rightarrow> string \<Rightarrow> nat \<Rightarrow> string \<Rightarrow> string" where
  "set_str obj key cap old = (case get_item_ci obj key of Some (JString s) \<Rightarrow> c_copy cap s | _ \<Rightarrow> old)"

definition set_int :: "json \<Rightarrow> string \<Rightarrow> int \<Rightarrow> int" where
  "set_int obj key old = (case get_item_ci obj key of Some (JNumber x) \<Rightarrow> valueint x | _ \<Rightarrow> old)"

definition set_num :: "json \<Rightarrow> string \<Rightarrow> (cdouble \<Rightarrow> bool) \<Rightarrow> cdouble \<Rightarrow> cdouble" where
  "set_num obj key ok old = (case get_item_ci obj key of Some (JNumber x) \<Rightarrow> if ok x then x else old | _ \<Rightarrow> old)"

definition set_flag :: "json \<Rightarrow> string \<Rightarrow> bool \<Rightarrow> bool \<Rightarrow> bool" where
  "set_flag obj key b old = (if get_item_ci obj key = Some (JBool b) then b else old)"

definition apply_history :: "mf_config_history \<Rightarrow> json \<Rightarrow> mf_config_history" where
  "apply_history h obj =
     (let h = h\<lparr>hs_path := set_str obj ''path'' MF_HISTORY_PATH_SIZE (hs_path h)\<rparr>;
          h = (case get_item_ci obj ''dir'' of
                 Some (JString s) \<Rightarrow> h\<lparr>hs_dir := c_copy MF_HISTORY_PATH_SIZE s\<rparr>
               | _ \<Rightarrow>
                 (case get_item_ci obj ''path'' of
                    Some (JString _) \<Rightarrow>
                      (let d = (case split_last (CHR ''/'') (hs_path h) of Some (d, _) \<Rightarrow> d | None \<Rightarrow> ''.'')
                       in h\<lparr>hs_dir := c_copy MF_HISTORY_PATH_SIZE (d @ ''/history'')\<rparr>)
                  | _ \<Rightarrow> h))
      in h\<lparr>hs_enabled := set_flag obj ''enabled'' True (hs_enabled h)\<rparr>)"

definition apply_system :: "mf_config_system \<Rightarrow> json \<Rightarrow> mf_config_system" where
  "apply_system s obj =
     s\<lparr>cs_input_max_w := set_num obj ''input_max_w'' (\<lambda>x. 0 < x) (cs_input_max_w s),
       cs_discharge_max_w := set_num obj ''discharge_max_w'' (\<lambda>x. 0 < x) (cs_discharge_max_w s)\<rparr>"

definition apply_usb :: "mf_config_usb \<Rightarrow> json \<Rightarrow> mf_config_usb" where
  "apply_usb u obj =
     u\<lparr>cu_path := set_str obj ''path'' MF_DEV_USB_PATH_SIZE (cu_path u),
       cu_serial_id := set_str obj ''serial_id'' MF_DEV_USB_SERIAL_SIZE (cu_serial_id u),
       cu_by_id := set_str obj ''by_id'' MF_DEV_USB_BYID_SIZE (cu_by_id u),
       cu_auto_port := set_flag obj ''auto_port'' True (cu_auto_port u),
       cu_baud := set_int obj ''baud'' (cu_baud u),
       cu_addr := set_int obj ''addr'' (cu_addr u)\<rparr>"

definition apply_ble :: "mf_config_ble \<Rightarrow> json \<Rightarrow> mf_config_ble" where
  "apply_ble b obj =
     b\<lparr>cb_address := set_str obj ''address'' MF_DEV_BLE_ADDR_SIZE (cb_address b),
       cb_adapter := set_str obj ''adapter'' MF_DEV_BLE_ADAPTER_SIZE (cb_adapter b),
       cb_protocol := set_str obj ''protocol'' MF_DEV_BLE_PROTO_SIZE (cb_protocol b),
       cb_password := set_str obj ''password'' MF_DEV_BLE_PASSWORD_SIZE (cb_password b),
       cb_write_response := set_flag obj ''write_response'' True (cb_write_response b),
       cb_connect_timeout_s := set_int obj ''connect_timeout_s'' (cb_connect_timeout_s b)\<rparr>"

definition apply_modbus :: "mf_config_modbus \<Rightarrow> json \<Rightarrow> mf_config_modbus" where
  "apply_modbus m obj =
     (let m = modbus_zero\<lparr>cm_port := -1, cm_unit_id := -1, cm_unit_device_id := -1\<rparr>
      in m\<lparr>cm_ip := set_str obj ''ip'' MF_DEV_MODBUS_IP_SIZE (cm_ip m),
           cm_port := set_int obj ''port'' (cm_port m),
           cm_unit_id := set_int obj ''unit_id'' (cm_unit_id m),
           cm_mac := set_str obj ''mac'' MF_DEV_MODBUS_MAC_SIZE (cm_mac m),
           cm_unit_device_id := set_int obj ''unit_device_id'' (cm_unit_device_id m),
           cm_auto_net := set_flag obj ''auto_net'' True (cm_auto_net m)\<rparr>)"

definition known_keys :: "string list" where
  "known_keys = [''uuid'', ''name'', ''kind'', ''driver'', ''enabled'', ''active'', ''poll_interval_s'',
     ''capture_interval_s'', ''retention_days'', ''bus'', ''usb'', ''ble'', ''modbus'']"

fun members :: "json \<Rightarrow> (string \<times> json) list" where
  "members (JObject kvs) = kvs"
| "members _ = []"

definition extra_members :: "json \<Rightarrow> (string \<times> json) list" where
  "extra_members obj = filter (\<lambda>(k, v). k \<notin> set known_keys \<and> CHR ''.'' \<notin> set k) (members obj)"

definition sub_object :: "json \<Rightarrow> string \<Rightarrow> (json \<Rightarrow> 'a) \<Rightarrow> 'a \<Rightarrow> 'a" where
  "sub_object obj key f old = (case get_item_ci obj key of Some (JObject kvs) \<Rightarrow> f (JObject kvs) | _ \<Rightarrow> old)"

definition apply_device :: "(json \<Rightarrow> bool) \<Rightarrow> json \<Rightarrow> mf_config_device option" where
  "apply_device fits obj =
     (if \<not> is_object obj then None
      else case get_item_ci obj ''uuid'' of
        Some (JString u) \<Rightarrow>
          if u = [] then None
          else let d = device_zero\<lparr>dv_uuid := c_copy MF_DEV_UUID_SIZE u\<rparr>;
            d = d\<lparr>dv_name := set_str obj ''name'' MF_DEV_NAME_SIZE (dv_name d),
                  dv_kind := set_str obj ''kind'' MF_DEV_KIND_SIZE (dv_kind d),
                  dv_driver := set_str obj ''driver'' MF_DEV_DRIVER_SIZE (dv_driver d),
                  dv_enabled := set_flag obj ''enabled'' True (dv_enabled d),
                  dv_active := set_flag obj ''active'' False True,
                  dv_poll_interval_s := set_num obj ''poll_interval_s'' (\<lambda>x. True) (dv_poll_interval_s d),
                  dv_retention_days := set_num obj ''retention_days'' (\<lambda>x. True) (-1),
                  dv_capture_interval_s := set_num obj ''capture_interval_s'' (\<lambda>x. True) (-1),
                  dv_bus := set_str obj ''bus'' MF_DEV_BUS_SIZE (dv_bus d)\<rparr>;
            extra = extra_members obj;
            d = (if extra \<noteq> [] \<and> fits (JObject extra) then d\<lparr>dv_extra := extra\<rparr> else d)
          in Some (d\<lparr>dv_usb := sub_object obj ''usb'' (apply_usb (dv_usb d)) (dv_usb d),
                     dv_ble := sub_object obj ''ble'' (apply_ble (dv_ble d)) (dv_ble d),
                     dv_modbus := sub_object obj ''modbus'' (apply_modbus (dv_modbus d)) (dv_modbus d)\<rparr>)
      | _ \<Rightarrow> None)"

text \<open>The array loop stops once 16 devices were taken; an entry that is rejected takes no place.\<close>

fun take_devices :: "(json \<Rightarrow> mf_config_device option) \<Rightarrow> nat \<Rightarrow> json list \<Rightarrow> mf_config_device list" where
  "take_devices f room [] = []"
| "take_devices f room (j # js) =
     (if room = 0 then []
      else case f j of Some d \<Rightarrow> d # take_devices f (room - 1) js | None \<Rightarrow> take_devices f room js)"

definition mf_config_apply_json :: "(json \<Rightarrow> bool) \<Rightarrow> mf_daemon_config \<Rightarrow> json \<Rightarrow> mf_daemon_config" where
  "mf_config_apply_json fits cfg rt =
     (if \<not> is_object rt then cfg
      else let cfg = cfg\<lparr>dc_listen := set_str rt ''listen'' 64 (dc_listen cfg),
                 dc_plugin_dir := set_str rt ''plugin_dir'' 256 (dc_plugin_dir cfg),
                 dc_gatt_bin := set_str rt ''gatt_bin'' 256 (dc_gatt_bin cfg),
                 dc_history := sub_object rt ''history'' (apply_history (dc_history cfg)) (dc_history cfg),
                 dc_system := sub_object rt ''system'' (apply_system (dc_system cfg)) (dc_system cfg)\<rparr>
           in case get_item_ci rt ''devices'' of
                Some (JArray js) \<Rightarrow> cfg\<lparr>dc_devices := take_devices (apply_device fits) MF_MAX_DEVICES js\<rparr>
              | _ \<Rightarrow> cfg)"

definition tui_profile :: "json \<Rightarrow> mf_conn_profile option" where
  "tui_profile o1 =
     (if \<not> is_object o1 then None
      else case (get_item_ci o1 ''name'', get_item_ci o1 ''host'', get_item_ci o1 ''port'') of
        (Some (JString n), Some (JString h), Some (JNumber x)) \<Rightarrow>
          if n = [] \<or> h = [] \<or> valueint x < 1 \<or> 65535 < valueint x then None
          else Some \<lparr>pf_name = c_copy MF_PROFILE_NAME_SIZE n, pf_host = c_copy MF_PROFILE_HOST_SIZE h,
                     pf_port = valueint x\<rparr>
      | _ \<Rightarrow> None)"

definition set_choice :: "json \<Rightarrow> string \<Rightarrow> string list \<Rightarrow> string \<Rightarrow> string" where
  "set_choice obj key choices old =
     (case get_item_ci obj key of Some (JString s) \<Rightarrow> if s \<in> set choices then c_copy 12 s else old | _ \<Rightarrow> old)"

fun take_profiles :: "nat \<Rightarrow> json list \<Rightarrow> mf_conn_profile list" where
  "take_profiles room [] = []"
| "take_profiles room (j # js) =
     (if room = 0 then []
      else case tui_profile j of Some d \<Rightarrow> d # take_profiles (room - 1) js | None \<Rightarrow> take_profiles room js)"

definition mf_tui_config_apply_json :: "mf_tui_config \<Rightarrow> json \<Rightarrow> mf_tui_config" where
  "mf_tui_config_apply_json cfg rt =
     (if \<not> is_object rt then cfg
      else let cfg = (case get_item_ci rt ''profiles'' of
                        Some (JArray js) \<Rightarrow> cfg\<lparr>tc_profiles := take_profiles MF_MAX_PROFILES js\<rparr>
                      | _ \<Rightarrow> cfg)
           in cfg\<lparr>tc_default_profile :=
                 (case get_item_ci rt ''default_profile'' of
                    Some (JString s) \<Rightarrow> if s = [] then tc_default_profile cfg else c_copy MF_PROFILE_NAME_SIZE s
                  | _ \<Rightarrow> tc_default_profile cfg),
               tc_refresh_interval_s := set_num rt ''refresh_interval_s'' (\<lambda>x. True) (tc_refresh_interval_s cfg),
               tc_discharge_scale := set_choice rt ''discharge_scale'' [''auto'', ''battery'', ''inverter'', ''fixed'']
                 (tc_discharge_scale cfg),
               tc_discharge_scale_w := set_num rt ''discharge_scale_w'' (\<lambda>x. 0 \<le> x) (tc_discharge_scale_w cfg),
               tc_load_source := set_choice rt ''load_source'' [''inverters'', ''net''] (tc_load_source cfg)\<rparr>)"

subsection \<open>Writing a document\<close>

definition string_or_null :: "string \<Rightarrow> json" where
  "string_or_null s = (if s = [] then JNull else JString s)"

definition int_number :: "int \<Rightarrow> json" where
  "int_number z = JNumber (of_int z)"

fun add_extra :: "(string \<times> json) list \<Rightarrow> (string \<times> json) list \<Rightarrow> (string \<times> json) list" where
  "add_extra dev [] = dev"
| "add_extra dev ((k, v) # r) = add_extra (if k \<in> fst ` set dev then dev else dev @ [(k, v)]) r"

definition usb_to_json :: "mf_config_usb \<Rightarrow> json" where
  "usb_to_json u = JObject
     [(''path'', string_or_null (cu_path u)), (''serial_id'', string_or_null (cu_serial_id u)),
      (''by_id'', string_or_null (cu_by_id u)), (''auto_port'', JBool (cu_auto_port u)),
      (''baud'', int_number (cu_baud u)), (''addr'', int_number (cu_addr u))]"

definition ble_to_json :: "mf_config_ble \<Rightarrow> json" where
  "ble_to_json b = JObject
     [(''address'', string_or_null (cb_address b)), (''adapter'', string_or_null (cb_adapter b)),
      (''protocol'', string_or_null (cb_protocol b)), (''password'', string_or_null (cb_password b)),
      (''write_response'', JBool (cb_write_response b)),
      (''connect_timeout_s'', int_number (cb_connect_timeout_s b))]"

definition modbus_to_json :: "mf_config_modbus \<Rightarrow> json" where
  "modbus_to_json m = JObject
     [(''ip'', string_or_null (cm_ip m)), (''port'', int_number (cm_port m)),
      (''unit_id'', int_number (cm_unit_id m)), (''mac'', string_or_null (cm_mac m)),
      (''unit_device_id'', int_number (cm_unit_device_id m)), (''auto_net'', JBool (cm_auto_net m))]"

definition device_to_json :: "mf_config_device \<Rightarrow> json" where
  "device_to_json d = JObject (add_extra
     [(''uuid'', string_or_null (dv_uuid d)), (''name'', string_or_null (dv_name d)),
      (''kind'', string_or_null (dv_kind d)), (''driver'', string_or_null (dv_driver d)),
      (''enabled'', JBool (dv_enabled d)), (''active'', JBool (dv_active d)),
      (''poll_interval_s'', JNumber (dv_poll_interval_s d)),
      (''capture_interval_s'', JNumber (dv_capture_interval_s d)),
      (''retention_days'', JNumber (dv_retention_days d)), (''bus'', string_or_null (dv_bus d)),
      (''usb'', usb_to_json (dv_usb d)), (''ble'', ble_to_json (dv_ble d)),
      (''modbus'', modbus_to_json (dv_modbus d))]
     (dv_extra d))"

definition mf_config_serialize :: "mf_daemon_config \<Rightarrow> json" where
  "mf_config_serialize cfg = JObject
     [(''listen'', string_or_null (dc_listen cfg)), (''plugin_dir'', string_or_null (dc_plugin_dir cfg)),
      (''gatt_bin'', string_or_null (dc_gatt_bin cfg)),
      (''history'', JObject [(''path'', string_or_null (hs_path (dc_history cfg))),
         (''dir'', string_or_null (hs_dir (dc_history cfg))), (''enabled'', JBool (hs_enabled (dc_history cfg)))]),
      (''system'', JObject [(''input_max_w'', JNumber (cs_input_max_w (dc_system cfg))),
         (''discharge_max_w'', JNumber (cs_discharge_max_w (dc_system cfg)))]),
      (''devices'', JArray (map device_to_json (dc_devices cfg)))]"

definition profile_to_json :: "mf_conn_profile \<Rightarrow> json" where
  "profile_to_json p = JObject
     [(''name'', JString (pf_name p)), (''host'', JString (pf_host p)), (''port'', int_number (pf_port p))]"

definition mf_tui_config_serialize :: "mf_tui_config \<Rightarrow> json" where
  "mf_tui_config_serialize cfg = JObject
     [(''profiles'', JArray (map profile_to_json (tc_profiles cfg))),
      (''default_profile'', string_or_null (tc_default_profile cfg)),
      (''refresh_interval_s'', JNumber (tc_refresh_interval_s cfg)),
      (''discharge_scale'', string_or_null (tc_discharge_scale cfg)),
      (''discharge_scale_w'', JNumber (tc_discharge_scale_w cfg)),
      (''load_source'', string_or_null (tc_load_source cfg))]"

definition mf_config_redact :: "mf_daemon_config \<Rightarrow> mf_daemon_config" where
  "mf_config_redact cfg =
     cfg\<lparr>dc_devices := map (\<lambda>d. d\<lparr>dv_ble := (dv_ble d)\<lparr>cb_password := []\<rparr>\<rparr>) (dc_devices cfg)\<rparr>"

subsection \<open>Identity and profile lookup\<close>

definition mf_config_device_endpoint :: "mf_config_device \<Rightarrow> nat \<Rightarrow> string" where
  "mf_config_device_endpoint d cap =
     (if cu_path (dv_usb d) \<noteq> [] then c_copy cap (''usb:'' @ cu_path (dv_usb d))
      else if cu_serial_id (dv_usb d) \<noteq> [] then c_copy cap (''usb-id:'' @ cu_serial_id (dv_usb d))
      else if cb_address (dv_ble d) \<noteq> [] then c_copy cap (''ble:'' @ cb_address (dv_ble d))
      else if cm_ip (dv_modbus d) \<noteq> []
      then let port = (if 0 < cm_port (dv_modbus d) then cm_port (dv_modbus d) else 502)
           in c_copy cap (''tcp:'' @ cm_ip (dv_modbus d) @ '':'' @ dec_int port)
      else [])"

definition find_profile :: "mf_conn_profile list \<Rightarrow> string \<Rightarrow> mf_conn_profile option" where
  "find_profile ps name = find (\<lambda>p. pf_name p = name) ps"

definition mf_tui_config_endpoint :: "mf_tui_config \<Rightarrow> string option \<Rightarrow> nat \<Rightarrow> string option" where
  "mf_tui_config_endpoint cfg name cap =
     (if cap = 0 \<or> tc_profiles cfg = [] then None
      else let pick = (case name of
             Some (c # cs) \<Rightarrow> find_profile (tc_profiles cfg) (c # cs)
           | _ \<Rightarrow> (case (if tc_default_profile cfg \<noteq> [] then find_profile (tc_profiles cfg) (tc_default_profile cfg)
                         else None) of
                     Some p \<Rightarrow> Some p | None \<Rightarrow> Some (hd (tc_profiles cfg))))
      in map_option (\<lambda>p. c_copy cap (take 127 (pf_host p) @ '':'' @ dec_int (pf_port p))) pick)"

end
