(* ===== verification/ConfigDoc.thy ===== *)
theory ConfigDoc
  imports Config
begin

section \<open>What loading and saving a configuration preserve\<close>

text \<open>
  The bounds every loaded configuration keeps, and that a configuration written out and loaded again
  is the same one.
\<close>

subsection \<open>Key lookup\<close>

text \<open>The keys of the documents are lower case already.\<close>

lemma lower_keys [simp]:
  "lower ''uuid'' = ''uuid''" "lower ''name'' = ''name''" "lower ''kind'' = ''kind''"
  "lower ''driver'' = ''driver''" "lower ''enabled'' = ''enabled''" "lower ''active'' = ''active''"
  "lower ''poll_interval_s'' = ''poll_interval_s''"
  "lower ''capture_interval_s'' = ''capture_interval_s''" "lower ''retention_days'' = ''retention_days''"
  "lower ''bus'' = ''bus''" "lower ''usb'' = ''usb''" "lower ''ble'' = ''ble''" "lower ''modbus'' = ''modbus''"
  "lower ''path'' = ''path''" "lower ''serial_id'' = ''serial_id''" "lower ''by_id'' = ''by_id''"
  "lower ''auto_port'' = ''auto_port''" "lower ''baud'' = ''baud''" "lower ''addr'' = ''addr''"
  "lower ''address'' = ''address''" "lower ''adapter'' = ''adapter''" "lower ''protocol'' = ''protocol''"
  "lower ''password'' = ''password''" "lower ''write_response'' = ''write_response''"
  "lower ''connect_timeout_s'' = ''connect_timeout_s''" "lower ''ip'' = ''ip''" "lower ''port'' = ''port''"
  "lower ''unit_id'' = ''unit_id''" "lower ''mac'' = ''mac''" "lower ''unit_device_id'' = ''unit_device_id''"
  "lower ''auto_net'' = ''auto_net''" "lower ''listen'' = ''listen''" "lower ''plugin_dir'' = ''plugin_dir''"
  "lower ''gatt_bin'' = ''gatt_bin''" "lower ''history'' = ''history''" "lower ''dir'' = ''dir''"
  "lower ''system'' = ''system''" "lower ''input_max_w'' = ''input_max_w''"
  "lower ''discharge_max_w'' = ''discharge_max_w''" "lower ''devices'' = ''devices''"
  "lower ''profiles'' = ''profiles''" "lower ''host'' = ''host''" "lower ''default_profile'' = ''default_profile''"
  "lower ''refresh_interval_s'' = ''refresh_interval_s''" "lower ''discharge_scale'' = ''discharge_scale''"
  "lower ''discharge_scale_w'' = ''discharge_scale_w''" "lower ''load_source'' = ''load_source''"
  by code_simp+

lemmas setters = set_str_def set_int_def set_num_def set_flag_def set_choice_def sub_object_def

lemma case_string_or_null:
  "(case string_or_null s of JString t \<Rightarrow> f t | _ \<Rightarrow> d) = (if s = [] then d else f s)"
  by (simp add: string_or_null_def)

subsection \<open>Bounds of loaded configurations\<close>

definition text_fits :: "nat \<Rightarrow> string \<Rightarrow> bool" where
  "text_fits cap s \<longleftrightarrow> length s < cap"

definition int_ok :: "int \<Rightarrow> bool" where
  "int_ok z \<longleftrightarrow> INT_MIN \<le> z \<and> z \<le> INT_MAX"

definition usb_ok :: "mf_config_usb \<Rightarrow> bool" where
  "usb_ok u \<longleftrightarrow> text_fits MF_DEV_USB_PATH_SIZE (cu_path u) \<and>
     text_fits MF_DEV_USB_SERIAL_SIZE (cu_serial_id u) \<and> text_fits MF_DEV_USB_BYID_SIZE (cu_by_id u) \<and>
     int_ok (cu_baud u) \<and> int_ok (cu_addr u)"

definition ble_ok :: "mf_config_ble \<Rightarrow> bool" where
  "ble_ok b \<longleftrightarrow> text_fits MF_DEV_BLE_ADDR_SIZE (cb_address b) \<and>
     text_fits MF_DEV_BLE_ADAPTER_SIZE (cb_adapter b) \<and> text_fits MF_DEV_BLE_PROTO_SIZE (cb_protocol b) \<and>
     text_fits MF_DEV_BLE_PASSWORD_SIZE (cb_password b) \<and> int_ok (cb_connect_timeout_s b)"

definition modbus_ok :: "mf_config_modbus \<Rightarrow> bool" where
  "modbus_ok m \<longleftrightarrow> text_fits MF_DEV_MODBUS_IP_SIZE (cm_ip m) \<and>
     text_fits MF_DEV_MODBUS_MAC_SIZE (cm_mac m) \<and> int_ok (cm_port m) \<and> int_ok (cm_unit_id m) \<and>
     int_ok (cm_unit_device_id m)"

definition extra_ok :: "(json \<Rightarrow> bool) \<Rightarrow> (string \<times> json) list \<Rightarrow> bool" where
  "extra_ok fits kvs \<longleftrightarrow> (\<forall>k \<in> fst ` set kvs. k \<notin> set known_keys \<and> CHR ''.'' \<notin> set k) \<and>
     (kvs \<noteq> [] \<longrightarrow> fits (JObject kvs))"

definition device_ok :: "(json \<Rightarrow> bool) \<Rightarrow> mf_config_device \<Rightarrow> bool" where
  "device_ok fits d \<longleftrightarrow> dv_uuid d \<noteq> [] \<and> text_fits MF_DEV_UUID_SIZE (dv_uuid d) \<and>
     text_fits MF_DEV_NAME_SIZE (dv_name d) \<and> text_fits MF_DEV_KIND_SIZE (dv_kind d) \<and>
     text_fits MF_DEV_DRIVER_SIZE (dv_driver d) \<and> text_fits MF_DEV_BUS_SIZE (dv_bus d) \<and>
     usb_ok (dv_usb d) \<and> ble_ok (dv_ble d) \<and> modbus_ok (dv_modbus d) \<and> extra_ok fits (dv_extra d)"

definition config_ok :: "(json \<Rightarrow> bool) \<Rightarrow> mf_daemon_config \<Rightarrow> bool" where
  "config_ok fits c \<longleftrightarrow> text_fits 64 (dc_listen c) \<and> text_fits 256 (dc_plugin_dir c) \<and>
     text_fits 256 (dc_gatt_bin c) \<and> text_fits MF_HISTORY_PATH_SIZE (hs_path (dc_history c)) \<and>
     text_fits MF_HISTORY_PATH_SIZE (hs_dir (dc_history c)) \<and>
     0 < cs_input_max_w (dc_system c) \<and> 0 < cs_discharge_max_w (dc_system c) \<and>
     length (dc_devices c) \<le> MF_MAX_DEVICES \<and> list_all (device_ok fits) (dc_devices c)"

lemma text_fits_copy: "0 < cap \<Longrightarrow> text_fits cap (c_copy cap s)"
  by (cases cap) (auto simp: text_fits_def)

lemma set_str_fits: "text_fits cap old \<Longrightarrow> text_fits cap (set_str obj key cap old)"
  by (auto simp: set_str_def text_fits_def min_def split: option.splits json.splits)

lemma set_int_ok: "int_ok old \<Longrightarrow> int_ok (set_int obj key old)"
  using valueint_bounds by (auto simp: set_int_def int_ok_def split: option.splits json.splits)

lemma set_num_pos: "0 < old \<Longrightarrow> 0 < set_num obj key (\<lambda>x. 0 < x) old"
  by (auto simp: set_num_def split: option.splits json.splits)

lemma apply_usb_ok: "usb_ok u \<Longrightarrow> usb_ok (apply_usb u obj)"
  by (simp add: usb_ok_def apply_usb_def set_str_fits set_int_ok)

lemma apply_ble_ok: "ble_ok b \<Longrightarrow> ble_ok (apply_ble b obj)"
  by (simp add: ble_ok_def apply_ble_def set_str_fits set_int_ok)

lemma apply_modbus_ok: "modbus_ok (apply_modbus m obj)"
proof -
  have "text_fits MF_DEV_MODBUS_IP_SIZE []" "text_fits MF_DEV_MODBUS_MAC_SIZE []" "int_ok (- 1)"
    by (simp_all add: text_fits_def config_sizes int_ok_def INT_MIN_def INT_MAX_def)
  then show ?thesis
    by (simp add: modbus_ok_def apply_modbus_def modbus_zero_def Let_def set_str_fits set_int_ok)
qed

lemma zero_ok: "usb_ok usb_zero" "ble_ok ble_zero" "modbus_ok modbus_zero"
  by (simp_all add: usb_ok_def usb_zero_def ble_ok_def ble_zero_def modbus_ok_def modbus_zero_def
      text_fits_def config_sizes int_ok_def INT_MIN_def INT_MAX_def)

lemma sub_object_ok: "P old \<Longrightarrow> (\<And>j. P (f j)) \<Longrightarrow> P (sub_object obj key f old)"
  by (auto simp: sub_object_def split: option.splits json.splits)

lemma apply_device_ok: "apply_device fits obj = Some d \<Longrightarrow> device_ok fits d"
proof -
  assume d: "apply_device fits obj = Some d"
  then obtain u where u: "get_item_ci obj ''uuid'' = Some (JString u)" "u \<noteq> []"
    by (auto simp: apply_device_def split: if_splits option.splits json.splits)
  have empty: "text_fits MF_DEV_NAME_SIZE []" "text_fits MF_DEV_KIND_SIZE []"
      "text_fits MF_DEV_DRIVER_SIZE []" "text_fits MF_DEV_BUS_SIZE []" "0 < MF_DEV_UUID_SIZE"
    by (simp_all add: text_fits_def config_sizes)
  have uuid: "c_copy MF_DEV_UUID_SIZE u \<noteq> []" using u(2) by (simp add: c_copy_def config_sizes)
  have extra: "extra_ok fits (extra_members obj)" if "fits (JObject (extra_members obj))"
    using that by (auto simp: extra_ok_def extra_members_def)
  have subs: "usb_ok (sub_object obj ''usb'' (apply_usb usb_zero) usb_zero)"
      "ble_ok (sub_object obj ''ble'' (apply_ble ble_zero) ble_zero)"
      "modbus_ok (sub_object obj ''modbus'' (apply_modbus modbus_zero) modbus_zero)"
    by (rule sub_object_ok; simp add: zero_ok apply_usb_ok apply_ble_ok apply_modbus_ok)+
  have none: "extra_ok fits []" by (simp add: extra_ok_def)
  show ?thesis
    using d u extra none uuid empty subs
    by (auto simp: apply_device_def Let_def device_ok_def device_zero_def set_str_fits text_fits_copy
        split: if_splits)
qed

lemma take_devices_ok:
  assumes "\<And>j d. f j = Some d \<Longrightarrow> P d"
  shows "length (take_devices f n js) \<le> n \<and> list_all P (take_devices f n js)"
  using assms
proof (induction f n js rule: take_devices.induct)
  case (2 f room j js)
  then show ?case by (cases "f j") (auto dest: 2(3))
qed simp

lemma apply_history_ok:
  "text_fits MF_HISTORY_PATH_SIZE (hs_path h) \<Longrightarrow> text_fits MF_HISTORY_PATH_SIZE (hs_dir h) \<Longrightarrow>
   text_fits MF_HISTORY_PATH_SIZE (hs_path (apply_history h obj)) \<and>
   text_fits MF_HISTORY_PATH_SIZE (hs_dir (apply_history h obj)) \<and>
   (hs_enabled h \<longrightarrow> hs_enabled (apply_history h obj))"
proof -
  have pos: "0 < MF_HISTORY_PATH_SIZE" by (simp add: config_sizes)
  assume "text_fits MF_HISTORY_PATH_SIZE (hs_path h)" "text_fits MF_HISTORY_PATH_SIZE (hs_dir h)"
  then show ?thesis
    by (auto simp: apply_history_def Let_def set_str_fits set_flag_def text_fits_copy [OF pos]
        split: option.splits json.splits)
qed

lemma apply_json_ok:
  assumes "config_ok fits c"
  shows "config_ok fits (mf_config_apply_json fits c rt)"
proof -
  have hist: "text_fits MF_HISTORY_PATH_SIZE (hs_path (sub_object rt ''history'' (apply_history h) h)) \<and>
      text_fits MF_HISTORY_PATH_SIZE (hs_dir (sub_object rt ''history'' (apply_history h) h))"
    if "text_fits MF_HISTORY_PATH_SIZE (hs_path h)" "text_fits MF_HISTORY_PATH_SIZE (hs_dir h)" for h
    by (rule sub_object_ok) (use that apply_history_ok in blast)+
  have syst: "0 < cs_input_max_w (sub_object rt ''system'' (apply_system s) s) \<and>
      0 < cs_discharge_max_w (sub_object rt ''system'' (apply_system s) s)"
    if "0 < cs_input_max_w s" "0 < cs_discharge_max_w s" for s
    by (rule sub_object_ok) (use that in \<open>simp_all add: apply_system_def set_num_pos\<close>)
  have dev: "length (take_devices (apply_device fits) MF_MAX_DEVICES js) \<le> MF_MAX_DEVICES \<and>
      list_all (device_ok fits) (take_devices (apply_device fits) MF_MAX_DEVICES js)" for js
    by (rule take_devices_ok) (rule apply_device_ok)
  show ?thesis
    using assms hist [of "dc_history c"] syst [of "dc_system c"] dev
    by (auto simp: config_ok_def mf_config_apply_json_def Let_def set_str_fits
        split: option.splits json.splits)
qed

lemma defaults_ok: "config_ok fits mf_config_defaults"
  by (simp add: config_ok_def mf_config_defaults_def text_fits_def config_sizes MF_PLUGIN_DIR_def MF_GATT_BIN_def)

text \<open>
  C25: Whatever a configuration document contains, the configuration loaded from it fits its buffers:
  every text is within its field, every integer within 32 bits, there are at most 16 devices, each
  with a uuid and with plugin settings that fit and hold no key of the daemon's own, and both meter
  scales are positive.
\<close>

theorem config_load_bounded:
  "config_ok fits (mf_config_apply_json fits mf_config_defaults rt)"
  by (rule apply_json_ok [OF defaults_ok])

text \<open>
  History cannot be switched off in a configuration document: whatever it says, even
  \<open>"enabled": false\<close>, history is enabled once the document was applied to the defaults.
\<close>

theorem config_history_never_off:
  "hs_enabled (dc_history (mf_config_apply_json fits mf_config_defaults rt))"
proof -
  have on: "hs_enabled (sub_object rt ''history'' (apply_history h) h)" if "hs_enabled h" for h
    by (rule sub_object_ok) (use that in \<open>auto simp: apply_history_def Let_def set_flag_def split: option.splits json.splits\<close>)
  have "hs_enabled (dc_history mf_config_defaults)" by (simp add: mf_config_defaults_def)
  then show ?thesis
    using on by (auto simp: mf_config_apply_json_def Let_def split: option.splits json.splits)
qed

subsection \<open>Saving and loading\<close>

text \<open>
  A configuration that reads back: its mandatory texts are not empty (an empty text is written as null
  and leaves the default), and its plugin settings have no key twice.
\<close>

definition config_plain :: "mf_daemon_config \<Rightarrow> bool" where
  "config_plain c \<longleftrightarrow> dc_listen c \<noteq> [] \<and> dc_plugin_dir c \<noteq> [] \<and> dc_gatt_bin c \<noteq> [] \<and>
     hs_path (dc_history c) \<noteq> [] \<and> hs_dir (dc_history c) \<noteq> [] \<and> hs_enabled (dc_history c) \<and>
     list_all (\<lambda>d. distinct (map fst (dv_extra d))) (dc_devices c)"

lemma get_item_ci_Cons [simp]:
  "get_item_ci (JObject ((k, v) # kvs)) key =
     (if lower k = lower key then Some v else get_item_ci (JObject kvs) key)"
  "get_item_ci (JObject []) key = None"
  by simp_all

declare get_item_ci.simps [simp del]

lemmas reading = setters case_string_or_null int_number_def text_fits_def int_ok_def

lemma usb_roundtrip: "usb_ok u \<Longrightarrow> apply_usb usb_zero (usb_to_json u) = u"
  by (cases u) (simp add: apply_usb_def usb_to_json_def usb_ok_def usb_zero_def reading)

lemma ble_roundtrip: "ble_ok b \<Longrightarrow> apply_ble ble_zero (ble_to_json b) = b"
  by (cases b) (simp add: apply_ble_def ble_to_json_def ble_ok_def ble_zero_def reading)

lemma modbus_roundtrip: "modbus_ok m \<Longrightarrow> apply_modbus m0 (modbus_to_json m) = m"
  by (cases m) (simp add: apply_modbus_def modbus_to_json_def modbus_ok_def modbus_zero_def reading Let_def)

lemma add_extra_append:
  "distinct (map fst kvs) \<Longrightarrow> (\<forall>k \<in> fst ` set kvs. k \<notin> fst ` set dev) \<Longrightarrow> add_extra dev kvs = dev @ kvs"
  by (induction dev kvs rule: add_extra.induct) auto

lemma filter_extra:
  "\<forall>k \<in> fst ` set kvs. k \<notin> set known_keys \<and> CHR ''.'' \<notin> set k \<Longrightarrow>
     filter (\<lambda>(k, v). k \<notin> set known_keys \<and> CHR ''.'' \<notin> set k) kvs = kvs"
  by (auto simp: filter_id_conv)

lemma sub_object_is: "get_item_ci obj key = Some v \<Longrightarrow> is_object v \<Longrightarrow> sub_object obj key f old = f v"
  by (cases v) (simp_all add: sub_object_def)

lemma device_roundtrip:
  assumes "device_ok fits d" "distinct (map fst (dv_extra d))"
  shows "apply_device fits (device_to_json d) = Some d"
proof -
  define obj where "obj = device_to_json d"
  let ?base = "[(''uuid'', string_or_null (dv_uuid d)), (''name'', string_or_null (dv_name d)),
      (''kind'', string_or_null (dv_kind d)), (''driver'', string_or_null (dv_driver d)),
      (''enabled'', JBool (dv_enabled d)), (''active'', JBool (dv_active d)),
      (''poll_interval_s'', JNumber (dv_poll_interval_s d)),
      (''capture_interval_s'', JNumber (dv_capture_interval_s d)),
      (''retention_days'', JNumber (dv_retention_days d)), (''bus'', string_or_null (dv_bus d)),
      (''usb'', usb_to_json (dv_usb d)), (''ble'', ble_to_json (dv_ble d)),
      (''modbus'', modbus_to_json (dv_modbus d))]"
  have keys: "fst ` set ?base = set known_keys" by (simp add: known_keys_def)
  have ex: "\<forall>k \<in> fst ` set (dv_extra d). k \<notin> set known_keys \<and> CHR ''.'' \<notin> set k"
      "dv_extra d \<noteq> [] \<Longrightarrow> fits (JObject (dv_extra d))"
    using assms(1) by (simp_all add: device_ok_def extra_ok_def)
  have json: "obj = JObject (?base @ dv_extra d)"
    unfolding obj_def device_to_json_def
    using add_extra_append [of "dv_extra d" ?base] assms(2) ex(1) keys by blast
  have extra: "extra_members obj = dv_extra d"
    unfolding extra_members_def json members.simps filter_append filter_extra [OF ex(1)]
    by (simp add: known_keys_def)
  have get: "is_object obj"
      "get_item_ci obj ''uuid'' = Some (JString (dv_uuid d))"
      "get_item_ci obj ''name'' = Some (string_or_null (dv_name d))"
      "get_item_ci obj ''kind'' = Some (string_or_null (dv_kind d))"
      "get_item_ci obj ''driver'' = Some (string_or_null (dv_driver d))"
      "get_item_ci obj ''bus'' = Some (string_or_null (dv_bus d))"
      "get_item_ci obj ''enabled'' = Some (JBool (dv_enabled d))"
      "get_item_ci obj ''active'' = Some (JBool (dv_active d))"
      "get_item_ci obj ''poll_interval_s'' = Some (JNumber (dv_poll_interval_s d))"
      "get_item_ci obj ''capture_interval_s'' = Some (JNumber (dv_capture_interval_s d))"
      "get_item_ci obj ''retention_days'' = Some (JNumber (dv_retention_days d))"
      "get_item_ci obj ''usb'' = Some (usb_to_json (dv_usb d))"
      "get_item_ci obj ''ble'' = Some (ble_to_json (dv_ble d))"
      "get_item_ci obj ''modbus'' = Some (modbus_to_json (dv_modbus d))"
    using assms(1) by (simp_all add: json string_or_null_def device_ok_def)
  have subs: "is_object (usb_to_json (dv_usb d))" "is_object (ble_to_json (dv_ble d))"
      "is_object (modbus_to_json (dv_modbus d))"
    by (simp_all add: usb_to_json_def ble_to_json_def modbus_to_json_def)
  have rt: "sub_object obj ''usb'' (apply_usb usb_zero) usb_zero = dv_usb d"
      "sub_object obj ''ble'' (apply_ble ble_zero) ble_zero = dv_ble d"
      "sub_object obj ''modbus'' (apply_modbus modbus_zero) modbus_zero = dv_modbus d"
    using assms(1) get(12-14) subs
    by (simp_all add: device_ok_def sub_object_is usb_roundtrip ble_roundtrip modbus_roundtrip)
  have tx: "set_str obj key cap [] = s"
    if "get_item_ci obj key = Some (string_or_null s)" "text_fits cap s" for key cap s
    using that by (simp add: reading)
  have texts: "set_str obj ''name'' MF_DEV_NAME_SIZE [] = dv_name d"
      "set_str obj ''kind'' MF_DEV_KIND_SIZE [] = dv_kind d"
      "set_str obj ''driver'' MF_DEV_DRIVER_SIZE [] = dv_driver d"
      "set_str obj ''bus'' MF_DEV_BUS_SIZE [] = dv_bus d" "c_copy MF_DEV_UUID_SIZE (dv_uuid d) = dv_uuid d"
    using assms(1) tx get(3-6) by (simp_all add: device_ok_def text_fits_def)
  have rest: "set_flag obj ''enabled'' True False = dv_enabled d" "set_flag obj ''active'' False True = dv_active d"
      "set_num obj ''poll_interval_s'' (\<lambda>x. True) 0 = dv_poll_interval_s d"
      "set_num obj ''capture_interval_s'' (\<lambda>x. True) (- 1) = dv_capture_interval_s d"
      "set_num obj ''retention_days'' (\<lambda>x. True) (- 1) = dv_retention_days d"
    using get(7-11) by (simp_all add: set_flag_def set_num_def)
  have "dv_uuid d \<noteq> []" using assms(1) by (simp add: device_ok_def)
  then show ?thesis
    unfolding obj_def [symmetric] using ex(2)
    by (cases "dv_extra d = []")
      (simp add: apply_device_def Let_def get(1,2) extra texts rest rt device_zero_def;
       rule mf_config_device.equality; simp)+
qed

lemma take_devices_all:
  "length js \<le> n \<Longrightarrow> \<forall>d \<in> set ds. f (g d) = Some d \<Longrightarrow> js = map g ds \<Longrightarrow> take_devices f n js = ds"
  by (induction ds arbitrary: n js) auto

text \<open>
  C9: Saving a configuration and loading the saved document gives the same configuration (with the
  generation counter back at 1), plugin settings and all devices included, for every configuration
  within its bounds whose mandatory texts are set.
\<close>

theorem config_roundtrip:
  assumes "config_ok fits c" "config_plain c"
  shows "mf_config_apply_json fits mf_config_defaults (mf_config_serialize c) = c\<lparr>dc_config_gen := 1\<rparr>"
proof -
  have dev: "take_devices (apply_device fits) MF_MAX_DEVICES (map device_to_json (dc_devices c)) = dc_devices c"
    using assms by (intro take_devices_all) (auto simp: config_ok_def config_plain_def list_all_iff device_roundtrip)
  have hist: "apply_history h (JObject [(''path'', string_or_null (hs_path (dc_history c))),
         (''dir'', string_or_null (hs_dir (dc_history c))), (''enabled'', JBool True)])
      = dc_history c" for h
    using assms by (cases "dc_history c")
      (simp add: apply_history_def Let_def config_ok_def config_plain_def reading string_or_null_def)
  have syst: "apply_system s (JObject [(''input_max_w'', JNumber (cs_input_max_w (dc_system c))),
         (''discharge_max_w'', JNumber (cs_discharge_max_w (dc_system c)))]) = dc_system c" for s
    using assms by (cases "dc_system c") (simp add: apply_system_def config_ok_def reading)
  show ?thesis
    using assms unfolding mf_config_serialize_def config_ok_def config_plain_def
    by (simp add: mf_config_apply_json_def Let_def hist syst dev reading; cases c; simp add: mf_config_defaults_def)
qed

definition sample_device :: mf_config_device where
  "sample_device = device_zero\<lparr>dv_uuid := ''3f2a8c10'', dv_name := ''Roof'', dv_driver := ''classic'',
     dv_active := True, dv_capture_interval_s := -1, dv_retention_days := 30,
     dv_modbus := modbus_zero\<lparr>cm_ip := ''10.0.0.7'', cm_port := 502\<rparr>,
     dv_extra := [(''array'', JObject [(''panels'', JNumber 12)])]\<rparr>"

definition sample_config :: mf_daemon_config where
  "sample_config = mf_config_defaults\<lparr>dc_devices := [sample_device]\<rparr>"

lemma sample_config_ok: "config_ok (\<lambda>_. True) sample_config" "config_plain sample_config"
  by (simp_all add: sample_config_def sample_device_def config_ok_def config_plain_def device_ok_def
      usb_ok_def ble_ok_def modbus_ok_def extra_ok_def text_fits_def config_sizes int_ok_def INT_MIN_def
      INT_MAX_def known_keys_def mf_config_defaults_def device_zero_def usb_zero_def ble_zero_def
      modbus_zero_def MF_PLUGIN_DIR_def MF_GATT_BIN_def)

theorem config_roundtrip_witness:
  "mf_config_apply_json (\<lambda>_. True) mf_config_defaults (mf_config_serialize sample_config) =
     sample_config\<lparr>dc_config_gen := 1\<rparr>"
  by (rule config_roundtrip [OF sample_config_ok])

end
