(* ===== verification/ConfigStore.thy ===== *)
theory ConfigStore
  imports ConfigDoc
begin

section \<open>Where configurations are kept (src/config/config.c, config.h)\<close>

text \<open>
  The search path, loading, the atomic save, and the settings overlay of older daemons. The file
  system is a parameter: \<open>is_file p\<close> tells whether \<open>p\<close> is a regular file, \<open>doc p\<close> is the parsed
  content of a readable well-formed document. -1 is \<open>None\<close>.
\<close>

subsection \<open>Paths\<close>

definition PATH_MAX :: nat where "PATH_MAX = 4096"

definition resolve_in_dir :: "(string \<Rightarrow> bool) \<Rightarrow> string \<Rightarrow> string \<Rightarrow> string option" where
  "resolve_in_dir is_file dir filename =
     (let path = dir @ ''/'' @ filename in
      if PATH_MAX \<le> length path then None else if is_file path then Some path else None)"

definition mf_config_resolve_path ::
  "(string \<Rightarrow> bool) \<Rightarrow> string option \<Rightarrow> string option \<Rightarrow> string \<Rightarrow> string option" where
  "mf_config_resolve_path is_file home override filename =
     (case override of
        Some p \<Rightarrow> if is_file p then Some p else None
      | None \<Rightarrow>
          (case Option.bind home (\<lambda>h. resolve_in_dir is_file (c_copy PATH_MAX (h @ ''/.config/moonflare'')) filename) of
             Some p \<Rightarrow> Some p
           | None \<Rightarrow> resolve_in_dir is_file ''/etc/moonflare'' filename))"

definition mf_config_load ::
  "(string \<Rightarrow> bool) \<Rightarrow> (string \<Rightarrow> json option) \<Rightarrow> (json \<Rightarrow> bool) \<Rightarrow> string option \<Rightarrow> string option \<Rightarrow> mf_daemon_config option"
where
  "mf_config_load is_file doc fits home override =
     (if (case override of Some p \<Rightarrow> \<not> is_file p | None \<Rightarrow> False) then None
      else case mf_config_resolve_path is_file home override ''moonflared.json'' of
        None \<Rightarrow> Some mf_config_defaults
      | Some p \<Rightarrow> map_option (mf_config_apply_json fits mf_config_defaults) (doc p))"

definition mf_tui_config_load ::
  "(string \<Rightarrow> bool) \<Rightarrow> (string \<Rightarrow> json option) \<Rightarrow> string option \<Rightarrow> string option \<Rightarrow> mf_tui_config option" where
  "mf_tui_config_load is_file doc home override =
     (case mf_config_resolve_path is_file home override ''moonflare.json'' of
        None \<Rightarrow> Some mf_tui_config_defaults
      | Some p \<Rightarrow> map_option (mf_tui_config_apply_json mf_tui_config_defaults) (doc p))"

definition state_file :: "string option \<Rightarrow> string option \<Rightarrow> string \<Rightarrow> string" where
  "state_file direct dir name =
     (case direct of
        Some (c # cs) \<Rightarrow> c # cs
      | _ \<Rightarrow> c_copy 256 ((case dir of Some (c # cs) \<Rightarrow> c # cs | _ \<Rightarrow> ''/var/lib/moonflare'') @ name))"

text \<open>Arguments: the environment's \<open>MF_STATE_CONFIG\<close> or \<open>MF_SETTINGS_OVERLAY\<close>, and \<open>STATE_DIRECTORY\<close>.\<close>

definition mf_config_state_path :: "string option \<Rightarrow> string option \<Rightarrow> string" where
  "mf_config_state_path e st = state_file e st ''/moonflared.json''"

definition mf_config_overlay_path :: "string option \<Rightarrow> string option \<Rightarrow> string" where
  "mf_config_overlay_path e st = state_file e st ''/settings.json''"

datatype load_result = Loaded mf_daemon_config | No_file | Unreadable

definition mf_config_load_state ::
  "(string \<Rightarrow> bool) \<Rightarrow> (string \<Rightarrow> bool) \<Rightarrow> (string \<Rightarrow> json option) \<Rightarrow> (json \<Rightarrow> bool) \<Rightarrow> string \<Rightarrow> load_result" where
  "mf_config_load_state exists is_file doc fits path =
     (if \<not> exists path then No_file
      else if \<not> is_file path then Unreadable
      else case doc path of None \<Rightarrow> Unreadable
        | Some rt \<Rightarrow> Loaded (mf_config_apply_json fits mf_config_defaults rt))"

subsection \<open>The atomic save\<close>

type_synonym files = "string \<Rightarrow> string option"

text \<open>What the system calls answer: whether \<open>open\<close> succeeds, what \<open>write\<close> returns, whether \<open>rename\<close> succeeds.\<close>

record save_env =
  se_open :: bool
  se_write :: int
  se_rename :: bool

text \<open>The result and all states the file system passes through, the last one being the final one.\<close>

definition write_atomic_mode :: "string \<Rightarrow> string \<Rightarrow> string \<Rightarrow> save_env \<Rightarrow> files \<Rightarrow> int \<times> files list" where
  "write_atomic_mode pid path text env fs =
     (if path = [] then (-1, [fs])
      else let tmp = c_copy PATH_MAX (path @ ''.tmp.'' @ pid) in
        if \<not> se_open env then (-1, [fs])
        else let opened = fs(tmp := Some []);
                 written = fs(tmp := Some (take (nat (se_write env)) text)) in
          if se_write env \<noteq> int (length text) then (-1, [fs, opened, written, fs(tmp := None)])
          else if \<not> se_rename env then (-1, [fs, opened, written, fs(tmp := None)])
          else (0, [fs, opened, written, (fs(tmp := None))(path := Some text)]))"

definition mf_config_save_state ::
  "string \<Rightarrow> string \<Rightarrow> (json \<Rightarrow> string) \<Rightarrow> save_env \<Rightarrow> files \<Rightarrow> mf_daemon_config \<Rightarrow> int \<times> files list" where
  "mf_config_save_state pid path print env fs cfg =
     write_atomic_mode pid path (print (mf_config_serialize cfg)) env fs"

text \<open>
  C15: Saving the configuration is atomic: at every moment during the save its file holds the old
  document or the complete new one; a save that reports success leaves the new document, one that
  reports failure leaves the old one, and in both cases no other file has changed and no
  temporary file this save made is left.
\<close>

theorem config_save_atomic:
  assumes "length path + length pid + 6 < PATH_MAX"
    and "mf_config_save_state pid path print env fs cfg = (rc, states)"
    and "fs (path @ ''.tmp.'' @ pid) = None"
  shows "(\<forall>s \<in> set states. s path \<in> {fs path, Some (print (mf_config_serialize cfg))}) \<and>
    (rc = 0 \<and> last states = fs(path := Some (print (mf_config_serialize cfg))) \<or> rc = -1 \<and> last states = fs)"
proof -
  define t where "t = path @ ''.tmp.'' @ pid"
  have tmp: "c_copy PATH_MAX t = t" using assms(1) by (simp add: t_def)
  have t: "t \<noteq> path" "fs t = None" using assms(3) by (simp_all add: t_def)
  then have "fs(t := None) = fs" by auto
  moreover note assms(2) [unfolded mf_config_save_state_def write_atomic_mode_def Let_def t_def [symmetric] tmp]
  ultimately show ?thesis
    using t by (auto split: if_splits)
qed

theorem config_save_atomic_witness:
  "snd (mf_config_save_state ''41'' ''/s/moonflared.json'' (\<lambda>_. ''doc'') \<lparr>se_open = True, se_write = 1, se_rename = True\<rparr>
        (\<lambda>_. None) sample_config) \<noteq> [] \<and>
   last (snd (mf_config_save_state ''41'' ''/s/moonflared.json'' (\<lambda>_. ''doc'')
     \<lparr>se_open = True, se_write = 1, se_rename = True\<rparr> (\<lambda>_. None) sample_config)) = (\<lambda>_. None)"
proof -
  let ?e = "\<lparr>se_open = True, se_write = 1, se_rename = True\<rparr>"
  obtain rc st where r: "mf_config_save_state ''41'' ''/s/moonflared.json'' (\<lambda>_. ''doc'') ?e (\<lambda>_. None) sample_config = (rc, st)"
    by force
  have "rc = -1" "st \<noteq> []"
    using r by (auto simp: mf_config_save_state_def write_atomic_mode_def Let_def)
  then show ?thesis
    using config_save_atomic [of "''/s/moonflared.json''" "''41''" "\<lambda>_. ''doc''" ?e "\<lambda>_. None" sample_config, OF _ r]
    by (simp add: r PATH_MAX_def)
qed

subsection \<open>The settings overlay\<close>

definition find_device_by_uuid :: "mf_config_device list \<Rightarrow> string \<Rightarrow> nat option" where
  "find_device_by_uuid ds uuid = find (\<lambda>i. dv_uuid (ds ! i) = uuid) [0..<length ds]"

definition over_str :: "nat \<Rightarrow> string \<Rightarrow> string \<Rightarrow> string" where
  "over_str cap new old = (if new = [] then old else c_copy cap new)"

definition overlay_device :: "mf_config_device \<Rightarrow> mf_config_device \<Rightarrow> mf_config_device" where
  "overlay_device ov base = base\<lparr>
     dv_name := over_str MF_DEV_NAME_SIZE (dv_name ov) (dv_name base),
     dv_kind := over_str MF_DEV_KIND_SIZE (dv_kind ov) (dv_kind base),
     dv_driver := over_str MF_DEV_DRIVER_SIZE (dv_driver ov) (dv_driver base),
     dv_bus := over_str MF_DEV_BUS_SIZE (dv_bus ov) (dv_bus base),
     dv_enabled := (if dv_enabled ov then True else dv_enabled base),
     dv_poll_interval_s := (if 0 < dv_poll_interval_s ov then dv_poll_interval_s ov else dv_poll_interval_s base),
     dv_capture_interval_s := dv_capture_interval_s ov,
     dv_active := dv_active ov,
     dv_usb := (dv_usb base)\<lparr>
       cu_path := over_str MF_DEV_USB_PATH_SIZE (cu_path (dv_usb ov)) (cu_path (dv_usb base)),
       cu_serial_id := over_str MF_DEV_USB_SERIAL_SIZE (cu_serial_id (dv_usb ov)) (cu_serial_id (dv_usb base)),
       cu_by_id := over_str MF_DEV_USB_BYID_SIZE (cu_by_id (dv_usb ov)) (cu_by_id (dv_usb base)),
       cu_baud := (if 0 < cu_baud (dv_usb ov) then cu_baud (dv_usb ov) else cu_baud (dv_usb base)),
       cu_addr := (if 0 < cu_addr (dv_usb ov) then cu_addr (dv_usb ov) else cu_addr (dv_usb base)),
       cu_auto_port := (if cu_auto_port (dv_usb ov) then True else cu_auto_port (dv_usb base))\<rparr>,
     dv_modbus := (dv_modbus base)\<lparr>
       cm_ip := over_str MF_DEV_MODBUS_IP_SIZE (cm_ip (dv_modbus ov)) (cm_ip (dv_modbus base)),
       cm_port := (if cm_port (dv_modbus ov) \<noteq> -1 then cm_port (dv_modbus ov) else cm_port (dv_modbus base)),
       cm_unit_id := (if cm_unit_id (dv_modbus ov) \<noteq> -1 then cm_unit_id (dv_modbus ov) else cm_unit_id (dv_modbus base)),
       cm_mac := over_str MF_DEV_MODBUS_MAC_SIZE (cm_mac (dv_modbus ov)) (cm_mac (dv_modbus base)),
       cm_unit_device_id := (if cm_unit_device_id (dv_modbus ov) \<noteq> -1 then cm_unit_device_id (dv_modbus ov)
                             else cm_unit_device_id (dv_modbus base)),
       cm_auto_net := (if cm_auto_net (dv_modbus ov) then True else cm_auto_net (dv_modbus base))\<rparr>\<rparr>"

definition overlay_one :: "mf_config_device list \<Rightarrow> mf_config_device \<Rightarrow> mf_config_device list" where
  "overlay_one ds ov =
     (case find_device_by_uuid ds (dv_uuid ov) of
        None \<Rightarrow> ds | Some i \<Rightarrow> ds[i := overlay_device ov (ds ! i)])"

definition mf_config_overlay_merge :: "mf_daemon_config \<Rightarrow> mf_daemon_config \<Rightarrow> mf_daemon_config" where
  "mf_config_overlay_merge base ov = base\<lparr>dc_devices := foldl overlay_one (dc_devices base) (dc_devices ov)\<rparr>"

definition overlay_entry :: "mf_config_device \<Rightarrow> json" where
  "overlay_entry d = JObject ([(''uuid'', JString (dv_uuid d))] @
     (if dv_name d \<noteq> [] then [(''name'', JString (dv_name d))] else []) @
     (if 0 < dv_poll_interval_s d then [(''poll_interval_s'', JNumber (dv_poll_interval_s d))] else []) @
     [(''capture_interval_s'', JNumber (dv_capture_interval_s d)), (''active'', JBool (dv_active d))])"

text \<open>The document \<open>mf_config_save_overlay\<close> writes.\<close>

definition mf_config_save_overlay :: "mf_daemon_config \<Rightarrow> json" where
  "mf_config_save_overlay cfg = JObject [(''devices'',
     JArray (map overlay_entry (filter (\<lambda>d. dv_uuid d \<noteq> []) (dc_devices cfg))))]"

definition keep_base_if_absent ::
  "mf_config_device list \<Rightarrow> json list \<Rightarrow> mf_config_device \<Rightarrow> mf_config_device" where
  "keep_base_if_absent base devs ov =
     (case (find_device_by_uuid base (dv_uuid ov),
            find (\<lambda>it. get_item_ci it ''uuid'' = Some (JString (dv_uuid ov))) devs) of
        (Some i, Some obj) \<Rightarrow>
          (let ov = (if get_item_ci obj ''active'' = None then ov\<lparr>dv_active := dv_active (base ! i)\<rparr> else ov)
           in if get_item_ci obj ''capture_interval_s'' = None
              then ov\<lparr>dv_capture_interval_s := dv_capture_interval_s (base ! i)\<rparr> else ov)
      | _ \<Rightarrow> ov)"

text \<open>The overlay's parsed document is given; a missing file leaves the configuration, a malformed one is -1.\<close>

definition mf_config_load_overlay :: "(json \<Rightarrow> bool) \<Rightarrow> mf_daemon_config \<Rightarrow> json \<Rightarrow> mf_daemon_config" where
  "mf_config_load_overlay fits cfg rt =
     (let ov = mf_config_apply_json fits mf_config_defaults rt;
          devs = (case get_item_ci rt ''devices'' of Some (JArray js) \<Rightarrow> js | _ \<Rightarrow> [])
      in mf_config_overlay_merge cfg
           (ov\<lparr>dc_devices := map (keep_base_if_absent (dc_devices cfg) devs) (dc_devices ov)\<rparr>))"

lemma find_device_Some:
  assumes "distinct (map dv_uuid ds)" "i < length ds"
  shows "find_device_by_uuid ds (dv_uuid (ds ! i)) = Some i"
proof -
  have "find (\<lambda>k. dv_uuid (ds ! k) = dv_uuid (ds ! i)) [0..<length ds] = Some i"
    unfolding find_Some_iff
    using assms by (intro exI [of _ i]) (auto simp: distinct_conv_nth)
  then show ?thesis by (simp add: find_device_by_uuid_def)
qed

lemma find_device_None: "u \<notin> dv_uuid ` set ds \<Longrightarrow> find_device_by_uuid ds u = None"
  by (auto simp: find_device_by_uuid_def find_None_iff)

lemma overlay_device_uuid [simp]: "dv_uuid (overlay_device o1 d) = dv_uuid d"
  by (simp add: overlay_device_def)

lemma overlay_one_uuids [simp]: "map dv_uuid (overlay_one ds o1) = map dv_uuid ds"
proof (cases "find_device_by_uuid ds (dv_uuid o1)")
  case (Some i)
  then have "i < length ds" by (auto simp: find_device_by_uuid_def find_Some_iff)
  then show ?thesis using Some by (simp add: overlay_one_def map_update list_update_same_conv)
qed (simp add: overlay_one_def)

lemma overlay_one_nth:
  assumes "distinct (map dv_uuid ds)" "i < length ds"
  shows "overlay_one ds o1 ! i = (if dv_uuid o1 = dv_uuid (ds ! i) then overlay_device o1 (ds ! i) else ds ! i)"
proof (cases "dv_uuid o1 = dv_uuid (ds ! i)")
  case True
  then show ?thesis using find_device_Some [OF assms] assms(2) by (simp add: overlay_one_def)
next
  case False
  then show ?thesis
    by (auto simp: overlay_one_def find_device_by_uuid_def find_Some_iff nth_list_update split: option.splits)
qed

lemma length_overlay_one [simp]: "length (overlay_one ds o1) = length ds"
  using overlay_one_uuids [of ds o1] by (metis length_map)

lemma overlay_fold:
  assumes "distinct (map dv_uuid ds)" "i < length ds" "distinct (map dv_uuid ovs)"
  shows "map dv_uuid (foldl overlay_one ds ovs) = map dv_uuid ds \<and>
    foldl overlay_one ds ovs ! i = (case find (\<lambda>o1. dv_uuid o1 = dv_uuid (ds ! i)) ovs of
       None \<Rightarrow> ds ! i | Some o1 \<Rightarrow> overlay_device o1 (ds ! i))"
  using assms
proof (induction ovs arbitrary: ds)
  case (Cons o1 ovs)
  let ?d = "overlay_one ds o1"
  have d: "distinct (map dv_uuid ?d)" "i < length ?d" "distinct (map dv_uuid ovs)"
    using Cons.prems by simp_all
  have u: "dv_uuid (?d ! i) = dv_uuid (ds ! i)"
    using overlay_one_uuids [of ds o1] Cons.prems(2) by (metis length_overlay_one nth_map)
  note IH = Cons.IH [OF d]
  show ?case
  proof (cases "dv_uuid o1 = dv_uuid (ds ! i)")
    case True
    then have "find (\<lambda>o2. dv_uuid o2 = dv_uuid (ds ! i)) ovs = None"
      using Cons.prems(3) unfolding find_None_iff by (force simp: image_iff)
    then show ?thesis using IH True u overlay_one_nth [OF Cons.prems(1,2), of o1] by simp
  next
    case False
    then show ?thesis using IH u overlay_one_nth [OF Cons.prems(1,2), of o1] by (simp split: option.split)
  qed
qed simp

text \<open>What a saved overlay entry is read back as.\<close>

definition overlay_view :: "mf_config_device \<Rightarrow> mf_config_device" where
  "overlay_view c = device_zero\<lparr>dv_uuid := dv_uuid c, dv_name := dv_name c, dv_active := dv_active c,
     dv_poll_interval_s := (if 0 < dv_poll_interval_s c then dv_poll_interval_s c else 0),
     dv_capture_interval_s := dv_capture_interval_s c, dv_retention_days := -1\<rparr>"

lemma overlay_entry_items:
  "get_item_ci (overlay_entry c) ''uuid'' = Some (JString (dv_uuid c))"
  "get_item_ci (overlay_entry c) ''name'' = (if dv_name c \<noteq> [] then Some (JString (dv_name c)) else None)"
  "get_item_ci (overlay_entry c) ''poll_interval_s'' =
     (if 0 < dv_poll_interval_s c then Some (JNumber (dv_poll_interval_s c)) else None)"
  "get_item_ci (overlay_entry c) ''capture_interval_s'' = Some (JNumber (dv_capture_interval_s c))"
  "get_item_ci (overlay_entry c) ''active'' = Some (JBool (dv_active c))"
  "k \<in> set [''kind'', ''driver'', ''bus'', ''enabled'', ''retention_days'', ''usb'', ''ble'', ''modbus''] \<Longrightarrow>
     get_item_ci (overlay_entry c) k = None"
  "extra_members (overlay_entry c) = []"
  by (auto simp: overlay_entry_def extra_members_def known_keys_def)

lemma overlay_entry_read:
  assumes "device_ok fits c"
  shows "apply_device fits (overlay_entry c) = Some (overlay_view c)"
proof -
  have "is_object (overlay_entry c)" by (simp add: overlay_entry_def)
  moreover have "c_copy MF_DEV_UUID_SIZE (dv_uuid c) = dv_uuid c" "c_copy MF_DEV_NAME_SIZE (dv_name c) = dv_name c"
    "dv_uuid c \<noteq> []"
    using assms by (simp_all add: device_ok_def text_fits_def)
  ultimately show ?thesis
    by (simp add: apply_device_def Let_def overlay_entry_items overlay_view_def device_zero_def setters)
qed

lemma keep_base_saved: "keep_base_if_absent base (map overlay_entry cs) ov = ov"
proof -
  have "get_item_ci obj ''active'' \<noteq> None \<and> get_item_ci obj ''capture_interval_s'' \<noteq> None"
    if "find P (map overlay_entry cs) = Some obj" for P obj
  proof -
    have "obj \<in> set (map overlay_entry cs)" using that by (metis find_Some_iff nth_mem)
    then show ?thesis by (auto simp: overlay_entry_items)
  qed
  then show ?thesis by (fastforce simp: keep_base_if_absent_def Let_def split: option.splits)
qed

lemma load_saved_overlay:
  assumes "config_ok fits cfg"
  shows "mf_config_load_overlay fits base (mf_config_save_overlay cfg) =
    base\<lparr>dc_devices := foldl overlay_one (dc_devices base) (map overlay_view (dc_devices cfg))\<rparr>"
proof -
  have ok: "list_all (device_ok fits) (dc_devices cfg)" "length (dc_devices cfg) \<le> MF_MAX_DEVICES"
    using assms by (simp_all add: config_ok_def)
  then have all: "filter (\<lambda>d. dv_uuid d \<noteq> []) (dc_devices cfg) = dc_devices cfg"
    by (auto simp: filter_id_conv list_all_iff device_ok_def)
  have "take_devices (apply_device fits) n (map overlay_entry ds) = map overlay_view ds"
    if "list_all (device_ok fits) ds" "length ds \<le> n" for ds n
    using that by (induction ds arbitrary: n) (simp_all add: overlay_entry_read)
  then have devs: "dc_devices (mf_config_apply_json fits mf_config_defaults (mf_config_save_overlay cfg)) =
      map overlay_view (dc_devices cfg)"
    using ok by (simp add: mf_config_apply_json_def mf_config_save_overlay_def all Let_def setters)
  have "get_item_ci (mf_config_save_overlay cfg) ''devices'' = Some (JArray (map overlay_entry (dc_devices cfg)))"
    by (simp add: mf_config_save_overlay_def all)
  then show ?thesis
    by (simp add: mf_config_load_overlay_def mf_config_overlay_merge_def Let_def devs keep_base_saved comp_def)
qed

text \<open>
  C28: Settings kept in an overlay come back: loading the overlay that was saved from one configuration
  into another keeps that one's devices and their order, gives each device both have (by uuid)
  the saved name, poll interval, capture interval and activity, and leaves every other device
  alone. The only other change is a flaw: an entry without a modbus object reads as port, unit
  and device id 0, not as the -1 that means absent, so these three numbers of the base are lost.
\<close>

theorem overlay_roundtrip:
  assumes "config_ok fits cfg" and "distinct (map dv_uuid (dc_devices cfg))"
    and "config_ok fits base" "distinct (map dv_uuid (dc_devices base))" and "i < length (dc_devices base)"
  defines "d \<equiv> dc_devices base ! i"
    and "ds \<equiv> dc_devices (mf_config_load_overlay fits base (mf_config_save_overlay cfg))"
  shows "map dv_uuid ds = map dv_uuid (dc_devices base) \<and>
    ds ! i = (case find (\<lambda>c. dv_uuid c = dv_uuid d) (dc_devices cfg) of
        None \<Rightarrow> d
      | Some c \<Rightarrow> d\<lparr>dv_name := (if dv_name c = [] then dv_name d else dv_name c),
            dv_poll_interval_s := (if 0 < dv_poll_interval_s c then dv_poll_interval_s c else dv_poll_interval_s d),
            dv_capture_interval_s := dv_capture_interval_s c, dv_active := dv_active c,
            dv_modbus := (dv_modbus d)\<lparr>cm_port := 0, cm_unit_id := 0, cm_unit_device_id := 0\<rparr>\<rparr>)"
proof -
  have "distinct (map dv_uuid (map overlay_view (dc_devices cfg)))"
    using assms(2) by (simp add: comp_def overlay_view_def)
  note fold = overlay_fold [OF assms(4,5) this]
  have pick: "find (\<lambda>o1. dv_uuid o1 = u) (map overlay_view cs) = map_option overlay_view (find (\<lambda>c. dv_uuid c = u) cs)" for u cs
    by (induction cs) (simp_all add: overlay_view_def)
  have ds: "ds = foldl overlay_one (dc_devices base) (map overlay_view (dc_devices cfg))"
    by (simp add: ds_def load_saved_overlay [OF assms(1)])
  have one: "overlay_device (overlay_view c) d = d\<lparr>dv_name := (if dv_name c = [] then dv_name d else dv_name c),
            dv_poll_interval_s := (if 0 < dv_poll_interval_s c then dv_poll_interval_s c else dv_poll_interval_s d),
            dv_capture_interval_s := dv_capture_interval_s c, dv_active := dv_active c,
            dv_modbus := (dv_modbus d)\<lparr>cm_port := 0, cm_unit_id := 0, cm_unit_device_id := 0\<rparr>\<rparr>"
    if "device_ok fits c" for c
  proof -
    have "length (dv_name c) < MF_DEV_NAME_SIZE" using that by (simp add: device_ok_def text_fits_def)
    then show ?thesis
      by (cases d; cases "dv_usb d"; cases "dv_modbus d")
        (simp add: overlay_device_def overlay_view_def over_str_def device_zero_def usb_zero_def modbus_zero_def)
  qed
  have "device_ok fits c" if "find (\<lambda>c. dv_uuid c = dv_uuid d) (dc_devices cfg) = Some c" for c
    using that assms(1) by (metis config_ok_def find_Some_iff list_all_length)
  then show ?thesis
    using fold one by (auto simp: ds pick d_def [symmetric] split: option.splits)
qed

theorem overlay_roundtrip_witness:
  "let ds = dc_devices (mf_config_load_overlay (\<lambda>_. True) sample_config (mf_config_save_overlay
       (sample_config\<lparr>dc_devices := [sample_device\<lparr>dv_name := ''Barn''\<rparr>]\<rparr>)))
   in dv_name (ds ! 0) = ''Barn'' \<and> cm_ip (dv_modbus (ds ! 0)) = ''10.0.0.7'' \<and> cm_port (dv_modbus (ds ! 0)) = 0"
proof -
  let ?cfg = "sample_config\<lparr>dc_devices := [sample_device\<lparr>dv_name := ''Barn''\<rparr>]\<rparr>"
  have "config_ok (\<lambda>_. True) ?cfg"
    using sample_config_ok(1) by (simp add: config_ok_def sample_config_def device_ok_def text_fits_def config_sizes)
  moreover have "distinct (map dv_uuid (dc_devices ?cfg))" "distinct (map dv_uuid (dc_devices sample_config))"
    "0 < length (dc_devices sample_config)"
    by (simp_all add: sample_config_def)
  ultimately show ?thesis
    using overlay_roundtrip [of "\<lambda>_. True" ?cfg sample_config 0] sample_config_ok(1)
    by (simp add: sample_config_def sample_device_def Let_def device_zero_def modbus_zero_def)
qed

end
