(* ===== verification/CliAddr.thy ===== *)
theory CliAddr
  imports ConfigStore
begin

section \<open>The daemon's address (src/cli/cli_addr.c, cli_addr.h and the profiles of config.c)\<close>

text \<open>
  Where the client finds the daemon: the connection profiles of the client's configuration and the
  address parser that also reads the command line and the environment.
\<close>

definition CLI_HOST_MAX :: nat where "CLI_HOST_MAX = 128"

record cli_ctx =
  cx_host :: string
  cx_port :: int
  cx_timeout :: cdouble
  cx_raw :: int

text \<open>\<open>None\<close> is the code's -1; a null pointer is \<open>None\<close> too.\<close>

definition cli_split_host_port :: "string option \<Rightarrow> nat \<Rightarrow> (string \<times> int) option" where
  "cli_split_host_port inp host_cap =
     (case inp of
        None \<Rightarrow> None
      | Some s \<Rightarrow>
          if s = [] \<or> host_cap = 0 \<or> 256 \<le> length s then None
          else case split_last (CHR '':'') s of
            None \<Rightarrow> (let h = c_copy host_cap s
                     in Some (if h = [] then c_copy host_cap ''127.0.0.1'' else h, 5250))
          | Some (h, ps) \<Rightarrow>
              (let p = strtol10 ps in
               if p \<le> 0 \<or> 65535 < p then None
               else Some (c_copy host_cap (if h = [] then ''127.0.0.1'' else h), p)))"

text \<open>
  The flag, the environment's value and the loaded client configuration (\<open>None\<close>: it could not be
  loaded) in the order of precedence.
\<close>

definition given :: "string option \<Rightarrow> string option" where
  "given s = (if s = Some [] then None else s)"

definition address_source :: "string option \<Rightarrow> string option \<Rightarrow> mf_tui_config option \<Rightarrow> string option" where
  "address_source connect_flag env_val tui_cfg =
     (if given connect_flag \<noteq> None then connect_flag
      else if given env_val \<noteq> None then env_val
      else Option.bind tui_cfg (\<lambda>cfg. mf_tui_config_endpoint cfg None 160))"

definition cli_resolve_addr ::
  "string option \<Rightarrow> string option \<Rightarrow> mf_tui_config option \<Rightarrow> cdouble \<Rightarrow> int \<Rightarrow> cli_ctx option" where
  "cli_resolve_addr connect_flag env_val tui_cfg timeout raw =
     (let ctx = \<lparr>cx_host = [], cx_port = 5250, cx_timeout = (if 0 < timeout then timeout else 5), cx_raw = raw\<rparr>
      in case address_source connect_flag env_val tui_cfg of
           Some s \<Rightarrow> map_option (\<lambda>(h, p). ctx\<lparr>cx_host := h, cx_port := p\<rparr>)
                       (cli_split_host_port (Some s) CLI_HOST_MAX)
         | None \<Rightarrow> Some (ctx\<lparr>cx_host := ''127.0.0.1'', cx_port := 5250\<rparr>))"

subsection \<open>Client configurations\<close>

definition profile_ok :: "mf_conn_profile \<Rightarrow> bool" where
  "profile_ok p \<longleftrightarrow> pf_name p \<noteq> [] \<and> pf_host p \<noteq> [] \<and> text_fits MF_PROFILE_NAME_SIZE (pf_name p) \<and>
     text_fits MF_PROFILE_HOST_SIZE (pf_host p) \<and> 1 \<le> pf_port p \<and> pf_port p \<le> 65535"

definition tui_ok :: "mf_tui_config \<Rightarrow> bool" where
  "tui_ok c \<longleftrightarrow> length (tc_profiles c) \<le> MF_MAX_PROFILES \<and> list_all profile_ok (tc_profiles c) \<and>
     tc_default_profile c \<noteq> [] \<and> text_fits MF_PROFILE_NAME_SIZE (tc_default_profile c) \<and>
     tc_discharge_scale c \<in> {''auto'', ''battery'', ''inverter'', ''fixed''} \<and> 0 \<le> tc_discharge_scale_w c \<and>
     tc_load_source c \<in> {''inverters'', ''net''}"

lemma tui_profile_ok: "tui_profile j = Some p \<Longrightarrow> profile_ok p"
  by (auto simp: tui_profile_def profile_ok_def text_fits_def config_sizes c_copy_def
      split: if_splits option.splits json.splits)

lemma take_profiles_ok: "length (take_profiles n js) \<le> n \<and> list_all profile_ok (take_profiles n js)"
proof (induction n js rule: take_profiles.induct)
  case (2 n j js)
  then show ?case using tui_profile_ok [of j] by (cases "tui_profile j") auto
qed simp

lemma set_choice_in:
  "old \<in> set choices \<Longrightarrow> \<forall>c \<in> set choices. length c < 12 \<Longrightarrow> set_choice obj key choices old \<in> set choices"
  by (auto simp: set_choice_def split: option.splits json.splits)

lemma tui_apply_ok:
  assumes "tui_ok c"
  shows "tui_ok (mf_tui_config_apply_json c rt)"
proof -
  have scale: "set_choice rt ''discharge_scale'' [''auto'', ''battery'', ''inverter'', ''fixed''] (tc_discharge_scale c)
      \<in> set [''auto'', ''battery'', ''inverter'', ''fixed'']"
    by (rule set_choice_in) (use assms in \<open>auto simp: tui_ok_def\<close>)
  have src: "set_choice rt ''load_source'' [''inverters'', ''net''] (tc_load_source c) \<in> set [''inverters'', ''net'']"
    by (rule set_choice_in) (use assms in \<open>auto simp: tui_ok_def\<close>)
  have name: "(case get_item_ci rt ''default_profile'' of
        Some (JString s) \<Rightarrow> if s = [] then old else c_copy MF_PROFILE_NAME_SIZE s | _ \<Rightarrow> old) \<noteq> [] \<and>
      text_fits MF_PROFILE_NAME_SIZE (case get_item_ci rt ''default_profile'' of
        Some (JString s) \<Rightarrow> if s = [] then old else c_copy MF_PROFILE_NAME_SIZE s | _ \<Rightarrow> old)"
    if "old \<noteq> []" "text_fits MF_PROFILE_NAME_SIZE old" for old
    using that by (auto simp: c_copy_def text_fits_def config_sizes split: option.splits json.splits)
  have num: "0 \<le> set_num rt ''discharge_scale_w'' (\<lambda>x. 0 \<le> x) (tc_discharge_scale_w c)"
    using assms by (auto simp: set_num_def tui_ok_def split: option.splits json.splits)
  define c' where "c' = (case get_item_ci rt ''profiles'' of
      Some (JArray js) \<Rightarrow> c\<lparr>tc_profiles := take_profiles MF_MAX_PROFILES js\<rparr> | _ \<Rightarrow> c)"
  have c': "length (tc_profiles c') \<le> MF_MAX_PROFILES" "list_all profile_ok (tc_profiles c')"
      "tc_default_profile c' = tc_default_profile c" "tc_refresh_interval_s c' = tc_refresh_interval_s c"
      "tc_discharge_scale c' = tc_discharge_scale c" "tc_discharge_scale_w c' = tc_discharge_scale_w c"
      "tc_load_source c' = tc_load_source c"
    using assms take_profiles_ok [of MF_MAX_PROFILES]
    by (auto simp: c'_def tui_ok_def split: option.splits json.splits)
  have "tc_default_profile c' \<noteq> []" "text_fits MF_PROFILE_NAME_SIZE (tc_default_profile c')"
    using assms by (simp_all add: tui_ok_def c')
  note name = name [OF this]
  show ?thesis
  proof (cases "is_object rt")
    case True
    then show ?thesis
      using name num scale src
      unfolding mf_tui_config_apply_json_def c'_def [symmetric] Let_def
      by (simp add: tui_ok_def c')
  qed (simp add: mf_tui_config_apply_json_def assms)
qed

lemma tui_defaults_ok: "tui_ok mf_tui_config_defaults"
  by (simp add: tui_ok_def mf_tui_config_defaults_def profile_ok_def text_fits_def config_sizes)

text \<open>
  Whatever the client's configuration document contains, what is loaded from it is usable: at most
  16 profiles, each with a name, a host and a port from 1 to 65535, a default profile name, and
  meter settings that are among the documented choices.
\<close>

theorem tui_load_bounded: "tui_ok (mf_tui_config_apply_json mf_tui_config_defaults rt)"
  by (rule tui_apply_ok [OF tui_defaults_ok])

lemma profile_roundtrip:
  assumes "profile_ok p"
  shows "tui_profile (profile_to_json p) = Some p"
proof -
  have "valueint (of_int (pf_port p)) = pf_port p"
    using assms by (intro valueint_of_int) (simp_all add: profile_ok_def INT_MIN_def INT_MAX_def)
  then show ?thesis
    using assms by (cases p) (simp add: tui_profile_def profile_to_json_def int_number_def profile_ok_def text_fits_def)
qed

lemma take_profiles_all:
  "list_all profile_ok ps \<Longrightarrow> length ps \<le> n \<Longrightarrow> take_profiles n (map profile_to_json ps) = ps"
  by (induction ps arbitrary: n) (simp_all add: profile_roundtrip)

text \<open>
  Saving the client's configuration and loading the saved document gives the same configuration.
\<close>

theorem tui_roundtrip:
  assumes "tui_ok c"
  shows "mf_tui_config_apply_json mf_tui_config_defaults (mf_tui_config_serialize c) = c"
proof -
  have "take_profiles MF_MAX_PROFILES (map profile_to_json (tc_profiles c)) = tc_profiles c"
    using assms by (intro take_profiles_all) (simp_all add: tui_ok_def)
  moreover have "tc_discharge_scale c \<in> {''auto'', ''battery'', ''inverter'', ''fixed''}"
    "tc_load_source c \<in> {''inverters'', ''net''}" "tc_default_profile c \<noteq> []"
    "length (tc_default_profile c) < MF_PROFILE_NAME_SIZE" "0 \<le> tc_discharge_scale_w c"
    using assms by (simp_all add: tui_ok_def text_fits_def)
  ultimately show ?thesis
    by (cases c) (auto simp: mf_tui_config_apply_json_def mf_tui_config_serialize_def Let_def
        string_or_null_def setters)
qed

theorem tui_roundtrip_witness:
  "mf_tui_config_apply_json mf_tui_config_defaults (mf_tui_config_serialize mf_tui_config_defaults)
     = mf_tui_config_defaults"
  by (rule tui_roundtrip [OF tui_defaults_ok])

subsection \<open>Addresses\<close>

lemma split_host_port:
  assumes "h \<noteq> []" "length h < host_cap" "length h \<le> 127" "1 \<le> p" "p \<le> 65535"
  shows "cli_split_host_port (Some (h @ '':'' @ dec_int p)) host_cap = Some (h, p)"
proof -
  have p: "dec_int p = nat_digits (nat p)" "nat p < 10 ^ 5" "int (nat p) = p"
    using assms by (simp_all add: dec_int_def)
  have "CHR '':'' \<notin> set (nat_digits (nat p))"
    using nat_digits_dec is_digit_not_space by blast
  then have "split_last (CHR '':'') (h @ CHR '':'' # nat_digits (nat p)) = Some (h, nat_digits (nat p))"
    by (rule split_last_append)
  moreover have "length (nat_digits (nat p)) \<le> 5" using length_nat_digits [OF p(2)] by simp
  moreover have "strtol10 (nat_digits (nat p)) = p"
    using strtol10_nat_digits [of "nat p"] assms p(3) by (simp add: LONG_MAX_def)
  ultimately show ?thesis
    using assms by (auto simp: cli_split_host_port_def p(1))
qed

lemma endpoint_profile:
  "mf_tui_config_endpoint cfg name cap = Some ep \<Longrightarrow>
     \<exists>p \<in> set (tc_profiles cfg). ep = c_copy cap (take 127 (pf_host p) @ '':'' @ dec_int (pf_port p)) \<and>
        (\<forall>n. name = Some n \<and> n \<noteq> [] \<longrightarrow> pf_name p = n)"
  by (fastforce simp: mf_tui_config_endpoint_def Let_def find_profile_def find_Some_iff
      split: if_splits option.splits list.splits)

lemma endpoint_splits:
  assumes "tui_ok cfg" and "mf_tui_config_endpoint cfg name 160 = Some ep"
  shows "\<exists>p \<in> set (tc_profiles cfg). cli_split_host_port (Some ep) CLI_HOST_MAX = Some (pf_host p, pf_port p) \<and>
     (\<forall>n. name = Some n \<and> n \<noteq> [] \<longrightarrow> pf_name p = n)"
proof -
  obtain p where p: "p \<in> set (tc_profiles cfg)"
      "ep = c_copy 160 (take 127 (pf_host p) @ '':'' @ dec_int (pf_port p))"
      "\<forall>n. name = Some n \<and> n \<noteq> [] \<longrightarrow> pf_name p = n"
    using endpoint_profile [OF assms(2)] by blast
  then have ok: "profile_ok p" using assms(1) by (auto simp: tui_ok_def list_all_iff)
  then have h: "length (pf_host p) \<le> 127" "pf_host p \<noteq> []" "1 \<le> pf_port p" "pf_port p \<le> 65535"
    by (simp_all add: profile_ok_def text_fits_def config_sizes)
  have "length (dec_int (pf_port p)) \<le> 5"
    using length_nat_digits [of "nat (pf_port p)" 5] h by (simp add: dec_int_def)
  then have "ep = pf_host p @ '':'' @ dec_int (pf_port p)"
    using p(2) h(1) by simp
  then show ?thesis
    using p(1,3) split_host_port [of "pf_host p" CLI_HOST_MAX "pf_port p"] h by (auto simp: CLI_HOST_MAX_def)
qed

text \<open>
  A profile leads to its daemon: the endpoint of any loaded client configuration, printed for a
  named profile or for the default one, is parsed back to exactly the host and the port of a
  profile of that configuration, and of the named one when a name was given.
\<close>

theorem profile_endpoint_resolves:
  assumes "tui_ok cfg" and "mf_tui_config_endpoint cfg name 160 = Some ep"
  shows "\<exists>p \<in> set (tc_profiles cfg). cli_split_host_port (Some ep) CLI_HOST_MAX = Some (pf_host p, pf_port p) \<and>
     (\<forall>n. name = Some n \<and> n \<noteq> [] \<longrightarrow> pf_name p = n)"
  by (rule endpoint_splits [OF assms])

theorem profile_endpoint_resolves_witness:
  "cli_split_host_port (Some ''127.0.0.1:5250'') CLI_HOST_MAX = Some (''127.0.0.1'', 5250)"
proof -
  have port: "nat_digits 5250 = ''5250''" by (simp add: nat_digits.simps)
  have "mf_tui_config_endpoint mf_tui_config_defaults (Some ''local'') 160 = Some ''127.0.0.1:5250''"
    by (simp add: mf_tui_config_endpoint_def mf_tui_config_defaults_def find_profile_def dec_int_def port c_copy_def)
  from profile_endpoint_resolves [OF tui_defaults_ok this] show ?thesis
    by (simp add: mf_tui_config_defaults_def)
qed

lemma split_sound:
  "cli_split_host_port s cap = Some (h, p) \<Longrightarrow> 1 < cap \<Longrightarrow> h \<noteq> [] \<and> length h < cap \<and> 1 \<le> p \<and> p \<le> 65535"
  by (auto simp: cli_split_host_port_def Let_def c_copy_def split: option.splits if_splits prod.splits)

text \<open>
  However the address is given (flag, environment, profile or not at all), a resolved context has a
  host that is not empty and fits its 128 bytes, a port from 1 to 65535 and a positive timeout;
  and without flag and environment resolution never fails once the configuration could be loaded.
\<close>

theorem cli_resolve_sound:
  assumes "\<And>cfg. tui = Some cfg \<Longrightarrow> tui_ok cfg"
  shows "(\<forall>ctx. cli_resolve_addr flag env tui timeout raw = Some ctx \<longrightarrow>
      cx_host ctx \<noteq> [] \<and> length (cx_host ctx) < CLI_HOST_MAX \<and> 1 \<le> cx_port ctx \<and> cx_port ctx \<le> 65535 \<and>
      0 < cx_timeout ctx) \<and>
    (flag = None \<and> env = None \<longrightarrow> cli_resolve_addr flag env tui timeout raw \<noteq> None)"
proof
  have cap: "1 < CLI_HOST_MAX" by (simp add: CLI_HOST_MAX_def)
  show "\<forall>ctx. cli_resolve_addr flag env tui timeout raw = Some ctx \<longrightarrow>
      cx_host ctx \<noteq> [] \<and> length (cx_host ctx) < CLI_HOST_MAX \<and> 1 \<le> cx_port ctx \<and> cx_port ctx \<le> 65535 \<and>
      0 < cx_timeout ctx"
  proof (cases "address_source flag env tui")
    case (Some s)
    then show ?thesis using split_sound [of "Some s", OF _ cap] by (auto simp: cli_resolve_addr_def Let_def)
  qed (simp add: cli_resolve_addr_def Let_def CLI_HOST_MAX_def)
  show "flag = None \<and> env = None \<longrightarrow> cli_resolve_addr flag env tui timeout raw \<noteq> None"
  proof
    assume none: "flag = None \<and> env = None"
    show "cli_resolve_addr flag env tui timeout raw \<noteq> None"
    proof (cases "address_source flag env tui")
      case (Some ep)
      then obtain cfg where cfg: "tui = Some cfg" "mf_tui_config_endpoint cfg None 160 = Some ep"
        using none by (cases tui) (auto simp: address_source_def given_def)
      show ?thesis
        using endpoint_splits [OF assms [OF cfg(1)] cfg(2)] Some by (auto simp: cli_resolve_addr_def Let_def)
    qed (simp add: cli_resolve_addr_def Let_def)
  qed
qed

theorem cli_resolve_sound_witness:
  "cx_port (the (cli_resolve_addr None None (Some mf_tui_config_defaults) 0 0)) \<le> 65535 \<and>
   cli_resolve_addr None None (Some mf_tui_config_defaults) 0 0 \<noteq> None"
proof -
  have "tui_ok cfg" if "Some mf_tui_config_defaults = Some cfg" for cfg
    using that tui_defaults_ok by simp
  from cli_resolve_sound [of "Some mf_tui_config_defaults" None None 0 0, OF this]
  show ?thesis by auto
qed

text \<open>
  An IPv6 literal without a port is misread: its last group is taken for the port.
\<close>

lemma ipv6_literal_misread: "cli_split_host_port (Some ''fe80::1'') CLI_HOST_MAX = Some (''fe80:'', 1)"
  by code_simp

end
