(* ===== verification/Loader.thy ===== *)
theory Loader
  imports Json
begin

section \<open>Plugin tables and the registry (src/include/mf_plugin.h, src/plugin/loader.c)\<close>

text \<open>
  A plugin describes each of its module types by a table of functions. The registry copies the
  tables of the libraries found in the plugin directory, and finds one by kind and driver. What
  \<open>dlopen\<close> makes of a file is a parameter (\<open>lib_image\<close>); the directory is the list of its entries.
\<close>

datatype plugin_fn =
    FnOpen | FnClose | FnFd | FnSelectMask | FnPrepareFds | FnStep | FnCaps | FnLastError
  | FnGetReading | FnGetSettings | FnPutSettings | FnAction

text \<open>
  \<open>po_has\<close> tells which function pointers are set; \<open>po_describe\<close> is the parsed text of \<open>describe ()\<close>,
  \<open>None\<close> without the function, without a text or when the text is not JSON.
\<close>

record plugin_ops =
  po_abi :: u32
  po_size :: u32
  po_kind :: "string option"
  po_driver :: "string option"
  po_has :: "plugin_fn \<Rightarrow> bool"
  po_describe :: "json option"

definition MF_PLUGIN_ABI :: u32 where "MF_PLUGIN_ABI = 1"

text \<open>Two 32-bit numbers and 21 pointers come before \<open>describe\<close>, the last field (64-bit pointers).\<close>

definition MF_PLUGIN_OPS_MIN_SIZE :: u32 where "MF_PLUGIN_OPS_MIN_SIZE = 176"
definition MF_PLUGIN_OPS_SIZE :: u32 where "MF_PLUGIN_OPS_SIZE = 184"

definition MF_MAX_PLUGIN_LIBS :: nat where "MF_MAX_PLUGIN_LIBS = 16"
definition MF_MAX_PLUGIN_OPS :: nat where "MF_MAX_PLUGIN_OPS = 32"

record plugin_registry =
  rg_libs :: "string list"
  rg_ops :: "plugin_ops list"

datatype lib_image = Dlopen_fails | No_entry_point | Entries "plugin_ops list"

definition registry_empty :: plugin_registry where
  "registry_empty = \<lparr>rg_libs = [], rg_ops = []\<rparr>"

definition ends_with :: "string \<Rightarrow> string \<Rightarrow> bool" where
  "ends_with s suf \<longleftrightarrow> length suf \<le> length s \<and> drop (length s - length suf) s = suf"

definition entry_refused :: "u32 \<Rightarrow> plugin_ops \<Rightarrow> bool" where
  "entry_refused stride e \<longleftrightarrow>
     po_abi e \<noteq> MF_PLUGIN_ABI \<or> po_size e < MF_PLUGIN_OPS_MIN_SIZE \<or> po_size e \<noteq> stride"

text \<open>A shorter table is copied into a zeroed slot, so its missing last field reads as null.\<close>

definition copy_ops :: "plugin_ops \<Rightarrow> plugin_ops" where
  "copy_ops e = (if po_size e < MF_PLUGIN_OPS_SIZE then e\<lparr>po_describe := None\<rparr> else e)"

definition load_lib :: "string \<Rightarrow> lib_image \<Rightarrow> plugin_registry \<Rightarrow> plugin_registry" where
  "load_lib path im reg =
     (case im of
        Entries es \<Rightarrow>
          if es = [] then reg
          else if list_ex (entry_refused (po_size (hd es))) es then reg
          else if MF_MAX_PLUGIN_OPS < length (rg_ops reg) + length es then reg
          else \<lparr>rg_libs = rg_libs reg @ [path], rg_ops = rg_ops reg @ map copy_ops es\<rparr>
      | _ \<Rightarrow> reg)"

fun load_files :: "string \<Rightarrow> (string \<Rightarrow> lib_image) \<Rightarrow> string list \<Rightarrow> plugin_registry \<Rightarrow> plugin_registry" where
  "load_files dir im [] reg = reg"
| "load_files dir im (f # fs) reg =
     (if f \<noteq> [] \<and> hd f = CHR ''.'' then load_files dir im fs reg
      else if take 6 f \<noteq> ''libmf_'' then load_files dir im fs reg
      else if \<not> ends_with f ''.so'' then load_files dir im fs reg
      else if MF_MAX_PLUGIN_LIBS \<le> length (rg_libs reg) then reg
      else let path = dir @ ''/'' @ f in
        if 256 \<le> length path then load_files dir im fs reg
        else load_files dir im fs (load_lib path (im path) reg))"

text \<open>No directory gives an empty registry, one that cannot be opened gives -1 and an empty registry.\<close>

definition mf_plugins_load_dir ::
  "string \<Rightarrow> string list option \<Rightarrow> (string \<Rightarrow> lib_image) \<Rightarrow> int \<times> plugin_registry" where
  "mf_plugins_load_dir dir files im =
     (if dir = [] then (0, registry_empty)
      else case files of None \<Rightarrow> (-1, registry_empty)
        | Some fs \<Rightarrow> (0, load_files dir im fs registry_empty))"

definition mf_plugins_unload :: "plugin_registry \<Rightarrow> plugin_registry" where
  "mf_plugins_unload reg = registry_empty"

text \<open>A table without a kind or a driver matches every one.\<close>

definition ops_match :: "string \<Rightarrow> string \<Rightarrow> plugin_ops \<Rightarrow> bool" where
  "ops_match kind driver e \<longleftrightarrow>
     (case po_kind e of Some k \<Rightarrow> k = kind | None \<Rightarrow> True) \<and>
     (case po_driver e of Some d \<Rightarrow> d = driver | None \<Rightarrow> True)"

definition mf_plugins_find :: "plugin_registry option \<Rightarrow> string \<Rightarrow> string \<Rightarrow> plugin_ops option" where
  "mf_plugins_find reg kind driver =
     (case reg of None \<Rightarrow> None | Some r \<Rightarrow> find (ops_match kind driver) (rg_ops r))"

definition mf_plugins_add_builtin :: "plugin_registry \<Rightarrow> plugin_ops \<Rightarrow> int \<times> plugin_registry" where
  "mf_plugins_add_builtin reg e =
     (case (po_kind e, po_driver e) of
        (Some k, Some d) \<Rightarrow>
          if MF_MAX_PLUGIN_OPS \<le> length (rg_ops reg) then (-1, reg)
          else if mf_plugins_find (Some reg) k d \<noteq> None then (-1, reg)
          else (0, reg\<lparr>rg_ops := rg_ops reg @ [e]\<rparr>)
      | _ \<Rightarrow> (-1, reg))"

subsection \<open>What a loaded registry holds\<close>

definition ops_ok :: "plugin_ops \<Rightarrow> bool" where
  "ops_ok e \<longleftrightarrow> po_abi e = MF_PLUGIN_ABI \<and> MF_PLUGIN_OPS_MIN_SIZE \<le> po_size e \<and>
     (po_size e < MF_PLUGIN_OPS_SIZE \<longrightarrow> po_describe e = None)"

definition registry_ok :: "plugin_registry \<Rightarrow> bool" where
  "registry_ok reg \<longleftrightarrow> length (rg_libs reg) \<le> MF_MAX_PLUGIN_LIBS \<and> length (rg_ops reg) \<le> MF_MAX_PLUGIN_OPS \<and>
     list_all ops_ok (rg_ops reg)"

lemma copy_ops_ok: "\<not> entry_refused stride e \<Longrightarrow> ops_ok (copy_ops e)"
  by (auto simp: entry_refused_def ops_ok_def copy_ops_def not_less)

lemma load_lib_ok:
  "registry_ok reg \<Longrightarrow> length (rg_libs reg) < MF_MAX_PLUGIN_LIBS \<Longrightarrow> registry_ok (load_lib path im reg)"
  by (auto simp: load_lib_def registry_ok_def list_all_iff list_ex_iff intro: copy_ops_ok
      split: lib_image.splits)

lemma load_files_ok: "registry_ok reg \<Longrightarrow> registry_ok (load_files dir im fs reg)"
  by (induction dir im fs reg rule: load_files.induct) (simp_all add: Let_def load_lib_ok)

lemma registry_empty_ok: "registry_ok registry_empty"
  by (simp add: registry_ok_def registry_empty_def)

lemma find_append:
  "find P (xs @ ys) = (case find P xs of None \<Rightarrow> find P ys | Some x \<Rightarrow> Some x)"
  by (induction xs) auto

text \<open>
  C40: Whatever files lie in the plugin directory, loading it gives a registry within its fixed arrays
  in which every table has the daemon's ABI and is long enough for the fields every plugin must
  have, with \<open>describe\<close> only where the plugin's table had it. Registering a built-in module keeps
  that for a table of its own ABI, makes the module found under its kind and driver, and takes
  away no module that was found before.
\<close>

theorem plugin_registry_sound:
  "registry_ok (snd (mf_plugins_load_dir dir files im)) \<and>
   (registry_ok reg \<and> ops_ok e \<and> mf_plugins_add_builtin reg e = (0, reg') \<longrightarrow>
      registry_ok reg' \<and>
      mf_plugins_find (Some reg') (the (po_kind e)) (the (po_driver e)) = Some e \<and>
      (\<forall>k d p. mf_plugins_find (Some reg) k d = Some p \<longrightarrow> mf_plugins_find (Some reg') k d = Some p))"
proof
  show "registry_ok (snd (mf_plugins_load_dir dir files im))"
    by (auto simp: mf_plugins_load_dir_def registry_empty_ok load_files_ok split: option.splits)
  show "registry_ok reg \<and> ops_ok e \<and> mf_plugins_add_builtin reg e = (0, reg') \<longrightarrow>
      registry_ok reg' \<and> mf_plugins_find (Some reg') (the (po_kind e)) (the (po_driver e)) = Some e \<and>
      (\<forall>k d p. mf_plugins_find (Some reg) k d = Some p \<longrightarrow> mf_plugins_find (Some reg') k d = Some p)"
    by (auto simp: mf_plugins_add_builtin_def registry_ok_def mf_plugins_find_def find_append ops_match_def
        split: option.splits if_splits)
qed

definition sample_ops :: "string \<Rightarrow> string \<Rightarrow> plugin_ops" where
  "sample_ops kind driver = \<lparr>po_abi = 1, po_size = 184, po_kind = Some kind, po_driver = Some driver,
     po_has = (\<lambda>_. True), po_describe = None\<rparr>"

theorem plugin_registry_sound_witness:
  "mf_plugins_find (Some \<lparr>rg_libs = [], rg_ops = [sample_ops ''battery'' ''phantom'']\<rparr>) ''battery'' ''phantom''
     = Some (sample_ops ''battery'' ''phantom'')"
proof -
  have "registry_ok registry_empty \<and> ops_ok (sample_ops ''battery'' ''phantom'') \<and>
      mf_plugins_add_builtin registry_empty (sample_ops ''battery'' ''phantom'')
        = (0, \<lparr>rg_libs = [], rg_ops = [sample_ops ''battery'' ''phantom'']\<rparr>)"
    by (simp add: registry_ok_def registry_empty_def ops_ok_def sample_ops_def MF_PLUGIN_ABI_def
        MF_PLUGIN_OPS_MIN_SIZE_def MF_PLUGIN_OPS_SIZE_def mf_plugins_add_builtin_def MF_MAX_PLUGIN_OPS_def
        mf_plugins_find_def)
  with plugin_registry_sound [of "''''" None "\<lambda>_. Dlopen_fails" registry_empty "sample_ops ''battery'' ''phantom''"]
  show ?thesis by (simp add: sample_ops_def)
qed

end
