(* ===== verification/DeviceTable.thy ===== *)
theory DeviceTable
  imports Config Loader Phantom
begin

section \<open>The device table (src/device/device.c, device.h)\<close>

text \<open>
  The daemon's 32 device slots and the queue of devices waiting for a slot's old owner to stop. A
  plugin's context is a number, every opened one a new number. What the plugin answers to a call
  (\<open>answers\<close>) is an argument of the operation that makes it. Calls with an effect outside of the
  table (opening and closing contexts, the history database) are recorded in \<open>tb_log\<close> in their order.
  Settings and specs are parsed JSON; \<open>tb_print\<close> is the printer of the JSON library.
\<close>

definition MF_DEVICE_SLOTS :: nat where "MF_DEVICE_SLOTS = 32"
definition MF_READING_JSON_SZ :: nat where "MF_READING_JSON_SZ = 16384"
definition MF_SAMPLE_READING_SZ :: nat where "MF_SAMPLE_READING_SZ = 4096"

record slot =
  sl_in_use :: bool
  sl_stop :: bool
  sl_uuid :: string
  sl_name :: string
  sl_kind :: string
  sl_driver :: string
  sl_bus :: string
  sl_endpoint :: string
  sl_enabled :: bool
  sl_active :: bool
  sl_caps :: nat
  sl_ops :: "plugin_ops option"
  sl_ctx :: "nat option"
  sl_online :: bool
  sl_have_data :: bool
  sl_seq :: u64
  sl_poll_interval_s :: xdouble
  sl_capture_interval_s :: xdouble
  sl_retention_days :: cdouble
  sl_last_error :: string
  sl_reading_json :: string

definition slot_zero :: slot where
  "slot_zero = \<lparr>sl_in_use = False, sl_stop = False, sl_uuid = [], sl_name = [], sl_kind = [], sl_driver = [],
     sl_bus = [], sl_endpoint = [], sl_enabled = False, sl_active = False, sl_caps = 0, sl_ops = None,
     sl_ctx = None, sl_online = False, sl_have_data = False, sl_seq = 0, sl_poll_interval_s = XFin 0,
     sl_capture_interval_s = XFin 0, sl_retention_days = 0, sl_last_error = [], sl_reading_json = []\<rparr>"

datatype dev_event =
    Opened nat
  | Closed nat
  | Registered string string string string string
  | Retention string cdouble
  | Retired string
  | Sample string xdouble string

record dev_table =
  tb_slots :: "slot list"
  tb_pending :: "mf_config_device option list"
  tb_pts :: bool
  tb_quit :: bool
  tb_reg :: "plugin_registry option"
  tb_hist :: bool
  tb_print :: "json \<Rightarrow> string"
  tb_next :: nat
  tb_log :: "dev_event list"

record answers =
  an_open :: "string option"
  an_caps :: nat
  an_reading :: "string option"
  an_last_error :: "string option"
  an_step :: mf_step

text \<open>The errors an operation reports in \<open>err\<close>, one per text.\<close>

datatype dev_error =
    Fields_required | Name_too_long | Name_in_use | Uuid_in_use | Unknown_driver | Limit_reached
  | Open_failed string
  | Missing_uuid | Duplicate_uuid | Duplicate_name | Duplicate_endpoint | Poll_below cdouble
  | Capture_range cdouble | Still_stopping
  | Active_not_bool | Name_required | No_capture | Retention_range | Plugin_refused string

fun add_rc :: "dev_error \<Rightarrow> int" where
  "add_rc Name_in_use = -3"
| "add_rc Uuid_in_use = -3"
| "add_rc Unknown_driver = -2"
| "add_rc Limit_reached = -4"
| "add_rc (Open_failed m) = -5"
| "add_rc _ = -1"

definition has :: "plugin_ops option \<Rightarrow> plugin_fn \<Rightarrow> bool" where
  "has p fn = (case p of Some e \<Rightarrow> po_has e fn | None \<Rightarrow> False)"

definition mf_devices_init :: "bool \<Rightarrow> plugin_registry option \<Rightarrow> bool \<Rightarrow> (json \<Rightarrow> string) \<Rightarrow> dev_table" where
  "mf_devices_init pts reg hist print =
     \<lparr>tb_slots = replicate MF_DEVICE_SLOTS slot_zero, tb_pending = replicate MF_DEVICE_SLOTS None,
      tb_pts = pts, tb_quit = False, tb_reg = reg, tb_hist = hist, tb_print = print, tb_next = 0, tb_log = []\<rparr>"

definition log_events :: "dev_event list \<Rightarrow> dev_table \<Rightarrow> dev_table" where
  "log_events evs tb = tb\<lparr>tb_log := tb_log tb @ evs\<rparr>"

definition set_slot :: "nat \<Rightarrow> slot \<Rightarrow> dev_table \<Rightarrow> dev_table" where
  "set_slot i d tb = tb\<lparr>tb_slots := (tb_slots tb)[i := d]\<rparr>"

subsection \<open>History\<close>

text \<open>\<open>mf_capture_spec\<close>: the block, its default and its minimal interval, its pruning policy.\<close>

definition mf_capture_spec :: "plugin_ops option \<Rightarrow> (json \<times> cdouble \<times> cdouble \<times> cdouble) option" where
  "mf_capture_spec p =
     (case Option.bind (Option.bind p po_describe) (\<lambda>rt. get_item rt ''capture'') of
        Some (JObject kvs) \<Rightarrow>
          (case get_item (JObject kvs) ''retention_days'' of
             Some (JNumber keep) \<Rightarrow>
               if keep < 0 then None
               else Some (JObject kvs,
                 (case get_item (JObject kvs) ''interval_s'' of Some (JNumber x) \<Rightarrow> if 0 \<le> x then x else 10 | _ \<Rightarrow> 10),
                 (case get_item (JObject kvs) ''min_s'' of Some (JNumber x) \<Rightarrow> if 1 \<le> x then x else 1 | _ \<Rightarrow> 1),
                 keep)
           | _ \<Rightarrow> None)
      | _ \<Rightarrow> None)"

definition capture_resolve :: "plugin_ops option \<Rightarrow> cdouble \<Rightarrow> cdouble" where
  "capture_resolve p want =
     (case mf_capture_spec p of
        None \<Rightarrow> 0
      | Some (_, def_s, min_s, _) \<Rightarrow>
          (let want = (if want < 0 then def_s else want)
           in if 0 < want \<and> want < min_s then min_s else want))"

definition history_retention :: "dev_table \<Rightarrow> slot \<Rightarrow> dev_event list" where
  "history_retention tb d = (if tb_hist tb then [Retention (sl_uuid d) (sl_retention_days d)] else [])"

definition history_register :: "dev_table \<Rightarrow> slot \<Rightarrow> dev_event list" where
  "history_register tb d =
     (if \<not> tb_hist tb then []
      else case mf_capture_spec (sl_ops d) of
        None \<Rightarrow> []
      | Some (block, _) \<Rightarrow>
          if length (tb_print tb block) < 2048
          then [Registered (sl_uuid d) (sl_name d) (sl_kind d) (sl_driver d) (tb_print tb block)]
          else [])"

definition history_retire :: "dev_table \<Rightarrow> slot \<Rightarrow> dev_event list" where
  "history_retire tb d = (if tb_hist tb then [Retired (sl_uuid d)] else [])"

subsection \<open>Readings\<close>

definition take_error :: "answers \<Rightarrow> slot \<Rightarrow> slot" where
  "take_error a d =
     (let d = d\<lparr>sl_online := False\<rparr> in
      case an_last_error a of
        Some m \<Rightarrow> if has (sl_ops d) FnLastError then d\<lparr>sl_last_error := c_copy 96 m\<rparr> else d
      | None \<Rightarrow> d)"

definition refresh_reading :: "dev_table \<Rightarrow> answers \<Rightarrow> slot \<Rightarrow> slot \<times> dev_event list" where
  "refresh_reading tb a d =
     (if \<not> has (sl_ops d) FnGetReading \<or> sl_ctx d = None then (d, [])
      else case an_reading a of
        None \<Rightarrow> (take_error a d, [])
      | Some r \<Rightarrow>
          (let d = d\<lparr>sl_reading_json := c_copy MF_READING_JSON_SZ r, sl_have_data := True, sl_online := True,
                 sl_seq := sl_seq d + 1, sl_last_error := []\<rparr>;
               d = (if has (sl_ops d) FnCaps then d\<lparr>sl_caps := an_caps a\<rparr> else d)
           in (d, if tb_hist tb \<and> XFin 0 < sl_capture_interval_s d
                  then [Sample (sl_uuid d) (sl_capture_interval_s d)
                    (if length (sl_reading_json d) < MF_SAMPLE_READING_SZ then sl_reading_json d else ''{}'')]
                  else [])))"

definition close_events :: "slot \<Rightarrow> dev_event list" where
  "close_events d =
     (case sl_ctx d of Some h \<Rightarrow> if has (sl_ops d) FnClose then [Closed h] else [] | None \<Rightarrow> [])"

definition slot_clear :: "nat \<Rightarrow> dev_table \<Rightarrow> dev_table" where
  "slot_clear i tb = log_events (close_events (tb_slots tb ! i)) (set_slot i slot_zero tb)"

text \<open>
  One wake-up of the thread of slot \<open>i\<close> (\<open>device_pt\<close>): it serves the device once, or, when the daemon
  quits or the device is to stop, closes it, frees the slot and ends. A free slot has no thread.
\<close>

definition device_pt :: "nat \<Rightarrow> answers \<Rightarrow> dev_table \<Rightarrow> dev_table" where
  "device_pt i a tb =
     (let d = tb_slots tb ! i in
      if \<not> sl_in_use d then tb
      else if tb_quit tb \<or> sl_stop d
      then let d' = (if close_events d \<noteq> [] then d\<lparr>sl_ctx := None\<rparr> else d)
           in log_events (close_events d) (set_slot i (d'\<lparr>sl_in_use := False, sl_stop := False\<rparr>) tb)
      else if \<not> has (sl_ops d) FnStep \<or> sl_ctx d = None then tb
      else if an_step a = MF_STEP_ERROR then set_slot i (take_error a d) tb
      else let (d', evs) = refresh_reading tb a d in log_events evs (set_slot i d' tb))"

subsection \<open>Lookups\<close>

definition live :: "slot \<Rightarrow> bool" where
  "live d \<longleftrightarrow> sl_in_use d \<and> \<not> sl_stop d"

definition slot_index :: "(slot \<Rightarrow> bool) \<Rightarrow> dev_table \<Rightarrow> nat option" where
  "slot_index P tb = find (\<lambda>i. P (tb_slots tb ! i)) [0..<MF_DEVICE_SLOTS]"

definition name_taken :: "dev_table \<Rightarrow> string \<Rightarrow> nat option \<Rightarrow> bool" where
  "name_taken tb name skip \<longleftrightarrow>
     list_ex (\<lambda>i. Some i \<noteq> skip \<and> sl_in_use (tb_slots tb ! i) \<and> sl_name (tb_slots tb ! i) = name)
       [0..<MF_DEVICE_SLOTS]"

definition find_slot_uuid :: "dev_table \<Rightarrow> string \<Rightarrow> nat option" where
  "find_slot_uuid tb uuid =
     (if uuid = [] then None else slot_index (\<lambda>d. sl_in_use d \<and> sl_uuid d = uuid) tb)"

definition uuid_in_use :: "dev_table \<Rightarrow> string \<Rightarrow> bool" where
  "uuid_in_use tb uuid \<longleftrightarrow> uuid \<noteq> [] \<and>
     list_ex (\<lambda>i. sl_in_use (tb_slots tb ! i) \<and> sl_uuid (tb_slots tb ! i) = uuid) [0..<MF_DEVICE_SLOTS]"

text \<open>\<open>mf_devices_find_live\<close> and \<open>find_live_mut\<close>; the latter refuses the empty uuid, which no device has.\<close>

definition find_live :: "dev_table \<Rightarrow> string \<Rightarrow> nat option" where
  "find_live tb uuid = slot_index (\<lambda>d. live d \<and> sl_uuid d = uuid) tb"

definition find_live_mut :: "dev_table \<Rightarrow> string \<Rightarrow> nat option" where
  "find_live_mut tb uuid = (if uuid = [] then None else find_live tb uuid)"

record devinfo =
  in_uuid :: string
  in_name :: string
  in_kind :: string
  in_driver :: string
  in_endpoint :: string
  in_online :: bool
  in_active :: bool
  in_dying :: bool
  in_seq :: u64
  in_caps :: nat
  in_reading_json :: string
  in_last_error :: string

definition fill_info :: "slot \<Rightarrow> devinfo" where
  "fill_info d = \<lparr>in_uuid = sl_uuid d, in_name = sl_name d, in_kind = sl_kind d, in_driver = sl_driver d,
     in_endpoint = sl_endpoint d, in_online = sl_online d, in_active = sl_active d,
     in_dying = (sl_in_use d \<and> sl_stop d), in_seq = sl_seq d, in_caps = sl_caps d,
     in_reading_json = (if sl_have_data d then sl_reading_json d else ''{}''), in_last_error = sl_last_error d\<rparr>"

definition mf_devices_find_live :: "dev_table \<Rightarrow> string \<Rightarrow> devinfo option" where
  "mf_devices_find_live tb uuid = map_option (\<lambda>i. fill_info (tb_slots tb ! i)) (find_live tb uuid)"

text \<open>\<open>mf_devices_visit_live\<close> with a visitor that never stops the walk.\<close>

definition mf_devices_visit_live :: "dev_table \<Rightarrow> devinfo list" where
  "mf_devices_visit_live tb = map fill_info (filter live (tb_slots tb))"

definition mf_devices_any_dying :: "dev_table \<Rightarrow> bool" where
  "mf_devices_any_dying tb \<longleftrightarrow> list_ex (\<lambda>d. sl_in_use d \<and> sl_stop d) (tb_slots tb)"

subsection \<open>Adding a device\<close>

definition mf_poll_interval_min :: "string \<Rightarrow> cdouble" where
  "mf_poll_interval_min driver =
     (if driver = ''classic'' then 1 else if driver = ''jk'' then 1 else if driver = ''xd'' then 1/2 else 1/2)"

definition nonempty_str :: "json option \<Rightarrow> string option" where
  "nonempty_str j = (case j of Some (JString s) \<Rightarrow> if s = [] then None else Some s | _ \<Rightarrow> None)"

definition spec_endpoint :: "json \<Rightarrow> nat \<Rightarrow> string" where
  "spec_endpoint rt cap =
     (let usb = opt_item (get_item rt ''usb''); ble = opt_item (get_item rt ''ble'');
          mb = opt_item (get_item rt ''modbus'')
      in case nonempty_str (usb ''path'') of
           Some p \<Rightarrow> c_copy cap (''usb:'' @ p)
         | None \<Rightarrow> (case nonempty_str (usb ''serial_id'') of
             Some s \<Rightarrow> c_copy cap (''usb-id:'' @ s)
           | None \<Rightarrow> (case nonempty_str (ble ''address'') of
               Some b \<Rightarrow> c_copy cap (''ble:'' @ b)
             | None \<Rightarrow> (case nonempty_str (mb ''ip'') of
                 Some ip \<Rightarrow>
                   let port = (case mb ''port'' of Some (JNumber x) \<Rightarrow> if 0 < valueint x then valueint x else 502
                                | _ \<Rightarrow> 502)
                   in c_copy cap (''tcp:'' @ ip @ '':'' @ dec_int port)
               | None \<Rightarrow> []))))"

text \<open>The bus, the endpoint and the poll interval; the latter keeps its old value without a positive one.\<close>

definition identity_from_spec :: "json option \<Rightarrow> cdouble \<Rightarrow> string \<times> string \<times> cdouble" where
  "identity_from_spec spec poll =
     (case spec of
        None \<Rightarrow> ([], [], poll)
      | Some rt \<Rightarrow>
          ((case get_item rt ''bus'' of Some (JString s) \<Rightarrow> c_copy 32 s | _ \<Rightarrow> []),
           spec_endpoint rt 160,
           (case get_item rt ''poll_interval_s'' of Some (JNumber x) \<Rightarrow> if 0 < x then x else poll | _ \<Rightarrow> poll)))"

definition new_slot ::
  "plugin_ops option \<Rightarrow> string \<Rightarrow> string \<Rightarrow> string \<Rightarrow> string \<Rightarrow> json option \<Rightarrow> slot" where
  "new_slot p uuid name kind driver spec =
     (let (bus, ep, poll) = identity_from_spec spec 2;
          driver = c_copy 16 driver;
          mn = mf_poll_interval_min driver;
          num = (\<lambda>key dflt. case Option.bind spec (\<lambda>s. get_item s key) of Some (JNumber x) \<Rightarrow> x | _ \<Rightarrow> dflt)
      in slot_zero\<lparr>sl_uuid := c_copy MF_UUID_LEN uuid, sl_name := c_copy 32 name, sl_kind := c_copy 16 kind,
           sl_driver := driver, sl_ops := p, sl_enabled := True, sl_bus := bus, sl_endpoint := ep,
           sl_poll_interval_s := XFin (if poll < mn then mn else poll),
           sl_retention_days := num ''retention_days'' (-1),
           sl_active := (Option.bind spec (\<lambda>s. get_item s ''active'') \<noteq> Some (JBool False)),
           sl_capture_interval_s := XFin (capture_resolve p (num ''capture_interval_s'' (-1))),
           sl_reading_json := ''{}''\<rparr>)"

definition reg_nonempty :: "dev_table \<Rightarrow> bool" where
  "reg_nonempty tb \<longleftrightarrow> (case tb_reg tb of Some r \<Rightarrow> rg_ops r \<noteq> [] | None \<Rightarrow> False)"

text \<open>
  A null argument is the empty text. \<open>gen\<close> is the uuid \<open>uuid_generate\<close> makes. The slot is filled in place,
  then the plugin is opened; a failed open clears the slot again.
\<close>

definition install :: "answers \<Rightarrow> nat \<Rightarrow> slot \<Rightarrow> dev_table \<Rightarrow> (dev_error + string) \<times> dev_table" where
  "install a i d tb =
     (let tb = log_events (history_register tb d @ history_retention tb d) tb in
      if \<not> has (sl_ops d) FnOpen
      then (Inr (sl_uuid d), set_slot i (d\<lparr>sl_in_use := True\<rparr>) tb)
      else case an_open a of
        Some m \<Rightarrow> (Inl (Open_failed (if m = [] then ''open failed'' else m)), set_slot i slot_zero tb)
      | None \<Rightarrow>
          (let d = d\<lparr>sl_ctx := Some (tb_next tb)\<rparr>;
               d = (if has (sl_ops d) FnCaps then d\<lparr>sl_caps := an_caps a\<rparr> else d);
               tb = log_events [Opened (tb_next tb)] (tb\<lparr>tb_next := tb_next tb + 1\<rparr>);
               (d, evs) = refresh_reading tb a d
           in (Inr (sl_uuid d), log_events evs (set_slot i (d\<lparr>sl_in_use := True\<rparr>) tb))))"

definition mf_devices_add ::
  "answers \<Rightarrow> string \<Rightarrow> string \<Rightarrow> string \<Rightarrow> string \<Rightarrow> json option \<Rightarrow> string \<Rightarrow> dev_table \<Rightarrow>
     (dev_error + string) \<times> dev_table"
where
  "mf_devices_add a gen name kind driver spec uuid_in tb =
     (if name = [] \<or> kind = [] \<or> driver = [] then (Inl Fields_required, tb)
      else if 32 \<le> length name then (Inl Name_too_long, tb)
      else if name_taken tb name None then (Inl Name_in_use, tb)
      else if uuid_in \<noteq> [] \<and> uuid_in_use tb uuid_in then (Inl Uuid_in_use, tb)
      else if reg_nonempty tb \<and> mf_plugins_find (tb_reg tb) kind driver = None then (Inl Unknown_driver, tb)
      else case slot_index (\<lambda>d. \<not> sl_in_use d) tb of
        None \<Rightarrow> (Inl Limit_reached, tb)
      | Some i \<Rightarrow>
          install a i (new_slot (if reg_nonempty tb then mf_plugins_find (tb_reg tb) kind driver else None)
             (if uuid_in \<noteq> [] then uuid_in else gen) name kind driver spec) tb)"


subsection \<open>Settings and actions\<close>

definition generic_settings :: "string list" where
  "generic_settings =
     [''name'', ''poll_interval_s'', ''capture_interval_s'', ''retention_days'', ''active'', ''uuid'']"

definition is_generic_setting :: "string \<Rightarrow> bool" where
  "is_generic_setting key \<longleftrightarrow> key \<in> set generic_settings"

text \<open>
  The members the plugin reports (\<open>plug\<close>: its parsed answer, if that begins with an opening brace),
  between the daemon's own. \<open>keep\<close> is the retention the history store knows.
\<close>

definition mf_devices_get_settings :: "dev_table \<Rightarrow> string \<Rightarrow> json option \<Rightarrow> cdouble \<Rightarrow> nat \<times> json option" where
  "mf_devices_get_settings tb uuid plug keep =
     (case find_live_mut tb uuid of
        None \<Rightarrow> (404, None)
      | Some i \<Rightarrow>
          (let d = tb_slots tb ! i;
               plug = (if has (sl_ops d) FnGetSettings \<and> sl_ctx d \<noteq> None then plug else None)
           in (200, Some (JObject
             ([(''name'', JString (sl_name d)), (''poll_interval_s'', json_number (sl_poll_interval_s d))] @
              (if mf_capture_spec (sl_ops d) \<noteq> None
               then [(''capture_interval_s'', json_number (sl_capture_interval_s d)),
                     (''retention_days'', JNumber (if tb_hist tb then keep else sl_retention_days d))]
               else []) @
              [(''active'', JBool (sl_active d))] @
              (case plug of
                 Some p \<Rightarrow> filter (\<lambda>(k, v). k \<noteq> [] \<and> \<not> is_generic_setting k) (members p)
               | None \<Rightarrow> []) @
              [(''uuid'', JString (sl_uuid d))])))))"

text \<open>A number, or a string read as one, which may be an infinity or a NaN.\<close>

definition num_or_text :: "json option \<Rightarrow> xdouble option" where
  "num_or_text j = (case j of Some (JNumber x) \<Rightarrow> Some (XFin x) | Some (JString s) \<Rightarrow> Some (atof s) | _ \<Rightarrow> None)"

text \<open>
  The steps of \<open>mf_devices_put_settings\<close>: each takes the slot and gives an error, or the slot with its
  part of the request applied and what is told to the history store.
\<close>

definition put_name :: "dev_table \<Rightarrow> nat \<Rightarrow> json \<Rightarrow> slot \<Rightarrow> dev_error + (slot \<times> dev_event list)" where
  "put_name tb i rt d =
     (case get_item rt ''name'' of
        Some (JString n) \<Rightarrow>
          if n = [] then Inl Name_required
          else if 32 \<le> length n then Inl Name_too_long
          else if name_taken tb n (Some i) then Inl Name_in_use
          else let d = d\<lparr>sl_name := c_copy 32 n\<rparr> in Inr (d, history_register tb d)
      | _ \<Rightarrow> Inr (d, []))"

definition put_poll :: "json \<Rightarrow> slot \<Rightarrow> dev_error + (slot \<times> dev_event list)" where
  "put_poll rt d =
     (case num_or_text (get_item rt ''poll_interval_s'') of
        Some iv \<Rightarrow>
          (let mn = mf_poll_interval_min (sl_driver d) in
           if iv < XFin mn then Inl (Poll_below mn) else Inr (d\<lparr>sl_poll_interval_s := iv\<rparr>, []))
      | None \<Rightarrow> Inr (d, []))"

definition put_capture :: "json \<Rightarrow> slot \<Rightarrow> dev_error + (slot \<times> dev_event list)" where
  "put_capture rt d =
     (case num_or_text (get_item rt ''capture_interval_s'') of
        Some iv \<Rightarrow>
          (case mf_capture_spec (sl_ops d) of
             None \<Rightarrow> if iv \<noteq> XFin 0 then Inl No_capture else Inr (d, [])
           | Some (_, _, min_s, _) \<Rightarrow>
               if iv < XFin 0 \<or> XFin 0 < iv \<and> iv < XFin min_s then Inl (Capture_range min_s)
               else Inr (d\<lparr>sl_capture_interval_s := iv\<rparr>, []))
      | None \<Rightarrow> Inr (d, []))"

definition put_retention :: "dev_table \<Rightarrow> json \<Rightarrow> slot \<Rightarrow> dev_error + (slot \<times> dev_event list)" where
  "put_retention tb rt d =
     (case num_or_text (get_item rt ''retention_days'') of
        Some iv \<Rightarrow>
          (case mf_capture_spec (sl_ops d) of
             None \<Rightarrow> if iv \<noteq> XFin 0 then Inl No_capture else Inr (d, [])
           | Some _ \<Rightarrow>
               if iv < XFin 0 \<or> iv \<noteq> XFin (of_int (c_long iv)) then Inl Retention_range
               else let d = d\<lparr>sl_retention_days := of_int (c_long iv)\<rparr> in Inr (d, history_retention tb d))
      | None \<Rightarrow> Inr (d, []))"

definition put_active :: "json \<Rightarrow> slot \<Rightarrow> dev_error + (slot \<times> dev_event list)" where
  "put_active rt d =
     (case get_item rt ''active'' of Some (JBool b) \<Rightarrow> Inr (d\<lparr>sl_active := b\<rparr>, []) | _ \<Rightarrow> Inr (d, []))"

text \<open>The steps in their order; the first error ends them and leaves what the earlier ones did.\<close>

fun put_steps ::
  "(slot \<Rightarrow> dev_error + (slot \<times> dev_event list)) list \<Rightarrow> slot \<Rightarrow> dev_error option \<times> slot \<times> dev_event list"
where
  "put_steps [] d = (None, d, [])"
| "put_steps (f # fs) d =
     (case f d of
        Inl e \<Rightarrow> (Some e, d, [])
      | Inr (d', evs) \<Rightarrow> (case put_steps fs d' of (e, d'', evs') \<Rightarrow> (e, d'', evs @ evs')))"

definition put_generic :: "dev_table \<Rightarrow> nat \<Rightarrow> json \<Rightarrow> slot \<Rightarrow> dev_error option \<times> slot \<times> dev_event list" where
  "put_generic tb i rt d =
     (if (case get_item rt ''active'' of Some (JBool _) \<Rightarrow> False | Some _ \<Rightarrow> True | None \<Rightarrow> False)
      then (Some Active_not_bool, d, [])
      else put_steps [put_name tb i rt, put_poll rt, put_capture rt, put_retention tb rt, put_active rt] d)"

text \<open>\<open>MF_OK\<close> 0, \<open>MF_ERR_INVAL\<close> -1, \<open>MF_ERR_OFFLINE\<close> -2, \<open>MF_ERR_UNSUPPORTED\<close> -3, \<open>MF_ERR_BUSY\<close> -4.\<close>

definition plugin_status :: "int \<Rightarrow> nat" where
  "plugin_status rc = (if rc = 0 then 200 else if rc = -2 \<or> rc = -4 then 409 else 400)"

text \<open>
  \<open>body\<close> is the parsed request. \<open>rc\<close> and \<open>msg\<close> are the plugin's answer to the settings it is passed.
\<close>

definition mf_devices_put_settings ::
  "dev_table \<Rightarrow> string \<Rightarrow> json option \<Rightarrow> int \<Rightarrow> string \<Rightarrow> nat \<times> dev_error option \<times> dev_table" where
  "mf_devices_put_settings tb uuid body rc msg =
     (case find_live_mut tb uuid of
        None \<Rightarrow> (404, None, tb)
      | Some i \<Rightarrow>
          (let d = tb_slots tb ! i;
               obj = (case body of Some (JObject kvs) \<Rightarrow> True | _ \<Rightarrow> False);
               (e, d', evs) = (if obj then put_generic tb i (the body) d else (None, d, []));
               tb = log_events evs (set_slot i d' tb);
               other = obj \<and> list_ex (\<lambda>(k, v). k \<noteq> [] \<and> \<not> is_generic_setting k) (members (the body))
           in if e \<noteq> None then (400, e, tb)
              else if has (sl_ops d) FnPutSettings \<and> sl_ctx d \<noteq> None \<and> other
              then (plugin_status rc, if plugin_status rc = 200 then None else Some (Plugin_refused msg), tb)
              else (200, None, tb)))"

definition mf_devices_action ::
  "dev_table \<Rightarrow> string \<Rightarrow> string \<Rightarrow> int \<Rightarrow> answers \<Rightarrow> nat \<times> dev_table" where
  "mf_devices_action tb uuid action rc a =
     (case find_live_mut tb uuid of
        None \<Rightarrow> (404, tb)
      | Some i \<Rightarrow>
          (let d = tb_slots tb ! i in
           if action = [] then (400, tb)
           else if \<not> has (sl_ops d) FnAction \<or> sl_ctx d = None then (400, tb)
           else if rc = 0
           then (200, let (d', evs) = refresh_reading tb a d in log_events evs (set_slot i d' tb))
           else (plugin_status rc, tb)))"

subsection \<open>Following the configuration\<close>

definition pending_cancel :: "string \<Rightarrow> dev_table \<Rightarrow> dev_table" where
  "pending_cancel uuid tb =
     (if uuid = [] then tb
      else tb\<lparr>tb_pending := map (\<lambda>p. case p of Some d \<Rightarrow> if dv_uuid d = uuid then None else Some d | None \<Rightarrow> None)
             (tb_pending tb)\<rparr>)"

text \<open>The entry of the same uuid is replaced, else the first free place taken, else the device is forgotten.\<close>

definition pending_index :: "(mf_config_device option \<Rightarrow> bool) \<Rightarrow> dev_table \<Rightarrow> nat option" where
  "pending_index P tb = find (\<lambda>i. P (tb_pending tb ! i)) [0..<MF_DEVICE_SLOTS]"

definition pending_queue :: "mf_config_device \<Rightarrow> dev_table \<Rightarrow> dev_table" where
  "pending_queue dev tb =
     (case pending_index (\<lambda>p. map_option dv_uuid p = Some (dv_uuid dev)) tb of
        Some i \<Rightarrow> tb\<lparr>tb_pending := (tb_pending tb)[i := Some dev]\<rparr>
      | None \<Rightarrow>
          (case pending_index (\<lambda>p. p = None) tb of
             Some i \<Rightarrow> tb\<lparr>tb_pending := (tb_pending tb)[i := Some dev]\<rparr>
           | None \<Rightarrow> tb))"

definition uuid_in_cfg :: "mf_config_device list \<Rightarrow> string \<Rightarrow> bool" where
  "uuid_in_cfg devs uuid \<longleftrightarrow> uuid \<noteq> [] \<and> list_ex (\<lambda>d. dv_uuid d = uuid) devs"

definition stop_slot :: "nat \<Rightarrow> dev_table \<Rightarrow> dev_table" where
  "stop_slot i tb =
     (let d = tb_slots tb ! i in
      if \<not> sl_in_use d then tb
      else let tb = set_slot i (d\<lparr>sl_stop := True\<rparr>) tb in if tb_pts tb then tb else slot_clear i tb)"

definition add_from_cfg :: "answers \<Rightarrow> mf_config_device \<Rightarrow> dev_table \<Rightarrow> (dev_error + string) \<times> dev_table" where
  "add_from_cfg a dev tb =
     mf_devices_add a [] (dv_name dev) (dv_kind dev) (dv_driver dev) (Some (device_to_json dev)) (dv_uuid dev) tb"

definition identity_changed :: "slot \<Rightarrow> mf_config_device \<Rightarrow> bool" where
  "identity_changed d n \<longleftrightarrow>
     sl_kind d \<noteq> dv_kind n \<or> sl_driver d \<noteq> dv_driver n \<or> sl_bus d \<noteq> dv_bus n \<or>
     sl_endpoint d \<noteq> mf_config_device_endpoint n 160"

fun clash :: "mf_config_device \<Rightarrow> mf_config_device list \<Rightarrow> dev_error option" where
  "clash d [] = None"
| "clash d (e # es) =
     (let ep = mf_config_device_endpoint d 160 in
      if dv_uuid d = dv_uuid e then Some Duplicate_uuid
      else if dv_name d \<noteq> [] \<and> dv_name d = dv_name e then Some Duplicate_name
      else if ep \<noteq> [] \<and> mf_config_device_endpoint e 160 \<noteq> [] \<and> ep = mf_config_device_endpoint e 160
      then Some Duplicate_endpoint
      else clash d es)"

definition entry_error :: "dev_table \<Rightarrow> mf_config_device \<Rightarrow> mf_config_device list \<Rightarrow> dev_error option" where
  "entry_error tb d rest =
     (if dv_uuid d = [] then Some Missing_uuid
      else if dv_enabled d \<and> (dv_name d = [] \<or> dv_kind d = [] \<or> dv_driver d = []) then Some Fields_required
      else if dv_name d \<noteq> [] \<and> 32 \<le> length (dv_name d) then Some Name_too_long
      else case clash d rest of
        Some e \<Rightarrow> Some e
      | None \<Rightarrow>
          if dv_enabled d \<and> reg_nonempty tb \<and> mf_plugins_find (tb_reg tb) (dv_kind d) (dv_driver d) = None
          then Some Unknown_driver
          else if 0 < dv_poll_interval_s d \<and> dv_poll_interval_s d < mf_poll_interval_min (dv_driver d)
          then Some (Poll_below (mf_poll_interval_min (dv_driver d)))
          else if 0 < dv_capture_interval_s d \<and> dv_capture_interval_s d < 1 then Some (Capture_range 1)
          else None)"

fun entries_error :: "dev_table \<Rightarrow> mf_config_device list \<Rightarrow> dev_error option" where
  "entries_error tb [] = None"
| "entries_error tb (d # ds) = (case entry_error tb d ds of Some e \<Rightarrow> Some e | None \<Rightarrow> entries_error tb ds)"

text \<open>A slot that still holds the name or the endpoint the entry wants and is not in the configuration.\<close>

definition slot_holds :: "mf_config_device list \<Rightarrow> mf_config_device \<Rightarrow> slot \<Rightarrow> bool" where
  "slot_holds devs n d \<longleftrightarrow>
     sl_in_use d \<and> sl_uuid d \<noteq> dv_uuid n \<and>
     (dv_name n \<noteq> [] \<and> sl_name d = dv_name n \<or>
      mf_config_device_endpoint n 160 \<noteq> [] \<and> sl_endpoint d \<noteq> [] \<and> sl_endpoint d = mf_config_device_endpoint n 160) \<and>
     \<not> uuid_in_cfg devs (sl_uuid d)"

definition validate_apply :: "dev_table \<Rightarrow> mf_config_device list \<Rightarrow> dev_error option" where
  "validate_apply tb devs =
     (case entries_error tb devs of
        Some e \<Rightarrow> Some e
      | None \<Rightarrow>
          if list_ex (\<lambda>n. dv_enabled n \<and> list_ex (\<lambda>i. slot_holds devs n (tb_slots tb ! i)) [0..<MF_DEVICE_SLOTS]) devs
          then Some Still_stopping else None)"

definition find_cfg :: "mf_config_device list \<Rightarrow> string \<Rightarrow> mf_config_device option" where
  "find_cfg devs uuid = find (\<lambda>d. dv_uuid d = uuid) devs"

definition patched :: "mf_config_device \<Rightarrow> slot \<Rightarrow> slot" where
  "patched n d =
     (let mn = mf_poll_interval_min (sl_driver d) in
      d\<lparr>sl_name := c_copy 32 (dv_name n), sl_enabled := dv_enabled n, sl_active := dv_active n,
        sl_poll_interval_s := (if 0 < dv_poll_interval_s n
          then XFin (if dv_poll_interval_s n < mn then mn else dv_poll_interval_s n) else sl_poll_interval_s d),
        sl_capture_interval_s := XFin (capture_resolve (sl_ops d) (dv_capture_interval_s n)),
        sl_retention_days := dv_retention_days n\<rparr>)"

definition apply_slot :: "mf_config_device list \<Rightarrow> nat \<Rightarrow> dev_table \<Rightarrow> dev_table" where
  "apply_slot devs i tb =
     (let d = tb_slots tb ! i in
      if \<not> sl_in_use d then tb
      else case find_cfg devs (sl_uuid d) of
        Some n \<Rightarrow>
          if \<not> dv_enabled n
          then stop_slot i (log_events (if sl_stop d then [] else history_retire tb d) (pending_cancel (sl_uuid d) tb))
          else if identity_changed d n then stop_slot i (pending_queue n tb)
          else log_events (history_register tb (patched n d) @ history_retention tb (patched n d))
                 (set_slot i (patched n d) tb)
      | None \<Rightarrow>
          stop_slot i (log_events (if sl_stop d then [] else history_retire tb d) (pending_cancel (sl_uuid d) tb)))"

text \<open>\<open>ans\<close> gives the answers of the plugin of a device, by its uuid.\<close>

definition apply_add :: "(string \<Rightarrow> answers) \<Rightarrow> mf_config_device \<Rightarrow> dev_table \<Rightarrow> dev_table" where
  "apply_add ans dev tb =
     (if \<not> dv_enabled dev then tb
      else if find_slot_uuid tb (dv_uuid dev) \<noteq> None then tb
      else if uuid_in_use tb (dv_uuid dev) then pending_queue dev tb
      else case add_from_cfg (ans (dv_uuid dev)) dev tb of
        (Inl e, tb') \<Rightarrow> if add_rc e = -3 then pending_queue dev tb' else tb'
      | (Inr _, tb') \<Rightarrow> tb')"

definition mf_devices_apply_config ::
  "(string \<Rightarrow> answers) \<Rightarrow> mf_config_device list \<Rightarrow> dev_table \<Rightarrow> (dev_error + bool) \<times> dev_table" where
  "mf_devices_apply_config ans devs tb =
     (case validate_apply tb devs of
        Some e \<Rightarrow> (Inl e, tb)
      | None \<Rightarrow>
          (let tb = fold (apply_slot devs) [0..<MF_DEVICE_SLOTS] tb;
               tb = fold (apply_add ans) devs tb
           in (Inr (mf_devices_any_dying tb \<or> list_ex (\<lambda>p. p \<noteq> None) (tb_pending tb)), tb)))"

definition apply_pending_one :: "(string \<Rightarrow> answers) \<Rightarrow> nat \<Rightarrow> dev_table \<Rightarrow> dev_table" where
  "apply_pending_one ans i tb =
     (case tb_pending tb ! i of
        None \<Rightarrow> tb
      | Some dev \<Rightarrow>
          if uuid_in_use tb (dv_uuid dev) then tb
          else case add_from_cfg (ans (dv_uuid dev)) dev tb of
            (Inl e, tb') \<Rightarrow> if add_rc e = -3 then tb' else tb'\<lparr>tb_pending := (tb_pending tb')[i := None]\<rparr>
          | (Inr _, tb') \<Rightarrow> tb'\<lparr>tb_pending := (tb_pending tb')[i := None]\<rparr>)"

definition mf_devices_apply_pending :: "(string \<Rightarrow> answers) \<Rightarrow> dev_table \<Rightarrow> dev_table" where
  "mf_devices_apply_pending ans tb = fold (apply_pending_one ans) [0..<MF_DEVICE_SLOTS] tb"

definition mf_devices_delete :: "string \<Rightarrow> dev_table \<Rightarrow> nat \<times> dev_table" where
  "mf_devices_delete uuid tb =
     (if uuid = [] then (404, tb)
      else let tb = pending_cancel uuid tb in
        case find_slot_uuid tb uuid of
          None \<Rightarrow> (404, tb)
        | Some i \<Rightarrow>
            (202, let d = tb_slots tb ! i;
                      tb = log_events (if sl_stop d then [] else history_retire tb d) tb;
                      tb = set_slot i (d\<lparr>sl_stop := True\<rparr>) tb
                  in if tb_pts tb then tb else slot_clear i tb))"

definition mf_devices_request_stop_all :: "dev_table \<Rightarrow> dev_table" where
  "mf_devices_request_stop_all tb =
     tb\<lparr>tb_slots := map (\<lambda>d. if sl_in_use d then d\<lparr>sl_stop := True\<rparr> else d) (tb_slots tb)\<rparr>"

end
