(* ===== verification/DeviceSteps.thy ===== *)
theory DeviceSteps
  imports DeviceTable "HOL-Library.Multiset"
begin

section \<open>Elementary steps of the device table\<close>

text \<open>
  Every operation of the device table is a sequence of a few elementary steps (\<open>micro\<close>): log something,
  change a used slot without changing who it is, free a slot, clear a free one, fill a free one, change
  the queue. The locale \<open>table_law\<close> carries what all elementary steps keep over to the operations.
\<close>

fun quiet :: "dev_event \<Rightarrow> bool" where
  "quiet (Opened h) = False"
| "quiet (Closed h) = False"
| "quiet _ = True"

definition slot_shape :: "slot \<Rightarrow> bool" where
  "slot_shape d \<longleftrightarrow> sl_uuid d \<noteq> [] \<and> length (sl_uuid d) < MF_UUID_LEN \<and> sl_name d \<noteq> [] \<and> length (sl_name d) < 32 \<and>
     \<not> sl_poll_interval_s d < XFin (mf_poll_interval_min (sl_driver d))"

definition kept :: "slot \<Rightarrow> slot \<Rightarrow> bool" where
  "kept d d' \<longleftrightarrow> sl_in_use d' \<and> (sl_stop d \<longrightarrow> sl_stop d') \<and> sl_uuid d' = sl_uuid d \<and> sl_ops d' = sl_ops d \<and>
     sl_ctx d' = sl_ctx d \<and> sl_driver d' = sl_driver d"

text \<open>A configuration entry that may be queued or added.\<close>

definition entry_fits :: "mf_config_device \<Rightarrow> bool" where
  "entry_fits d \<longleftrightarrow> dv_uuid d \<noteq> [] \<and> length (dv_uuid d) < MF_UUID_LEN \<and>
     (dv_enabled d \<longrightarrow> dv_name d \<noteq> [] \<and> length (dv_name d) < 32)"

text \<open>The queue has one entry for a device, enabled and fit for a slot.\<close>

definition pend_ok :: "mf_config_device option list \<Rightarrow> bool" where
  "pend_ok ps \<longleftrightarrow> length ps = MF_DEVICE_SLOTS \<and>
     (\<forall>i j d e. i < length ps \<and> j < length ps \<and> ps ! i = Some d \<and> ps ! j = Some e \<and> dv_uuid d = dv_uuid e \<longrightarrow> i = j) \<and>
     (\<forall>i d. i < length ps \<and> ps ! i = Some d \<longrightarrow> entry_fits d \<and> dv_enabled d)"

inductive micro :: "dev_table \<Rightarrow> dev_table \<Rightarrow> bool" where
  m_log: "\<forall>e \<in> set evs. quiet e \<Longrightarrow> micro tb (log_events evs tb)"
| m_patch: "i < MF_DEVICE_SLOTS \<Longrightarrow> sl_in_use (tb_slots tb ! i) \<Longrightarrow> kept (tb_slots tb ! i) d' \<Longrightarrow>
    (slot_shape (tb_slots tb ! i) \<Longrightarrow> slot_shape d') \<Longrightarrow> micro tb (set_slot i d' tb)"
| m_free: "i < MF_DEVICE_SLOTS \<Longrightarrow> sl_in_use (tb_slots tb ! i) \<Longrightarrow> \<not> sl_in_use d' \<Longrightarrow>
    (close_events (tb_slots tb ! i) \<noteq> [] \<or> sl_ctx (tb_slots tb ! i) = None \<longrightarrow> sl_ctx d' = None) \<Longrightarrow>
    micro tb (log_events (close_events (tb_slots tb ! i)) (set_slot i d' tb))"
| m_clear: "i < MF_DEVICE_SLOTS \<Longrightarrow> \<not> sl_in_use (tb_slots tb ! i) \<Longrightarrow> micro tb (set_slot i slot_zero tb)"
| m_install: "i < MF_DEVICE_SLOTS \<Longrightarrow> \<not> sl_in_use (tb_slots tb ! i) \<Longrightarrow> sl_in_use d' \<Longrightarrow> slot_shape d' \<Longrightarrow>
    \<not> uuid_in_use tb (sl_uuid d') \<Longrightarrow> sl_ctx d' = None \<Longrightarrow> micro tb (set_slot i d' tb)"
| m_open: "i < MF_DEVICE_SLOTS \<Longrightarrow> \<not> sl_in_use (tb_slots tb ! i) \<Longrightarrow> sl_in_use d' \<Longrightarrow> slot_shape d' \<Longrightarrow>
    \<not> uuid_in_use tb (sl_uuid d') \<Longrightarrow> sl_ctx d' = Some (tb_next tb) \<Longrightarrow> sl_ops d' = Some p \<Longrightarrow>
    mf_plugins_find (tb_reg tb) k dr = Some p \<Longrightarrow>
    micro tb (set_slot i d' (log_events [Opened (tb_next tb)] (tb\<lparr>tb_next := tb_next tb + 1\<rparr>)))"
| m_pending: "(pend_ok (tb_pending tb) \<Longrightarrow> pend_ok ps) \<Longrightarrow> micro tb (tb\<lparr>tb_pending := ps\<rparr>)"
| m_quit: "micro tb (tb\<lparr>tb_quit := True\<rparr>)"

abbreviation micros :: "dev_table \<Rightarrow> dev_table \<Rightarrow> bool" where
  "micros \<equiv> micro\<^sup>*\<^sup>*"

lemma micros_then: "micros a b \<Longrightarrow> micro b c \<Longrightarrow> micros a c"
  by (rule rtranclp.rtrancl_into_rtrancl)

lemma micros_one: "micro a b \<Longrightarrow> micros a b"
  by (rule r_into_rtranclp)

subsection \<open>Bookkeeping\<close>

lemma log_events_simps [simp]:
  "tb_slots (log_events e tb) = tb_slots tb" "tb_pending (log_events e tb) = tb_pending tb"
  "tb_pts (log_events e tb) = tb_pts tb" "tb_quit (log_events e tb) = tb_quit tb"
  "tb_reg (log_events e tb) = tb_reg tb" "tb_hist (log_events e tb) = tb_hist tb"
  "tb_next (log_events e tb) = tb_next tb" "tb_log (log_events e tb) = tb_log tb @ e"
  "tb_print (log_events e tb) = tb_print tb"
  by (simp_all add: log_events_def)

lemma set_slot_simps [simp]:
  "tb_slots (set_slot i d tb) = (tb_slots tb)[i := d]" "tb_pending (set_slot i d tb) = tb_pending tb"
  "tb_pts (set_slot i d tb) = tb_pts tb" "tb_quit (set_slot i d tb) = tb_quit tb"
  "tb_reg (set_slot i d tb) = tb_reg tb" "tb_hist (set_slot i d tb) = tb_hist tb"
  "tb_next (set_slot i d tb) = tb_next tb" "tb_log (set_slot i d tb) = tb_log tb"
  "tb_print (set_slot i d tb) = tb_print tb"
  by (simp_all add: set_slot_def)

lemma log_events_Nil [simp]: "log_events [] tb = tb"
  by (simp add: log_events_def)

lemma slot_index_Some: "slot_index P tb = Some i \<Longrightarrow> i < MF_DEVICE_SLOTS \<and> P (tb_slots tb ! i)"
  by (auto simp: slot_index_def find_Some_iff)

lemma slot_index_None: "slot_index P tb = None \<longleftrightarrow> (\<forall>i < MF_DEVICE_SLOTS. \<not> P (tb_slots tb ! i))"
  by (auto simp: slot_index_def find_None_iff)

lemma uuid_in_use_iff:
  "uuid_in_use tb u \<longleftrightarrow> u \<noteq> [] \<and> (\<exists>i < MF_DEVICE_SLOTS. sl_in_use (tb_slots tb ! i) \<and> sl_uuid (tb_slots tb ! i) = u)"
  by (auto simp: uuid_in_use_def list_ex_iff)

lemma name_taken_iff:
  "name_taken tb n skip \<longleftrightarrow>
     (\<exists>i < MF_DEVICE_SLOTS. Some i \<noteq> skip \<and> sl_in_use (tb_slots tb ! i) \<and> sl_name (tb_slots tb ! i) = n)"
  by (auto simp: name_taken_def list_ex_iff)

lemma find_slot_uuid_Some:
  "find_slot_uuid tb u = Some i \<Longrightarrow>
     i < MF_DEVICE_SLOTS \<and> u \<noteq> [] \<and> sl_in_use (tb_slots tb ! i) \<and> sl_uuid (tb_slots tb ! i) = u"
  by (auto simp: find_slot_uuid_def split: if_splits dest: slot_index_Some)

lemma find_live_Some:
  "find_live tb u = Some i \<Longrightarrow> i < MF_DEVICE_SLOTS \<and> live (tb_slots tb ! i) \<and> sl_uuid (tb_slots tb ! i) = u"
  by (auto simp: find_live_def dest: slot_index_Some)

lemma find_live_mut_Some:
  "find_live_mut tb u = Some i \<Longrightarrow>
     i < MF_DEVICE_SLOTS \<and> u \<noteq> [] \<and> live (tb_slots tb ! i) \<and> sl_uuid (tb_slots tb ! i) = u"
  by (auto simp: find_live_mut_def split: if_splits dest: find_live_Some)

lemma uuid_free: "find_slot_uuid tb u = None \<Longrightarrow> \<not> uuid_in_use tb u"
  by (auto simp: find_slot_uuid_def uuid_in_use_iff slot_index_None split: if_splits)

text \<open>Reading a device changes none of these.\<close>

definition core :: "slot \<Rightarrow> slot" where
  "core d = d\<lparr>sl_caps := 0, sl_online := False, sl_have_data := False, sl_seq := 0, sl_last_error := [],
     sl_reading_json := []\<rparr>"

lemma core_eqD:
  assumes "core d = core e"
  shows "sl_in_use d = sl_in_use e" "sl_stop d = sl_stop e" "sl_uuid d = sl_uuid e" "sl_name d = sl_name e"
    "sl_kind d = sl_kind e" "sl_driver d = sl_driver e" "sl_bus d = sl_bus e" "sl_endpoint d = sl_endpoint e"
    "sl_enabled d = sl_enabled e" "sl_active d = sl_active e" "sl_ops d = sl_ops e" "sl_ctx d = sl_ctx e"
    "sl_poll_interval_s d = sl_poll_interval_s e" "sl_capture_interval_s d = sl_capture_interval_s e"
    "sl_retention_days d = sl_retention_days e"
  using assms by (cases d, cases e, simp add: core_def)+

lemma core_take_error [simp]: "core (take_error a d) = core d"
  by (simp add: take_error_def core_def Let_def split: option.splits)

lemma core_refresh: "refresh_reading tb a d = (d', evs) \<Longrightarrow> core d' = core d"
  by (auto simp: refresh_reading_def core_def take_error_def Let_def split: if_splits option.splits)

lemma quiet_refresh: "refresh_reading tb a d = (d', evs) \<Longrightarrow> e \<in> set evs \<Longrightarrow> quiet e"
  by (auto simp: refresh_reading_def Let_def split: if_splits option.splits)

lemma quiet_history:
  "e \<in> set (history_register tb d) \<Longrightarrow> quiet e" "e \<in> set (history_retention tb d) \<Longrightarrow> quiet e"
  "e \<in> set (history_retire tb d) \<Longrightarrow> quiet e"
  by (auto simp: history_register_def history_retention_def history_retire_def split: if_splits option.splits)

lemma shape_core: "core d = core e \<Longrightarrow> slot_shape d = slot_shape e"
  using core_eqD [of d e] by (simp add: slot_shape_def)

lemma kept_core: "core d' = core d \<Longrightarrow> sl_in_use d \<Longrightarrow> kept d d'"
  using core_eqD [of d' d] by (simp add: kept_def)

text \<open>A reading put into a used slot.\<close>

lemma micros_refresh:
  assumes "refresh_reading tb' a (tb_slots tb ! i) = (d', evs)" "i < MF_DEVICE_SLOTS" "sl_in_use (tb_slots tb ! i)"
  shows "micros tb (log_events evs (set_slot i d' tb))"
proof -
  note core = core_refresh [OF assms(1)]
  have "micro tb (set_slot i d' tb)"
    using assms core shape_core [OF core] kept_core [OF core] by (intro m_patch) simp_all
  moreover have "micro (set_slot i d' tb) (log_events evs (set_slot i d' tb))"
    using quiet_refresh [OF assms(1)] by (intro m_log) blast
  ultimately show ?thesis using micros_one micros_then by blast
qed

lemma micros_tick_stop:
  assumes "i < MF_DEVICE_SLOTS" "sl_in_use (tb_slots tb ! i)" "tb_quit tb \<or> sl_stop (tb_slots tb ! i)"
  shows "micros tb (device_pt i a tb)"
proof -
  let ?d = "tb_slots tb ! i"
  let ?d1 = "if close_events ?d \<noteq> [] then ?d\<lparr>sl_ctx := None\<rparr> else ?d"
  have "micro tb (log_events (close_events ?d) (set_slot i (?d1\<lparr>sl_in_use := False, sl_stop := False\<rparr>) tb))"
    by (rule m_free) (use assms in simp_all)
  then show ?thesis
    using assms unfolding device_pt_def Let_def
    by (simp only: if_True if_False not_True_eq_False micros_one)
qed

lemma micros_tick:
  assumes "i < MF_DEVICE_SLOTS"
  shows "micros tb (device_pt i a tb)"
proof (cases "sl_in_use (tb_slots tb ! i) \<and> \<not> (tb_quit tb \<or> sl_stop (tb_slots tb ! i)) \<and>
    has (sl_ops (tb_slots tb ! i)) FnStep \<and> sl_ctx (tb_slots tb ! i) \<noteq> None")
  case True
  let ?d = "tb_slots tb ! i"
  show ?thesis
  proof (cases "an_step a = MF_STEP_ERROR")
    case err: True
    have "micro tb (set_slot i (take_error a ?d) tb)"
      using True assms shape_core [OF core_take_error] kept_core [OF core_take_error]
      by (intro m_patch) simp_all
    moreover have "device_pt i a tb = set_slot i (take_error a ?d) tb"
      using True err unfolding device_pt_def Let_def by auto
    ultimately show ?thesis by (simp only: micros_one)
  next
    case False
    obtain d' evs where r: "refresh_reading tb a ?d = (d', evs)" by force
    then have "device_pt i a tb = log_events evs (set_slot i d' tb)"
      using True False unfolding device_pt_def Let_def by auto
    then show ?thesis using micros_refresh [OF r assms] True by (simp only: simp_thms)
  qed
next
  case False
  show ?thesis
  proof (cases "sl_in_use (tb_slots tb ! i) \<and> (tb_quit tb \<or> sl_stop (tb_slots tb ! i))")
    case True
    then show ?thesis using micros_tick_stop [OF assms] by blast
  next
    case neither: False
    have "device_pt i a tb = tb"
      using False neither unfolding device_pt_def Let_def by (simp only: simp_thms de_Morgan_conj if_True) argo
    then show ?thesis by simp
  qed
qed

subsection \<open>Adding\<close>

lemma new_slot_simps [simp]:
  "sl_uuid (new_slot p u n k dr sp) = c_copy MF_UUID_LEN u" "sl_name (new_slot p u n k dr sp) = c_copy 32 n"
  "sl_kind (new_slot p u n k dr sp) = c_copy 16 k" "sl_driver (new_slot p u n k dr sp) = c_copy 16 dr"
  "sl_ops (new_slot p u n k dr sp) = p" "sl_ctx (new_slot p u n k dr sp) = None"
  "sl_in_use (new_slot p u n k dr sp) = False" "sl_stop (new_slot p u n k dr sp) = False"
  "sl_bus (new_slot p u n k dr sp) = fst (identity_from_spec sp 2)"
  "sl_endpoint (new_slot p u n k dr sp) = fst (snd (identity_from_spec sp 2))"
  by (simp_all add: new_slot_def slot_zero_def Let_def split: prod.splits)

lemma new_slot_poll: "\<not> sl_poll_interval_s (new_slot p u n k dr sp) < XFin (mf_poll_interval_min (sl_driver (new_slot p u n k dr sp)))"
  by (simp add: new_slot_def slot_zero_def Let_def split: prod.splits)

definition filled :: "slot \<Rightarrow> slot \<Rightarrow> bool" where
  "filled d d' \<longleftrightarrow> core d' = core (d\<lparr>sl_in_use := True, sl_ctx := sl_ctx d'\<rparr>)"

lemma install_ok:
  assumes "install a i d tb = (r, tb')" "i < MF_DEVICE_SLOTS" "\<not> sl_in_use (tb_slots tb ! i)"
    and "sl_ctx d = None" "slot_shape d" "\<not> uuid_in_use tb (sl_uuid d)"
    and "\<forall>p. sl_ops d = Some p \<longrightarrow> (\<exists>k dr. mf_plugins_find (tb_reg tb) k dr = Some p)"
  shows "micros tb tb' \<and>
    ((\<exists>m. r = Inl (Open_failed m)) \<and> tb_slots tb' = (tb_slots tb)[i := slot_zero] \<or>
     r = Inr (sl_uuid d) \<and> (\<exists>d'. filled d d' \<and> tb_slots tb' = (tb_slots tb)[i := d'])) \<and>
    tb_pending tb' = tb_pending tb"
proof -
  let ?t0 = "log_events (history_register tb d @ history_retention tb d) tb"
  have t0: "micro tb ?t0" using quiet_history by (intro m_log) auto
  consider (plain) "\<not> has (sl_ops d) FnOpen" | (fail) m where "has (sl_ops d) FnOpen" "an_open a = Some m"
    | (opened) "has (sl_ops d) FnOpen" "an_open a = None"
    by (cases "an_open a") auto
  then show ?thesis
  proof cases
    case plain
    have sh: "slot_shape (d\<lparr>sl_in_use := True\<rparr>)" using assms(5) by (simp add: slot_shape_def)
    have "micro ?t0 (set_slot i (d\<lparr>sl_in_use := True\<rparr>) ?t0)"
      using assms sh by (intro m_install) (simp_all add: uuid_in_use_iff)
    moreover have "filled d (d\<lparr>sl_in_use := True\<rparr>)" using assms(4) by (cases d) (simp add: filled_def core_def)
    moreover have "r = Inr (sl_uuid d)" "tb' = set_slot i (d\<lparr>sl_in_use := True\<rparr>) ?t0"
      using assms(1) plain by (simp_all add: install_def)
    ultimately show ?thesis using micros_then [OF micros_one [OF t0]] by auto
  next
    case fail
    have "micro ?t0 (set_slot i slot_zero ?t0)" using assms by (intro m_clear) simp_all
    moreover have "tb' = set_slot i slot_zero ?t0" "\<exists>m. r = Inl (Open_failed m)"
      using assms(1) fail by (auto simp: install_def)
    ultimately show ?thesis using micros_then [OF micros_one [OF t0]] by auto
  next
    case opened
    obtain p where p: "sl_ops d = Some p" using opened(1) by (auto simp: has_def split: option.splits)
    let ?d1 = "let d = d\<lparr>sl_ctx := Some (tb_next tb)\<rparr> in if has (sl_ops d) FnCaps then d\<lparr>sl_caps := an_caps a\<rparr> else d"
    let ?t1 = "log_events [Opened (tb_next ?t0)] (?t0\<lparr>tb_next := tb_next ?t0 + 1\<rparr>)"
    obtain d2 evs where r2: "refresh_reading ?t1 a ?d1 = (d2, evs)" by force
    have core: "core d2 = core (d\<lparr>sl_ctx := Some (tb_next tb)\<rparr>)"
      using core_refresh [OF r2] by (auto simp: core_def Let_def)
    note facts = core_eqD [OF core]
    let ?d3 = "d2\<lparr>sl_in_use := True\<rparr>"
    have fl: "filled d ?d3"
      using core facts by (cases d, cases d2) (simp add: filled_def core_def)
    obtain k dr where found: "mf_plugins_find (tb_reg tb) k dr = Some p" using assms(7) p by blast
    have "micro ?t0 (set_slot i ?d3 ?t1)"
      by (rule m_open [where p = p and k = k and dr = dr])
        (use assms facts p found in \<open>simp_all add: slot_shape_def uuid_in_use_iff\<close>)
    moreover have "micro (set_slot i ?d3 ?t1) (log_events evs (set_slot i ?d3 ?t1))"
      using quiet_refresh [OF r2] by (intro m_log) blast
    moreover have "tb' = log_events evs (set_slot i ?d3 ?t1)" "r = Inr (sl_uuid d)"
      using assms(1) opened r2 facts by (auto simp: install_def Let_def split: if_splits)
    ultimately show ?thesis using micros_then [OF micros_then [OF micros_one [OF t0]]] fl by auto
  qed
qed

text \<open>What adding a device does: nothing, clearing a free slot, or filling a free slot with the new device.\<close>

definition added_slot :: "dev_table \<Rightarrow> string \<Rightarrow> string \<Rightarrow> string \<Rightarrow> string \<Rightarrow> json option \<Rightarrow> slot" where
  "added_slot tb u name kind driver spec =
     new_slot (if reg_nonempty tb then mf_plugins_find (tb_reg tb) kind driver else None) u name kind driver spec"

lemma add_ok:
  assumes "mf_devices_add a gen name kind driver spec uuid_in tb = (r, tb')"
    and "length uuid_in < MF_UUID_LEN"
    and "uuid_in = [] \<Longrightarrow> gen \<noteq> [] \<and> length gen < MF_UUID_LEN \<and> \<not> uuid_in_use tb gen"
  shows "micros tb tb' \<and> tb_pending tb' = tb_pending tb \<and>
    ((\<exists>e. r = Inl e) \<and> (tb_slots tb' = tb_slots tb \<or>
        (\<exists>i < MF_DEVICE_SLOTS. \<not> sl_in_use (tb_slots tb ! i) \<and> tb_slots tb' = (tb_slots tb)[i := slot_zero])) \<or>
     (\<exists>i d'. i < MF_DEVICE_SLOTS \<and> \<not> sl_in_use (tb_slots tb ! i) \<and>
        filled (added_slot tb (if uuid_in \<noteq> [] then uuid_in else gen) name kind driver spec) d' \<and>
        tb_slots tb' = (tb_slots tb)[i := d'] \<and> \<not> name_taken tb name None \<and> name \<noteq> [] \<and> length name < 32 \<and>
        r = Inr (if uuid_in \<noteq> [] then uuid_in else gen)))"
proof (cases "(\<exists>e. r = Inl e) \<and> tb' = tb")
  case True
  then show ?thesis by auto
next
  case False
  let ?u = "if uuid_in \<noteq> [] then uuid_in else gen"
  let ?d = "added_slot tb ?u name kind driver spec"
  obtain i where i: "slot_index (\<lambda>d. \<not> sl_in_use d) tb = Some i" "install a i ?d tb = (r, tb')"
      "name \<noteq> []" "length name < 32" "\<not> name_taken tb name None" "\<not> (uuid_in \<noteq> [] \<and> uuid_in_use tb uuid_in)"
    using assms(1) False
    by (auto simp: mf_devices_add_def added_slot_def split: if_splits option.splits)
  have u: "?u \<noteq> []" "length ?u < MF_UUID_LEN" "\<not> uuid_in_use tb ?u"
    using assms(2,3) i(6) by auto
  have d: "sl_uuid ?d = ?u" "sl_ctx ?d = None" "sl_name ?d = name"
    using u i(4) by (simp_all add: added_slot_def)
  have "slot_shape ?d"
    using d u i(3,4) new_slot_poll by (simp add: slot_shape_def added_slot_def)
  moreover have "\<forall>p. sl_ops ?d = Some p \<longrightarrow> (\<exists>k dr. mf_plugins_find (tb_reg tb) k dr = Some p)"
    by (auto simp: added_slot_def)
  moreover have iN: "i < MF_DEVICE_SLOTS" "\<not> sl_in_use (tb_slots tb ! i)"
    using slot_index_Some [OF i(1)] by simp_all
  ultimately have res: "micros tb tb' \<and>
      ((\<exists>m. r = Inl (Open_failed m)) \<and> tb_slots tb' = (tb_slots tb)[i := slot_zero] \<or>
       r = Inr ?u \<and> (\<exists>d'. filled ?d d' \<and> tb_slots tb' = (tb_slots tb)[i := d'])) \<and>
      tb_pending tb' = tb_pending tb"
    using install_ok [OF i(2), unfolded d(1)] d(2) u(3) by simp
  show ?thesis
  proof (cases "\<exists>m. r = Inl (Open_failed m)")
    case True
    then show ?thesis using res iN by auto
  next
    case False
    then obtain d' where "r = Inr ?u" "filled ?d d'" "tb_slots tb' = (tb_slots tb)[i := d']" using res by blast
    then show ?thesis
      using res iN i(3-5)
      by (intro conjI disjI2 exI [of _ i] exI [of _ d']) simp_all
  qed
qed

end
