(* ===== verification/DeviceOps.thy ===== *)
theory DeviceOps
  imports DeviceSteps
begin

section \<open>The operations of the device table as sequences of elementary steps\<close>

text \<open>
  Each operation of \<open>DeviceTable\<close> is a sequence of the elementary steps of \<open>DeviceSteps\<close>, so an invariant
  of the steps is one of all operations.
\<close>

subsection \<open>Settings and actions\<close>

definition tuned :: "slot \<Rightarrow> slot \<Rightarrow> bool" where
  "tuned d d' \<longleftrightarrow> sl_in_use d' = sl_in_use d \<and> sl_stop d' = sl_stop d \<and> sl_uuid d' = sl_uuid d \<and>
     sl_kind d' = sl_kind d \<and> sl_driver d' = sl_driver d \<and> sl_bus d' = sl_bus d \<and>
     sl_endpoint d' = sl_endpoint d \<and> sl_ops d' = sl_ops d \<and> sl_ctx d' = sl_ctx d \<and>
     (slot_shape d \<longrightarrow> slot_shape d')"

lemma tuned_refl [simp]: "tuned d d"
  by (simp add: tuned_def)

lemma tuned_trans: "tuned a b \<Longrightarrow> tuned b c \<Longrightarrow> tuned a c"
  by (simp add: tuned_def)

lemma tuned_core: "core d' = core d \<Longrightarrow> tuned d d'"
  using core_eqD [of d' d] shape_core [of d' d] by (simp add: tuned_def)

lemma micros_tuned:
  assumes "i < MF_DEVICE_SLOTS" "sl_in_use (tb_slots tb ! i)" "tuned (tb_slots tb ! i) d'" "\<forall>e \<in> set evs. quiet e"
  shows "micros tb (log_events evs (set_slot i d' tb))"
proof -
  have "micro tb (set_slot i d' tb)"
    using assms(1-3) by (intro m_patch) (simp_all add: tuned_def kept_def)
  then show ?thesis
    using m_log [OF assms(4)] micros_one micros_then by blast
qed

definition put_step_ok :: "(slot \<Rightarrow> dev_error + (slot \<times> dev_event list)) \<Rightarrow> bool" where
  "put_step_ok f \<longleftrightarrow> (\<forall>d d' evs. f d = Inr (d', evs) \<longrightarrow> tuned d d' \<and> (\<forall>e \<in> set evs. quiet e))"

lemma put_name_ok: "put_step_ok (put_name tb i rt)"
  by (auto simp: put_step_ok_def put_name_def tuned_def slot_shape_def Let_def quiet_history
      split: option.splits json.splits if_splits)

lemma put_poll_ok: "put_step_ok (put_poll rt)"
  by (auto simp: put_step_ok_def put_poll_def tuned_def slot_shape_def Let_def split: option.splits if_splits)

lemma put_capture_ok: "put_step_ok (put_capture rt)"
  by (auto simp: put_step_ok_def put_capture_def tuned_def slot_shape_def split: option.splits if_splits prod.splits)

lemma put_retention_ok: "put_step_ok (put_retention tb rt)"
  by (auto simp: put_step_ok_def put_retention_def tuned_def slot_shape_def Let_def quiet_history
      split: option.splits if_splits)

lemma put_active_ok: "put_step_ok (put_active rt)"
  by (auto simp: put_step_ok_def put_active_def tuned_def slot_shape_def split: option.splits json.splits)

lemmas put_oks = put_name_ok put_poll_ok put_capture_ok put_retention_ok put_active_ok

lemma put_steps_ok:
  "put_steps fs d = (e, d', evs) \<Longrightarrow> list_all put_step_ok fs \<Longrightarrow> tuned d d' \<and> (\<forall>e \<in> set evs. quiet e)"
proof (induction fs d arbitrary: e d' evs rule: put_steps.induct)
  case (2 f fs d)
  show ?case
  proof (cases "f d")
    case (Inr x)
    obtain d1 evs1 where x: "x = (d1, evs1)" by force
    obtain e2 d2 evs2 where r: "put_steps fs d1 = (e2, d2, evs2)" by (metis prod_cases3)
    then have "d' = d2" "evs = evs1 @ evs2" using 2(2) Inr x by auto
    moreover have "tuned d d1" "\<forall>e \<in> set evs1. quiet e" using 2(3) Inr x by (auto simp: put_step_ok_def)
    moreover have "tuned d1 d2 \<and> (\<forall>e \<in> set evs2. quiet e)"
      using 2(1) [of "(d1, evs1)" d1 evs1] r 2(3) Inr x by simp
    ultimately show ?thesis using tuned_trans by auto
  qed (use 2 in simp)
qed simp

lemma put_generic_ok:
  "put_generic tb i rt d = (e, d', evs) \<Longrightarrow> tuned d d' \<and> (\<forall>e \<in> set evs. quiet e)"
  unfolding put_generic_def
  by (cases "case get_item rt ''active'' of Some (JBool _) \<Rightarrow> False | Some _ \<Rightarrow> True | None \<Rightarrow> False")
    (simp, simp only: if_False, erule put_steps_ok, simp add: put_oks)

text \<open>A settings request changes at most the addressed live slot, and only what \<open>tuned\<close> leaves open.\<close>

lemma put_settings_effect:
  assumes "mf_devices_put_settings tb u body rc msg = (st, e, tb')"
  shows "tb' = tb \<or> (\<exists>i d' evs. find_live_mut tb u = Some i \<and> tuned (tb_slots tb ! i) d' \<and>
      (\<forall>e \<in> set evs. quiet e) \<and> tb' = log_events evs (set_slot i d' tb))"
proof (cases "find_live_mut tb u")
  case None
  then show ?thesis using assms by (simp add: mf_devices_put_settings_def)
next
  case (Some i)
  let ?obj = "case body of Some (JObject kvs) \<Rightarrow> True | _ \<Rightarrow> False"
  obtain e1 d1 evs1 where r: "(if ?obj then put_generic tb i (the body) (tb_slots tb ! i)
      else (None, tb_slots tb ! i, [])) = (e1, d1, evs1)" by (metis prod_cases3)
  have "tuned (tb_slots tb ! i) d1 \<and> (\<forall>e \<in> set evs1. quiet e)"
    using r put_generic_ok by (cases ?obj) auto
  moreover have "tb' = log_events evs1 (set_slot i d1 tb)"
  proof (cases ?obj)
    case True
    then have "put_generic tb i (the body) (tb_slots tb ! i) = (e1, d1, evs1)" using r by simp
    then show ?thesis using assms Some True by (auto simp: mf_devices_put_settings_def Let_def split: if_splits)
  next
    case False
    then have "d1 = tb_slots tb ! i" "evs1 = []" using r by auto
    then show ?thesis using assms Some False by (auto simp: mf_devices_put_settings_def Let_def split: if_splits)
  qed
  ultimately show ?thesis using Some by blast
qed

lemma micros_put_settings:
  assumes "mf_devices_put_settings tb u body rc msg = (st, e, tb')"
  shows "micros tb tb'"
  using put_settings_effect [OF assms]
proof
  assume "\<exists>i d' evs. find_live_mut tb u = Some i \<and> tuned (tb_slots tb ! i) d' \<and>
      (\<forall>e \<in> set evs. quiet e) \<and> tb' = log_events evs (set_slot i d' tb)"
  then obtain i d' evs where i: "find_live_mut tb u = Some i" "tuned (tb_slots tb ! i) d'"
      "\<forall>e \<in> set evs. quiet e" "tb' = log_events evs (set_slot i d' tb)" by blast
  then show ?thesis
    using find_live_mut_Some [OF i(1)] micros_tuned [of i tb d' evs] by (simp add: live_def)
qed simp

lemma micros_action:
  assumes "mf_devices_action tb u action rc a = (st, tb')"
  shows "micros tb tb'"
proof (cases "find_live_mut tb u")
  case (Some i)
  obtain d' evs where r: "refresh_reading tb a (tb_slots tb ! i) = (d', evs)" by force
  have i: "i < MF_DEVICE_SLOTS" "sl_in_use (tb_slots tb ! i)"
    using find_live_mut_Some [OF Some] by (simp_all add: live_def)
  have "tb' = tb \<or> tb' = log_events evs (set_slot i d' tb)"
    using assms Some r by (auto simp: mf_devices_action_def Let_def split: if_splits)
  then show ?thesis using micros_refresh [OF r i] by auto
qed (use assms in \<open>simp add: mf_devices_action_def\<close>)

subsection \<open>The queue\<close>

lemma pend_ok_cancel: "pend_ok (tb_pending tb) \<Longrightarrow> pend_ok (tb_pending (pending_cancel u tb))"
  unfolding pend_ok_def pending_cancel_def
  by (auto split: option.splits if_splits)

lemma update_None_Some: "ps[i := None] ! j = Some d \<Longrightarrow> j < length ps \<Longrightarrow> ps ! j = Some d"
  by (cases "i = j") auto

lemma pend_ok_None: "pend_ok ps \<Longrightarrow> pend_ok (ps[i := None])"
  unfolding pend_ok_def length_list_update by (blast dest: update_None_Some)

lemma pending_index_Some: "pending_index P tb = Some i \<Longrightarrow> i < MF_DEVICE_SLOTS \<and> P (tb_pending tb ! i)"
  by (auto simp: pending_index_def find_Some_iff)

lemma pending_index_None: "pending_index P tb = None \<longleftrightarrow> (\<forall>i < MF_DEVICE_SLOTS. \<not> P (tb_pending tb ! i))"
  by (auto simp: pending_index_def find_None_iff)

lemma pend_ok_update:
  assumes "pend_ok ps" "entry_fits d" "dv_enabled d"
    and "\<And>j e. j < MF_DEVICE_SLOTS \<Longrightarrow> ps ! j = Some e \<Longrightarrow> dv_uuid e = dv_uuid d \<Longrightarrow> j = i"
  shows "pend_ok (ps[i := Some d])"
proof -
  have upd: "j = i \<and> e = d \<or> j \<noteq> i \<and> ps ! j = Some e" if "ps[i := Some d] ! j = Some e" "j < length ps" for j e
    using that by (cases "j = i") auto
  have "k = j" if "k < length ps" "j < length ps" "ps[i := Some d] ! k = Some e" "ps[i := Some d] ! j = Some f"
      "dv_uuid e = dv_uuid f" for k j e f
    using upd [OF that(3,1)] upd [OF that(4,2)] assms(1,4) that unfolding pend_ok_def by metis
  moreover have "entry_fits e \<and> dv_enabled e"
    if "j < length ps" "ps[i := Some d] ! j = Some e" for j e
    using upd [OF that(2,1)] assms(1,2,3) that unfolding pend_ok_def by metis
  ultimately show ?thesis using assms(1) unfolding pend_ok_def length_list_update by blast
qed

lemma pend_ok_queue:
  assumes "pend_ok (tb_pending tb)" "entry_fits d" "dv_enabled d"
  shows "pend_ok (tb_pending (pending_queue d tb))"
proof (cases "pending_index (\<lambda>p. map_option dv_uuid p = Some (dv_uuid d)) tb")
  case (Some i)
  have "j = i" if "j < MF_DEVICE_SLOTS" "tb_pending tb ! j = Some e" "dv_uuid e = dv_uuid d" for j e
    using pending_index_Some [OF Some] assms(1) that unfolding pend_ok_def by auto
  then show ?thesis using Some pend_ok_update [OF assms] by (simp add: pending_queue_def)
next
  case None
  then have "j = i" if "j < MF_DEVICE_SLOTS" "tb_pending tb ! j = Some e" "dv_uuid e = dv_uuid d" for i j e
    using that by (simp add: pending_index_None)
  then show ?thesis
    using None pend_ok_update [OF assms] assms(1) by (auto simp: pending_queue_def split: option.splits)
qed

lemma micros_cancel: "micros tb (pending_cancel u tb)"
proof -
  have "pending_cancel u tb = tb\<lparr>tb_pending := tb_pending (pending_cancel u tb)\<rparr>"
    by (simp add: pending_cancel_def)
  then show ?thesis using m_pending [of tb "tb_pending (pending_cancel u tb)"] pend_ok_cancel micros_one by metis
qed

lemma micros_queue: "entry_fits d \<Longrightarrow> dv_enabled d \<Longrightarrow> micros tb (pending_queue d tb)"
proof -
  assume d: "entry_fits d" "dv_enabled d"
  have "pending_queue d tb = tb\<lparr>tb_pending := tb_pending (pending_queue d tb)\<rparr>"
    by (simp add: pending_queue_def split: option.splits)
  then show ?thesis
    using m_pending [of tb "tb_pending (pending_queue d tb)"] pend_ok_queue d micros_one by metis
qed

lemma queue_slots [simp]:
  "tb_slots (pending_queue d tb) = tb_slots tb" "tb_slots (pending_cancel u tb) = tb_slots tb"
  "tb_pts (pending_queue d tb) = tb_pts tb" "tb_pts (pending_cancel u tb) = tb_pts tb"
  "tb_hist (pending_queue d tb) = tb_hist tb" "tb_hist (pending_cancel u tb) = tb_hist tb"
  "tb_reg (pending_queue d tb) = tb_reg tb" "tb_reg (pending_cancel u tb) = tb_reg tb"
  by (simp_all add: pending_queue_def pending_cancel_def split: option.splits)

subsection \<open>Stopping\<close>

lemma micros_clear:
  assumes "i < MF_DEVICE_SLOTS" "sl_in_use (tb_slots tb ! i)"
  shows "micros tb (slot_clear i tb)"
  unfolding slot_clear_def
  using assms by (intro micros_one m_free) (simp_all add: slot_zero_def)

lemma micros_stop:
  assumes "i < MF_DEVICE_SLOTS" "length (tb_slots tb) = MF_DEVICE_SLOTS"
  shows "micros tb (stop_slot i tb)"
proof (cases "sl_in_use (tb_slots tb ! i)")
  case True
  let ?t = "set_slot i ((tb_slots tb ! i)\<lparr>sl_stop := True\<rparr>) tb"
  have "micro tb ?t"
    using assms True by (intro m_patch) (simp_all add: kept_def slot_shape_def)
  moreover have "micros ?t (slot_clear i ?t)"
    using assms True by (intro micros_clear) simp_all
  ultimately show ?thesis
    using True micros_one [of tb ?t] by (auto simp: stop_slot_def Let_def)
qed (simp add: stop_slot_def)

lemma set_slot_id: "set_slot i (tb_slots tb ! i) tb = tb"
  by (simp add: set_slot_def)

lemma micros_stop_all_aux:
  assumes "n \<le> MF_DEVICE_SLOTS" "length (tb_slots tb) = MF_DEVICE_SLOTS"
  shows "micros tb (tb\<lparr>tb_slots := map (\<lambda>d. if sl_in_use d then d\<lparr>sl_stop := True\<rparr> else d) (take n (tb_slots tb)) @
     drop n (tb_slots tb)\<rparr>)"
  using assms
proof (induction n)
  case (Suc n)
  let ?f = "\<lambda>d. if sl_in_use d then d\<lparr>sl_stop := True\<rparr> else d"
  let ?t = "\<lambda>n. tb\<lparr>tb_slots := map ?f (take n (tb_slots tb)) @ drop n (tb_slots tb)\<rparr>"
  have n: "n < length (tb_slots tb)" using Suc by simp
  have nth: "tb_slots (?t n) ! n = tb_slots tb ! n" using n by (simp add: nth_append)
  have eq: "?t (Suc n) = set_slot n (?f (tb_slots tb ! n)) (?t n)"
    using n by (simp add: set_slot_def take_Suc_conv_app_nth list_update_append Cons_nth_drop_Suc [symmetric])
  have "micros (?t n) (?t (Suc n))"
  proof (cases "sl_in_use (tb_slots tb ! n)")
    case True
    then show ?thesis
      unfolding eq using Suc(2) nth by (intro micros_one m_patch) (simp_all add: kept_def slot_shape_def)
  next
    case False
    then have "?t (Suc n) = set_slot n (tb_slots (?t n) ! n) (?t n)" unfolding eq nth by simp
    then have "?t (Suc n) = ?t n" unfolding set_slot_id .
    then show ?thesis by simp
  qed
  then show ?case using Suc by (meson Suc_leD rtranclp_trans)
qed simp

lemma micros_stop_all:
  assumes "length (tb_slots tb) = MF_DEVICE_SLOTS"
  shows "micros tb (mf_devices_request_stop_all tb)"
  using micros_stop_all_aux [of MF_DEVICE_SLOTS tb] assms by (simp add: mf_devices_request_stop_all_def)

lemma micros_delete:
  assumes "mf_devices_delete u tb = (st, tb')" "length (tb_slots tb) = MF_DEVICE_SLOTS"
  shows "micros tb tb'"
proof (cases "u = [] \<or> find_slot_uuid (pending_cancel u tb) u = None")
  case True
  then show ?thesis using assms(1) micros_cancel by (auto simp: mf_devices_delete_def Let_def split: if_splits)
next
  case False
  then obtain i where i: "find_slot_uuid (pending_cancel u tb) u = Some i" by auto
  let ?t = "pending_cancel u tb"
  note iN = find_slot_uuid_Some [OF i]
  let ?l = "log_events (if sl_stop (tb_slots ?t ! i) then [] else history_retire ?t (tb_slots ?t ! i)) ?t"
  have "micro ?t ?l" using quiet_history(3) by (intro m_log) (auto split: if_splits)
  moreover have "micros ?l (stop_slot i ?l)" using iN assms(2) by (intro micros_stop) simp_all
  moreover have "tb' = stop_slot i ?l"
    using assms(1) False i iN by (auto simp: mf_devices_delete_def stop_slot_def Let_def)
  ultimately show ?thesis using micros_cancel [of tb u] by (meson rtranclp.rtrancl_into_rtrancl rtranclp_trans)
qed

end
