(* ===== verification/DeviceReach.thy ===== *)
theory DeviceReach
  imports DeviceOps
begin

section \<open>Reachable device tables\<close>

text \<open>
  The step relation of the daemon over device tables: any operation, any answers of the plugins, in any
  order, from a freshly initialised table; and the interface \<open>table_law\<close> through which invariants of the
  elementary steps become invariants of every reachable table.
\<close>

subsection \<open>Following a configuration, step by step\<close>

lemma clash_None:
  "clash d es = None \<Longrightarrow> e \<in> set es \<Longrightarrow>
     dv_uuid d \<noteq> dv_uuid e \<and> (dv_name d \<noteq> [] \<longrightarrow> dv_name d \<noteq> dv_name e) \<and>
     (mf_config_device_endpoint d 160 \<noteq> [] \<longrightarrow> mf_config_device_endpoint d 160 \<noteq> mf_config_device_endpoint e 160)"
  by (induction es) (auto simp: Let_def split: if_splits)

lemma entry_error_None:
  "entry_error tb d rest = None \<Longrightarrow>
     dv_uuid d \<noteq> [] \<and> (dv_enabled d \<longrightarrow> dv_name d \<noteq> [] \<and> length (dv_name d) < 32 \<and> dv_kind d \<noteq> [] \<and> dv_driver d \<noteq> []) \<and>
     clash d rest = None \<and>
     (dv_enabled d \<and> reg_nonempty tb \<longrightarrow> mf_plugins_find (tb_reg tb) (dv_kind d) (dv_driver d) \<noteq> None)"
  by (auto simp: entry_error_def split: if_splits option.splits)

lemma entries_error_None:
  "entries_error tb ds = None \<Longrightarrow>
     distinct (map dv_uuid ds) \<and> distinct (filter (\<lambda>n. n \<noteq> []) (map dv_name ds)) \<and>
     (\<forall>d \<in> set ds. dv_uuid d \<noteq> [] \<and>
        (dv_enabled d \<longrightarrow> dv_name d \<noteq> [] \<and> length (dv_name d) < 32 \<and> dv_kind d \<noteq> [] \<and> dv_driver d \<noteq> []) \<and>
        (dv_enabled d \<and> reg_nonempty tb \<longrightarrow> mf_plugins_find (tb_reg tb) (dv_kind d) (dv_driver d) \<noteq> None))"
proof (induction tb ds rule: entries_error.induct)
  case (2 tb d ds)
  then have e: "entry_error tb d ds = None" "entries_error tb ds = None" by (auto split: option.splits)
  note d = entry_error_None [OF e(1)]
  have "dv_uuid d \<notin> dv_uuid ` set ds" "dv_name d \<noteq> [] \<Longrightarrow> dv_name d \<notin> dv_name ` set ds"
    using clash_None [of d ds] d by blast+
  then show ?case using 2(1) [OF e] d by auto
qed simp

lemma validate_None:
  assumes "validate_apply tb devs = None"
  shows "entries_error tb devs = None"
    and "\<And>n i. n \<in> set devs \<Longrightarrow> dv_enabled n \<Longrightarrow> i < MF_DEVICE_SLOTS \<Longrightarrow> \<not> slot_holds devs n (tb_slots tb ! i)"
  using assms by (auto simp: validate_apply_def list_ex_iff split: option.splits if_splits)

definition devs_fit :: "mf_config_device list \<Rightarrow> bool" where
  "devs_fit devs \<longleftrightarrow> (\<forall>d \<in> set devs. length (dv_uuid d) < MF_UUID_LEN)"

lemma validate_fits:
  assumes "validate_apply tb devs = None" "devs_fit devs" "d \<in> set devs"
  shows "entry_fits d"
  using entries_error_None [OF validate_None(1) [OF assms(1)]] assms(2,3)
  by (auto simp: entry_fits_def devs_fit_def)

lemma find_cfg_Some: "find_cfg devs u = Some n \<Longrightarrow> n \<in> set devs \<and> dv_uuid n = u"
  by (auto simp: find_cfg_def find_Some_iff)

lemma patched_simps [simp]:
  "sl_in_use (patched n d) = sl_in_use d" "sl_stop (patched n d) = sl_stop d" "sl_uuid (patched n d) = sl_uuid d"
  "sl_kind (patched n d) = sl_kind d" "sl_driver (patched n d) = sl_driver d" "sl_bus (patched n d) = sl_bus d"
  "sl_endpoint (patched n d) = sl_endpoint d" "sl_ops (patched n d) = sl_ops d" "sl_ctx (patched n d) = sl_ctx d"
  "sl_name (patched n d) = c_copy 32 (dv_name n)"
  by (simp_all add: patched_def Let_def)

lemma patched_tuned: "entry_fits n \<Longrightarrow> dv_enabled n \<Longrightarrow> tuned d (patched n d)"
  unfolding tuned_def slot_shape_def by (auto simp: entry_fits_def patched_def Let_def)

text \<open>One slot: nothing, stopped, queued and stopped, or patched.\<close>

lemma apply_slot_cases [consumes 1, case_names free gone moved kept]:
  assumes "length (tb_slots tb) = MF_DEVICE_SLOTS"
    and "\<not> sl_in_use (tb_slots tb ! i) \<Longrightarrow> apply_slot devs i tb = tb \<Longrightarrow> thesis"
    and "\<And>evs. sl_in_use (tb_slots tb ! i) \<Longrightarrow> (\<forall>n. find_cfg devs (sl_uuid (tb_slots tb ! i)) = Some n \<longrightarrow> \<not> dv_enabled n) \<Longrightarrow>
      \<forall>e \<in> set evs. quiet e \<Longrightarrow>
      apply_slot devs i tb = stop_slot i (log_events evs (pending_cancel (sl_uuid (tb_slots tb ! i)) tb)) \<Longrightarrow> thesis"
    and "\<And>n. sl_in_use (tb_slots tb ! i) \<Longrightarrow> find_cfg devs (sl_uuid (tb_slots tb ! i)) = Some n \<Longrightarrow> dv_enabled n \<Longrightarrow>
      identity_changed (tb_slots tb ! i) n \<Longrightarrow> apply_slot devs i tb = stop_slot i (pending_queue n tb) \<Longrightarrow> thesis"
    and "\<And>n evs. sl_in_use (tb_slots tb ! i) \<Longrightarrow> find_cfg devs (sl_uuid (tb_slots tb ! i)) = Some n \<Longrightarrow> dv_enabled n \<Longrightarrow>
      \<not> identity_changed (tb_slots tb ! i) n \<Longrightarrow> \<forall>e \<in> set evs. quiet e \<Longrightarrow>
      apply_slot devs i tb = log_events evs (set_slot i (patched n (tb_slots tb ! i)) tb) \<Longrightarrow> thesis"
  shows thesis
proof (cases "sl_in_use (tb_slots tb ! i)")
  case False
  then show thesis using assms(2) by (simp add: apply_slot_def)
next
  case used: True
  let ?d = "tb_slots tb ! i"
  let ?evs = "if sl_stop ?d then [] else history_retire tb ?d"
  have q: "\<forall>e \<in> set ?evs. quiet e" using quiet_history(3) by auto
  show thesis
  proof (cases "find_cfg devs (sl_uuid ?d)")
    case None
    then show thesis
      using used q by (intro assms(3) [of ?evs]) (simp_all add: apply_slot_def Let_def history_retire_def)
  next
    case (Some n)
    consider "\<not> dv_enabled n" | "dv_enabled n" "identity_changed ?d n" | "dv_enabled n" "\<not> identity_changed ?d n"
      by blast
    then show thesis
    proof cases
      case 1
      then show thesis
        using used q Some by (intro assms(3) [of ?evs]) (simp_all add: apply_slot_def Let_def history_retire_def)
    next
      case 2
      then show thesis using used Some by (intro assms(4) [of n]) (simp_all add: apply_slot_def Let_def)
    next
      case 3
      let ?e = "history_register tb (patched n ?d) @ history_retention tb (patched n ?d)"
      have "\<forall>e \<in> set ?e. quiet e" using quiet_history by auto
      then show thesis
        using 3 used Some by (intro assms(5) [of n ?e]) (simp_all add: apply_slot_def Let_def)
    qed
  qed
qed

lemma micros_apply_slot:
  assumes "i < MF_DEVICE_SLOTS" "length (tb_slots tb) = MF_DEVICE_SLOTS" "\<And>n. n \<in> set devs \<Longrightarrow> entry_fits n"
  shows "micros tb (apply_slot devs i tb)"
  using assms(2)
proof (cases rule: apply_slot_cases [where i = i and devs = devs])
  case free
  then show ?thesis by simp
next
  case (gone evs)
  let ?t = "pending_cancel (sl_uuid (tb_slots tb ! i)) tb"
  have "micro ?t (log_events evs ?t)" using gone(3) by (rule m_log)
  moreover have "micros (log_events evs ?t) (stop_slot i (log_events evs ?t))"
    using assms by (intro micros_stop) simp_all
  ultimately show ?thesis
    using gone(4) micros_cancel [of tb] by (metis micros_then rtranclp_trans)
next
  case (moved n)
  then have "entry_fits n" using assms(3) find_cfg_Some by blast
  then have "micros tb (pending_queue n tb)" using moved(3) by (rule micros_queue)
  moreover have "micros (pending_queue n tb) (stop_slot i (pending_queue n tb))"
    using assms by (intro micros_stop) simp_all
  ultimately show ?thesis using moved(5) by simp
next
  case (kept n evs)
  then have "entry_fits n" using assms(3) find_cfg_Some by blast
  then have "tuned (tb_slots tb ! i) (patched n (tb_slots tb ! i))" using kept(3) patched_tuned by blast
  then show ?thesis using kept micros_tuned [OF assms(1)] by metis
qed

lemma micros_add_from_cfg:
  assumes "add_from_cfg a d tb = (r, tb')" "entry_fits d"
  shows "micros tb tb'"
  using add_ok [OF assms(1) [unfolded add_from_cfg_def]] assms(2) by (simp add: entry_fits_def)

lemma micros_apply_add:
  assumes "entry_fits d"
  shows "micros tb (apply_add ans d tb)"
proof (cases "dv_enabled d \<and> find_slot_uuid tb (dv_uuid d) = None")
  case True
  obtain r tb' where r: "add_from_cfg (ans (dv_uuid d)) d tb = (r, tb')" by force
  have "micros tb (pending_queue d tb)" "micros tb' (pending_queue d tb')"
    using assms True micros_queue by blast+
  then show ?thesis
    using micros_add_from_cfg [OF r assms] True r
    by (auto simp: apply_add_def split: sum.splits intro: rtranclp_trans)
qed (auto simp: apply_add_def)

lemma micro_pend: "micro tb tb' \<Longrightarrow> pend_ok (tb_pending tb) \<Longrightarrow> pend_ok (tb_pending tb')"
  by (induction rule: micro.induct) auto

lemma micros_pend: "micros tb tb' \<Longrightarrow> pend_ok (tb_pending tb) \<Longrightarrow> pend_ok (tb_pending tb')"
  by (induction rule: rtranclp_induct) (auto dest: micro_pend)

lemma micros_slots: "micros tb tb' \<Longrightarrow> length (tb_slots tb') = length (tb_slots tb)"
  by (induction rule: rtranclp_induct) (auto elim!: micro.cases)

lemma micros_apply_pending_one:
  assumes "pend_ok (tb_pending tb)" "i < MF_DEVICE_SLOTS"
  shows "micros tb (apply_pending_one ans i tb)"
proof (cases "tb_pending tb ! i")
  case (Some d)
  obtain r tb' where r: "add_from_cfg (ans (dv_uuid d)) d tb = (r, tb')" by force
  have "entry_fits d" using assms Some unfolding pend_ok_def by metis
  note m = micros_add_from_cfg [OF r this]
  have "micro tb' (tb'\<lparr>tb_pending := (tb_pending tb')[i := None]\<rparr>)"
    by (rule m_pending) (rule pend_ok_None)
  then have "micros tb (tb'\<lparr>tb_pending := (tb_pending tb')[i := None]\<rparr>)" using micros_then [OF m] by blast
  then show ?thesis
    using m r Some by (auto simp: apply_pending_one_def split: sum.splits)
qed (simp add: apply_pending_one_def)

lemma fold_inv:
  assumes "\<And>x tb. x \<in> set xs \<Longrightarrow> I tb \<Longrightarrow> micros tb (f x tb)" "\<And>a b. micros a b \<Longrightarrow> I a \<Longrightarrow> I b" "I tb"
  shows "micros tb (fold f xs tb)"
  using assms(1,3)
proof (induction xs arbitrary: tb)
  case (Cons x xs)
  have x: "micros tb (f x tb)" using Cons by simp
  then have "I (f x tb)" using assms(2) Cons(3) by blast
  then have "micros (f x tb) (fold f xs (f x tb))" using Cons by simp
  then show ?case using x by simp
qed simp

lemma fold_keeps: "(\<And>x t. x \<in> set xs \<Longrightarrow> I t \<Longrightarrow> I (f x t)) \<Longrightarrow> I t \<Longrightarrow> I (fold f xs t)"
  by (induction xs arbitrary: t) simp_all

lemma micros_apply_config:
  assumes "mf_devices_apply_config ans devs tb = (r, tb')" "devs_fit devs" "length (tb_slots tb) = MF_DEVICE_SLOTS"
  shows "micros tb tb'"
proof (cases "validate_apply tb devs")
  case None
  note fits = validate_fits [OF None assms(2)]
  have 1: "micros tb (fold (apply_slot devs) [0..<MF_DEVICE_SLOTS] tb)"
    using fits by (intro fold_inv [where I = "\<lambda>tb. length (tb_slots tb) = MF_DEVICE_SLOTS"])
      (auto intro: micros_apply_slot simp: assms(3) dest: micros_slots)
  have "micros t (fold (apply_add ans) devs t)" for t
    using fits by (intro fold_inv [where I = "\<lambda>_. True"]) (auto intro: micros_apply_add)
  then show ?thesis
    using 1 assms(1) None by (auto simp: mf_devices_apply_config_def Let_def intro: rtranclp_trans)
qed (use assms in \<open>simp add: mf_devices_apply_config_def\<close>)

lemma micros_apply_pending:
  assumes "pend_ok (tb_pending tb)"
  shows "micros tb (mf_devices_apply_pending ans tb)"
  unfolding mf_devices_apply_pending_def
  using assms by (intro fold_inv [where I = "\<lambda>tb. pend_ok (tb_pending tb)"])
    (auto intro: micros_apply_pending_one micros_pend)

subsection \<open>Reachability\<close>

text \<open>
  What happens to the table of a running daemon: requests, configurations, thread wake-ups, the end.
  Assumed are plugins that have a \<open>close\<close> function, new uuids that fit and are not yet used, and
  configuration uuids that fit a slot.
\<close>

definition plugins_close :: "plugin_registry option \<Rightarrow> bool" where
  "plugins_close reg \<longleftrightarrow> (case reg of Some r \<Rightarrow> \<forall>p \<in> set (rg_ops r). po_has p FnClose | None \<Rightarrow> True)"

inductive dev_reach :: "dev_table \<Rightarrow> bool" where
  r_init: "plugins_close reg \<Longrightarrow> dev_reach (mf_devices_init pts reg hist print)"
| r_add: "dev_reach tb \<Longrightarrow> length uuid_in < MF_UUID_LEN \<Longrightarrow>
    (uuid_in = [] \<Longrightarrow> gen \<noteq> [] \<and> length gen < MF_UUID_LEN \<and> \<not> uuid_in_use tb gen) \<Longrightarrow>
    mf_devices_add a gen name kind driver spec uuid_in tb = (r, tb') \<Longrightarrow> dev_reach tb'"
| r_put: "dev_reach tb \<Longrightarrow> mf_devices_put_settings tb u body rc msg = (st, e, tb') \<Longrightarrow> dev_reach tb'"
| r_action: "dev_reach tb \<Longrightarrow> mf_devices_action tb u action rc a = (st, tb') \<Longrightarrow> dev_reach tb'"
| r_delete: "dev_reach tb \<Longrightarrow> mf_devices_delete u tb = (st, tb') \<Longrightarrow> dev_reach tb'"
| r_config: "dev_reach tb \<Longrightarrow> devs_fit devs \<Longrightarrow> mf_devices_apply_config ans devs tb = (res, tb') \<Longrightarrow> dev_reach tb'"
| r_pending: "dev_reach tb \<Longrightarrow> dev_reach (mf_devices_apply_pending ans tb)"
| r_tick: "dev_reach tb \<Longrightarrow> tb_pts tb \<Longrightarrow> i < MF_DEVICE_SLOTS \<Longrightarrow> dev_reach (device_pt i a tb)"
| r_stop_all: "dev_reach tb \<Longrightarrow> dev_reach (mf_devices_request_stop_all tb)"
| r_quit: "dev_reach tb \<Longrightarrow> dev_reach (tb\<lparr>tb_quit := True\<rparr>)"

lemma init_simps [simp]:
  "tb_slots (mf_devices_init pts reg hist print) = replicate MF_DEVICE_SLOTS slot_zero"
  "tb_pending (mf_devices_init pts reg hist print) = replicate MF_DEVICE_SLOTS None"
  "tb_reg (mf_devices_init pts reg hist print) = reg" "tb_next (mf_devices_init pts reg hist print) = 0"
  "tb_log (mf_devices_init pts reg hist print) = []"
  by (simp_all add: mf_devices_init_def)

definition from_start :: "dev_table \<Rightarrow> bool" where
  "from_start tb \<longleftrightarrow>
     (\<exists>pts reg hist print. plugins_close reg \<and> micros (mf_devices_init pts reg hist print) tb)"

lemma from_start_step: "from_start tb \<Longrightarrow> micros tb tb' \<Longrightarrow> from_start tb'"
  unfolding from_start_def by (meson rtranclp_trans)

lemma from_start_slots: "from_start tb \<Longrightarrow> length (tb_slots tb) = MF_DEVICE_SLOTS"
  unfolding from_start_def using micros_slots by fastforce

lemma from_start_pend: "from_start tb \<Longrightarrow> pend_ok (tb_pending tb)"
proof -
  have "pend_ok (tb_pending (mf_devices_init pts reg hist print))" for pts reg hist print
    by (auto simp: pend_ok_def)
  then show "from_start tb \<Longrightarrow> pend_ok (tb_pending tb)" unfolding from_start_def using micros_pend by blast
qed

lemma reach_from_start: "dev_reach tb \<Longrightarrow> from_start tb"
proof (induction rule: dev_reach.induct)
  case (r_init reg pts hist print)
  then show ?case unfolding from_start_def by blast
next
  case (r_add tb uuid_in gen a name kind driver spec r tb')
  have "micros tb tb'" using add_ok [OF r_add(4,2,3)] by blast
  then show ?case using r_add(5) from_start_step by blast
next
  case (r_put tb u body rc msg st e tb')
  then show ?case using micros_put_settings from_start_step by blast
next
  case (r_action tb u action rc a st tb')
  then show ?case using micros_action from_start_step by blast
next
  case (r_delete tb u st tb')
  then show ?case using micros_delete from_start_step from_start_slots by blast
next
  case (r_config tb devs ans res tb')
  then show ?case using micros_apply_config from_start_step from_start_slots by blast
next
  case (r_pending tb ans)
  then show ?case using micros_apply_pending from_start_step from_start_pend by blast
next
  case (r_tick tb i a)
  then show ?case using micros_tick from_start_step by blast
next
  case (r_stop_all tb)
  then show ?case using micros_stop_all from_start_step from_start_slots by blast
next
  case (r_quit tb)
  then show ?case using m_quit micros_one from_start_step by blast
qed

text \<open>What holds at the start and is kept by the elementary steps holds of every reachable table.\<close>

locale table_law =
  fixes I :: "dev_table \<Rightarrow> bool"
  assumes init: "plugins_close reg \<Longrightarrow> I (mf_devices_init pts reg hist print)"
    and step: "micro tb tb' \<Longrightarrow> I tb \<Longrightarrow> I tb'"
begin

lemma steps: "micros tb tb' \<Longrightarrow> I tb \<Longrightarrow> I tb'"
  by (induction rule: rtranclp_induct) (auto intro: step)

lemma reachable: "dev_reach tb \<Longrightarrow> I tb"
  using reach_from_start init steps unfolding from_start_def by blast

end

end
