(* ===== verification/DeviceSafety.thy ===== *)
theory DeviceSafety
  imports DeviceReach
begin

section \<open>What holds of every reachable device table\<close>

text \<open>
  Every plugin context is closed at most once and never leaked: the log of calls is accounted against the
  contexts that the slots hold.
\<close>

subsection \<open>Plugin contexts are opened and closed once\<close>

definition opened_ctxs :: "dev_event list \<Rightarrow> nat list" where
  "opened_ctxs es = List.map_filter (\<lambda>e. case e of Opened h \<Rightarrow> Some h | _ \<Rightarrow> None) es"

definition closed_ctxs :: "dev_event list \<Rightarrow> nat list" where
  "closed_ctxs es = List.map_filter (\<lambda>e. case e of Closed h \<Rightarrow> Some h | _ \<Rightarrow> None) es"

fun ctxs :: "nat option \<Rightarrow> nat multiset" where
  "ctxs (Some h) = {#h#}"
| "ctxs None = {#}"

definition held :: "slot list \<Rightarrow> nat multiset" where
  "held ds = sum_list (map (\<lambda>d. ctxs (sl_ctx d)) ds)"

lemma opened_simps [simp]: "opened_ctxs [] = []" "opened_ctxs (es @ fs) = opened_ctxs es @ opened_ctxs fs"
  "opened_ctxs [Opened h] = [h]" "opened_ctxs [Closed h] = []"
  by (simp_all add: opened_ctxs_def List.map_filter_def)

lemma closed_simps [simp]: "closed_ctxs [] = []" "closed_ctxs (es @ fs) = closed_ctxs es @ closed_ctxs fs"
  "closed_ctxs [Opened h] = []" "closed_ctxs [Closed h] = [h]"
  by (simp_all add: closed_ctxs_def List.map_filter_def)

lemma quiet_none: "\<forall>e \<in> set es. quiet e \<Longrightarrow> opened_ctxs es = [] \<and> closed_ctxs es = []"
proof (induction es)
  case (Cons e es)
  then show ?case by (cases e) (simp_all add: opened_ctxs_def closed_ctxs_def List.map_filter_simps)
qed simp

lemma held_update: "i < length ds \<Longrightarrow> held (ds[i := d]) + ctxs (sl_ctx (ds ! i)) = held ds + ctxs (sl_ctx d)"
  unfolding held_def by (rule sum_list_update_add)

lemma held_same: "i < length ds \<Longrightarrow> sl_ctx d = sl_ctx (ds ! i) \<Longrightarrow> held (ds[i := d]) = held ds"
  using held_update [of i ds d] by simp

definition contexts_ok :: "dev_table \<Rightarrow> bool" where
  "contexts_ok tb \<longleftrightarrow> length (tb_slots tb) = MF_DEVICE_SLOTS \<and> plugins_close (tb_reg tb) \<and>
     (\<forall>i < MF_DEVICE_SLOTS. sl_ctx (tb_slots tb ! i) \<noteq> None \<longrightarrow>
        sl_in_use (tb_slots tb ! i) \<and> has (sl_ops (tb_slots tb ! i)) FnClose) \<and>
     opened_ctxs (tb_log tb) = [0..<tb_next tb] \<and> mset (closed_ctxs (tb_log tb)) + held (tb_slots tb) = mset [0..<tb_next tb]"

lemma close_events_closed:
  "sl_ctx d \<noteq> None \<Longrightarrow> has (sl_ops d) FnClose \<Longrightarrow> close_events d = [Closed (the (sl_ctx d))]"
  by (auto simp: close_events_def)

lemma found_closes: "plugins_close reg \<Longrightarrow> mf_plugins_find reg k dr = Some p \<Longrightarrow> po_has p FnClose"
  by (auto simp: plugins_close_def mf_plugins_find_def find_Some_iff split: option.splits)

lemma contexts_step: "micro tb tb' \<Longrightarrow> contexts_ok tb \<Longrightarrow> contexts_ok tb'"
proof (induction rule: micro.induct)
  case (m_log evs tb)
  then show ?case using quiet_none [of evs] by (simp add: contexts_ok_def)
next
  case (m_patch i tb d')
  then have "held ((tb_slots tb)[i := d']) = held (tb_slots tb)"
    by (intro held_same) (simp_all add: contexts_ok_def kept_def)
  then show ?case using m_patch by (auto simp: contexts_ok_def kept_def nth_list_update)
next
  case (m_free i tb d')
  let ?d = "tb_slots tb ! i"
  have none: "sl_ctx d' = None" using m_free by (auto simp: contexts_ok_def close_events_def split: option.splits)
  have upd: "held ((tb_slots tb)[i := d']) + ctxs (sl_ctx ?d) = held (tb_slots tb)"
    using held_update [of i "tb_slots tb" d'] m_free(1,5) none by (simp add: contexts_ok_def)
  have "mset (closed_ctxs (close_events ?d)) = ctxs (sl_ctx ?d)" "opened_ctxs (close_events ?d) = []"
    using m_free(1,5) by (cases "sl_ctx ?d"; fastforce simp: contexts_ok_def close_events_def)+
  then show ?case
    using m_free upd none by (auto simp: contexts_ok_def nth_list_update add_ac)
next
  case (m_clear i tb)
  then have "held ((tb_slots tb)[i := slot_zero]) = held (tb_slots tb)"
    by (intro held_same) (auto simp: contexts_ok_def slot_zero_def)
  then show ?case using m_clear by (auto simp: contexts_ok_def nth_list_update slot_zero_def)
next
  case (m_install i tb d')
  then have "held ((tb_slots tb)[i := d']) = held (tb_slots tb)"
    by (intro held_same) (auto simp: contexts_ok_def)
  then show ?case using m_install by (auto simp: contexts_ok_def nth_list_update)
next
  case (m_open i tb d' p k dr)
  have "held ((tb_slots tb)[i := d']) = held (tb_slots tb) + {#tb_next tb#}"
    using held_update [of i "tb_slots tb" d'] m_open(1,2,6,9) by (auto simp: contexts_ok_def)
  moreover have "has (sl_ops d') FnClose"
    using found_closes [OF _ m_open(8)] m_open(7,9) by (simp add: contexts_ok_def has_def)
  ultimately show ?case using m_open by (auto simp: contexts_ok_def nth_list_update)
qed (simp_all add: contexts_ok_def)

lemma slot_zero_simps [simp]: "sl_ctx slot_zero = None" "\<not> sl_in_use slot_zero"
  by (simp_all add: slot_zero_def)

lemma held_zero [simp]: "held (replicate n slot_zero) = {#}"
  by (induction n) (simp_all add: held_def)

interpretation contexts: table_law contexts_ok
proof unfold_locales
  show "contexts_ok (mf_devices_init pts reg hist print)" if "plugins_close reg" for reg pts hist print
    using that by (auto simp: contexts_ok_def)
qed (rule contexts_step)

lemma in_held: "h \<in># held ds \<longleftrightarrow> (\<exists>i < length ds. sl_ctx (ds ! i) = Some h)"
proof -
  have "h \<in># held ds \<longleftrightarrow> (\<exists>d \<in> set ds. sl_ctx d = Some h)"
  proof (induction ds)
    case (Cons d ds)
    then show ?case by (cases "sl_ctx d") (auto simp: held_def)
  qed (simp add: held_def)
  then show ?thesis by (metis in_set_conv_nth)
qed

lemma held_nth: "i < length ds \<Longrightarrow> j < length ds \<Longrightarrow> i \<noteq> j \<Longrightarrow> sl_ctx (ds ! i) = Some h \<Longrightarrow> sl_ctx (ds ! j) = Some h \<Longrightarrow>
    1 < count (held ds) h"
proof -
  assume a: "i < length ds" "j < length ds" "i \<noteq> j" "sl_ctx (ds ! i) = Some h" "sl_ctx (ds ! j) = Some h"
  let ?e = "(ds ! i)\<lparr>sl_ctx := None\<rparr>"
  have "held (ds[i := ?e]) + {#h#} = held ds" using held_update [of i ds ?e] a by simp
  then have "count (held ds) h = Suc (count (held (ds[i := ?e])) h)" by (metis count_add_mset add_mset_add_single)
  moreover have "h \<in># held (ds[i := ?e])" 
    unfolding in_held using a by (intro exI [of _ j]) simp
  then have "0 < count (held (ds[i := ?e])) h" by simp
  ultimately show ?thesis by simp
qed

lemma split_handles:
  assumes "mset c + m = mset [0..<n]"
  shows "distinct c" "set c \<subseteq> {0..<n}" "h < n \<Longrightarrow> h \<notin> set c \<longleftrightarrow> h \<in># m" "count m h \<le> 1"
proof -
  have cnt: "count (mset [0..<n]) x = (if x < n then 1 else 0)" for x
    using distinct_count_atmost_1 [of "[0..<n]"] by simp
  have sum: "count (mset c) x + count m x = (if x < n then 1 else 0)" for x
    using arg_cong [OF assms, of "\<lambda>u. count u x"] unfolding cnt by simp
  have le: "count (mset c) x + count m x \<le> 1" for x unfolding sum by simp
  have "count (mset c) x = (if x \<in> set c then 1 else 0)" for x
  proof (cases "x \<in> set c")
    case True
    then have "0 < count (mset c) x" by simp
    then have "count (mset c) x = 1" using le [of x] by linarith
    then show ?thesis using True by simp
  qed simp
  then show "distinct c" by (simp add: distinct_count_atmost_1)
  have "x < n" if "x \<in> set c" for x
  proof (rule ccontr)
    assume "\<not> x < n"
    then have "count (mset c) x = 0" using sum [of x] by (simp only: if_False)
    then show False using that by simp
  qed
  then show "set c \<subseteq> {0..<n}" by auto
  show "count m h \<le> 1" using le [of h] by linarith
  assume "h < n"
  then have "count (mset c) h + count m h = 1" using sum [of h] by (simp only: if_True)
  moreover have "0 < count m h \<longleftrightarrow> h \<in># m" by simp
  moreover have "0 < count (mset c) h \<longleftrightarrow> h \<in> set c" by simp
  ultimately show "h \<notin> set c \<longleftrightarrow> h \<in># m" by linarith
qed

text \<open>
  C1: Plugin contexts are neither leaked nor closed twice: in every reachable device table each context
  ever opened was closed at most once, a closed one is in no slot, one that was not closed is in
  exactly one slot, which is in use, and free slots hold none.
\<close>

theorem dev_contexts_accounted:
  assumes "dev_reach tb"
  shows "distinct (closed_ctxs (tb_log tb)) \<and> set (closed_ctxs (tb_log tb)) \<subseteq> set (opened_ctxs (tb_log tb)) \<and>
    (\<forall>h \<in> set (opened_ctxs (tb_log tb)). h \<notin> set (closed_ctxs (tb_log tb)) \<longleftrightarrow>
       (\<exists>!i. i < MF_DEVICE_SLOTS \<and> sl_ctx (tb_slots tb ! i) = Some h)) \<and>
    (\<forall>i < MF_DEVICE_SLOTS. sl_ctx (tb_slots tb ! i) \<noteq> None \<longrightarrow> sl_in_use (tb_slots tb ! i))"
proof -
  note ok = contexts.reachable [OF assms, unfolded contexts_ok_def]
  then have ms: "mset (closed_ctxs (tb_log tb)) + held (tb_slots tb) = mset [0..<tb_next tb]"
    and op: "opened_ctxs (tb_log tb) = [0..<tb_next tb]" and len: "length (tb_slots tb) = MF_DEVICE_SLOTS" by blast+
  note parts = split_handles [OF ms]
  have "h \<in># held (tb_slots tb) \<longleftrightarrow> (\<exists>!i. i < MF_DEVICE_SLOTS \<and> sl_ctx (tb_slots tb ! i) = Some h)" for h
    using held_nth [of _ "tb_slots tb" _ h] parts(4) [of h] unfolding in_held len by (metis linorder_not_le)
  then show ?thesis using parts(1-3) ok op by auto
qed

subsection \<open>Who is in the table\<close>

definition table_ok :: "dev_table \<Rightarrow> bool" where
  "table_ok tb \<longleftrightarrow> length (tb_slots tb) = MF_DEVICE_SLOTS \<and> pend_ok (tb_pending tb) \<and>
     (\<forall>i < MF_DEVICE_SLOTS. sl_in_use (tb_slots tb ! i) \<longrightarrow> slot_shape (tb_slots tb ! i)) \<and>
     (\<forall>i < MF_DEVICE_SLOTS. \<forall>j < MF_DEVICE_SLOTS. sl_in_use (tb_slots tb ! i) \<and> sl_in_use (tb_slots tb ! j) \<and>
        sl_uuid (tb_slots tb ! i) = sl_uuid (tb_slots tb ! j) \<longrightarrow> i = j)"

lemma table_ok_uuid:
  "table_ok tb \<Longrightarrow> i < MF_DEVICE_SLOTS \<Longrightarrow> j < MF_DEVICE_SLOTS \<Longrightarrow> sl_in_use (tb_slots tb ! i) \<Longrightarrow>
     sl_in_use (tb_slots tb ! j) \<Longrightarrow> sl_uuid (tb_slots tb ! i) = sl_uuid (tb_slots tb ! j) \<Longrightarrow> i = j"
  by (simp add: table_ok_def)

lemma table_ok_shape:
  "table_ok tb \<Longrightarrow> i < MF_DEVICE_SLOTS \<Longrightarrow> sl_in_use (tb_slots tb ! i) \<Longrightarrow> slot_shape (tb_slots tb ! i)"
  by (simp add: table_ok_def)

lemma table_ok_set:
  assumes "table_ok tb" "i < MF_DEVICE_SLOTS" "sl_in_use d \<Longrightarrow> slot_shape d"
    and "\<And>j. j < MF_DEVICE_SLOTS \<Longrightarrow> sl_in_use d \<Longrightarrow> sl_in_use (tb_slots tb ! j) \<Longrightarrow>
          sl_uuid (tb_slots tb ! j) = sl_uuid d \<Longrightarrow> j = i"
    and "tb_slots tb' = (tb_slots tb)[i := d]" "tb_pending tb' = tb_pending tb"
  shows "table_ok tb'"
proof -
  have len: "length (tb_slots tb) = MF_DEVICE_SLOTS" using assms(1) by (simp add: table_ok_def)
  have nth: "tb_slots tb' ! j = (if j = i then d else tb_slots tb ! j)" for j
    using assms(2) len by (simp add: assms(5) nth_list_update)
  have shape: "slot_shape (tb_slots tb' ! j)" if "j < MF_DEVICE_SLOTS" "sl_in_use (tb_slots tb' ! j)" for j
    using that assms(3) table_ok_shape [OF assms(1)] by (simp add: nth split: if_splits)
  have uuid: "j = k" if "j < MF_DEVICE_SLOTS" "k < MF_DEVICE_SLOTS" "sl_in_use (tb_slots tb' ! j)"
      "sl_in_use (tb_slots tb' ! k)" "sl_uuid (tb_slots tb' ! j) = sl_uuid (tb_slots tb' ! k)" for j k
  proof (cases "j = i \<or> k = i")
    case True
    then consider "j = k" | "j = i" "k \<noteq> i" | "j \<noteq> i" "k = i" by blast
    then show ?thesis
    proof cases
      case 2
      then show ?thesis using that assms(4) [of k] by (simp add: nth)
    next
      case 3
      then show ?thesis using that assms(4) [of j] by (simp add: nth)
    qed
  next
    case False
    then show ?thesis using that table_ok_uuid [OF assms(1)] by (simp add: nth)
  qed
  show ?thesis
    unfolding table_ok_def
  proof (intro conjI allI impI)
    show "length (tb_slots tb') = MF_DEVICE_SLOTS" by (simp add: assms(5) len)
    show "pend_ok (tb_pending tb')" using assms(1) by (simp add: assms(6) table_ok_def)
  qed (use shape uuid in blast)+
qed

lemma table_ok_cong:
  assumes "table_ok tb" "tb_slots tb' = tb_slots tb" "pend_ok (tb_pending tb) \<Longrightarrow> pend_ok (tb_pending tb')"
  shows "table_ok tb'"
  using assms(1,3) unfolding table_ok_def assms(2) by blast

lemma table_patch:
  assumes "table_ok tb" "i < MF_DEVICE_SLOTS" "sl_in_use (tb_slots tb ! i)" "kept (tb_slots tb ! i) d'"
    and "slot_shape (tb_slots tb ! i) \<Longrightarrow> slot_shape d'"
  shows "table_ok (set_slot i d' tb)"
proof (rule table_ok_set [OF assms(1,2)])
  show "slot_shape d'" by (rule assms(5), rule table_ok_shape [OF assms(1-3)])
  show "j = i" if "j < MF_DEVICE_SLOTS" "sl_in_use (tb_slots tb ! j)" "sl_uuid (tb_slots tb ! j) = sl_uuid d'" for j
    using table_ok_uuid [OF assms(1) that(1) assms(2) that(2) assms(3)] that(3) assms(4) by (simp add: kept_def)
qed simp_all

lemma table_fill:
  assumes "table_ok tb" "i < MF_DEVICE_SLOTS" "slot_shape d'" "\<not> uuid_in_use tb (sl_uuid d')"
    and "tb_slots tb' = (tb_slots tb)[i := d']" "tb_pending tb' = tb_pending tb"
  shows "table_ok tb'"
proof (rule table_ok_set [OF assms(1,2)])
  show "j = i" if "j < MF_DEVICE_SLOTS" "sl_in_use (tb_slots tb ! j)" "sl_uuid (tb_slots tb ! j) = sl_uuid d'" for j
    using that assms(3,4) unfolding uuid_in_use_iff slot_shape_def by metis
qed (use assms in simp_all)

lemma table_empty:
  assumes "table_ok tb" "i < MF_DEVICE_SLOTS" "\<not> sl_in_use d'" "tb_slots tb' = (tb_slots tb)[i := d']"
    "tb_pending tb' = tb_pending tb"
  shows "table_ok tb'"
  by (rule table_ok_set [OF assms(1,2) _ _ assms(4,5)]) (use assms(3) in simp_all)

lemma table_step: "micro tb tb' \<Longrightarrow> table_ok tb \<Longrightarrow> table_ok tb'"
proof (induction rule: micro.induct)
  case (m_patch i tb d')
  then show ?case by (intro table_patch)
next
  case (m_free i tb d')
  show ?case by (rule table_empty [OF m_free(5,1,3)]) simp_all
next
  case (m_clear i tb)
  show ?case by (rule table_empty [OF m_clear(3,1), of slot_zero]) simp_all
next
  case (m_install i tb d')
  show ?case by (rule table_fill [OF m_install(7,1,4,5)]) simp_all
next
  case (m_open i tb d' p k dr)
  show ?case by (rule table_fill [OF m_open(9,1,4,5)]) simp_all
next
  case (m_log evs tb)
  show ?case by (rule table_ok_cong [OF m_log(2)]) simp_all
next
  case (m_pending tb ps)
  show ?case by (rule table_ok_cong [OF m_pending(2)]) (use m_pending(1) in simp_all)
next
  case (m_quit tb)
  show ?case by (rule table_ok_cong [OF m_quit]) simp_all
qed

interpretation table: table_law table_ok
proof unfold_locales
  show "table_ok (mf_devices_init pts reg hist print)" if "plugins_close reg" for reg pts hist print
    by (auto simp: table_ok_def pend_ok_def)
qed (rule table_step)

end
