(* ===== verification/DeviceConfig.thy ===== *)
theory DeviceConfig
  imports DeviceSafety ConfigDoc
begin

section \<open>The device table follows the configuration\<close>

text \<open>
  What one accepted configuration does to the slots: every slot in use is patched, left or stopped
  (first pass), then the missing devices are added (second pass). \<open>conforms\<close> is the specification a
  live slot meets afterwards, \<open>follow\<close> the composition of both passes.
\<close>

subsection \<open>The first pass: patch or stop\<close>

definition stopped :: "bool \<Rightarrow> slot \<Rightarrow> slot" where
  "stopped pts d = (if pts then d\<lparr>sl_stop := True\<rparr> else slot_zero)"

definition follow :: "bool \<Rightarrow> mf_config_device list \<Rightarrow> slot \<Rightarrow> slot" where
  "follow pts devs d =
     (if \<not> sl_in_use d then d
      else case find_cfg devs (sl_uuid d) of
        Some n \<Rightarrow> if dv_enabled n \<and> \<not> identity_changed d n then patched n d else stopped pts d
      | None \<Rightarrow> stopped pts d)"

lemma stop_slot_slots:
  "sl_in_use (tb_slots tb ! i) \<Longrightarrow> tb_slots (stop_slot i tb) = (tb_slots tb)[i := stopped (tb_pts tb) (tb_slots tb ! i)]"
  "tb_pts (stop_slot i tb) = tb_pts tb" "tb_pending (stop_slot i tb) = tb_pending tb"
  "tb_reg (stop_slot i tb) = tb_reg tb"
  by (simp_all add: stop_slot_def stopped_def slot_clear_def Let_def)

lemma apply_slot_slots:
  "tb_slots (apply_slot devs i tb) = (tb_slots tb)[i := follow (tb_pts tb) devs (tb_slots tb ! i)]"
  "tb_pts (apply_slot devs i tb) = tb_pts tb" "tb_reg (apply_slot devs i tb) = tb_reg tb"
  by (auto simp: apply_slot_def follow_def stop_slot_slots Let_def split: option.splits)

lemma fold_apply_slot:
  assumes "n \<le> length (tb_slots tb)"
  shows "tb_slots (fold (apply_slot devs) [0..<n] tb) =
      map (follow (tb_pts tb) devs) (take n (tb_slots tb)) @ drop n (tb_slots tb) \<and>
    tb_pts (fold (apply_slot devs) [0..<n] tb) = tb_pts tb \<and>
    tb_reg (fold (apply_slot devs) [0..<n] tb) = tb_reg tb"
  using assms
proof (induction n)
  case (Suc n)
  let ?t = "fold (apply_slot devs) [0..<n] tb"
  have t: "tb_slots ?t = map (follow (tb_pts tb) devs) (take n (tb_slots tb)) @ drop n (tb_slots tb)"
      "tb_pts ?t = tb_pts tb" "tb_reg ?t = tb_reg tb"
    using Suc by simp_all
  have nth: "tb_slots ?t ! n = tb_slots tb ! n" using Suc(2) t(1) by (simp add: nth_append)
  have "tb_slots (apply_slot devs n ?t) = (tb_slots ?t)[n := follow (tb_pts tb) devs (tb_slots tb ! n)]"
    using apply_slot_slots(1) [of devs n ?t] nth t(2) by simp
  then show ?case
    using Suc(2) t by (simp add: apply_slot_slots take_Suc_conv_app_nth list_update_append Cons_nth_drop_Suc [symmetric])
qed simp

lemma pass1_slots:
  assumes "length (tb_slots tb) = MF_DEVICE_SLOTS"
  shows "tb_slots (fold (apply_slot devs) [0..<MF_DEVICE_SLOTS] tb) = map (follow (tb_pts tb) devs) (tb_slots tb)"
    "tb_pts (fold (apply_slot devs) [0..<MF_DEVICE_SLOTS] tb) = tb_pts tb"
    "tb_reg (fold (apply_slot devs) [0..<MF_DEVICE_SLOTS] tb) = tb_reg tb"
  using fold_apply_slot [of MF_DEVICE_SLOTS tb devs] assms by simp_all

text \<open>
  A live slot that is what the configuration says of it. A slot has 15 characters for the kind and
  the driver, a configuration entry 31; an entry that does not fit is taken for another device.
\<close>

definition slot_sized :: "mf_config_device \<Rightarrow> bool" where
  "slot_sized n \<longleftrightarrow> length (dv_kind n) < 16 \<and> length (dv_driver n) < 16 \<and> length (dv_bus n) < 32 \<and>
     int_ok (cm_port (dv_modbus n))"

definition conforms :: "mf_config_device list \<Rightarrow> slot \<Rightarrow> bool" where
  "conforms devs d \<longleftrightarrow> (\<exists>n \<in> set devs. dv_enabled n \<and> sl_uuid d = dv_uuid n \<and> sl_name d = dv_name n \<and>
     (slot_sized n \<longrightarrow> \<not> identity_changed d n))"

lemma stopped_not_live [simp]: "\<not> live (stopped pts d)"
  by (simp add: stopped_def live_def)

lemma follow_conforms:
  assumes "live (follow pts devs d)" "\<And>n. n \<in> set devs \<Longrightarrow> dv_enabled n \<Longrightarrow> length (dv_name n) < 32"
  shows "conforms devs (follow pts devs d)" "live d" "sl_uuid (follow pts devs d) = sl_uuid d"
    "sl_ctx (follow pts devs d) = sl_ctx d"
proof -
  have use: "sl_in_use d" using assms(1) by (auto simp: follow_def live_def split: if_splits)
  obtain n where n: "find_cfg devs (sl_uuid d) = Some n" "dv_enabled n" "\<not> identity_changed d n"
      "follow pts devs d = patched n d"
    using assms(1) use by (cases "find_cfg devs (sl_uuid d)") (auto simp: follow_def split: if_splits)
  note m = find_cfg_Some [OF n(1)]
  have "\<not> identity_changed (patched n d) n" using n(3) by (simp add: identity_changed_def)
  then show "conforms devs (follow pts devs d)"
    using m n assms(2) by (auto simp: conforms_def intro!: bexI [of _ n])
  show "live d" "sl_uuid (follow pts devs d) = sl_uuid d" "sl_ctx (follow pts devs d) = sl_ctx d"
    using assms(1) n(4) by (simp_all add: live_def)
qed

subsection \<open>A device keeps the identity it was configured with\<close>

lemma map_of_snoc: "map_of (xs @ [(k, v)]) x = (case map_of xs x of Some y \<Rightarrow> Some y | None \<Rightarrow> if x = k then Some v else None)"
  by (induction xs) auto

lemma map_of_add_extra: "map_of xs k = Some v \<Longrightarrow> map_of (add_extra xs es) k = Some v"
  by (induction xs es rule: add_extra.induct) (auto simp: map_of_snoc)

lemma device_members:
  "get_item (device_to_json n) ''bus'' = Some (string_or_null (dv_bus n))"
  "get_item (device_to_json n) ''usb'' = Some (usb_to_json (dv_usb n))"
  "get_item (device_to_json n) ''ble'' = Some (ble_to_json (dv_ble n))"
  "get_item (device_to_json n) ''modbus'' = Some (modbus_to_json (dv_modbus n))"
  by (auto simp: device_to_json_def intro!: map_of_add_extra)

lemma nonempty_string_or_null [simp]: "nonempty_str (Some (string_or_null s)) = (if s = [] then None else Some s)"
  by (simp add: nonempty_str_def string_or_null_def)

lemma endpoint_members:
  "opt_item (Some (usb_to_json u)) ''path'' = Some (string_or_null (cu_path u))"
  "opt_item (Some (usb_to_json u)) ''serial_id'' = Some (string_or_null (cu_serial_id u))"
  "opt_item (Some (ble_to_json b)) ''address'' = Some (string_or_null (cb_address b))"
  "opt_item (Some (modbus_to_json m)) ''ip'' = Some (string_or_null (cm_ip m))"
  "opt_item (Some (modbus_to_json m)) ''port'' = Some (JNumber (of_int (cm_port m)))"
  by (simp_all add: opt_item_def usb_to_json_def ble_to_json_def modbus_to_json_def int_number_def)

lemma spec_endpoint_device:
  assumes "int_ok (cm_port (dv_modbus n))"
  shows "spec_endpoint (device_to_json n) cap = mf_config_device_endpoint n cap"
proof -
  have "valueint (of_int (cm_port (dv_modbus n))) = cm_port (dv_modbus n)"
    using assms by (intro valueint_of_int) (simp_all add: int_ok_def)
  then show ?thesis
    unfolding spec_endpoint_def Let_def device_members endpoint_members
    by (simp add: mf_config_device_endpoint_def Let_def)
qed

lemma spec_bus_device: "length (dv_bus n) < 32 \<Longrightarrow>
    (case get_item (device_to_json n) ''bus'' of Some (JString s) \<Rightarrow> c_copy 32 s | _ \<Rightarrow> []) = dv_bus n"
  unfolding device_members by (simp add: string_or_null_def)

lemma filled_simps:
  assumes "filled d d'"
  shows "sl_in_use d'" "sl_stop d' = sl_stop d" "sl_uuid d' = sl_uuid d" "sl_name d' = sl_name d"
    "sl_kind d' = sl_kind d" "sl_driver d' = sl_driver d" "sl_bus d' = sl_bus d" "sl_endpoint d' = sl_endpoint d"
  using core_eqD [of d' "d\<lparr>sl_in_use := True, sl_ctx := sl_ctx d'\<rparr>"] assms by (simp_all add: filled_def)

lemma added_conforms:
  assumes "filled (added_slot tb (dv_uuid n) (dv_name n) (dv_kind n) (dv_driver n) (Some (device_to_json n))) d'"
    and "n \<in> set devs" "dv_enabled n" "entry_fits n"
  shows "conforms devs d'" "sl_uuid d' = dv_uuid n" "sl_name d' = dv_name n" "live d'"
proof -
  note f = filled_simps [OF assms(1)]
  show u: "sl_uuid d' = dv_uuid n" and nm: "sl_name d' = dv_name n" and "live d'"
    using f assms(3,4) by (simp_all add: added_slot_def entry_fits_def live_def)
  have "\<not> identity_changed d' n" if "slot_sized n"
    using that f spec_bus_device [of n] spec_endpoint_device [of n 160]
    by (simp add: identity_changed_def slot_sized_def added_slot_def identity_from_spec_def)
  then show "conforms devs d'" using assms(2,3) u nm by (auto simp: conforms_def)
qed

subsection \<open>The second pass: add\<close>

definition add_effect :: "dev_table \<Rightarrow> mf_config_device \<Rightarrow> dev_table \<Rightarrow> bool" where
  "add_effect tb n tb' \<longleftrightarrow> tb_slots tb' = tb_slots tb \<or>
     (\<exists>i < MF_DEVICE_SLOTS. \<not> sl_in_use (tb_slots tb ! i) \<and>
        (tb_slots tb' = (tb_slots tb)[i := slot_zero] \<or>
         (\<exists>d'. tb_slots tb' = (tb_slots tb)[i := d'] \<and> \<not> name_taken tb (dv_name n) None \<and>
            filled (added_slot tb (dv_uuid n) (dv_name n) (dv_kind n) (dv_driver n) (Some (device_to_json n))) d')))"

lemma add_from_cfg_effect:
  assumes "add_from_cfg a n tb = (r, tb')" "entry_fits n"
  shows "add_effect tb n tb'"
  using add_ok [OF assms(1) [unfolded add_from_cfg_def]] assms(2)
  unfolding add_effect_def entry_fits_def by auto

lemma apply_add_effect:
  assumes "entry_fits n" "dv_enabled n"
  shows "add_effect tb n (apply_add ans n tb)"
proof (cases "find_slot_uuid tb (dv_uuid n)")
  case None
  obtain r tb' where r: "add_from_cfg (ans (dv_uuid n)) n tb = (r, tb')" by force
  have "tb_slots (apply_add ans n tb) = tb_slots tb' "
    using None uuid_free [OF None] r assms(2) by (auto simp: apply_add_def split: sum.splits)
  then show ?thesis using add_from_cfg_effect [OF r assms(1)] by (simp add: add_effect_def)
qed (simp add: apply_add_def add_effect_def)

lemma add_effect_cases:
  assumes "add_effect tb n tb'" "length (tb_slots tb) = MF_DEVICE_SLOTS" "j < MF_DEVICE_SLOTS"
  shows "tb_slots tb' ! j = tb_slots tb ! j \<or> \<not> sl_in_use (tb_slots tb ! j) \<and>
     (tb_slots tb' ! j = slot_zero \<or> \<not> name_taken tb (dv_name n) None \<and>
        filled (added_slot tb (dv_uuid n) (dv_name n) (dv_kind n) (dv_driver n) (Some (device_to_json n))) (tb_slots tb' ! j))"
  using assms unfolding add_effect_def by (auto simp: nth_list_update split: if_split_asm)

text \<open>Used slots are not touched by the second pass, and a free one is at most filled with a live device.\<close>

definition keeps_used :: "dev_table \<Rightarrow> dev_table \<Rightarrow> bool" where
  "keeps_used tb tb' \<longleftrightarrow> length (tb_slots tb') = length (tb_slots tb) \<and>
     (\<forall>i < MF_DEVICE_SLOTS. tb_slots tb' ! i = tb_slots tb ! i \<or>
        \<not> sl_in_use (tb_slots tb ! i) \<and> (sl_in_use (tb_slots tb' ! i) \<longrightarrow> live (tb_slots tb' ! i)))"

lemma keeps_used_trans: "keeps_used a b \<Longrightarrow> keeps_used b c \<Longrightarrow> keeps_used a c"
  unfolding keeps_used_def by metis

lemma keeps_usedD:
  "keeps_used tb tb' \<Longrightarrow> i < MF_DEVICE_SLOTS \<Longrightarrow> sl_in_use (tb_slots tb ! i) \<Longrightarrow> tb_slots tb' ! i = tb_slots tb ! i"
  unfolding keeps_used_def by blast

lemma filled_live: "filled (added_slot tb u n k dr sp) d' \<Longrightarrow> live d'"
  using filled_simps(1,2) by (simp add: live_def added_slot_def)

lemma add_effect_keeps:
  assumes "add_effect tb n tb'" "length (tb_slots tb) = MF_DEVICE_SLOTS"
  shows "keeps_used tb tb'"
proof -
  have "length (tb_slots tb') = length (tb_slots tb)" using assms(1) by (auto simp: add_effect_def)
  then show ?thesis
    using add_effect_cases [OF assms] filled_live slot_zero_simps unfolding keeps_used_def by metis
qed

definition all_conform :: "mf_config_device list \<Rightarrow> dev_table \<Rightarrow> bool" where
  "all_conform devs tb \<longleftrightarrow> length (tb_slots tb) = MF_DEVICE_SLOTS \<and>
     (\<forall>i < MF_DEVICE_SLOTS. live (tb_slots tb ! i) \<longrightarrow> conforms devs (tb_slots tb ! i))"

lemma apply_add_conform:
  assumes "entry_fits n" "n \<in> set devs" "all_conform devs tb"
  shows "all_conform devs (apply_add ans n tb) \<and> keeps_used tb (apply_add ans n tb)"
proof (cases "dv_enabled n")
  case True
  have len: "length (tb_slots tb) = MF_DEVICE_SLOTS" using assms(3) by (simp add: all_conform_def)
  note eff = apply_add_effect [OF assms(1) True, of tb ans]
  note keep = add_effect_keeps [OF eff len]
  have "conforms devs (tb_slots (apply_add ans n tb) ! j)"
    if j: "j < MF_DEVICE_SLOTS" "live (tb_slots (apply_add ans n tb) ! j)" for j
  proof -
    have "\<not> live slot_zero" by (simp add: live_def)
    then show ?thesis
      using add_effect_cases [OF eff len j(1)] j added_conforms(1) [OF _ assms(2) True assms(1)] assms(3)
      unfolding all_conform_def by metis
  qed
  then show ?thesis using keep len by (simp add: all_conform_def keeps_used_def)
qed (use assms in \<open>simp add: apply_add_def keeps_used_def\<close>)

lemma fold_apply_add:
  assumes "\<And>n. n \<in> set ns \<Longrightarrow> entry_fits n \<and> n \<in> set devs" "all_conform devs tb"
  shows "all_conform devs (fold (apply_add ans) ns tb) \<and> keeps_used tb (fold (apply_add ans) ns tb)"
  using assms
proof (induction ns arbitrary: tb)
  case (Cons n ns)
  then have "all_conform devs (apply_add ans n tb) \<and> keeps_used tb (apply_add ans n tb)"
    by (intro apply_add_conform) simp_all
  moreover from this have "all_conform devs (fold (apply_add ans) ns (apply_add ans n tb)) \<and>
      keeps_used (apply_add ans n tb) (fold (apply_add ans) ns (apply_add ans n tb))"
    using Cons by simp
  ultimately show ?case using keeps_used_trans by auto
qed (simp add: keeps_used_def)

lemma pass1_conform:
  assumes "length (tb_slots tb) = MF_DEVICE_SLOTS" "validate_apply tb devs = None"
  shows "all_conform devs (fold (apply_slot devs) [0..<MF_DEVICE_SLOTS] tb)"
proof -
  have "length (dv_name n) < 32" if "n \<in> set devs" "dv_enabled n" for n
    using entries_error_None [OF validate_None(1) [OF assms(2)]] that by blast
  then show ?thesis
    using follow_conforms(1) [of "tb_pts tb" devs] assms(1) by (simp add: all_conform_def pass1_slots)
qed

lemma apply_config_conform:
  assumes "mf_devices_apply_config ans devs tb = (Inr p, tb')" "devs_fit devs" "length (tb_slots tb) = MF_DEVICE_SLOTS"
  shows "all_conform devs tb'" "keeps_used (fold (apply_slot devs) [0..<MF_DEVICE_SLOTS] tb) tb'"
    "validate_apply tb devs = None"
proof -
  show v: "validate_apply tb devs = None"
    using assms(1) by (auto simp: mf_devices_apply_config_def split: option.splits)
  have "entry_fits n \<and> n \<in> set devs" if "n \<in> set devs" for n using validate_fits [OF v assms(2) that] that by simp
  note f = fold_apply_add [OF this pass1_conform [OF assms(3) v]]
  have "tb' = fold (apply_add ans) devs (fold (apply_slot devs) [0..<MF_DEVICE_SLOTS] tb)"
    using assms(1) v by (auto simp: mf_devices_apply_config_def Let_def)
  then show "all_conform devs tb'" "keeps_used (fold (apply_slot devs) [0..<MF_DEVICE_SLOTS] tb) tb'"
    using f by simp_all
qed

end
