(* ===== verification/DeviceFollow.thy ===== *)
theory DeviceFollow
  imports DeviceConfig
begin

section \<open>Properties of the device table\<close>

text \<open>
  Names of live devices are distinct, slots keep their shape and the queue its form in every reachable
  table; these invariants are carried by the elementary steps of \<open>DeviceSteps\<close>.
\<close>

subsection \<open>Live names are distinct\<close>

definition names_ok :: "slot list \<Rightarrow> bool" where
  "names_ok ds \<longleftrightarrow> (\<forall>i < length ds. \<forall>j < length ds. live (ds ! i) \<and> live (ds ! j) \<and> sl_name (ds ! i) = sl_name (ds ! j) \<longrightarrow> i = j)"

lemma names_okD:
  "names_ok ds \<Longrightarrow> i < length ds \<Longrightarrow> j < length ds \<Longrightarrow> live (ds ! i) \<Longrightarrow> live (ds ! j) \<Longrightarrow>
     sl_name (ds ! i) = sl_name (ds ! j) \<Longrightarrow> i = j"
  by (simp add: names_ok_def)

lemma names_update:
  assumes "names_ok ds" "\<And>j. i < length ds \<Longrightarrow> live d \<Longrightarrow> j < length ds \<Longrightarrow> live (ds ! j) \<Longrightarrow> sl_name (ds ! j) = sl_name d \<Longrightarrow> j = i"
  shows "names_ok (ds[i := d])"
  unfolding names_ok_def length_list_update
proof (intro allI impI)
  fix j k
  assume jk: "j < length ds" "k < length ds"
    "live (ds[i := d] ! j) \<and> live (ds[i := d] ! k) \<and> sl_name (ds[i := d] ! j) = sl_name (ds[i := d] ! k)"
  consider "j = i" "k = i" | "j = i" "k \<noteq> i" | "j \<noteq> i" "k = i" | "j \<noteq> i" "k \<noteq> i" by blast
  then show "j = k"
  proof cases
    case 2
    then show ?thesis using jk assms(2) [of k] by simp
  next
    case 3
    then show ?thesis using jk assms(2) [of j] by simp
  next
    case 4
    then show ?thesis using jk names_okD [OF assms(1)] by simp
  qed simp
qed

lemma names_update_same:
  assumes "names_ok ds" "live d \<Longrightarrow> live (ds ! i) \<and> sl_name d = sl_name (ds ! i)"
  shows "names_ok (ds[i := d])"
proof (rule names_update [OF assms(1)])
  show "j = i" if "i < length ds" "live d" "j < length ds" "live (ds ! j)" "sl_name (ds ! j) = sl_name d" for j
    using names_okD [OF assms(1) that(3,1,4)] assms(2) that by simp
qed

lemma names_update_fresh:
  assumes "names_ok (tb_slots tb)" "length (tb_slots tb) = MF_DEVICE_SLOTS" "\<not> name_taken tb (sl_name d) (Some i)"
  shows "names_ok ((tb_slots tb)[i := d])"
  using assms by (intro names_update) (auto simp: name_taken_iff live_def)

lemma names_stop:
  assumes "names_ok (tb_slots tb)"
  shows "names_ok (tb_slots (stop_slot i tb))"
proof (cases "sl_in_use (tb_slots tb ! i)")
  case True
  then show ?thesis
    using names_update_same [OF assms, of "stopped (tb_pts tb) (tb_slots tb ! i)" i] by (simp add: stop_slot_slots)
qed (simp add: stop_slot_def assms)

lemma not_taken_skip: "\<not> name_taken tb n None \<Longrightarrow> \<not> name_taken tb n (Some i)"
  by (auto simp: name_taken_iff)

lemma put_keeps_name:
  "put_poll rt d = Inr (d', evs) \<Longrightarrow> sl_name d' = sl_name d"
  "put_capture rt d = Inr (d', evs) \<Longrightarrow> sl_name d' = sl_name d"
  "put_retention tb rt d = Inr (d', evs) \<Longrightarrow> sl_name d' = sl_name d"
  "put_active rt d = Inr (d', evs) \<Longrightarrow> sl_name d' = sl_name d"
  by (auto simp: put_poll_def put_capture_def put_retention_def put_active_def Let_def
      split: option.splits if_splits prod.splits json.splits)

lemma put_steps_names:
  "put_steps fs d = (e, d', evs) \<Longrightarrow> (\<And>f d d' evs. f \<in> set fs \<Longrightarrow> f d = Inr (d', evs) \<Longrightarrow> sl_name d' = sl_name d) \<Longrightarrow>
     sl_name d' = sl_name d"
proof (induction fs d arbitrary: e d' evs rule: put_steps.induct)
  case (2 f fs d)
  show ?case
  proof (cases "f d")
    case (Inr x)
    obtain d1 evs1 where x: "x = (d1, evs1)" by force
    obtain e2 d2 evs2 where r: "put_steps fs d1 = (e2, d2, evs2)" by (metis prod_cases3)
    have "sl_name d2 = sl_name d1" using 2(1) [of "(d1, evs1)" d1 evs1] r 2(3) Inr x by auto
    moreover have "sl_name d1 = sl_name d" using 2(3) [of f d d1 evs1] Inr x by simp
    ultimately show ?thesis using 2(2) Inr x r by auto
  qed (use 2 in simp)
qed simp

lemma put_generic_name:
  assumes "put_generic tb i rt d = (e, d', evs)"
  shows "sl_name d' = sl_name d \<or> \<not> name_taken tb (sl_name d') (Some i)"
proof (cases "case get_item rt ''active'' of Some (JBool _) \<Rightarrow> False | Some _ \<Rightarrow> True | None \<Rightarrow> False")
  case True
  then show ?thesis using assms by (simp add: put_generic_def)
next
  case False
  let ?rest = "[put_poll rt, put_capture rt, put_retention tb rt, put_active rt]"
  have p: "put_steps (put_name tb i rt # ?rest) d = (e, d', evs)" using assms False by (simp only: put_generic_def if_False)
  show ?thesis
  proof (cases "put_name tb i rt d")
    case (Inl e1)
    then show ?thesis using p by simp
  next
    case (Inr x)
    obtain d1 evs1 where x: "x = (d1, evs1)" by force
    obtain e2 d2 evs2 where r: "put_steps ?rest d1 = (e2, d2, evs2)" by (metis prod_cases3)
    have "sl_name d2 = sl_name d1" using r by (rule put_steps_names) (auto dest: put_keeps_name)
    moreover have "sl_name d1 = sl_name d \<or> \<not> name_taken tb (sl_name d1) (Some i)"
      using Inr x by (auto simp: put_name_def Let_def split: option.splits json.splits if_splits)
    moreover have "d' = d2" using p Inr x r by simp
    ultimately show ?thesis by simp
  qed
qed

lemma put_settings_names:
  assumes "mf_devices_put_settings tb u body rc msg = (st, e, tb')" "names_ok (tb_slots tb)"
    "length (tb_slots tb) = MF_DEVICE_SLOTS"
  shows "names_ok (tb_slots tb')"
proof (cases "find_live_mut tb u")
  case None
  then show ?thesis using assms by (simp add: mf_devices_put_settings_def)
next
  case (Some i)
  let ?d = "tb_slots tb ! i"
  let ?obj = "case body of Some (JObject kvs) \<Rightarrow> True | _ \<Rightarrow> False"
  obtain e1 d1 evs1 where r: "(if ?obj then put_generic tb i (the body) ?d else (None, ?d, [])) = (e1, d1, evs1)"
    by (metis prod_cases3)
  have live: "live ?d" using find_live_mut_Some [OF Some] by simp
  have s: "tb_slots tb' = (tb_slots tb)[i := d1]"
  proof (cases ?obj)
    case True
    then have "put_generic tb i (the body) ?d = (e1, d1, evs1)" using r by simp
    then show ?thesis using assms(1) Some True by (auto simp: mf_devices_put_settings_def Let_def split: if_splits)
  next
    case False
    then have "d1 = ?d" "evs1 = []" using r by auto
    then show ?thesis using assms(1) Some False by (auto simp: mf_devices_put_settings_def Let_def split: if_splits)
  qed
  have "sl_name d1 = sl_name ?d \<or> \<not> name_taken tb (sl_name d1) (Some i)"
    using r put_generic_name by (cases ?obj) auto
  then show ?thesis
    unfolding s using names_update_same [OF assms(2), of d1 i] names_update_fresh [OF assms(2,3), of d1 i] live by blast
qed

lemma add_effect_names:
  assumes "add_effect tb n tb'" "entry_fits n" "dv_enabled n" "names_ok (tb_slots tb)" "length (tb_slots tb) = MF_DEVICE_SLOTS"
  shows "names_ok (tb_slots tb')"
  using assms(1) unfolding add_effect_def
proof (elim disjE exE conjE)
  fix i d'
  assume d': "\<not> name_taken tb (dv_name n) None"
    "filled (added_slot tb (dv_uuid n) (dv_name n) (dv_kind n) (dv_driver n) (Some (device_to_json n))) d'"
    "tb_slots tb' = (tb_slots tb)[i := d']"
  have "sl_name d' = dv_name n" using added_conforms(3) [OF d'(2), of "[n]"] assms(2,3) by simp
  then show ?thesis
    unfolding d'(3) using names_update_fresh [OF assms(4,5)] not_taken_skip [OF d'(1)] by simp
next
  fix i
  assume "tb_slots tb' = (tb_slots tb)[i := slot_zero]"
  then show ?thesis using names_update_same [OF assms(4), of slot_zero i] by (simp add: live_def)
qed (simp add: assms)

lemma conform_names:
  assumes "all_conform devs tb" "table_ok tb" "distinct (filter (\<lambda>n. n \<noteq> []) (map dv_name devs))"
  shows "names_ok (tb_slots tb)"
  unfolding names_ok_def
proof (intro allI impI)
  fix i j
  assume ij: "i < length (tb_slots tb)" "j < length (tb_slots tb)"
    "live (tb_slots tb ! i) \<and> live (tb_slots tb ! j) \<and> sl_name (tb_slots tb ! i) = sl_name (tb_slots tb ! j)"
  have len: "length (tb_slots tb) = MF_DEVICE_SLOTS" using assms(1) by (simp add: all_conform_def)
  obtain n where n: "n \<in> set devs" "sl_uuid (tb_slots tb ! i) = dv_uuid n" "sl_name (tb_slots tb ! i) = dv_name n"
    using assms(1) ij len by (auto simp: all_conform_def conforms_def)
  obtain m where m: "m \<in> set devs" "sl_uuid (tb_slots tb ! j) = dv_uuid m" "sl_name (tb_slots tb ! j) = dv_name m"
    using assms(1) ij len by (auto simp: all_conform_def conforms_def)
  have "dv_name n \<noteq> []"
    using table_ok_shape [OF assms(2), of i] ij len n(3) by (simp add: live_def slot_shape_def)
  then have "n = m"
    using assms(3) n m ij
  proof (induction devs)
    case (Cons d ds)
    then show ?case by (cases "dv_name d = []") (auto simp: image_iff)
  qed simp
  then show "i = j"
    using table_ok_uuid [OF assms(2), of i j] ij len n(2) m(2) by (simp add: live_def)
qed

lemma reach_table: "dev_reach tb \<Longrightarrow> table_ok tb" by (rule table.reachable)

lemma reach_len: "dev_reach tb \<Longrightarrow> length (tb_slots tb) = MF_DEVICE_SLOTS"
  using reach_table by (simp add: table_ok_def)

lemma apply_pending_one_names:
  assumes "pend_ok (tb_pending tb)" "i < MF_DEVICE_SLOTS" "names_ok (tb_slots tb)" "length (tb_slots tb) = MF_DEVICE_SLOTS"
  shows "names_ok (tb_slots (apply_pending_one ans i tb))"
proof (cases "tb_pending tb ! i")
  case (Some n)
  have n: "entry_fits n" "dv_enabled n" using assms(1,2) Some unfolding pend_ok_def by metis+
  obtain r tb' where r: "add_from_cfg (ans (dv_uuid n)) n tb = (r, tb')" by force
  have "tb_slots (apply_pending_one ans i tb) \<in> {tb_slots tb, tb_slots tb'}"
    using Some r by (auto simp: apply_pending_one_def split: sum.splits)
  then show ?thesis using add_effect_names [OF add_from_cfg_effect [OF r n(1)] n assms(3,4)] assms(3) by auto
qed (simp add: apply_pending_one_def assms)

lemma apply_pending_names:
  assumes "pend_ok (tb_pending tb)" "names_ok (tb_slots tb)" "length (tb_slots tb) = MF_DEVICE_SLOTS"
  shows "names_ok (tb_slots (mf_devices_apply_pending ans tb))"
proof -
  let ?I = "\<lambda>t :: dev_table. names_ok (tb_slots t) \<and> pend_ok (tb_pending t) \<and> length (tb_slots t) = MF_DEVICE_SLOTS"
  have "?I (fold (apply_pending_one ans) [0..<MF_DEVICE_SLOTS] tb)"
  proof (rule fold_keeps [where I = ?I])
    fix i and t :: dev_table
    assume i: "i \<in> set [0..<MF_DEVICE_SLOTS]" and I: "?I t"
    then have "micros t (apply_pending_one ans i t)" by (intro micros_apply_pending_one) simp_all
    then show "?I (apply_pending_one ans i t)"
      using apply_pending_one_names [of t i ans] i I micros_pend micros_slots by simp
  qed (use assms in simp)
  then show ?thesis by (simp add: mf_devices_apply_pending_def)
qed

lemma add_names:
  assumes "mf_devices_add a gen name kind driver spec uuid_in tb = (r, tb')" "length uuid_in < MF_UUID_LEN"
    "uuid_in = [] \<Longrightarrow> gen \<noteq> [] \<and> length gen < MF_UUID_LEN \<and> \<not> uuid_in_use tb gen"
    "names_ok (tb_slots tb)" "length (tb_slots tb) = MF_DEVICE_SLOTS"
  shows "names_ok (tb_slots tb')"
proof -
  from add_ok [OF assms(1-3)] consider "tb_slots tb' = tb_slots tb"
    | i where "tb_slots tb' = (tb_slots tb)[i := slot_zero]"
    | i d' where "tb_slots tb' = (tb_slots tb)[i := d']" "\<not> name_taken tb name None" "length name < 32"
        "filled (added_slot tb (if uuid_in \<noteq> [] then uuid_in else gen) name kind driver spec) d'"
    by blast
  then show ?thesis
  proof cases
    case 2
    then show ?thesis using names_update_same [OF assms(4), of slot_zero i] by (simp add: live_def)
  next
    case 3
    have "sl_name d' = name" using filled_simps(4) [OF 3(4)] 3(3) by (simp add: added_slot_def)
    then show ?thesis
      unfolding 3(1) using names_update_fresh [OF assms(4,5)] not_taken_skip [OF 3(2)] by simp
  qed (use assms in simp)
qed

lemma action_names:
  assumes "mf_devices_action tb u action rc a = (st, tb')" "names_ok (tb_slots tb)"
  shows "names_ok (tb_slots tb')"
proof (cases "find_live_mut tb u")
  case (Some i)
  obtain d' evs where r: "refresh_reading tb a (tb_slots tb ! i) = (d', evs)" by force
  note c = core_eqD [OF core_refresh [OF r]]
  have "tb_slots tb' = tb_slots tb \<or> tb_slots tb' = (tb_slots tb)[i := d']"
    using assms(1) Some r by (auto simp: mf_devices_action_def Let_def split: if_splits)
  then show ?thesis using names_update_same [OF assms(2), of d' i] assms(2) c by (auto simp: live_def)
qed (use assms in \<open>simp add: mf_devices_action_def\<close>)

lemma delete_as_stop:
  assumes "mf_devices_delete u tb = (st, tb')" "u \<noteq> []" "find_slot_uuid (pending_cancel u tb) u = Some i"
  shows "st = 202" "\<exists>evs. tb' = stop_slot i (log_events evs (pending_cancel u tb))"
  using assms find_slot_uuid_Some [OF assms(3)] by (auto simp: mf_devices_delete_def stop_slot_def Let_def)

lemma delete_names:
  assumes "mf_devices_delete u tb = (st, tb')" "names_ok (tb_slots tb)"
  shows "names_ok (tb_slots tb')"
proof (cases "u = [] \<or> find_slot_uuid (pending_cancel u tb) u = None")
  case True
  then show ?thesis using assms by (auto simp: mf_devices_delete_def Let_def split: if_splits)
next
  case False
  then obtain i evs where "tb' = stop_slot i (log_events evs (pending_cancel u tb))"
    using delete_as_stop [OF assms(1)] by auto
  then show ?thesis using names_stop [of "log_events evs (pending_cancel u tb)" i] assms(2) by simp
qed

lemma config_names:
  assumes "mf_devices_apply_config ans devs tb = (res, tb')" "devs_fit devs" "dev_reach tb" "names_ok (tb_slots tb)"
  shows "names_ok (tb_slots tb')"
proof (cases res)
  case (Inl e)
  then have "tb' = tb" using assms(1) by (auto simp: mf_devices_apply_config_def Let_def split: option.splits)
  then show ?thesis using assms(4) by simp
next
  case (Inr p)
  note c = apply_config_conform [OF assms(1) [unfolded Inr] assms(2) reach_len [OF assms(3)]]
  have "table_ok tb'" using assms(1-3) reach_table dev_reach.r_config by blast
  then show ?thesis
    using conform_names [OF c(1)] entries_error_None [OF validate_None(1) [OF c(3)]] by blast
qed

lemma tick_names:
  assumes "names_ok (tb_slots tb)"
  shows "names_ok (tb_slots (device_pt i a tb))"
proof -
  obtain d' evs where r: "refresh_reading tb a (tb_slots tb ! i) = (d', evs)" by force
  have c: "core d' = core (tb_slots tb ! i)" using core_refresh [OF r] .
  have "tb_slots (device_pt i a tb) = tb_slots tb \<or>
     (\<exists>d1. tb_slots (device_pt i a tb) = (tb_slots tb)[i := d1] \<and> (\<not> live d1 \<or> core d1 = core (tb_slots tb ! i)))"
    unfolding device_pt_def Let_def r prod.case
    using c core_take_error [of a "tb_slots tb ! i"] by (auto simp: live_def)
  then obtain d1 where "tb_slots (device_pt i a tb) = tb_slots tb \<or> tb_slots (device_pt i a tb) = (tb_slots tb)[i := d1]"
      "\<not> live d1 \<or> core d1 = core (tb_slots tb ! i)" by blast
  then show ?thesis
    using names_update_same [OF assms, of d1 i] core_eqD [of d1 "tb_slots tb ! i"] assms by (auto simp: live_def)
qed

lemma stop_all_names: "names_ok (tb_slots (mf_devices_request_stop_all tb))"
proof -
  have "\<not> live (if sl_in_use d then d\<lparr>sl_stop := True\<rparr> else d)" for d by (simp add: live_def)
  then show ?thesis by (auto simp: names_ok_def mf_devices_request_stop_all_def)
qed

lemma reach_names: "dev_reach tb \<Longrightarrow> names_ok (tb_slots tb)"
proof (induction rule: dev_reach.induct)
  case (r_init reg pts hist print)
  then show ?case by (auto simp: names_ok_def live_def)
next
  case (r_add tb uuid_in gen a name kind driver spec r tb')
  then show ?case using add_names reach_len by blast
next
  case (r_put tb u body rc msg st e tb')
  then show ?case using put_settings_names reach_len by blast
next
  case (r_action tb u action rc a st tb')
  then show ?case using action_names by blast
next
  case (r_delete tb u st tb')
  then show ?case using delete_names by blast
next
  case (r_config tb devs ans res tb')
  then show ?case using config_names by blast
next
  case (r_pending tb ans)
  then show ?case using apply_pending_names reach_table reach_len by (simp add: table_ok_def)
qed (simp_all add: tick_names stop_all_names)

text \<open>
  C6: The device table is consistent in every reachable state: no two slots in use have the same uuid, no
  two live devices the same name, every device has a uuid and a name that fit, and a poll interval
  that is not below its driver's minimum, as the code compares them (a NaN, which a settings request can
  ask for, is not below anything); and a device waits at most once in the queue, enabled and with a name.
\<close>

theorem dev_table_consistent:
  assumes "dev_reach tb"
  shows "(\<forall>i < MF_DEVICE_SLOTS. \<forall>j < MF_DEVICE_SLOTS.
      (sl_in_use (tb_slots tb ! i) \<and> sl_in_use (tb_slots tb ! j) \<and> sl_uuid (tb_slots tb ! i) = sl_uuid (tb_slots tb ! j) \<or>
       live (tb_slots tb ! i) \<and> live (tb_slots tb ! j) \<and> sl_name (tb_slots tb ! i) = sl_name (tb_slots tb ! j))
      \<longrightarrow> i = j) \<and>
    (\<forall>i < MF_DEVICE_SLOTS. sl_in_use (tb_slots tb ! i) \<longrightarrow> slot_shape (tb_slots tb ! i)) \<and>
    pend_ok (tb_pending tb)"
proof -
  note t = reach_table [OF assms] and n = reach_names [OF assms] and l = reach_len [OF assms]
  have "i = j" if "i < MF_DEVICE_SLOTS" "j < MF_DEVICE_SLOTS"
      "sl_in_use (tb_slots tb ! i) \<and> sl_in_use (tb_slots tb ! j) \<and> sl_uuid (tb_slots tb ! i) = sl_uuid (tb_slots tb ! j) \<or>
       live (tb_slots tb ! i) \<and> live (tb_slots tb ! j) \<and> sl_name (tb_slots tb ! i) = sl_name (tb_slots tb ! j)" for i j
    using that table_ok_uuid [OF t] names_okD [OF n] l by metis
  then show ?thesis using table_ok_shape [OF t] t unfolding table_ok_def by blast
qed

end
