(* ===== verification/DeviceRules.thy ===== *)
theory DeviceRules
  imports DeviceFollow
begin

section \<open>What configurations and requests do to the devices\<close>

text \<open>
  What an accepted configuration guarantees for the live devices, and that applying it once more
  interrupts none.
\<close>

lemma dying_flag:
  assumes "mf_devices_apply_config ans devs tb = (Inr p, tb')" "length (tb_slots tb') = MF_DEVICE_SLOTS"
    "\<not> p" "i < MF_DEVICE_SLOTS" "sl_in_use (tb_slots tb' ! i)"
  shows "live (tb_slots tb' ! i)"
proof -
  have "\<not> mf_devices_any_dying tb'"
    using assms(1,3) by (auto simp: mf_devices_apply_config_def Let_def split: option.splits)
  then show ?thesis using assms(2,4,5) by (auto simp: mf_devices_any_dying_def list_ex_iff live_def)
qed

text \<open>
  C11: The table follows the configuration: a configuration that is rejected changes nothing; after one
  that is accepted every live device is an enabled entry of it, under the entry's uuid and name and,
  where the entry's kind and driver fit a slot, with the entry's kind, driver, bus and endpoint; and
  when the call reports that nothing is pending, no device is stopping any more.
\<close>

theorem config_followed:
  assumes "dev_reach tb" "devs_fit devs" "mf_devices_apply_config ans devs tb = (res, tb')"
  shows "(\<forall>e. res = Inl e \<longrightarrow> tb' = tb) \<and>
    (\<forall>p. res = Inr p \<longrightarrow>
       (\<forall>i < MF_DEVICE_SLOTS. live (tb_slots tb' ! i) \<longrightarrow> conforms devs (tb_slots tb' ! i)) \<and>
       (\<not> p \<longrightarrow> (\<forall>i < MF_DEVICE_SLOTS. sl_in_use (tb_slots tb' ! i) \<longrightarrow> live (tb_slots tb' ! i))))"
proof (intro conjI allI impI)
  show "tb' = tb" if "res = Inl e" for e
    using assms(3) that by (auto simp: mf_devices_apply_config_def Let_def split: option.splits)
next
  fix p i
  assume r: "res = Inr p" and i: "i < MF_DEVICE_SLOTS"
  note c = apply_config_conform [OF assms(3) [unfolded r] assms(2) reach_len [OF assms(1)]]
  show "conforms devs (tb_slots tb' ! i)" if "live (tb_slots tb' ! i)"
    using c(1) i that by (simp add: all_conform_def)
  show "live (tb_slots tb' ! i)" if "\<not> p" "sl_in_use (tb_slots tb' ! i)"
    using dying_flag [OF assms(3) [unfolded r] _ that(1) i that(2)] c(1) by (simp add: all_conform_def)
qed

subsection \<open>The same configuration again\<close>

lemma micros_reg: "micros tb tb' \<Longrightarrow> tb_reg tb' = tb_reg tb"
  by (induction rule: rtranclp_induct) (auto elim!: micro.cases)

lemma entries_error_reg: "tb_reg tb = tb_reg tb' \<Longrightarrow> entries_error tb ds = entries_error tb' ds"
proof (induction ds)
  case (Cons d ds)
  have "entry_error tb d ds = entry_error tb' d ds" unfolding entry_error_def reg_nonempty_def Cons(2) ..
  then show ?case using Cons by (simp split: option.split)
qed simp

lemma find_cfg_distinct:
  "distinct (map dv_uuid devs) \<Longrightarrow> n \<in> set devs \<Longrightarrow> find_cfg devs (dv_uuid n) = Some n"
proof (induction devs)
  case (Cons d ds)
  then show ?case by (auto simp: find_cfg_def image_iff)
qed simp

lemma uuid_in_cfg_iff: "uuid_in_cfg devs u \<longleftrightarrow> u \<noteq> [] \<and> u \<in> dv_uuid ` set devs"
  by (auto simp: uuid_in_cfg_def list_ex_iff)

lemma find_cfg_None: "find_cfg devs u = None \<longleftrightarrow> u \<notin> dv_uuid ` set devs"
  by (auto simp: find_cfg_def find_None_iff)

text \<open>A slot that is stopping after the call was in use before it.\<close>

lemma stopping_before:
  assumes "mf_devices_apply_config ans devs tb = (Inr p, tb')" "devs_fit devs" "length (tb_slots tb) = MF_DEVICE_SLOTS"
    and "i < MF_DEVICE_SLOTS" "sl_in_use (tb_slots tb' ! i)" "\<not> live (tb_slots tb' ! i)"
  shows "tb_slots tb' ! i = follow (tb_pts tb) devs (tb_slots tb ! i)" "sl_in_use (tb_slots tb ! i)"
proof -
  note c = apply_config_conform [OF assms(1-3)]
  have "tb_slots tb' ! i = tb_slots (fold (apply_slot devs) [0..<MF_DEVICE_SLOTS] tb) ! i"
    using c(2) assms(4-6) unfolding keeps_used_def by blast
  then show f: "tb_slots tb' ! i = follow (tb_pts tb) devs (tb_slots tb ! i)"
    using assms(3,4) by (simp add: pass1_slots)
  show "sl_in_use (tb_slots tb ! i)" using assms(5) unfolding f by (auto simp: follow_def split: if_splits)
qed

lemma revalidate:
  assumes "mf_devices_apply_config ans devs tb = (Inr p, tb')" "devs_fit devs" "dev_reach tb"
  shows "validate_apply tb' devs = None"
proof -
  note len = reach_len [OF assms(3)]
  note c = apply_config_conform [OF assms(1,2) len]
  have "tb_reg tb' = tb_reg tb" using micros_reg micros_apply_config [OF assms(1,2) len] by blast
  then have e: "entries_error tb' devs = None" using entries_error_reg validate_None(1) [OF c(3)] by metis
  have "\<not> slot_holds devs n (tb_slots tb' ! i)" if n: "n \<in> set devs" "dv_enabled n" and i: "i < MF_DEVICE_SLOTS" for n i
  proof
    assume h: "slot_holds devs n (tb_slots tb' ! i)"
    then have use: "sl_in_use (tb_slots tb' ! i)" by (simp add: slot_holds_def)
    have "sl_uuid (tb_slots tb' ! i) \<noteq> []" if "live (tb_slots tb' ! i)"
      using c(1) i that entries_error_None [OF e] by (auto simp: all_conform_def conforms_def)
    then have nl: "\<not> live (tb_slots tb' ! i)"
      using h c(1) i by (auto simp: slot_holds_def uuid_in_cfg_iff all_conform_def conforms_def)
    note f = stopping_before [OF assms(1,2) len i use nl]
    let ?d = "tb_slots tb ! i"
    have "sl_uuid ?d \<noteq> []" using table_ok_shape [OF reach_table [OF assms(3)] i f(2)] by (simp add: slot_shape_def)
    have "slot_holds devs n ?d"
    proof (cases "follow (tb_pts tb) devs ?d = stopped (tb_pts tb) ?d")
      case True
      then have "tb_pts tb" using use f(1) by (auto simp: stopped_def split: if_splits)
      then show ?thesis using h f True by (simp add: slot_holds_def stopped_def)
    next
      case False
      then obtain m where "find_cfg devs (sl_uuid ?d) = Some m" "follow (tb_pts tb) devs ?d = patched m ?d"
        using f(2) by (auto simp: follow_def split: option.splits if_splits)
      moreover from this have "m \<in> set devs \<and> dv_uuid m = sl_uuid ?d" using find_cfg_Some by blast
      ultimately have "uuid_in_cfg devs (sl_uuid (tb_slots tb' ! i))"
        using f(1) \<open>sl_uuid ?d \<noteq> []\<close> by (simp add: uuid_in_cfg_iff) (metis image_eqI)
      then show ?thesis using h by (simp add: slot_holds_def)
    qed
    then show False using validate_None(2) [OF c(3) n i] by simp
  qed
  then show ?thesis using e by (auto simp: validate_apply_def list_ex_iff)
qed

text \<open>
  C20: Applying an accepted configuration once more is accepted and interrupts no device: every device
  that was live stays live, in its slot, with its open plugin context. Two things are asked of the
  entries: that the uuid of each is shorter than a slot's (\<open>devs_fit\<close>), and that each fits the fields
  of a slot (\<open>slot_sized\<close>: kind and driver below 16 characters, the bus below 32, a Modbus port that
  is an \<open>int\<close>). Without the second it is false: a device whose kind, driver or bus is cut to the slot's
  field differs from its entry, and is restarted each time.
\<close>

theorem config_reapply_keeps:
  assumes "dev_reach tb" "devs_fit devs" "\<forall>n \<in> set devs. slot_sized n"
    and "mf_devices_apply_config ans devs tb = (Inr p, tb1)" "mf_devices_apply_config ans' devs tb1 = (res, tb2)"
  shows "(\<exists>q. res = Inr q) \<and>
    (\<forall>i < MF_DEVICE_SLOTS. live (tb_slots tb1 ! i) \<longrightarrow>
       live (tb_slots tb2 ! i) \<and> sl_uuid (tb_slots tb2 ! i) = sl_uuid (tb_slots tb1 ! i) \<and>
       sl_ctx (tb_slots tb2 ! i) = sl_ctx (tb_slots tb1 ! i))"
proof -
  note v = revalidate [OF assms(4,2,1)]
  then obtain q where q: "res = Inr q"
    using assms(5) by (auto simp: mf_devices_apply_config_def Let_def)
  note len = reach_len [OF assms(1)]
  note c1 = apply_config_conform [OF assms(4,2) len]
  have len1: "length (tb_slots tb1) = MF_DEVICE_SLOTS" using c1(1) by (simp add: all_conform_def)
  note c2 = apply_config_conform [OF assms(5) [unfolded q] assms(2) len1]
  have "live (tb_slots tb2 ! i) \<and> sl_uuid (tb_slots tb2 ! i) = sl_uuid (tb_slots tb1 ! i) \<and>
       sl_ctx (tb_slots tb2 ! i) = sl_ctx (tb_slots tb1 ! i)"
    if i: "i < MF_DEVICE_SLOTS" "live (tb_slots tb1 ! i)" for i
  proof -
    let ?d = "tb_slots tb1 ! i"
    obtain n where n: "n \<in> set devs" "dv_enabled n" "sl_uuid ?d = dv_uuid n" "\<not> identity_changed ?d n"
      using c1(1) i assms(3) by (auto simp: all_conform_def conforms_def)
    have "find_cfg devs (sl_uuid ?d) = Some n"
      using find_cfg_distinct n(1,3) entries_error_None [OF validate_None(1) [OF v]] by metis
    then have "follow (tb_pts tb1) devs ?d = patched n ?d"
      using n i(2) by (simp add: follow_def live_def)
    then have "tb_slots (fold (apply_slot devs) [0..<MF_DEVICE_SLOTS] tb1) ! i = patched n ?d"
      using len1 i(1) by (simp add: pass1_slots)
    then have "tb_slots tb2 ! i = patched n ?d"
      using keeps_usedD [OF c2(2) i(1)] i(2) by (simp add: live_def)
    then show ?thesis using i(2) by (simp add: live_def)
  qed
  then show ?thesis using q by blast
qed

end
