(* ===== verification/DeviceQueue.thy ===== *)
theory DeviceQueue
  imports DeviceRules
begin

section \<open>Devices that wait\<close>

text \<open>
  The queue of devices that wait until a stopping slot is free: who waits, that nobody is dropped while
  there is room, and what serving the queue changes.
\<close>

definition waits :: "mf_config_device \<Rightarrow> dev_table \<Rightarrow> bool" where
  "waits n tb \<longleftrightarrow> (\<exists>j < MF_DEVICE_SLOTS. tb_pending tb ! j = Some n)"

definition waiting :: "dev_table \<Rightarrow> string set" where
  "waiting tb = {dv_uuid d | d. waits d tb}"

definition present :: "mf_config_device \<Rightarrow> dev_table \<Rightarrow> bool" where
  "present n tb \<longleftrightarrow> (\<exists>i < MF_DEVICE_SLOTS. live (tb_slots tb ! i) \<and> sl_uuid (tb_slots tb ! i) = dv_uuid n)"

subsection \<open>The queue\<close>

lemma queue_pending:
  "tb_pending (pending_queue m tb) = tb_pending tb \<or>
   (\<exists>i < MF_DEVICE_SLOTS. tb_pending (pending_queue m tb) = (tb_pending tb)[i := Some m] \<and>
      (tb_pending tb ! i = None \<or> (\<exists>d. tb_pending tb ! i = Some d \<and> dv_uuid d = dv_uuid m)))"
  by (auto simp: pending_queue_def split: option.splits dest!: pending_index_Some)

lemma queue_waits_other:
  assumes "waits n tb" "dv_uuid n \<noteq> dv_uuid m"
  shows "waits n (pending_queue m tb)"
proof -
  obtain j where j: "j < MF_DEVICE_SLOTS" "tb_pending tb ! j = Some n" using assms(1) by (auto simp: waits_def)
  show ?thesis
    using queue_pending [of m tb]
  proof
    assume "\<exists>i < MF_DEVICE_SLOTS. tb_pending (pending_queue m tb) = (tb_pending tb)[i := Some m] \<and>
      (tb_pending tb ! i = None \<or> (\<exists>d. tb_pending tb ! i = Some d \<and> dv_uuid d = dv_uuid m))"
    then obtain i where i: "tb_pending (pending_queue m tb) = (tb_pending tb)[i := Some m]"
      "tb_pending tb ! i = None \<or> (\<exists>d. tb_pending tb ! i = Some d \<and> dv_uuid d = dv_uuid m)" by blast
    have "i \<noteq> j" using i(2) j(2) assms(2) by auto
    then show ?thesis using i(1) j by (auto simp: waits_def)
  qed (use assms(1) in \<open>simp add: waits_def\<close>)
qed

lemma queue_waits:
  assumes "length (tb_pending tb) = MF_DEVICE_SLOTS" "\<exists>j < MF_DEVICE_SLOTS. tb_pending tb ! j = None"
  shows "waits m (pending_queue m tb)"
proof (cases "pending_index (\<lambda>p. map_option dv_uuid p = Some (dv_uuid m)) tb")
  case (Some i)
  then show ?thesis using pending_index_Some [OF Some] assms(1) by (auto simp: pending_queue_def waits_def)
next
  case None
  have "pending_index (\<lambda>p. p = None) tb \<noteq> None" using assms(2) by (auto simp: pending_index_None)
  then obtain i where i: "pending_index (\<lambda>p. p = None) tb = Some i" by blast
  then show ?thesis using None pending_index_Some [OF i] assms(1) by (auto simp: pending_queue_def waits_def)
qed

lemma queue_again: "waits m tb \<Longrightarrow> length (tb_pending tb) = MF_DEVICE_SLOTS \<Longrightarrow> waits m (pending_queue m tb)"
proof -
  assume w: "waits m tb" and len: "length (tb_pending tb) = MF_DEVICE_SLOTS"
  then have "pending_index (\<lambda>p. map_option dv_uuid p = Some (dv_uuid m)) tb \<noteq> None"
    by (auto simp: waits_def pending_index_None)
  then obtain i where i: "pending_index (\<lambda>p. map_option dv_uuid p = Some (dv_uuid m)) tb = Some i" by blast
  then show "waits m (pending_queue m tb)"
    using pending_index_Some [OF i] len by (auto simp: pending_queue_def waits_def)
qed

lemma queue_waiting:
  assumes "length (tb_pending tb) = MF_DEVICE_SLOTS"
  shows "waiting (pending_queue m tb) \<subseteq> insert (dv_uuid m) (waiting tb)"
proof
  fix u
  assume "u \<in> waiting (pending_queue m tb)"
  then obtain d j where d: "u = dv_uuid d" "j < MF_DEVICE_SLOTS" "tb_pending (pending_queue m tb) ! j = Some d"
    by (auto simp: waiting_def waits_def)
  then have "d = m \<or> tb_pending tb ! j = Some d"
    using queue_pending [of m tb] assms by (auto simp: nth_list_update split: if_splits)
  then show "u \<in> insert (dv_uuid m) (waiting tb)" using d by (auto simp: waiting_def waits_def)
qed

lemma cancel_pending:
  "length (tb_pending tb) = MF_DEVICE_SLOTS \<Longrightarrow> j < MF_DEVICE_SLOTS \<Longrightarrow>
     tb_pending (pending_cancel u tb) ! j =
       (case tb_pending tb ! j of Some d \<Rightarrow> if u \<noteq> [] \<and> dv_uuid d = u then None else Some d | None \<Rightarrow> None)"
  by (auto simp: pending_cancel_def split: option.splits)

lemma cancel_waits:
  "waits n tb \<Longrightarrow> u \<noteq> dv_uuid n \<Longrightarrow> length (tb_pending tb) = MF_DEVICE_SLOTS \<Longrightarrow> waits n (pending_cancel u tb)"
  using cancel_pending [of tb] by (fastforce simp: waits_def)

lemma cancel_waiting:
  assumes "length (tb_pending tb) = MF_DEVICE_SLOTS"
  shows "waiting (pending_cancel u tb) \<subseteq> waiting tb"
proof
  fix v
  assume "v \<in> waiting (pending_cancel u tb)"
  then obtain d j where d: "v = dv_uuid d" "j < MF_DEVICE_SLOTS" "tb_pending (pending_cancel u tb) ! j = Some d"
    by (auto simp: waiting_def waits_def)
  then have "tb_pending tb ! j = Some d"
    unfolding cancel_pending [OF assms d(2)] by (auto split: option.splits if_splits)
  then show "v \<in> waiting tb" using d by (auto simp: waiting_def waits_def)
qed

lemma pend_ok_inj:
  "pend_ok ps \<Longrightarrow> i < MF_DEVICE_SLOTS \<Longrightarrow> j < MF_DEVICE_SLOTS \<Longrightarrow> ps ! i = Some d \<Longrightarrow> ps ! j = Some e \<Longrightarrow>
     dv_uuid d = dv_uuid e \<Longrightarrow> i = j"
proof -
  assume ok: "pend_ok ps" and ij: "i < MF_DEVICE_SLOTS" "j < MF_DEVICE_SLOTS" "ps ! i = Some d" "ps ! j = Some e"
    "dv_uuid d = dv_uuid e"
  from ok have "length ps = MF_DEVICE_SLOTS" by (simp only: pend_ok_def)
  moreover from ok have "i < length ps \<and> j < length ps \<and> ps ! i = Some d \<and> ps ! j = Some e \<and>
      dv_uuid d = dv_uuid e \<longrightarrow> i = j" unfolding pend_ok_def by (elim conjE allE)
  ultimately show "i = j" using ij by (simp only: simp_thms)
qed

lemma pend_okD: "pend_ok ps \<Longrightarrow> i < MF_DEVICE_SLOTS \<Longrightarrow> ps ! i = Some d \<Longrightarrow> entry_fits d \<and> dv_enabled d"
proof -
  assume ok: "pend_ok ps" and i: "i < MF_DEVICE_SLOTS" "ps ! i = Some d"
  from ok have "length ps = MF_DEVICE_SLOTS" by (simp only: pend_ok_def)
  moreover from ok have "i < length ps \<and> ps ! i = Some d \<longrightarrow> entry_fits d \<and> dv_enabled d"
    unfolding pend_ok_def by (elim conjE allE)
  ultimately show ?thesis using i by (simp only: simp_thms)
qed

lemma pend_ok_len: "pend_ok ps \<Longrightarrow> length ps = MF_DEVICE_SLOTS"
  by (simp only: pend_ok_def)

lemma finite_waiting [simp]: "finite (waiting tb)"
proof (rule finite_subset)
  show "waiting tb \<subseteq> (\<lambda>j. dv_uuid (the (tb_pending tb ! j))) ` {0..<MF_DEVICE_SLOTS}"
  proof
    fix u
    assume "u \<in> waiting tb"
    then obtain d j where "u = dv_uuid d" "j < MF_DEVICE_SLOTS" "tb_pending tb ! j = Some d"
      by (auto simp: waiting_def waits_def)
    then show "u \<in> (\<lambda>j. dv_uuid (the (tb_pending tb ! j))) ` {0..<MF_DEVICE_SLOTS}"
      by (intro image_eqI [of _ _ j]) simp_all
  qed
qed simp

lemma queue_room:
  assumes "pend_ok (tb_pending tb)" "card (waiting tb) < MF_DEVICE_SLOTS"
  shows "\<exists>j < MF_DEVICE_SLOTS. tb_pending tb ! j = None"
proof (rule ccontr)
  assume full: "\<not> ?thesis"
  let ?f = "\<lambda>j. dv_uuid (the (tb_pending tb ! j))"
  have some: "\<exists>d. tb_pending tb ! j = Some d" if "j < MF_DEVICE_SLOTS" for j
    using full that by (cases "tb_pending tb ! j") auto
  have "waiting tb = ?f ` {0..<MF_DEVICE_SLOTS}"
  proof (intro equalityI subsetI)
    fix u
    assume "u \<in> waiting tb"
    then obtain d j where "u = dv_uuid d" "j < MF_DEVICE_SLOTS" "tb_pending tb ! j = Some d"
      by (auto simp: waiting_def waits_def)
    then show "u \<in> ?f ` {0..<MF_DEVICE_SLOTS}" by (intro image_eqI [of _ _ j]) simp_all
  next
    fix u
    assume "u \<in> ?f ` {0..<MF_DEVICE_SLOTS}"
    then obtain j where "u = ?f j" "j < MF_DEVICE_SLOTS" by auto
    moreover obtain d where "tb_pending tb ! j = Some d" using some calculation(2) by blast
    ultimately show "u \<in> waiting tb" by (auto simp: waiting_def waits_def)
  qed
  moreover have "inj_on ?f {0..<MF_DEVICE_SLOTS}"
  proof (rule inj_onI)
    fix i j
    assume ij: "i \<in> {0..<MF_DEVICE_SLOTS}" "j \<in> {0..<MF_DEVICE_SLOTS}" "?f i = ?f j"
    then obtain d e where "tb_pending tb ! i = Some d" "tb_pending tb ! j = Some e" using some by (meson atLeastLessThan_iff)
    then show "i = j" using pend_ok_inj [OF assms(1)] ij by simp
  qed
  then have "card (?f ` {0..<MF_DEVICE_SLOTS}) = MF_DEVICE_SLOTS" by (simp add: card_image)
  ultimately show False using assms(2) by simp
qed

text \<open>The queue may hold the devices of \<open>U\<close> only, which are fewer than its places.\<close>

definition roomy :: "string set \<Rightarrow> dev_table \<Rightarrow> bool" where
  "roomy U tb \<longleftrightarrow> pend_ok (tb_pending tb) \<and> waiting tb \<subseteq> U \<and> finite U \<and> card U < MF_DEVICE_SLOTS"

lemma roomy_room: "roomy U tb \<Longrightarrow> \<exists>j < MF_DEVICE_SLOTS. tb_pending tb ! j = None"
  using queue_room [of tb] card_mono [of U "waiting tb"] by (auto simp: roomy_def)

lemma roomy_len: "roomy U tb \<Longrightarrow> length (tb_pending tb) = MF_DEVICE_SLOTS"
  by (simp add: roomy_def pend_ok_def)

lemma roomy_queue: "roomy U tb \<Longrightarrow> entry_fits m \<Longrightarrow> dv_enabled m \<Longrightarrow> dv_uuid m \<in> U \<Longrightarrow> roomy U (pending_queue m tb)"
  using queue_waiting [of tb m] roomy_len [of U tb] pend_ok_queue [of tb m] by (auto simp: roomy_def)

lemma roomy_cancel: "roomy U tb \<Longrightarrow> roomy U (pending_cancel u tb)"
  using cancel_waiting [of tb u] roomy_len [of U tb] pend_ok_cancel [of tb u] by (auto simp: roomy_def)

lemma roomy_pending: "tb_pending tb' = tb_pending tb \<Longrightarrow> roomy U tb' = roomy U tb"
  by (simp add: roomy_def waiting_def waits_def)

lemma waits_pending: "tb_pending tb' = tb_pending tb \<Longrightarrow> waits n tb' = waits n tb"
  by (simp add: waits_def)

subsection \<open>The first pass\<close>

definition foreign_uuid :: "nat set \<Rightarrow> string \<Rightarrow> dev_table \<Rightarrow> bool" where
  "foreign_uuid K u tb \<longleftrightarrow> length (tb_slots tb) = MF_DEVICE_SLOTS \<and>
     (\<forall>j < MF_DEVICE_SLOTS. j \<notin> K \<longrightarrow> sl_in_use (tb_slots tb ! j) \<longrightarrow> sl_uuid (tb_slots tb ! j) \<noteq> u)"

lemma follow_uuid: "sl_in_use (follow pts devs d) \<Longrightarrow> sl_in_use d \<and> sl_uuid (follow pts devs d) = sl_uuid d"
  by (auto simp: follow_def stopped_def split: if_splits option.splits)

lemma apply_slot_foreign:
  assumes "foreign_uuid K u tb"
  shows "foreign_uuid K u (apply_slot devs i tb)"
  unfolding foreign_uuid_def
proof (intro conjI allI impI)
  show "length (tb_slots (apply_slot devs i tb)) = MF_DEVICE_SLOTS"
    using assms by (simp add: foreign_uuid_def apply_slot_slots)
  fix j
  assume j: "j < MF_DEVICE_SLOTS" "j \<notin> K" "sl_in_use (tb_slots (apply_slot devs i tb) ! j)"
  show "sl_uuid (tb_slots (apply_slot devs i tb) ! j) \<noteq> u"
  proof (cases "j = i")
    case True
    then show ?thesis
      using j assms follow_uuid [of "tb_pts tb" devs "tb_slots tb ! i"] by (simp add: apply_slot_slots foreign_uuid_def)
  next
    case False
    then show ?thesis using j assms by (simp add: apply_slot_slots foreign_uuid_def)
  qed
qed

lemma apply_slot_pending:
  assumes "length (tb_slots tb) = MF_DEVICE_SLOTS"
  shows "tb_pending (apply_slot devs i tb) = tb_pending tb \<or>
    sl_in_use (tb_slots tb ! i) \<and>
      (tb_pending (apply_slot devs i tb) = tb_pending (pending_cancel (sl_uuid (tb_slots tb ! i)) tb) \<or>
       (\<exists>n. find_cfg devs (sl_uuid (tb_slots tb ! i)) = Some n \<and> dv_enabled n \<and>
          tb_pending (apply_slot devs i tb) = tb_pending (pending_queue n tb)))"
  using assms
  by (cases rule: apply_slot_cases [where i = i and devs = devs]) (simp_all add: stop_slot_slots)

lemma apply_slot_roomy:
  assumes "roomy U tb" "length (tb_slots tb) = MF_DEVICE_SLOTS" "\<And>n. n \<in> set devs \<Longrightarrow> entry_fits n \<and> dv_uuid n \<in> U"
  shows "roomy U (apply_slot devs i tb)"
  using apply_slot_pending [OF assms(2), of devs i]
proof (elim disjE conjE exE)
  fix n
  assume n: "find_cfg devs (sl_uuid (tb_slots tb ! i)) = Some n" "dv_enabled n"
    "tb_pending (apply_slot devs i tb) = tb_pending (pending_queue n tb)"
  then have "entry_fits n" "dv_uuid n \<in> U" using assms(3) find_cfg_Some [OF n(1)] by blast+
  then show ?thesis using roomy_queue [OF assms(1) _ n(2)] roomy_pending [OF n(3)] by simp
qed (use assms(1) roomy_cancel [OF assms(1)] roomy_pending in blast)+

lemma apply_slot_waits:
  assumes "waits n tb" "roomy U tb" "length (tb_slots tb) = MF_DEVICE_SLOTS"
    and "sl_in_use (tb_slots tb ! i) \<Longrightarrow> sl_uuid (tb_slots tb ! i) \<noteq> dv_uuid n"
  shows "waits n (apply_slot devs i tb)"
  using apply_slot_pending [OF assms(3), of devs i]
proof (elim disjE conjE exE)
  fix m
  assume m: "sl_in_use (tb_slots tb ! i)" "find_cfg devs (sl_uuid (tb_slots tb ! i)) = Some m"
    "tb_pending (apply_slot devs i tb) = tb_pending (pending_queue m tb)"
  then have "dv_uuid n \<noteq> dv_uuid m" using assms(4) find_cfg_Some [OF m(2)] by simp
  then show ?thesis using queue_waits_other [OF assms(1)] waits_pending [OF m(3)] by simp
next
  assume c: "sl_in_use (tb_slots tb ! i)"
    "tb_pending (apply_slot devs i tb) = tb_pending (pending_cancel (sl_uuid (tb_slots tb ! i)) tb)"
  then show ?thesis using cancel_waits [OF assms(1) _ roomy_len [OF assms(2)]] assms(4) waits_pending [OF c(2)] by simp
qed (use assms(1) waits_pending in blast)

lemma apply_slot_own:
  assumes "roomy U tb" "length (tb_slots tb) = MF_DEVICE_SLOTS" "i < MF_DEVICE_SLOTS" "live (tb_slots tb ! i)"
    "find_cfg devs (sl_uuid (tb_slots tb ! i)) = Some n" "dv_enabled n"
  shows "waits n (apply_slot devs i tb) \<or>
    live (tb_slots (apply_slot devs i tb) ! i) \<and> sl_uuid (tb_slots (apply_slot devs i tb) ! i) = sl_uuid (tb_slots tb ! i)"
proof (cases "identity_changed (tb_slots tb ! i) n")
  case True
  then have "tb_pending (apply_slot devs i tb) = tb_pending (pending_queue n tb)"
    using assms(4-6) by (simp add: apply_slot_def Let_def stop_slot_slots live_def)
  then show ?thesis
    using queue_waits [OF roomy_len [OF assms(1)] roomy_room [OF assms(1)], of n] waits_pending by blast
next
  case False
  then have "follow (tb_pts tb) devs (tb_slots tb ! i) = patched n (tb_slots tb ! i)"
    using assms(4-6) by (simp add: follow_def live_def)
  then show ?thesis using assms(2-4) by (simp add: apply_slot_slots live_def)
qed

subsection \<open>The second pass\<close>

lemma add_pending:
  "add_from_cfg a d tb = (r, tb') \<Longrightarrow> entry_fits d \<Longrightarrow> tb_pending tb' = tb_pending tb"
  using add_ok [of a "[]" "dv_name d" "dv_kind d" "dv_driver d" "Some (device_to_json d)" "dv_uuid d" tb r tb']
  by (simp add: add_from_cfg_def entry_fits_def)

lemma apply_add_pending:
  assumes "entry_fits d"
  shows "tb_pending (apply_add ans d tb) = tb_pending tb \<or>
    dv_enabled d \<and> tb_pending (apply_add ans d tb) = tb_pending (pending_queue d tb)"
proof -
  obtain r tb' where r: "add_from_cfg (ans (dv_uuid d)) d tb = (r, tb')" by force
  have "tb_pending tb' = tb_pending tb" by (rule add_pending [OF r assms])
  moreover from this have "tb_pending (pending_queue d tb') = tb_pending (pending_queue d tb)"
    by (simp add: pending_queue_def pending_index_def split: option.split)
  ultimately show ?thesis using r by (auto simp: apply_add_def split: sum.splits)
qed

lemma apply_add_roomy:
  "roomy U tb \<Longrightarrow> entry_fits d \<Longrightarrow> dv_uuid d \<in> U \<Longrightarrow> roomy U (apply_add ans d tb)"
  using apply_add_pending [of d ans tb] roomy_queue [of U tb d] roomy_pending by metis

lemma apply_add_waits:
  assumes "waits n tb" "roomy U tb" "entry_fits d" "dv_uuid d = dv_uuid n \<Longrightarrow> d = n"
  shows "waits n (apply_add ans d tb)"
  using apply_add_pending [OF assms(3), of ans tb] queue_waits_other [OF assms(1), of d]
    queue_again [OF assms(1) roomy_len [OF assms(2)]] assms(1,4) waits_pending by metis

lemma add_effect_foreign:
  assumes "add_effect tb d tb'" "foreign_uuid K u tb" "entry_fits d" "dv_enabled d" "dv_uuid d \<noteq> u"
  shows "foreign_uuid K u tb'"
proof -
  have len: "length (tb_slots tb) = MF_DEVICE_SLOTS" using assms(2) by (simp add: foreign_uuid_def)
  note keep = add_effect_keeps [OF assms(1) len]
  have "sl_uuid (tb_slots tb' ! j) \<noteq> u" if "j < MF_DEVICE_SLOTS" "sl_in_use (tb_slots tb' ! j)" "j \<notin> K" for j
    using add_effect_cases [OF assms(1) len that(1)]
  proof (elim disjE conjE)
    assume "filled (added_slot tb (dv_uuid d) (dv_name d) (dv_kind d) (dv_driver d) (Some (device_to_json d)))
      (tb_slots tb' ! j)"
    then show ?thesis using added_conforms(2) [of tb d _ "[d]"] assms(3-5) by simp
  qed (use that assms(2) in \<open>simp_all add: foreign_uuid_def\<close>)
  then show ?thesis using keep len by (simp add: foreign_uuid_def keeps_used_def)
qed

lemma apply_add_foreign:
  assumes "foreign_uuid K u tb" "entry_fits d" "dv_uuid d \<noteq> u"
  shows "foreign_uuid K u (apply_add ans d tb)"
proof (cases "dv_enabled d")
  case True
  show ?thesis by (rule add_effect_foreign [OF apply_add_effect [OF assms(2) True] assms(1,2) True assms(3)])
qed (use assms in \<open>simp add: apply_add_def\<close>)

text \<open>What becomes of an enabled entry nobody in the table has the uuid of.\<close>

lemma apply_add_outcome:
  assumes "entry_fits n" "dv_enabled n" "dv_kind n \<noteq> []" "dv_driver n \<noteq> []"
    and "reg_nonempty tb \<Longrightarrow> mf_plugins_find (tb_reg tb) (dv_kind n) (dv_driver n) \<noteq> None"
    and "foreign_uuid {} (dv_uuid n) tb" "roomy U tb"
  shows "present n (apply_add ans n tb) \<or> waits n (apply_add ans n tb) \<or> (\<exists>m. an_open (ans (dv_uuid n)) = Some m) \<or>
    (\<forall>i < MF_DEVICE_SLOTS. sl_in_use (tb_slots (apply_add ans n tb) ! i))"
proof -
  let ?a = "ans (dv_uuid n)"
  have free: "find_slot_uuid tb (dv_uuid n) = None" "\<not> uuid_in_use tb (dv_uuid n)"
    using assms(6) by (auto simp: foreign_uuid_def find_slot_uuid_def slot_index_None uuid_in_use_iff)
  obtain r tb' where r: "add_from_cfg ?a n tb = (r, tb')" by force
  have ap: "apply_add ans n tb = (case r of Inl e \<Rightarrow> if add_rc e = -3 then pending_queue n tb' else tb' | Inr _ \<Rightarrow> tb')"
    using free r assms(2) by (simp add: apply_add_def)
  have pend: "tb_pending tb' = tb_pending tb" by (rule add_pending [OF r assms(1)])
  have n: "dv_name n \<noteq> []" "length (dv_name n) < 32" "dv_uuid n \<noteq> []" using assms(1,2) by (simp_all add: entry_fits_def)
  show ?thesis
  proof (cases r)
    case (Inr u)
    have len: "length (tb_slots tb) = MF_DEVICE_SLOTS" using assms(6) by (simp add: foreign_uuid_def)
    obtain i d' where i: "i < MF_DEVICE_SLOTS"
        "filled (added_slot tb (dv_uuid n) (dv_name n) (dv_kind n) (dv_driver n) (Some (device_to_json n))) d'"
        "tb_slots tb' = (tb_slots tb)[i := d']"
      using add_ok [OF r [unfolded add_from_cfg_def]] assms(1) n(3) unfolding Inr entry_fits_def by auto
    have "live d'" "sl_uuid d' = dv_uuid n"
      using added_conforms(2,4) [OF i(2), of "[n]"] assms(1,2) by simp_all
    then have "present n tb'" using i len by (auto simp: present_def intro!: exI [of _ i])
    then show ?thesis using ap Inr by simp
  next
    case (Inl e)
    consider "add_rc e = -3" | "e = Limit_reached" "tb' = tb" "\<forall>i < MF_DEVICE_SLOTS. sl_in_use (tb_slots tb ! i)"
      | "\<exists>m. an_open ?a = Some m"
      using r Inl n assms(3-5)
      by (auto simp: add_from_cfg_def mf_devices_add_def install_def Let_def slot_index_None
          split: if_splits option.splits prod.splits)
    then show ?thesis
    proof cases
      case 1
      have "\<exists>j < MF_DEVICE_SLOTS. tb_pending tb' ! j = None" using roomy_room [OF assms(7)] pend by simp
      then have "waits n (pending_queue n tb')" using queue_waits roomy_len [OF assms(7)] pend by simp
      then show ?thesis using ap Inl 1 by simp
    qed (use ap Inl in auto)
  qed
qed

text \<open>Present, waiting, refused by the plugin, or no slot left: this lasts through the rest of the pass.\<close>

definition served :: "(string \<Rightarrow> answers) \<Rightarrow> mf_config_device \<Rightarrow> dev_table \<Rightarrow> bool" where
  "served ans n tb \<longleftrightarrow> present n tb \<or> waits n tb \<or> (\<exists>m. an_open (ans (dv_uuid n)) = Some m) \<or>
     (\<forall>i < MF_DEVICE_SLOTS. sl_in_use (tb_slots tb ! i))"

lemma present_keeps: "keeps_used tb tb' \<Longrightarrow> present n tb \<Longrightarrow> present n tb'"
  unfolding present_def by (metis keeps_usedD live_def)

lemma served_add:
  assumes "served ans n tb" "roomy U tb" "entry_fits d" "dv_uuid d = dv_uuid n \<Longrightarrow> d = n"
    "length (tb_slots tb) = MF_DEVICE_SLOTS"
  shows "served ans n (apply_add ans d tb)"
proof -
  have keep: "keeps_used tb (apply_add ans d tb)"
  proof (cases "dv_enabled d")
    case True
    show ?thesis by (rule add_effect_keeps [OF apply_add_effect [OF assms(3) True] assms(5)])
  qed (simp add: apply_add_def keeps_used_def)
  have "waits n tb \<Longrightarrow> waits n (apply_add ans d tb)" using apply_add_waits [OF _ assms(2-4)] by blast
  moreover have "present n tb \<Longrightarrow> present n (apply_add ans d tb)" using present_keeps [OF keep] .
  moreover have "sl_in_use (tb_slots (apply_add ans d tb) ! i)"
    if "sl_in_use (tb_slots tb ! i)" "i < MF_DEVICE_SLOTS" for i using keeps_usedD [OF keep that(2,1)] that by simp
  ultimately show ?thesis using assms(1) unfolding served_def by blast
qed

end
