(* ===== verification/DeviceServe.thy ===== *)
theory DeviceServe
  imports DeviceQueue
begin

section \<open>No configured device is lost, except a stopping one\<close>

text \<open>
  Every enabled entry of an accepted configuration is live or waits, except one whose slot is still
  stopping unchanged, which is lost.
\<close>

lemma apply_slot_len: "length (tb_slots (apply_slot devs i tb)) = length (tb_slots tb)"
  by (simp add: apply_slot_slots)

lemma pass1_roomy:
  assumes "roomy U tb" "length (tb_slots tb) = MF_DEVICE_SLOTS" "\<And>n. n \<in> set devs \<Longrightarrow> entry_fits n \<and> dv_uuid n \<in> U"
  shows "roomy U (fold (apply_slot devs) is tb) \<and> length (tb_slots (fold (apply_slot devs) is tb)) = MF_DEVICE_SLOTS"
  by (rule fold_keeps [where I = "\<lambda>t. roomy U t \<and> length (tb_slots t) = MF_DEVICE_SLOTS"])
    (use assms apply_slot_roomy apply_slot_len in auto)

lemma pass1_foreign:
  "foreign_uuid K u tb \<Longrightarrow> foreign_uuid K u (fold (apply_slot devs) is tb)"
  by (rule fold_keeps [where I = "foreign_uuid K u"]) (rule apply_slot_foreign)

text \<open>The slot of the device itself, before its turn, at its turn and after it.\<close>

definition settled :: "nat \<Rightarrow> mf_config_device \<Rightarrow> dev_table \<Rightarrow> bool" where
  "settled i n tb \<longleftrightarrow> waits n tb \<or> live (tb_slots tb ! i) \<and> sl_uuid (tb_slots tb ! i) = dv_uuid n"

lemma settled_other:
  assumes "settled i n tb" "roomy U tb" "foreign_uuid {i} (dv_uuid n) tb" "j \<noteq> i" "j < MF_DEVICE_SLOTS"
  shows "settled i n (apply_slot devs j tb)"
proof -
  have len: "length (tb_slots tb) = MF_DEVICE_SLOTS" using assms(3) by (simp add: foreign_uuid_def)
  have "waits n tb \<Longrightarrow> waits n (apply_slot devs j tb)"
    using assms(3-5) by (intro apply_slot_waits [OF _ assms(2) len]) (simp_all add: foreign_uuid_def)
  moreover have "tb_slots (apply_slot devs j tb) ! i = tb_slots tb ! i" using assms(4) by (simp add: apply_slot_slots)
  ultimately show ?thesis using assms(1) by (auto simp: settled_def)
qed

lemma settled_step:
  assumes "settled i n t \<and> roomy U t \<and> foreign_uuid {i} (dv_uuid n) t"
    and "\<And>n. n \<in> set devs \<Longrightarrow> entry_fits n \<and> dv_uuid n \<in> U" "j \<noteq> i" "j < MF_DEVICE_SLOTS"
  shows "settled i n (apply_slot devs j t) \<and> roomy U (apply_slot devs j t) \<and>
    foreign_uuid {i} (dv_uuid n) (apply_slot devs j t)"
proof -
  have "length (tb_slots t) = MF_DEVICE_SLOTS" using assms(1) by (simp add: foreign_uuid_def)
  then show ?thesis
    using settled_other [of i n t U j devs] apply_slot_roomy [of U t devs j, OF _ _ assms(2)]
      apply_slot_foreign [of "{i}" "dv_uuid n" t devs j] assms(1,3,4) by blast
qed

lemma pass1_settled:
  assumes "roomy U tb" "\<And>n. n \<in> set devs \<Longrightarrow> entry_fits n \<and> dv_uuid n \<in> U" "foreign_uuid {i} (dv_uuid n) tb"
    and "i < MF_DEVICE_SLOTS" "live (tb_slots tb ! i)" "sl_uuid (tb_slots tb ! i) = dv_uuid n"
    and "find_cfg devs (dv_uuid n) = Some n" "dv_enabled n"
  shows "settled i n (fold (apply_slot devs) [0..<MF_DEVICE_SLOTS] tb)"
proof -
  have len: "length (tb_slots tb) = MF_DEVICE_SLOTS" using assms(3) by (simp add: foreign_uuid_def)
  let ?t1 = "fold (apply_slot devs) [0..<i] tb"
  let ?t2 = "apply_slot devs i ?t1"
  have split: "[0..<MF_DEVICE_SLOTS] = [0..<i] @ i # [Suc i..<MF_DEVICE_SLOTS]"
    using assms(4) upt_add_eq_append [of 0 i "MF_DEVICE_SLOTS - i"] by (simp add: upt_conv_Cons)
  have t1: "roomy U ?t1" "length (tb_slots ?t1) = MF_DEVICE_SLOTS" "foreign_uuid {i} (dv_uuid n) ?t1"
    using pass1_roomy [OF assms(1) len assms(2)] pass1_foreign [OF assms(3)] by blast+
  have "tb_slots ?t1 ! i = tb_slots tb ! i"
    using fold_apply_slot [of i tb devs] assms(4) len by (simp add: nth_append)
  then have "settled i n ?t2"
    using apply_slot_own [OF t1(1,2) assms(4), of devs n] assms(5-8) by (auto simp: settled_def)
  moreover have "roomy U ?t2" "foreign_uuid {i} (dv_uuid n) ?t2"
    using apply_slot_roomy [OF t1(1,2) assms(2)] apply_slot_foreign [OF t1(3)] by blast+
  ultimately have t2: "settled i n ?t2 \<and> roomy U ?t2 \<and> foreign_uuid {i} (dv_uuid n) ?t2" by blast
  have "settled i n (fold (apply_slot devs) [Suc i..<MF_DEVICE_SLOTS] ?t2) \<and>
      roomy U (fold (apply_slot devs) [Suc i..<MF_DEVICE_SLOTS] ?t2) \<and>
      foreign_uuid {i} (dv_uuid n) (fold (apply_slot devs) [Suc i..<MF_DEVICE_SLOTS] ?t2)"
    by (rule fold_keeps [where I = "\<lambda>t. settled i n t \<and> roomy U t \<and> foreign_uuid {i} (dv_uuid n) t", OF _ t2])
      (rule settled_step [OF _ assms(2)], simp_all)
  then show ?thesis by (simp add: split)
qed

lemma pass2_served:
  assumes "served ans n tb" "roomy U tb" "length (tb_slots tb) = MF_DEVICE_SLOTS"
    and "\<And>d. d \<in> set ds \<Longrightarrow> entry_fits d \<and> dv_uuid d \<in> U \<and> (dv_uuid d = dv_uuid n \<longrightarrow> d = n)"
  shows "served ans n (fold (apply_add ans) ds tb)"
proof -
  have "length (tb_slots (apply_add ans d t)) = MF_DEVICE_SLOTS"
    if "length (tb_slots t) = MF_DEVICE_SLOTS" "d \<in> set ds" for d t
    using micros_slots [OF micros_apply_add [of d t ans]] assms(4) that by simp
  then have "served ans n (fold (apply_add ans) ds tb) \<and> roomy U (fold (apply_add ans) ds tb) \<and>
      length (tb_slots (fold (apply_add ans) ds tb)) = MF_DEVICE_SLOTS"
    by (intro fold_keeps [where I = "\<lambda>t. served ans n t \<and> roomy U t \<and> length (tb_slots t) = MF_DEVICE_SLOTS"])
      (use assms served_add apply_add_roomy in auto)
  then show ?thesis by blast
qed

lemma pass2_new:
  assumes "foreign_uuid {} (dv_uuid n) tb" "roomy U tb" "n \<in> set devs" "distinct (map dv_uuid devs)"
    and "\<And>d. d \<in> set devs \<Longrightarrow> entry_fits d \<and> dv_uuid d \<in> U"
    and "dv_enabled n" "dv_kind n \<noteq> []" "dv_driver n \<noteq> []"
    and "reg_nonempty tb \<Longrightarrow> mf_plugins_find (tb_reg tb) (dv_kind n) (dv_driver n) \<noteq> None"
  shows "served ans n (fold (apply_add ans) devs tb)"
proof -
  obtain xs ys where s: "devs = xs @ n # ys" using assms(3) by (meson split_list)
  have "dv_uuid n \<notin> dv_uuid ` set xs" "dv_uuid n \<notin> dv_uuid ` set ys" using assms(4) by (auto simp: s)
  then have other: "dv_uuid d \<noteq> dv_uuid n" if "d \<in> set xs \<or> d \<in> set ys" for d using that by (metis imageI)
  have xs: "entry_fits d \<and> dv_uuid d \<in> U \<and> dv_uuid d \<noteq> dv_uuid n" if "d \<in> set xs" for d
    using assms(5) that other by (simp add: s)
  have ys: "entry_fits d \<and> dv_uuid d \<in> U \<and> (dv_uuid d = dv_uuid n \<longrightarrow> d = n)" if "d \<in> set ys" for d
    using assms(5) that other by (simp add: s)
  let ?t = "fold (apply_add ans) xs tb"
  let ?I = "\<lambda>t. foreign_uuid {} (dv_uuid n) t \<and> roomy U t \<and> tb_reg t = tb_reg tb"
  have t: "?I ?t"
  proof (rule fold_keeps [where I = ?I])
    fix d t
    assume d: "d \<in> set xs" "?I t"
    note x = xs [OF d(1)]
    show "?I (apply_add ans d t)"
      using apply_add_foreign [of "{}" "dv_uuid n" t d ans] apply_add_roomy [of U t d ans] micros_reg [OF micros_apply_add [of d t ans]] x d(2)
      by simp
  qed (use assms(1,2) in simp)
  have n: "entry_fits n" using assms(3,5) by blast
  have "served ans n (apply_add ans n ?t)"
    unfolding served_def by (rule apply_add_outcome [OF n assms(6-8)]) (use t assms(9) in \<open>auto simp: reg_nonempty_def\<close>)
  moreover have "roomy U (apply_add ans n ?t)" using apply_add_roomy t n assms(3,5) by blast
  moreover have "length (tb_slots (apply_add ans n ?t)) = MF_DEVICE_SLOTS"
    using micros_slots [OF micros_apply_add [OF n]] t by (simp add: foreign_uuid_def)
  ultimately have "served ans n (fold (apply_add ans) ys (apply_add ans n ?t))" using ys by (rule pass2_served)
  then show ?thesis by (simp add: s)
qed

text \<open>
  C17: No configured device is lost: after an accepted configuration, each enabled entry is live, or waits
  to be opened, unless its plugin refused to open it or all 32 slots are in use. This needs the queue's
  32 places to be more than the devices that wait or are configured, and it needs that no device with
  the entry's uuid was already stopping.
\<close>

theorem config_device_served:
  assumes "dev_reach tb" "devs_fit devs" "mf_devices_apply_config ans devs tb = (Inr p, tb')"
    and "n \<in> set devs" "dv_enabled n"
    and "card (waiting tb \<union> dv_uuid ` set devs) < MF_DEVICE_SLOTS"
    and "\<forall>i < MF_DEVICE_SLOTS. sl_in_use (tb_slots tb ! i) \<and> sl_uuid (tb_slots tb ! i) = dv_uuid n \<longrightarrow> \<not> sl_stop (tb_slots tb ! i)"
  shows "present n tb' \<or> waits n tb' \<or> (\<exists>m. an_open (ans (dv_uuid n)) = Some m) \<or>
    (\<forall>i < MF_DEVICE_SLOTS. sl_in_use (tb_slots tb' ! i))"
proof -
  let ?U = "waiting tb \<union> dv_uuid ` set devs"
  let ?t = "fold (apply_slot devs) [0..<MF_DEVICE_SLOTS] tb"
  note ok = reach_table [OF assms(1)] and len = reach_len [OF assms(1)]
  note v = apply_config_conform(3) [OF assms(3,2) len]
  note e = entries_error_None [OF validate_None(1) [OF v]]
  have tb': "tb' = fold (apply_add ans) devs ?t"
    using assms(3) v by (auto simp: mf_devices_apply_config_def Let_def)
  have fits: "entry_fits d \<and> dv_uuid d \<in> ?U" if "d \<in> set devs" for d
    using validate_fits [OF v assms(2) that] that by blast
  have roomy: "roomy ?U tb"
    using from_start_pend [OF reach_from_start [OF assms(1)]] assms(6) by (simp add: roomy_def)
  note t = pass1_roomy [OF roomy len fits]
  have cfg: "find_cfg devs (dv_uuid n) = Some n" using find_cfg_distinct assms(4) e by blast
  have "served ans n tb'"
  proof (cases "foreign_uuid {} (dv_uuid n) tb")
    case True
    have "foreign_uuid {} (dv_uuid n) ?t" using pass1_foreign [OF True] .
    moreover have "tb_reg ?t = tb_reg tb" using pass1_slots(3) [OF len] .
    ultimately show ?thesis
      unfolding tb' using e assms(4,5) fits t
      by (intro pass2_new [where U = ?U]) (simp_all only: reg_nonempty_def simp_thms)
  next
    case False
    then obtain i where i: "i < MF_DEVICE_SLOTS" "sl_in_use (tb_slots tb ! i)" "sl_uuid (tb_slots tb ! i) = dv_uuid n"
      using len by (auto simp: foreign_uuid_def)
    then have live: "live (tb_slots tb ! i)" using assms(7) by (simp add: live_def)
    have "foreign_uuid {i} (dv_uuid n) tb"
      unfolding foreign_uuid_def
    proof (intro conjI allI impI notI)
      fix j
      assume j: "j < MF_DEVICE_SLOTS" "j \<notin> {i}" "sl_in_use (tb_slots tb ! j)" "sl_uuid (tb_slots tb ! j) = dv_uuid n"
      then have "j = i" using table_ok_uuid [OF ok j(1) i(1) j(3) i(2)] i(3) by simp
      then show False using j(2) by simp
    qed (rule len)
    then have "settled i n ?t" using pass1_settled [OF roomy fits _ i(1) live i(3) cfg assms(5)] by blast
    then have "served ans n ?t" using i(1) by (auto simp: settled_def served_def present_def)
    moreover have "dv_uuid d = dv_uuid n \<longrightarrow> d = n" if "d \<in> set devs" for d
      using find_cfg_distinct [OF _ that] e cfg by (metis option.inject)
    ultimately show ?thesis unfolding tb' using t fits by (intro pass2_served [where U = ?U]) auto
  qed
  then show ?thesis by (simp add: served_def)
qed

subsection \<open>A stopping device that is configured again\<close>

definition unwanted_in_queue :: "string \<Rightarrow> dev_table \<Rightarrow> bool" where
  "unwanted_in_queue u tb \<longleftrightarrow> u \<notin> waiting tb \<and> pend_ok (tb_pending tb)"

lemma queue_unwanted:
  "unwanted_in_queue u tb \<Longrightarrow> entry_fits m \<Longrightarrow> dv_enabled m \<Longrightarrow> dv_uuid m \<noteq> u \<Longrightarrow> unwanted_in_queue u (pending_queue m tb)"
  using queue_waiting [of tb m] pend_ok_queue [of tb m] by (auto simp: unwanted_in_queue_def pend_ok_def)

lemma cancel_unwanted: "unwanted_in_queue u tb \<Longrightarrow> unwanted_in_queue u (pending_cancel v tb)"
  using cancel_waiting [of tb v] pend_ok_cancel [of tb v] by (auto simp: unwanted_in_queue_def pend_ok_def)

lemma unwanted_pending: "tb_pending tb' = tb_pending tb \<Longrightarrow> unwanted_in_queue u tb' = unwanted_in_queue u tb"
  by (simp add: unwanted_in_queue_def waiting_def waits_def)

lemma apply_slot_unwanted:
  assumes "unwanted_in_queue u tb" "length (tb_slots tb) = MF_DEVICE_SLOTS" "\<And>n. n \<in> set devs \<Longrightarrow> entry_fits n"
    and "sl_in_use (tb_slots tb ! i) \<Longrightarrow> sl_uuid (tb_slots tb ! i) \<noteq> u"
  shows "unwanted_in_queue u (apply_slot devs i tb)"
  using apply_slot_pending [OF assms(2), of devs i]
proof (elim disjE conjE exE)
  fix m
  assume m: "sl_in_use (tb_slots tb ! i)" "find_cfg devs (sl_uuid (tb_slots tb ! i)) = Some m" "dv_enabled m"
    "tb_pending (apply_slot devs i tb) = tb_pending (pending_queue m tb)"
  then have "dv_uuid m \<noteq> u" "entry_fits m" using assms(3,4) find_cfg_Some [OF m(2)] by auto
  then show ?thesis using queue_unwanted [OF assms(1) _ m(3)] unwanted_pending [OF m(4)] by blast
qed (use assms(1) cancel_unwanted [OF assms(1)] unwanted_pending in blast)+

text \<open>The slot of a stopping device that the configuration still wants is patched, and nothing is queued for it.\<close>

definition fading :: "mf_config_device list \<Rightarrow> nat \<Rightarrow> mf_config_device \<Rightarrow> dev_table \<Rightarrow> bool" where
  "fading devs i n tb \<longleftrightarrow> foreign_uuid {i} (dv_uuid n) tb \<and> unwanted_in_queue (dv_uuid n) tb \<and>
     sl_in_use (tb_slots tb ! i) \<and> sl_stop (tb_slots tb ! i) \<and> sl_uuid (tb_slots tb ! i) = dv_uuid n \<and>
     \<not> identity_changed (tb_slots tb ! i) n"

lemma fadingD:
  assumes "fading devs i n tb"
  shows "foreign_uuid {i} (dv_uuid n) tb" "unwanted_in_queue (dv_uuid n) tb" "length (tb_slots tb) = MF_DEVICE_SLOTS"
    "sl_in_use (tb_slots tb ! i)" "sl_stop (tb_slots tb ! i)" "sl_uuid (tb_slots tb ! i) = dv_uuid n"
    "\<not> identity_changed (tb_slots tb ! i) n"
  using assms unfolding fading_def foreign_uuid_def by blast+

lemma fadingI:
  assumes "fading devs i n tb" "foreign_uuid {i} (dv_uuid n) tb'" "unwanted_in_queue (dv_uuid n) tb'"
    and "tb_slots tb' ! i = tb_slots tb ! i \<or> tb_slots tb' ! i = patched n (tb_slots tb ! i)"
  shows "fading devs i n tb'"
  using fadingD [OF assms(1)] assms(2-4) unfolding fading_def identity_changed_def by auto

lemma fading_slot:
  assumes "fading devs i n tb" "find_cfg devs (dv_uuid n) = Some n" "dv_enabled n"
    and "\<And>n. n \<in> set devs \<Longrightarrow> entry_fits n" "i < MF_DEVICE_SLOTS" "j < MF_DEVICE_SLOTS"
  shows "fading devs i n (apply_slot devs j tb)"
proof (rule fadingI [OF assms(1)])
  note F = fadingD [OF assms(1)]
  show "foreign_uuid {i} (dv_uuid n) (apply_slot devs j tb)" by (rule apply_slot_foreign [OF F(1)])
  have own: "apply_slot devs i tb = log_events (history_register tb (patched n (tb_slots tb ! i)) @
      history_retention tb (patched n (tb_slots tb ! i))) (set_slot i (patched n (tb_slots tb ! i)) tb)"
    using F(4-7) assms(2,3) by (simp add: apply_slot_def Let_def)
  show "unwanted_in_queue (dv_uuid n) (apply_slot devs j tb)"
  proof (cases "j = i")
    case True
    then show ?thesis using unwanted_pending [of "apply_slot devs i tb" tb "dv_uuid n"] own F(2) by simp
  next
    case False
    show ?thesis
    proof (rule apply_slot_unwanted [OF F(2,3) assms(4)])
      show "sl_uuid (tb_slots tb ! j) \<noteq> dv_uuid n" if "sl_in_use (tb_slots tb ! j)"
        using F(1) assms(6) False that by (simp add: foreign_uuid_def)
    qed
  qed
  show "tb_slots (apply_slot devs j tb) ! i = tb_slots tb ! i \<or>
      tb_slots (apply_slot devs j tb) ! i = patched n (tb_slots tb ! i)"
  proof (cases "j = i")
    case True
    then show ?thesis using own F(3) assms(5) by simp
  next
    case False
    then show ?thesis by (simp add: apply_slot_slots)
  qed
qed

lemma fading_add:
  assumes "fading devs i n tb" "entry_fits d" "dv_uuid d = dv_uuid n \<Longrightarrow> d = n" "i < MF_DEVICE_SLOTS"
  shows "fading devs i n (apply_add ans d tb)"
proof (cases "dv_uuid d = dv_uuid n")
  case True
  have "dv_uuid n \<noteq> []" using assms(2,3) True by (simp add: entry_fits_def)
  then have "find_slot_uuid tb (dv_uuid n) \<noteq> None"
    using fadingD(4,6) [OF assms(1)] assms(4) by (auto simp: find_slot_uuid_def slot_index_None)
  then have "apply_add ans d tb = tb" using True by (simp add: apply_add_def)
  then show ?thesis using assms(1) by simp
next
  case False
  note F = fadingD [OF assms(1)]
  show ?thesis
  proof (rule fadingI [OF assms(1)])
    have "keeps_used tb (apply_add ans d tb)"
    proof (cases "dv_enabled d")
      case True
      show ?thesis by (rule add_effect_keeps [OF apply_add_effect [OF assms(2) True] F(3)])
    qed (simp add: apply_add_def keeps_used_def)
    then show "tb_slots (apply_add ans d tb) ! i = tb_slots tb ! i \<or>
        tb_slots (apply_add ans d tb) ! i = patched n (tb_slots tb ! i)"
      using keeps_usedD [OF _ assms(4) F(4)] by blast
    show "unwanted_in_queue (dv_uuid n) (apply_add ans d tb)"
      using apply_add_pending [OF assms(2), of ans tb] queue_unwanted [OF F(2) assms(2) _ False] F(2) unwanted_pending
      by metis
    show "foreign_uuid {i} (dv_uuid n) (apply_add ans d tb)" by (rule apply_add_foreign [OF F(1) assms(2) False])
  qed
qed

lemma pending_foreign:
  assumes "foreign_uuid {} u tb" "unwanted_in_queue u tb" "i < MF_DEVICE_SLOTS"
  shows "foreign_uuid {} u (apply_pending_one ans i tb) \<and> unwanted_in_queue u (apply_pending_one ans i tb)"
proof (cases "tb_pending tb ! i")
  case (Some d)
  have ok: "pend_ok (tb_pending tb)" using assms(2) by (simp add: unwanted_in_queue_def)
  note d = pend_okD [OF ok assms(3) Some]
  have ne: "dv_uuid d \<noteq> u" using Some assms(2,3) by (auto simp: unwanted_in_queue_def waiting_def waits_def)
  obtain r tb' where r: "add_from_cfg (ans (dv_uuid d)) d tb = (r, tb')" by force
  have f: "foreign_uuid {} u tb'"
    by (rule add_effect_foreign [OF add_from_cfg_effect [OF r] assms(1) _ _ ne]) (use d in blast)+
  have p: "tb_pending tb' = tb_pending tb" using add_pending [OF r] d by blast
  let ?t = "tb'\<lparr>tb_pending := (tb_pending tb')[i := None]\<rparr>"
  have "waiting ?t \<subseteq> waiting tb"
  proof
    fix v
    assume "v \<in> waiting ?t"
    then obtain e j where e: "v = dv_uuid e" "j < MF_DEVICE_SLOTS" "(tb_pending tb)[i := None] ! j = Some e"
      by (auto simp: waiting_def waits_def p)
    then have "tb_pending tb ! j = Some e" using update_None_Some pend_ok_len [OF ok] by metis
    then show "v \<in> waiting tb" using e by (auto simp: waiting_def waits_def)
  qed
  then have "unwanted_in_queue u ?t" using assms(2) pend_ok_None [OF ok] by (auto simp: unwanted_in_queue_def p)
  moreover have "unwanted_in_queue u tb'" using assms(2) unwanted_pending [OF p] by simp
  moreover have "foreign_uuid {} u ?t" using f by (simp add: foreign_uuid_def)
  moreover have "apply_pending_one ans i tb \<in> {tb, tb', ?t}"
    using r Some by (auto simp: apply_pending_one_def split: sum.splits)
  ultimately show ?thesis using assms(1,2) f by (elim insertE emptyE) simp_all
qed (use assms in \<open>simp add: apply_pending_one_def\<close>)

lemma device_pt_stop:
  assumes "sl_in_use (tb_slots tb ! i)" "sl_stop (tb_slots tb ! i)"
  shows "tb_pending (device_pt i a tb) = tb_pending tb"
    "\<exists>d. tb_slots (device_pt i a tb) = (tb_slots tb)[i := d] \<and> \<not> sl_in_use d"
proof -
  let ?d = "(if close_events (tb_slots tb ! i) \<noteq> [] then (tb_slots tb ! i)\<lparr>sl_ctx := None\<rparr> else tb_slots tb ! i)
    \<lparr>sl_in_use := False, sl_stop := False\<rparr>"
  have e: "device_pt i a tb = log_events (close_events (tb_slots tb ! i)) (set_slot i ?d tb)"
    using assms by (simp add: device_pt_def Let_def)
  show "tb_pending (device_pt i a tb) = tb_pending tb" by (simp add: e)
  have "tb_slots (device_pt i a tb) = (tb_slots tb)[i := ?d] \<and> \<not> sl_in_use ?d"
    unfolding e by simp
  then show "\<exists>d. tb_slots (device_pt i a tb) = (tb_slots tb)[i := d] \<and> \<not> sl_in_use d" by blast
qed

text \<open>
  C39: A device that is configured again while it is still stopping is lost. If the configuration wants a
  device whose slot is stopping, unchanged in kind, driver, bus and endpoint, then the configuration
  is accepted, but once the slot's thread has ended and the queue was served, no device of that uuid
  is in the table any more.
\<close>

theorem config_stopping_device_lost:
  assumes "dev_reach tb" "devs_fit devs" "mf_devices_apply_config ans devs tb = (Inr p, tb')"
    and "n \<in> set devs" "dv_enabled n" "dv_uuid n \<notin> waiting tb"
    and "i < MF_DEVICE_SLOTS" "sl_in_use (tb_slots tb ! i)" "sl_stop (tb_slots tb ! i)"
      "sl_uuid (tb_slots tb ! i) = dv_uuid n" "\<not> identity_changed (tb_slots tb ! i) n"
  shows "\<not> uuid_in_use (mf_devices_apply_pending ans' (device_pt i a tb')) (dv_uuid n)"
proof -
  note ok = reach_table [OF assms(1)] and len = reach_len [OF assms(1)]
  note v = apply_config_conform(3) [OF assms(3,2) len]
  note e = entries_error_None [OF validate_None(1) [OF v]]
  have cfg: "find_cfg devs (dv_uuid n) = Some n" using find_cfg_distinct assms(4) e by blast
  note fits = validate_fits [OF v assms(2)]
  have "foreign_uuid {i} (dv_uuid n) tb"
    unfolding foreign_uuid_def
  proof (intro conjI allI impI notI)
    fix j
    assume j: "j < MF_DEVICE_SLOTS" "j \<notin> {i}" "sl_in_use (tb_slots tb ! j)" "sl_uuid (tb_slots tb ! j) = dv_uuid n"
    then have "j = i" using table_ok_uuid [OF ok j(1) assms(7) j(3) assms(8)] assms(10) by simp
    then show False using j(2) by simp
  qed (rule len)
  then have "fading devs i n tb"
    using from_start_pend [OF reach_from_start [OF assms(1)]] assms(6,8-11) by (simp add: fading_def unwanted_in_queue_def)
  then have "fading devs i n (fold (apply_slot devs) [0..<MF_DEVICE_SLOTS] tb)"
    by (rule fold_keeps [where I = "fading devs i n", rotated]) (rule fading_slot [OF _ cfg assms(5) fits assms(7)], simp_all)
  then have "fading devs i n (fold (apply_add ans) devs (fold (apply_slot devs) [0..<MF_DEVICE_SLOTS] tb))"
  proof (rule fold_keeps [where I = "fading devs i n", rotated])
    fix d t
    assume d: "d \<in> set devs" "fading devs i n t"
    have "d = n" if "dv_uuid d = dv_uuid n" using find_cfg_distinct [OF _ d(1)] e cfg that by (metis option.inject)
    then show "fading devs i n (apply_add ans d t)" using fading_add [OF d(2) fits [OF d(1)] _ assms(7)] by blast
  qed
  moreover have "tb' = fold (apply_add ans) devs (fold (apply_slot devs) [0..<MF_DEVICE_SLOTS] tb)"
    using assms(3) v by (auto simp: mf_devices_apply_config_def Let_def)
  ultimately have f: "fading devs i n tb'" by simp
  let ?t = "device_pt i a tb'"
  note F = fadingD [OF f]
  obtain d where d: "tb_slots ?t = (tb_slots tb')[i := d]" "\<not> sl_in_use d" using device_pt_stop(2) [OF F(4,5)] by blast
  have "foreign_uuid {} (dv_uuid n) ?t"
    using F(1) d assms(7) by (simp add: foreign_uuid_def nth_list_update)
  moreover have "unwanted_in_queue (dv_uuid n) ?t"
    using F(2) unwanted_pending [OF device_pt_stop(1) [OF F(4,5)]] by blast
  ultimately have start: "foreign_uuid {} (dv_uuid n) ?t \<and> unwanted_in_queue (dv_uuid n) ?t" by blast
  then have "foreign_uuid {} (dv_uuid n) (mf_devices_apply_pending ans' ?t) \<and>
      unwanted_in_queue (dv_uuid n) (mf_devices_apply_pending ans' ?t)"
    unfolding mf_devices_apply_pending_def
    by (rule fold_keeps [where I = "\<lambda>t. foreign_uuid {} (dv_uuid n) t \<and> unwanted_in_queue (dv_uuid n) t", rotated])
      (rule pending_foreign, simp_all)
  then show ?thesis by (auto simp: uuid_in_use_iff foreign_uuid_def)
qed

end
