(* ===== verification/DeviceRequests.thy ===== *)
theory DeviceRequests
  imports DeviceServe
begin

section \<open>Reopening and settings requests\<close>

text \<open>
  A waiting device is opened once its slot is free, and what requests over the network read and change.
\<close>

subsection \<open>A device that waits is opened\<close>

lemma add_succeeds:
  assumes "dv_name n \<noteq> []" "length (dv_name n) < 32" "dv_kind n \<noteq> []" "dv_driver n \<noteq> []" "dv_uuid n \<noteq> []"
    and "\<not> name_taken tb (dv_name n) None" "\<not> uuid_in_use tb (dv_uuid n)"
    and "reg_nonempty tb \<Longrightarrow> mf_plugins_find (tb_reg tb) (dv_kind n) (dv_driver n) \<noteq> None"
    and "slot_index (\<lambda>d. \<not> sl_in_use d) tb \<noteq> None" "an_open a = None"
  shows "\<exists>u tb'. add_from_cfg a n tb = (Inr u, tb')"
  using assms
  by (auto simp: add_from_cfg_def mf_devices_add_def install_def Let_def split: prod.splits option.splits)

lemma pending_step:
  assumes "add_from_cfg (ans (dv_uuid n)) n tb = (Inr u, tb')" "tb_pending tb ! j = Some n" "\<not> uuid_in_use tb (dv_uuid n)"
  shows "apply_pending_one ans j tb = tb'\<lparr>tb_pending := (tb_pending tb')[j := None]\<rparr>"
  using assms by (simp add: apply_pending_one_def)

lemma pending_idle: "(\<And>k. k \<in> set ks \<Longrightarrow> tb_pending tb ! k = None) \<Longrightarrow> fold (apply_pending_one ans) ks tb = tb"
  by (induction ks) (simp_all add: apply_pending_one_def)

lemma apply_pending_only:
  assumes "add_from_cfg (ans (dv_uuid n)) n tb = (Inr u, tb')" "entry_fits n" "\<not> uuid_in_use tb (dv_uuid n)"
    and "pend_ok (tb_pending tb)" "waits n tb" "\<And>m. waits m tb \<Longrightarrow> m = n"
  shows "\<exists>j. mf_devices_apply_pending ans tb = tb'\<lparr>tb_pending := (tb_pending tb')[j := None]\<rparr>"
proof -
  obtain j where j: "j < MF_DEVICE_SLOTS" "tb_pending tb ! j = Some n" using assms(5) by (auto simp: waits_def)
  have others: "tb_pending tb ! k = None" if "k < MF_DEVICE_SLOTS" "k \<noteq> j" for k
  proof (rule ccontr)
    assume "tb_pending tb ! k \<noteq> None"
    then obtain m where m: "tb_pending tb ! k = Some m" by blast
    then have "m = n" using that(1) assms(6) by (auto simp: waits_def)
    then show False using pend_ok_inj [OF assms(4) that(1) j(1) m j(2)] that(2) by simp
  qed
  let ?t = "tb'\<lparr>tb_pending := (tb_pending tb')[j := None]\<rparr>"
  have split: "[0..<MF_DEVICE_SLOTS] = [0..<j] @ j # [Suc j..<MF_DEVICE_SLOTS]"
    using j(1) upt_add_eq_append [of 0 j "MF_DEVICE_SLOTS - j"] by (simp add: upt_conv_Cons)
  have p: "tb_pending tb' = tb_pending tb" by (rule add_pending [OF assms(1,2)])
  have "fold (apply_pending_one ans) [0..<j] tb = tb" using others j(1) by (intro pending_idle) simp
  moreover have "fold (apply_pending_one ans) [Suc j..<MF_DEVICE_SLOTS] ?t = ?t"
    using others by (intro pending_idle) (simp add: p)
  ultimately have "mf_devices_apply_pending ans tb = ?t"
    using pending_step [of ans n tb u tb' j, OF assms(1) j(2) assms(3)] by (simp add: mf_devices_apply_pending_def split)
  then show ?thesis by blast
qed

text \<open>
  C27: A reconfigured device comes back: when the only waiting device is one whose old slot is stopping,
  then, once that slot's thread has run and the queue is served, the device is live again, provided
  its name is free, its plugin is known and opens.
\<close>

theorem reconfigured_device_reopens:
  assumes "dev_reach tb" "tb_pts tb" "i < MF_DEVICE_SLOTS" "sl_in_use (tb_slots tb ! i)" "sl_stop (tb_slots tb ! i)"
      "sl_uuid (tb_slots tb ! i) = dv_uuid n"
    and "waits n tb" "\<And>m. waits m tb \<Longrightarrow> m = n" "dv_kind n \<noteq> []" "dv_driver n \<noteq> []"
    and "\<And>k. k < MF_DEVICE_SLOTS \<Longrightarrow> k \<noteq> i \<Longrightarrow> sl_in_use (tb_slots tb ! k) \<Longrightarrow> sl_name (tb_slots tb ! k) \<noteq> dv_name n"
    and "reg_nonempty tb \<Longrightarrow> mf_plugins_find (tb_reg tb) (dv_kind n) (dv_driver n) \<noteq> None"
    and "an_open (ans (dv_uuid n)) = None"
  shows "present n (mf_devices_apply_pending ans (device_pt i a tb))"
proof -
  let ?t = "device_pt i a tb"
  note ok = reach_table [OF assms(1)] and len = reach_len [OF assms(1)]
  have pok: "pend_ok (tb_pending tb)" by (rule from_start_pend [OF reach_from_start [OF assms(1)]])
  obtain d where d: "tb_slots ?t = (tb_slots tb)[i := d]" "\<not> sl_in_use d" using device_pt_stop(2) [OF assms(4,5)] by blast
  have p: "tb_pending ?t = tb_pending tb" by (rule device_pt_stop(1) [OF assms(4,5)])
  have slot: "tb_slots ?t ! k = (if k = i then d else tb_slots tb ! k)" for k
    using d(1) assms(3) len by (simp add: nth_list_update)
  obtain j where "j < MF_DEVICE_SLOTS" "tb_pending tb ! j = Some n" using assms(7) by (auto simp: waits_def)
  note fit = pend_okD [OF pok this]
  then have n: "dv_name n \<noteq> []" "length (dv_name n) < 32" "dv_uuid n \<noteq> []" "length (dv_uuid n) < MF_UUID_LEN"
    by (simp_all add: entry_fits_def)
  have name: "\<not> name_taken ?t (dv_name n) None"
    using assms(11) d(2) by (auto simp: name_taken_iff slot split: if_splits)
  have uuid: "\<not> uuid_in_use ?t (dv_uuid n)"
  proof
    assume "uuid_in_use ?t (dv_uuid n)"
    then obtain k where k: "k < MF_DEVICE_SLOTS" "k \<noteq> i" "sl_in_use (tb_slots tb ! k)" "sl_uuid (tb_slots tb ! k) = dv_uuid n"
      using d(2) by (auto simp: uuid_in_use_iff slot split: if_splits)
    then show False using table_ok_uuid [OF ok k(1) assms(3) k(3) assms(4)] assms(6) by simp
  qed
  have "slot_index (\<lambda>d. \<not> sl_in_use d) ?t \<noteq> None"
    using assms(3) d(2) by (auto simp: slot_index_None slot)
  moreover have reg: "tb_reg ?t = tb_reg tb" using micros_reg [OF micros_tick [OF assms(3)]] .
  ultimately obtain u tb' where r: "add_from_cfg (ans (dv_uuid n)) n ?t = (Inr u, tb')"
    using add_succeeds [OF n(1,2) assms(9,10) n(3) name uuid _ _ assms(13)] assms(12) by (auto simp: reg_nonempty_def)
  have w: "waits m ?t = waits m tb" for m by (rule waits_pending [OF p])
  have only: "m = n" if "waits m ?t" for m using that unfolding w by (rule assms(8))
  have "pend_ok (tb_pending ?t)" "waits n ?t" using pok assms(7) by (simp_all only: p w)
  then obtain j where "mf_devices_apply_pending ans ?t = tb'\<lparr>tb_pending := (tb_pending tb')[j := None]\<rparr>"
    using apply_pending_only [of ans n ?t u tb', OF r conjunct1 [OF fit] uuid _ _ only] by blast
  moreover obtain k d' where "k < MF_DEVICE_SLOTS" "tb_slots tb' = (tb_slots ?t)[k := d']"
      "filled (added_slot ?t (dv_uuid n) (dv_name n) (dv_kind n) (dv_driver n) (Some (device_to_json n))) d'"
    using add_ok [OF r [unfolded add_from_cfg_def]] n(3,4) by auto
  ultimately show ?thesis
    using added_conforms(2,4) [of ?t n d' "[n]"] fit d(1) len by (auto simp: present_def intro!: exI [of _ k])
qed

subsection \<open>Settings\<close>

lemma find_live_mut_update:
  assumes "find_live_mut tb u = Some i" "tb_slots tb' = (tb_slots tb)[i := d]" "live d" "sl_uuid d = u"
    "length (tb_slots tb) = MF_DEVICE_SLOTS"
  shows "find_live_mut tb' u = Some i"
proof -
  have i: "i < MF_DEVICE_SLOTS" "live (tb_slots tb ! i)" "sl_uuid (tb_slots tb ! i) = u"
    using find_live_mut_Some [OF assms(1)] by simp_all
  have "(live (tb_slots tb' ! k) \<and> sl_uuid (tb_slots tb' ! k) = u) = (live (tb_slots tb ! k) \<and> sl_uuid (tb_slots tb ! k) = u)" for k
    using assms(2-5) i by (cases "k = i") (simp_all add: nth_list_update)
  then show ?thesis using assms(1) by (simp add: find_live_mut_def find_live_def slot_index_def split: if_splits)
qed

definition daemon_settings :: "slot \<Rightarrow> string \<times> xdouble \<times> bool" where
  "daemon_settings d = (sl_name d, sl_poll_interval_s d, sl_active d)"

text \<open>What a request asks of the daemon's own settings.\<close>

definition asked :: "json \<Rightarrow> slot \<Rightarrow> string \<times> xdouble \<times> bool" where
  "asked rt d =
     (case get_item rt ''name'' of Some (JString n) \<Rightarrow> n | _ \<Rightarrow> sl_name d,
      case num_or_text (get_item rt ''poll_interval_s'') of Some x \<Rightarrow> x | None \<Rightarrow> sl_poll_interval_s d,
      case get_item rt ''active'' of Some (JBool b) \<Rightarrow> b | _ \<Rightarrow> sl_active d)"

lemma put_name_done: "put_name tb i rt d = Inr (d', evs) \<Longrightarrow>
    d' = d\<lparr>sl_name := (case get_item rt ''name'' of Some (JString n) \<Rightarrow> n | _ \<Rightarrow> sl_name d)\<rparr>"
  by (auto simp: put_name_def Let_def split: option.splits json.splits if_splits)

lemma put_poll_done: "put_poll rt d = Inr (d', evs) \<Longrightarrow>
    d' = d\<lparr>sl_poll_interval_s := (case num_or_text (get_item rt ''poll_interval_s'') of Some x \<Rightarrow> x | None \<Rightarrow> sl_poll_interval_s d)\<rparr>"
  by (auto simp: put_poll_def Let_def split: option.splits if_splits)

lemma put_rest_done:
  "put_capture rt d = Inr (d', evs) \<Longrightarrow> daemon_settings d' = daemon_settings d"
  "put_retention tb rt d = Inr (d', evs) \<Longrightarrow> daemon_settings d' = daemon_settings d"
  by (auto simp: put_capture_def put_retention_def daemon_settings_def Let_def split: option.splits if_splits prod.splits)

lemma put_active_done: "put_active rt d = Inr (d', evs) \<Longrightarrow>
    d' = d\<lparr>sl_active := (case get_item rt ''active'' of Some (JBool b) \<Rightarrow> b | _ \<Rightarrow> sl_active d)\<rparr>"
  by (auto simp: put_active_def split: option.splits json.splits)

lemma put_generic_done:
  assumes "put_generic tb i rt d = (None, d', evs)"
  shows "daemon_settings d' = asked rt d"
proof -
  have "put_steps [put_name tb i rt, put_poll rt, put_capture rt, put_retention tb rt, put_active rt] d = (None, d', evs)"
    using assms by (auto simp: put_generic_def split: if_splits)
  then obtain d1 e1 d2 e2 d3 e3 d4 e4 e5 where
    "put_name tb i rt d = Inr (d1, e1)" "put_poll rt d1 = Inr (d2, e2)" "put_capture rt d2 = Inr (d3, e3)"
    "put_retention tb rt d3 = Inr (d4, e4)" "put_active rt d4 = Inr (d', e5)"
    by (auto split: sum.splits prod.splits)
  from put_name_done [OF this(1)] put_poll_done [OF this(2)] put_rest_done(1) [OF this(3)] put_rest_done(2) [OF this(4)]
    put_active_done [OF this(5)]
  show ?thesis by (simp add: daemon_settings_def asked_def split: option.split json.split)
qed

text \<open>
  C29: What a settings request changed reads back: after a request that was answered 200, the settings of
  the device show the name, the poll interval and the active flag that it asked for, and the old values
  of those it did not mention. The poll interval is what the code reads from a number or from a text;
  one that is an infinity or a NaN is accepted as well, and shows as null. (The documents are those of
  \<open>Json\<close>: an infinity comes from a text such as \<open>1e999\<close>, not from a number literal beyond the doubles.)
\<close>

theorem settings_put_get:
  assumes "dev_reach tb" "find_live_mut tb u = Some i"
    and "mf_devices_put_settings tb u (Some (JObject kvs)) rc msg = (200, e, tb')"
  shows "\<exists>out. mf_devices_get_settings tb' u plug keep = (200, Some out) \<and>
    (get_item out ''name'', get_item out ''poll_interval_s'', get_item out ''active'', get_item out ''uuid'') =
    (case asked (JObject kvs) (tb_slots tb ! i) of (n, p, b) \<Rightarrow>
       (Some (JString n), Some (json_number p), Some (JBool b), Some (JString u)))"
proof -
  let ?d = "tb_slots tb ! i"
  have i: "i < MF_DEVICE_SLOTS" "live ?d" "sl_uuid ?d = u" using find_live_mut_Some [OF assms(2)] by simp_all
  obtain e1 d1 evs where r: "put_generic tb i (JObject kvs) ?d = (e1, d1, evs)" by (metis prod_cases3)
  have e1: "e1 = None" and s: "tb_slots tb' = (tb_slots tb)[i := d1]"
    using assms(2,3) r by (auto simp: mf_devices_put_settings_def Let_def split: if_splits)
  note got = put_generic_done [OF r [unfolded e1]]
  have "tuned ?d d1" using put_generic_ok [OF r] by blast
  then have d1: "live d1" "sl_uuid d1 = u" using i by (simp_all add: tuned_def live_def)
  note f = find_live_mut_update [OF assms(2) s d1 reach_len [OF assms(1)]]
  have "tb_slots tb' ! i = d1" using s i(1) reach_len [OF assms(1)] by simp
  moreover have "map_of (filter (\<lambda>(k, v). k \<noteq> [] \<and> \<not> is_generic_setting k) kvs) ''uuid'' = None" for kvs :: "(string \<times> json) list"
    by (auto simp: map_of_eq_None_iff is_generic_setting_def generic_settings_def)
  ultimately show ?thesis
    using f got d1(2)
    by (auto simp: mf_devices_get_settings_def Let_def daemon_settings_def map_add_def split: prod.splits option.splits)
qed

text \<open>
  A poll interval given as the text \<open>nan\<close> is not refused as one below the driver's minimum is: the request
  is answered 200, and the interval stored is a NaN, below and above nothing.
\<close>

theorem settings_nan_poll_accepted:
  assumes "dev_reach tb" "find_live_mut tb u = Some i" "atof s = XNaN neg"
  shows "\<exists>tb'. mf_devices_put_settings tb u (Some (JObject [(''poll_interval_s'', JString s)])) rc msg = (200, None, tb') \<and>
    sl_poll_interval_s (tb_slots tb' ! i) = XNaN neg"
proof -
  let ?rt = "JObject [(''poll_interval_s'', JString s)]"
  let ?d = "(tb_slots tb ! i)\<lparr>sl_poll_interval_s := XNaN neg\<rparr>"
  have i: "i < MF_DEVICE_SLOTS" using find_live_mut_Some [OF assms(2)] by simp
  have "put_generic tb i ?rt (tb_slots tb ! i) = (None, ?d, [])"
    using assms(3)
    by (simp add: put_generic_def put_name_def put_poll_def put_capture_def put_retention_def put_active_def
        num_or_text_def Let_def)
  then have "mf_devices_put_settings tb u (Some ?rt) rc msg = (200, None, log_events [] (set_slot i ?d tb))"
    using assms(2) by (simp add: mf_devices_put_settings_def is_generic_setting_def generic_settings_def Let_def)
  then show ?thesis using i reach_len [OF assms(1)] by simp
qed

text \<open>
  A rejected settings request may already have changed the device: with a new name and a poll interval
  that is too short, the answer is 400 and the device has the new name.
\<close>

theorem settings_rejected_half_applied:
  assumes "dev_reach tb" "find_live_mut tb u = Some i" "n \<noteq> []" "length n < 32" "\<not> name_taken tb n (Some i)"
    and "x < mf_poll_interval_min (sl_driver (tb_slots tb ! i))"
  shows "\<exists>tb'. mf_devices_put_settings tb u (Some (JObject [(''name'', JString n), (''poll_interval_s'', JNumber x)])) rc msg
      = (400, Some (Poll_below (mf_poll_interval_min (sl_driver (tb_slots tb ! i)))), tb') \<and>
    map_option in_name (mf_devices_find_live tb' u) = Some n"
proof -
  let ?rt = "JObject [(''name'', JString n), (''poll_interval_s'', JNumber x)]"
  let ?d = "(tb_slots tb ! i)\<lparr>sl_name := n\<rparr>"
  have i: "i < MF_DEVICE_SLOTS" "live (tb_slots tb ! i)" "sl_uuid (tb_slots tb ! i) = u" "u \<noteq> []"
    using find_live_mut_Some [OF assms(2)] by simp_all
  have g: "put_generic tb i ?rt (tb_slots tb ! i) =
      (Some (Poll_below (mf_poll_interval_min (sl_driver (tb_slots tb ! i)))), ?d, history_register tb ?d)"
    using assms(3-6) by (simp add: put_generic_def put_name_def put_poll_def num_or_text_def Let_def)
  let ?t = "log_events (history_register tb ?d) (set_slot i ?d tb)"
  have p: "mf_devices_put_settings tb u (Some ?rt) rc msg =
      (400, Some (Poll_below (mf_poll_interval_min (sl_driver (tb_slots tb ! i)))), ?t)"
    using assms(2) g by (simp add: mf_devices_put_settings_def Let_def)
  have "find_live_mut ?t u = Some i"
    using i by (intro find_live_mut_update [OF assms(2), of _ ?d]) (simp_all add: live_def reach_len [OF assms(1)])
  then have "map_option in_name (mf_devices_find_live ?t u) = Some n"
    using i reach_len [OF assms(1)] by (simp add: find_live_mut_def mf_devices_find_live_def fill_info_def)
  then show ?thesis using p by blast
qed

end
