(* ===== verification/DeviceExamples.thy ===== *)
theory DeviceExamples
  imports DeviceRequests
begin

section \<open>The properties of the device table at work\<close>

text \<open>A daemon with one plugin; a battery is configured, moved to another adapter, and configured again.\<close>

definition ans_ok :: answers where
  "ans_ok = \<lparr>an_open = None, an_caps = 1, an_reading = Some ''{}'', an_last_error = None, an_step = MF_STEP_UPDATED\<rparr>"

definition bank_a :: mf_config_device where
  "bank_a = device_zero\<lparr>dv_uuid := ''aaaa'', dv_name := ''bank'', dv_kind := ''battery'', dv_driver := ''jk'',
     dv_enabled := True, dv_ble := ble_zero\<lparr>cb_address := ''C8''\<rparr>\<rparr>"

definition bank_b :: mf_config_device where
  "bank_b = bank_a\<lparr>dv_ble := ble_zero\<lparr>cb_address := ''D9''\<rparr>\<rparr>"

definition table0 :: dev_table where
  "table0 = mf_devices_init True (Some \<lparr>rg_libs = [], rg_ops = [sample_ops ''battery'' ''jk'']\<rparr>) False (\<lambda>_. [])"

definition table1 :: dev_table where "table1 = snd (mf_devices_apply_config (\<lambda>_. ans_ok) [bank_a] table0)"
definition table2 :: dev_table where "table2 = snd (mf_devices_apply_config (\<lambda>_. ans_ok) [bank_b] table1)"

lemma table0_reach: "dev_reach table0"
  unfolding table0_def by (rule r_init) (simp add: plugins_close_def sample_ops_def)

lemma bank_fits: "devs_fit [bank_a]" "devs_fit [bank_b]"
  by (simp_all add: devs_fit_def bank_a_def bank_b_def device_zero_def MF_UUID_LEN_def)

lemma table1_reach: "dev_reach table1"
  unfolding table1_def using r_config [OF table0_reach bank_fits(1)] by (metis prod.collapse)

lemma table2_reach: "dev_reach table2"
  unfolding table2_def using r_config [OF table1_reach bank_fits(2)] by (metis prod.collapse)

text \<open>The tables evaluated, each once.\<close>

definition seen :: "'a + 'b \<Rightarrow> dev_table \<Rightarrow> _" where
  "seen r t = (isl r, map sl_in_use (tb_slots t), map sl_stop (tb_slots t), map sl_uuid (tb_slots t),
     sl_driver (tb_slots t ! 0), opened_ctxs (tb_log t), closed_ctxs (tb_log t))"

definition waiting_seen :: "'a + 'b \<Rightarrow> dev_table \<Rightarrow> _" where
  "waiting_seen r t = (isl r, map sl_in_use (tb_slots t), sl_stop (tb_slots t ! 0), sl_uuid (tb_slots t ! 0),
     tb_pending t = Some bank_b # replicate 31 None, tb_pts t)"

definition deleted_seen :: "dev_table \<Rightarrow> _" where
  "deleted_seen t = (sl_in_use (tb_slots t ! 0), sl_stop (tb_slots t ! 0), sl_uuid (tb_slots t ! 0),
     identity_changed (tb_slots t ! 0) bank_a, tb_pending t = replicate 32 None)"

lemma table1_seen:
  "case_prod seen (mf_devices_apply_config (\<lambda>_. ans_ok) [bank_a] table0) =
     (False, True # replicate 31 False, replicate 32 False, ''aaaa'' # replicate 31 [], ''jk'', [0], [])"
  by code_simp

lemma table2_seen:
  "case_prod waiting_seen (mf_devices_apply_config (\<lambda>_. ans_ok) [bank_b] table1) =
     (False, True # replicate 31 False, True, ''aaaa'', True, True)"
  by code_simp

lemma table1_facts:
  "\<not> isl (fst (mf_devices_apply_config (\<lambda>_. ans_ok) [bank_a] table0)) \<and>
   map sl_in_use (tb_slots table1) = True # replicate 31 False \<and> map sl_stop (tb_slots table1) = replicate 32 False \<and>
   map sl_uuid (tb_slots table1) = ''aaaa'' # replicate 31 [] \<and> sl_driver (tb_slots table1 ! 0) = ''jk'' \<and>
   opened_ctxs (tb_log table1) = [0] \<and> closed_ctxs (tb_log table1) = []"
  using table1_seen unfolding table1_def seen_def case_prod_unfold prod.inject by blast

lemma table2_facts:
  "\<not> isl (fst (mf_devices_apply_config (\<lambda>_. ans_ok) [bank_b] table1)) \<and>
   map sl_in_use (tb_slots table2) = True # replicate 31 False \<and> sl_stop (tb_slots table2 ! 0) \<and>
   sl_uuid (tb_slots table2 ! 0) = ''aaaa'' \<and> tb_pending table2 = Some bank_b # replicate 31 None \<and> tb_pts table2"
  using table2_seen unfolding table2_def waiting_seen_def case_prod_unfold prod.inject by blast

definition table1_deleted :: dev_table where "table1_deleted = snd (mf_devices_delete ''aaaa'' table1)"

lemma deleted_reach: "dev_reach table1_deleted"
  unfolding table1_deleted_def using r_delete [OF table1_reach] by (metis prod.collapse)

lemma deleted_kept: "deleted_seen table1_deleted = (True, True, ''aaaa'', False, True)"
  by code_simp

lemma deleted_accepts: "case_prod (\<lambda>r t. isl r) (mf_devices_apply_config (\<lambda>_. ans_ok) [bank_a] table1_deleted) = False"
  by code_simp

lemma deleted_facts:
  "\<not> isl (fst (mf_devices_apply_config (\<lambda>_. ans_ok) [bank_a] table1_deleted)) \<and>
   sl_in_use (tb_slots table1_deleted ! 0) \<and> sl_stop (tb_slots table1_deleted ! 0) \<and>
   sl_uuid (tb_slots table1_deleted ! 0) = ''aaaa'' \<and> \<not> identity_changed (tb_slots table1_deleted ! 0) bank_a \<and>
   tb_pending table1_deleted = replicate 32 None"
  using deleted_kept deleted_accepts unfolding deleted_seen_def case_prod_unfold prod.inject by blast

lemma accepted:
  "\<not> isl (fst x) \<Longrightarrow> \<exists>p. x = (Inr p, snd x)"
  by (cases x; cases "fst x") auto

lemma used_nth:
  assumes "map sl_in_use ds = True # replicate 31 False" "k < MF_DEVICE_SLOTS"
  shows "sl_in_use (ds ! k) \<longleftrightarrow> k = 0"
proof -
  have "length ds = 32" using arg_cong [OF assms(1), of length] by simp
  then have "sl_in_use (ds ! k) = (True # replicate 31 False) ! k"
    using assms by (metis MF_DEVICE_SLOTS_def nth_map)
  then show ?thesis using assms(2) by (cases k) (simp_all add: MF_DEVICE_SLOTS_def)
qed

lemma bank_uuid [simp]: "dv_uuid bank_a = ''aaaa''" "dv_uuid bank_b = ''aaaa''" "dv_enabled bank_a" "dv_enabled bank_b"
  by (simp_all add: bank_a_def bank_b_def device_zero_def)

lemma table1_live: "live (tb_slots table1 ! 0)" "sl_in_use (tb_slots table1 ! 0)" "sl_uuid (tb_slots table1 ! 0) = ''aaaa''"
proof -
  have len: "length (tb_slots table1) = 32" using reach_len [OF table1_reach] by (simp add: MF_DEVICE_SLOTS_def)
  have nth: "f (tb_slots table1 ! 0) = map f (tb_slots table1) ! 0" for f :: "slot \<Rightarrow> 'a" using len by simp
  show u: "sl_in_use (tb_slots table1 ! 0)" "sl_uuid (tb_slots table1 ! 0) = ''aaaa''"
    unfolding nth using table1_facts by simp_all
  have "\<not> sl_stop (tb_slots table1 ! 0)" unfolding nth using table1_facts by simp
  then show "live (tb_slots table1 ! 0)" using u by (simp add: live_def)
qed

lemma slots_pos [simp]: "0 < MF_DEVICE_SLOTS" "Suc 0 < MF_DEVICE_SLOTS"
  by (simp_all add: MF_DEVICE_SLOTS_def)

theorem dev_contexts_accounted_witness: "\<exists>!i. i < MF_DEVICE_SLOTS \<and> sl_ctx (tb_slots table1 ! i) = Some 0"
  using dev_contexts_accounted [OF table1_reach] table1_facts by simp

theorem dev_table_consistent_witness: "slot_shape (tb_slots table1 ! 0) \<and> pend_ok (tb_pending table2)"
  using dev_table_consistent [OF table1_reach] dev_table_consistent [OF table2_reach] table1_live(2) slots_pos(1) by blast

theorem config_followed_witness: "conforms [bank_a] (tb_slots table1 ! 0)"
proof -
  obtain p where "mf_devices_apply_config (\<lambda>_. ans_ok) [bank_a] table0 = (Inr p, table1)"
    using accepted table1_facts unfolding table1_def by blast
  from config_followed [OF table0_reach bank_fits(1) this] show ?thesis
    using table1_live(1) slots_pos(1) by blast
qed

theorem config_reapply_keeps_witness:
  "live (tb_slots (snd (mf_devices_apply_config (\<lambda>_. ans_ok) [bank_a] table1)) ! 0)"
proof -
  obtain p where p: "mf_devices_apply_config (\<lambda>_. ans_ok) [bank_a] table0 = (Inr p, table1)"
    using accepted table1_facts unfolding table1_def by blast
  have "\<forall>n \<in> set [bank_a]. slot_sized n"
    by (simp add: slot_sized_def bank_a_def device_zero_def modbus_zero_def int_ok_def INT_MIN_def INT_MAX_def)
  from config_reapply_keeps [OF table0_reach bank_fits(1) this p prod.collapse [symmetric]] show ?thesis
    using table1_live(1) slots_pos(1) by blast
qed

theorem config_device_served_witness: "present bank_a table1 \<or> waits bank_a table1"
proof -
  obtain p where p: "mf_devices_apply_config (\<lambda>_. ans_ok) [bank_a] table0 = (Inr p, table1)"
    using accepted table1_facts unfolding table1_def by blast
  have "waiting table0 = {}" by (auto simp: waiting_def waits_def table0_def)
  then have "card (waiting table0 \<union> dv_uuid ` set [bank_a]) < MF_DEVICE_SLOTS" by (simp add: MF_DEVICE_SLOTS_def)
  moreover have "\<forall>i < MF_DEVICE_SLOTS. sl_in_use (tb_slots table0 ! i) \<and> sl_uuid (tb_slots table0 ! i) = dv_uuid bank_a
      \<longrightarrow> \<not> sl_stop (tb_slots table0 ! i)" by (simp add: table0_def slot_zero_def)
  ultimately have "present bank_a table1 \<or> waits bank_a table1 \<or> (\<exists>m. an_open ans_ok = Some m) \<or>
      (\<forall>i < MF_DEVICE_SLOTS. sl_in_use (tb_slots table1 ! i))"
    using config_device_served [OF table0_reach bank_fits(1) p, of bank_a] by simp
  moreover have "\<not> sl_in_use (tb_slots table1 ! Suc 0)" using used_nth [of "tb_slots table1" "Suc 0"] table1_facts by simp
  ultimately show ?thesis using slots_pos(2) by (auto simp: ans_ok_def)
qed

theorem config_stopping_device_lost_witness:
  "\<not> uuid_in_use (mf_devices_apply_pending (\<lambda>_. ans_ok)
      (device_pt 0 ans_ok (snd (mf_devices_apply_config (\<lambda>_. ans_ok) [bank_a] table1_deleted)))) ''aaaa''"
proof -
  obtain p where p: "mf_devices_apply_config (\<lambda>_. ans_ok) [bank_a] table1_deleted =
      (Inr p, snd (mf_devices_apply_config (\<lambda>_. ans_ok) [bank_a] table1_deleted))"
    using accepted deleted_facts by blast
  have "waiting table1_deleted = {}" using deleted_facts by (auto simp: waiting_def waits_def MF_DEVICE_SLOTS_def)
  then show ?thesis
    using config_stopping_device_lost [OF deleted_reach bank_fits(1) p, of bank_a 0] deleted_facts by simp
qed

theorem reconfigured_device_reopens_witness:
  "present bank_b (mf_devices_apply_pending (\<lambda>_. ans_ok) (device_pt 0 ans_ok table2))"
proof (rule reconfigured_device_reopens [OF table2_reach, of 0 bank_b])
  have used: "map sl_in_use (tb_slots table2) = True # replicate 31 False" using table2_facts by blast
  show "tb_pts table2" "0 < MF_DEVICE_SLOTS" "sl_stop (tb_slots table2 ! 0)"
    "sl_uuid (tb_slots table2 ! 0) = dv_uuid bank_b" using table2_facts by simp_all
  show "sl_in_use (tb_slots table2 ! 0)" using used_nth [OF used, of 0] by simp
  have pend: "tb_pending table2 = Some bank_b # replicate 31 None" using table2_facts by blast
  show "waits bank_b table2" unfolding waits_def pend by (intro exI [of _ 0]) simp
  show "m = bank_b" if w: "waits m table2" for m
  proof -
    obtain j where "j < 32" "(Some bank_b # replicate 31 None) ! j = Some m"
      using w unfolding waits_def pend MF_DEVICE_SLOTS_def by blast
    then show "m = bank_b" by (cases j) simp_all
  qed
  show "dv_kind bank_b \<noteq> []" "dv_driver bank_b \<noteq> []" by (simp_all add: bank_a_def bank_b_def device_zero_def)
  show "sl_name (tb_slots table2 ! k) \<noteq> dv_name bank_b"
    if "k < MF_DEVICE_SLOTS" "k \<noteq> 0" "sl_in_use (tb_slots table2 ! k)" for k
    using that used_nth [OF used that(1)] by simp
  have "tb_reg table2 = tb_reg table0"
    using micros_reg micros_apply_config [OF prod.collapse [symmetric] bank_fits(1) reach_len [OF table0_reach]]
      micros_apply_config [OF prod.collapse [symmetric] bank_fits(2) reach_len [OF table1_reach]]
    unfolding table1_def table2_def by metis
  then show "mf_plugins_find (tb_reg table2) (dv_kind bank_b) (dv_driver bank_b) \<noteq> None"
    by (simp add: table0_def mf_plugins_find_def ops_match_def sample_ops_def bank_a_def bank_b_def device_zero_def)
qed (simp add: ans_ok_def)

lemma table1_find: "find_live_mut table1 ''aaaa'' = Some 0"
  using table1_live by (simp add: find_live_mut_def find_live_def slot_index_def MF_DEVICE_SLOTS_def upt_rec)

theorem settings_put_get_witness:
  "\<exists>out. mf_devices_get_settings
     (snd (snd (mf_devices_put_settings table1 ''aaaa''
        (Some (JObject [(''name'', JString ''north''), (''poll_interval_s'', JString ''nan'')])) 0 []))) ''aaaa'' None 0
       = (200, Some out) \<and> get_item out ''name'' = Some (JString ''north'') \<and> get_item out ''poll_interval_s'' = Some JNull"
proof -
  let ?kvs = "[(''name'', JString ''north''), (''poll_interval_s'', JString ''nan'')]"
  have "fst (mf_devices_put_settings table1 ''aaaa'' (Some (JObject ?kvs)) 0 []) = 200"
    by code_simp
  then obtain e tb' where r: "mf_devices_put_settings table1 ''aaaa'' (Some (JObject ?kvs)) 0 []
      = (200, e, tb')" by (metis prod_cases3 fst_conv)
  have "atof ''nan'' = XNaN False" by code_simp
  then show ?thesis
    using settings_put_get [OF table1_reach table1_find r, of None 0]
    by (auto simp: r asked_def num_or_text_def json_number_def)
qed

theorem settings_nan_poll_accepted_witness:
  "fst (mf_devices_put_settings table1 ''aaaa'' (Some (JObject [(''poll_interval_s'', JString ''-NaN'')])) 0 []) = 200"
proof -
  have "atof ''-NaN'' = XNaN True" by code_simp
  then show ?thesis
    using settings_nan_poll_accepted [OF table1_reach table1_find, of "''-NaN''" True 0 "[]"] by auto
qed

theorem settings_rejected_half_applied_witness:
  "fst (mf_devices_put_settings table1 ''aaaa''
     (Some (JObject [(''name'', JString ''north''), (''poll_interval_s'', JNumber 0)])) 0 []) = 400"
proof -
  have "\<not> name_taken table1 ''north'' (Some 0)" "(0 :: cdouble) < mf_poll_interval_min (sl_driver (tb_slots table1 ! 0))"
    using used_nth [of "tb_slots table1"] table1_facts by (auto simp: name_taken_iff mf_poll_interval_min_def)
  then show ?thesis
    using settings_rejected_half_applied [OF table1_reach table1_find, of "''north''" 0 0 "[]"] by auto
qed

end
