(* ===== verification/HttpServer.thy ===== *)
theory HttpServer
  imports CText Sockets
begin

section \<open>The HTTP server (src/http/http_pt.c, http_pt.h)\<close>

text \<open>
  Sixteen connections, each a state machine that is run once per tick: it reads until a request is
  complete, hands it to the REST layer, and sends the reply. The request parser (picohttpparser) and
  the REST layer with the daemon's state \<open>'w\<close> behind it are parameters. What the socket calls return is
  a script of events; a used-up script is \<open>EAGAIN\<close>, as is \<open>EINTR\<close>. Sockets are numbered in the order
  of their creation; \<open>io_closed\<close> and \<open>h_closed\<close> record the closed ones. A character array is the list of
  its first \<open>len\<close> characters.
\<close>

definition MF_MAX_HTTP_CLIENTS :: nat where "MF_MAX_HTTP_CLIENTS = 16"
definition MF_HTTP_HDR_CAP :: nat where "MF_HTTP_HDR_CAP = 8192"
definition MF_HTTP_BODY_CAP :: nat where "MF_HTTP_BODY_CAP = 65536"
definition MF_HTTP_IN_CAP :: nat where "MF_HTTP_IN_CAP = MF_HTTP_HDR_CAP + MF_HTTP_BODY_CAP"
definition MF_HTTP_OUT_CAP :: nat where "MF_HTTP_OUT_CAP = 65536"
definition MF_HTTP_IDLE_S :: cdouble where "MF_HTTP_IDLE_S = 30"

lemmas http_caps = MF_HTTP_HDR_CAP_def MF_HTTP_BODY_CAP_def MF_HTTP_IN_CAP_def MF_HTTP_OUT_CAP_def

subsection \<open>Data\<close>

datatype http_state = HTTP_RECV_HEADERS | HTTP_RECV_BODY | HTTP_SEND | HTTP_CLOSE

record http_conn =
  c_in_use :: bool
  c_fd :: "nat option"
  c_want_read :: bool
  c_want_write :: bool
  c_state :: http_state
  c_in :: string
  c_last_len :: nat
  c_header_len :: nat
  c_content_length :: nat
  c_out :: string
  c_out_off :: nat
  c_minor :: int
  c_close_after :: bool
  c_req_close :: bool
  c_method :: string
  c_path :: string
  c_query :: string
  c_peer :: string
  c_if_match :: string
  c_last_progress :: cdouble

definition conn_zero :: http_conn where
  "conn_zero = \<lparr>c_in_use = False, c_fd = None, c_want_read = False, c_want_write = False,
     c_state = HTTP_RECV_HEADERS, c_in = [], c_last_len = 0, c_header_len = 0, c_content_length = 0,
     c_out = [], c_out_off = 0, c_minor = 0, c_close_after = False, c_req_close = False, c_method = [],
     c_path = [], c_query = [], c_peer = [], c_if_match = [], c_last_progress = 0\<rparr>"

text \<open>A header name is \<open>None\<close> on a continuation line.\<close>

type_synonym phr_header = "string option \<times> string"

datatype phr_result =
    Phr_partial
  | Phr_bad
  | Phr_request nat string string int "phr_header list"

record rest_request =
  rq_method :: string
  rq_path :: string
  rq_query :: "string option"
  rq_body :: "string option"
  rq_if_match :: "string option"
  rq_peer :: "string option"

record rest_response =
  rp_status :: int
  rp_body :: string
  rp_location :: string
  rp_etag :: string

text \<open>\<open>he_rest\<close> gives \<open>None\<close> where \<open>mf_rest_dispatch\<close> does not return 0.\<close>

record 'w http_env =
  he_phr :: "string \<Rightarrow> nat \<Rightarrow> phr_result"
  he_rest :: "rest_request \<Rightarrow> 'w \<Rightarrow> rest_response option \<times> 'w"
  he_version :: string
  he_start_mono :: cdouble

record io =
  io_now :: cdouble
  io_rd :: "sock_read list"
  io_wr :: "sock_write list"
  io_sent :: string
  io_closed :: "nat list"

subsection \<open>Connections\<close>

definition conn_reset_req :: "http_conn \<Rightarrow> http_conn" where
  "conn_reset_req c = c\<lparr>c_last_len := 0, c_header_len := 0, c_content_length := 0, c_out := [], c_out_off := 0,
     c_minor := 1, c_close_after := False, c_req_close := False, c_method := [], c_path := [], c_query := [],
     c_if_match := [], c_state := HTTP_RECV_HEADERS, c_want_read := True, c_want_write := False\<rparr>"

definition conn_close :: "http_conn \<Rightarrow> io \<Rightarrow> http_conn \<times> io" where
  "conn_close c io =
     (c\<lparr>c_fd := None, c_in_use := False, c_want_read := False, c_want_write := False, c_state := HTTP_CLOSE, c_in := []\<rparr>,
      case c_fd c of Some fd \<Rightarrow> io\<lparr>io_closed := io_closed io @ [fd]\<rparr> | None \<Rightarrow> io)"

subsection \<open>Headers\<close>

definition hdr_name_eq :: "phr_header \<Rightarrow> string \<Rightarrow> bool" where
  "hdr_name_eq h name \<longleftrightarrow> (case fst h of None \<Rightarrow> False | Some n \<Rightarrow> length n = length name \<and> lower n = lower name)"

definition hdr_is_identity :: "phr_header \<Rightarrow> bool" where
  "hdr_is_identity h \<longleftrightarrow>
     lower (rev (dropWhile is_sp_tab (rev (dropWhile is_sp_tab (snd h))))) = ''identity''"

definition token_at :: "string \<Rightarrow> string \<Rightarrow> nat \<Rightarrow> bool" where
  "token_at v tok i \<longleftrightarrow>
     (i = 0 \<or> is_sp_tab (v ! (i - 1)) \<or> v ! (i - 1) = CHR '','') \<and>
     lower (take (length tok) (drop i v)) = lower tok \<and>
     (i + length tok = length v \<or>
      (let after = v ! (i + length tok) in after = CHR '','' \<or> is_sp_tab after \<or> after = CHR '';''))"

definition hdr_has_token :: "phr_header \<Rightarrow> string \<Rightarrow> bool" where
  "hdr_has_token h tok \<longleftrightarrow> list_ex (token_at (snd h) tok) [0 ..< length (snd h) + 1 - length tok]"

text \<open>\<open>strtoull\<close> with base 10: \<open>None\<close> without digits or beyond 64 bits; a minus sign negates modulo \<open>2^64\<close>.\<close>

definition strtoull10 :: "string \<Rightarrow> nat option" where
  "strtoull10 s =
     (let s = dropWhile is_space s;
          neg = (s \<noteq> [] \<and> hd s = CHR ''-'');
          s = (if s \<noteq> [] \<and> (hd s = CHR ''-'' \<or> hd s = CHR ''+'') then tl s else s);
          ds = takeWhile is_digit s;
          v = digits_val ds
      in if ds = [] \<or> 2 ^ 64 \<le> v then None else Some (if neg then (2 ^ 64 - v) mod 2 ^ 64 else v))"

subsection \<open>Replies\<close>

definition http_reason :: "int \<Rightarrow> string" where
  "http_reason status =
     (if status = 200 then ''OK'' else if status = 201 then ''Created'' else if status = 202 then ''Accepted''
      else if status = 400 then ''Bad Request'' else if status = 403 then ''Forbidden''
      else if status = 404 then ''Not Found'' else if status = 405 then ''Method Not Allowed''
      else if status = 409 then ''Conflict'' else if status = 413 then ''Payload Too Large''
      else ''Error'')"

definition crlf :: string where "crlf = [CHR 0x0D, CHR 0x0A]"

definition reply_head :: "int \<Rightarrow> int \<Rightarrow> string \<Rightarrow> nat \<Rightarrow> bool \<Rightarrow> string option \<Rightarrow> string option \<Rightarrow> string" where
  "reply_head minor status reason body_len close_c location etag =
     ''HTTP/1.'' @ dec_int minor @ '' '' @ dec_int status @ '' '' @ reason @ crlf @
     ''Content-Type: application/json'' @ crlf @
     ''Content-Length: '' @ nat_digits body_len @ crlf @
     ''Connection: '' @ (if close_c then ''close'' else ''keep-alive'') @ crlf @
     (case location of Some l \<Rightarrow> if l = [] then [] else ''Location: '' @ l @ crlf | None \<Rightarrow> []) @
     (case etag of Some e \<Rightarrow> if e = [] then [] else ''ETag: '' @ e @ crlf | None \<Rightarrow> []) @
     crlf"

definition http_reply ::
  "http_conn \<Rightarrow> int \<Rightarrow> string \<Rightarrow> string \<Rightarrow> bool \<Rightarrow> string option \<Rightarrow> string option \<Rightarrow> http_conn option" where
  "http_reply c status reason body force_close location etag =
     (let close_c = (force_close \<or> c_req_close c \<or> c_minor c < 1);
          hd = reply_head (if 0 \<le> c_minor c then c_minor c else 1) status reason (length body) close_c location etag
      in if MF_HTTP_OUT_CAP \<le> length hd + length body then None
         else Some (c\<lparr>c_out := hd @ body, c_out_off := 0, c_close_after := close_c, c_state := HTTP_SEND,
                      c_want_read := False, c_want_write := True\<rparr>))"

definition reply_or_close :: "http_conn option \<Rightarrow> http_conn \<Rightarrow> io \<Rightarrow> http_conn \<times> io" where
  "reply_or_close r c io = (case r of Some c' \<Rightarrow> (c', io) | None \<Rightarrow> conn_close c io)"

definition http_reply_or_close :: "http_conn \<Rightarrow> int \<Rightarrow> string \<Rightarrow> string \<Rightarrow> bool \<Rightarrow> io \<Rightarrow> http_conn \<times> io" where
  "http_reply_or_close c status reason body force_close io =
     reply_or_close (http_reply c status reason body force_close None None) c io"

definition error_body :: "string \<Rightarrow> string" where
  "error_body msg = ''{'' @ [CHR 0x22] @ ''error'' @ [CHR 0x22] @ '':'' @ [CHR 0x22] @ msg @ [CHR 0x22] @ ''}''"

definition bad_request :: "http_conn \<Rightarrow> io \<Rightarrow> http_conn \<times> io" where
  "bad_request c io = http_reply_or_close c 400 ''Bad Request'' (error_body ''bad request'') True io"

subsection \<open>Requests\<close>

definition quoted :: "string \<Rightarrow> string" where
  "quoted s = [CHR 0x22] @ s @ [CHR 0x22]"

definition health_body :: "string \<Rightarrow> cdouble \<Rightarrow> string" where
  "health_body version up = c_copy 160
     (''{'' @ quoted ''ok'' @ '':true,'' @ quoted ''server'' @ '':'' @ quoted (''moonflared/'' @ version) @ '','' @
      quoted ''uptime_s'' @ '':'' @ fmt_f 3 (if up < 0 then 0 else up) @ ''}'')"

definition text_opt :: "string \<Rightarrow> string option" where
  "text_opt s = (if s = [] then None else Some s)"

definition request_of :: "http_conn \<Rightarrow> rest_request" where
  "request_of c =
     \<lparr>rq_method = c_method c, rq_path = c_path c, rq_query = text_opt (c_query c),
      rq_body = (if 0 < c_content_length c \<and> c_header_len c + c_content_length c \<le> length (c_in c)
                 then Some (take (c_content_length c) (drop (c_header_len c) (c_in c))) else None),
      rq_if_match = text_opt (c_if_match c), rq_peer = text_opt (c_peer c)\<rparr>"

definition handle_request :: "'w http_env \<Rightarrow> http_conn \<Rightarrow> io \<Rightarrow> 'w \<Rightarrow> http_conn \<times> io \<times> 'w" where
  "handle_request he c io w =
     (if c_path c = ''/api/v1/health''
      then if c_method c \<noteq> ''GET''
           then let (c', io') = http_reply_or_close c 405 ''Method Not Allowed'' (error_body ''method not allowed'') False io
                in (c', io', w)
           else let (c', io') = http_reply_or_close c 200 ''OK''
                      (health_body (he_version he) (io_now io - he_start_mono he)) False io
                in (c', io', w)
      else let (resp, w') = he_rest he (request_of c) w in
        case resp of
          Some r \<Rightarrow>
            if 0 < rp_status r
            then let (c', io') = reply_or_close
                       (http_reply c (rp_status r) (http_reason (rp_status r)) (rp_body r) False
                          (text_opt (rp_location r)) (text_opt (rp_etag r))) c io
                 in (c', io', w')
            else let (c', io') = http_reply_or_close c 404 ''Not Found'' (error_body ''not found'') False io in (c', io', w')
        | None \<Rightarrow> let (c', io') = http_reply_or_close c 404 ''Not Found'' (error_body ''not found'') False io in (c', io', w'))"

text \<open>The headers, one after the other; \<open>Some\<close> is the reply that ends it.\<close>

fun scan_headers :: "phr_header list \<Rightarrow> http_conn \<Rightarrow> http_conn \<times> (int \<times> string \<times> string) option" where
  "scan_headers [] c = (c, None)"
| "scan_headers (h # hs) c =
     (if hdr_name_eq h ''transfer-encoding''
      then if hdr_is_identity h then scan_headers hs c
           else (c, Some (400, ''Bad Request'', ''chunked not supported''))
      else if hdr_name_eq h ''content-length''
      then (case strtoull10 (c_copy 32 (snd h)) of
              None \<Rightarrow> (c, Some (400, ''Bad Request'', ''bad request''))
            | Some cl \<Rightarrow>
                if MF_HTTP_BODY_CAP < cl then (c, Some (413, ''Payload Too Large'', ''payload too large''))
                else scan_headers hs (c\<lparr>c_content_length := cl\<rparr>))
      else if hdr_name_eq h ''connection''
      then scan_headers hs
             (if hdr_has_token h ''close'' then c\<lparr>c_req_close := True\<rparr>
              else if hdr_has_token h ''keep-alive'' then c\<lparr>c_req_close := False\<rparr> else c)
      else if hdr_name_eq h ''if-match'' then scan_headers hs (c\<lparr>c_if_match := c_copy 64 (snd h)\<rparr>)
      else scan_headers hs c)"

definition split_query :: "string \<Rightarrow> string \<times> string" where
  "split_query path =
     (takeWhile (\<lambda>x. x \<noteq> CHR ''?'') path, c_copy 96 (drop 1 (dropWhile (\<lambda>x. x \<noteq> CHR ''?'') path)))"

definition start_request :: "http_conn \<Rightarrow> nat \<Rightarrow> string \<Rightarrow> string \<Rightarrow> int \<Rightarrow> http_conn" where
  "start_request c n method path minor =
     (let (p, q) = split_query (c_copy 128 path) in
      c\<lparr>c_header_len := n, c_minor := minor, c_method := c_copy 16 method, c_path := p, c_query := q,
        c_content_length := 0, c_req_close := minor < 1\<rparr>)"

text \<open>The boolean is the return value: whether the request line and the headers are there.\<close>

definition parse_headers :: "'w http_env \<Rightarrow> http_conn \<Rightarrow> io \<Rightarrow> 'w \<Rightarrow> bool \<times> http_conn \<times> io \<times> 'w" where
  "parse_headers he c io w =
     (case he_phr he (take MF_HTTP_HDR_CAP (c_in c)) (c_last_len c) of
        Phr_partial \<Rightarrow>
          if MF_HTTP_HDR_CAP \<le> length (c_in c)
          then let (c', io') = bad_request c io in (True, c', io', w)
          else (False, c, io, w)
      | Phr_bad \<Rightarrow> let (c', io') = bad_request c io in (True, c', io', w)
      | Phr_request n method path minor hs \<Rightarrow>
          (case scan_headers hs (start_request c n method path minor) of
             (c', Some (status, reason, msg)) \<Rightarrow>
               let (c'', io') = http_reply_or_close c' status reason (error_body msg) True io in (True, c'', io', w)
           | (c', None) \<Rightarrow>
               if c_content_length c' = 0
               then let (c'', io', w') = handle_request he c' io w in (True, c'', io', w')
               else (True, c'\<lparr>c_state := HTTP_RECV_BODY\<rparr>, io, w)))"

subsection \<open>Receiving and sending\<close>

definition body_end :: "http_conn \<Rightarrow> nat" where
  "body_end c = c_header_len c + c_content_length c"

definition recv_room :: "http_conn \<Rightarrow> nat" where
  "recv_room c =
     (if c_state c = HTTP_RECV_HEADERS then MF_HTTP_HDR_CAP - length (c_in c)
      else let room = body_end c - length (c_in c) in
        if MF_HTTP_IN_CAP < length (c_in c) + room then MF_HTTP_IN_CAP - length (c_in c) else room)"

text \<open>\<open>parse_headers\<close> after a read, with the note of how much it has seen.\<close>

definition parse_read :: "'w http_env \<Rightarrow> http_conn \<Rightarrow> io \<Rightarrow> 'w \<Rightarrow> bool \<times> http_conn \<times> io \<times> 'w" where
  "parse_read he c io w =
     (let (progressed, c', io', w') = parse_headers he c io w
      in (progressed, c'\<lparr>c_last_len := min (length (c_in c')) MF_HTTP_HDR_CAP\<rparr>, io', w'))"

function conn_do_recv :: "'w http_env \<Rightarrow> http_conn \<Rightarrow> io \<Rightarrow> 'w \<Rightarrow> http_conn \<times> io \<times> 'w" where
  "conn_do_recv he c io w =
     (if c_state c \<noteq> HTTP_RECV_HEADERS \<and> body_end c \<le> length (c_in c) then handle_request he c io w
      else if recv_room c = 0
      then if c_state c = HTTP_RECV_HEADERS
           then (case parse_headers he c io w of
                   (True, c', io', w') \<Rightarrow> (c', io', w')
                 | (False, c', io', w') \<Rightarrow> let (c'', io'') = bad_request c' io' in (c'', io'', w'))
           else let (c', io') = bad_request c io in (c', io', w)
      else case read_some (recv_room c) (io_rd io) of
        (Again, es) \<Rightarrow> (c, io\<lparr>io_rd := es\<rparr>, w)
      | (Failed, es) \<Rightarrow> let (c', io') = conn_close c (io\<lparr>io_rd := es\<rparr>) in (c', io', w)
      | (Eof, es) \<Rightarrow> let (c', io') = conn_close c (io\<lparr>io_rd := es\<rparr>) in (c', io', w)
      | (Got bs, es) \<Rightarrow>
          (let io1 = io\<lparr>io_rd := es\<rparr>;
               c1 = c\<lparr>c_in := c_in c @ bs, c_last_progress := io_now io\<rparr>
           in if c_state c = HTTP_RECV_HEADERS
              then (case parse_read he c1 io1 w of
                      (progressed, c', io', w') \<Rightarrow>
                        if c_state c' = HTTP_SEND \<or> c_state c' = HTTP_CLOSE then (c', io', w')
                        else conn_do_recv he c' (io'\<lparr>io_rd := es\<rparr>) w')
              else if body_end c1 \<le> length (c_in c1) then handle_request he c1 io1 w
              else conn_do_recv he c1 io1 w))"
  by pat_completeness auto

termination
  by (relation "measure (\<lambda>(he, c, io, w). ev_size (io_rd io))") (auto dest!: read_some_progress [OF sym])

declare conn_do_recv.simps [simp del]

definition conn_keep_alive_reset :: "'w http_env \<Rightarrow> http_conn \<Rightarrow> io \<Rightarrow> 'w \<Rightarrow> http_conn \<times> io \<times> 'w" where
  "conn_keep_alive_reset he c io w =
     (let used = min (body_end c) (length (c_in c));
          c' = conn_reset_req (c\<lparr>c_in := drop used (c_in c)\<rparr>)
      in if c_in c' = [] then (c', io, w) else conn_do_recv he c' io w)"

datatype send_end = Sent_all | Sent_later | Send_broken

fun send_loop :: "http_conn \<Rightarrow> io \<Rightarrow> sock_write list \<Rightarrow> send_end \<times> http_conn \<times> io" where
  "send_loop c io es =
     (if length (c_out c) \<le> c_out_off c then (Sent_all, c, io\<lparr>io_wr := es\<rparr>)
      else case es of
        [] \<Rightarrow> (Sent_later, c, io\<lparr>io_wr := []\<rparr>)
      | Wr_again # es \<Rightarrow> (Sent_later, c, io\<lparr>io_wr := es\<rparr>)
      | Wr_fail # es \<Rightarrow> (Send_broken, c, io\<lparr>io_wr := es\<rparr>)
      | Accepts k # es \<Rightarrow>
          if k = 0 then (Send_broken, c, io\<lparr>io_wr := es\<rparr>)
          else let n = min k (length (c_out c) - c_out_off c) in
            send_loop (c\<lparr>c_out_off := c_out_off c + n, c_last_progress := io_now io\<rparr>)
              (io\<lparr>io_sent := io_sent io @ take n (drop (c_out_off c) (c_out c))\<rparr>) es)"

declare send_loop.simps [simp del]

definition conn_do_send :: "'w http_env \<Rightarrow> http_conn \<Rightarrow> io \<Rightarrow> 'w \<Rightarrow> http_conn \<times> io \<times> 'w" where
  "conn_do_send he c io w =
     (case send_loop c io (io_wr io) of
        (Sent_later, c', io') \<Rightarrow> (c', io', w)
      | (Send_broken, c', io') \<Rightarrow> let (c'', io'') = conn_close c' io' in (c'', io'', w)
      | (Sent_all, c', io') \<Rightarrow>
          if c_close_after c' then let (c'', io'') = conn_close c' io' in (c'', io'', w)
          else conn_keep_alive_reset he c' io' w)"

subsection \<open>The server\<close>

record mf_http =
  h_listen_fd :: "nat option"
  h_pending_listen_fd :: "nat option"
  h_idle_s :: cdouble
  h_start_mono :: cdouble
  h_conns :: "http_conn list"
  h_rebind :: bool
  h_next :: nat
  h_closed :: "nat list"

text \<open>The socket that the caller listens on is number 0.\<close>

definition mf_http_init :: "bool \<Rightarrow> cdouble \<Rightarrow> cdouble \<Rightarrow> mf_http" where
  "mf_http_init listening idle_s now =
     \<lparr>h_listen_fd = (if listening then Some 0 else None), h_pending_listen_fd = None,
      h_idle_s = (if 0 < idle_s then idle_s else MF_HTTP_IDLE_S), h_start_mono = now,
      h_conns = replicate MF_MAX_HTTP_CLIENTS conn_zero, h_rebind = True,
      h_next = (if listening then 1 else 0), h_closed = []\<rparr>"

definition mf_http_start :: "mf_http \<Rightarrow> mf_http" where
  "mf_http_start h = h\<lparr>h_conns := map (\<lambda>c. c\<lparr>c_fd := None, c_in_use := False\<rparr>) (h_conns h)\<rparr>"

fun free_slot :: "http_conn list \<Rightarrow> nat option" where
  "free_slot [] = None"
| "free_slot (c # cs) = (if \<not> c_in_use c then Some 0 else map_option Suc (free_slot cs))"

definition conn_slot :: "mf_http \<Rightarrow> nat option" where
  "conn_slot h = free_slot (h_conns h)"

definition accept_one_fd :: "cdouble \<Rightarrow> string \<Rightarrow> mf_http \<Rightarrow> mf_http" where
  "accept_one_fd now peer h =
     (let fd = h_next h; h = h\<lparr>h_next := h_next h + 1\<rparr> in
      case conn_slot h of
        None \<Rightarrow> h\<lparr>h_closed := h_closed h @ [fd]\<rparr>
      | Some i \<Rightarrow>
          h\<lparr>h_conns := (h_conns h)[i :=
             (conn_reset_req (conn_zero\<lparr>c_in_use := True, c_fd := Some fd, c_last_progress := now\<rparr>))
               \<lparr>c_peer := c_copy 64 peer\<rparr>]\<rparr>)"

definition accept_drain :: "cdouble \<Rightarrow> string list \<Rightarrow> mf_http \<Rightarrow> mf_http" where
  "accept_drain now peers h = fold (accept_one_fd now) peers h"

definition close_opt :: "nat option \<Rightarrow> mf_http \<Rightarrow> mf_http" where
  "close_opt fd h = (case fd of Some n \<Rightarrow> h\<lparr>h_closed := h_closed h @ [n]\<rparr> | None \<Rightarrow> h)"

text \<open>One turn of the accepting thread: \<open>peers\<close> wait at the socket.\<close>

definition http_accept_pt :: "bool \<Rightarrow> cdouble \<Rightarrow> string list \<Rightarrow> mf_http \<Rightarrow> mf_http" where
  "http_accept_pt quit now peers h =
     (if quit then h
      else accept_drain now peers
        (case h_pending_listen_fd h of
           Some fd \<Rightarrow> (close_opt (h_listen_fd h) h)\<lparr>h_listen_fd := Some fd, h_pending_listen_fd := None\<rparr>
         | None \<Rightarrow> h))"

text \<open>One turn of the thread of connection \<open>i\<close>.\<close>

definition conn_turn :: "'w http_env \<Rightarrow> bool \<Rightarrow> cdouble \<Rightarrow> http_conn \<Rightarrow> io \<Rightarrow> 'w \<Rightarrow> http_conn \<times> io \<times> 'w" where
  "conn_turn he quit idle_s c io w =
     (if quit \<or> io_now io - c_last_progress c > idle_s then let (c', io') = conn_close c io in (c', io', w)
      else let (c1, io1, w1) = (if c_state c = HTTP_RECV_HEADERS \<or> c_state c = HTTP_RECV_BODY
                                then conn_do_recv he c io w else (c, io, w))
           in if c_state c1 = HTTP_SEND then conn_do_send he c1 io1 w1 else (c1, io1, w1))"

definition http_conn_pt ::
  "'w http_env \<Rightarrow> bool \<Rightarrow> cdouble \<Rightarrow> sock_read list \<Rightarrow> sock_write list \<Rightarrow> nat \<Rightarrow> mf_http \<Rightarrow> 'w \<Rightarrow> mf_http \<times> io \<times> 'w" where
  "http_conn_pt he quit now rds wrs i h w =
     (let io = \<lparr>io_now = now, io_rd = rds, io_wr = wrs, io_sent = [], io_closed = []\<rparr>; c = h_conns h ! i in
      if \<not> c_in_use c then (h, io, w)
      else let (c', io', w') = conn_turn (he\<lparr>he_start_mono := h_start_mono h\<rparr>) quit (h_idle_s h) c io w
           in (h\<lparr>h_conns := (h_conns h)[i := c'], h_closed := h_closed h @ io_closed io'\<rparr>, io', w'))"

text \<open>The address of a listen specification; \<open>binds\<close> tells whether a socket could be bound to it.\<close>

definition listen_address :: "string \<Rightarrow> (string \<times> int) option" where
  "listen_address spec =
     (if spec = [] then None
      else case (case split_last (CHR '':'') spec of
                   None \<Rightarrow> Some (''0.0.0.0'', atoi spec)
                 | Some (host, port) \<Rightarrow> if host = [] \<or> 128 \<le> length host then None else Some (host, atoi port)) of
        None \<Rightarrow> None
      | Some (host, port) \<Rightarrow> if port \<le> 0 \<or> 65535 < port then None else Some (host, port))"

definition bind_listen_spec :: "(string \<Rightarrow> int \<Rightarrow> bool) \<Rightarrow> string \<Rightarrow> mf_http \<Rightarrow> nat option \<times> mf_http" where
  "bind_listen_spec binds spec h =
     (case listen_address spec of
        None \<Rightarrow> (None, h)
      | Some (host, port) \<Rightarrow>
          if binds host port then (Some (h_next h), h\<lparr>h_next := h_next h + 1\<rparr>) else (None, h))"

definition mf_http_rebind_listen :: "(string \<Rightarrow> int \<Rightarrow> bool) \<Rightarrow> string \<Rightarrow> mf_http \<Rightarrow> int \<times> mf_http" where
  "mf_http_rebind_listen binds spec h =
     (if \<not> h_rebind h then (0, h)
      else case bind_listen_spec binds spec h of
        (None, h) \<Rightarrow> (-1, h)
      | (Some fd, h) \<Rightarrow> (0, (close_opt (h_pending_listen_fd h) h)\<lparr>h_pending_listen_fd := Some fd\<rparr>))"

text \<open>The sockets \<open>select\<close> waits for, to read and to write.\<close>

definition mf_http_prepare_fds :: "mf_http \<Rightarrow> nat list \<times> nat list" where
  "mf_http_prepare_fds h =
     (let live = filter (\<lambda>c. c_in_use c \<and> c_fd c \<noteq> None) (h_conns h) in
      ((case h_listen_fd h of Some fd \<Rightarrow> [fd] | None \<Rightarrow> []) @ map (the \<circ> c_fd) (filter c_want_read live),
       map (the \<circ> c_fd) (filter c_want_write live)))"

definition conn_shut :: "http_conn \<Rightarrow> http_conn \<times> nat list" where
  "conn_shut c =
     (if c_in_use c \<or> c_fd c \<noteq> None
      then let (c', io) = conn_close c \<lparr>io_now = 0, io_rd = [], io_wr = [], io_sent = [], io_closed = []\<rparr> in (c', io_closed io)
      else (c, []))"

definition mf_http_close_all :: "mf_http \<Rightarrow> mf_http" where
  "mf_http_close_all h =
     (let h = h\<lparr>h_conns := map (fst \<circ> conn_shut) (h_conns h),
                h_closed := h_closed h @ concat (map (snd \<circ> conn_shut) (h_conns h))\<rparr>;
          h = (close_opt (h_pending_listen_fd h) h)\<lparr>h_pending_listen_fd := None\<rparr>
      in h\<lparr>h_rebind := False\<rparr>)"

end
