(* ===== verification/HttpClient.thy ===== *)
theory HttpClient
  imports HttpServer Json
begin

section \<open>The HTTP clients (src/tui/http_client.c, src/cli/cli_http.c)\<close>

text \<open>
  The terminal interface's client is a state machine run by \<open>pump\<close>, with one request in flight on a
  kept connection; the command line's sends one request and reads to the end. What the socket calls
  of a pump return is its argument; messages leave out the text of the error number. \<open>None\<close> as the result of a pump is C's undefined behaviour: the copy
  of the body would read beyond what was received.
\<close>

definition CONNECT_TMO_S :: cdouble where "CONNECT_TMO_S = 5"
definition INFLIGHT_TMO_S :: cdouble where "INFLIGHT_TMO_S = 8"
definition BACKOFF_MIN :: cdouble where "BACKOFF_MIN = 1/2"
definition BACKOFF_MAX :: cdouble where "BACKOFF_MAX = 5"
definition CLI_IN_CAP :: nat where "CLI_IN_CAP = 65536"
definition CLI_OUT_CAP :: nat where "CLI_OUT_CAP = 2048"

datatype conn_state = MF_CONN_UP | MF_CONN_CONNECTING | MF_CONN_WAIT

record http_cli =
  hc_host :: string
  hc_port :: int
  hc_fd :: bool
  hc_state :: conn_state
  hc_want_read :: bool
  hc_want_write :: bool
  hc_last_fresh :: cdouble
  hc_conn_since :: cdouble
  hc_req_since :: cdouble
  hc_next_try :: cdouble
  hc_backoff :: cdouble
  hc_stale :: bool
  hc_inflight :: bool
  hc_skipped :: nat
  hc_pend :: bool
  hc_pend_method :: string
  hc_pend_path :: string
  hc_pend_json :: string
  hc_path :: string
  hc_out :: string
  hc_out_off :: nat
  hc_in :: string
  hc_have_body :: bool
  hc_body :: string
  hc_status_line :: string

definition set_status :: "http_cli \<Rightarrow> string \<Rightarrow> http_cli" where
  "set_status c s = c\<lparr>hc_status_line := c_copy 96 s\<rparr>"

definition mf_http_cli_close :: "http_cli \<Rightarrow> http_cli" where
  "mf_http_cli_close c = c\<lparr>hc_fd := False, hc_want_read := False, hc_want_write := False, hc_inflight := False,
     hc_req_since := 0, hc_out := [], hc_out_off := 0, hc_in := [], hc_have_body := False\<rparr>"

definition mf_http_cli_init :: "string option \<Rightarrow> int \<Rightarrow> http_cli" where
  "mf_http_cli_init host port = set_status
     \<lparr>hc_host = c_copy 128 (case host of Some h \<Rightarrow> if h = [] then ''127.0.0.1'' else h | None \<Rightarrow> ''127.0.0.1''),
      hc_port = (if 0 < port \<and> port \<le> 65535 then port else 5250), hc_fd = False, hc_state = MF_CONN_WAIT,
      hc_want_read = False, hc_want_write = False, hc_last_fresh = 0, hc_conn_since = 0, hc_req_since = 0,
      hc_next_try = 0, hc_backoff = BACKOFF_MIN, hc_stale = False, hc_inflight = False, hc_skipped = 0,
      hc_pend = False, hc_pend_method = [], hc_pend_path = [], hc_pend_json = [], hc_path = [], hc_out = [],
      hc_out_off = 0, hc_in = [], hc_have_body = False, hc_body = [], hc_status_line = []\<rparr> ''connecting''"

text \<open>\<open>connects\<close> tells whether a socket could be made and its connection begun.\<close>

definition nb_connect :: "bool \<Rightarrow> http_cli \<Rightarrow> bool \<times> http_cli" where
  "nb_connect connects c =
     (let c = mf_http_cli_close c in
      if connects then (True, c\<lparr>hc_fd := True, hc_state := MF_CONN_CONNECTING, hc_want_read := False, hc_want_write := True\<rparr>)
      else (False, c))"

definition back_off :: "http_cli \<Rightarrow> cdouble \<Rightarrow> http_cli" where
  "back_off c now = c\<lparr>hc_state := MF_CONN_WAIT, hc_next_try := now + hc_backoff c,
     hc_backoff := (if BACKOFF_MAX < hc_backoff c * 2 then BACKOFF_MAX else hc_backoff c * 2)\<rparr>"

definition mf_http_cli_start :: "bool \<Rightarrow> http_cli \<Rightarrow> cdouble \<Rightarrow> http_cli" where
  "mf_http_cli_start connects c now =
     (case nb_connect connects c of
        (False, c) \<Rightarrow> set_status (back_off c now) ''reconnect wait''
      | (True, c) \<Rightarrow> set_status (c\<lparr>hc_conn_since := now\<rparr>) ''connecting'')"

definition mark_up :: "http_cli \<Rightarrow> cdouble \<Rightarrow> http_cli" where
  "mark_up c now = set_status (c\<lparr>hc_state := MF_CONN_UP, hc_want_read := True, hc_want_write := False,
     hc_backoff := BACKOFF_MIN, hc_last_fresh := now, hc_stale := False\<rparr>) ''UP''"

definition schedule_retry :: "http_cli \<Rightarrow> cdouble \<Rightarrow> string \<Rightarrow> http_cli" where
  "schedule_retry c now why = set_status (back_off (mf_http_cli_close c) now) why"

text \<open>\<open>strtoul\<close> with base 10; beyond 64 bits it is the greatest value.\<close>

definition strtoul10 :: "string \<Rightarrow> nat" where
  "strtoul10 s =
     (let s = dropWhile is_space s;
          neg = (s \<noteq> [] \<and> hd s = CHR ''-'');
          s = (if s \<noteq> [] \<and> (hd s = CHR ''-'' \<or> hd s = CHR ''+'') then tl s else s);
          v = digits_val (takeWhile is_digit s)
      in if 2 ^ 64 \<le> v then 2 ^ 64 - 1 else if neg then (2 ^ 64 - v) mod 2 ^ 64 else v)"

definition blank_line :: string where "blank_line = crlf @ crlf"

definition declared_length :: "string \<Rightarrow> nat \<Rightarrow> nat" where
  "declared_length text hdr =
     (case strstr_pos ''Content-Length:'' text of
        Some p \<Rightarrow> if p < hdr then strtoul10 (drop (p + 15) text) else 0
      | None \<Rightarrow> 0)"

datatype parsed = Incomplete | Complete http_cli | Overread

text \<open>The sum of the lengths is taken modulo \<open>2^64\<close>; \<open>Overread\<close>: more is copied than was received.\<close>

definition parse_complete :: "http_cli \<Rightarrow> parsed" where
  "parse_complete c =
     (let text = c_text (hc_in c) in
      case strstr_pos blank_line text of
        None \<Rightarrow> Incomplete
      | Some hdr \<Rightarrow>
          (let hlen = hdr + 4; cl = declared_length text hdr in
           if length (hc_in c) < (hlen + cl) mod 2 ^ 64 then Incomplete
           else let n = (if CLI_IN_CAP \<le> cl then CLI_IN_CAP - 1 else cl) in
             if length (hc_in c) < hlen + n then Overread
             else Complete (c\<lparr>hc_body := take n (drop hlen (hc_in c)), hc_have_body := True, hc_inflight := False,
                    hc_in := [], hc_out := [], hc_out_off := 0\<rparr>)))"

definition request_text :: "string \<Rightarrow> string \<Rightarrow> string \<Rightarrow> string option \<Rightarrow> string" where
  "request_text method path host json =
     method @ '' '' @ path @ '' HTTP/1.1'' @ crlf @ ''Host: '' @ host @ crlf @
     (case json of
        Some j \<Rightarrow> if j = [] then ''Connection: keep-alive'' @ blank_line
                 else ''Content-Type: application/json'' @ crlf @ ''Content-Length: '' @ nat_digits (length j) @ crlf @
                      ''Connection: keep-alive'' @ blank_line @ j
      | None \<Rightarrow> ''Connection: keep-alive'' @ blank_line)"

text \<open>1 sent or queued behind the one in flight, 0 skipped, -1 not connected.\<close>

definition cli_begin :: "http_cli \<Rightarrow> string \<Rightarrow> string option \<Rightarrow> string option \<Rightarrow> int \<times> http_cli" where
  "cli_begin c method path json =
     (let p = (case path of Some p \<Rightarrow> p | None \<Rightarrow> ''/'') in
      if hc_state c \<noteq> MF_CONN_UP \<or> \<not> hc_fd c then (-1, c)
      else if hc_inflight c
      then if method = ''GET'' then (0, c\<lparr>hc_skipped := hc_skipped c + 1\<rparr>)
           else (1, c\<lparr>hc_pend_method := c_copy 8 method, hc_pend_path := c_copy 160 p,
                      hc_pend_json := c_copy 2048 (case json of Some j \<Rightarrow> j | None \<Rightarrow> []), hc_pend := True\<rparr>)
      else (1, c\<lparr>hc_path := c_copy 160 p, hc_out := c_copy CLI_OUT_CAP (request_text method (c_copy 160 p) (hc_host c) json),
                 hc_out_off := 0, hc_in := [], hc_have_body := False, hc_inflight := True, hc_req_since := 0,
                 hc_want_read := True, hc_want_write := True\<rparr>))"

definition mf_http_cli_get :: "http_cli \<Rightarrow> string option \<Rightarrow> int \<times> http_cli" where
  "mf_http_cli_get c path = cli_begin c ''GET'' (Some (case path of Some p \<Rightarrow> p | None \<Rightarrow> ''/api/v1/status'')) None"

definition mf_http_cli_post :: "http_cli \<Rightarrow> string option \<Rightarrow> string option \<Rightarrow> int \<times> http_cli" where
  "mf_http_cli_post c path json = cli_begin c ''POST'' path json"

definition mf_http_cli_put :: "http_cli \<Rightarrow> string option \<Rightarrow> string option \<Rightarrow> int \<times> http_cli" where
  "mf_http_cli_put c path json = cli_begin c ''PUT'' path json"

definition mf_http_cli_delete :: "http_cli \<Rightarrow> string option \<Rightarrow> int \<times> http_cli" where
  "mf_http_cli_delete c path = cli_begin c ''DELETE'' path None"

definition mf_http_cli_take_body :: "http_cli \<Rightarrow> nat \<Rightarrow> string option \<times> http_cli" where
  "mf_http_cli_take_body c cap =
     (if \<not> hc_have_body c \<or> cap = 0 then (None, c) else (Some (c_copy cap (c_text (hc_body c))), c\<lparr>hc_have_body := False\<rparr>))"

definition mf_http_cli_prepare_fds :: "http_cli \<Rightarrow> bool \<times> bool" where
  "mf_http_cli_prepare_fds c = (hc_fd c \<and> hc_want_read c, hc_fd c \<and> hc_want_write c)"

subsection \<open>One pump\<close>

text \<open>What the calls of one pump answer.\<close>

record pump_env =
  pe_now :: cdouble
  pe_readable :: bool
  pe_writable :: bool
  pe_connects :: bool
  pe_so_ok :: bool
  pe_send :: sock_write
  pe_recv :: "sock_read list"

definition pump_connecting :: "http_cli \<Rightarrow> pump_env \<Rightarrow> http_cli" where
  "pump_connecting c e =
     (if pe_writable e
      then if pe_so_ok e then mark_up c (pe_now e) else schedule_retry c (pe_now e) ''connect failed''
      else if CONNECT_TMO_S < pe_now e - hc_conn_since c then schedule_retry c (pe_now e) ''connect timeout''
      else c)"

text \<open>The queued request, once none is in flight.\<close>

definition pump_pending :: "http_cli \<Rightarrow> http_cli" where
  "pump_pending c =
     (if \<not> hc_inflight c \<and> hc_pend c
      then snd (cli_begin (c\<lparr>hc_pend := False, hc_pend_json := []\<rparr>) (hc_pend_method c) (Some (hc_pend_path c))
             (if hc_pend_json c = [] then None else Some (hc_pend_json c)))
      else c)"

text \<open>\<open>Inl\<close> is an early return.\<close>

definition pump_send :: "http_cli \<Rightarrow> pump_env \<Rightarrow> http_cli + http_cli" where
  "pump_send c e =
     (if hc_inflight c \<and> hc_out_off c < length (hc_out c) \<and> pe_writable e
      then case pe_send e of
        Wr_fail \<Rightarrow> Inl (schedule_retry c (pe_now e) ''send failed'')
      | ev \<Rightarrow>
          (let n = (case ev of Accepts k \<Rightarrow> min k (length (hc_out c) - hc_out_off c) | _ \<Rightarrow> 0);
               c = c\<lparr>hc_out_off := hc_out_off c + n\<rparr>
           in Inr (if length (hc_out c) \<le> hc_out_off c then c\<lparr>hc_want_read := True, hc_want_write := False\<rparr> else c))
      else Inr c)"

definition pump_recv :: "http_cli \<Rightarrow> pump_env \<Rightarrow> http_cli option" where
  "pump_recv c e =
     (if \<not> pe_readable e then Some c
      else if CLI_IN_CAP - 1 \<le> length (hc_in c) then Some (schedule_retry c (pe_now e) ''response too large'')
      else case fst (read_some (CLI_IN_CAP - 1 - length (hc_in c)) (pe_recv e)) of
        Failed \<Rightarrow> Some (schedule_retry c (pe_now e) ''recv failed'')
      | Eof \<Rightarrow> Some (schedule_retry c (pe_now e) ''peer closed'')
      | Again \<Rightarrow> Some c
      | Got bs \<Rightarrow>
          if \<not> hc_inflight c then Some c
          else (let c = c\<lparr>hc_in := hc_in c @ bs\<rparr> in
                case parse_complete c of
                  Incomplete \<Rightarrow> Some c
                | Overread \<Rightarrow> None
                | Complete c \<Rightarrow> Some (c\<lparr>hc_last_fresh := pe_now e, hc_stale := False, hc_want_read := True, hc_want_write := False\<rparr>)))"

definition mf_http_cli_pump :: "http_cli \<Rightarrow> pump_env \<Rightarrow> http_cli option" where
  "mf_http_cli_pump c e =
     (case hc_state c of
        MF_CONN_WAIT \<Rightarrow> Some (if hc_next_try c \<le> pe_now e then mf_http_cli_start (pe_connects e) c (pe_now e) else c)
      | MF_CONN_CONNECTING \<Rightarrow> Some (pump_connecting c e)
      | MF_CONN_UP \<Rightarrow>
          if hc_inflight c \<and> 0 < hc_req_since c \<and> INFLIGHT_TMO_S < pe_now e - hc_req_since c
          then Some (schedule_retry c (pe_now e) ''request timeout'')
          else let c = (if hc_inflight c \<and> hc_req_since c \<le> 0 then c\<lparr>hc_req_since := pe_now e\<rparr> else c) in
            case pump_send (pump_pending c) e of
              Inl c \<Rightarrow> Some c
            | Inr c \<Rightarrow> pump_recv c e)"

subsection \<open>The command line's request\<close>

definition CLI_MAX_BODY :: nat where "CLI_MAX_BODY = 1024 * 1024"
definition CLI_HDR_BUF :: nat where "CLI_HDR_BUF = 4096"

record cli_http_resp =
  re_status :: int
  re_body :: "string option"
  re_body_len :: nat

definition resp_zero :: cli_http_resp where
  "resp_zero = \<lparr>re_status = 0, re_body = None, re_body_len = 0\<rparr>"

definition cli_request_text :: "string option \<Rightarrow> string \<Rightarrow> string \<Rightarrow> string option \<Rightarrow> string" where
  "cli_request_text method path host json =
     (case method of Some m \<Rightarrow> m | None \<Rightarrow> ''GET'') @ '' '' @ path @ '' HTTP/1.1'' @ crlf @ ''Host: '' @ host @ crlf @
     ''Connection: close'' @ crlf @
     (case json of
        Some j \<Rightarrow> if j = [] then crlf
                 else ''Content-Type: application/json'' @ crlf @ ''Content-Length: '' @ nat_digits (length j) @ blank_line @ j
      | None \<Rightarrow> crlf)"

text \<open>Blocking \<open>send\<close>: \<open>Accepts\<close> is what it took, an error ends it; a used-up script is an error.\<close>

fun send_all :: "string \<Rightarrow> sock_write list \<Rightarrow> string \<times> bool" where
  "send_all text es =
     (if text = [] then ([], True)
      else case es of
        Accepts k # es \<Rightarrow> (let (sent, ok) = send_all (drop k text) es in (take k text @ sent, ok))
      | _ \<Rightarrow> ([], False))"

declare send_all.simps [simp del]

text \<open>The headers: \<open>Some (buf, hdr_end, rest)\<close>, or the message of the failure.\<close>

fun read_headers :: "string \<Rightarrow> sock_read list \<Rightarrow> string + string \<times> nat \<times> sock_read list" where
  "read_headers buf [] = Inl ''recv: timeout waiting for headers''"
| "read_headers buf (Rd_again # es) = Inl ''recv: timeout waiting for headers''"
| "read_headers buf (Rd_fail # es) = Inl ''recv''"
| "read_headers buf (Chunk xs # es) =
     (let room = CLI_HDR_BUF - length buf - 1 in
      if xs = [] \<or> room = 0 then Inl ''no header terminator''
      else let buf' = buf @ take room xs;
               es' = (if length xs \<le> room then es else Chunk (drop room xs) # es)
           in case (if 4 \<le> length buf' then strstr_pos blank_line (c_text buf') else None) of
                Some k \<Rightarrow> Inr (buf', k + 4, es')
              | None \<Rightarrow> if length xs \<le> room then read_headers buf' es else Inl ''no header terminator'')"

text \<open>The body until the end of the stream; a timeout or an error ends it, too. \<open>None\<close>: too large.\<close>

fun read_body :: "string \<Rightarrow> sock_read list \<Rightarrow> string option" where
  "read_body body [] = Some body"
| "read_body body (Rd_again # es) = Some body"
| "read_body body (Rd_fail # es) = Some body"
| "read_body body (Chunk xs # es) =
     (if xs = [] then Some body
      else if CLI_MAX_BODY \<le> length (body @ xs) then None
      else read_body (body @ xs) es)"

definition status_of :: "string \<Rightarrow> int" where
  "status_of head =
     (let line = c_text (c_copy 256 head); rest = dropWhile (\<lambda>x. x \<noteq> CHR '' '') line
      in if rest = [] then 0 else atoi (tl rest))"

text \<open>
  The script of a connection that was made: what \<open>send\<close> takes and what \<open>recv\<close> gives. The result is the
  return code, the response, the message and the bytes that were sent.
\<close>

record cli_net =
  cn_resolves :: bool
  cn_connects :: bool
  cn_send :: "sock_write list"
  cn_recv :: "sock_read list"

definition cli_http_request ::
  "string option \<Rightarrow> string option \<Rightarrow> string option \<Rightarrow> string option \<Rightarrow> cli_net \<Rightarrow> int \<times> cli_http_resp \<times> string \<times> string" where
  "cli_http_request host method path json net =
     (case (host, path) of
        (Some host, Some path) \<Rightarrow>
          if \<not> cn_resolves net then (-1, resp_zero, ''getaddrinfo'', [])
          else if \<not> cn_connects net then (-1, resp_zero, ''connect'', [])
          else (case send_all (c_copy 1024 (cli_request_text method path host json)) (cn_send net) of
             (sent, False) \<Rightarrow> (-1, resp_zero, ''send'', sent)
           | (sent, True) \<Rightarrow>
               (case read_headers [] (cn_recv net) of
                  Inl err \<Rightarrow> (-1, resp_zero, err, sent)
                | Inr (buf, hdr_end, es) \<Rightarrow>
                    (case read_body (drop hdr_end buf) es of
                       None \<Rightarrow> (-1, resp_zero, ''response too large'', sent)
                     | Some body \<Rightarrow>
                         (0, \<lparr>re_status = status_of (take (hdr_end - 4) buf), re_body = Some body, re_body_len = length body\<rparr>,
                          [], sent))))
      | _ \<Rightarrow> (-1, resp_zero, [], []))"

definition url_unreserved :: "char \<Rightarrow> bool" where
  "url_unreserved c \<longleftrightarrow>
     (let n = of_char c :: nat in 65 \<le> n \<and> n \<le> 90 \<or> 97 \<le> n \<and> n \<le> 122) \<or> is_digit c \<or> c \<in> set ''-._~''"

definition upper_hex :: "nat \<Rightarrow> char" where
  "upper_hex n = ''0123456789ABCDEF'' ! n"

text \<open>\<open>o\<close> is the number of bytes written so far.\<close>

fun url_encode_loop :: "nat \<Rightarrow> nat \<Rightarrow> string \<Rightarrow> string" where
  "url_encode_loop cap n [] = []"
| "url_encode_loop cap n (c # cs) =
     (if url_unreserved c
      then if cap \<le> n + 1 then [] else c # url_encode_loop cap (n + 1) cs
      else if cap \<le> n + 3 then []
      else CHR ''%'' # upper_hex (of_char c div 16) # upper_hex (of_char c mod 16) # url_encode_loop cap (n + 3) cs)"

definition cli_url_encode :: "string option \<Rightarrow> nat \<Rightarrow> (int \<times> string) option" where
  "cli_url_encode inp cap =
     (case inp of
        None \<Rightarrow> None
      | Some s \<Rightarrow> if cap = 0 then None else let out = url_encode_loop cap 0 s in Some (int (length out), out))"

definition is_hex_char :: "char \<Rightarrow> bool" where
  "is_hex_char c \<longleftrightarrow> is_digit c \<or> (let n = of_char c :: nat in 65 \<le> n \<and> n \<le> 70 \<or> 97 \<le> n \<and> n \<le> 102)"

definition cli_is_uuid :: "string option \<Rightarrow> bool" where
  "cli_is_uuid s =
     (case s of None \<Rightarrow> False
      | Some s \<Rightarrow> list_all (\<lambda>c. c = CHR ''-'' \<or> is_hex_char c) s \<and> list_ex (\<lambda>c. c \<noteq> CHR ''-'') s)"

end
