(* ===== verification/HttpSafety.thy ===== *)
theory HttpSafety
  imports HttpServer "HOL-Library.Multiset" "HOL-Library.Code_Target_Nat"
begin

section \<open>What holds of every reachable HTTP server\<close>

text \<open>
  The reachable servers: any interleaving of turns of the threads, with any events at the sockets,
  any parser that does not read beyond its buffer, and any REST layer. Two invariants: a connection
  stays within its buffers, and every socket is held at one place or was closed, once.
\<close>

subsection \<open>A connection stays within its buffers\<close>

definition phr_within :: "(string \<Rightarrow> nat \<Rightarrow> phr_result) \<Rightarrow> bool" where
  "phr_within phr \<longleftrightarrow>
     (\<forall>b l. case phr b l of Phr_request n m p v hs \<Rightarrow> n \<le> length b | Phr_bad \<Rightarrow> True | Phr_partial \<Rightarrow> True)"

definition conn_sized :: "http_conn \<Rightarrow> bool" where
  "conn_sized c \<longleftrightarrow>
     c_header_len c \<le> MF_HTTP_HDR_CAP \<and> c_content_length c \<le> MF_HTTP_BODY_CAP \<and>
     c_last_len c \<le> MF_HTTP_HDR_CAP \<and> length (c_in c) \<le> max MF_HTTP_HDR_CAP (body_end c) \<and>
     length (c_out c) < MF_HTTP_OUT_CAP \<and> c_out_off c \<le> length (c_out c) \<and>
     length (c_method c) < 16 \<and> length (c_path c) < 128 \<and> length (c_query c) < 96 \<and>
     length (c_peer c) < 64 \<and> length (c_if_match c) < 64"

definition conn_ok :: "http_conn \<Rightarrow> bool" where
  "conn_ok c \<longleftrightarrow>
     conn_sized c \<and> (c_in_use c \<longleftrightarrow> c_fd c \<noteq> None) \<and> (c_in_use c \<longrightarrow> c_state c \<noteq> HTTP_CLOSE) \<and>
     (c_state c = HTTP_RECV_HEADERS \<longrightarrow> length (c_in c) \<le> MF_HTTP_HDR_CAP)"

lemmas conn_okI = conn_ok_def [THEN iffD2]

lemma length_http_caps: "(0 :: nat) < MF_HTTP_OUT_CAP" "(0 :: nat) < MF_HTTP_HDR_CAP"
  by (simp_all add: http_caps)

lemma conn_close_ok: "conn_sized c \<Longrightarrow> conn_close c io = (c', io') \<Longrightarrow> conn_ok c' \<and> \<not> c_in_use c'"
  by (auto simp: conn_close_def conn_ok_def conn_sized_def)

lemma conn_reset_ok:
  "conn_sized c \<Longrightarrow> (c_in_use c \<longleftrightarrow> c_fd c \<noteq> None) \<Longrightarrow> length (c_in c) \<le> MF_HTTP_HDR_CAP \<Longrightarrow> conn_ok (conn_reset_req c)"
  by (auto simp: conn_reset_req_def conn_ok_def conn_sized_def body_end_def length_http_caps)

lemma http_reply_ok:
  "http_reply c status reason body fc loc etag = Some c' \<Longrightarrow> conn_sized c \<Longrightarrow> (c_in_use c \<longleftrightarrow> c_fd c \<noteq> None) \<Longrightarrow> conn_ok c'"
  by (auto simp: http_reply_def Let_def conn_ok_def conn_sized_def body_end_def split: if_splits)

definition held_ok :: "http_conn \<Rightarrow> bool" where
  "held_ok c \<longleftrightarrow> conn_sized c \<and> (c_in_use c \<longleftrightarrow> c_fd c \<noteq> None)"

lemma conn_ok_held: "conn_ok c \<Longrightarrow> held_ok c"
  by (simp add: conn_ok_def held_ok_def)

lemma reply_or_close_ok:
  assumes "held_ok c" "reply_or_close (http_reply c status reason body fc loc etag) c io = (c', io')"
  shows "conn_ok c'"
  using assms http_reply_ok [of c] conn_close_ok [of c io]
  by (auto simp: reply_or_close_def held_ok_def split: option.splits)

lemma http_reply_or_close_ok:
  "held_ok c \<Longrightarrow> http_reply_or_close c status reason body fc io = (c', io') \<Longrightarrow> conn_ok c'"
  unfolding http_reply_or_close_def by (rule reply_or_close_ok)

lemma bad_request_ok: "held_ok c \<Longrightarrow> bad_request c io = (c', io') \<Longrightarrow> conn_ok c'"
  unfolding bad_request_def by (rule http_reply_or_close_ok)

definition answered :: "http_conn \<Rightarrow> io \<Rightarrow> http_conn \<times> io \<Rightarrow> bool" where
  "answered c io r \<longleftrightarrow> (\<exists>status reason body fc loc etag. r = reply_or_close (http_reply c status reason body fc loc etag) c io)"

lemma answered_reply: "answered c io (reply_or_close (http_reply c status reason body fc loc etag) c io)"
  unfolding answered_def by blast

lemma answered_plain: "answered c io (http_reply_or_close c status reason body fc io)"
  unfolding http_reply_or_close_def by (rule answered_reply)

lemma answered_plainI: "http_reply_or_close c status reason body fc io = r \<Longrightarrow> answered c io r"
  using answered_plain by metis

lemma answered_replyI: "reply_or_close (http_reply c status reason body fc loc etag) c io = r \<Longrightarrow> answered c io r"
  using answered_reply by metis

lemma answered_bad: "answered c io (bad_request c io)"
  unfolding bad_request_def by (rule answered_plain)

lemma answered_ok: "answered c io (c', io') \<Longrightarrow> held_ok c \<Longrightarrow> conn_ok c'"
  unfolding answered_def using reply_or_close_ok by metis

lemma handle_request_answered:
  "handle_request he c io w = (c', io', w') \<Longrightarrow> answered c io (c', io')"
proof -
  assume h: "handle_request he c io w = (c', io', w')"
  obtain resp w1 where r: "he_rest he (request_of c) w = (resp, w1)" by fastforce
  show ?thesis
  proof (cases "c_path c = ''/api/v1/health''")
    case True
    then show ?thesis
      using h by (cases "c_method c = ''GET''") (auto simp: handle_request_def intro: answered_plainI split: prod.splits)
  next
    case False
    show ?thesis
    proof (cases resp)
      case None
      then show ?thesis using h r False by (auto simp: handle_request_def intro: answered_plainI split: prod.splits)
    next
      case (Some rs)
      then show ?thesis
        using h r False
        by (cases "0 < rp_status rs")
          (auto simp: handle_request_def intro: answered_plainI answered_replyI split: prod.splits)
    qed
  qed
qed

lemma scan_headers_frame:
  "scan_headers hs c = (c', r) \<Longrightarrow>
     \<exists>a b d. c' = c\<lparr>c_content_length := a, c_req_close := b, c_if_match := d\<rparr> \<and>
       (a = c_content_length c \<or> a \<le> MF_HTTP_BODY_CAP) \<and> (d = c_if_match c \<or> length d < 64)"
proof (induction hs arbitrary: c)
  case Nil
  then have "c' = c\<lparr>c_content_length := c_content_length c, c_req_close := c_req_close c, c_if_match := c_if_match c\<rparr>"
    by simp
  then show ?case by blast
next
  case (Cons h hs)
  have same: ?case if "c' = c"
    by (rule exI [of _ "c_content_length c"], rule exI [of _ "c_req_close c"], rule exI [of _ "c_if_match c"])
      (simp add: that)
  have step: ?case
    if e: "scan_headers hs (c\<lparr>c_content_length := a, c_req_close := b, c_if_match := d\<rparr>) = (c', r)"
      and ok: "a = c_content_length c \<or> a \<le> MF_HTTP_BODY_CAP" "d = c_if_match c \<or> length d < 64" for a b d
    using Cons.IH [OF e] ok by auto
  have len: "length (c_copy 64 s) < 64" for s by simp
  show ?case
  proof (cases "hdr_name_eq h ''transfer-encoding''")
    case True
    then show ?thesis
      using Cons.prems same step [where a = "c_content_length c" and b = "c_req_close c" and d = "c_if_match c"] by (auto split: if_splits)
  next
    case te: False
    show ?thesis
    proof (cases "hdr_name_eq h ''content-length''")
      case True
      then show ?thesis
        using Cons.prems te same step [where b = "c_req_close c" and d = "c_if_match c"] by (auto split: if_splits option.splits)
    next
      case cl: False
      show ?thesis
      proof (cases "hdr_name_eq h ''connection''")
        case True
        then show ?thesis
          using Cons.prems te cl step [where a = "c_content_length c" and d = "c_if_match c"] step [where a = "c_content_length c" and b = "c_req_close c" and d = "c_if_match c"]
          by (auto split: if_splits)
      next
        case False
        then show ?thesis
          using Cons.prems te cl step [where a = "c_content_length c" and b = "c_req_close c"]
            step [where a = "c_content_length c" and b = "c_req_close c" and d = "c_if_match c"] len by (auto split: if_splits)
      qed
    qed
  qed
qed

lemma start_request_fields:
  "c_in (start_request c n m p v) = c_in c" "c_header_len (start_request c n m p v) = n"
  "c_content_length (start_request c n m p v) = 0" "c_fd (start_request c n m p v) = c_fd c"
  "c_in_use (start_request c n m p v) = c_in_use c" "c_state (start_request c n m p v) = c_state c"
  "c_method (start_request c n m p v) = c_copy 16 m"
  by (simp_all add: start_request_def split_query_def)

lemma length_takeWhile_less: "length xs < n \<Longrightarrow> length (takeWhile P xs) < n"
  using length_takeWhile_le [of P xs] by linarith

lemma start_request_sized:
  assumes "conn_sized c" "n \<le> MF_HTTP_HDR_CAP" "length (c_in c) \<le> MF_HTTP_HDR_CAP"
  shows "conn_sized (start_request c n m p v)"
  using assms
  by (auto simp: conn_sized_def start_request_def split_query_def body_end_def intro!: length_takeWhile_less)

lemma scan_headers_ok:
  assumes "scan_headers hs (start_request c n m p v) = (c', r)" "conn_ok c" "c_state c = HTTP_RECV_HEADERS"
    "n \<le> MF_HTTP_HDR_CAP"
  shows "held_ok c' \<and> c_state c' = HTTP_RECV_HEADERS \<and> c_in c' = c_in c \<and> length (c_in c') \<le> MF_HTTP_HDR_CAP"
proof -
  let ?s = "start_request c n m p v"
  have sz: "conn_sized ?s"
    using assms by (intro start_request_sized) (auto simp: conn_ok_def)
  obtain a b d where c': "c' = ?s\<lparr>c_content_length := a, c_req_close := b, c_if_match := d\<rparr>"
      and a: "a = c_content_length ?s \<or> a \<le> MF_HTTP_BODY_CAP" and d: "d = c_if_match ?s \<or> length d < 64"
    using scan_headers_frame [OF assms(1)] by blast
  have ad: "a \<le> MF_HTTP_BODY_CAP" "length d < 64"
    using a d sz by (auto simp: conn_sized_def start_request_fields)
  have len: "length (c_in c) \<le> MF_HTTP_HDR_CAP" using assms(2,3) by (simp add: conn_ok_def)
  have "conn_sized c'"
    using sz ad len unfolding c' by (simp add: conn_sized_def body_end_def start_request_fields le_max_iff_disj)
  then show ?thesis
    using assms(2,3) len by (simp add: c' held_ok_def conn_ok_def start_request_fields)
qed

text \<open>What \<open>parse_headers\<close> does: nothing yet, an answer, or waiting for the body.\<close>

lemma parse_headers_cases:
  assumes "parse_headers he c io w = (b, c', io', w')"
  obtains (wait) "\<not> b" "c' = c" "io' = io" "w' = w"
  | (bad) "answered c io (c', io')" "b" "w' = w"
  | (reply) n m p v hs c1 r where "answered c1 io (c', io')" "b" "scan_headers hs (start_request c n m p v) = (c1, r)"
      "he_phr he (take MF_HTTP_HDR_CAP (c_in c)) (c_last_len c) = Phr_request n m p v hs"
  | (body) n m p v hs c1 where "c' = c1\<lparr>c_state := HTTP_RECV_BODY\<rparr>" "io' = io" "w' = w" "b" "0 < c_content_length c1"
      "scan_headers hs (start_request c n m p v) = (c1, None)"
      "he_phr he (take MF_HTTP_HDR_CAP (c_in c)) (c_last_len c) = Phr_request n m p v hs"
proof -
  obtain cb iob where br: "bad_request c io = (cb, iob)" by fastforce
  note ab = answered_bad [of c io, unfolded br]
  show ?thesis
  proof (cases "he_phr he (take MF_HTTP_HDR_CAP (c_in c)) (c_last_len c)")
    case Phr_partial
    show ?thesis
    proof (cases "MF_HTTP_HDR_CAP \<le> length (c_in c)")
      case True
      then show ?thesis using assms Phr_partial br ab by (intro bad) (simp_all add: parse_headers_def)
    next
      case False
      then show ?thesis using assms Phr_partial by (intro wait) (simp_all add: parse_headers_def)
    qed
  next
    case Phr_bad
    then show ?thesis using assms br ab by (intro bad) (simp_all add: parse_headers_def)
  next
    case (Phr_request n m p v hs)
    obtain c1 r where s: "scan_headers hs (start_request c n m p v) = (c1, r)" by fastforce
    show ?thesis
    proof (cases r)
      case None
      show ?thesis
      proof (cases "c_content_length c1 = 0")
        case True
        obtain c2 io2 w2 where h: "handle_request he c1 io w = (c2, io2, w2)" by (cases "handle_request he c1 io w")
        then show ?thesis
          using assms Phr_request s None True handle_request_answered [OF h]
          by (intro reply [OF _ _ s Phr_request]) (simp_all add: parse_headers_def)
      next
        case False
        then show ?thesis
          using assms Phr_request s None by (intro body [OF _ _ _ _ _ _ Phr_request]) (simp_all add: parse_headers_def)
      qed
    next
      case (Some e)
      obtain st re msg where e: "e = (st, re, msg)" by (cases e)
      obtain c2 io2 where h: "http_reply_or_close c1 st re (error_body msg) True io = (c2, io2)" by fastforce
      then show ?thesis
        using assms Phr_request s Some e answered_plainI [OF h]
        by (intro reply [OF _ _ s Phr_request]) (simp_all add: parse_headers_def)
    qed
  qed
qed

lemma parse_headers_ok:
  assumes "phr_within (he_phr he)" "conn_ok c" "c_state c = HTTP_RECV_HEADERS"
    and "parse_headers he c io w = (b, c', io', w')"
  shows "conn_ok c' \<and> (\<not> b \<longrightarrow> c' = c)"
proof -
  have n: "n \<le> MF_HTTP_HDR_CAP"
    if "he_phr he (take MF_HTTP_HDR_CAP (c_in c)) (c_last_len c) = Phr_request n m p v hs" for n m p v hs
    using assms(1) [unfolded phr_within_def, rule_format, of "take MF_HTTP_HDR_CAP (c_in c)" "c_last_len c"] that by simp
  from assms(4) show ?thesis
  proof (cases rule: parse_headers_cases)
    case wait
    then show ?thesis using assms(2) by simp
  next
    case bad
    then show ?thesis using answered_ok [OF bad(1)] conn_ok_held [OF assms(2)] by simp
  next
    case (reply n m p v hs c1 r)
    then show ?thesis using answered_ok [OF reply(1)] scan_headers_ok [OF reply(3) assms(2,3) n [OF reply(4)]] by simp
  next
    case (body n m p v hs c1)
    note c1 = scan_headers_ok [OF body(6) assms(2,3) n [OF body(7)]]
    then have "conn_ok (c1\<lparr>c_state := HTTP_RECV_BODY\<rparr>)"
      by (auto simp: held_ok_def conn_ok_def conn_sized_def body_end_def le_max_iff_disj)
    then show ?thesis using body by simp
  qed
qed

subsection \<open>A turn keeps the socket or closes it\<close>

definition fds_of :: "http_conn \<Rightarrow> nat multiset" where
  "fds_of c = (case c_fd c of Some fd \<Rightarrow> {#fd#} | None \<Rightarrow> {#})"

definition fd_law :: "http_conn \<Rightarrow> io \<Rightarrow> http_conn \<Rightarrow> io \<Rightarrow> bool" where
  "fd_law c io c' io' \<longleftrightarrow> mset (io_closed io') + fds_of c' = mset (io_closed io) + fds_of c"

lemma fd_law_same: "c_fd c' = c_fd c \<Longrightarrow> io_closed io' = io_closed io \<Longrightarrow> fd_law c io c' io'"
  by (simp add: fd_law_def fds_of_def)

lemma fd_law_trans: "fd_law c io c1 io1 \<Longrightarrow> fd_law c1 io1 c' io' \<Longrightarrow> fd_law c io c' io'"
  by (simp add: fd_law_def)

lemma fd_law_close: "conn_close c io = (c', io') \<Longrightarrow> fd_law c io c' io'"
  by (auto simp: conn_close_def fd_law_def fds_of_def split: option.splits)

lemma http_reply_fd: "http_reply c status reason body fc loc etag = Some c' \<Longrightarrow> c_fd c' = c_fd c"
  by (auto simp: http_reply_def Let_def split: if_splits)

lemma fd_law_answered: "answered c io (c', io') \<Longrightarrow> fd_law c io c' io'"
  unfolding answered_def reply_or_close_def
  using fd_law_close fd_law_same http_reply_fd by (fastforce split: option.splits)

lemma scan_start_fd: "scan_headers hs (start_request c n m p v) = (c1, r) \<Longrightarrow> c_fd c1 = c_fd c"
  using scan_headers_frame by (fastforce simp: start_request_fields)

lemma fd_law_parse: "parse_headers he c io w = (b, c', io', w') \<Longrightarrow> fd_law c io c' io'"
proof (erule parse_headers_cases)
  fix n m p v hs c1 r
  assume "answered c1 io (c', io')" "scan_headers hs (start_request c n m p v) = (c1, r)"
  then show "fd_law c io c' io'"
    using fd_law_trans [OF fd_law_same fd_law_answered] scan_start_fd by metis
qed (auto simp: fd_law_def fds_of_def dest: scan_start_fd fd_law_answered)

text \<open>A turn from a sound connection ends in a sound connection and loses no socket.\<close>

definition good_turn :: "http_conn \<Rightarrow> io \<Rightarrow> http_conn \<Rightarrow> io \<Rightarrow> bool" where
  "good_turn c io c' io' \<longleftrightarrow> conn_ok c' \<and> fd_law c io c' io'"

lemma good_turn_trans: "fd_law c io c1 io1 \<Longrightarrow> good_turn c1 io1 c' io' \<Longrightarrow> good_turn c io c' io'"
  unfolding good_turn_def using fd_law_trans by blast

lemma good_close: "conn_sized c \<Longrightarrow> conn_close c io = (c', io') \<Longrightarrow> good_turn c io c' io'"
  unfolding good_turn_def using conn_close_ok fd_law_close by blast

lemma good_answered: "held_ok c \<Longrightarrow> answered c io (c', io') \<Longrightarrow> good_turn c io c' io'"
  unfolding good_turn_def using answered_ok fd_law_answered by blast

lemma good_bad_request: "held_ok c \<Longrightarrow> bad_request c io = (c', io') \<Longrightarrow> good_turn c io c' io'"
  using good_answered answered_bad by metis

lemma conn_ok_last_len: "conn_ok c \<Longrightarrow> n \<le> MF_HTTP_HDR_CAP \<Longrightarrow> conn_ok (c\<lparr>c_last_len := n\<rparr>)"
  by (simp add: conn_ok_def conn_sized_def body_end_def)

lemma body_end_cap: "conn_sized c \<Longrightarrow> body_end c \<le> MF_HTTP_IN_CAP"
  by (simp add: conn_sized_def body_end_def MF_HTTP_IN_CAP_def)

lemma conn_ok_read:
  assumes "conn_ok c" "c_state c = HTTP_RECV_HEADERS \<or> c_state c = HTTP_RECV_BODY"
    and "c_state c = HTTP_RECV_HEADERS \<or> length (c_in c) < body_end c" "length bs \<le> recv_room c"
  shows "conn_ok (c\<lparr>c_in := c_in c @ bs, c_last_progress := t\<rparr>)"
  using assms body_end_cap [of c]
  by (auto simp: conn_ok_def conn_sized_def body_end_def recv_room_def Let_def split: if_splits)

text \<open>The buffer is full before a request was complete.\<close>

lemma recv_full_good:
  assumes "phr_within (he_phr he)" "conn_ok c" "recv_room c = 0"
    and "\<not> (c_state c \<noteq> HTTP_RECV_HEADERS \<and> body_end c \<le> length (c_in c))"
    and "conn_do_recv he c io w = (c', io', w')"
  shows "good_turn c io c' io'"
proof (cases "c_state c = HTTP_RECV_HEADERS")
  case hdr: True
  note run = assms(5) [unfolded conn_do_recv.simps [of he c io w]]
  obtain b c1 io1 w1 where p: "parse_headers he c io w = (b, c1, io1, w1)" by (cases "parse_headers he c io w")
  note ok = parse_headers_ok [OF assms(1,2) hdr p] and fd = fd_law_parse [OF p]
  obtain c2 io2 where q: "bad_request c1 io1 = (c2, io2)" by fastforce
  have "good_turn c io c2 io2" if "\<not> b"
    using good_turn_trans [OF fd good_bad_request [OF _ q]] ok conn_ok_held [OF assms(2)] that by simp
  then show ?thesis
    using run assms(3,4) hdr p ok fd q by (cases b) (auto simp: good_turn_def)
next
  case False
  obtain c2 io2 where q: "bad_request c io = (c2, io2)" by fastforce
  then show ?thesis
    using assms(3-) False good_bad_request [OF conn_ok_held [OF assms(2)] q] by (simp add: conn_do_recv.simps [of he c io w])
qed

text \<open>A read while the headers are not complete: parsed at once.\<close>

lemma parse_read_good:
  assumes "phr_within (he_phr he)" "conn_ok c" "c_state c = HTTP_RECV_HEADERS"
    and "parse_read he c io w = (b, c', io', w')"
  shows "good_turn c io c' io'"
proof -
  obtain c1 where p: "parse_headers he c io w = (b, c1, io', w')"
      and c': "c' = c1\<lparr>c_last_len := min (length (c_in c1)) MF_HTTP_HDR_CAP\<rparr>"
    using assms(4) by (auto simp: parse_read_def split: prod.splits)
  have "conn_ok c'" unfolding c' using parse_headers_ok [OF assms(1-3) p] by (intro conn_ok_last_len) auto
  then show ?thesis
    using fd_law_parse [OF p] by (simp add: good_turn_def fd_law_def fds_of_def c')
qed

lemma conn_do_recv_good:
  assumes "phr_within (he_phr he)"
  shows "conn_ok c \<Longrightarrow> c_state c = HTTP_RECV_HEADERS \<or> c_state c = HTTP_RECV_BODY \<Longrightarrow>
    conn_do_recv he c io w = (c', io', w') \<Longrightarrow> good_turn c io c' io'"
  using assms
proof (induction he c io w arbitrary: c' io' w' rule: conn_do_recv.induct)
  case (1 he c io w)
  note held = conn_ok_held [OF "1.prems"(1)]
  have sz: "conn_sized c" using "1.prems"(1) by (simp add: conn_ok_def)
  note run = "1.prems"(3) [unfolded conn_do_recv.simps [of he c io w]]
  consider (there) "c_state c \<noteq> HTTP_RECV_HEADERS \<and> body_end c \<le> length (c_in c)"
    | (full) "\<not> (c_state c \<noteq> HTTP_RECV_HEADERS \<and> body_end c \<le> length (c_in c))" "recv_room c = 0"
    | (room) "\<not> (c_state c \<noteq> HTTP_RECV_HEADERS \<and> body_end c \<le> length (c_in c))" "recv_room c \<noteq> 0"
    by blast
  then show ?case
  proof cases
    case there
    then show ?thesis using run good_answered [OF held handle_request_answered] by simp
  next
    case full
    show ?thesis by (rule recv_full_good [OF "1.prems"(4,1) full(2,1) "1.prems"(3)])
  next
    case room
    obtain g es where g: "read_some (recv_room c) (io_rd io) = (g, es)" by fastforce
    let ?io = "io\<lparr>io_rd := es\<rparr>"
    have same: "fd_law c io x ?io" if "c_fd x = c_fd c" for x using that by (simp add: fd_law_same)
    have closed: "good_turn c io c' io'" if "(let (c', io') = conn_close c ?io in (c', io', w)) = (c', io', w')"
      using that good_turn_trans [OF same [of c, simplified] good_close [OF sz]] by (auto split: prod.splits)
    show ?thesis
    proof (cases g)
      case (Got bs)
      let ?c = "c\<lparr>c_in := c_in c @ bs, c_last_progress := io_now io\<rparr>"
      have bs: "length bs \<le> recv_room c" using read_some_len g Got by blast
      have ok1: "conn_ok ?c" using "1.prems"(1,2) room bs by (intro conn_ok_read) auto
      note fd1 = same [of ?c, simplified]
      show ?thesis
      proof (cases "c_state c = HTTP_RECV_HEADERS")
        case hdr: True
        obtain b c1 io1 w1 where p: "parse_read he ?c ?io w = (b, c1, io1, w1)" by (cases "parse_read he ?c ?io w")
        have good: "good_turn c io c1 io1"
          using good_turn_trans [OF fd1 parse_read_good [OF "1.prems"(4) ok1 _ p]] hdr by simp
        show ?thesis
        proof (cases "c_state c1 = HTTP_SEND \<or> c_state c1 = HTTP_CLOSE")
          case True
          then show ?thesis using run room g Got hdr p good by simp
        next
          case False
          then have st: "c_state c1 = HTTP_RECV_HEADERS \<or> c_state c1 = HTTP_RECV_BODY" by (cases "c_state c1") auto
          have "good_turn c1 (io1\<lparr>io_rd := es\<rparr>) c' io'"
          proof (rule "1.IH"(1) [OF room g [symmetric] Got refl refl hdr p [symmetric] refl refl False])
            show "conn_do_recv he c1 (io1\<lparr>io_rd := es\<rparr>) w1 = (c', io', w')" using run room g Got hdr p False by simp
          qed (use good st "1.prems"(4) in \<open>auto simp: good_turn_def\<close>)
          then show ?thesis using good by (simp add: good_turn_def fd_law_def)
        qed
      next
        case hdr: False
        show ?thesis
        proof (cases "body_end ?c \<le> length (c_in ?c)")
          case True
          then have h: "handle_request he ?c ?io w = (c', io', w')" using run room g Got hdr by simp
          show ?thesis
            by (rule good_turn_trans [OF fd1 good_answered [OF conn_ok_held [OF ok1] handle_request_answered [OF h]]])
        next
          case False
          then have again: "conn_do_recv he ?c ?io w = (c', io', w')" using run room g Got hdr by simp
          have "good_turn ?c ?io c' io'"
            by (rule "1.IH"(2) [OF room g [symmetric] Got refl refl hdr False ok1 _ again "1.prems"(4)])
              (use "1.prems"(2) in auto)
          then show ?thesis by (rule good_turn_trans [OF fd1])
        qed
      qed
    qed (use run room g same [of c] "1.prems"(1) closed in \<open>simp_all add: good_turn_def\<close>)
  qed
qed

subsection \<open>Sending, and one turn of a connection\<close>

lemma send_loop_law:
  "send_loop c io es = (e, c', io') \<Longrightarrow> c_out_off c \<le> length (c_out c) \<Longrightarrow>
     \<exists>k t. c' = c\<lparr>c_out_off := k, c_last_progress := t\<rparr> \<and> c_out_off c \<le> k \<and> k \<le> length (c_out c) \<and>
       io_closed io' = io_closed io \<and> io_now io' = io_now io \<and> io_rd io' = io_rd io \<and>
       io_sent io' = io_sent io @ take (k - c_out_off c) (drop (c_out_off c) (c_out c)) \<and>
       (e = Sent_all \<longrightarrow> k = length (c_out c))"
proof (induction es arbitrary: c io)
  case Nil
  have same: ?case if "c' = c" "io' = io\<lparr>io_wr := []\<rparr>" "e = Sent_all \<longrightarrow> length (c_out c) \<le> c_out_off c"
    using that Nil.prems(2) by (intro exI [of _ "c_out_off c"] exI [of _ "c_last_progress c"]) auto
  show ?case using Nil.prems(1) by (intro same) (auto simp: send_loop.simps [of c io "[]"] split: if_splits)
next
  case (Cons ev es)
  have same: ?case if "c' = c" "io' = io\<lparr>io_wr := v\<rparr>" "e = Sent_all \<longrightarrow> length (c_out c) \<le> c_out_off c" for v
    using that Cons.prems(2) by (intro exI [of _ "c_out_off c"] exI [of _ "c_last_progress c"]) auto
  note run = Cons.prems(1) [unfolded send_loop.simps [of c io "ev # es"]]
  show ?case
  proof (cases "length (c_out c) \<le> c_out_off c")
    case True
    then show ?thesis using run by (intro same) auto
  next
    case more: False
    show ?thesis
    proof (cases ev)
      case (Accepts k)
      show ?thesis
      proof (cases "k = 0")
        case True
        then show ?thesis using run more Accepts by (intro same) auto
      next
        case False
        define n where "n = min k (length (c_out c) - c_out_off c)"
        have n: "c_out_off c + n \<le> length (c_out c)" using more by (simp add: n_def)
        let ?c = "c\<lparr>c_out_off := c_out_off c + n, c_last_progress := io_now io\<rparr>"
        have "send_loop ?c (io\<lparr>io_sent := io_sent io @ take n (drop (c_out_off c) (c_out c))\<rparr>) es = (e, c', io')"
          using run more Accepts False by (simp add: n_def Let_def)
        from Cons.IH [OF this] n obtain j t where
          j: "c' = c\<lparr>c_out_off := j, c_last_progress := t\<rparr>" "c_out_off c + n \<le> j" "j \<le> length (c_out c)"
            "io_closed io' = io_closed io" "io_now io' = io_now io" "io_rd io' = io_rd io"
            "io_sent io' = (io_sent io @ take n (drop (c_out_off c) (c_out c))) @
               take (j - (c_out_off c + n)) (drop (c_out_off c + n) (c_out c))"
            "e = Sent_all \<longrightarrow> j = length (c_out c)" by auto
        have "take n (drop (c_out_off c) (c_out c)) @ take (j - (c_out_off c + n)) (drop (c_out_off c + n) (c_out c)) =
            take (j - c_out_off c) (drop (c_out_off c) (c_out c))"
          using j(2) take_add [of n "j - (c_out_off c + n)" "drop (c_out_off c) (c_out c)"] by (simp add: add.commute)
        then show ?thesis using j by (intro exI [of _ j] exI [of _ t]) simp
      qed
    next
      case Wr_again
      then show ?thesis using run more by (intro same) auto
    next
      case Wr_fail
      then show ?thesis using run more by (intro same) auto
    qed
  qed
qed

lemma conn_ok_sent: "conn_ok c \<Longrightarrow> k \<le> length (c_out c) \<Longrightarrow> conn_ok (c\<lparr>c_out_off := k, c_last_progress := t\<rparr>)"
  by (simp add: conn_ok_def conn_sized_def body_end_def)

lemma keep_alive_good:
  assumes "phr_within (he_phr he)" "conn_ok c" "conn_keep_alive_reset he c io w = (c', io', w')"
  shows "good_turn c io c' io'"
proof -
  let ?used = "min (body_end c) (length (c_in c))"
  let ?c = "conn_reset_req (c\<lparr>c_in := drop ?used (c_in c)\<rparr>)"
  have len: "length (drop ?used (c_in c)) \<le> MF_HTTP_HDR_CAP" and sz: "conn_sized (c\<lparr>c_in := drop ?used (c_in c)\<rparr>)"
    using assms(2) by (auto simp: conn_ok_def conn_sized_def body_end_def)
  have ok: "conn_ok ?c" using assms(2) sz len by (intro conn_reset_ok) (auto simp: conn_ok_def)
  have fd: "fd_law c io ?c io" by (rule fd_law_same) (simp_all add: conn_reset_req_def)
  have "conn_do_recv he ?c io w = (c', io', w') \<Longrightarrow> good_turn ?c io c' io'"
    by (rule conn_do_recv_good [OF assms(1) ok]) (simp_all add: conn_reset_req_def)
  then show ?thesis
    using assms(3) ok fd good_turn_trans [OF fd] by (auto simp: conn_keep_alive_reset_def Let_def good_turn_def split: if_splits)
qed

lemma conn_do_send_good:
  assumes "phr_within (he_phr he)" "conn_ok c" "conn_do_send he c io w = (c', io', w')"
  shows "good_turn c io c' io'"
proof -
  obtain e c1 io1 where s: "send_loop c io (io_wr io) = (e, c1, io1)" by (cases "send_loop c io (io_wr io)")
  have off: "c_out_off c \<le> length (c_out c)" using assms(2) by (simp add: conn_ok_def conn_sized_def)
  obtain k t where k: "c1 = c\<lparr>c_out_off := k, c_last_progress := t\<rparr>" "k \<le> length (c_out c)" "io_closed io1 = io_closed io"
    using send_loop_law [OF s off] by blast
  have ok: "conn_ok c1" using conn_ok_sent assms(2) k by blast
  have fd: "fd_law c io c1 io1" using k by (simp add: fd_law_same)
  obtain c2 io2 where cl: "conn_close c1 io1 = (c2, io2)" by fastforce
  have closed: "good_turn c io c2 io2"
    using good_turn_trans [OF fd good_close [OF _ cl]] ok by (simp add: conn_ok_def)
  show ?thesis
  proof (cases e)
    case Sent_all
    then show ?thesis
      using assms(3) s cl closed good_turn_trans [OF fd keep_alive_good [OF assms(1) ok]]
      by (cases "c_close_after c1") (auto simp: conn_do_send_def)
  qed (use assms(3) s cl closed ok fd in \<open>auto simp: conn_do_send_def good_turn_def\<close>)
qed

lemma conn_turn_good:
  assumes "phr_within (he_phr he)" "conn_ok c" "conn_turn he quit idle c io w = (c', io', w')"
  shows "good_turn c io c' io'"
proof (cases "quit \<or> io_now io - c_last_progress c > idle")
  case True
  obtain c2 io2 where cl: "conn_close c io = (c2, io2)" by fastforce
  then show ?thesis
    using assms(2,3) True good_close [OF _ cl] by (simp add: conn_turn_def conn_ok_def)
next
  case False
  obtain c1 io1 w1 where r: "(if c_state c = HTTP_RECV_HEADERS \<or> c_state c = HTTP_RECV_BODY
      then conn_do_recv he c io w else (c, io, w)) = (c1, io1, w1)" by (metis prod_cases3)
  have good: "good_turn c io c1 io1"
  proof (cases "c_state c = HTTP_RECV_HEADERS \<or> c_state c = HTTP_RECV_BODY")
    case True
    then show ?thesis using conn_do_recv_good [OF assms(1,2) True] r by (simp only: if_True)
  next
    case False
    then show ?thesis using r assms(2) by (auto simp: good_turn_def fd_law_def)
  qed
  show ?thesis
  proof (cases "c_state c1 = HTTP_SEND")
    case True
    then have "conn_do_send he c1 io1 w1 = (c', io', w')"
      using assms(3) False r by (simp add: conn_turn_def)
    from conn_do_send_good [OF assms(1) _ this] have "good_turn c1 io1 c' io'"
      using good by (simp add: good_turn_def)
    then show ?thesis using good good_turn_trans by (auto simp: good_turn_def)
  next
    case no: False
    then show ?thesis using assms(3) False r good by (simp add: conn_turn_def)
  qed
qed

subsection \<open>The server\<close>

lemma sum_list_replicate: "sum_list (replicate n {#}) = {#}"
  by (induction n) auto

inductive http_reach :: "'w http_env \<Rightarrow> mf_http \<Rightarrow> 'w \<Rightarrow> bool" for he :: "'w http_env" where
  start: "http_reach he (mf_http_start (mf_http_init listening idle now)) w"
| world: "http_reach he h w \<Longrightarrow> http_reach he h w'"
| turn: "http_reach he h w \<Longrightarrow> i < MF_MAX_HTTP_CLIENTS \<Longrightarrow> http_conn_pt he quit now rds wrs i h w = (h', io, w') \<Longrightarrow>
    http_reach he h' w'"
| accept: "http_reach he h w \<Longrightarrow> http_reach he (http_accept_pt quit now peers h) w"
| rebind: "http_reach he h w \<Longrightarrow> mf_http_rebind_listen binds spec h = (rc, h') \<Longrightarrow> http_reach he h' w"
| close: "http_reach he h w \<Longrightarrow> http_reach he (mf_http_close_all h) w"

definition opt_fd :: "nat option \<Rightarrow> nat multiset" where
  "opt_fd fd = (case fd of Some n \<Rightarrow> {#n#} | None \<Rightarrow> {#})"

definition open_sockets :: "mf_http \<Rightarrow> nat multiset" where
  "open_sockets h = opt_fd (h_listen_fd h) + opt_fd (h_pending_listen_fd h) + sum_list (map fds_of (h_conns h))"

definition server_ok :: "mf_http \<Rightarrow> bool" where
  "server_ok h \<longleftrightarrow> length (h_conns h) = MF_MAX_HTTP_CLIENTS \<and> list_all conn_ok (h_conns h) \<and>
     mset (h_closed h) + open_sockets h = mset [0 ..< h_next h]"

lemma opt_fd_simps [simp]: "opt_fd None = {#}" "opt_fd (Some n) = {#n#}"
  by (simp_all add: opt_fd_def)

lemma fds_of_opt: "fds_of c = opt_fd (c_fd c)"
  by (simp add: fds_of_def opt_fd_def)

lemma conn_zero_ok: "conn_ok conn_zero" "fds_of conn_zero = {#}"
  by (simp_all add: conn_zero_def conn_ok_def conn_sized_def fds_of_def length_http_caps)

lemma sum_list_empty: "(\<And>x. x \<in> set xs \<Longrightarrow> f x = {#}) \<Longrightarrow> sum_list (map f xs) = {#}"
  by (induction xs) auto

lemma server_start_ok: "server_ok (mf_http_start (mf_http_init listening idle now))"
proof -
  have "conn_zero\<lparr>c_fd := None, c_in_use := False\<rparr> = conn_zero" by (simp add: conn_zero_def)
  then show ?thesis
    by (simp add: mf_http_start_def mf_http_init_def server_ok_def open_sockets_def list_all_iff conn_zero_ok sum_list_replicate)
qed

lemma replace_conn:
  assumes "i < length (h_conns h)"
  shows "sum_list (map fds_of ((h_conns h)[i := c])) + fds_of (h_conns h ! i) = sum_list (map fds_of (h_conns h)) + fds_of c"
  using assms by (rule sum_list_update_add)

lemma server_turn_ok:
  assumes "phr_within (he_phr he)" "server_ok h" "i < MF_MAX_HTTP_CLIENTS"
    and "http_conn_pt he quit now rds wrs i h w = (h', io, w')"
  shows "server_ok h'"
proof (cases "c_in_use (h_conns h ! i)")
  case True
  let ?io = "\<lparr>io_now = now, io_rd = rds, io_wr = wrs, io_sent = [], io_closed = []\<rparr>" and ?c = "h_conns h ! i"
  obtain c1 where t: "conn_turn (he\<lparr>he_start_mono := h_start_mono h\<rparr>) quit (h_idle_s h) ?c ?io w = (c1, io, w')"
      and h': "h' = h\<lparr>h_conns := (h_conns h)[i := c1], h_closed := h_closed h @ io_closed io\<rparr>"
    using assms(4) True by (auto simp: http_conn_pt_def Let_def split: prod.splits)
  have i: "i < length (h_conns h)" and ok: "conn_ok ?c" "list_all conn_ok (h_conns h)"
    using assms(2,3) by (auto simp: server_ok_def list_all_length)
  have good: "good_turn ?c ?io c1 io" using conn_turn_good [OF _ ok(1) t] assms(1) by simp
  then have c1: "conn_ok c1" and fd: "mset (io_closed io) + fds_of c1 = fds_of ?c"
    by (auto simp: good_turn_def fd_law_def)
  have sum: "sum_list (map fds_of ((h_conns h)[i := c1])) + mset (io_closed io) = sum_list (map fds_of (h_conns h))"
    using replace_conn [OF i, of c1] fd [symmetric] by (simp add: ac_simps)
  have "list_all conn_ok ((h_conns h)[i := c1])"
    using ok(2) c1 set_update_subset_insert [of "h_conns h" i c1] by (fastforce simp: list_all_iff)
  then show ?thesis
    using assms(2) sum [symmetric] by (simp add: h' server_ok_def open_sockets_def ac_simps)
next
  case False
  then show ?thesis using assms(2,4) by (auto simp: http_conn_pt_def Let_def)
qed

lemma free_slot_bound: "free_slot cs = Some i \<Longrightarrow> i < length cs \<and> \<not> c_in_use (cs ! i)"
  by (induction cs arbitrary: i) (auto split: if_splits)

lemma accept_one_ok: "server_ok h \<Longrightarrow> server_ok (accept_one_fd now peer h)"
proof -
  assume h: "server_ok h"
  show ?thesis
  proof (cases "free_slot (h_conns h)")
    case None
    then show ?thesis using h by (simp add: accept_one_fd_def conn_slot_def server_ok_def open_sockets_def)
  next
    case (Some i)
    let ?c = "(conn_reset_req (conn_zero\<lparr>c_in_use := True, c_fd := Some (h_next h), c_last_progress := now\<rparr>))\<lparr>c_peer := c_copy 64 peer\<rparr>"
    have i: "i < length (h_conns h)" "\<not> c_in_use (h_conns h ! i)" using free_slot_bound [OF Some] by auto
    have old: "fds_of (h_conns h ! i) = {#}"
      using h i by (auto simp: server_ok_def list_all_length conn_ok_def fds_of_def)
    have ok: "conn_ok ?c" and new: "fds_of ?c = {#h_next h#}"
      by (simp_all add: conn_zero_def conn_reset_req_def conn_ok_def conn_sized_def fds_of_def length_http_caps)
    have "list_all conn_ok ((h_conns h)[i := ?c])"
      using h ok set_update_subset_insert [of "h_conns h" i ?c] by (fastforce simp: server_ok_def list_all_iff)
    moreover have "sum_list (map fds_of ((h_conns h)[i := ?c])) = add_mset (h_next h) (sum_list (map fds_of (h_conns h)))"
      using replace_conn [OF i(1), of ?c] old new by simp
    ultimately show ?thesis
      using h Some by (simp add: accept_one_fd_def conn_slot_def server_ok_def open_sockets_def Let_def)
  qed
qed

lemma accept_drain_ok: "server_ok h \<Longrightarrow> server_ok (accept_drain now peers h)"
  unfolding accept_drain_def by (induction peers arbitrary: h) (simp_all add: accept_one_ok)

lemma server_accept_ok: "server_ok h \<Longrightarrow> server_ok (http_accept_pt quit now peers h)"
proof -
  assume h: "server_ok h"
  let ?h = "case h_pending_listen_fd h of
      Some fd \<Rightarrow> (close_opt (h_listen_fd h) h)\<lparr>h_listen_fd := Some fd, h_pending_listen_fd := None\<rparr> | None \<Rightarrow> h"
  have "server_ok ?h"
    using h by (cases "h_listen_fd h") (auto simp: close_opt_def server_ok_def open_sockets_def add_mset_commute simp del: mset_upt split: option.splits)
  then show ?thesis using h accept_drain_ok [of ?h] by (simp add: http_accept_pt_def)
qed

lemma server_rebind_ok:
  assumes "server_ok h" "mf_http_rebind_listen binds spec h = (rc, h')"
  shows "server_ok h'"
proof -
  have bound: "b = Some (h_next h) \<and> h2 = h\<lparr>h_next := h_next h + 1\<rparr> \<or> b = None \<and> h2 = h"
    if "bind_listen_spec binds spec h = (b, h2)" for b h2
    using that by (auto simp: bind_listen_spec_def split: option.splits prod.splits if_splits)
  show ?thesis
    using assms bound
    by (cases "h_pending_listen_fd h")
      (auto simp: mf_http_rebind_listen_def close_opt_def server_ok_def open_sockets_def ac_simps simp del: mset_upt split: if_splits prod.splits option.splits)
qed

lemma conn_shut_ok: "conn_ok c \<Longrightarrow> conn_ok (fst (conn_shut c)) \<and> fds_of (fst (conn_shut c)) = {#} \<and> mset (snd (conn_shut c)) = fds_of c"
  by (auto simp: conn_shut_def conn_close_def conn_ok_def conn_sized_def fds_of_def split: option.splits)

lemma shut_all: "list_all conn_ok cs \<Longrightarrow> mset (concat (map (snd \<circ> conn_shut) cs)) = sum_list (map fds_of cs)"
  by (induction cs) (simp_all add: conn_shut_ok)

lemma server_close_ok: "server_ok h \<Longrightarrow> server_ok (mf_http_close_all h)"
proof -
  assume h: "server_ok h"
  then have ok: "list_all conn_ok (h_conns h)" by (simp add: server_ok_def)
  then have "sum_list (map (fds_of \<circ> (fst \<circ> conn_shut)) (h_conns h)) = {#}"
    by (intro sum_list_empty) (auto simp: list_all_iff conn_shut_ok)
  moreover have "list_all conn_ok (map (fst \<circ> conn_shut) (h_conns h))"
    using ok by (auto simp: list_all_iff conn_shut_ok)
  ultimately show ?thesis
    using h shut_all [OF ok]
    by (cases "h_pending_listen_fd h") (auto simp: mf_http_close_all_def close_opt_def server_ok_def open_sockets_def Let_def ac_simps simp del: mset_upt)
qed

lemma http_reach_ok: "http_reach he h w \<Longrightarrow> phr_within (he_phr he) \<Longrightarrow> server_ok h"
  by (induction rule: http_reach.induct)
    (blast intro: server_start_ok server_turn_ok server_accept_ok server_rebind_ok server_close_ok)+

subsection \<open>Properties\<close>

lemma zero_or_one: "k \<le> 1 \<Longrightarrow> (k = 0 \<longleftrightarrow> \<not> P) \<Longrightarrow> k = (if P then 1 else 0)" for k :: nat
  by (cases P) auto

text \<open>
  C14: No socket of the server leaks and none is closed twice: in every reachable server each socket it
  ever made (listening or accepted) is either closed, once, or held by exactly one connection
  slot or listener.
\<close>

theorem http_sockets_accounted:
  assumes "phr_within (he_phr he)" and "http_reach he h w"
  shows "distinct (h_closed h) \<and>
    (\<forall>fd. count (open_sockets h) fd = (if fd < h_next h \<and> fd \<notin> set (h_closed h) then 1 else 0))"
proof -
  have eq: "mset (h_closed h) + open_sockets h = mset [0 ..< h_next h]"
    using http_reach_ok [OF assms(2,1)] by (simp add: server_ok_def)
  have ct: "count (mset (h_closed h)) fd + count (open_sockets h) fd = (if fd < h_next h then 1 else 0)" for fd
    using arg_cong [OF eq, where f = "\<lambda>M. count M fd"] by (simp add: count_mset_set')
  have cl: "count (mset (h_closed h)) fd = (if fd \<in> set (h_closed h) then 1 else 0)" for fd
  proof -
    have "count (mset (h_closed h)) fd + count (open_sockets h) fd \<le> 1" by (subst ct) simp
    then have "count (mset (h_closed h)) fd \<le> 1" by linarith
    moreover have "count (mset (h_closed h)) fd = 0 \<longleftrightarrow> fd \<notin> set (h_closed h)" by (simp add: count_mset_0_iff)
    ultimately show ?thesis by (rule zero_or_one)
  qed
  have "fd < h_next h" if "fd \<in> set (h_closed h)" for fd
    using ct [of fd, unfolded cl] that by (simp split: if_splits)
  then have "count (open_sockets h) fd = (if fd < h_next h \<and> fd \<notin> set (h_closed h) then 1 else 0)" for fd
    using ct [of fd, unfolded cl] by (cases "fd \<in> set (h_closed h)") (simp_all split: if_splits)
  moreover have "distinct (h_closed h)" unfolding distinct_count_atmost_1 using cl by blast
  ultimately show ?thesis by blast
qed

text \<open>
  C24: Whatever clients send and in whatever pieces, a connection stays within its buffers: the input
  within 73728 bytes, the reply within 65536, header and body lengths within their caps, every text
  within its array; and a slot in use has a socket and is not in the closed state.
\<close>

theorem http_conn_bounded:
  assumes "phr_within (he_phr he)" and "http_reach he h w" and "i < MF_MAX_HTTP_CLIENTS"
  shows "(let c = h_conns h ! i in
      length (c_in c) \<le> MF_HTTP_IN_CAP \<and> c_header_len c \<le> MF_HTTP_HDR_CAP \<and> c_content_length c \<le> MF_HTTP_BODY_CAP \<and>
      length (c_out c) < MF_HTTP_OUT_CAP \<and> c_out_off c \<le> length (c_out c) \<and> length (c_method c) < 16 \<and>
      length (c_path c) < 128 \<and> length (c_query c) < 96 \<and> length (c_peer c) < 64 \<and> length (c_if_match c) < 64 \<and>
      (c_in_use c \<longrightarrow> c_fd c \<noteq> None \<and> c_state c \<noteq> HTTP_CLOSE))"
proof -
  have ok: "conn_ok (h_conns h ! i)"
    using http_reach_ok [OF assms(2,1)] assms(3) by (simp add: server_ok_def list_all_length)
  then have "body_end (h_conns h ! i) \<le> MF_HTTP_IN_CAP" by (simp add: conn_ok_def body_end_cap)
  with ok show ?thesis
    by (auto simp: conn_ok_def conn_sized_def MF_HTTP_IN_CAP_def Let_def)
qed

text \<open>A client that asks for the health of the daemon, in two pieces.\<close>

definition health_request :: string where
  "health_request = ''GET /api/v1/health HTTP/1.1'' @ crlf @ crlf"

definition sample_phr :: "string \<Rightarrow> nat \<Rightarrow> phr_result" where
  "sample_phr b l =
     (if take (length health_request) b = health_request
      then Phr_request (length health_request) ''GET'' ''/api/v1/health'' 1 []
      else if take (length b) health_request = b then Phr_partial else Phr_bad)"

definition sample_env :: "unit http_env" where
  "sample_env = \<lparr>he_phr = sample_phr, he_rest = (\<lambda>rq w. (None, w)), he_version = ''1.0'', he_start_mono = 0\<rparr>"

definition sample_accepted :: mf_http where
  "sample_accepted = http_accept_pt False 10 [''10.0.0.7''] (mf_http_start (mf_http_init True 30 0))"

definition sample_half :: mf_http where
  "sample_half = fst (http_conn_pt sample_env False 11 [Chunk (take 20 health_request)] [] 0 sample_accepted ())"

definition sample_served :: mf_http where
  "sample_served = fst (http_conn_pt sample_env False 12 [Chunk (drop 20 health_request)] [Accepts 1000] 0 sample_half ())"

definition sample_idle :: mf_http where
  "sample_idle = fst (http_conn_pt sample_env False 60 [] [] 0 sample_served ())"

lemma sample_phr_within: "phr_within (he_phr sample_env)"
  unfolding phr_within_def
proof (intro allI)
  fix b :: string and l :: nat
  have "length health_request \<le> length b" if "take (length health_request) b = health_request"
    using that by (metis length_take min.cobounded1)
  then show "case he_phr sample_env b l of Phr_request n m p v hs \<Rightarrow> n \<le> length b | Phr_bad \<Rightarrow> True | Phr_partial \<Rightarrow> True"
    by (simp add: sample_env_def sample_phr_def)
qed

lemma reach_turn:
  "http_reach he h w \<Longrightarrow> i < MF_MAX_HTTP_CLIENTS \<Longrightarrow>
     http_reach he (fst (http_conn_pt he quit now rds wrs i h w)) (snd (snd (http_conn_pt he quit now rds wrs i h w)))"
  using http_reach.turn by (metis prod.collapse)

lemma sample_reach: "http_reach sample_env sample_served ()" "http_reach sample_env sample_idle ()"
proof -
  have 0: "0 < MF_MAX_HTTP_CLIENTS" by (simp add: MF_MAX_HTTP_CLIENTS_def)
  have "http_reach sample_env sample_accepted ()"
    unfolding sample_accepted_def by (intro http_reach.accept http_reach.start)
  then have "http_reach sample_env sample_half ()"
    unfolding sample_half_def using reach_turn [OF _ 0] by (metis unit_eq)
  then show served: "http_reach sample_env sample_served ()"
    unfolding sample_served_def using reach_turn [OF _ 0] by (metis unit_eq)
  then show "http_reach sample_env sample_idle ()"
    unfolding sample_idle_def using reach_turn [OF _ 0] by (metis unit_eq)
qed

theorem http_sockets_accounted_witness:
  "h_closed sample_idle = [1] \<and> count (open_sockets sample_idle) 0 = 1 \<and> count (open_sockets sample_idle) 1 = 0"
proof -
  have "h_closed sample_idle = [1]" "h_next sample_idle = 2" by code_simp+
  then show ?thesis
    using http_sockets_accounted [OF sample_phr_within sample_reach(2)] by simp
qed

theorem http_conn_bounded_witness:
  "c_in_use (h_conns sample_served ! 0) \<and> c_fd (h_conns sample_served ! 0) \<noteq> None \<and>
   length (c_out (h_conns sample_half ! 0)) < MF_HTTP_OUT_CAP"
proof -
  have 0: "0 < MF_MAX_HTTP_CLIENTS" by (simp add: MF_MAX_HTTP_CLIENTS_def)
  have "c_in_use (h_conns sample_served ! 0)" by code_simp
  moreover have "length (c_out (h_conns sample_half ! 0)) < MF_HTTP_OUT_CAP" by code_simp
  ultimately show ?thesis
    using http_conn_bounded [OF sample_phr_within sample_reach(1) 0] by (simp add: Let_def)
qed

end
