(* ===== verification/HttpExchange.thy ===== *)
theory HttpExchange
  imports HttpClient
begin

section \<open>Replies reach the clients\<close>

text \<open>
  What the server writes is what both clients read: where the blank line and the declared length of a
  reply are found in its text, in any prefix of it, and what that makes of pumping a reply in pieces.
\<close>

subsection \<open>The first blank line\<close>

lemma strstr_pos_bound: "strstr_pos needle xs = Some p \<Longrightarrow> p + length needle \<le> length xs"
  by (induction xs arbitrary: p) (auto split: if_splits dest: prefix_length_le)

lemma strstr_pos_extend: "strstr_pos needle xs = Some p \<Longrightarrow> strstr_pos needle (xs @ ys) = Some p"
proof (induction xs arbitrary: p)
  case Nil
  then show ?case by (cases ys) (auto split: if_splits)
next
  case (Cons x xs)
  show ?case
  proof (cases "prefix needle (x # xs)")
    case True
    then have "prefix needle (x # xs @ ys)" using prefix_prefix [of needle "x # xs" ys] by simp
    then show ?thesis using Cons.prems True by simp
  next
    case False
    then obtain q where q: "strstr_pos needle xs = Some q" "p = Suc q" using Cons.prems by auto
    moreover have "\<not> prefix needle (x # xs @ ys)"
    proof
      assume "prefix needle (x # xs @ ys)"
      moreover have "length needle \<le> length (x # xs)" using strstr_pos_bound [OF q(1)] by simp
      ultimately have "prefix needle (x # xs)"
        using prefix_length_prefix [of needle "x # xs @ ys" "x # xs"] by (metis append_Cons prefixI)
      with False show False by simp
    qed
    ultimately show ?thesis using Cons.IH by simp
  qed
qed

text \<open>In a prefix that ends before the first occurrence does, there is none.\<close>

lemma strstr_pos_short:
  "strstr_pos needle (xs @ ys) = Some p \<Longrightarrow> length xs < p + length needle \<Longrightarrow> strstr_pos needle xs = None"
  using strstr_pos_extend [of needle xs _ ys] strstr_pos_bound [of needle xs]
  by (cases "strstr_pos needle xs") fastforce+

lemma strstr_pos_skip:
  "needle = n # ns \<Longrightarrow> n \<notin> set w \<Longrightarrow> strstr_pos needle (w @ rest) = map_option ((+) (length w)) (strstr_pos needle rest)"
  by (cases "strstr_pos needle rest"; induction w) auto

definition cr :: char where "cr = CHR 0x0D"

lemma blank_line_text: "blank_line = [CHR 0x0D, CHR 0x0A, CHR 0x0D, CHR 0x0A]"
  by (simp add: blank_line_def crlf_def)

fun http_lines :: "string list \<Rightarrow> string" where
  "http_lines [] = crlf"
| "http_lines (l # ls) = l @ crlf @ http_lines ls"

definition line_ok :: "string \<Rightarrow> bool" where
  "line_ok l \<longleftrightarrow> l \<noteq> [] \<and> cr \<notin> set l \<and> CHR 0x00 \<notin> set l"

lemma length_http_lines: "length (http_lines ls) = 2 + sum_list (map (\<lambda>l. length l + 2) ls)"
  by (induction ls) (auto simp: crlf_def)

lemma http_lines_blank:
  assumes "ls \<noteq> []" "list_all line_ok ls"
  shows "strstr_pos blank_line (http_lines ls @ t) = Some (length (http_lines ls) - 4)"
  using assms
proof (induction ls)
  case (Cons l ls)
  have skip: "strstr_pos blank_line (l @ rest) = map_option ((+) (length l)) (strstr_pos blank_line rest)" for rest
    using Cons.prems(2) by (intro strstr_pos_skip [OF blank_line_text]) (simp add: line_ok_def cr_def)
  show ?case
  proof (cases ls)
    case Nil
    then show ?thesis by (simp add: skip) (simp add: crlf_def blank_line_text)
  next
    case (Cons l' ls')
    then have l': "list_all line_ok ls" "line_ok l'" using Cons.prems(2) by auto
    then obtain c cs where c: "l' = c # cs" "c \<noteq> CHR 0x0D" by (cases l') (auto simp: line_ok_def cr_def)
    have "\<not> prefix blank_line (crlf @ http_lines ls @ t)" "\<not> prefix blank_line (CHR 0x0A # http_lines ls @ t)"
      using c Cons by (simp_all add: crlf_def blank_line_text)
    then have "strstr_pos blank_line (crlf @ http_lines ls @ t) =
        map_option (Suc \<circ> Suc) (strstr_pos blank_line (http_lines ls @ t))"
      by (simp add: crlf_def option.map_comp)
    also have "\<dots> = Some (Suc (Suc (length (http_lines ls) - 4)))"
      using Cons.IH l'(1) Cons(1) by simp
    finally show ?thesis
      using Cons by (simp add: skip length_http_lines crlf_def)
  qed
qed simp

lemma c_text_http_lines: "list_all line_ok ls \<Longrightarrow> c_text (http_lines ls @ t) = http_lines ls @ c_text t"
proof (induction ls)
  case Nil
  then show ?case by (simp add: c_text_def crlf_def)
next
  case (Cons l ls)
  then have "c_text (l @ rest) = l @ c_text rest" for rest
    by (auto simp: c_text_def line_ok_def intro: takeWhile_append2)
  then show ?case using Cons by (simp add: c_text_def crlf_def)
qed

subsection \<open>The text of a reply\<close>

definition opt_line :: "string \<Rightarrow> string option \<Rightarrow> string list" where
  "opt_line name v = (case v of Some x \<Rightarrow> if x = [] then [] else [name @ x] | None \<Rightarrow> [])"

definition more_lines :: "bool \<Rightarrow> string option \<Rightarrow> string option \<Rightarrow> string list" where
  "more_lines close_c location etag =
     (''Connection: '' @ (if close_c then ''close'' else ''keep-alive'')) #
     opt_line ''Location: '' location @ opt_line ''ETag: '' etag"

definition first_line :: "int \<Rightarrow> int \<Rightarrow> string \<Rightarrow> string" where
  "first_line minor status reason = ''HTTP/1.'' @ dec_int minor @ '' '' @ dec_int status @ '' '' @ reason"

definition reply_lines :: "int \<Rightarrow> int \<Rightarrow> string \<Rightarrow> nat \<Rightarrow> bool \<Rightarrow> string option \<Rightarrow> string option \<Rightarrow> string list" where
  "reply_lines minor status reason n close_c location etag =
     first_line minor status reason # ''Content-Type: application/json'' # (''Content-Length: '' @ nat_digits n) #
     more_lines close_c location etag"

lemma reply_head_lines:
  "reply_head minor status reason n close_c location etag = http_lines (reply_lines minor status reason n close_c location etag)"
  by (cases location; cases etag)
    (auto simp: reply_head_def reply_lines_def more_lines_def opt_line_def first_line_def)

text \<open>A header value that cannot end its line.\<close>

definition value_ok :: "string option \<Rightarrow> bool" where
  "value_ok v \<longleftrightarrow> (case v of Some x \<Rightarrow> cr \<notin> set x \<and> CHR 0x00 \<notin> set x | None \<Rightarrow> True)"

lemma nat_digits_clean: "c \<in> set (nat_digits n) \<Longrightarrow> c \<noteq> cr \<and> c \<noteq> CHR 0x00 \<and> c \<noteq> CHR ''C''"
  using nat_digits_dec [of c n] by (auto simp: is_digit_def cr_def)

lemma dec_int_clean: "c \<in> set (dec_int z) \<Longrightarrow> c \<noteq> cr \<and> c \<noteq> CHR 0x00 \<and> c \<noteq> CHR ''C''"
  using nat_digits_clean by (auto simp: dec_int_def cr_def split: if_splits)

lemma http_reason_cases:
  "http_reason status \<in> {''OK'', ''Created'', ''Accepted'', ''Bad Request'', ''Forbidden'', ''Not Found'',
     ''Method Not Allowed'', ''Conflict'', ''Payload Too Large'', ''Error''}"
  by (simp add: http_reason_def)

lemma reply_lines_ok:
  assumes "value_ok location" "value_ok etag"
  shows "list_all line_ok (reply_lines minor status (http_reason st) n close_c location etag)"
proof -
  have "line_ok (first_line minor status (http_reason st))"
    using http_reason_cases [of st] dec_int_clean
    by (auto simp: first_line_def line_ok_def cr_def)
  moreover have "line_ok (''Content-Length: '' @ nat_digits n)"
    using nat_digits_clean by (auto simp: line_ok_def cr_def)
  moreover have "list_all line_ok (opt_line ''Location: '' location)" "list_all line_ok (opt_line ''ETag: '' etag)"
    using assms by (auto simp: opt_line_def value_ok_def line_ok_def cr_def split: option.splits)
  ultimately show ?thesis
    by (simp add: reply_lines_def more_lines_def) (simp add: line_ok_def cr_def)
qed

definition length_name :: string where "length_name = ''Content-Length:''"

lemma skip_to_length:
  "CHR ''C'' \<notin> set w \<Longrightarrow> strstr_pos length_name (w @ rest) = map_option ((+) (length w)) (strstr_pos length_name rest)"
  by (rule strstr_pos_skip [where n = "CHR ''C''" and ns = "''ontent-Length:''"]) (simp_all add: length_name_def)

lemma skip_reason:
  "strstr_pos length_name (http_reason st @ crlf @ rest) =
     map_option ((+) (length (http_reason st @ crlf))) (strstr_pos length_name rest)"
proof -
  have plain: ?thesis if "CHR ''C'' \<notin> set (http_reason st)"
    using skip_to_length [of "http_reason st @ crlf" rest] that by (simp add: crlf_def)
  have c: "strstr_pos length_name ((CHR ''C'' # w) @ crlf @ rest) = map_option ((+) (length ((CHR ''C'' # w) @ crlf))) (strstr_pos length_name rest)"
    if "CHR ''C'' \<notin> set w" "\<not> prefix length_name (CHR ''C'' # w @ crlf @ rest)" for w
    using skip_to_length [of "w @ crlf" rest] that by (cases "strstr_pos length_name rest") (simp_all add: crlf_def)
  show ?thesis
    using http_reason_cases [of st] plain c [of "''reated''"] c [of "''onflict''"]
    by (auto simp: length_name_def)
qed

lemma skip_type:
  "strstr_pos length_name (''Content-Type: application/json'' @ crlf @ rest) = map_option ((+) 32) (strstr_pos length_name rest)"
  by (cases "strstr_pos length_name rest") (simp_all add: length_name_def crlf_def)

lemma reply_length_pos:
  "strstr_pos length_name (http_lines (reply_lines minor status (http_reason st) n close_c location etag) @ t) =
     Some (length (first_line minor status (http_reason st)) + 34)"
proof -
  let ?rest = "''Content-Type: application/json'' @ crlf @ ''Content-Length: '' @ nat_digits n @ crlf @
      http_lines (more_lines close_c location etag) @ t"
  have here: "strstr_pos length_name (''Content-Length: '' @ r) = Some 0" for r by (simp add: length_name_def)
  have "CHR ''C'' \<notin> set (''HTTP/1.'' @ dec_int minor @ '' '' @ dec_int status @ '' '')"
    using dec_int_clean by auto
  from skip_to_length [OF this, of "http_reason st @ crlf @ ?rest"]
  show ?thesis
    by (simp only: reply_lines_def first_line_def http_lines.simps append_assoc skip_reason skip_type here)
      (simp add: crlf_def)
qed

lemma strtoul_field:
  assumes "n < 2 ^ 64" "r = [] \<or> \<not> is_digit (hd r)"
  shows "strtoul10 (CHR '' '' # nat_digits n @ r) = n"
proof -
  obtain c cs where cs: "nat_digits n = c # cs" by (cases "nat_digits n") auto
  have c: "is_digit c" using nat_digits_dec [of c n] cs by simp
  have "takeWhile is_digit (c # cs @ r) = nat_digits n" using digits_then [OF assms(2), of n] by (simp add: cs)
  moreover have sp: "is_space (CHR '' '')" by (simp add: is_space_def)
  ultimately show ?thesis
    using assms(1) is_digit_not_space [OF c] unfolding cs
    by (simp add: strtoul10_def Let_def sp) (simp flip: cs)
qed

lemma reply_declared:
  assumes "n < 2 ^ 64"
  shows "declared_length (http_lines (reply_lines minor status (http_reason st) n close_c location etag) @ t)
      (length (http_lines (reply_lines minor status (http_reason st) n close_c location etag)) - 4) = n"
proof -
  let ?f = "first_line minor status (http_reason st)" and ?more = "http_lines (more_lines close_c location etag)"
  let ?h = "http_lines (reply_lines minor status (http_reason st) n close_c location etag)"
  have split: "?h @ t = (?f @ crlf @ ''Content-Type: application/json'' @ crlf @ ''Content-Length:'') @
      CHR '' '' # nat_digits n @ crlf @ ?more @ t"
    by (simp add: reply_lines_def)
  have "length ?f + 34 + 15 = length (?f @ crlf @ ''Content-Type: application/json'' @ crlf @ ''Content-Length:'')"
    by (simp add: crlf_def)
  then have "drop (length ?f + 34 + 15) (?h @ t) = CHR '' '' # nat_digits n @ crlf @ ?more @ t"
    unfolding split by (simp only: append_eq_conv_conj [THEN iffD1] drop_append) simp
  moreover have "strtoul10 (CHR '' '' # nat_digits n @ crlf @ ?more @ t) = n"
    by (rule strtoul_field [OF assms]) (simp add: crlf_def is_digit_def)
  moreover have "length ?f + 34 < length ?h - 4"
    by (simp add: reply_lines_def length_http_lines more_lines_def)
  ultimately show ?thesis
    using reply_length_pos [of minor status st n close_c location etag t]
    by (simp add: declared_length_def length_name_def add.assoc)
qed

subsection \<open>A reply, read in pieces\<close>

text \<open>What a successful \<open>http_reply\<close> has written.\<close>

lemma http_reply_text:
  assumes "http_reply c status (http_reason st) body fc location etag = Some c'" "value_ok location" "value_ok etag"
  obtains ls where "c_out c' = http_lines ls @ body" "list_all line_ok ls" "ls \<noteq> []"
    "length (http_lines ls) + length body < MF_HTTP_OUT_CAP"
    "\<And>t. declared_length (http_lines ls @ t) (length (http_lines ls) - 4) = length body"
    "hd ls = first_line (if 0 \<le> c_minor c then c_minor c else 1) status (http_reason st)"
proof -
  let ?m = "if 0 \<le> c_minor c then c_minor c else 1" and ?cl = "fc \<or> c_req_close c \<or> c_minor c < 1"
  let ?ls = "reply_lines ?m status (http_reason st) (length body) ?cl location etag"
  have out: "c_out c' = http_lines ?ls @ body" and len: "length (http_lines ?ls) + length body < MF_HTTP_OUT_CAP"
    using assms(1) by (auto simp: http_reply_def Let_def reply_head_lines split: if_splits)
  have "length body < 2 ^ 64" using len by (simp add: MF_HTTP_OUT_CAP_def)
  then show ?thesis
    using that [of ?ls] out len reply_lines_ok [OF assms(2,3)] reply_declared by (simp add: reply_lines_def)
qed

lemma split_part:
  assumes "h @ body = xs @ ys"
  obtains (beyond) part where "xs = h @ part" "body = part @ ys"
  | (before) zs where "zs \<noteq> []" "h = xs @ zs" "ys = zs @ body"
proof -
  obtain us where "h = xs @ us \<and> us @ body = ys \<or> h @ us = xs \<and> body = us @ ys"
    using assms unfolding append_eq_append_conv2 by blast
  then show ?thesis using beyond before by (cases "us = []") auto
qed

text \<open>The blank line of the headers is found as soon as it is there.\<close>

lemma blank_line_found:
  "list_all line_ok ls \<Longrightarrow> ls \<noteq> [] \<Longrightarrow> strstr_pos blank_line (c_text (http_lines ls @ part)) = Some (length (http_lines ls) - 4)"
  by (simp add: c_text_http_lines http_lines_blank)

lemma blank_line_missing:
  assumes "list_all line_ok ls" "ls \<noteq> []" "http_lines ls = xs @ zs" "zs \<noteq> []"
  shows "strstr_pos blank_line (c_text xs) = None"
proof -
  have "c_text (http_lines ls) = http_lines ls"
    using c_text_http_lines [OF assms(1), of "[]"] by (simp add: c_text_def)
  then have "\<forall>x \<in> set (xs @ zs). x \<noteq> CHR 0x00" unfolding assms(3) by (simp add: c_text_def takeWhile_eq_all_conv)
  then have clean: "c_text xs = xs" by (simp add: c_text_def takeWhile_eq_all_conv)
  have "strstr_pos blank_line (xs @ zs) = Some (length (http_lines ls) - 4)"
    using http_lines_blank [OF assms(2,1), of "[]"] by (simp add: assms(3))
  then have "strstr_pos blank_line xs = None"
    by (rule strstr_pos_short) (use assms(3,4) in \<open>cases zs; simp add: blank_line_text\<close>)
  then show ?thesis by (simp add: clean)
qed

lemma length_http_lines_ge: "ls \<noteq> [] \<Longrightarrow> 4 \<le> length (http_lines ls)"
  by (cases ls) (auto simp: length_http_lines crlf_def)

text \<open>Where the client stands after a part \<open>xs\<close> of the reply: only the whole of it is complete.\<close>

lemma parse_part:
  assumes "list_all line_ok ls" "ls \<noteq> []" "length (http_lines ls) + length body < CLI_IN_CAP"
    and "\<And>t. declared_length (http_lines ls @ t) (length (http_lines ls) - 4) = length body"
    and "http_lines ls @ body = xs @ ys" "hc_in c = xs"
  shows "parse_complete c =
    (if ys = [] then Complete (c\<lparr>hc_body := body, hc_have_body := True, hc_inflight := False, hc_in := [], hc_out := [], hc_out_off := 0\<rparr>)
     else Incomplete)"
  using assms(5)
proof (cases rule: split_part)
  case xs: (beyond part)
  let ?h = "http_lines ls"
  have pos: "strstr_pos blank_line (c_text (hc_in c)) = Some (length ?h - 4)"
    using blank_line_found [OF assms(1,2)] assms(6) xs(1) by simp
  have decl: "declared_length (c_text (hc_in c)) (length ?h - 4) = length body"
    using assms(4,6) xs c_text_http_lines [OF assms(1)] by simp
  have small: "(length ?h + length body) mod 2 ^ 64 = length ?h + length body"
    using assms(3) by (simp add: CLI_IN_CAP_def)
  have L: "length ?h - 4 + 4 = length ?h" and n: "\<not> CLI_IN_CAP \<le> length body"
    using length_http_lines_ge [OF assms(2)] assms(3) by simp_all
  have part: "length (hc_in c) = length ?h + length part" "drop (length ?h) (hc_in c) = part" using assms(6) xs(1) by simp_all
  have parse: "parse_complete c =
      (if length part < length body then Incomplete
       else Complete (c\<lparr>hc_body := take (length body) part, hc_have_body := True, hc_inflight := False, hc_in := [], hc_out := [], hc_out_off := 0\<rparr>))"
    unfolding parse_complete_def Let_def pos decl option.case L small part using n by simp
  show ?thesis by (cases ys) (simp_all add: parse xs(2))
next
  case (before zs)
  then show ?thesis
    using blank_line_missing [OF assms(1,2) before(2,1)] assms(6) by (simp add: parse_complete_def Let_def)
qed

fun pumps :: "http_cli \<Rightarrow> pump_env list \<Rightarrow> http_cli option" where
  "pumps c [] = Some c"
| "pumps c (e # es) = Option.bind (mf_http_cli_pump c e) (\<lambda>c. pumps c es)"

text \<open>A pump that receives one piece, in time.\<close>

definition piece_env :: "cdouble \<Rightarrow> pump_env \<Rightarrow> string \<Rightarrow> bool" where
  "piece_env t e p \<longleftrightarrow> pe_readable e \<and> \<not> pe_writable e \<and> pe_recv e = [Chunk p] \<and> p \<noteq> [] \<and>
     0 < pe_now e \<and> t \<le> pe_now e \<and> pe_now e \<le> t + INFLIGHT_TMO_S"

definition in_flight :: "cdouble \<Rightarrow> http_cli \<Rightarrow> bool" where
  "in_flight t c \<longleftrightarrow> hc_state c = MF_CONN_UP \<and> hc_inflight c \<and> (hc_req_since c = 0 \<or> t \<le> hc_req_since c) \<and> 0 < t"

lemma same_since: "c\<lparr>hc_req_since := hc_req_since c, hc_in := x\<rparr> = c\<lparr>hc_in := x\<rparr>"
  by simp

lemma pump_piece:
  assumes "in_flight t c" "piece_env t e p" "length (hc_in c) + length p < CLI_IN_CAP"
  shows "\<exists>s. mf_http_cli_pump c e =
      (let c' = c\<lparr>hc_req_since := s, hc_in := hc_in c @ p\<rparr> in
       case parse_complete c' of Incomplete \<Rightarrow> Some c' | Overread \<Rightarrow> None
       | Complete c \<Rightarrow> Some (c\<lparr>hc_last_fresh := pe_now e, hc_stale := False, hc_want_read := True, hc_want_write := False\<rparr>)) \<and>
    in_flight t (c\<lparr>hc_req_since := s, hc_in := hc_in c @ p\<rparr>)"
proof -
  let ?s = "if hc_req_since c \<le> 0 then pe_now e else hc_req_since c"
  have wait: "\<not> (0 < hc_req_since c \<and> INFLIGHT_TMO_S < pe_now e - hc_req_since c)"
    using assms(1,2) by (auto simp: in_flight_def piece_env_def)
  have room: "read_some (CLI_IN_CAP - 1 - length (hc_in c)) [Chunk p] = (Got p, [])"
    using assms(2,3) by (simp add: piece_env_def)
  have more: "\<not> CLI_IN_CAP - 1 \<le> length (hc_in c)" using assms(2,3) by (cases p) (auto simp: piece_env_def)
  have s: "in_flight t (c\<lparr>hc_req_since := ?s, hc_in := hc_in c @ p\<rparr>)"
    using assms(1,2) by (auto simp: in_flight_def piece_env_def)
  have stamp: "(if hc_inflight c \<and> hc_req_since c \<le> 0 then c\<lparr>hc_req_since := pe_now e\<rparr> else c) = c\<lparr>hc_req_since := ?s\<rparr>"
    using assms(1) by (simp add: in_flight_def)
  have idle: "pump_send (pump_pending (c\<lparr>hc_req_since := ?s\<rparr>)) e = Inr (c\<lparr>hc_req_since := ?s\<rparr>)"
    using assms(1,2) by (simp add: pump_pending_def pump_send_def in_flight_def piece_env_def)
  have run: "mf_http_cli_pump c e = pump_recv (c\<lparr>hc_req_since := ?s\<rparr>) e"
    using assms(1) wait unfolding mf_http_cli_pump_def stamp Let_def idle by (auto simp: in_flight_def)
  have got: "fst (read_some (CLI_IN_CAP - 1 - length (hc_in c)) (pe_recv e)) = Got p"
    using room assms(2) by (simp add: piece_env_def)
  show ?thesis
    using s assms(1,2) more got unfolding run pump_recv_def Let_def
    by (intro exI [of _ ?s] conjI) (simp_all add: in_flight_def piece_env_def cong: parsed.case_cong)
qed

text \<open>Pieces of a reply, pumped one after the other from the part \<open>xs\<close> that is already there.\<close>

lemma pump_reply:
  assumes "list_all line_ok ls" "ls \<noteq> []" "length (http_lines ls) + length body < CLI_IN_CAP"
    and "\<And>t. declared_length (http_lines ls @ t) (length (http_lines ls) - 4) = length body"
  shows "http_lines ls @ body = hc_in c @ concat ps \<Longrightarrow> list_all2 (piece_env t) es ps \<Longrightarrow> ps \<noteq> [] \<Longrightarrow> in_flight t c \<Longrightarrow>
    \<exists>c'. pumps c es = Some c' \<and> hc_have_body c' \<and> hc_body c' = body \<and> \<not> hc_inflight c' \<and> hc_state c' = MF_CONN_UP \<and>
      (\<forall>k < length es. \<forall>c''. pumps c (take k es) = Some c'' \<longrightarrow> hc_have_body c'' = hc_have_body c)"
proof (induction ps arbitrary: c es)
  case (Cons p ps)
  then obtain e es' where es: "es = e # es'" "piece_env t e p" "list_all2 (piece_env t) es' ps"
    by (auto simp: list_all2_Cons2)
  have "length (hc_in c) + length p \<le> length (http_lines ls @ body)" unfolding Cons.prems(1) by simp
  then have len: "length (hc_in c) + length p < CLI_IN_CAP" using assms(3) by simp
  obtain s where pump: "mf_http_cli_pump c e =
      (let c' = c\<lparr>hc_req_since := s, hc_in := hc_in c @ p\<rparr> in
       case parse_complete c' of Incomplete \<Rightarrow> Some c' | Overread \<Rightarrow> None
       | Complete c \<Rightarrow> Some (c\<lparr>hc_last_fresh := pe_now e, hc_stale := False, hc_want_read := True, hc_want_write := False\<rparr>))"
      and fl: "in_flight t (c\<lparr>hc_req_since := s, hc_in := hc_in c @ p\<rparr>)"
    using pump_piece [OF Cons.prems(4) es(2) len] by blast
  let ?c = "c\<lparr>hc_req_since := s, hc_in := hc_in c @ p\<rparr>"
  have eq: "http_lines ls @ body = hc_in ?c @ concat ps" using Cons.prems(1) by simp
  note parse = parse_part [OF assms eq refl]
  show ?case
  proof (cases "ps = []")
    case True
    then have "es' = []" using es(3) by simp
    then show ?thesis
      using True es(1) parse pump fl by (auto simp: Let_def in_flight_def)
  next
    case False
    have "concat ps \<noteq> []"
    proof
      assume none: "concat ps = []"
      obtain q qs where "ps = q # qs" using False by (cases ps) auto
      then show False using es(3) none by (auto simp: list_all2_Cons2 piece_env_def)
    qed
    then have part: "parse_complete ?c = Incomplete" using parse by (simp only: if_False)
    have run: "mf_http_cli_pump c e = Some ?c" unfolding pump Let_def part by simp
    obtain c' where c': "pumps ?c es' = Some c'" "hc_have_body c'" "hc_body c' = body" "\<not> hc_inflight c'" "hc_state c' = MF_CONN_UP"
        "\<forall>k < length es'. \<forall>c''. pumps ?c (take k es') = Some c'' \<longrightarrow> hc_have_body c'' = hc_have_body ?c"
      using Cons.IH [OF eq es(3) False fl] by blast
    have "hc_have_body c'' = hc_have_body c" if "k < length es" "pumps c (take k es) = Some c''" for k c''
      using that c'(6) es(1) run by (cases k) auto
    then show ?thesis using c' es(1) run by auto
  qed
qed simp

text \<open>
  C18: Every reply the server can write is read back by the terminal client: whatever the pieces it
  arrives in, the client has a body exactly after the last piece, not earlier, and it is the body
  that the server was given; the connection stays up.
\<close>

theorem http_reply_read_back:
  assumes "http_reply c status (http_reason status) body fc location etag = Some c'"
    and "value_ok location" "value_ok etag"
    and "in_flight t cli" "hc_in cli = []" "\<not> hc_have_body cli"
    and "concat ps = c_out c'" "list_all2 (piece_env t) es ps"
  shows "\<exists>cli'. pumps cli es = Some cli' \<and> hc_have_body cli' \<and> hc_body cli' = body \<and> hc_state cli' = MF_CONN_UP \<and>
    (\<forall>k < length es. \<forall>c''. pumps cli (take k es) = Some c'' \<longrightarrow> \<not> hc_have_body c'')"
proof -
  obtain ls where ls: "c_out c' = http_lines ls @ body" "list_all line_ok ls" "ls \<noteq> []"
    "length (http_lines ls) + length body < MF_HTTP_OUT_CAP"
    "\<And>t. declared_length (http_lines ls @ t) (length (http_lines ls) - 4) = length body"
    using http_reply_text [OF assms(1-3)] by metis
  have "length (http_lines ls) + length body < CLI_IN_CAP" using ls(4) by (simp add: CLI_IN_CAP_def MF_HTTP_OUT_CAP_def)
  moreover have "http_lines ls @ body = hc_in cli @ concat ps" using ls(1) assms(5,7) by simp
  moreover have "ps \<noteq> []" using ls(1,3) assms(7) by (cases ls; cases ps) (auto simp: crlf_def)
  ultimately show ?thesis
    using pump_reply [OF ls(2,3) _ ls(5) _ assms(8) _ assms(4)] assms(6) by blast
qed

text \<open>Two pumps that bring a reply of the health route.\<close>

definition sample_reply :: string where
  "sample_reply = c_out (the (http_reply (conn_zero\<lparr>c_minor := 1\<rparr>) 200 (http_reason 200) ''{}'' False None (Some ''7'')))"

definition sample_cli :: http_cli where
  "sample_cli = (mf_http_cli_init (Some ''pi'') 5250)\<lparr>hc_state := MF_CONN_UP, hc_fd := True, hc_inflight := True\<rparr>"

definition sample_pump :: "cdouble \<Rightarrow> string \<Rightarrow> pump_env" where
  "sample_pump now p = \<lparr>pe_now = now, pe_readable = True, pe_writable = False, pe_connects = True, pe_so_ok = True,
     pe_send = Wr_again, pe_recv = [Chunk p]\<rparr>"

theorem http_reply_read_back_witness:
  "map_option hc_body (pumps sample_cli [sample_pump 1 (take 30 sample_reply), sample_pump 2 (drop 30 sample_reply)]) = Some ''{}''"
proof -
  have reply: "http_reply (conn_zero\<lparr>c_minor := 1\<rparr>) 200 (http_reason 200) ''{}'' False None (Some ''7'') =
      Some (the (http_reply (conn_zero\<lparr>c_minor := 1\<rparr>) 200 (http_reason 200) ''{}'' False None (Some ''7'')))"
    by (simp add: http_reply_def conn_zero_def reply_head_def crlf_def http_reason_def MF_HTTP_OUT_CAP_def dec_int_def nat_digits.simps)
  have long: "30 < length sample_reply"
    unfolding sample_reply_def
    by (simp add: http_reply_def conn_zero_def reply_head_def crlf_def http_reason_def MF_HTTP_OUT_CAP_def dec_int_def nat_digits.simps)
  have "list_all2 (piece_env 1) [sample_pump 1 (take 30 sample_reply), sample_pump 2 (drop 30 sample_reply)]
      [take 30 sample_reply, drop 30 sample_reply]"
    using long by (auto simp: piece_env_def sample_pump_def INFLIGHT_TMO_S_def)
  moreover have "in_flight 1 sample_cli" "hc_in sample_cli = []" "\<not> hc_have_body sample_cli"
    by (simp_all add: in_flight_def sample_cli_def mf_http_cli_init_def set_status_def)
  moreover have "value_ok None" "value_ok (Some ''7'')" by (simp_all add: value_ok_def cr_def)
  ultimately show ?thesis
    using http_reply_read_back [OF reply, of 1 sample_cli "[take 30 sample_reply, drop 30 sample_reply]"]
    by (fastforce simp: sample_reply_def)
qed

subsection \<open>The command line reads a reply to its end\<close>

definition stream_end :: "sock_read list \<Rightarrow> bool" where
  "stream_end es \<longleftrightarrow> (case es of [] \<Rightarrow> True | Rd_again # es \<Rightarrow> True | Rd_fail # es \<Rightarrow> True | Chunk xs # es \<Rightarrow> xs = [])"

lemma read_body_pieces:
  assumes "stream_end tail"
  shows "list_all (\<lambda>p. p \<noteq> []) ps \<Longrightarrow> length (b @ concat ps) < CLI_MAX_BODY \<Longrightarrow>
    read_body b (map Chunk ps @ tail) = Some (b @ concat ps)"
proof (induction ps arbitrary: b)
  case Nil
  then show ?case using assms by (cases tail) (auto simp: stream_end_def split: sock_read.splits)
next
  case (Cons p ps)
  then show ?case using Cons.IH [of "b @ p"] by simp
qed

lemma read_headers_pieces:
  assumes "list_all line_ok ls" "ls \<noteq> []" "length (http_lines ls) < CLI_HDR_BUF" "stream_end tail"
    and "length (http_lines ls @ part) < CLI_MAX_BODY"
  shows "buf @ concat ps = http_lines ls @ part \<Longrightarrow> length buf < length (http_lines ls) \<Longrightarrow> list_all (\<lambda>p. p \<noteq> []) ps \<Longrightarrow>
    \<exists>buf' es. read_headers buf (map Chunk ps @ tail) = Inr (buf', length (http_lines ls), es) \<and>
      take (length (http_lines ls)) buf' = http_lines ls \<and> read_body (drop (length (http_lines ls)) buf') es = Some part"
proof (induction ps arbitrary: buf)
  case (Cons p ps)
  let ?h = "http_lines ls" and ?room = "CLI_HDR_BUF - length buf - 1" and ?buf = "buf @ take (CLI_HDR_BUF - length buf - 1) p"
  have room: "?room \<noteq> 0" "p \<noteq> []" using assms(3) Cons.prems(2,3) by auto
  have rest: "?h @ part = ?buf @ (drop ?room p @ concat ps)"
    using Cons.prems(1) by simp (metis append_assoc append_take_drop_id)
  from rest show ?case
  proof (cases rule: split_part)
    case (beyond got)
    let ?es = "if length p \<le> ?room then map Chunk ps @ tail else Chunk (drop ?room p) # map Chunk ps @ tail"
    have "4 \<le> length ?buf" using length_http_lines_ge [OF assms(2)] beyond(1) by simp
    then have hdr: "read_headers buf (map Chunk (p # ps) @ tail) = Inr (?buf, length ?h, ?es)"
      using room blank_line_found [OF assms(1,2), of got] beyond(1) length_http_lines_ge [OF assms(2)]
      by (simp add: Let_def)
    have "?es = map Chunk (if length p \<le> ?room then ps else drop ?room p # ps) @ tail" by simp
    moreover have "list_all (\<lambda>p. p \<noteq> []) (if length p \<le> ?room then ps else drop ?room p # ps)" using Cons.prems(3) by simp
    moreover have "got @ concat (if length p \<le> ?room then ps else drop ?room p # ps) = part" using beyond(2) by simp
    ultimately have "read_body got ?es = Some part"
      using read_body_pieces [OF assms(4), of "if length p \<le> ?room then ps else drop ?room p # ps" got] assms(5) by simp
    then show ?thesis using hdr beyond(1) by auto
  next
    case (before zs)
    have "length ?buf < CLI_HDR_BUF - 1" using before(1,2) assms(3) arg_cong [OF before(2), of length] by (cases zs) auto
    then have all: "length p \<le> ?room" by (simp split: if_splits)
    have "length buf + length p < length ?h" using arg_cong [OF before(2), of length] before(1) all by (cases zs) auto
    moreover have "strstr_pos blank_line (c_text (buf @ p)) = None"
      using blank_line_missing [OF assms(1,2) before(2,1)] all by simp
    ultimately show ?thesis
      using Cons.IH [of "buf @ p"] Cons.prems all room by (simp add: Let_def)
  qed
qed simp

lemma status_line:
  assumes "0 \<le> m" "m \<le> 1" "0 \<le> status" "status < 1000" "hd ls = first_line m status reason" "ls \<noteq> []"
    and "take (length (http_lines ls)) buf = http_lines ls"
  shows "status_of (take (length (http_lines ls) - 4) buf) = status"
proof -
  obtain ls' where ls: "ls = first_line m status reason # ls'" using assms(5,6) by (cases ls) auto
  define ds where "ds = nat_digits (nat status)"
  define pre where "pre = ''HTTP/1.'' @ dec_int m @ '' '' @ ds @ '' ''"
  have m: "dec_int m = [CHR ''0''] \<or> dec_int m = [CHR ''1'']"
  proof -
    have "nat_digits 0 = [CHR ''0'']" "nat_digits 1 = [CHR ''1'']" by (subst nat_digits.simps, simp)+
    moreover have "m = 0 \<or> m = 1" using assms(1,2) by linarith
    ultimately show ?thesis by (auto simp: dec_int_def)
  qed
  have "length ds \<le> 3" unfolding ds_def using assms(3,4) by (intro length_nat_digits) auto
  then have pl: "length pre \<le> 13" using m by (auto simp: pre_def)
  have "take (length (http_lines ls) - 4) buf = take (length (http_lines ls) - 4) (take (length (http_lines ls)) buf)" by simp
  also have "\<dots> = take (length (http_lines ls) - 4) (http_lines ls)" unfolding assms(7) ..
  finally have cut: "take (length (http_lines ls) - 4) buf = take (length (http_lines ls) - 4) (http_lines ls)" .
  have h: "http_lines ls = pre @ reason @ crlf @ http_lines ls'"
    using assms(3) by (simp add: ls first_line_def pre_def ds_def dec_int_def)
  have "2 \<le> length (http_lines ls')" by (simp add: length_http_lines)
  then have "length pre \<le> length (http_lines ls) - 4" by (simp add: h crlf_def)
  then have "take (length (http_lines ls) - 4) (pre @ reason @ crlf @ http_lines ls') =
      pre @ take (length (http_lines ls) - 4 - length pre) (reason @ crlf @ http_lines ls')" by simp
  then obtain x where "take (length (http_lines ls) - 4) buf = pre @ x"
    unfolding cut using h by metis
  then have "c_copy 256 (take (length (http_lines ls) - 4) buf) = pre @ take (255 - length pre) x"
    using pl by (simp add: c_copy_def)
  moreover have clean: "\<forall>c \<in> set pre. c \<noteq> CHR 0x00"
    using m nat_digits_clean by (auto simp: pre_def ds_def)
  then have "c_text (pre @ y) = pre @ c_text y" for y by (simp add: c_text_def takeWhile_append2)
  moreover have "dropWhile (\<lambda>c. c \<noteq> CHR '' '') (pre @ y) = CHR '' '' # ds @ CHR '' '' # y" for y
    using m by (auto simp: pre_def)
  moreover have "atoi (ds @ CHR '' '' # y) = status" for y
    using assms(3,4) atoi_field [of "nat status" "CHR '' '' # y"] by (simp add: ds_def is_digit_def)
  ultimately show ?thesis by (simp only: status_of_def Let_def list.distinct if_False list.sel)
qed

text \<open>The whole exchange of the command line, once a connection was made.\<close>

lemma cli_reads:
  assumes "http_reply c status (http_reason status) body fc location etag = Some c'" "value_ok location" "value_ok etag"
    and "c_minor c = 0 \<or> c_minor c = 1" "0 \<le> status" "status < 1000"
    and "length (c_out c') - length body < CLI_HDR_BUF"
    and "concat ps = take (length (c_out c') - length body + k) (c_out c')" "list_all (\<lambda>p. p \<noteq> []) ps" "stream_end tail"
    and "cn_resolves net" "cn_connects net" "cn_recv net = map Chunk ps @ tail"
    and "send_all (c_copy 1024 (cli_request_text method path host json)) (cn_send net) = (sent, True)"
  shows "cli_http_request (Some host) method (Some path) json net =
    (0, \<lparr>re_status = status, re_body = Some (take k body), re_body_len = min k (length body)\<rparr>, [], sent)"
proof -
  obtain ls where ls: "c_out c' = http_lines ls @ body" "list_all line_ok ls" "ls \<noteq> []"
    "length (http_lines ls) + length body < MF_HTTP_OUT_CAP"
    "hd ls = first_line (if 0 \<le> c_minor c then c_minor c else 1) status (http_reason status)"
    using http_reply_text [OF assms(1-3)] by metis
  have len: "length (http_lines ls) < CLI_HDR_BUF" "length (http_lines ls @ take k body) < CLI_MAX_BODY"
    using assms(7) ls(1,4) by (simp_all add: MF_HTTP_OUT_CAP_def CLI_MAX_BODY_def)
  have "[] @ concat ps = http_lines ls @ take k body" using assms(8) ls(1) by simp
  moreover have "length [] < length (http_lines ls)" using length_http_lines_ge [OF ls(3)] by (cases "http_lines ls") auto
  ultimately obtain buf es where r: "read_headers [] (map Chunk ps @ tail) = Inr (buf, length (http_lines ls), es)"
      "take (length (http_lines ls)) buf = http_lines ls" "read_body (drop (length (http_lines ls)) buf) es = Some (take k body)"
    using read_headers_pieces [OF ls(2,3) len(1) assms(10) len(2)] assms(9) by blast
  have "status_of (take (length (http_lines ls) - 4) buf) = status"
    using assms(4-6) ls(5) by (intro status_line [OF _ _ _ _ ls(5) ls(3) r(2)]) auto
  then show ?thesis
    using assms(11-14) r by (simp add: cli_http_request_def min.commute)
qed

text \<open>
  The command line reads back every reply the server can write: whatever the pieces, its response
  has the status and exactly the body that the server was given.
\<close>

theorem cli_reply_read_back:
  assumes "http_reply c status (http_reason status) body fc location etag = Some c'" "value_ok location" "value_ok etag"
    and "c_minor c = 0 \<or> c_minor c = 1" "0 \<le> status" "status < 1000"
    and "length (c_out c') - length body < CLI_HDR_BUF"
    and "concat ps = c_out c'" "list_all (\<lambda>p. p \<noteq> []) ps"
    and "cn_resolves net" "cn_connects net" "cn_recv net = map Chunk ps @ [Chunk []]"
    and "send_all (c_copy 1024 (cli_request_text method path host json)) (cn_send net) = (sent, True)"
  shows "cli_http_request (Some host) method (Some path) json net =
    (0, \<lparr>re_status = status, re_body = Some body, re_body_len = length body\<rparr>, [], sent)"
proof -
  have "length body \<le> length (c_out c')"
    using assms(1) by (auto simp: http_reply_def Let_def split: if_splits)
  then have "concat ps = take (length (c_out c') - length body + length body) (c_out c')" using assms(8) by simp
  from cli_reads [OF assms(1-7) this assms(9) _ assms(10-13)] show ?thesis by (simp add: stream_end_def)
qed

text \<open>
  The declared length of a reply does not count for the command line: when the connection times out
  or breaks inside the body, the part that had arrived is returned as a success.
\<close>

theorem cli_partial_reply_accepted:
  assumes "http_reply c status (http_reason status) body fc location etag = Some c'" "value_ok location" "value_ok etag"
    and "c_minor c = 0 \<or> c_minor c = 1" "0 \<le> status" "status < 1000"
    and "length (c_out c') - length body < CLI_HDR_BUF" "k < length body"
    and "concat ps = take (length (c_out c') - length body + k) (c_out c')" "list_all (\<lambda>p. p \<noteq> []) ps"
    and "cn_resolves net" "cn_connects net" "cn_recv net = map Chunk ps @ [broken]" "broken \<in> {Rd_again, Rd_fail}"
    and "send_all (c_copy 1024 (cli_request_text method path host json)) (cn_send net) = (sent, True)"
  shows "cli_http_request (Some host) method (Some path) json net =
    (0, \<lparr>re_status = status, re_body = Some (take k body), re_body_len = k\<rparr>, [], sent)"
proof -
  have "stream_end [broken]" using assms(14) by (auto simp: stream_end_def)
  from cli_reads [OF assms(1-7,9,10) this assms(11-13,15)] show ?thesis using assms(8) by simp
qed

definition overlong_reply :: string where
  "overlong_reply = http_lines [''HTTP/1.1 200 OK'', ''Content-Length: 18446744073709551615'']"

text \<open>
  A server can make the terminal client read beyond what it received: a reply whose declared length
  is the greatest 64-bit number, complete with its headers, has undefined behaviour, because the sum
  of the two lengths wraps around.
\<close>

theorem tui_overlong_length_overreads:
  assumes "in_flight t cli" "hc_in cli = []" "piece_env t e overlong_reply"
  shows "mf_http_cli_pump cli e = None"
proof -
  have ok: "list_all line_ok [''HTTP/1.1 200 OK'', ''Content-Length: 18446744073709551615'']"
    by (simp add: line_ok_def cr_def)
  have len: "length overlong_reply = 57" by (simp add: overlong_reply_def crlf_def)
  then have room: "length (hc_in cli) + length overlong_reply < CLI_IN_CAP" using assms(2) by (simp add: CLI_IN_CAP_def)
  obtain s where p: "mf_http_cli_pump cli e =
      (let c' = cli\<lparr>hc_req_since := s, hc_in := hc_in cli @ overlong_reply\<rparr> in
       case parse_complete c' of Incomplete \<Rightarrow> Some c' | Overread \<Rightarrow> None
       | Complete c \<Rightarrow> Some (c\<lparr>hc_last_fresh := pe_now e, hc_stale := False, hc_want_read := True, hc_want_write := False\<rparr>))"
    using pump_piece [OF assms(1,3) room] by blast
  have plain: "c_text overlong_reply = overlong_reply"
    using c_text_http_lines [OF ok, of "[]"] by (simp add: overlong_reply_def c_text_def)
  have blank: "strstr_pos blank_line overlong_reply = Some 53"
    using http_lines_blank [OF _ ok, of "[]"] len by (simp add: overlong_reply_def)
  have "strstr_pos ''Content-Length:'' overlong_reply = Some 17" by (simp add: overlong_reply_def crlf_def)
  moreover have "strtoul10 (drop 32 overlong_reply) = 2 ^ 64 - 1"
    by (simp add: overlong_reply_def crlf_def strtoul10_def is_space_def is_digit_def digits_val_def dec_val_def Let_def)
  ultimately have "declared_length overlong_reply 53 = 2 ^ 64 - 1" by (simp add: declared_length_def)
  then have "parse_complete (cli\<lparr>hc_req_since := s, hc_in := hc_in cli @ overlong_reply\<rparr>) = Overread"
    using assms(2) blank plain len by (simp add: parse_complete_def Let_def CLI_IN_CAP_def)
  then show ?thesis by (simp add: p Let_def)
qed

theorem tui_overlong_length_overreads_witness: "mf_http_cli_pump sample_cli (sample_pump 1 overlong_reply) = None"
proof (rule tui_overlong_length_overreads)
  show "in_flight 1 sample_cli" "hc_in sample_cli = []"
    by (simp_all add: in_flight_def sample_cli_def mf_http_cli_init_def set_status_def)
  show "piece_env 1 (sample_pump 1 overlong_reply) overlong_reply"
    by (simp add: piece_env_def sample_pump_def INFLIGHT_TMO_S_def overlong_reply_def)
qed

definition sample_net :: "sock_read list \<Rightarrow> cli_net" where
  "sample_net es = \<lparr>cn_resolves = True, cn_connects = True, cn_send = [Accepts 1000], cn_recv = es\<rparr>"

abbreviation sample_conn :: http_conn where
  "sample_conn \<equiv> the (http_reply (conn_zero\<lparr>c_minor := 1\<rparr>) 200 (http_reason 200) ''{}'' False None (Some ''7''))"

lemma sample_reply_ok:
  "http_reply (conn_zero\<lparr>c_minor := 1\<rparr>) 200 (http_reason 200) ''{}'' False None (Some ''7'') = Some sample_conn"
  "length (c_out sample_conn) - length ''{}'' < CLI_HDR_BUF" "30 < length (c_out sample_conn)"
  by (simp_all add: http_reply_def conn_zero_def reply_head_def crlf_def http_reason_def MF_HTTP_OUT_CAP_def dec_int_def
      nat_digits.simps CLI_HDR_BUF_def)

lemma sample_sent:
  "send_all (c_copy 1024 (cli_request_text None ''/'' ''pi'' None)) (cn_send (sample_net es)) =
     (cli_request_text None ''/'' ''pi'' None, True)"
  by (simp add: sample_net_def cli_request_text_def crlf_def send_all.simps)

theorem cli_reply_read_back_witness:
  "fst (snd (cli_http_request (Some ''pi'') None (Some ''/'') None
     (sample_net [Chunk (take 30 sample_reply), Chunk (drop 30 sample_reply), Chunk []]))) =
   \<lparr>re_status = 200, re_body = Some ''{}'', re_body_len = 2\<rparr>"
proof -
  let ?ps = "[take 30 sample_reply, drop 30 sample_reply]"
  have "list_all (\<lambda>p. p \<noteq> []) ?ps" using sample_reply_ok(3) by (auto simp: sample_reply_def)
  moreover have "value_ok None" "value_ok (Some ''7'')" by (simp_all add: value_ok_def cr_def)
  ultimately show ?thesis
    using cli_reply_read_back [OF sample_reply_ok(1) _ _ _ _ _ sample_reply_ok(2), of ?ps "sample_net (map Chunk ?ps @ [Chunk []])"]
      sample_sent
    by (simp add: sample_net_def sample_reply_def)
qed

theorem cli_partial_reply_accepted_witness:
  "fst (snd (cli_http_request (Some ''pi'') None (Some ''/'') None
     (sample_net [Chunk (take (length (c_out sample_conn) - 1) (c_out sample_conn)), Rd_again]))) =
   \<lparr>re_status = 200, re_body = Some ''{'', re_body_len = 1\<rparr>"
proof -
  let ?p = "take (length (c_out sample_conn) - 1) (c_out sample_conn)"
  have "list_all (\<lambda>p. p \<noteq> []) [?p]" using sample_reply_ok(3) by auto
  moreover have "value_ok None" "value_ok (Some ''7'')" by (simp_all add: value_ok_def cr_def)
  moreover have "concat [?p] = take (length (c_out sample_conn) - length ''{}'' + 1) (c_out sample_conn)"
  proof -
    have "length (c_out sample_conn) - length ''{}'' + 1 = length (c_out sample_conn) - 1"
      using sample_reply_ok(3) by simp
    then show ?thesis by (simp only: concat.simps append_Nil2)
  qed
  ultimately show ?thesis
    using cli_partial_reply_accepted [OF sample_reply_ok(1) _ _ _ _ _ sample_reply_ok(2), of 1 "[?p]" "sample_net [Chunk ?p, Rd_again]" Rd_again]
      sample_sent
    by (simp add: sample_net_def)
qed

end
