(* ===== verification/HttpServe.thy ===== *)
theory HttpServe
  imports HttpSafety HttpExchange
begin

section \<open>Requests are served\<close>

text \<open>
  What happens to a request that arrives on a fresh connection in pieces, over any number of turns: as
  long as it is not complete the connection waits and the REST layer is not called; with its last
  byte it is called once, with exactly that request, and the reply is ready to be sent. Two cases in
  which this does not happen are shown as well: a second request that is already in the buffer, and
  a request that the command line has cut.
\<close>

subsection \<open>What is relied on in the parser\<close>

text \<open>
  \<open>head\<close> is a complete request head: no shorter part of it is taken for complete or wrong, and with it in
  the buffer the parser reports its length and its fields.
\<close>

definition head_of :: "(string \<Rightarrow> nat \<Rightarrow> phr_result) \<Rightarrow> string \<Rightarrow> string \<Rightarrow> string \<Rightarrow> int \<Rightarrow> phr_header list \<Rightarrow> bool" where
  "head_of phr head m p v hs \<longleftrightarrow>
     0 < length head \<and> length head \<le> MF_HTTP_HDR_CAP \<and>
     (\<forall>xs l. l < length head \<longrightarrow> phr (head @ xs) l = Phr_request (length head) m p v hs) \<and>
     (\<forall>xs ys l. head = xs @ ys \<longrightarrow> ys \<noteq> [] \<longrightarrow> l \<le> length xs \<longrightarrow> phr xs l = Phr_partial)"

subsection \<open>Waiting\<close>

lemma scan_headers_frame_in:
  "scan_headers hs (c\<lparr>c_in := x, c_last_len := l, c_last_progress := t\<rparr>) =
     (fst (scan_headers hs c)\<lparr>c_in := x, c_last_len := l, c_last_progress := t\<rparr>, snd (scan_headers hs c))"
proof (induction hs arbitrary: c)
  case (Cons h hs)
  have len: "scan_headers hs (c\<lparr>c_in := x, c_last_len := l, c_last_progress := t, c_content_length := n\<rparr>) =
      (fst (scan_headers hs (c\<lparr>c_content_length := n\<rparr>))\<lparr>c_in := x, c_last_len := l, c_last_progress := t\<rparr>,
       snd (scan_headers hs (c\<lparr>c_content_length := n\<rparr>)))" for n
  proof -
    have "c\<lparr>c_in := x, c_last_len := l, c_last_progress := t, c_content_length := n\<rparr> =
        c\<lparr>c_content_length := n, c_in := x, c_last_len := l, c_last_progress := t\<rparr>" by (cases c) simp
    then show ?thesis using Cons.IH [of "c\<lparr>c_content_length := n\<rparr>"] by (simp only:)
  qed
  have close: "scan_headers hs (c\<lparr>c_in := x, c_last_len := l, c_last_progress := t, c_req_close := b\<rparr>) =
      (fst (scan_headers hs (c\<lparr>c_req_close := b\<rparr>))\<lparr>c_in := x, c_last_len := l, c_last_progress := t\<rparr>,
       snd (scan_headers hs (c\<lparr>c_req_close := b\<rparr>)))" for b
  proof -
    have "c\<lparr>c_in := x, c_last_len := l, c_last_progress := t, c_req_close := b\<rparr> =
        c\<lparr>c_req_close := b, c_in := x, c_last_len := l, c_last_progress := t\<rparr>" by (cases c) simp
    then show ?thesis using Cons.IH [of "c\<lparr>c_req_close := b\<rparr>"] by (simp only:)
  qed
  have mat: "scan_headers hs (c\<lparr>c_in := x, c_last_len := l, c_last_progress := t, c_if_match := s\<rparr>) =
      (fst (scan_headers hs (c\<lparr>c_if_match := s\<rparr>))\<lparr>c_in := x, c_last_len := l, c_last_progress := t\<rparr>,
       snd (scan_headers hs (c\<lparr>c_if_match := s\<rparr>)))" for s
  proof -
    have "c\<lparr>c_in := x, c_last_len := l, c_last_progress := t, c_if_match := s\<rparr> =
        c\<lparr>c_if_match := s, c_in := x, c_last_len := l, c_last_progress := t\<rparr>" by (cases c) simp
    then show ?thesis using Cons.IH [of "c\<lparr>c_if_match := s\<rparr>"] by (simp only:)
  qed
  show ?case by (simp add: Cons.IH len close mat split: option.split)
qed simp

lemma start_request_in:
  "start_request (c\<lparr>c_in := x, c_last_len := l, c_last_progress := t\<rparr>) n m p v =
     (start_request c n m p v)\<lparr>c_in := x, c_last_len := l, c_last_progress := t\<rparr>"
  by (simp add: start_request_def split_query_def)

definition received :: "http_conn \<Rightarrow> string \<Rightarrow> nat \<Rightarrow> cdouble \<Rightarrow> http_conn" where
  "received c x l t = c\<lparr>c_in := x, c_last_len := l, c_last_progress := t\<rparr>"

lemma received_simps [simp]:
  "c_in (received c x l t) = x" "c_last_len (received c x l t) = l" "c_last_progress (received c x l t) = t"
  "c_state (received c x l t) = c_state c" "c_path (received c x l t) = c_path c"
  "c_method (received c x l t) = c_method c" "body_end (received c x l t) = body_end c"
  "c_content_length (received c x l t) = c_content_length c" "c_header_len (received c x l t) = c_header_len c"
  "(received c x l t)\<lparr>c_in := y, c_last_progress := s\<rparr> = received c y l s"
  "(received c x l t)\<lparr>c_last_len := k\<rparr> = received c x k t"
  "(received c x l t)\<lparr>c_state := st\<rparr> = received (c\<lparr>c_state := st\<rparr>) x l t"
  by (simp_all add: received_def body_end_def)

text \<open>
  The connection \<open>c\<close> after the part \<open>x\<close> of a request with the head \<open>head\<close>, whose fields are those of \<open>c1\<close>.
\<close>

definition waits_after :: "http_conn \<Rightarrow> http_conn \<Rightarrow> string \<Rightarrow> cdouble \<Rightarrow> string \<Rightarrow> http_conn \<Rightarrow> bool" where
  "waits_after c c1 head t0 x c' \<longleftrightarrow>
     (\<exists>l t. t0 \<le> t \<and> l \<le> length x \<and>
        c' = (if length x < length head then received c x l t else received (c1\<lparr>c_state := HTTP_RECV_BODY\<rparr>) x l t))"

lemma parse_head_part:
  assumes "head_of (he_phr he) head m p v hs" "head = x @ z" "z \<noteq> []" "l \<le> length x"
  shows "parse_headers he (received c x l t) io w = (False, received c x l t, io, w)"
proof -
  have "length x < MF_HTTP_HDR_CAP" using assms(1-3) by (cases z) (auto simp: head_of_def)
  then show ?thesis using assms by (auto simp: parse_headers_def head_of_def)
qed

lemma parse_head:
  assumes "head_of (he_phr he) head m p v hs" "l < length head"
    and "scan_headers hs (start_request c (length head) m p v) = (c1, None)"
  shows "parse_headers he (received c (head @ y) l t) io w =
    (if c_content_length c1 = 0
     then let (c', io', w') = handle_request he (received c1 (head @ y) l t) io w in (True, c', io', w')
     else (True, received (c1\<lparr>c_state := HTTP_RECV_BODY\<rparr>) (head @ y) l t, io, w))"
proof -
  have "take MF_HTTP_HDR_CAP (head @ y) = head @ take (MF_HTTP_HDR_CAP - length head) y"
    using assms(1) by (simp add: head_of_def)
  then have "he_phr he (take MF_HTTP_HDR_CAP (head @ y)) l = Phr_request (length head) m p v hs"
    using assms(1,2) by (simp add: head_of_def)
  moreover have "scan_headers hs (start_request (received c (head @ y) l t) (length head) m p v) = (received c1 (head @ y) l t, None)"
    using assms(3) by (simp add: received_def start_request_in scan_headers_frame_in)
  ultimately show ?thesis by (simp add: parse_headers_def)
qed

subsection \<open>The reply\<close>

definition reply_of :: "http_conn \<Rightarrow> rest_response \<Rightarrow> http_conn option" where
  "reply_of c r = http_reply c (rp_status r) (http_reason (rp_status r)) (rp_body r) False
     (text_opt (rp_location r)) (text_opt (rp_etag r))"

definition replied :: "http_conn \<Rightarrow> rest_response \<Rightarrow> http_conn \<Rightarrow> bool" where
  "replied c r c' \<longleftrightarrow>
     (\<exists>ca. reply_of c r = Some ca \<and> c_state c' = HTTP_SEND \<and> c_out c' = c_out ca \<and> c_out_off c' = 0 \<and>
        c_close_after c' = c_close_after ca)"

text \<open>
  The request is complete: its fields are those of \<open>c\<close>, it is not for the health route, which the
  server answers itself, and the REST layer has a reply for it that fits.
\<close>

definition rest_replies :: "'w http_env \<Rightarrow> http_conn \<Rightarrow> string \<Rightarrow> 'w \<Rightarrow> rest_response \<Rightarrow> 'w \<Rightarrow> bool" where
  "rest_replies he c request w r w1 \<longleftrightarrow>
     c_path c \<noteq> ''/api/v1/health'' \<and> he_rest he (request_of (c\<lparr>c_in := request\<rparr>)) w = (Some r, w1) \<and> 0 < rp_status r \<and>
     reply_of c r \<noteq> None"

lemma request_of_received: "request_of (received (c\<lparr>c_state := st\<rparr>) x l t) = request_of (c\<lparr>c_in := x\<rparr>)"
  by (simp add: request_of_def received_def)

lemma reply_of_received:
  "reply_of c r \<noteq> None \<Longrightarrow> \<exists>c'. reply_of (received (c\<lparr>c_state := st\<rparr>) x l t) r = Some c' \<and> replied c r c'"
  by (auto simp: reply_of_def http_reply_def received_def replied_def Let_def split: if_splits)

lemma handle_replies:
  assumes "rest_replies he c x w r w1"
  shows "\<exists>c'. handle_request he (received (c\<lparr>c_state := st\<rparr>) x l t) io w = (c', io, w1) \<and> replied c r c'"
proof -
  obtain c' where c': "reply_of (received (c\<lparr>c_state := st\<rparr>) x l t) r = Some c'" "replied c r c'"
    using reply_of_received assms unfolding rest_replies_def by blast
  then show ?thesis
    using assms by (auto simp: handle_request_def rest_replies_def request_of_received reply_of_def reply_or_close_def)
qed

lemma replied_last_len: "replied c r c' \<Longrightarrow> replied c r (c'\<lparr>c_last_len := l\<rparr>)"
  by (simp add: replied_def)

lemma replied_state: "replied c r c' \<Longrightarrow> c_state c' = HTTP_SEND"
  by (auto simp: replied_def)

subsection \<open>Receiving in pieces\<close>

text \<open>A request: its head, its body, and what the server made of the head.\<close>

definition request_parts :: "'w http_env \<Rightarrow> http_conn \<Rightarrow> http_conn \<Rightarrow> string \<Rightarrow> string \<Rightarrow> bool" where
  "request_parts he c c1 head body \<longleftrightarrow>
     (\<exists>m p v hs. head_of (he_phr he) head m p v hs \<and> scan_headers hs (start_request c (length head) m p v) = (c1, None)) \<and>
     c_state c = HTTP_RECV_HEADERS \<and> c_content_length c1 = length body \<and> length body \<le> MF_HTTP_BODY_CAP"

lemma request_parts_facts:
  assumes "request_parts he c c1 head body"
  shows "length head \<le> MF_HTTP_HDR_CAP" "0 < length head" "c_header_len c1 = length head" "c_content_length c1 = length body"
    "c_state c = HTTP_RECV_HEADERS" "c_state c1 = HTTP_RECV_HEADERS" "length body \<le> MF_HTTP_BODY_CAP"
    "body_end c1 = length (head @ body)"
proof -
  obtain m p v hs where p: "head_of (he_phr he) head m p v hs" "scan_headers hs (start_request c (length head) m p v) = (c1, None)"
    using assms by (auto simp: request_parts_def)
  show "length head \<le> MF_HTTP_HDR_CAP" "0 < length head" using p(1) by (auto simp: head_of_def)
  show h: "c_header_len c1 = length head" and "c_state c = HTTP_RECV_HEADERS" "c_state c1 = HTTP_RECV_HEADERS"
    using scan_headers_frame [OF p(2)] assms by (auto simp: request_parts_def start_request_fields)
  show n: "c_content_length c1 = length body" and "length body \<le> MF_HTTP_BODY_CAP" using assms by (auto simp: request_parts_def)
  show "body_end c1 = length (head @ body)" using h n by (simp add: body_end_def)
qed

text \<open>Some room is left while the request is not complete, and the script gives the next bytes.\<close>

lemma waits_room:
  assumes "request_parts he c c1 head body" "waits_after c c1 head t0 x c'" "length x < length (head @ body)"
  shows "0 < recv_room c' \<and> \<not> (c_state c' \<noteq> HTTP_RECV_HEADERS \<and> body_end c' \<le> length (c_in c')) \<and> c_in c' = x \<and>
    (c_state c' = HTTP_RECV_HEADERS \<longleftrightarrow> length x < length head) \<and> (length head \<le> length x \<longrightarrow> recv_room c' = length (head @ body) - length x)"
proof -
  note f = request_parts_facts [OF assms(1)]
  have "body_end (c1\<lparr>c_state := HTTP_RECV_BODY\<rparr>) = length (head @ body)" using f(8) by (simp add: body_end_def)
  moreover obtain l t where "c' = (if length x < length head then received c x l t
      else received (c1\<lparr>c_state := HTTP_RECV_BODY\<rparr>) x l t)"
    using assms(2) by (auto simp: waits_after_def)
  ultimately show ?thesis
    using assms(3) f by (cases "length x < length head") (auto simp: recv_room_def MF_HTTP_IN_CAP_def Let_def)
qed

lemma next_bytes:
  assumes "list_all (\<lambda>p. p \<noteq> []) (p # ps)" "0 < room"
  obtains bs ps' where "read_some room (map Chunk (p # ps)) = (Got bs, map Chunk ps')" "bs \<noteq> []" "length bs \<le> room"
    "list_all (\<lambda>p. p \<noteq> []) ps'" "concat (p # ps) = bs @ concat ps'" "ev_size (map Chunk ps') < ev_size (map Chunk (p # ps))"
proof (cases "length p \<le> room")
  case True
  then show ?thesis using assms by (intro that [of p ps]) auto
next
  case False
  then show ?thesis using assms by (intro that [of "take room p" "drop room p # ps"]) auto
qed

text \<open>The state of the connection and the world after receiving \<open>x\<close>, which the rest \<open>z\<close> still follows.\<close>

definition recv_outcome ::
  "http_conn \<Rightarrow> http_conn \<Rightarrow> string \<Rightarrow> cdouble \<Rightarrow> 'w \<Rightarrow> rest_response \<Rightarrow> 'w \<Rightarrow> string \<Rightarrow> string \<Rightarrow> http_conn \<Rightarrow> 'w \<Rightarrow> bool"
where
  "recv_outcome c c1 head t0 w r w1 x z c' w' \<longleftrightarrow>
     (if z = [] then replied c1 r c' \<and> w' = w1 else waits_after c c1 head t0 x c' \<and> w' = w)"

text \<open>The first read that reaches the end of the head, or one before it.\<close>

lemma parse_read_step:
  assumes "request_parts he c c1 head body" "waits_after c c1 head t0 x c'" "length x < length head" "bs \<noteq> []"
    and "head @ body = (x @ bs) @ z" "t0 \<le> t" "rest_replies he c1 (head @ body) w r w1"
  shows "\<exists>b c2 w2. parse_read he (c'\<lparr>c_in := x @ bs, c_last_progress := t\<rparr>) io w = (b, c2, io, w2) \<and>
    (if body = [] \<and> z = [] then replied c1 r c2 \<and> w2 = w1 else waits_after c c1 head t0 (x @ bs) c2 \<and> w2 = w)"
proof -
  note f = request_parts_facts [OF assms(1)]
  obtain m p v hs where p: "head_of (he_phr he) head m p v hs" "scan_headers hs (start_request c (length head) m p v) = (c1, None)"
    using assms(1) by (auto simp: request_parts_def)
  obtain l t' where c': "c' = received c x l t'" and l: "l \<le> length x" using assms(2,3) by (auto simp: waits_after_def)
  then have c'2: "c'\<lparr>c_in := x @ bs, c_last_progress := t\<rparr> = received c (x @ bs) l t" by simp
  from assms(5) show ?thesis
  proof (cases rule: split_part)
    case (beyond y)
    have ph: "parse_headers he (received c (x @ bs) l t) io w =
      (if c_content_length c1 = 0 then let (c', io', w') = handle_request he (received c1 (x @ bs) l t) io w in (True, c', io', w')
       else (True, received (c1\<lparr>c_state := HTTP_RECV_BODY\<rparr>) (x @ bs) l t, io, w))"
      unfolding beyond(1) using l assms(3) by (intro parse_head [OF p(1) _ p(2)]) simp
    show ?thesis
    proof (cases "body = []")
      case True
      then have z: "z = []" "x @ bs = head @ body" using beyond by auto
      have "c1\<lparr>c_state := HTTP_RECV_HEADERS\<rparr> = c1" using f(6) by simp
      then obtain c2 where c2: "handle_request he (received c1 (x @ bs) l t) io w = (c2, io, w1)" "replied c1 r c2"
        using handle_replies [OF assms(7), of HTTP_RECV_HEADERS l t io] z(2) by metis
      then show ?thesis
        using ph f(4) True z(1) unfolding parse_read_def c'2 by (auto simp: replied_last_len)
    next
      case False
      have "length (x @ bs) \<ge> length head" unfolding beyond(1) by simp
      then have "waits_after c c1 head t0 (x @ bs) (received (c1\<lparr>c_state := HTTP_RECV_BODY\<rparr>) (x @ bs) (min (length (x @ bs)) MF_HTTP_HDR_CAP) t)"
        using assms(6) unfolding waits_after_def by (intro exI [of _ "min (length (x @ bs)) MF_HTTP_HDR_CAP"] exI [of _ t]) auto
      then show ?thesis using ph f(4) False unfolding parse_read_def c'2 by auto
    qed
  next
    case (before z')
    have ph: "parse_headers he (received c (x @ bs) l t) io w = (False, received c (x @ bs) l t, io, w)"
      using l by (intro parse_head_part [OF p(1) before(2,1)]) simp
    have "waits_after c c1 head t0 (x @ bs) (received c (x @ bs) (min (length (x @ bs)) MF_HTTP_HDR_CAP) t)"
      using before(1,2) assms(6) unfolding waits_after_def
      by (intro exI [of _ "min (length (x @ bs)) MF_HTTP_HDR_CAP"] exI [of _ t]) auto
    moreover have "\<not> (body = [] \<and> z = [])" using before(1,3) by auto
    ultimately show ?thesis using ph unfolding parse_read_def c'2 by auto
  qed
qed

lemma recv_pieces:
  assumes "request_parts he c c1 head body" "rest_replies he c1 (head @ body) w r w1"
  shows "list_all (\<lambda>p. p \<noteq> []) ps \<Longrightarrow> waits_after c c1 head t0 x c' \<Longrightarrow> head @ body = x @ concat ps @ z \<Longrightarrow>
    length x < length (head @ body) \<or> body \<noteq> [] \<Longrightarrow> io_rd io = map Chunk ps \<Longrightarrow> t0 \<le> io_now io \<Longrightarrow>
    \<exists>c'' w''. conn_do_recv he c' io w = (c'', io\<lparr>io_rd := []\<rparr>, w'') \<and> recv_outcome c c1 head t0 w r w1 (x @ concat ps) z c'' w''"
proof (induction "ev_size (map Chunk ps)" arbitrary: ps x c' io rule: less_induct)
  case less
  note f = request_parts_facts [OF assms(1)]
  show ?case
  proof (cases "length x < length (head @ body)")
    case False
    have same: "length x = length (head @ body)" using False arg_cong [OF less.prems(3), of length] by simp
    moreover have "body \<noteq> []" using False less.prems(4) by blast
    ultimately have "length head < length x" by (cases body) auto
    have "length (concat ps @ z) = 0" using arg_cong [OF less.prems(3), of length] same by (simp only: length_append)
    then have x: "x = head @ body" "concat ps = []" "z = []" using less.prems(3) by (simp_all only: length_0_conv append_is_Nil_conv append_Nil2)
    then have "ps = []" using less.prems(1) by (cases ps) auto
    obtain l t where "c' = received (c1\<lparr>c_state := HTTP_RECV_BODY\<rparr>) x l t"
      using less.prems(2) \<open>length head < length x\<close> by (auto simp: waits_after_def)
    moreover have "body_end (c1\<lparr>c_state := HTTP_RECV_BODY\<rparr>) = length x" using f(8) x(1) by (simp add: body_end_def)
    ultimately have "conn_do_recv he c' io w = handle_request he c' io w"
      by (subst conn_do_recv.simps) simp
    moreover have "io\<lparr>io_rd := []\<rparr> = io" using less.prems(5) \<open>ps = []\<close> by simp
    ultimately show ?thesis
      using handle_replies [OF assms(2), of HTTP_RECV_BODY] x \<open>c' = _\<close> by (auto simp: recv_outcome_def)
  next
    case more: True
    note room = waits_room [OF assms(1) less.prems(2) more]
    show ?thesis
    proof (cases ps)
      case Nil
      then have "conn_do_recv he c' io w = (c', io\<lparr>io_rd := []\<rparr>, w)"
        using room less.prems(5) by (subst conn_do_recv.simps) auto
      moreover have "z \<noteq> []" using less.prems(3) more Nil by auto
      ultimately show ?thesis using less.prems(2) Nil by (simp add: recv_outcome_def)
    next
      case (Cons p qs)
      obtain bs ps' where rd: "read_some (recv_room c') (map Chunk (p # qs)) = (Got bs, map Chunk ps')" "bs \<noteq> []" "length bs \<le> recv_room c'"
          "list_all (\<lambda>p. p \<noteq> []) ps'" "concat (p # qs) = bs @ concat ps'" "ev_size (map Chunk ps') < ev_size (map Chunk (p # qs))"
        using next_bytes [OF less.prems(1) [unfolded Cons]] room by blast
      let ?x = "x @ bs" and ?io = "io\<lparr>io_rd := map Chunk ps'\<rparr>" and ?c = "c'\<lparr>c_in := x @ bs, c_last_progress := io_now io\<rparr>"
      have eq: "head @ body = ?x @ concat ps' @ z" using less.prems(3) rd(5) Cons by simp
      have run: "conn_do_recv he c' io w =
        (if c_state c' = HTTP_RECV_HEADERS
         then (case parse_read he ?c ?io w of (progressed, c2, io', w2) \<Rightarrow>
                 if c_state c2 = HTTP_SEND \<or> c_state c2 = HTTP_CLOSE then (c2, io', w2)
                 else conn_do_recv he c2 (io'\<lparr>io_rd := map Chunk ps'\<rparr>) w2)
         else if body_end ?c \<le> length (c_in ?c) then handle_request he ?c ?io w
         else conn_do_recv he ?c ?io w)"
        using room rd(1) less.prems(5) Cons by (subst conn_do_recv.simps) (auto simp: Let_def)
      have IH: "\<exists>c'' w''. conn_do_recv he c2 ?io w = (c'', io\<lparr>io_rd := []\<rparr>, w'') \<and>
            recv_outcome c c1 head t0 w r w1 (x @ concat ps) z c'' w''"
        if "waits_after c c1 head t0 ?x c2" "length ?x < length (head @ body) \<or> body \<noteq> []" for c2
        using less.hyps [OF rd(6) [folded Cons] rd(4) that(1) eq that(2), of ?io] less.prems(6) rd(5) Cons by simp
      show ?thesis
      proof (cases "c_state c' = HTTP_RECV_HEADERS")
        case True
        then have "length x < length head" using room by simp
        then obtain b c2 w2 where p: "parse_read he ?c ?io w = (b, c2, ?io, w2)"
            and out: "if body = [] \<and> concat ps' @ z = [] then replied c1 r c2 \<and> w2 = w1
              else waits_after c c1 head t0 ?x c2 \<and> w2 = w"
          using parse_read_step [OF assms(1) less.prems(2) _ rd(2) _ less.prems(6) assms(2), of "concat ps' @ z" ?io] eq by auto
        show ?thesis
        proof (cases "body = [] \<and> concat ps' @ z = []")
          case True
          then have "ps' = []" using rd(4) by (cases ps') auto
          then show ?thesis
            using run p out True \<open>c_state c' = HTTP_RECV_HEADERS\<close> replied_state [of c1 r c2] by (auto simp: recv_outcome_def)
        next
          case False
          then have wait: "waits_after c c1 head t0 ?x c2" "w2 = w" using out by auto
          have "c_state c2 = HTTP_RECV_HEADERS \<or> c_state c2 = HTTP_RECV_BODY"
            using wait(1) f(5) by (auto simp: waits_after_def split: if_splits)
          moreover have "length ?x < length (head @ body) \<or> body \<noteq> []"
            using False arg_cong [OF eq, of length] by (cases "concat ps' @ z") auto
          ultimately show ?thesis
            using IH [OF wait(1)] run p True wait(2) by auto
        qed
      next
        case False
        then have long: "length head \<le> length x" using room by simp
        then obtain l t where c': "c' = received (c1\<lparr>c_state := HTTP_RECV_BODY\<rparr>) x l t" "l \<le> length x"
          using less.prems(2) by (auto simp: waits_after_def)
        then have c2: "?c = received (c1\<lparr>c_state := HTTP_RECV_BODY\<rparr>) ?x l (io_now io)" by simp
        have wait: "waits_after c c1 head t0 ?x ?c"
          using long less.prems(6) c'(2) unfolding waits_after_def c2 by (intro exI [of _ l] exI [of _ "io_now io"]) auto
        have be: "body_end ?c = length (head @ body)" using f(8) unfolding c2 by (simp add: body_end_def)
        show ?thesis
        proof (cases "concat ps' @ z = []")
          case True
          then have "ps' = []" "z = []" "head @ body = ?x" using rd(4) eq by (cases ps'; auto)+
          then show ?thesis
            using run False be handle_replies [OF assms(2), of HTTP_RECV_BODY l "io_now io" ?io] rd(5) Cons
            by (auto simp: recv_outcome_def c2)
        next
          case False
          then have "length ?x < length (head @ body)" using arg_cong [OF eq, of length] by (cases "concat ps' @ z") auto
          then show ?thesis using IH [OF wait] run \<open>c_state c' \<noteq> HTTP_RECV_HEADERS\<close> be by simp
        qed
      qed
    qed
  qed
qed

subsection \<open>Turn after turn\<close>

text \<open>Turns of one connection in which the client sends pieces and takes nothing yet.\<close>

definition quiet_io :: "cdouble \<Rightarrow> string list \<Rightarrow> io" where
  "quiet_io now ps = \<lparr>io_now = now, io_rd = map Chunk ps, io_wr = [], io_sent = [], io_closed = []\<rparr>"

fun conn_turns :: "'w http_env \<Rightarrow> cdouble \<Rightarrow> http_conn \<Rightarrow> (cdouble \<times> string list) list \<Rightarrow> 'w \<Rightarrow> http_conn \<times> 'w" where
  "conn_turns he idle c [] w = (c, w)"
| "conn_turns he idle c (t # ts) w =
     (case conn_turn he False idle c (quiet_io (fst t) (snd t)) w of (c', io, w') \<Rightarrow> conn_turns he idle c' ts w')"

definition turn_in_time :: "cdouble \<Rightarrow> cdouble \<Rightarrow> cdouble \<times> string list \<Rightarrow> bool" where
  "turn_in_time t0 idle t \<longleftrightarrow> t0 \<le> fst t \<and> fst t \<le> t0 + idle \<and> list_all (\<lambda>p. p \<noteq> []) (snd t)"

definition sent_so_far :: "(cdouble \<times> string list) list \<Rightarrow> string" where
  "sent_so_far ts = concat (map (\<lambda>t. concat (snd t)) ts)"

lemma sent_so_far_simps [simp]:
  "sent_so_far [] = []" "sent_so_far (t # ts) = concat (snd t) @ sent_so_far ts"
  "sent_so_far (ts @ us) = sent_so_far ts @ sent_so_far us"
  by (simp_all add: sent_so_far_def)

lemma replied_not_empty: "replied c r c' \<Longrightarrow> \<not> length (c_out c') \<le> c_out_off c'"
  by (auto simp: replied_def reply_of_def http_reply_def Let_def reply_head_def split: if_splits)

lemma waits_state: "waits_after c c1 head t0 x c' \<Longrightarrow> c_state c = HTTP_RECV_HEADERS \<Longrightarrow>
    c_state c' = HTTP_RECV_HEADERS \<or> c_state c' = HTTP_RECV_BODY"
  by (auto simp: waits_after_def split: if_splits)

lemma turn_pieces:
  assumes "request_parts he c c1 head body" "rest_replies he c1 (head @ body) w r w1"
    and "waits_after c c1 head t0 x c'" "head @ body = x @ concat (snd t) @ z" "length x < length (head @ body)"
    and "turn_in_time t0 idle t"
  shows "\<exists>c'' io w''. conn_turn he False idle c' (quiet_io (fst t) (snd t)) w = (c'', io, w'') \<and>
    recv_outcome c c1 head t0 w r w1 (x @ concat (snd t)) z c'' w''"
proof -
  let ?io = "quiet_io (fst t) (snd t)"
  have state: "c_state c = HTTP_RECV_HEADERS" using request_parts_facts [OF assms(1)] by blast
  have "t0 \<le> c_last_progress c'" using assms(3) by (auto simp: waits_after_def split: if_splits)
  then have time: "\<not> io_now ?io - c_last_progress c' > idle" and now: "t0 \<le> io_now ?io"
    and ps: "list_all (\<lambda>p. p \<noteq> []) (snd t)" and rd: "io_rd ?io = map Chunk (snd t)"
    using assms(6) by (auto simp: turn_in_time_def quiet_io_def)
  obtain c'' w'' where run: "conn_do_recv he c' ?io w = (c'', ?io\<lparr>io_rd := []\<rparr>, w'')"
      and out: "recv_outcome c c1 head t0 w r w1 (x @ concat (snd t)) z c'' w''"
    using recv_pieces [OF assms(1,2) ps assms(3,4) _ rd now] assms(5) by blast
  have turn: "conn_turn he False idle c' ?io w =
      (if c_state c'' = HTTP_SEND then conn_do_send he c'' (?io\<lparr>io_rd := []\<rparr>) w'' else (c'', ?io\<lparr>io_rd := []\<rparr>, w''))"
    using waits_state [OF assms(3) state] time run by (auto simp: conn_turn_def)
  have "conn_do_send he c'' (?io\<lparr>io_rd := []\<rparr>) w'' = (c'', ?io\<lparr>io_rd := []\<rparr>, w'')" if "z = []"
    using that out replied_not_empty [of c1 r c''] by (simp add: recv_outcome_def conn_do_send_def send_loop.simps quiet_io_def)
  moreover have "c_state c'' \<noteq> HTTP_SEND" if "z \<noteq> []"
    using that out waits_state [of c c1 head t0 "x @ concat (snd t)" c''] state by (auto simp: recv_outcome_def)
  ultimately show ?thesis using turn out by (cases "z = []") auto
qed

lemma turns_pieces:
  assumes "request_parts he c c1 head body" "rest_replies he c1 (head @ body) w r w1"
  shows "waits_after c c1 head t0 x c' \<Longrightarrow> head @ body = x @ sent_so_far ts @ z \<Longrightarrow> length x < length (head @ body) \<Longrightarrow>
    list_all (turn_in_time t0 idle) ts \<Longrightarrow> z \<noteq> [] \<or> ts \<noteq> [] \<and> snd (last ts) \<noteq> [] \<Longrightarrow>
    \<exists>c'' w''. conn_turns he idle c' ts w = (c'', w'') \<and> recv_outcome c c1 head t0 w r w1 (x @ sent_so_far ts) z c'' w''"
proof (induction ts arbitrary: x c')
  case Nil
  then show ?case by (simp add: recv_outcome_def)
next
  case (Cons t ts)
  have eq: "head @ body = x @ concat (snd t) @ (sent_so_far ts @ z)" using Cons.prems(2) by simp
  obtain c2 io w2 where t: "conn_turn he False idle c' (quiet_io (fst t) (snd t)) w = (c2, io, w2)"
      and out: "recv_outcome c c1 head t0 w r w1 (x @ concat (snd t)) (sent_so_far ts @ z) c2 w2"
    using turn_pieces [OF assms Cons.prems(1) eq Cons.prems(3), of idle] Cons.prems(4) by auto
  show ?case
  proof (cases "sent_so_far ts @ z = []")
    case True
    have "ts = []"
    proof (rule ccontr)
      assume ts: "ts \<noteq> []"
      then have "snd (last ts) \<noteq> []" "list_all (\<lambda>p. p \<noteq> []) (snd (last ts))"
        using Cons.prems(4,5) True last_in_set [OF ts] by (auto simp: list_all_iff turn_in_time_def)
      then have "concat (snd (last ts)) \<noteq> []" by (cases "snd (last ts)") auto
      then show False using True ts by (cases ts rule: rev_cases) auto
    qed
    then show ?thesis using t out True by simp
  next
    case False
    then have "waits_after c c1 head t0 (x @ concat (snd t)) c2" "w2 = w" using out by (auto simp: recv_outcome_def)
    moreover have "length (x @ concat (snd t)) < length (head @ body)"
      using False arg_cong [OF eq, of length] by (cases "sent_so_far ts @ z") auto
    moreover have "z \<noteq> [] \<or> ts \<noteq> [] \<and> snd (last ts) \<noteq> []" using Cons.prems(5) False by (cases ts) auto
    moreover have "head @ body = (x @ concat (snd t)) @ sent_so_far ts @ z" "list_all (turn_in_time t0 idle) ts"
      using Cons.prems(2,4) by simp_all
    ultimately obtain c'' w'' where "conn_turns he idle c2 ts w = (c'', w'')"
        "recv_outcome c c1 head t0 w r w1 ((x @ concat (snd t)) @ sent_so_far ts) z c'' w''"
      using Cons.IH by metis
    then show ?thesis using t \<open>w2 = w\<close> by simp
  qed
qed

lemma fresh_waits:
  assumes "c_in c = []" "c_last_len c = 0" "request_parts he c c1 head body" "t0 \<le> c_last_progress c"
  shows "waits_after c c1 head t0 [] c"
proof -
  have "c = received c [] 0 (c_last_progress c)" using assms(1,2) by (cases c) (simp add: received_def)
  then show ?thesis
    using assms(4) request_parts_facts(2) [OF assms(3)] unfolding waits_after_def
    by (intro exI [of _ 0] exI [of _ "c_last_progress c"]) simp
qed

text \<open>
  C7: A request is served: however the bytes of one complete request are cut into pieces and spread over
  turns, with the last of them the REST layer has been called once, with exactly that request (its
  body byte for byte), and its reply is ready to be sent; before, it was not called at all.
\<close>

theorem http_request_served:
  assumes "request_parts he c c1 head body" "rest_replies he c1 (head @ body) w r w1"
    and "c_in c = []" "c_last_len c = 0" "t0 \<le> c_last_progress c"
    and "sent_so_far ts = head @ body" "list_all (turn_in_time t0 idle) ts" "ts \<noteq> []" "snd (last ts) \<noteq> []"
  shows "(\<exists>c'. conn_turns he idle c ts w = (c', w1) \<and> replied c1 r c') \<and>
    rq_body (request_of (c1\<lparr>c_in := head @ body\<rparr>)) = text_opt body \<and>
    (\<forall>us vs. ts = us @ vs \<and> concat (map (concat \<circ> snd) vs) \<noteq> [] \<longrightarrow> snd (conn_turns he idle c us w) = w)"
proof (intro conjI allI impI)
  note f = request_parts_facts [OF assms(1)]
  note start = fresh_waits [OF assms(3,4,1,5)]
  have len: "length ([] :: string) < length (head @ body)" using f(2) by simp
  show "\<exists>c'. conn_turns he idle c ts w = (c', w1) \<and> replied c1 r c'"
    using turns_pieces [OF assms(1,2) start _ len assms(7), of "[]"] assms(6,8,9) by (auto simp: recv_outcome_def)
  show "rq_body (request_of (c1\<lparr>c_in := head @ body\<rparr>)) = text_opt body"
    using f(3,4) by (auto simp: request_of_def text_opt_def)
  fix us vs assume v: "ts = us @ vs \<and> concat (map (concat \<circ> snd) vs) \<noteq> []"
  then have "sent_so_far vs \<noteq> []" by (simp add: sent_so_far_def comp_def)
  moreover have "head @ body = [] @ sent_so_far us @ sent_so_far vs" "list_all (turn_in_time t0 idle) us"
    using assms(6,7) v by simp_all
  ultimately show "snd (conn_turns he idle c us w) = w"
    using turns_pieces [OF assms(1,2) start _ len, of us "sent_so_far vs" idle] by (auto simp: recv_outcome_def)
qed

subsection \<open>Requests that are not served\<close>

definition idle_turn :: "http_conn \<Rightarrow> cdouble \<Rightarrow> cdouble \<times> string list \<Rightarrow> bool" where
  "idle_turn c idle t \<longleftrightarrow> snd t = [] \<and> fst t \<le> c_last_progress c + idle"

lemma idle_turns:
  assumes "c_state c = HTTP_RECV_HEADERS" "length (c_in c) < MF_HTTP_HDR_CAP"
  shows "list_all (idle_turn c idle) ts \<Longrightarrow> conn_turns he idle c ts w = (c, w)"
proof (induction ts)
  case (Cons t ts)
  have "conn_do_recv he c (quiet_io (fst t) []) w = (c, quiet_io (fst t) [], w)"
    using assms by (subst conn_do_recv.simps) (simp add: recv_room_def quiet_io_def)
  then have "conn_turn he False idle c (quiet_io (fst t) (snd t)) w = (c, quiet_io (fst t) [], w)"
    using Cons.prems assms(1) by (simp add: conn_turn_def idle_turn_def) (simp add: quiet_io_def)
  then show ?case using Cons by simp
qed simp

lemma send_loop_all:
  assumes "c_out_off c < length (c_out c)" "length (c_out c) - c_out_off c \<le> k"
  shows "send_loop c io [Accepts k] = (Sent_all, c\<lparr>c_out_off := length (c_out c), c_last_progress := io_now io\<rparr>,
    io\<lparr>io_sent := io_sent io @ drop (c_out_off c) (c_out c), io_wr := []\<rparr>)"
  using assms by (simp add: send_loop.simps [of c io] send_loop.simps [of _ _ "[]"] Let_def)

text \<open>
  C30: A request that was sent together with the one before it is not served: once the reply has gone out
  its bytes stay in the buffer, and as long as the client sends nothing more no turn looks at them,
  whatever they are; after the idle time the connection is closed without a reply.
\<close>

theorem http_pipelined_request_stalls:
  assumes "c_state c = HTTP_SEND" "c_out_off c < length (c_out c)" "\<not> c_close_after c"
    and "c_in c = served @ request" "length served = body_end c" "request \<noteq> []" "length request < MF_HTTP_HDR_CAP"
    and "io_rd io = []" "io_wr io = [Accepts k]" "length (c_out c) - c_out_off c \<le> k" "io_now io - c_last_progress c \<le> idle"
  shows "\<exists>c' io'. conn_turn he False idle c io w = (c', io', w) \<and>
    io_sent io' = io_sent io @ drop (c_out_off c) (c_out c) \<and> c_in c' = request \<and>
    (\<forall>ts. list_all (idle_turn c' idle) ts \<longrightarrow> conn_turns he idle c' ts w = (c', w)) \<and>
    (\<forall>now > c_last_progress c' + idle. \<exists>c''. conn_turn he False idle c' (quiet_io now []) w =
        (c'', (quiet_io now [])\<lparr>io_closed := (case c_fd c of Some fd \<Rightarrow> [fd] | None \<Rightarrow> [])\<rparr>, w))"
proof -
  let ?io = "io\<lparr>io_sent := io_sent io @ drop (c_out_off c) (c_out c), io_wr := []\<rparr>"
  let ?sent = "c\<lparr>c_out_off := length (c_out c), c_last_progress := io_now io\<rparr>"
  let ?c = "conn_reset_req (?sent\<lparr>c_in := request\<rparr>)"
  have fields: "c_in ?c = request" "c_state ?c = HTTP_RECV_HEADERS" "c_last_progress ?c = io_now io" "c_fd ?c = c_fd c"
    by (simp_all add: conn_reset_req_def)
  have "drop (min (body_end ?sent) (length (c_in ?sent))) (c_in ?sent) = request"
    using assms(4,5) by (simp add: body_end_def)
  then have "conn_keep_alive_reset he ?sent ?io w = conn_do_recv he ?c ?io w"
    using assms(6) fields by (simp add: conn_keep_alive_reset_def Let_def)
  also have "\<dots> = (?c, ?io, w)"
    using assms(7,8) fields by (subst conn_do_recv.simps) (simp add: recv_room_def)
  finally have turn: "conn_turn he False idle c io w = (?c, ?io, w)"
    using assms(1,3,11) by (simp add: conn_turn_def conn_do_send_def assms(9) send_loop_all [OF assms(2,10)])
  have "conn_turns he idle ?c ts w = (?c, w)" if "list_all (idle_turn ?c idle) ts" for ts
    using idle_turns [OF _ _ that] fields assms(7) by simp
  moreover have "\<exists>c''. conn_turn he False idle ?c (quiet_io now []) w =
      (c'', (quiet_io now [])\<lparr>io_closed := (case c_fd c of Some fd \<Rightarrow> [fd] | None \<Rightarrow> [])\<rparr>, w)"
    if "now > c_last_progress ?c + idle" for now
    using that fields by (simp add: conn_turn_def conn_close_def quiet_io_def split: option.split)
  ultimately show ?thesis using turn fields(1) by (intro exI [of _ ?c] exI [of _ ?io]) auto
qed

lemma send_all_ok: "send_all msg es = (sent, True) \<Longrightarrow> sent = msg"
proof (induction es arbitrary: msg sent)
  case Nil
  then show ?case by (simp add: send_all.simps [of msg "[]"] split: if_splits)
next
  case (Cons e es)
  then show ?case
    by (auto simp: send_all.simps [of msg "e # es"] split: if_splits sock_write.splits prod.splits dest!: Cons.IH)
qed

text \<open>
  A long request of the command line is never answered: when the text of the request has 1024 bytes
  or more, its JSON body is sent cut off under its full length, and the server, which would answer the
  whole request, waits for the rest until the connection is idle; the REST layer is not called.
\<close>

theorem cli_long_request_unanswered:
  assumes "cli_request_text method path host (Some json) = head @ json" "1024 \<le> length (head @ json)"
    and "send_all (c_copy 1024 (head @ json)) es = (sent, True)" "sent = sent_so_far ts"
    and "request_parts he c c1 head json" "rest_replies he c1 (head @ json) w r w1" "length head < 1024"
    and "c_in c = []" "c_last_len c = 0" "t0 \<le> c_last_progress c" "list_all (turn_in_time t0 idle) ts"
  shows "\<exists>c'. conn_turns he idle c ts w = (c', w) \<and> c_state c' = HTTP_RECV_BODY \<and> c_in c' = take 1023 (head @ json)"
proof -
  note f = request_parts_facts [OF assms(5)]
  have sent: "sent_so_far ts = take 1023 (head @ json)"
    using send_all_ok [OF assms(3)] assms(4) by (simp add: c_copy_def)
  let ?z = "drop 1023 (head @ json)"
  have z: "?z \<noteq> []"
  proof
    assume "?z = []"
    then have "length (head @ json) \<le> 1023" by (simp only: drop_eq_Nil)
    with assms(2) show False by linarith
  qed
  have eq: "head @ json = [] @ sent_so_far ts @ ?z" unfolding sent by (simp only: append_Nil append_take_drop_id)
  have "length ([] :: string) < length (head @ json)" using f(2) by simp
  then obtain c' where c': "conn_turns he idle c ts w = (c', w)" "waits_after c c1 head t0 (sent_so_far ts) c'"
    using turns_pieces [OF assms(5,6) fresh_waits [OF assms(8,9,5,10)] eq _ assms(11)] z by (auto simp: recv_outcome_def)
  have "length head \<le> length (sent_so_far ts)" using assms(2,7) sent by simp
  then show ?thesis using c' sent by (auto simp: waits_after_def)
qed

subsection \<open>Witnesses\<close>

text \<open>A parser that knows one request head, with its method, path and headers.\<close>

definition one_head :: "string \<Rightarrow> string \<Rightarrow> string \<Rightarrow> phr_header list \<Rightarrow> string \<Rightarrow> nat \<Rightarrow> phr_result" where
  "one_head head m p hs b l =
     (if take (length head) b = head then Phr_request (length head) m p 1 hs
      else if take (length b) head = b then Phr_partial else Phr_bad)"

lemma one_head_of: "head \<noteq> [] \<Longrightarrow> length head \<le> MF_HTTP_HDR_CAP \<Longrightarrow> head_of (one_head head m p hs) head m p 1 hs"
  unfolding head_of_def one_head_def
  by (auto simp: append_eq_conv_conj)

definition post_head :: string where
  "post_head = ''POST /api/v1/reload HTTP/1.1'' @ crlf @ ''Content-Length: 2'' @ blank_line"

definition post_env :: "nat http_env" where
  "post_env = \<lparr>he_phr = one_head post_head ''POST'' ''/api/v1/reload'' [(Some ''Content-Length'', ''2'')],
     he_rest = (\<lambda>rq w. (Some \<lparr>rp_status = 200, rp_body = ''{}'', rp_location = [], rp_etag = []\<rparr>, w + 1)),
     he_version = ''1.0'', he_start_mono = 0\<rparr>"

definition post_conn :: http_conn where
  "post_conn = conn_reset_req (conn_zero\<lparr>c_in_use := True, c_fd := Some 1, c_last_progress := 10\<rparr>)"

definition post_parsed :: http_conn where
  "post_parsed = post_conn\<lparr>c_header_len := length post_head, c_method := ''POST'', c_path := ''/api/v1/reload'', c_content_length := 2\<rparr>"

abbreviation post_response :: rest_response where
  "post_response \<equiv> \<lparr>rp_status = 200, rp_body = ''{}'', rp_location = [], rp_etag = []\<rparr>"

lemma post_scan:
  "scan_headers [(Some ''Content-Length'', ''2'')] (start_request post_conn (length post_head) ''POST'' ''/api/v1/reload'' 1) = (post_parsed, None)"
  by code_simp

lemma post_head_sized: "post_head \<noteq> []" "length post_head \<le> MF_HTTP_HDR_CAP" "20 < length post_head"
  by code_simp+

lemma post_request: "request_parts post_env post_conn post_parsed post_head ''{}''"
proof -
  have "c_state post_conn = HTTP_RECV_HEADERS \<and> c_content_length post_parsed = length ''{}'' \<and> length ''{}'' \<le> MF_HTTP_BODY_CAP"
    by code_simp
  then show ?thesis
    using post_scan one_head_of [OF post_head_sized(1,2)] unfolding request_parts_def post_env_def by fastforce
qed

lemma post_rest: "rest_replies post_env post_parsed (post_head @ ''{}'') (5::nat) post_response 6"
proof -
  have "c_path post_parsed \<noteq> ''/api/v1/health'' \<and> reply_of post_parsed post_response \<noteq> None" by code_simp
  then show ?thesis by (simp add: rest_replies_def post_env_def)
qed

theorem http_request_served_witness:
  "snd (conn_turns post_env 30 post_conn [(11, [take 20 post_head]), (12, [drop 20 post_head, ''{}''])] 5) = 6"
proof -
  have "list_all (turn_in_time 10 30) [(11, [take 20 post_head]), (12, [drop 20 post_head, ''{}''])]"
    using post_head_sized(3) by (auto simp: turn_in_time_def)
  moreover have "c_in post_conn = []" "c_last_len post_conn = 0" "10 \<le> c_last_progress post_conn"
    by (simp_all add: post_conn_def conn_reset_req_def conn_zero_def)
  ultimately show ?thesis
    using http_request_served [OF post_request post_rest, of 10 "[(11, [take 20 post_head]), (12, [drop 20 post_head, ''{}''])]" 30]
    by (auto simp: sent_so_far_def)
qed

text \<open>The reply of one request goes out while the next one is already in the buffer.\<close>

definition busy_conn :: http_conn where
  "busy_conn = post_parsed\<lparr>c_state := HTTP_SEND, c_in := post_head @ ''{}'' @ post_head @ ''{}'', c_out := ''HTTP/1.1 200 OK''\<rparr>"

theorem http_pipelined_request_stalls_witness:
  "\<exists>c' io'. conn_turn post_env False 30 busy_conn \<lparr>io_now = 11, io_rd = [], io_wr = [Accepts 4096], io_sent = [], io_closed = []\<rparr> 5 = (c', io', 5) \<and>
     c_in c' = post_head @ ''{}''"
proof -
  have "c_state busy_conn = HTTP_SEND" "c_out_off busy_conn < length (c_out busy_conn)" "\<not> c_close_after busy_conn"
    "c_in busy_conn = (post_head @ ''{}'') @ (post_head @ ''{}'')" "length (post_head @ ''{}'') = body_end busy_conn"
    "length (post_head @ ''{}'') < MF_HTTP_HDR_CAP" "length (c_out busy_conn) - c_out_off busy_conn \<le> 4096"
    "11 - c_last_progress busy_conn \<le> 30"
    by code_simp+
  from http_pipelined_request_stalls [where he = post_env and w = "5 :: nat" and idle = 30 and io = "\<lparr>io_now = 11, io_rd = [], io_wr = [Accepts 4096], io_sent = [], io_closed = []\<rparr>",
      OF this(1-5) _ this(6) _ _ this(7)] this(8) post_head_sized(1)
  show ?thesis by auto
qed

text \<open>A request of the command line with 1000 bytes of JSON.\<close>

definition long_json :: string where "long_json = replicate 1000 (CHR ''1'')"

definition long_head :: string where
  "long_head = ''PUT /api/v1/config HTTP/1.1'' @ crlf @ ''Host: pi'' @ crlf @ ''Connection: close'' @ crlf @
     ''Content-Type: application/json'' @ crlf @ ''Content-Length: 1000'' @ blank_line"

definition long_env :: "nat http_env" where
  "long_env = post_env\<lparr>he_phr := one_head long_head ''PUT'' ''/api/v1/config'' [(Some ''Content-Length'', ''1000'')]\<rparr>"

definition long_parsed :: http_conn where
  "long_parsed = post_conn\<lparr>c_header_len := length long_head, c_method := ''PUT'', c_path := ''/api/v1/config'', c_content_length := 1000\<rparr>"

theorem cli_long_request_unanswered_witness:
  "snd (conn_turns long_env 30 post_conn [(11, [take 1023 (long_head @ long_json)])] 5) = 5"
proof -
  have head: "cli_request_text (Some ''PUT'') ''/api/v1/config'' ''pi'' (Some long_json) = long_head @ long_json"
    by (simp add: cli_request_text_def long_head_def long_json_def nat_digits.simps)
  have facts: "long_head \<noteq> [] \<and> length long_head = 114 \<and> length long_head \<le> MF_HTTP_HDR_CAP \<and>
      c_state post_conn = HTTP_RECV_HEADERS \<and> c_content_length long_parsed = 1000 \<and> 1000 \<le> MF_HTTP_BODY_CAP \<and>
      c_path long_parsed \<noteq> ''/api/v1/health'' \<and> reply_of long_parsed post_response \<noteq> None"
    by code_simp
  have "scan_headers [(Some ''Content-Length'', ''1000'')] (start_request post_conn (length long_head) ''PUT'' ''/api/v1/config'' 1) = (long_parsed, None)"
    by code_simp
  then have parts: "request_parts long_env post_conn long_parsed long_head long_json"
    using facts one_head_of [of long_head "''PUT''" "''/api/v1/config''" "[(Some ''Content-Length'', ''1000'')]"]
    unfolding request_parts_def long_env_def by (fastforce simp: long_json_def)
  have rest: "rest_replies long_env long_parsed (long_head @ long_json) (5::nat) post_response 6"
    using facts by (simp add: rest_replies_def long_env_def post_env_def)
  have "1024 \<le> length (long_head @ long_json)" "length long_head < 1024" using facts by (simp_all add: long_json_def)
  moreover have "send_all (c_copy 1024 (long_head @ long_json)) [Accepts 1023] = (take 1023 (long_head @ long_json), True)"
  proof -
    have "send_all (take 1023 msg) [Accepts 1023] = (take 1023 msg, True)" for msg
      by (simp add: send_all.simps [of "take 1023 msg" "[Accepts 1023]"] send_all.simps [of "[]" "[]"])
    then show ?thesis by (simp only: c_copy_def) (simp del: take_append)
  qed
  moreover have "take 1023 (long_head @ long_json) = sent_so_far [(11, [take 1023 (long_head @ long_json)])]"
    by (simp add: sent_so_far_def)
  moreover have "list_all (turn_in_time 10 30) [(11, [take 1023 (long_head @ long_json)])]"
    using facts by (simp add: turn_in_time_def)
  moreover have "c_in post_conn = []" "c_last_len post_conn = 0" "10 \<le> c_last_progress post_conn"
    by (simp_all add: post_conn_def conn_reset_req_def conn_zero_def)
  ultimately show ?thesis
    using cli_long_request_unanswered [OF head _ _ _ parts rest, of "[Accepts 1023]" "take 1023 (long_head @ long_json)"
        "[(11, [take 1023 (long_head @ long_json)])]" 10 30] by fastforce
qed

end
