(* ===== verification/JkPlugin.thy ===== *)
theory JkPlugin
  imports JkDecode PluginApi
begin

section \<open>The JK battery driver (src/plugins/battery_jk/plugin.c): connection\<close>

text \<open>
  One context per battery, a line protocol over a local socket to the Bluetooth helper of its
  adapter, and a table of helpers all the contexts share. \<open>jk_env\<close> is what lies outside a context: the
  clock (read once per call), the answers of \<open>socket\<close> and \<open>connect\<close>, of \<open>poll\<close> with \<open>SO_ERROR\<close>, of \<open>fork\<close> and
  of \<open>kill (pid, 0)\<close>, the socket scripts, the helper table, and the logs of bytes sent, helpers
  started and sockets closed. Messages to stderr are not modelled; \<open>c->frame\<close> is the frame just
  taken from the assembler and is passed as an argument.
\<close>

definition POLL_DEFAULT :: cdouble where "POLL_DEFAULT = 1"
definition POLL_MIN :: cdouble where "POLL_MIN = 1"
definition LINE_CAP :: nat where "LINE_CAP = 4096"
definition HEX_CAP :: nat where "HEX_CAP = 1024"
definition CELL_RETRY_S :: cdouble where "CELL_RETRY_S = 8"
definition CELL_STALE_S :: cdouble where "CELL_STALE_S = 15"
definition JK_GATT_BIN :: string where "JK_GATT_BIN = ''/usr/local/libexec/mf_gatt''"

definition JK_CMD_CELL_INFO :: byte where "JK_CMD_CELL_INFO = 0x96"
definition JK_CMD_DEVICE_INFO :: byte where "JK_CMD_DEVICE_INFO = 0x97"
definition JK_REG_CELL_OVP :: byte where "JK_REG_CELL_OVP = 0x04"
definition JK_REG_CELL_OVPR :: byte where "JK_REG_CELL_OVPR = 0x05"
definition JK_REG_BALANCE_TRIGGER :: byte where "JK_REG_BALANCE_TRIGGER = 0x06"
definition JK_REG_CELL_RCV :: byte where "JK_REG_CELL_RCV = 0x09"
definition JK_REG_START_BALANCE_JK02_32S :: byte where "JK_REG_START_BALANCE_JK02_32S = 0x22"
definition JK_REG_CHARGE :: byte where "JK_REG_CHARGE = 0x1D"
definition JK_REG_DISCHARGE :: byte where "JK_REG_DISCHARGE = 0x1E"
definition JK_REG_BALANCE :: byte where "JK_REG_BALANCE = 0x1F"

subsection \<open>Data\<close>

datatype jk_state = ST_IDLE | ST_CONNECTING | ST_HANDSHAKE | ST_STREAM

text \<open>The write queue holds \<open>wq_n\<close> pairs of a register and a value, \<open>jx_wq_i\<close> of them already sent.\<close>

record jk_ctx =
  jx_mac :: string
  jx_adapter :: string
  jx_name :: string
  jx_gatt_bin :: string
  jx_poll_interval_s :: xdouble
  jx_fd :: "nat option"
  jx_want_read :: bool
  jx_want_write :: bool
  jx_state :: jk_state
  jx_handshake_ok :: bool
  jx_next_try :: cdouble
  jx_in :: string
  jx_out :: string
  jx_out_off :: nat
  jx_asm :: jk_assembler
  jx_cell :: jk_cell_info
  jx_settings :: jk_settings
  jx_have_data :: bool
  jx_have_settings :: bool
  jx_want_settings :: bool
  jx_bal_want :: int
  jx_have_trigger :: bool
  jx_have_start :: bool
  jx_need_cell_req :: bool
  jx_last_cell_mono :: cdouble
  jx_last_cell_req :: cdouble
  jx_last_settings_req :: cdouble
  jx_wq :: "(byte \<times> u32) list"
  jx_wq_i :: nat
  jx_wq_next :: cdouble
  jx_trigger_v :: cdouble
  jx_start_v :: cdouble
  jx_err :: string

definition jk_ctx_zero :: jk_ctx where
  "jk_ctx_zero = \<lparr>jx_mac = [], jx_adapter = [], jx_name = [], jx_gatt_bin = [], jx_poll_interval_s = XFin 0,
     jx_fd = None, jx_want_read = False, jx_want_write = False, jx_state = ST_IDLE, jx_handshake_ok = False,
     jx_next_try = 0, jx_in = [], jx_out = [], jx_out_off = 0, jx_asm = jk_assembler_init,
     jx_cell = jk_cell_info_zero, jx_settings = jk_settings_zero, jx_have_data = False,
     jx_have_settings = False, jx_want_settings = False, jx_bal_want = 0, jx_have_trigger = False,
     jx_have_start = False, jx_need_cell_req = False, jx_last_cell_mono = 0, jx_last_cell_req = 0,
     jx_last_settings_req = 0, jx_wq = [], jx_wq_i = 0, jx_wq_next = 0, jx_trigger_v = 0, jx_start_v = 0,
     jx_err = []\<rparr>"

datatype helper_state = H_NONE | H_STARTING | H_UP | H_DEAD

definition HMAX :: nat where "HMAX = 4"

record helper_row_t =
  hr_adapter :: string
  hr_st :: helper_state
  hr_pid :: int
  hr_refcnt :: int

text \<open>\<open>g_help\<close>, as the program starts.\<close>

definition g_help_init :: "helper_row_t list" where
  "g_help_init = replicate HMAX \<lparr>hr_adapter = [], hr_st = H_NONE, hr_pid = 0, hr_refcnt = 0\<rparr>"

text \<open>An \<open>errno\<close> the driver does not tell apart carries its \<open>strerror\<close> text.\<close>

datatype conn_errno = ENOENT | ECONNREFUSED | Other_errno string

datatype unix_connect = No_socket | Conn_done nat | Conn_progress nat | Conn_failed nat conn_errno

datatype conn_poll = Not_writable | Writable "conn_errno option"

record jk_env =
  je_now :: cdouble
  je_connect :: unix_connect
  je_poll :: conn_poll
  je_fork :: "int option"
  je_gone :: bool
  je_gatt_bin :: string
  je_rd :: "sock_read list"
  je_wr :: "sock_write list"
  je_help :: "helper_row_t list"
  je_sent :: string
  je_forked :: "(string \<times> string) list"
  je_closed :: "nat list"

subsection \<open>The helper table\<close>

definition or_hci0 :: "string \<Rightarrow> string" where
  "or_hci0 ad = (if ad = [] then ''hci0'' else ad)"

text \<open>The row of an adapter, made in the first free place; \<open>None\<close> when the four rows are taken.\<close>

definition row_index :: "string \<Rightarrow> helper_row_t list \<Rightarrow> nat option" where
  "row_index ad hs = find (\<lambda>i. hr_adapter (hs ! i) \<noteq> [] \<and> hr_adapter (hs ! i) = ad) [0 ..< length hs]"

definition empty_index :: "helper_row_t list \<Rightarrow> nat option" where
  "empty_index hs = find (\<lambda>i. hr_adapter (hs ! i) = []) [0 ..< length hs]"

definition helper_row :: "string \<Rightarrow> helper_row_t list \<Rightarrow> nat option \<times> helper_row_t list" where
  "helper_row adapter hs =
     (let ad = or_hci0 adapter in
      case row_index ad hs of
        Some i \<Rightarrow> (Some i, hs)
      | None \<Rightarrow>
          (case empty_index hs of
             None \<Rightarrow> (None, hs)
           | Some k \<Rightarrow> (Some k, hs[k := \<lparr>hr_adapter = c_copy 16 ad, hr_st = H_NONE, hr_pid = -1, hr_refcnt = 0\<rparr>])))"

definition helper_needed :: "conn_errno \<Rightarrow> bool" where
  "helper_needed e \<longleftrightarrow> e = ENOENT \<or> e = ECONNREFUSED"

text \<open>The child closes everything from descriptor 3 on and runs the helper's program.\<close>

definition helper_spawn :: "jk_ctx \<Rightarrow> jk_env \<Rightarrow> jk_env" where
  "helper_spawn c e =
     (let bin = (if jx_gatt_bin c \<noteq> [] then jx_gatt_bin c else je_gatt_bin e) in
      case helper_row (jx_adapter c) (je_help e) of
        (None, hs) \<Rightarrow> e\<lparr>je_help := hs\<rparr>
      | (Some i, hs) \<Rightarrow>
          (let h = hs ! i;
               gone = (hr_st h = H_STARTING \<and> 0 < hr_pid h \<and> je_gone e);
               h = (if gone then h\<lparr>hr_st := H_NONE\<rparr> else h);
               hs = hs[i := h];
               bin = (if bin = [] then JK_GATT_BIN else bin)
           in if hr_st h = H_STARTING \<or> hr_st h = H_UP then e\<lparr>je_help := hs\<rparr>
              else case je_fork e of
                None \<Rightarrow> e\<lparr>je_help := hs\<rparr>
              | Some pid \<Rightarrow> e\<lparr>je_help := hs[i := h\<lparr>hr_pid := pid, hr_st := H_STARTING\<rparr>],
                              je_forked := je_forked e @ [(bin, hr_adapter h)]\<rparr>))"

definition helper_up :: "jk_ctx \<Rightarrow> helper_row_t list \<Rightarrow> helper_row_t list" where
  "helper_up c hs =
     (case helper_row (jx_adapter c) hs of
        (None, hs) \<Rightarrow> hs
      | (Some i, hs) \<Rightarrow> hs[i := (hs ! i)\<lparr>hr_st := H_UP, hr_refcnt := hr_refcnt (hs ! i) + 1\<rparr>])"

definition helper_dead :: "jk_ctx \<Rightarrow> helper_row_t list \<Rightarrow> helper_row_t list" where
  "helper_dead c hs =
     (case helper_row (jx_adapter c) hs of
        (None, hs) \<Rightarrow> hs
      | (Some i, hs) \<Rightarrow> if 0 < hr_refcnt (hs ! i) then hs[i := (hs ! i)\<lparr>hr_st := H_DEAD\<rparr>] else hs)"

definition helper_release :: "jk_ctx \<Rightarrow> helper_row_t list \<Rightarrow> helper_row_t list" where
  "helper_release c hs =
     (case helper_row (jx_adapter c) hs of
        (None, hs) \<Rightarrow> hs
      | (Some i, hs) \<Rightarrow>
          if hr_refcnt (hs ! i) \<le> 0 then hs
          else let h = (hs ! i)\<lparr>hr_refcnt := hr_refcnt (hs ! i) - 1\<rparr>
               in hs[i := if hr_refcnt h = 0 \<and> hr_st h = H_UP then h\<lparr>hr_st := H_NONE\<rparr> else h])"

subsection \<open>The socket\<close>

definition json_ble_scope :: "string \<Rightarrow> string" where
  "json_ble_scope js = (case json_find_key js ''ble'' of Some p \<Rightarrow> p | None \<Rightarrow> js)"

definition set_err :: "jk_ctx \<Rightarrow> string \<Rightarrow> jk_ctx" where
  "set_err c m = c\<lparr>jx_err := c_copy 96 m\<rparr>"

definition contains :: "string \<Rightarrow> string \<Rightarrow> bool" where
  "contains m needle \<longleftrightarrow> strstr_pos needle m \<noteq> None"

definition ble_drop_msg :: "string \<Rightarrow> bool" where
  "ble_drop_msg m \<longleftrightarrow>
     m \<noteq> [] \<and> (contains (lower m) ''disconnected'' \<or> contains (lower m) ''not connected'' \<or>
       contains m (''doesn'' @ [CHR 0x27] @ ''t exist'') \<or> contains m ''does not exist'' \<or>
       contains (lower m) ''unknown object'' \<or> contains (lower m) ''no such'')"

text \<open>A line that does not fit the output buffer is not sent.\<close>

definition queue_str :: "jk_ctx \<Rightarrow> string \<Rightarrow> jk_ctx" where
  "queue_str c s =
     (if LINE_CAP \<le> length (jx_out c) + length s + 1 then c
      else c\<lparr>jx_out := jx_out c @ s @ [CHR 0x0A], jx_want_write := True\<rparr>)"

definition connect_line :: "string \<Rightarrow> string" where
  "connect_line mac = c_copy 128 (''{\"cmd\":\"connect\",\"address\":\"'' @ mac @ ''\"}'')"

definition send_connect :: "jk_ctx \<Rightarrow> jk_ctx" where
  "send_connect c = queue_str c (connect_line (jx_mac c))"

definition mark_dropped :: "jk_ctx \<Rightarrow> jk_ctx" where
  "mark_dropped c =
     (let c = c\<lparr>jx_have_data := False\<rparr> in
      if \<not> jx_handshake_ok c then c
      else let c = c\<lparr>jx_handshake_ok := False, jx_need_cell_req := True\<rparr>
           in if jx_fd c \<noteq> None then send_connect c else c)"

definition close_opt_fd :: "nat option \<Rightarrow> jk_env \<Rightarrow> jk_env" where
  "close_opt_fd fd e = (case fd of Some k \<Rightarrow> e\<lparr>je_closed := je_closed e @ [k]\<rparr> | None \<Rightarrow> e)"

definition sock_close :: "jk_ctx \<Rightarrow> jk_env \<Rightarrow> jk_ctx \<times> jk_env" where
  "sock_close c e =
     (c\<lparr>jx_fd := None, jx_want_read := False, jx_want_write := False, jx_state := ST_IDLE,
        jx_handshake_ok := False, jx_have_data := False, jx_in := [], jx_out := [], jx_out_off := 0,
        jx_wq := [], jx_wq_i := 0, jx_next_try := je_now e + 1/2\<rparr>,
      close_opt_fd (jx_fd c) e)"

definition abs_addr :: "string \<Rightarrow> string option" where
  "abs_addr adapter =
     (let path = ''mf-gatt/'' @ or_hci0 adapter in if 107 \<le> length path then None else Some path)"

definition start_connect :: "jk_ctx \<Rightarrow> jk_env \<Rightarrow> bool \<times> jk_ctx \<times> jk_env" where
  "start_connect c e =
     (if abs_addr (jx_adapter c) = None then (False, set_err c ''bad adapter'', e)
      else case je_connect e of
        No_socket \<Rightarrow> (False, set_err c ''socket'', e)
      | Conn_failed fd err \<Rightarrow>
          (let e = e\<lparr>je_closed := je_closed e @ [fd]\<rparr> in
           if helper_needed err then (False, set_err c ''helper starting'', helper_spawn c e)
           else (False, set_err c (''connect: '' @ (case err of Other_errno s \<Rightarrow> s | _ \<Rightarrow> [])), e))
      | Conn_done fd \<Rightarrow>
          (True, c\<lparr>jx_fd := Some fd, jx_state := ST_HANDSHAKE, jx_want_read := False, jx_want_write := True,
                   jx_handshake_ok := False\<rparr>, e)
      | Conn_progress fd \<Rightarrow>
          (True, c\<lparr>jx_fd := Some fd, jx_state := ST_CONNECTING, jx_want_read := False, jx_want_write := True,
                   jx_handshake_ok := False\<rparr>, e))"

definition write_line :: "string \<Rightarrow> byte list \<Rightarrow> string" where
  "write_line mac cmd =
     c_copy 192 (''{\"cmd\":\"write\",\"address\":\"'' @ mac @ ''\",\"hex\":\"'' @ hex_encode cmd 48 @
       ''\",\"response\":false}'')"

definition queue_hex_write :: "jk_ctx \<Rightarrow> byte list \<Rightarrow> jk_ctx" where
  "queue_hex_write c cmd = queue_str c (write_line (jx_mac c) cmd)"

subsection \<open>Lines from the helper\<close>

text \<open>A frame of the battery. The decoder fills \<open>c->cell\<close> itself, whatever it returns.\<close>

definition on_frame :: "cdouble \<Rightarrow> jk_ctx \<Rightarrow> byte list \<Rightarrow> jk_ctx" where
  "on_frame now c f =
     (if f ! 4 = JK_FRAME_CELL_INFO
      then let (rc, cell) = jk_decode_cell_info (Some f) JK_PROTO_JK02_32S 0;
               c = c\<lparr>jx_cell := cell\<rparr>
           in if rc = JK_OK then c\<lparr>jx_have_data := True, jx_last_cell_mono := now\<rparr> else c
      else if f ! 4 = JK_FRAME_SETTINGS
      then let (rc, s) = jk_decode_settings (Some f);
               c = c\<lparr>jx_settings := s\<rparr>
           in if rc = JK_OK
              then c\<lparr>jx_have_settings := True, jx_want_settings := False, jx_bal_want := -1,
                     jx_trigger_v := js_balance_trigger_v s, jx_start_v := js_start_balance_v s,
                     jx_have_trigger := True, jx_have_start := True\<rparr>
              else c
      else c)"

definition on_line :: "cdouble \<Rightarrow> string \<Rightarrow> jk_ctx \<times> helper_row_t list \<Rightarrow> jk_ctx \<times> helper_row_t list" where
  "on_line now line st =
     (let (c, hs) = st;
          type = json_str line ''type'' 24;
          cmd = json_str line ''cmd'' 24;
          hex = json_str line ''hex'' HEX_CAP
      in if type = ''ok'' \<and> cmd = ''connect''
         then (c\<lparr>jx_handshake_ok := True, jx_need_cell_req := True, jx_state := ST_STREAM, jx_err := []\<rparr>,
               if jx_handshake_ok c then hs else helper_up c hs)
         else if type = ''error''
         then (let c = c\<lparr>jx_err := json_str line ''message'' 96\<rparr>
               in (if ble_drop_msg (jx_err c) then mark_dropped c else c, hs))
         else if type = ''notify'' \<and> jx_handshake_ok c \<and> hex \<noteq> []
         then (let raw = hex_decode hex JK_FRAME_SIZE in
               if raw = [] then (c, hs)
               else let (fs, a) = jk_collect (jx_asm c) raw
                    in (foldl (on_frame now) (c\<lparr>jx_asm := a\<rparr>) fs, hs))
         else (c, hs))"

text \<open>The C string of a line: its NUL-free beginning, without a carriage return at the end.\<close>

definition line_text :: "string \<Rightarrow> string" where
  "line_text line = c_text (if line \<noteq> [] \<and> last line = CHR 0x0D then butlast line else line)"

function drain_lines ::
  "cdouble \<Rightarrow> string \<Rightarrow> jk_ctx \<times> helper_row_t list \<Rightarrow> string \<times> jk_ctx \<times> helper_row_t list" where
  "drain_lines now buf st =
     (if CHR 0x0A \<in> set buf
      then drain_lines now (drop 1 (dropWhile (\<lambda>x. x \<noteq> CHR 0x0A) buf))
             (on_line now (line_text (takeWhile (\<lambda>x. x \<noteq> CHR 0x0A) buf)) st)
      else (buf, st))"
  by pat_completeness auto
termination
proof (relation "measure (\<lambda>(now, buf, st). length buf)")
  fix now :: cdouble and buf :: string and st :: "jk_ctx \<times> helper_row_t list"
  assume "CHR 0x0A \<in> set buf"
  then have "buf \<noteq> []" by auto
  then have "length (dropWhile (\<lambda>x. x \<noteq> CHR 0x0A) buf) - 1 < length buf"
    using length_dropWhile_le [of "\<lambda>x. x \<noteq> CHR 0x0A" buf] by (cases buf) auto
  then show "((now, drop 1 (dropWhile (\<lambda>x. x \<noteq> CHR 0x0A) buf),
      on_line now (line_text (takeWhile (\<lambda>x. x \<noteq> CHR 0x0A) buf)) st), now, buf, st)
    \<in> measure (\<lambda>(now, buf, st). length buf)" by simp
qed simp

declare drain_lines.simps [simp del]

text \<open>The reads of one turn. An over-long line empties the buffer.\<close>

function drain_in :: "jk_ctx \<Rightarrow> jk_env \<Rightarrow> jk_ctx \<times> jk_env" where
  "drain_in c e =
     (let held = (if LINE_CAP \<le> length (jx_in c) + 1 then [] else jx_in c) in
      case read_some (LINE_CAP - 1 - length held) (je_rd e) of
        (Again, es) \<Rightarrow> (c\<lparr>jx_in := held\<rparr>, e\<lparr>je_rd := es\<rparr>)
      | (Failed, es) \<Rightarrow>
          (let (c, e) = sock_close c (e\<lparr>je_rd := es\<rparr>) in (set_err c ''read'', e))
      | (Eof, es) \<Rightarrow>
          (let hs = (if jx_handshake_ok c then helper_dead c (je_help e) else je_help e);
               (c, e) = sock_close c (e\<lparr>je_rd := es, je_help := hs\<rparr>)
           in (set_err c ''helper closed'', e))
      | (Got bs, es) \<Rightarrow>
          (case drain_lines (je_now e) (held @ bs) (c, je_help e) of
             (rest, c', hs) \<Rightarrow> drain_in (c'\<lparr>jx_in := rest\<rparr>) (e\<lparr>je_rd := es, je_help := hs\<rparr>)))"
  by pat_completeness auto
termination
  by (relation "measure (\<lambda>(c, e). ev_size (je_rd e))")
    (auto simp: LINE_CAP_def dest!: read_some_progress [OF sym] split: if_splits)

declare drain_in.simps [simp del]

text \<open>The writes of one turn: whether none failed, how much was taken, the events left.\<close>

fun write_all :: "sock_write list \<Rightarrow> nat \<Rightarrow> bool \<times> nat \<times> sock_write list" where
  "write_all es 0 = (True, 0, es)"
| "write_all [] (Suc n) = (True, 0, [])"
| "write_all (Wr_again # es) (Suc n) = (True, 0, es)"
| "write_all (Wr_fail # es) (Suc n) = (False, 0, es)"
| "write_all (Accepts k # es) (Suc n) =
     (let j = min k (Suc n); (ok, m, es') = write_all es (Suc n - j) in (ok, j + m, es'))"

definition flush_out :: "jk_ctx \<Rightarrow> jk_env \<Rightarrow> jk_ctx \<times> jk_env" where
  "flush_out c e =
     (let todo = drop (jx_out_off c) (jx_out c);
          (ok, n, es) = write_all (je_wr e) (length todo);
          e = e\<lparr>je_wr := es, je_sent := je_sent e @ take n todo\<rparr>
      in if \<not> ok then sock_close (c\<lparr>jx_out_off := jx_out_off c + n\<rparr>) e
         else if n < length todo then (c\<lparr>jx_out_off := jx_out_off c + n\<rparr>, e)
         else (c\<lparr>jx_out := [], jx_out_off := 0\<rparr>, e))"

end
