(* ===== verification/JkDriver.thy ===== *)
theory JkDriver
  imports JkPlugin
begin

section \<open>The JK battery driver: the plugin's operations\<close>

text \<open>
  The step of a context with the requests it paces, opening and closing, readings and settings as
  text, and the settings and actions that write registers. A printed text that its buffer cuts is
  \<open>c_copy\<close> of the whole. The error buffer of \<open>put_settings\<close> and \<open>action\<close> is the caller's, so their message
  is uncut here. A null context or document pointer is not modelled.
\<close>

subsection \<open>The step\<close>

text \<open>
  What one turn asks of the battery: the next paced register write, else the first requests of a
  connection, else a retry.
\<close>

definition pump_requests :: "cdouble \<Rightarrow> jk_ctx \<Rightarrow> jk_ctx" where
  "pump_requests now c =
     (if jx_wq_i c < length (jx_wq c) \<and> jx_wq_next c \<le> now
      then let (reg, v) = jx_wq c ! jx_wq_i c;
               c = queue_hex_write c (jk_build_register_cmd reg v);
               c = c\<lparr>jx_wq_i := jx_wq_i c + 1, jx_wq_next := now + 35/100\<rparr>
           in if length (jx_wq c) \<le> jx_wq_i c
              then c\<lparr>jx_wq := [], jx_wq_i := 0, jx_want_settings := True, jx_last_settings_req := now\<rparr> else c
      else if jx_wq c \<noteq> [] then c
      else if jx_need_cell_req c
      then let c = queue_hex_write c (jk_build_command JK_CMD_DEVICE_INFO None 0);
               c = queue_hex_write c (jk_build_command JK_CMD_CELL_INFO None 0)
           in c\<lparr>jx_need_cell_req := False, jx_last_cell_req := now, jx_last_settings_req := now\<rparr>
      else if (\<not> jx_have_settings c \<or> jx_want_settings c) \<and> 3/2 < now - jx_last_settings_req c
      then (queue_hex_write c (jk_build_command JK_CMD_CELL_INFO None 0))\<lparr>jx_last_settings_req := now\<rparr>
      else if CELL_RETRY_S < now - jx_last_cell_req c
      then (queue_hex_write c (jk_build_command JK_CMD_CELL_INFO None 0))\<lparr>jx_last_cell_req := now\<rparr>
      else c)"

definition pump_stale :: "cdouble \<Rightarrow> jk_ctx \<Rightarrow> jk_ctx" where
  "pump_stale now c =
     (if jx_have_data c \<and> 0 < jx_last_cell_mono c \<and> CELL_STALE_S < now - jx_last_cell_mono c
      then set_err (c\<lparr>jx_have_data := False\<rparr>) ''stale'' else c)"

text \<open>What follows the connection's establishment in \<open>pump\<close>: read, ask, write, set the mask.\<close>

definition pump_io :: "jk_ctx \<Rightarrow> jk_env \<Rightarrow> mf_step \<times> jk_ctx \<times> jk_env" where
  "pump_io c e =
     (let (c, e) = (if jx_fd c \<noteq> None then drain_in c e else (c, e));
          c = (if jx_handshake_ok c \<and> jx_fd c \<noteq> None
               then pump_stale (je_now e) (pump_requests (je_now e) c) else c);
          (c, e) = (if jx_fd c \<noteq> None then flush_out c e else (c, e));
          c = c\<lparr>jx_want_read := False, jx_want_write := False\<rparr>
      in if jx_fd c = None then (MF_STEP_ERROR, c, e)
         else let c = c\<lparr>jx_want_read := True, jx_want_write := jx_out_off c < length (jx_out c)\<rparr>;
                  c = (if jx_state c = ST_CONNECTING then c\<lparr>jx_want_read := False, jx_want_write := True\<rparr> else c)
              in (if jx_have_data c then MF_STEP_UPDATED else MF_STEP_IDLE, c, e))"

text \<open>The poll of a connection in progress; \<open>Inl\<close> where \<open>pump\<close> returns.\<close>

definition finish_connecting :: "jk_ctx \<Rightarrow> jk_env \<Rightarrow> (mf_step \<times> jk_ctx \<times> jk_env) + (jk_ctx \<times> jk_env)" where
  "finish_connecting c e =
     (if jx_state c = ST_CONNECTING
      then case je_poll e of
        Not_writable \<Rightarrow> Inl (MF_STEP_IDLE, c\<lparr>jx_want_read := False, jx_want_write := True\<rparr>, e)
      | Writable (Some err) \<Rightarrow>
          (let (c, e) = sock_close c e;
               e = (if helper_needed err then helper_spawn c e else e)
           in Inl (MF_STEP_ERROR, set_err c ''connect failed'', e))
      | Writable None \<Rightarrow> Inr (send_connect (c\<lparr>jx_state := ST_HANDSHAKE\<rparr>), e)
      else Inr (c, e))"

definition pump :: "jk_ctx \<Rightarrow> jk_env \<Rightarrow> mf_step \<times> jk_ctx \<times> jk_env" where
  "pump c e =
     (case (if jx_state c = ST_IDLE
            then if je_now e < jx_next_try c then Inl (MF_STEP_IDLE, c, e)
                 else case start_connect c e of
                   (False, c, e) \<Rightarrow> Inl (MF_STEP_IDLE, c, e)
                 | (True, c, e) \<Rightarrow> Inr (if jx_state c = ST_HANDSHAKE then send_connect c else c, e)
            else Inr (c, e)) of
        Inl r \<Rightarrow> r
      | Inr (c, e) \<Rightarrow>
          (case finish_connecting c e of Inl r \<Rightarrow> r | Inr (c, e) \<Rightarrow> pump_io c e))"

subsection \<open>Opening and closing\<close>

definition jk_open :: "string \<Rightarrow> jk_env \<Rightarrow> string \<times> jk_ctx \<times> jk_env" where
  "jk_open spec e =
     (let ble = json_ble_scope spec;
          ad = json_str ble ''adapter'' 16;
          iv = json_double spec ''poll_interval_s'' (XFin 0);
          poll = (if XFin 0 < iv then iv else XFin POLL_DEFAULT);
          c = jk_ctx_zero\<lparr>jx_bal_want := -1, jx_mac := json_str ble ''address'' 32,
                jx_adapter := (if ad = [] then ''hci0'' else ad), jx_name := json_str spec ''name'' 64,
                jx_gatt_bin := json_str spec ''gatt_bin'' 256,
                jx_poll_interval_s := (if poll < XFin POLL_MIN then XFin POLL_MIN else poll), jx_asm := jk_assembler_init\<rparr>
      in if jx_mac c = [] then let c = set_err c ''ble.address required'' in (jx_err c, c, e)
         else case start_connect c e of
           (False, c, e) \<Rightarrow> (jx_err c, c\<lparr>jx_next_try := je_now e + 1/5\<rparr>, e)
         | (True, c, e) \<Rightarrow> ([], if jx_state c = ST_HANDSHAKE then send_connect c else c, e))"

definition jk_close :: "jk_ctx \<Rightarrow> jk_env \<Rightarrow> jk_env" where
  "jk_close c e =
     (let (row, hs) = helper_row (jx_adapter c) (je_help e);
          e = e\<lparr>je_help := hs\<rparr>;
          last = (case row of Some i \<Rightarrow> hr_refcnt (hs ! i) \<le> 1 | None \<Rightarrow> False);
          (c, e) = (if jx_fd c \<noteq> None \<and> jx_handshake_ok c
                    then flush_out (queue_str c (if last then ''{\"cmd\":\"quit\"}'' else ''{\"cmd\":\"disconnect\"}'')) e
                    else (c, e));
          e = (if jx_handshake_ok c then e\<lparr>je_help := helper_release c (je_help e)\<rparr> else e)
      in snd (sock_close c e))"

definition jk_fd :: "jk_ctx \<Rightarrow> nat option" where
  "jk_fd c = jx_fd c"

definition jk_mask :: "jk_ctx \<Rightarrow> bool \<times> bool" where
  "jk_mask c = (jx_want_read c, jx_want_write c)"

definition jk_step :: "jk_ctx \<Rightarrow> jk_env \<Rightarrow> mf_step \<times> jk_ctx \<times> jk_env" where
  "jk_step c e = pump c e"

definition jk_caps :: nat where
  "jk_caps = MF_CAP_READ + MF_CAP_WRITE_SETTINGS + MF_CAP_ACTION_SWITCH + MF_CAP_ACTION_REFRESH + MF_CAP_PROBE"

definition jk_last_error :: "jk_ctx \<Rightarrow> string" where
  "jk_last_error c = jx_err c"

subsection \<open>Readings\<close>

definition balancer_shown :: "jk_ctx \<Rightarrow> bool" where
  "balancer_shown c =
     (if 0 \<le> jx_bal_want c then jx_bal_want c \<noteq> 0
      else if jx_have_settings c then js_balancer_switch (jx_settings c)
      else ci_balancing_indicator (jx_cell c) \<or> ci_balancing_action (jx_cell c) \<noteq> 0)"

definition cell_text :: "nat \<Rightarrow> jk_cell \<Rightarrow> string" where
  "cell_text i cl =
     (if i = 0 then [] else '','') @ ''{\"index\":'' @ nat_digits (i + 1) @ '',\"voltage_v\":'' @ fmt_f 3 (jc_voltage_v cl) @
     '',\"balancing\":'' @ bool_text (jc_balancing cl) @ ''}''"

text \<open>The sensors that are fitted, in the order of the code.\<close>

definition fitted_temps :: "jk_cell_info \<Rightarrow> (string \<times> cdouble) list" where
  "fitted_temps r = filter (\<lambda>(lab, t). of_int JK_TEMP_ABSENT / 2 < t)
     [(''MOS'', ci_mosfet_temp_c r), (''T1'', ci_temp1_c r), (''T2'', ci_temp2_c r), (''T3'', ci_temp3_c r),
      (''T4'', ci_temp4_c r), (''T5'', ci_temp5_c r)]"

definition listed :: "('a \<Rightarrow> string) \<Rightarrow> 'a list \<Rightarrow> string list" where
  "listed f xs = map (\<lambda>(i, x). (if i = 0 then [] else '','') @ f x) (enumerate 0 xs)"

definition reading_head :: "jk_ctx \<Rightarrow> string" where
  "reading_head c =
     (let r = jx_cell c in
      ''{\"pack_voltage_v\":'' @ fmt_f 3 (ci_pack_voltage_v r) @ '',\"current_a\":'' @ fmt_f 2 (ci_current_a r) @
      '',\"power_w\":'' @ fmt_f 1 (ci_pack_voltage_v r * ci_current_a r) @
      '',\"soc_pct\":'' @ fmt_f 1 (ci_soc_pct r) @ '',\"soh_pct\":'' @ fmt_f 1 (ci_soh_pct r) @
      '',\"cell_count\":'' @ nat_digits (length (ci_cells r)) @
      '',\"full_capacity_ah\":'' @ fmt_f 2 (ci_nominal_ah r) @
      '',\"remaining_capacity_ah\":'' @ fmt_f 2 (ci_remaining_ah r) @
      '',\"charge_mosfet_on\":'' @ bool_text (ci_charge_mosfet_on r) @
      '',\"discharge_mosfet_on\":'' @ bool_text (ci_discharge_mosfet_on r) @
      '',\"balancer_switch\":'' @ bool_text (balancer_shown c) @
      '',\"balancing_indicator\":'' @ bool_text (ci_balancing_indicator r) @
      '',\"balance_current_a\":'' @ fmt_f 3 (ci_balance_current_a r) @ '','')"

definition reading_pieces :: "jk_ctx \<Rightarrow> string list" where
  "reading_pieces c =
     (let r = jx_cell c; ts = fitted_temps r in
      [reading_head c] @
      (if jx_have_settings c \<and> 0 < js_max_discharge_a (jx_settings c)
       then [''\"max_discharge_a\":'' @ fmt_f 1 (js_max_discharge_a (jx_settings c)) @ '',''] else []) @
      [''\"cells\":[''] @ map (\<lambda>(i, cl). cell_text i cl) (enumerate 0 (ci_cells r)) @
      [''],\"temperatures_c\":[''] @ listed (\<lambda>(lab, t). fmt_f 1 t) ts @
      [''],\"temp_labels\":[''] @ listed (\<lambda>(lab, t). ''\"'' @ lab @ ''\"'') ts @ ['']}''])"

definition jk_get_reading :: "jk_ctx \<Rightarrow> nat \<Rightarrow> string option" where
  "jk_get_reading c cap =
     (if cap = 0 \<or> \<not> jx_have_data c then None
      else Some (foldl (js_append cap) [] (reading_pieces c)))"

subsection \<open>Settings\<close>

definition jk_get_settings :: "jk_ctx \<Rightarrow> nat \<Rightarrow> string option" where
  "jk_get_settings c cap =
     (if cap = 0 then None
      else Some (c_copy cap (''{\"ble.address\":\"'' @ jx_mac c @ ''\",\"ble.adapter\":\"'' @ jx_adapter c @
        ''\",\"poll_interval_s\":'' @ fmt_fx 1 (jx_poll_interval_s c) @
        (if jx_have_trigger c then '',\"balance_trigger_v\":'' @ fmt_f 3 (jx_trigger_v c) else []) @
        (if jx_have_start c then '',\"start_balance_v\":'' @ fmt_f 3 (jx_start_v c) else []) @
        (if jx_have_settings c
         then '',\"cell_ovp_v\":'' @ fmt_f 3 (js_cell_ovp_v (jx_settings c)) @
              '',\"cell_ovpr_v\":'' @ fmt_f 3 (js_cell_ovpr_v (jx_settings c)) @
              '',\"cell_rcv_v\":'' @ fmt_fx 3 (js_cell_rcv_v (jx_settings c)) else []) @ ''}'')))"

definition WQ_CAP :: nat where "WQ_CAP = 6"

definition wq_push :: "jk_ctx \<Rightarrow> byte \<Rightarrow> u32 \<Rightarrow> jk_ctx" where
  "wq_push c reg mv =
     (if WQ_CAP \<le> length (jx_wq c) then c
      else c\<lparr>jx_wq := jx_wq c @ [(reg, mv)], jx_wq_next := (if jx_wq c = [] then 0 else jx_wq_next c)\<rparr>)"

definition has_key :: "string \<Rightarrow> string \<Rightarrow> bool" where
  "has_key js key \<longleftrightarrow> json_find_key js key \<noteq> None"

text \<open>The request charge voltage and the register write for it.\<close>

definition push_rcv :: "jk_ctx \<Rightarrow> xdouble \<Rightarrow> jk_ctx" where
  "push_rcv c rcv =
     (let c = wq_push c JK_REG_CELL_RCV (jk_volts_to_mv rcv)
      in c\<lparr>jx_settings := (jx_settings c)\<lparr>js_cell_rcv_v := rcv\<rparr>\<rparr>)"

definition put_rcv :: "jk_ctx \<Rightarrow> string \<Rightarrow> jk_ctx" where
  "put_rcv c json =
     (let rcv = json_double json ''cell_rcv_v'' (XFin 0);
          ovp = (if jx_have_settings c then XFin (js_cell_ovp_v (jx_settings c))
                 else if has_key json ''cell_ovp_v'' then json_double json ''cell_ovp_v'' (XFin (365/100))
                 else XFin (365/100));
          ovp = jk_clamp_ovp_v ovp;
          rcv = (if rcv < XFin (250/100) then XFin (250/100) else rcv);
          rcv = (if XFin (ovp - 1/100) < rcv then XFin (ovp - 1/100) else rcv)
      in (push_rcv c rcv)\<lparr>jx_have_settings := True\<rparr>)"

definition asked_ovp :: "jk_ctx \<Rightarrow> string \<Rightarrow> cdouble" where
  "asked_ovp c json =
     jk_clamp_ovp_v
       (if has_key json ''cell_ovp_v'' then json_double json ''cell_ovp_v'' (XFin 0)
        else if jx_have_settings c then XFin (js_cell_ovp_v (jx_settings c)) else XFin (365/100))"

definition asked_ovpr :: "jk_ctx \<Rightarrow> string \<Rightarrow> cdouble" where
  "asked_ovpr c json =
     (let ovp = asked_ovp c json in
      jk_clamp_ovpr_v
        (if has_key json ''cell_ovpr_v'' then json_double json ''cell_ovpr_v'' (XFin (ovp - JK_OVPR_GAP_V))
         else if jx_have_settings c then XFin (js_cell_ovpr_v (jx_settings c)) else XFin (ovp - JK_OVPR_GAP_V)) ovp)"

text \<open>The battery refuses a trip below its request charge voltage, which is lowered first.\<close>

definition lower_rcv :: "jk_ctx \<Rightarrow> cdouble \<Rightarrow> jk_ctx" where
  "lower_rcv c ovp =
     (if jx_have_settings c \<and> XFin (ovp - 1/1000) \<le> js_cell_rcv_v (jx_settings c)
      then let rcv = ovp - 5/100;
               rcv = (if rcv < 340/100 then 340/100 else rcv);
               rcv = (if ovp \<le> rcv then ovp - 1/100 else rcv)
           in push_rcv c (XFin rcv)
      else c)"

definition put_ovp :: "jk_ctx \<Rightarrow> string \<Rightarrow> jk_ctx" where
  "put_ovp c json =
     (let ovp = asked_ovp c json; ovpr = asked_ovpr c json;
          c = lower_rcv c ovp;
          c = wq_push c JK_REG_CELL_OVP (jk_volts_to_mv (XFin ovp));
          c = wq_push c JK_REG_CELL_OVPR (jk_volts_to_mv (XFin ovpr))
      in c\<lparr>jx_settings := (jx_settings c)\<lparr>js_cell_ovp_v := ovp, js_cell_ovpr_v := ovpr\<rparr>, jx_have_settings := True\<rparr>)"

definition jk_put_settings :: "jk_ctx \<Rightarrow> string \<Rightarrow> int \<times> string \<times> jk_ctx" where
  "jk_put_settings c json =
     (let iv = json_double json ''poll_interval_s'' (XFin (-1)) in
      if XFin 0 \<le> iv \<and> iv < XFin POLL_MIN then (MF_ERR_INVAL, ''poll_interval_s below '' @ fmt_f 1 POLL_MIN, c)
      else
        let c = (if XFin 0 \<le> iv then c\<lparr>jx_poll_interval_s := iv\<rparr> else c) in
        if has_key json ''cell_rcv_v'' \<and> \<not> jx_handshake_ok c then (MF_ERR_OFFLINE, ''offline'', c)
        else
          let c = (if has_key json ''cell_rcv_v'' then put_rcv c json else c);
              ovp = (has_key json ''cell_ovp_v'' \<or> has_key json ''cell_ovpr_v'')
          in if ovp \<and> \<not> jx_handshake_ok c then (MF_ERR_OFFLINE, ''offline'', c)
             else (MF_OK, [], if ovp then put_ovp c json else c))"

subsection \<open>Actions\<close>

definition jk_action :: "jk_ctx \<Rightarrow> string \<Rightarrow> string \<Rightarrow> int \<times> string \<times> jk_ctx" where
  "jk_action c action json =
     (if \<not> jx_handshake_ok c then (MF_ERR_OFFLINE, ''offline'', c)
      else if action = ''refresh''
      then (MF_OK, [], queue_hex_write c (jk_build_command JK_CMD_CELL_INFO None 0))
      else if action = ''set_balance_trigger''
      then if \<not> has_key json ''volts'' then (MF_ERR_INVAL, ''volts required'', c)
           else let volts = jk_clamp_trigger_v (json_double json ''volts'' (XFin 0));
                    c = c\<lparr>jx_trigger_v := volts, jx_have_trigger := True\<rparr>
                in (MF_OK, [], queue_hex_write c (jk_build_register_cmd JK_REG_BALANCE_TRIGGER (jk_volts_to_mv (XFin volts))))
      else if action = ''set_start_balance''
      then if \<not> has_key json ''volts'' then (MF_ERR_INVAL, ''volts required'', c)
           else let volts = jk_clamp_start_v (json_double json ''volts'' (XFin 0));
                    c = c\<lparr>jx_start_v := volts, jx_have_start := True\<rparr>
                in (MF_OK, [], queue_hex_write c (jk_build_register_cmd JK_REG_START_BALANCE_JK02_32S (jk_volts_to_mv (XFin volts))))
      else if action \<noteq> ''set_switch'' then (MF_ERR_UNSUPPORTED, ''unsupported'', c)
      else
        let on = (\<not> contains json ''false'');
            reg = (if contains json ''discharge'' then JK_REG_DISCHARGE
                   else if contains json ''balance'' then JK_REG_BALANCE else JK_REG_CHARGE);
            c = (if reg = JK_REG_BALANCE then c\<lparr>jx_bal_want := (if on then 1 else 0)\<rparr> else c)
        in (MF_OK, [], queue_hex_write c (jk_build_switch_cmd reg on)))"

text \<open>There is no probe: every operation of one fails.\<close>

definition jk_probe_start :: "int \<times> string" where
  "jk_probe_start = (-1, ''ble probe later'')"

definition jk_probe_step :: mf_step where
  "jk_probe_step = MF_STEP_ERROR"

definition jk_probe_result :: "int \<times> string" where
  "jk_probe_result = (-1, ''{\"status\":\"error\",\"results\":[]}'')"

end
