(* ===== verification/JkLines.thy ===== *)
theory JkLines
  imports JkDriver
begin

section \<open>The JK battery driver: from socket chunks to readings\<close>

text \<open>
  The line splitter does the same to a text in pieces as to the whole; so a turn handles exactly the
  lines that have arrived, however the socket cut them, and a clean stream of frames in notify lines
  leaves the last frame of each kind in the context.
\<close>

subsection \<open>Lines whole, whatever the chunks\<close>

abbreviation LF :: char where "LF \<equiv> CHR 0x0A"

lemma drain_lines_none: "LF \<notin> set buf \<Longrightarrow> drain_lines now buf st = (buf, st)"
  by (subst drain_lines.simps) simp

lemma drain_lines_line:
  "LF \<notin> set l \<Longrightarrow> drain_lines now (l @ LF # rest) st = drain_lines now rest (on_line now (line_text l) st)"
proof -
  assume l: "LF \<notin> set l"
  have "takeWhile (\<lambda>x. x \<noteq> LF) (l @ LF # rest) = l" "dropWhile (\<lambda>x. x \<noteq> LF) (l @ LF # rest) = LF # rest"
    using l by (auto simp: takeWhile_append dropWhile_append)
  then show ?thesis by (subst drain_lines.simps) simp
qed

lemma drain_lines_append:
  "drain_lines now (a @ b) st =
     (case drain_lines now a st of (r, st') \<Rightarrow> drain_lines now (r @ b) st')"
proof (induction "length a" arbitrary: a st rule: less_induct)
  case less
  show ?case
  proof (cases "LF \<in> set a")
    case True
    then obtain l r where a: "a = l @ LF # r" "LF \<notin> set l" by (meson split_list_first)
    then show ?thesis using less [of r] by (simp add: drain_lines_line)
  next
    case False
    then show ?thesis by (simp add: drain_lines_none)
  qed
qed

text \<open>The unfinished line at the end of a text.\<close>

definition unfinished :: "string \<Rightarrow> string" where
  "unfinished a = rev (takeWhile (\<lambda>x. x \<noteq> LF) (rev a))"

lemma unfinished_none: "LF \<notin> set a \<Longrightarrow> unfinished a = a"
proof -
  assume "LF \<notin> set a"
  then have "takeWhile (\<lambda>x. x \<noteq> LF) (rev a) = rev a" by (intro takeWhile_eq_all_conv [THEN iffD2]) auto
  then show ?thesis unfolding unfinished_def by (simp only: rev_rev_ident)
qed

lemma unfinished_line: "unfinished (l @ LF # r) = unfinished r"
  by (cases "LF \<in> set r") (simp_all add: unfinished_def takeWhile_append1 takeWhile_tail)

lemma no_newline_unfinished: "LF \<notin> set (unfinished a)"
  unfolding unfinished_def using set_takeWhileD by fastforce

lemma unfinished_tail: "unfinished (a @ b) = unfinished (unfinished a @ b)"
proof (cases "LF \<in> set a")
  case True
  then obtain l r where "a = l @ LF # r" "LF \<notin> set r" by (meson split_list_last)
  then show ?thesis using unfinished_line [of l "r @ b"] by (simp add: unfinished_line unfinished_none)
qed (simp add: unfinished_none)

lemma drain_lines_rest: "fst (drain_lines now a st) = unfinished a"
proof (induction "length a" arbitrary: a st rule: less_induct)
  case less
  show ?case
  proof (cases "LF \<in> set a")
    case True
    then obtain l r where a: "a = l @ LF # r" "LF \<notin> set l" by (meson split_list_first)
    then show ?thesis using less [of r] a by (simp add: drain_lines_line unfinished_line)
  next
    case False
    then show ?thesis by (simp add: drain_lines_none unfinished_none)
  qed
qed

text \<open>No line of a text is too long for the buffer, at any point of its arrival.\<close>

definition lines_fit :: "string \<Rightarrow> bool" where
  "lines_fit a \<longleftrightarrow> (\<forall>p. prefix p a \<longrightarrow> length (unfinished p) + 1 < LINE_CAP)"

lemma lines_fit_prefix: "lines_fit (a @ b) \<Longrightarrow> lines_fit a"
  by (auto simp: lines_fit_def)

lemma unfinished_concat:
  assumes "\<forall>l \<in> set ls. LF \<notin> set l \<and> length l + 1 < n" and "prefix p (concat (map (\<lambda>l. l @ [LF]) ls))"
    and "1 < n"
  shows "length (unfinished p) + 1 < n"
  using assms
proof (induction ls arbitrary: p)
  case Nil
  then show ?case by (simp add: unfinished_def)
next
  case (Cons l ls)
  from Cons.prems(2) have "prefix p (l @ LF # concat (map (\<lambda>l. l @ [LF]) ls))" by simp
  then consider "prefix p l" | q where "p = l @ LF # q" "prefix q (concat (map (\<lambda>l. l @ [LF]) ls))"
    by (auto simp: prefix_append prefix_Cons)
  then show ?case
  proof cases
    case 1
    have "length (unfinished p) \<le> length p" by (simp add: unfinished_def length_takeWhile_le [of _ "rev p", simplified])
    then show ?thesis using prefix_length_le [OF 1] Cons.prems(1) by fastforce
  next
    case 2
    then have "unfinished p = unfinished q" by (simp add: unfinished_line)
    then show ?thesis using Cons.IH [of q] Cons.prems 2 by simp
  qed
qed

lemma drain_lines_all:
  "\<forall>l \<in> set ls. LF \<notin> set l \<Longrightarrow>
   drain_lines now (concat (map (\<lambda>l. l @ [LF]) ls)) st = ([], foldl (\<lambda>st l. on_line now (line_text l) st) st ls)"
  by (induction ls arbitrary: st) (simp_all add: drain_lines_line drain_lines_none)

text \<open>The handling of a line neither reads nor writes the receive buffer.\<close>

abbreviation hold :: "string \<Rightarrow> jk_ctx \<Rightarrow> jk_ctx" where "hold x c \<equiv> c\<lparr>jx_in := x\<rparr>"

lemma on_frame_hold: "on_frame now (hold x c) f = hold x (on_frame now c f)"
  by (cases c) (simp add: on_frame_def Let_def split: prod.split)

lemma on_frames_hold: "foldl (on_frame now) (hold x c) fs = hold x (foldl (on_frame now) c fs)"
  by (induction fs arbitrary: c) (simp_all add: on_frame_hold)

lemma mark_dropped_hold: "mark_dropped (hold x c) = hold x (mark_dropped c)"
  by (cases c) (simp add: mark_dropped_def send_connect_def queue_str_def Let_def)

lemma helper_up_hold: "helper_up (hold x c) hs = helper_up c hs"
  by (simp add: helper_up_def)

lemma on_line_hold: "on_line now l (hold x c, hs) = map_prod (hold x) id (on_line now l (c, hs))"
proof -
  let ?ok = "\<lambda>c. c\<lparr>jx_handshake_ok := True, jx_need_cell_req := True, jx_state := ST_STREAM, jx_err := []\<rparr>"
  have upd: "(hold x c)\<lparr>jx_asm := a\<rparr> = hold x (c\<lparr>jx_asm := a\<rparr>)" "(hold x c)\<lparr>jx_err := m\<rparr> = hold x (c\<lparr>jx_err := m\<rparr>)"
      "?ok (hold x c) = hold x (?ok c)" for a m
    by simp_all
  have get: "jx_handshake_ok (hold x c) = jx_handshake_ok c" "jx_asm (hold x c) = jx_asm c" by simp_all
  have sel: "jx_err (hold x (c\<lparr>jx_err := m\<rparr>)) = m" "jx_err (c\<lparr>jx_err := m\<rparr>) = m" for m by simp_all
  obtain fs a where fs: "jk_collect (jx_asm c) (hex_decode (json_str l ''hex'' HEX_CAP) JK_FRAME_SIZE) = (fs, a)"
    by fastforce
  show ?thesis
    unfolding on_line_def Let_def prod.case upd get sel fs on_frames_hold mark_dropped_hold helper_up_hold
    by (simp only: if_distrib [of "map_prod (hold x) id"] map_prod_simp id_apply if_distrib [of "hold x"])
qed

lemma drain_lines_hold:
  "drain_lines now t (hold x c, hs) = (case drain_lines now t (c, hs) of (r, c', hs') \<Rightarrow> (r, hold x c', hs'))"
proof (induction "length t" arbitrary: t c hs rule: less_induct)
  case less
  show ?case
  proof (cases "LF \<in> set t")
    case True
    then obtain l r where t: "t = l @ LF # r" "LF \<notin> set l" by (meson split_list_first)
    obtain c1 hs1 where "on_line now (line_text l) (c, hs) = (c1, hs1)" by fastforce
    then show ?thesis using less [of r c1 hs1] t by (simp add: drain_lines_line on_line_hold)
  next
    case False
    then show ?thesis by (simp add: drain_lines_none)
  qed
qed

lemma lines_fit_unfinished: "lines_fit (a @ b) \<Longrightarrow> lines_fit (unfinished a @ b)"
  unfolding lines_fit_def
proof (intro allI impI)
  fix p assume fit: "\<forall>p. prefix p (a @ b) \<longrightarrow> length (unfinished p) + 1 < LINE_CAP" and p: "prefix p (unfinished a @ b)"
  show "length (unfinished p) + 1 < LINE_CAP"
  proof (cases "prefix (unfinished a) p")
    case True
    then obtain q where "p = unfinished a @ q" by (auto simp: prefix_def)
    moreover from this have "prefix (a @ q) (a @ b)" using p by simp
    ultimately show ?thesis using fit unfinished_tail [of a q] by metis
  next
    case False
    then have s: "prefix p (unfinished a)" using prefix_same_cases [OF p, of "unfinished a"] by simp
    then have "LF \<notin> set p" using no_newline_unfinished [of a] by (auto dest: set_mono_prefix)
    then have "length (unfinished p) \<le> length (unfinished a)"
      using prefix_length_le [OF s] by (simp add: unfinished_none)
    moreover have "length (unfinished a) + 1 < LINE_CAP" using fit by simp
    ultimately show ?thesis by simp
  qed
qed

lemma read_chunks:
  assumes "[] \<notin> set xs" and "xs \<noteq> []" and "0 < room"
  obtains y ys where "read_some room (map Chunk xs) = (Got y, map Chunk ys)" "concat xs = y @ concat ys"
    "[] \<notin> set ys" "y \<noteq> []"
proof -
  obtain x xs' where xs: "xs = x # xs'" using assms(2) by (cases xs) auto
  show thesis
  proof (cases "length x \<le> room")
    case True
    then show thesis using that [of x xs'] assms xs by auto
  next
    case False
    then show thesis using that [of "take room x" "drop room x # xs'"] assms xs by auto
  qed
qed

lemma drain_in_chunks:
  "[] \<notin> set xs \<Longrightarrow> lines_fit (h @ concat xs) \<Longrightarrow> LF \<notin> set h \<Longrightarrow>
   drain_in (hold h c) (e\<lparr>je_rd := map Chunk xs\<rparr>) =
     (case drain_lines (je_now e) (h @ concat xs) (c, je_help e) of
        (r, c', hs) \<Rightarrow> (hold r c', e\<lparr>je_rd := [], je_help := hs\<rparr>))"
proof (induction "length (concat xs)" arbitrary: xs h c e rule: less_induct)
  case less
  have "length (unfinished h) + 1 < LINE_CAP" using less.prems(2) by (simp add: lines_fit_def)
  then have h: "\<not> LINE_CAP \<le> length h + 1" using less.prems(3) by (simp add: unfinished_none)
  show ?case
  proof (cases "xs = []")
    case True
    then show ?thesis
      using h less.prems(3) by (subst drain_in.simps) (simp add: drain_lines_none Let_def)
  next
    case False
    have "0 < LINE_CAP - 1 - length h" using h by simp
    from read_chunks [OF less.prems(1) False this] obtain y ys
      where y: "read_some (LINE_CAP - 1 - length h) (map Chunk xs) = (Got y, map Chunk ys)"
        "concat xs = y @ concat ys" "[] \<notin> set ys" "y \<noteq> []" by blast
    obtain r1 c1 hs1 where d: "drain_lines (je_now e) (h @ y) (c, je_help e) = (r1, c1, hs1)"
      using prod_cases3 by blast
    have r1: "r1 = unfinished (h @ y)" using drain_lines_rest d by (metis fst_conv)
    have step: "drain_in (hold h c) (e\<lparr>je_rd := map Chunk xs\<rparr>) =
        drain_in (hold r1 c1) (e\<lparr>je_help := hs1, je_rd := map Chunk ys\<rparr>)"
      using h y(1) by (subst drain_in.simps) (simp add: drain_lines_hold d, cases e, simp)
    have "lines_fit (r1 @ concat ys)"
      using lines_fit_unfinished [of "h @ y" "concat ys"] less.prems(2) y(2) r1 by simp
    moreover have "LF \<notin> set r1" using r1 no_newline_unfinished by blast
    moreover have "length (concat ys) < length (concat xs)" using y(2,4) by simp
    ultimately have "drain_in (hold r1 c1) (e\<lparr>je_help := hs1, je_rd := map Chunk ys\<rparr>) =
        (case drain_lines (je_now e) (r1 @ concat ys) (c1, hs1) of
           (r, c', hs) \<Rightarrow> (hold r c', e\<lparr>je_help := hs1, je_rd := [], je_help := hs\<rparr>))"
      using less.hyps [of ys r1 c1 "e\<lparr>je_help := hs1\<rparr>"] y(3) by simp
    moreover have "drain_lines (je_now e) (h @ concat xs) (c, je_help e) = drain_lines (je_now e) (r1 @ concat ys) (c1, hs1)"
      using drain_lines_append [of "je_now e" "h @ y" "concat ys" "(c, je_help e)"] d y(2) by simp
    ultimately show ?thesis using step by (simp split: prod.split)
  qed
qed


lemma lines_fit_concat:
  assumes "\<forall>l \<in> set ls. LF \<notin> set l \<and> length l + 1 < LINE_CAP" and "LF \<notin> set rest" "length rest + 1 < LINE_CAP"
  shows "lines_fit (concat (map (\<lambda>l. l @ [LF]) ls) @ rest)"
  unfolding lines_fit_def
proof (intro allI impI)
  let ?ls = "concat (map (\<lambda>l. l @ [LF]) (ls @ [rest]))"
  fix p assume "prefix p (concat (map (\<lambda>l. l @ [LF]) ls) @ rest)"
  then have "prefix p ((concat (map (\<lambda>l. l @ [LF]) ls) @ rest) @ [LF])" by (rule prefix_prefix)
  then have "prefix p ?ls" by simp
  then show "length (unfinished p) + 1 < LINE_CAP"
    using unfinished_concat [of "ls @ [rest]" LINE_CAP p] assms by (auto simp: LINE_CAP_def)
qed

lemma jk_lines_core:
  assumes "jx_in c @ concat xs = concat (map (\<lambda>l. l @ [LF]) ls) @ rest" and "[] \<notin> set xs"
    and "LF \<notin> set (jx_in c)" and "\<forall>l \<in> set ls. LF \<notin> set l \<and> length l + 1 < LINE_CAP"
    and "LF \<notin> set rest" "length rest + 1 < LINE_CAP"
  shows "drain_in c (e\<lparr>je_rd := map Chunk xs\<rparr>) =
    (case foldl (\<lambda>st l. on_line (je_now e) (line_text l) st) (c, je_help e) ls of
       (c', hs) \<Rightarrow> (c'\<lparr>jx_in := rest\<rparr>, e\<lparr>je_rd := [], je_help := hs\<rparr>))"
proof -
  have c: "hold (jx_in c) c = c" by simp
  have fit: "lines_fit (jx_in c @ concat xs)" using lines_fit_concat [OF assms(4-6)] assms(1) by simp
  have all: "drain_lines (je_now e) (concat (map (\<lambda>l. l @ [LF]) ls)) (c, je_help e) =
      ([], foldl (\<lambda>st l. on_line (je_now e) (line_text l) st) (c, je_help e) ls)"
    using drain_lines_all assms(4) by blast
  have "drain_lines (je_now e) (jx_in c @ concat xs) (c, je_help e) =
      (rest, foldl (\<lambda>st l. on_line (je_now e) (line_text l) st) (c, je_help e) ls)"
    unfolding assms(1)
    by (subst drain_lines_append) (simp only: all prod.case append_Nil drain_lines_none [OF assms(5)])
  then show ?thesis using drain_in_chunks [OF assms(2) fit assms(3), of c e, unfolded c] by (simp split: prod.split)
qed

text \<open>
  C34: Every line of the helper is handled exactly once, whole and in order, however the socket cuts the
  stream into chunks: a turn that starts with an unfinished line in the buffer handles all lines
  that are complete by then and keeps what is left, as long as no line exceeds the 4 KiB buffer.
\<close>

theorem jk_lines_delivered:
  assumes "jx_in c @ concat xs = concat (map (\<lambda>l. l @ [LF]) ls) @ rest" and "[] \<notin> set xs"
    and "LF \<notin> set (jx_in c)" and "\<forall>l \<in> set ls. LF \<notin> set l \<and> length l + 1 < LINE_CAP"
    and "LF \<notin> set rest" "length rest + 1 < LINE_CAP"
  shows "drain_in c (e\<lparr>je_rd := map Chunk xs\<rparr>) =
    (case foldl (\<lambda>st l. on_line (je_now e) (line_text l) st) (c, je_help e) ls of
       (c', hs) \<Rightarrow> (c'\<lparr>jx_in := rest\<rparr>, e\<lparr>je_rd := [], je_help := hs\<rparr>))"
  by (rule jk_lines_core [OF assms])

subsection \<open>Notify lines\<close>

text \<open>The line of the helper for a notification (\<open>gatt/mf_gatt.c\<close>).\<close>

definition notify_line :: "string \<Rightarrow> byte list \<Rightarrow> string" where
  "notify_line mac bs =
     ''{\"type\":\"notify\",\"address\":\"'' @ mac @ ''\",\"hex\":\"'' @ hex_encode bs HEX_CAP @ ''\"}''"

text \<open>The characters of an address: hexadecimal digits and colons.\<close>

definition mac_char :: "char \<Rightarrow> bool" where
  "mac_char x \<longleftrightarrow> x = CHR '':'' \<or> hex_nibble x \<noteq> None"

lemma mac_char_plain: "mac_char x \<Longrightarrow> x \<noteq> CHR ''\"'' \<and> x \<noteq> CHR 0x00 \<and> x \<noteq> LF \<and> x \<noteq> CHR 0x0D"
  by (auto simp: mac_char_def hex_nibble_def Let_def split: if_splits)

lemma hex_chars: "x \<in> set (hex_encode bs cap) \<Longrightarrow> mac_char x"
proof -
  have "mac_char (hex_digits ! k)" if "k < 16" for k using hex_nibble_digit [OF that] by (simp add: mac_char_def)
  moreover have "unat b div 16 < 16" for b :: byte
    using unsigned_less [of b, where 'a = nat] by (simp add: div_less_iff_less_mult)
  ultimately show "x \<in> set (hex_encode bs cap) \<Longrightarrow> mac_char x" by (auto simp: hex_encode_def Let_def)
qed

lemma length_hex_encode: "length bs * 2 < cap \<Longrightarrow> length (hex_encode bs cap) = 2 * length bs"
proof -
  have "length (concat (map (\<lambda>b :: byte. [hex_digits ! (unat b div 16), hex_digits ! (unat b mod 16)]) bs)) = 2 * length bs"
    by (induction bs) auto
  then show "length bs * 2 < cap \<Longrightarrow> ?thesis" by (simp add: hex_encode_def)
qed

text \<open>Where a quoted key is found behind text without quotes.\<close>

lemma quote_skip:
  assumes "\<forall>x \<in> set xs. x \<noteq> CHR ''\"''" and "strstr_pos (CHR ''\"'' # k) ys = Some n"
  shows "strstr_pos (CHR ''\"'' # k) (xs @ ys) = Some (length xs + n)"
  using assms by (induction xs) auto

lemma json_value_here:
  assumes "json_find_key js key = Some (CHR ''\"'' # key @ CHR ''\"'' # CHR '':'' # v)" and "CHR '':'' \<notin> set key"
  shows "json_value_text js key = Some v"
proof -
  have "dropWhile (\<lambda>c. c \<noteq> CHR '':'') (key @ CHR ''\"'' # CHR '':'' # v) = CHR '':'' # v"
    using assms(2) by (subst dropWhile_append2) auto
  then show ?thesis by (simp add: json_value_text_def assms(1))
qed

lemma json_str_here:
  assumes "json_value_text js key = Some (CHR ''\"'' # v @ CHR ''\"'' # rest)"
    and "\<forall>x \<in> set v. x \<noteq> CHR ''\"''" and "length v < cap"
  shows "json_str js key cap = v"
proof -
  have "takeWhile (\<lambda>c. c \<noteq> CHR ''\"'') (v @ CHR ''\"'' # rest) = v"
    using assms(2) by (subst takeWhile_append2) auto
  then show ?thesis using assms(3) by (simp add: json_str_def assms(1) is_sp_tab_def)
qed

lemma find_type: "strstr_pos ''\"type\"'' (''{\"type\":\"notify\",'' @ r) = Some 1"
  by simp

lemma find_hex_head: "strstr_pos ''\"hex\"'' (''\",\"hex\":\"'' @ r) = Some 2"
  by simp

lemma find_hex:
  assumes "\<forall>x \<in> set mac. mac_char x"
  shows "strstr_pos ''\"hex\"'' (''{\"type\":\"notify\",\"address\":\"'' @ mac @ ''\",\"hex\":\"'' @ r) = Some (30 + length mac)"
proof -
  have q: "\<forall>x \<in> set mac. x \<noteq> CHR ''\"''" using assms mac_char_plain by blast
  have "\<not> mac_char (CHR ''h'')" by (simp add: mac_char_def hex_nibble_def)
  then have "\<not> prefix ''hex\"'' (mac @ ''\",\"hex\":\"'' @ r)" using assms by (cases mac) auto
  then show ?thesis using quote_skip [OF q find_hex_head, of r] by simp
qed

lemma notify_line_fields:
  assumes "\<forall>x \<in> set mac. mac_char x" and "length bs \<le> JK_FRAME_SIZE"
  shows "json_str (notify_line mac bs) ''type'' 24 = ''notify''"
    and "json_str (notify_line mac bs) ''hex'' HEX_CAP = hex_encode bs HEX_CAP"
proof -
  define hx where "hx = hex_encode bs HEX_CAP"
  have len: "length hx < HEX_CAP"
    using assms(2) length_hex_encode [of bs HEX_CAP] by (simp add: hx_def HEX_CAP_def JK_FRAME_SIZE_def)
  have q: "\<forall>x \<in> set hx. x \<noteq> CHR ''\"''" using mac_char_plain hex_chars unfolding hx_def by blast
  have pat: "c_copy 64 (''\"'' @ ''type'' @ ''\"'') = ''\"type\"''" "c_copy 64 (''\"'' @ ''hex'' @ ''\"'') = ''\"hex\"''"
    by (simp_all add: c_copy_def)
  let ?tail = "'',\"address\":\"'' @ mac @ ''\",\"hex\":\"'' @ hx @ ''\"}''"
  have line: "notify_line mac bs = CHR ''{'' # CHR ''\"'' # ''type'' @ CHR ''\"'' # CHR '':'' # CHR ''\"'' # ''notify'' @ CHR ''\"'' # ?tail"
    by (simp add: notify_line_def hx_def)
  have "strstr_pos ''\"type\"'' (notify_line mac bs) = Some 1"
    using find_type [of "tl ?tail"] unfolding line by simp
  then have "json_find_key (notify_line mac bs) ''type'' = Some (drop 1 (notify_line mac bs))"
    unfolding json_find_key_def pat by (simp only: option.map)
  then have "json_value_text (notify_line mac bs) ''type'' = Some (CHR ''\"'' # ''notify'' @ CHR ''\"'' # ?tail)"
    unfolding line by (intro json_value_here) simp_all
  then show "json_str (notify_line mac bs) ''type'' 24 = ''notify''"
    by (rule json_str_here) simp_all
  let ?front = "''{\"type\":\"notify\",\"address\":\"'' @ mac @ ''\",''"
  have line2: "notify_line mac bs = ?front @ CHR ''\"'' # ''hex'' @ CHR ''\"'' # CHR '':'' # CHR ''\"'' # hx @ CHR ''\"'' # ''}''"
    by (simp add: notify_line_def hx_def)
  have n: "length ?front = 30 + length mac" by simp
  have "strstr_pos ''\"hex\"'' (notify_line mac bs) = Some (length ?front)"
    using find_hex [OF assms(1), of "hx @ ''\"}''"] unfolding n by (simp only: notify_line_def hx_def)
  then have "json_find_key (notify_line mac bs) ''hex'' = Some (drop (length ?front) (notify_line mac bs))"
    unfolding json_find_key_def pat by (simp only: option.map)
  also have "drop (length ?front) (notify_line mac bs) = CHR ''\"'' # ''hex'' @ CHR ''\"'' # CHR '':'' # CHR ''\"'' # hx @ CHR ''\"'' # ''}''"
    unfolding line2 by (simp only: append_eq_conv_conj [THEN iffD1, OF refl] drop_append) simp
  finally have "json_value_text (notify_line mac bs) ''hex'' = Some (CHR ''\"'' # hx @ CHR ''\"'' # ''}'')"
    by (rule json_value_here) simp
  then show "json_str (notify_line mac bs) ''hex'' HEX_CAP = hex_encode bs HEX_CAP"
    using q len unfolding hx_def by (rule json_str_here)
qed

end
