(* ===== verification/JkReading.thy ===== *)
theory JkReading
  imports JkLines
begin

section \<open>The JK battery driver: readings from the stream\<close>

text \<open>
  A clean stream of frames in notify lines, cut by the helper and the socket anywhere, leaves the
  context as if every frame had been handed to it directly; and what a rejected cell frame does to
  the reading.
\<close>

subsection \<open>Notifications of one turn\<close>

lemma notify_line_plain:
  assumes "\<forall>x \<in> set mac. mac_char x" and "x \<in> set (notify_line mac bs)"
  shows "x \<noteq> CHR 0x00 \<and> x \<noteq> LF"
proof -
  have plain: "mac_char x \<Longrightarrow> ?thesis" using mac_char_plain by simp
  from assms(2) consider "x \<in> set ''{\"type\":\"notify\",\"address\":\"''" | "x \<in> set mac"
    | "x \<in> set ''\",\"hex\":\"''" | "x \<in> set (hex_encode bs HEX_CAP)" | "x \<in> set ''\"}''"
    unfolding notify_line_def set_append Un_iff by (elim disjE)
  then show ?thesis
  proof cases
    case 2
    then show ?thesis using assms(1) plain by simp
  next
    case 4
    then show ?thesis using hex_chars plain by simp
  qed (simp_all, (elim disjE; simp)+)
qed

lemma line_text_notify:
  assumes "\<forall>x \<in> set mac. mac_char x"
  shows "line_text (notify_line mac bs) = notify_line mac bs" and "LF \<notin> set (notify_line mac bs)"
proof -
  show "LF \<notin> set (notify_line mac bs)" using notify_line_plain [OF assms, of LF bs] by blast
  have all: "takeWhile (\<lambda>x. x \<noteq> CHR 0x00) (notify_line mac bs) = notify_line mac bs"
    using notify_line_plain [OF assms] by (subst takeWhile_eq_all_conv) simp
  have "notify_line mac bs = (''{\"type\":\"notify\",\"address\":\"'' @ mac @ ''\",\"hex\":\"'' @ hex_encode bs HEX_CAP @ ''\"'') @ [CHR ''}'']"
    by (simp add: notify_line_def)
  then have "last (notify_line mac bs) \<noteq> CHR 0x0D" by (simp only: last_snoc) simp
  then show "line_text (notify_line mac bs) = notify_line mac bs"
    by (simp only: line_text_def c_text_def all simp_thms if_False)
qed

abbreviation with_asm :: "jk_assembler \<Rightarrow> jk_ctx \<Rightarrow> jk_ctx" where "with_asm a c \<equiv> c\<lparr>jx_asm := a\<rparr>"

lemma on_frame_asm: "on_frame now (with_asm a c) f = with_asm a (on_frame now c f)"
  by (cases c) (simp add: on_frame_def Let_def split: prod.split)

lemma on_frames_asm: "foldl (on_frame now) (with_asm a c) fs = with_asm a (foldl (on_frame now) c fs)"
  by (induction fs arbitrary: c) (simp_all add: on_frame_asm)

lemma on_frame_simps [simp]:
  "jx_handshake_ok (on_frame now c f) = jx_handshake_ok c" "jx_asm (on_frame now c f) = jx_asm c"
  "jx_in (on_frame now c f) = jx_in c"
  by (simp_all add: on_frame_def Let_def split: prod.split)

lemma on_frames_simps [simp]:
  "jx_handshake_ok (foldl (on_frame now) c fs) = jx_handshake_ok c"
  "jx_asm (foldl (on_frame now) c fs) = jx_asm c"
  "jx_in (foldl (on_frame now) c fs) = jx_in c"
  by (induction fs arbitrary: c) simp_all

lemma on_cell_frame:
  "f ! 4 = JK_FRAME_CELL_INFO \<Longrightarrow> jk_decode_cell_info (Some f) JK_PROTO_JK02_32S 0 = (rc, r) \<Longrightarrow>
   on_frame now c f = (if rc = JK_OK then c\<lparr>jx_cell := r, jx_have_data := True, jx_last_cell_mono := now\<rparr> else c\<lparr>jx_cell := r\<rparr>)"
  by (simp add: on_frame_def)

lemma on_notify:
  assumes "\<forall>x \<in> set mac. mac_char x" and "length bs \<le> JK_FRAME_SIZE" "bs \<noteq> []" and "jx_handshake_ok c"
    and "jk_collect (jx_asm c) bs = (fs, a)"
  shows "on_line now (notify_line mac bs) (c, hs) = (foldl (on_frame now) (with_asm a c) fs, hs)"
proof -
  have cap: "length bs * 2 < HEX_CAP" using assms(2) by (simp add: HEX_CAP_def JK_FRAME_SIZE_def)
  have raw: "hex_decode (hex_encode bs HEX_CAP) JK_FRAME_SIZE = bs" using hex_roundtrip [OF assms(2) cap] .
  have "hex_encode bs HEX_CAP \<noteq> []" using raw assms(3) by (auto simp: JK_FRAME_SIZE_def)
  then show ?thesis
    using assms(3-5) raw notify_line_fields [OF assms(1,2)] by (simp add: on_line_def)
qed

lemma on_notifies:
  assumes "\<forall>x \<in> set mac. mac_char x"
  shows "\<forall>b \<in> set cs. length b \<le> JK_FRAME_SIZE \<and> b \<noteq> [] \<Longrightarrow> jx_handshake_ok c \<Longrightarrow>
    jk_notifications (jx_asm c) cs = (fs, a) \<Longrightarrow>
    foldl (\<lambda>st l. on_line now (line_text l) st) (c, hs) (map (notify_line mac) cs) =
      (with_asm a (foldl (on_frame now) c fs), hs)"
proof (induction cs arbitrary: c fs)
  case (Cons b cs)
  obtain fs1 a1 where col: "jk_collect (jx_asm c) b = (fs1, a1)" by fastforce
  obtain fs2 where rest: "jk_notifications a1 cs = (fs2, a)" "fs = fs1 @ fs2"
    using Cons.prems(3) col by (auto split: prod.splits)
  let ?c = "foldl (on_frame now) (with_asm a1 c) fs1"
  have one: "on_line now (line_text (notify_line mac b)) (c, hs) = (?c, hs)"
    using on_notify [OF assms _ _ Cons.prems(2) col] Cons.prems(1) line_text_notify(1) [OF assms] by simp
  have "foldl (\<lambda>st l. on_line now (line_text l) st) (?c, hs) (map (notify_line mac) cs) =
      (with_asm a (foldl (on_frame now) ?c fs2), hs)"
    using Cons.IH [of ?c fs2] Cons.prems rest(1) by simp
  also have "with_asm a (foldl (on_frame now) ?c fs2) = with_asm a (foldl (on_frame now) c fs)"
    by (simp add: on_frames_asm rest(2))
  finally show ?case using one by simp
qed simp

lemma hold_same: "jx_in d = [] \<Longrightarrow> jx_asm d = a \<Longrightarrow> hold [] (with_asm a d) = d"
  by (cases d) simp

lemma env_same: "e\<lparr>je_rd := es, je_help := je_help e\<rparr> = e\<lparr>je_rd := es\<rparr>"
  by (cases e) simp

lemma last_cell_shown:
  assumes "fs \<noteq> []" and "jk_decode_cell_info (Some (last fs)) JK_PROTO_JK02_32S 0 = (JK_OK, r)"
  shows "jx_have_data (foldl (on_frame now) c fs) \<and> jx_cell (foldl (on_frame now) c fs) = r"
proof -
  have "last fs ! 4 = JK_FRAME_CELL_INFO"
    using assms(2) by (auto simp: jk_decode_cell_info_def jk_check_def Let_def split: if_splits)
  then have "on_frame now d (last fs) = d\<lparr>jx_cell := r, jx_have_data := True, jx_last_cell_mono := now\<rparr>" for d
    using on_cell_frame assms(2) by simp
  moreover have "foldl (on_frame now) c fs = on_frame now (foldl (on_frame now) c (butlast fs)) (last fs)"
    using foldl_append [of "on_frame now" c "butlast fs" "[last fs]"] assms(1) by simp
  ultimately show ?thesis by simp
qed

text \<open>
  C3: The reading follows the battery. When the helper passes on a stream of valid frames, cut into
  notifications of at most 213 bytes anywhere, and the socket cuts the helper's lines into chunks
  anywhere, one turn takes every frame exactly once and in order, and nothing is left over; so a
  plausible cell frame at the end is what the next reading shows.
\<close>

theorem jk_stream_followed:
  assumes "concat xs = concat (map (\<lambda>b. notify_line mac b @ [LF]) cs)" and "[] \<notin> set xs"
    and "concat cs = concat fs" and "\<forall>f \<in> set fs. jk_frame_valid f"
    and "\<forall>b \<in> set cs. strip_at b = b \<and> b \<noteq> [] \<and> length b \<le> 213"
    and "\<forall>x \<in> set mac. mac_char x" "length mac < 32"
    and "jx_handshake_ok c" "jx_in c = []" "jx_asm c = jk_assembler_init"
  shows "drain_in c (e\<lparr>je_rd := map Chunk xs\<rparr>) = (foldl (on_frame (je_now e)) c fs, e\<lparr>je_rd := []\<rparr>) \<and>
    (fs \<noteq> [] \<and> jk_decode_cell_info (Some (last fs)) JK_PROTO_JK02_32S 0 = (JK_OK, r) \<longrightarrow>
       (\<exists>c'. drain_in c (e\<lparr>je_rd := map Chunk xs\<rparr>) = (c', e\<lparr>je_rd := []\<rparr>) \<and> jx_have_data c' \<and> jx_cell c' = r))"
proof -
  let ?ls = "map (notify_line mac) cs"
  have small: "\<forall>b \<in> set cs. length b \<le> JK_FRAME_SIZE \<and> b \<noteq> []" using assms(5) by (auto simp: JK_FRAME_SIZE_def)
  have "length (notify_line mac b) + 1 < LINE_CAP" if "b \<in> set cs" for b
  proof -
    have "length (hex_encode b HEX_CAP) = 2 * length b" "length b \<le> 300"
      using small that length_hex_encode [of b HEX_CAP] by (auto simp: HEX_CAP_def JK_FRAME_SIZE_def)
    then show ?thesis using assms(7) by (simp add: notify_line_def LINE_CAP_def)
  qed
  then have lines: "\<forall>l \<in> set ?ls. LF \<notin> set l \<and> length l + 1 < LINE_CAP"
    using line_text_notify(2) [OF assms(6)] by auto
  have whole: "jx_in c @ concat xs = concat (map (\<lambda>l. l @ [LF]) ?ls) @ []"
    unfolding assms(1,9) by (simp add: comp_def)
  have "jk_notifications (jx_asm c) cs = (fs, jk_assembler_init)"
    using jk_clean_stream_delivered [OF assms(3,4)] assms(5,10) by simp
  note fold = on_notifies [OF assms(6) small assms(8) this, of "je_now e" "je_help e"]
  let ?c = "foldl (on_frame (je_now e)) c fs"
  have held: "hold [] (with_asm jk_assembler_init ?c) = ?c"
    by (rule hold_same) (simp_all add: assms(9,10))
  have "LF \<notin> set (jx_in c)" "LF \<notin> set ([] :: string)" "length ([] :: string) + 1 < LINE_CAP"
    using assms(9) by (simp_all add: LINE_CAP_def)
  note core = jk_lines_core [OF whole assms(2) this(1) lines this(2,3), of e]
  have all: "drain_in c (e\<lparr>je_rd := map Chunk xs\<rparr>) = (?c, e\<lparr>je_rd := []\<rparr>)"
    unfolding core fold prod.case held env_same ..
  show ?thesis using all last_cell_shown [of fs r "je_now e" c] by blast
qed

end
