(* ===== verification/JkSafety.thy ===== *)
theory JkSafety
  imports JkReading
begin

section \<open>The JK battery driver: invariants of a context\<close>

text \<open>
  What holds of a context in every state it can reach by opening, steps, settings and actions,
  whatever the helper, the battery and the clients send: buffers, the write queue with its
  registers inside safe limits, and how the connection's fields belong together.
\<close>

definition reg_safe :: "byte \<times> u32 \<Rightarrow> bool" where
  "reg_safe w \<longleftrightarrow> (let (reg, v) = w; mv = uint v in
     reg = JK_REG_CELL_OVP \<and> 2500 \<le> mv \<and> mv \<le> 4200 \<or>
     reg = JK_REG_CELL_OVPR \<and> 2400 \<le> mv \<and> mv \<le> 4100 \<or>
     reg = JK_REG_CELL_RCV \<and> 2490 \<le> mv \<and> mv \<le> 4190)"

text \<open>
  A settings document whose request charge voltage reads as NaN passes both of the clamps of
  \<open>put_rcv\<close> and is written as 0 mV. \<open>nan\<close> tells whether such a document has been sent.
\<close>

definition rcv_nan :: "string \<Rightarrow> bool" where
  "rcv_nan json \<longleftrightarrow> xd_is_nan (json_double json ''cell_rcv_v'' (XFin 0))"

definition wq_ok :: "bool \<Rightarrow> jk_ctx \<Rightarrow> bool" where
  "wq_ok nan c \<longleftrightarrow> length (jx_wq c) \<le> WQ_CAP \<and>
     (\<forall>w \<in> set (jx_wq c). reg_safe w \<or> nan \<and> w = (JK_REG_CELL_RCV, 0)) \<and>
     (if jx_wq c = [] then jx_wq_i c = 0 else jx_wq_i c < length (jx_wq c))"

definition link_ok :: "jk_ctx \<Rightarrow> bool" where
  "link_ok c \<longleftrightarrow> (jx_fd c = None \<longleftrightarrow> jx_state c = ST_IDLE) \<and> (jx_handshake_ok c \<longrightarrow> jx_state c = ST_STREAM) \<and>
     (jx_have_data c \<longrightarrow> jx_handshake_ok c)"

definition buffers_ok :: "jk_ctx \<Rightarrow> bool" where
  "buffers_ok c \<longleftrightarrow> length (jx_in c) < LINE_CAP \<and> length (jx_out c) < LINE_CAP \<and> jx_out_off c \<le> length (jx_out c)"

definition jk_ok :: "bool \<Rightarrow> jk_ctx \<Rightarrow> bool" where
  "jk_ok nan c \<longleftrightarrow> wq_ok nan c \<and> link_ok c \<and> buffers_ok c"

lemmas jk_oks = jk_ok_def wq_ok_def link_ok_def buffers_ok_def

subsection \<open>Volts and millivolts\<close>

lemma volts_to_mv_range:
  assumes "rat_of_int lo \<le> v * 1000" and "v * 1000 \<le> of_int hi" and "0 \<le> lo" "hi \<le> 4294967000"
  shows "lo \<le> uint (jk_volts_to_mv (XFin v))" and "uint (jk_volts_to_mv (XFin v)) \<le> hi"
proof -
  let ?n = "\<lfloor>v * 1000 + 1/2\<rfloor>"
  have n: "lo \<le> ?n" "?n \<le> hi" using assms(1,2) by (simp_all add: le_floor_iff floor_le_iff)
  have v: "0 \<le> v" "v \<le> 4294967"
  proof -
    have "0 \<le> rat_of_int lo" "rat_of_int hi \<le> of_int 4294967000" using assms(3,4) by (simp_all only: of_int_0_le_iff of_int_le_iff)
    then show "0 \<le> v" "v \<le> 4294967" using assms(1,2) by simp_all
  qed
  have "0 \<le> ?n" using n assms(3) by linarith
  moreover have "?n < 2 ^ 32" using le_less_trans [OF n(2), of "2 ^ 32"] assms(4) by simp
  ultimately
  have "uint (of_int ?n :: u32) = ?n" by (simp add: unsigned_of_int take_bit_int_eq_self)
  then show "lo \<le> uint (jk_volts_to_mv (XFin v))" "uint (jk_volts_to_mv (XFin v)) \<le> hi"
    using n by (simp_all add: volts_to_mv_fin [OF v])
qed

lemma rcv_safe: "249/100 \<le> v \<Longrightarrow> v \<le> 419/100 \<Longrightarrow> reg_safe (JK_REG_CELL_RCV, jk_volts_to_mv (XFin v))"
  using volts_to_mv_range [of 2490 v 4190] by (simp add: reg_safe_def)

lemma pair_range:
  shows "250/100 \<le> jk_clamp_ovp_v v" "jk_clamp_ovp_v v \<le> 420/100"
    and "240/100 \<le> jk_clamp_ovpr_v w (jk_clamp_ovp_v v)" "jk_clamp_ovpr_v w (jk_clamp_ovp_v v) \<le> 410/100"
proof -
  show o: "250/100 \<le> jk_clamp_ovp_v v" "jk_clamp_ovp_v v \<le> 420/100"
    using jk_ovp_range [of v] by (simp_all add: JK_OVP_MIN_V_def JK_OVP_MAX_V_def)
  show "240/100 \<le> jk_clamp_ovpr_v w (jk_clamp_ovp_v v)" "jk_clamp_ovpr_v w (jk_clamp_ovp_v v) \<le> 410/100"
    using o by (auto simp: jk_clamp_ovpr_alt jk_clamp_ovp_idem JK_OVPR_GAP_V_def max_def min_def)
qed

lemma ovp_safe: "reg_safe (JK_REG_CELL_OVP, jk_volts_to_mv (XFin (jk_clamp_ovp_v v)))"
  using volts_to_mv_range [of 2500 "jk_clamp_ovp_v v" 4200] pair_range(1,2) [of v] by (simp add: reg_safe_def)

lemma ovpr_safe: "reg_safe (JK_REG_CELL_OVPR, jk_volts_to_mv (XFin (jk_clamp_ovpr_v w (jk_clamp_ovp_v v))))"
  using volts_to_mv_range [of 2400 "jk_clamp_ovpr_v w (jk_clamp_ovp_v v)" 4100] pair_range(3,4) [of w v]
  by (simp add: reg_safe_def)

subsection \<open>Settings and actions\<close>

lemma queue_str_ok: "jk_ok nan c \<Longrightarrow> jk_ok nan (queue_str c s)"
  by (auto simp: queue_str_def jk_oks)

lemma queue_str_simps [simp]:
  "jx_fd (queue_str c s) = jx_fd c" "jx_wq (queue_str c s) = jx_wq c" "jx_wq_i (queue_str c s) = jx_wq_i c"
  "jx_handshake_ok (queue_str c s) = jx_handshake_ok c" "jx_have_data (queue_str c s) = jx_have_data c"
  "jx_state (queue_str c s) = jx_state c" "jx_in (queue_str c s) = jx_in c"
  "jx_settings (queue_str c s) = jx_settings c" "jx_mac (queue_str c s) = jx_mac c"
  "jx_wq_next (queue_str c s) = jx_wq_next c" "jx_adapter (queue_str c s) = jx_adapter c"
  by (simp_all add: queue_str_def)

lemma queue_hex_ok: "jk_ok nan c \<Longrightarrow> jk_ok nan (queue_hex_write c cmd)"
  by (simp add: queue_hex_write_def queue_str_ok)

lemma queue_hex_simps [simp]:
  "jx_fd (queue_hex_write c s) = jx_fd c" "jx_wq (queue_hex_write c s) = jx_wq c" "jx_wq_i (queue_hex_write c s) = jx_wq_i c"
  "jx_handshake_ok (queue_hex_write c s) = jx_handshake_ok c" "jx_have_data (queue_hex_write c s) = jx_have_data c"
  "jx_state (queue_hex_write c s) = jx_state c" "jx_in (queue_hex_write c s) = jx_in c"
  "jx_settings (queue_hex_write c s) = jx_settings c" "jx_mac (queue_hex_write c s) = jx_mac c"
  "jx_wq_next (queue_hex_write c s) = jx_wq_next c" "jx_adapter (queue_hex_write c s) = jx_adapter c"
  by (simp_all add: queue_hex_write_def)

lemma wq_push_ok: "jk_ok nan c \<Longrightarrow> reg_safe (reg, v) \<Longrightarrow> jk_ok nan (wq_push c reg v)"
  by (auto simp: wq_push_def jk_oks split: if_splits)

lemma jk_ok_settings [simp]: "jk_ok nan (c\<lparr>jx_settings := s\<rparr>) = jk_ok nan c" "jk_ok nan (c\<lparr>jx_have_settings := b\<rparr>) = jk_ok nan c"
  by (simp_all add: jk_oks)

lemma put_ovp_shape: "jk_ok nan (c\<lparr>jx_settings := s, jx_have_settings := b\<rparr>) = jk_ok nan c"
  by (simp add: jk_oks)

lemma push_rcv_ok: "jk_ok nan c \<Longrightarrow> 249/100 \<le> v \<Longrightarrow> v \<le> 419/100 \<Longrightarrow> jk_ok nan (push_rcv c (XFin v))"
  by (simp add: push_rcv_def Let_def wq_push_ok rcv_safe)

lemma push_nan_ok: "jk_ok True c \<Longrightarrow> jk_ok True (push_rcv c (XNaN s))"
  by (auto simp: push_rcv_def Let_def wq_push_def volts_to_mv_nan jk_oks split: if_splits)

lemma jk_ok_mono: "jk_ok nan c \<Longrightarrow> jk_ok (nan \<or> m) c"
  by (auto simp: jk_oks)

text \<open>The clamped request charge voltage: inside the range, or the NaN asked for.\<close>

definition clamped_rcv :: "cdouble \<Rightarrow> xdouble \<Rightarrow> xdouble" where
  "clamped_rcv ovp x =
     (let rcv = (if x < XFin (250/100) then XFin (250/100) else x)
      in if XFin (ovp - 1/100) < rcv then XFin (ovp - 1/100) else rcv)"

lemma clamped_rcv_cases:
  assumes "250/100 \<le> ovp" "ovp \<le> 420/100"
  shows "(\<exists>v. clamped_rcv ovp x = XFin v \<and> 249/100 \<le> v \<and> v \<le> 419/100) \<or> xd_is_nan x \<and> clamped_rcv ovp x = x"
proof -
  let ?r = "if x < XFin (250/100) then XFin (250/100) else x"
  have "?r = XFin (250/100) \<or> (\<exists>u. ?r = XFin u \<and> 250/100 \<le> u) \<or> ?r = XInf False \<or> xd_is_nan x \<and> ?r = x"
    by (cases x) auto
  then have r: "(\<exists>u. ?r = XFin u \<and> 250/100 \<le> u) \<or> ?r = XInf False \<or> xd_is_nan x \<and> ?r = x"
    by blast
  show ?thesis
  proof (cases "XFin (ovp - 1/100) < ?r")
    case True
    then show ?thesis using assms by (simp add: clamped_rcv_def)
  next
    case False
    then have eq: "clamped_rcv ovp x = ?r" by (simp add: clamped_rcv_def Let_def)
    from r consider (fin) u where "?r = XFin u" "250/100 \<le> u" | (inf) "?r = XInf False" | (nan) "xd_is_nan x" "?r = x"
      by blast
    then show ?thesis
    proof cases
      case fin
      then show ?thesis using False assms unfolding eq by (intro disjI1 exI [of _ u]) simp
    next
      case inf
      then show ?thesis using False by simp
    next
      case nan
      then show ?thesis using eq by simp
    qed
  qed
qed

lemma put_rcv_alt:
  "put_rcv c json = (push_rcv c (clamped_rcv
     (jk_clamp_ovp_v (if jx_have_settings c then XFin (js_cell_ovp_v (jx_settings c))
        else if has_key json ''cell_ovp_v'' then json_double json ''cell_ovp_v'' (XFin (365/100)) else XFin (365/100)))
     (json_double json ''cell_rcv_v'' (XFin 0))))\<lparr>jx_have_settings := True\<rparr>"
  by (simp only: put_rcv_def clamped_rcv_def Let_def)

lemma put_rcv_ok:
  assumes "jk_ok nan c"
  shows "jk_ok (nan \<or> rcv_nan json) (put_rcv c json)"
proof -
  let ?x = "json_double json ''cell_rcv_v'' (XFin 0)"
  have "jk_ok (nan \<or> rcv_nan json) (push_rcv c (clamped_rcv (jk_clamp_ovp_v u) ?x))" for u
    using clamped_rcv_cases [OF pair_range(1,2), of u ?x] jk_ok_mono [OF assms, of "rcv_nan json"]
      push_rcv_ok push_nan_ok [of c]
    by (cases ?x) (auto simp: rcv_nan_def)
  then show ?thesis by (simp only: put_rcv_alt jk_ok_settings)
qed

lemma lower_rcv_ok:
  assumes "jk_ok nan c" and "250/100 \<le> ovp" "ovp \<le> 420/100"
  shows "jk_ok nan (lower_rcv c ovp)"
  using assms by (auto simp: lower_rcv_def Let_def intro!: push_rcv_ok)

lemma put_ovp_ok: "jk_ok nan c \<Longrightarrow> jk_ok nan (put_ovp c json)"
  unfolding put_ovp_def asked_ovp_def asked_ovpr_def Let_def
  by (simp only: jk_ok_settings put_ovp_shape) (intro wq_push_ok lower_rcv_ok ovp_safe ovpr_safe pair_range)

lemma put_settings_ok: "jk_ok nan c \<Longrightarrow> jk_ok (nan \<or> rcv_nan json) (snd (snd (jk_put_settings c json)))"
proof -
  assume c: "jk_ok nan c"
  then have "jk_ok nan (c\<lparr>jx_poll_interval_s := iv\<rparr>)" for iv by (simp add: jk_oks)
  then show ?thesis
    using c by (simp add: jk_put_settings_def Let_def put_rcv_ok put_ovp_ok jk_ok_mono)
qed

lemma action_ok: "jk_ok nan c \<Longrightarrow> jk_ok nan (snd (snd (jk_action c action json)))"
proof -
  assume c: "jk_ok nan c"
  then have "jk_ok nan (c\<lparr>jx_trigger_v := v, jx_have_trigger := True\<rparr>)" "jk_ok nan (c\<lparr>jx_start_v := v, jx_have_start := True\<rparr>)"
      "jk_ok nan (c\<lparr>jx_bal_want := z\<rparr>)" for v z
    by (simp_all add: jk_oks)
  then show ?thesis using c by (simp add: jk_action_def Let_def queue_hex_ok)
qed

subsection \<open>The step\<close>

lemma on_frame_ok: "jk_ok nan c \<Longrightarrow> jx_handshake_ok c \<Longrightarrow> jk_ok nan (on_frame now c f)"
  by (auto simp: on_frame_def Let_def jk_oks split: prod.split)

lemma on_frames_ok: "jk_ok nan c \<Longrightarrow> jx_handshake_ok c \<Longrightarrow> jk_ok nan (foldl (on_frame now) c fs)"
  by (induction fs arbitrary: c) (simp_all add: on_frame_ok)

lemma mark_dropped_ok: "jk_ok nan c \<Longrightarrow> jk_ok nan (mark_dropped c)"
proof -
  assume c: "jk_ok nan c"
  then have "jk_ok nan (c\<lparr>jx_have_data := False\<rparr>)"
      "jk_ok nan (c\<lparr>jx_have_data := False, jx_handshake_ok := False, jx_need_cell_req := True\<rparr>)"
    by (auto simp: jk_oks)
  then show ?thesis by (simp add: mark_dropped_def send_connect_def Let_def queue_str_ok)
qed

lemma on_frame_fd [simp]: "jx_fd (on_frame now c f) = jx_fd c"
  by (simp add: on_frame_def Let_def split: prod.split)

lemma on_frames_fd [simp]: "jx_fd (foldl (on_frame now) c fs) = jx_fd c"
  by (induction fs arbitrary: c) simp_all

lemma mark_dropped_fd [simp]: "jx_fd (mark_dropped c) = jx_fd c"
  by (simp add: mark_dropped_def send_connect_def Let_def)

lemma on_line_ok:
  assumes "jk_ok nan c" and "jx_fd c \<noteq> None" and "on_line now l (c, hs) = (c', hs')"
  shows "jk_ok nan c' \<and> jx_fd c' \<noteq> None"
proof -
  have "jk_ok nan (c\<lparr>jx_handshake_ok := True, jx_need_cell_req := True, jx_state := ST_STREAM, jx_err := []\<rparr>)"
      "jk_ok nan (c\<lparr>jx_err := m\<rparr>)" "jk_ok nan (c\<lparr>jx_asm := a\<rparr>)" for m a
    using assms(1,2) by (auto simp: jk_oks)
  then show ?thesis
    using assms
    by (auto simp: on_line_def Let_def mark_dropped_ok on_frames_ok split: if_splits prod.splits)
qed

lemma drain_lines_ok:
  "jk_ok nan c \<Longrightarrow> jx_fd c \<noteq> None \<Longrightarrow> drain_lines now t (c, hs) = (r, c', hs') \<Longrightarrow>
   jk_ok nan c' \<and> jx_fd c' \<noteq> None \<and> length r \<le> length t"
proof (induction "length t" arbitrary: t c hs rule: less_induct)
  case less
  show ?case
  proof (cases "LF \<in> set t")
    case True
    then obtain l q where t: "t = l @ LF # q" "LF \<notin> set l" by (meson split_list_first)
    obtain c1 hs1 where one: "on_line now (line_text l) (c, hs) = (c1, hs1)" by fastforce
    then have "jk_ok nan c1" "jx_fd c1 \<noteq> None" using on_line_ok less.prems by blast+
    then show ?thesis using less.hyps [of q c1 hs1] less.prems(3) t one by (auto simp: drain_lines_line)
  next
    case False
    then show ?thesis using less.prems by (simp add: drain_lines_none)
  qed
qed

lemma sock_close_ok: "jk_ok nan c \<Longrightarrow> sock_close c e = (c', e') \<Longrightarrow> jk_ok nan c' \<and> jx_fd c' = None"
  by (auto simp: sock_close_def jk_oks LINE_CAP_def)

lemma set_err_ok [simp]: "jk_ok nan (set_err c m) = jk_ok nan c" "jx_fd (set_err c m) = jx_fd c"
  by (simp_all add: set_err_def jk_oks)

lemma drain_in_ok: "jk_ok nan c \<Longrightarrow> jx_fd c \<noteq> None \<Longrightarrow> jk_ok nan (fst (drain_in c e))"
proof (induction "ev_size (je_rd e)" arbitrary: c e rule: less_induct)
  case less
  define h where "h = (if LINE_CAP \<le> length (jx_in c) + 1 then [] else jx_in c)"
  have room: "0 < LINE_CAP - 1 - length h" by (auto simp: h_def LINE_CAP_def)
  obtain g es where rd: "read_some (LINE_CAP - 1 - length h) (je_rd e) = (g, es)" by fastforce
  note turn = drain_in.simps [of c e, unfolded Let_def, folded h_def, unfolded rd prod.case]
  show ?case
  proof (cases g)
    case (Got bs)
    obtain r c' hs where d: "drain_lines (je_now e) (h @ bs) (c, je_help e) = (r, c', hs)" using prod_cases3 by blast
    then have c': "jk_ok nan c'" "jx_fd c' \<noteq> None" "length r \<le> length h + length bs"
      using drain_lines_ok [OF less.prems] by fastforce+
    moreover have "length bs \<le> LINE_CAP - 1 - length h" using read_some_len rd Got by blast
    ultimately have "length r < LINE_CAP" using room by linarith
    then have "jk_ok nan (c'\<lparr>jx_in := r\<rparr>)" "jx_fd (c'\<lparr>jx_in := r\<rparr>) \<noteq> None" using c' by (simp_all add: jk_oks)
    moreover have "ev_size es < ev_size (je_rd e)" using read_some_progress rd Got room by blast
    ultimately have "jk_ok nan (fst (drain_in (c'\<lparr>jx_in := r\<rparr>) (e\<lparr>je_rd := es, je_help := hs\<rparr>)))"
      using less.hyps [of "e\<lparr>je_rd := es, je_help := hs\<rparr>"] by simp
    then show ?thesis unfolding turn Got got.case d prod.case .
  next
    case Again
    have "jk_ok nan (c\<lparr>jx_in := h\<rparr>)" using less.prems room by (auto simp: jk_oks)
    then show ?thesis unfolding turn Again got.case by simp
  next
    case Eof
    show ?thesis unfolding turn Eof got.case
      by (auto dest: sock_close_ok [OF less.prems(1)] split: prod.split)
  next
    case Failed
    show ?thesis unfolding turn Failed got.case
      by (auto dest: sock_close_ok [OF less.prems(1)] split: prod.split)
  qed
qed

lemma pump_requests_ok: "jk_ok nan c \<Longrightarrow> jk_ok nan (pump_requests now c) \<and> jx_fd (pump_requests now c) = jx_fd c"
proof -
  assume c: "jk_ok nan c"
  then have h: "jk_ok nan (queue_hex_write c s)" "jk_ok nan (queue_hex_write (queue_hex_write c s) s')" for s s'
    by (simp_all add: queue_hex_ok)
  have upd: "jk_ok nan d \<Longrightarrow> jk_ok nan (d\<lparr>jx_last_cell_req := u\<rparr>)" "jk_ok nan d \<Longrightarrow> jk_ok nan (d\<lparr>jx_last_settings_req := u\<rparr>)"
      "jk_ok nan d \<Longrightarrow> jk_ok nan (d\<lparr>jx_need_cell_req := b, jx_last_cell_req := u, jx_last_settings_req := w\<rparr>)" for d u w b
    by (simp_all add: jk_oks)
  have wq: "jk_ok nan d \<Longrightarrow> jk_ok nan (d\<lparr>jx_wq_i := i, jx_wq_next := u, jx_wq := [], jx_wq_i := 0, jx_want_settings := b, jx_last_settings_req := w\<rparr>)"
      "jk_ok nan d \<Longrightarrow> i < length (jx_wq d) \<Longrightarrow> jk_ok nan (d\<lparr>jx_wq_i := i, jx_wq_next := u\<rparr>)" for d i u b w
    by (auto simp: jk_oks)
  show ?thesis
    using h upd wq c by (auto simp: pump_requests_def Let_def not_le split: prod.split)
qed

lemma pump_stale_ok: "jk_ok nan c \<Longrightarrow> jk_ok nan (pump_stale now c) \<and> jx_fd (pump_stale now c) = jx_fd c"
proof -
  assume "jk_ok nan c"
  then have "jk_ok nan (c\<lparr>jx_have_data := False\<rparr>)" by (simp add: jk_oks)
  then show ?thesis using \<open>jk_ok nan c\<close> by (simp add: pump_stale_def)
qed

lemma write_all_bound: "write_all es n = (ok, m, es') \<Longrightarrow> m \<le> n"
proof (induction es n arbitrary: ok m es' rule: write_all.induct)
  case (5 k es n)
  obtain ok' m' es'' where w: "write_all es (Suc n - min k (Suc n)) = (ok', m', es'')" using prod_cases3 by blast
  then have "m' \<le> Suc n - min k (Suc n)" using 5(1) [OF refl w] by simp
  then show ?case using 5(2) w by (auto simp: Let_def)
qed auto

lemma flush_out_ok: "jk_ok nan c \<Longrightarrow> jk_ok nan (fst (flush_out c e))"
proof -
  assume c: "jk_ok nan c"
  obtain ok n es where w: "write_all (je_wr e) (length (drop (jx_out_off c) (jx_out c))) = (ok, n, es)"
    using prod_cases3 by blast
  then have "n \<le> length (jx_out c) - jx_out_off c" using write_all_bound by fastforce
  then have off: "jk_ok nan (c\<lparr>jx_out_off := jx_out_off c + n\<rparr>)" and none: "jk_ok nan (c\<lparr>jx_out := [], jx_out_off := 0\<rparr>)"
    using c by (auto simp: jk_oks)
  show ?thesis
    unfolding flush_out_def Let_def w prod.case
    using off none by (auto simp: sock_close_ok [OF off, THEN conjunct1] dest: sock_close_ok [OF off] simp: sock_close_def jk_oks LINE_CAP_def)
qed

lemma jk_ok_mask [simp]: "jk_ok nan (c\<lparr>jx_want_read := a, jx_want_write := b\<rparr>) = jk_ok nan c"
  by (simp add: jk_oks)

lemma pump_io_ok: "jk_ok nan c \<Longrightarrow> jk_ok nan (fst (snd (pump_io c e)))"
proof -
  assume c: "jk_ok nan c"
  obtain c1 e1 where c1: "(if jx_fd c \<noteq> None then drain_in c e else (c, e)) = (c1, e1)" by fastforce
  then have ok1: "jk_ok nan c1" using drain_in_ok [OF c, of e] c by (auto split: if_splits)
  define c2 where "c2 = (if jx_handshake_ok c1 \<and> jx_fd c1 \<noteq> None
      then pump_stale (je_now e1) (pump_requests (je_now e1) c1) else c1)"
  have ok2: "jk_ok nan c2" using ok1 pump_requests_ok pump_stale_ok by (simp add: c2_def)
  obtain c3 e3 where c3: "(if jx_fd c2 \<noteq> None then flush_out c2 e1 else (c2, e1)) = (c3, e3)" by fastforce
  then have "jk_ok nan c3" using flush_out_ok [OF ok2, of e1] ok2 by (auto split: if_splits)
  then show ?thesis
    unfolding pump_io_def c1 Let_def prod.case c2_def [symmetric] c3 by simp
qed

lemma start_connect_ok:
  assumes "jk_ok nan c" and "jx_state c = ST_IDLE" and "start_connect c e = (b, c', e')"
  shows "jk_ok nan c'"
  using assms by (auto simp: start_connect_def Let_def split: if_splits unix_connect.splits) (auto simp: jk_oks)

lemma send_connect_ok: "jk_ok nan c \<Longrightarrow> jk_ok nan (send_connect c)"
  by (simp add: send_connect_def queue_str_ok)

lemma pump_ok: "jk_ok nan c \<Longrightarrow> jk_ok nan (fst (snd (pump c e)))"
proof -
  assume c: "jk_ok nan c"
  have conn: "jk_ok nan (case finish_connecting d f of Inl r \<Rightarrow> fst (snd r) | Inr (d', f') \<Rightarrow> fst (snd (pump_io d' f')))"
    if d: "jk_ok nan d" for d f
  proof (cases "jx_state d = ST_CONNECTING")
    case True
    then have "jx_fd d \<noteq> None" "\<not> jx_handshake_ok d" "\<not> jx_have_data d" using d by (auto simp: jk_oks)
    then have "jk_ok nan (d\<lparr>jx_state := ST_HANDSHAKE\<rparr>)" using d by (auto simp: jk_oks)
    then have "jk_ok nan (send_connect (d\<lparr>jx_state := ST_HANDSHAKE\<rparr>))" by (rule send_connect_ok)
    moreover have "jk_ok nan (fst (sock_close d f))" using sock_close_ok [OF d] by (metis prod.collapse)
    ultimately show ?thesis
      using True d pump_io_ok
      by (auto simp: finish_connecting_def Let_def split: conn_poll.split option.split prod.split)
  next
    case False
    then show ?thesis using pump_io_ok [OF d] by (simp add: finish_connecting_def)
  qed
  have step: "fst (snd (pump c e)) = (case (if jx_state c = ST_IDLE
      then if je_now e < jx_next_try c then Inl (MF_STEP_IDLE, c, e)
           else case start_connect c e of (False, c, e) \<Rightarrow> Inl (MF_STEP_IDLE, c, e)
             | (True, c, e) \<Rightarrow> Inr (if jx_state c = ST_HANDSHAKE then send_connect c else c, e)
      else Inr (c, e)) of Inl r \<Rightarrow> fst (snd r)
    | Inr (d, f) \<Rightarrow> (case finish_connecting d f of Inl r \<Rightarrow> fst (snd r) | Inr (d', f') \<Rightarrow> fst (snd (pump_io d' f'))))"
    unfolding pump_def by (auto split: sum.split prod.split)
  obtain b c1 e1 where s: "start_connect c e = (b, c1, e1)" using prod_cases3 by blast
  show ?thesis
  proof (cases "jx_state c = ST_IDLE \<and> \<not> je_now e < jx_next_try c")
    case True
    then have "jk_ok nan c1" using start_connect_ok [OF c _ s] by blast
    then show ?thesis
      using True c conn [of "if jx_state c1 = ST_HANDSHAKE then send_connect c1 else c1" e1]
      unfolding step by (cases b) (auto simp: s send_connect_ok split: if_splits)
  next
    case False
    then show ?thesis using c conn [OF c] unfolding step by auto
  qed
qed

subsection \<open>Reachable contexts\<close>

text \<open>\<open>jk_reach sent c\<close>: \<open>sent\<close> are the settings documents the clients have sent so far.\<close>

inductive jk_reach :: "string list \<Rightarrow> jk_ctx \<Rightarrow> bool" where
  reach_open: "jk_open spec e = (msg, c, e') \<Longrightarrow> jk_reach [] c"
| reach_step: "jk_reach sent c \<Longrightarrow> jk_step c e = (r, c', e') \<Longrightarrow> jk_reach sent c'"
| reach_put: "jk_reach sent c \<Longrightarrow> jk_put_settings c json = (rc, msg, c') \<Longrightarrow> jk_reach (json # sent) c'"
| reach_action: "jk_reach sent c \<Longrightarrow> jk_action c action json = (rc, msg, c') \<Longrightarrow> jk_reach sent c'"

lemma jk_open_ok: "jk_open spec e = (msg, c, e') \<Longrightarrow> jk_ok nan c"
proof -
  assume open_: "jk_open spec e = (msg, c, e')"
  define d where "d = (let ble = json_ble_scope spec; ad = json_str ble ''adapter'' 16;
      iv = json_double spec ''poll_interval_s'' (XFin 0);
      poll = (if XFin 0 < iv then iv else XFin POLL_DEFAULT)
    in jk_ctx_zero\<lparr>jx_bal_want := -1, jx_mac := json_str ble ''address'' 32,
         jx_adapter := (if ad = [] then ''hci0'' else ad), jx_name := json_str spec ''name'' 64,
         jx_gatt_bin := json_str spec ''gatt_bin'' 256,
         jx_poll_interval_s := (if poll < XFin POLL_MIN then XFin POLL_MIN else poll), jx_asm := jk_assembler_init\<rparr>)"
  have d: "jk_ok nan d" "jx_state d = ST_IDLE"
    by (simp_all add: d_def jk_oks jk_ctx_zero_def LINE_CAP_def Let_def)
  have eq: "jk_open spec e = (if jx_mac d = [] then let c = set_err d ''ble.address required'' in (jx_err c, c, e)
       else case start_connect d e of
         (False, c, e) \<Rightarrow> (jx_err c, c\<lparr>jx_next_try := je_now e + 1/5\<rparr>, e)
       | (True, c, e) \<Rightarrow> ([], if jx_state c = ST_HANDSHAKE then send_connect c else c, e))"
    unfolding jk_open_def d_def Let_def ..
  obtain b c1 e1 where s: "start_connect d e = (b, c1, e1)" using prod_cases3 by blast
  have c1: "jk_ok nan c1" using start_connect_ok [OF d(1,2) s] .
  then have "jk_ok nan (c1\<lparr>jx_next_try := u\<rparr>)" for u by (simp add: jk_oks)
  then show ?thesis
    using open_ c1 d(1) send_connect_ok [OF c1] unfolding eq s by (cases b) (auto simp: Let_def split: if_splits)
qed

lemma jk_reach_ok: "jk_reach sent c \<Longrightarrow> jk_ok (list_ex rcv_nan sent) c"
proof (induction rule: jk_reach.induct)
  case (reach_open spec e msg c e')
  then show ?case by (rule jk_open_ok)
next
  case (reach_step sent c e r c' e')
  then show ?case using pump_ok [of _ c e] by (simp add: jk_step_def)
next
  case (reach_put sent c json rc msg c')
  then show ?case using put_settings_ok [of "list_ex rcv_nan sent" c json] by (simp add: disj_commute)
next
  case (reach_action sent c action json rc msg c')
  then show ?case using action_ok [of _ c action json] by simp
qed

text \<open>
  C2: In every reachable state of a JK battery's context, whatever the helper, the battery and the
  clients sent: at most six register writes wait, each to the over-voltage trip (2.50 to 4.20 V),
  its recovery (2.40 to 4.10 V) or the request charge voltage (2.49 to 4.19 V), the one exception
  being a request charge voltage of 0 V, which waits only when one of the settings documents sent so
  far has a \<open>cell_rcv_v\<close> that reads as NaN; both line buffers are within their 4 KiB; a reading is
  only offered on a connection that has been confirmed; and a context without a socket is idle.
\<close>

theorem jk_context_safe:
  assumes "jk_reach sent c"
  shows "length (jx_wq c) \<le> WQ_CAP \<and>
    (\<forall>w \<in> set (jx_wq c). reg_safe w \<or> w = (JK_REG_CELL_RCV, 0) \<and>
       (\<exists>json \<in> set sent. xd_is_nan (json_double json ''cell_rcv_v'' (XFin 0)))) \<and>
    (jx_wq c \<noteq> [] \<longrightarrow> jx_wq_i c < length (jx_wq c)) \<and>
    length (jx_in c) < LINE_CAP \<and> length (jx_out c) < LINE_CAP \<and> jx_out_off c \<le> length (jx_out c) \<and>
    (jk_get_reading c cap \<noteq> None \<longrightarrow> jx_handshake_ok c \<and> jx_state c = ST_STREAM \<and> jx_fd c \<noteq> None) \<and>
    (jx_fd c = None \<longleftrightarrow> jx_state c = ST_IDLE)"
proof -
  have ok: "wq_ok (list_ex rcv_nan sent) c" "link_ok c" "buffers_ok c"
    using jk_reach_ok [OF assms] by (simp_all add: jk_ok_def)
  have "jx_handshake_ok c \<and> jx_state c = ST_STREAM \<and> jx_fd c \<noteq> None" if "jk_get_reading c cap \<noteq> None"
    using that ok(2) by (auto simp: jk_get_reading_def link_ok_def split: if_splits)
  moreover have "reg_safe w \<or> w = (JK_REG_CELL_RCV, 0) \<and>
      (\<exists>json \<in> set sent. xd_is_nan (json_double json ''cell_rcv_v'' (XFin 0)))" if "w \<in> set (jx_wq c)" for w
    using that ok(1) by (auto simp: wq_ok_def list_ex_iff rcv_nan_def)
  ultimately show ?thesis using ok by (auto simp: wq_ok_def link_ok_def buffers_ok_def split: if_splits)
qed

subsection \<open>What a settings request queues\<close>

lemma on_grid_minus: "on_grid v \<Longrightarrow> on_grid (v - 5/100)" "on_grid v \<Longrightarrow> on_grid (v - 1/100)"
proof -
  have "(v - 5/100) * 1000 = v * 1000 - 50" "(v - 1/100) * 1000 = v * 1000 - 10" by (simp_all add: algebra_simps)
  then show "on_grid v \<Longrightarrow> on_grid (v - 5/100)" "on_grid v \<Longrightarrow> on_grid (v - 1/100)"
    unfolding on_grid_def by (simp_all only: Ints_diff Ints_numeral)
qed

text \<open>The voltage \<open>lower_rcv\<close> writes.\<close>

definition lowered_rcv :: "cdouble \<Rightarrow> cdouble" where
  "lowered_rcv ovp =
     (let rcv = (if ovp - 5/100 < 340/100 then 340/100 else ovp - 5/100)
      in if ovp \<le> rcv then ovp - 1/100 else rcv)"

lemma lowered_rcv_below:
  assumes "on_grid ovp" and "250/100 \<le> ovp" "ovp \<le> 420/100"
  shows "lowered_rcv ovp < ovp" and "uint (jk_volts_to_mv (XFin (lowered_rcv ovp))) < uint (jk_volts_to_mv (XFin ovp))"
proof -
  show l: "lowered_rcv ovp < ovp" using assms(2) by (simp add: lowered_rcv_def Let_def)
  have "on_grid (340/100)" by (simp add: on_grid_def)
  then have "on_grid (lowered_rcv ovp)" "0 \<le> lowered_rcv ovp" "lowered_rcv ovp \<le> 4294967"
    using assms on_grid_minus by (auto simp: lowered_rcv_def Let_def)
  then have "rat_of_int (uint (jk_volts_to_mv (XFin (lowered_rcv ovp)))) < of_int (uint (jk_volts_to_mv (XFin ovp)))"
    using volts_to_mv_grid [of "lowered_rcv ovp"] volts_to_mv_grid [of ovp] assms l by simp
  then show "uint (jk_volts_to_mv (XFin (lowered_rcv ovp))) < uint (jk_volts_to_mv (XFin ovp))" by (simp only: of_int_less_iff)
qed

lemma put_ovp_queue:
  assumes "length (jx_wq c) + 3 \<le> WQ_CAP"
  shows "jx_wq (put_ovp c json) = jx_wq c @
      (if jx_have_settings c \<and> XFin (asked_ovp c json - 1/1000) \<le> js_cell_rcv_v (jx_settings c)
       then [(JK_REG_CELL_RCV, jk_volts_to_mv (XFin (lowered_rcv (asked_ovp c json))))] else []) @
      [(JK_REG_CELL_OVP, jk_volts_to_mv (XFin (asked_ovp c json))), (JK_REG_CELL_OVPR, jk_volts_to_mv (XFin (asked_ovpr c json)))]"
    and "jx_settings (put_ovp c json) = (jx_settings c)\<lparr>
      js_cell_rcv_v := (if jx_have_settings c \<and> XFin (asked_ovp c json - 1/1000) \<le> js_cell_rcv_v (jx_settings c)
        then XFin (lowered_rcv (asked_ovp c json)) else js_cell_rcv_v (jx_settings c)),
      js_cell_ovp_v := asked_ovp c json, js_cell_ovpr_v := asked_ovpr c json\<rparr>"
  using assms by (simp_all add: put_ovp_def lower_rcv_def push_rcv_def wq_push_def lowered_rcv_def Let_def WQ_CAP_def)


end
