(* ===== verification/JkFaults.thy ===== *)
theory JkFaults
  imports JkSafety
begin

section \<open>The JK battery driver: failures, and examples\<close>

text \<open>
  What the driver does in situations it does not handle: a cell frame its decoder refuses, a helper
  that dies while the socket reports an error, a settings request before the first settings frame
  or with a full write queue. The concrete contexts below are those the properties are applied to.
\<close>

subsection \<open>A refused cell frame\<close>

text \<open>
  C31: A cell frame the decoder refuses as implausible still becomes the reading: when the context has
  data already, the next reading is printed from the refused values.
\<close>

theorem jk_refused_frame_shown:
  assumes "jx_have_data c" and "f ! 4 = JK_FRAME_CELL_INFO" and "0 < cap"
    and "jk_decode_cell_info (Some f) JK_PROTO_JK02_32S 0 = (JK_EIMPLAUSIBLE, bad)"
  shows "jk_get_reading (on_frame now c f) cap = Some (c_copy cap (concat (reading_pieces (c\<lparr>jx_cell := bad\<rparr>))))"
  using assms by (simp add: on_cell_frame jk_get_reading_def js_append_fold)

subsection \<open>A helper that is never started again\<close>

text \<open>A turn in which nobody listens on the helper's address: its time, what \<open>fork\<close> would return, the socket.\<close>

definition refused_turn :: "cdouble \<times> int option \<times> nat \<Rightarrow> jk_ctx \<times> jk_env \<Rightarrow> jk_ctx \<times> jk_env" where
  "refused_turn = (\<lambda>(t, pid, fd) (c, e).
     snd (pump c (e\<lparr>je_now := t, je_connect := Conn_failed fd ECONNREFUSED, je_fork := pid\<rparr>)))"

definition row_up :: "string \<Rightarrow> helper_row_t list \<Rightarrow> bool" where
  "row_up adapter hs \<longleftrightarrow> (case row_index (or_hci0 adapter) hs of Some i \<Rightarrow> i < length hs \<and> hr_st (hs ! i) = H_UP | None \<Rightarrow> False)"

lemma spawn_up: "row_up (jx_adapter c) (je_help e) \<Longrightarrow> helper_spawn c e = e"
proof -
  assume "row_up (jx_adapter c) (je_help e)"
  then obtain i where i: "row_index (or_hci0 (jx_adapter c)) (je_help e) = Some i" "hr_st (je_help e ! i) = H_UP"
    by (auto simp: row_up_def split: option.splits)
  then have "helper_row (jx_adapter c) (je_help e) = (Some i, je_help e)" by (simp add: helper_row_def)
  then show "helper_spawn c e = e" using i(2) by (simp add: helper_spawn_def Let_def)
qed

lemma start_connect_refused:
  "je_connect e = Conn_failed fd ECONNREFUSED \<Longrightarrow> start_connect c e =
     (if abs_addr (jx_adapter c) = None then (False, set_err c ''bad adapter'', e)
      else (False, set_err c ''helper starting'', helper_spawn c (e\<lparr>je_closed := je_closed e @ [fd]\<rparr>)))"
  by (simp add: start_connect_def helper_needed_def)

lemma refused_turn_idle:
  assumes "jx_state c = ST_IDLE" and "row_up (jx_adapter c) (je_help e)" and "refused_turn i (c, e) = (c', e')"
  shows "jx_state c' = ST_IDLE \<and> jx_adapter c' = jx_adapter c \<and> jx_fd c' = jx_fd c \<and>
    je_help e' = je_help e \<and> je_forked e' = je_forked e"
proof -
  obtain t pid fd where i: "i = (t, pid, fd)" by (cases i)
  let ?e = "e\<lparr>je_now := t, je_connect := Conn_failed fd ECONNREFUSED, je_fork := pid\<rparr>"
  have "helper_spawn c (?e\<lparr>je_closed := q\<rparr>) = ?e\<lparr>je_closed := q\<rparr>" for q
    using assms(2) by (intro spawn_up) simp
  then obtain m d where sc: "start_connect c ?e = (False, set_err c m, d)" "je_help d = je_help e" "je_forked d = je_forked e"
    using start_connect_refused [of ?e fd c] by (cases "abs_addr (jx_adapter c) = None") simp_all
  have "pump c ?e = (MF_STEP_IDLE, c, ?e) \<or> pump c ?e = (MF_STEP_IDLE, set_err c m, d)"
    using assms(1) sc(1) by (simp add: pump_def)
  then have "c' = c \<and> e' = ?e \<or> c' = set_err c m \<and> e' = d"
    using assms(3) unfolding i by (auto simp: refused_turn_def)
  then show ?thesis using assms(1) sc(2,3) by (auto simp: set_err_def)
qed

lemma refused_turns_idle:
  "jx_state c = ST_IDLE \<Longrightarrow> row_up (jx_adapter c) (je_help e) \<Longrightarrow> fold refused_turn is (c, e) = (c', e') \<Longrightarrow>
   jx_fd c' = jx_fd c \<and> je_forked e' = je_forked e"
proof (induction "is" arbitrary: c e)
  case (Cons i "is")
  obtain c1 e1 where t: "refused_turn i (c, e) = (c1, e1)" by fastforce
  note one = refused_turn_idle [OF Cons.prems(1,2) t]
  show ?case using one Cons.IH [of c1 e1] Cons.prems(2,3) t by simp
qed simp

lemma read_error_turn:
  assumes "jx_state c = ST_STREAM" and "jx_fd c = Some k" and "je_rd e = [Rd_fail]" and "pump c e = (r, c', e')"
  shows "jx_state c' = ST_IDLE \<and> jx_fd c' = None \<and> jx_adapter c' = jx_adapter c \<and>
    je_help e' = je_help e \<and> je_forked e' = je_forked e"
proof -
  have d: "drain_in c e = (let (c, e) = sock_close c (e\<lparr>je_rd := []\<rparr>) in (set_err c ''read'', e))"
    using assms(3) by (subst drain_in.simps) (simp add: Let_def)
  show ?thesis
    using assms(1,2,4)
    by (auto simp: pump_def finish_connecting_def pump_io_def d sock_close_def set_err_def close_opt_fd_def Let_def)
qed

text \<open>
  C32: When the helper of a connected battery dies so that the socket reports an error instead of the
  end of the stream, no helper is started again: its row still says it is up, and however many
  turns follow in which the connection is refused, no process is started and no socket opened.
\<close>

theorem jk_helper_not_restarted:
  assumes "jx_handshake_ok c" "jx_state c = ST_STREAM" "jx_fd c = Some k"
    and "row_up (jx_adapter c) (je_help e)" and "je_rd e = [Rd_fail]"
    and "pump c e = (r, c1, e1)" and "fold refused_turn is (c1, e1) = (c2, e2)"
  shows "jx_fd c2 = None \<and> je_forked e2 = je_forked e"
  using read_error_turn [OF assms(2,3,5,6)] refused_turns_idle [OF _ _ assms(7)] assms(4) by simp

subsection \<open>Settings\<close>

text \<open>
  With a full write queue a settings request is answered as a success although nothing of it will
  be written: the queue is unchanged, while the settings shown are the ones asked for.
\<close>

theorem jk_full_queue_drops:
  assumes "jx_handshake_ok c" and "length (jx_wq c) = WQ_CAP" and "has_key json ''cell_ovp_v''"
    and "\<not> has_key json ''cell_rcv_v''" and "\<not> has_key json ''poll_interval_s''"
  shows "\<exists>c'. jk_put_settings c json = (MF_OK, [], c') \<and> jx_wq c' = jx_wq c \<and>
    jx_have_settings c' \<and> js_cell_ovp_v (jx_settings c') = jk_clamp_ovp_v (json_double json ''cell_ovp_v'' (XFin 0))"
proof -
  have "json_double json ''poll_interval_s'' (XFin (-1)) = XFin (-1)"
    using assms(5) by (simp add: has_key_def json_double_def json_value_text_def)
  then have "jk_put_settings c json = (MF_OK, [], put_ovp c json)"
    using assms(1,3,4) by (simp add: jk_put_settings_def Let_def)
  then show ?thesis
    using assms(2,3) by (simp add: put_ovp_def lower_rcv_def push_rcv_def wq_push_def asked_ovp_def Let_def)
qed

lemma put_rcv_first:
  assumes "jx_wq c = []" and "\<not> jx_have_settings c" and "\<not> has_key j ''cell_ovp_v''"
    and "json_double j ''cell_rcv_v'' (XFin 0) = XFin v" and "250/100 \<le> v" "v \<le> 364/100"
  shows "jx_wq (put_rcv c j) = [(JK_REG_CELL_RCV, jk_volts_to_mv (XFin v))]"
    and "jx_settings (put_rcv c j) = (jx_settings c)\<lparr>js_cell_rcv_v := XFin v\<rparr>" and "jx_have_settings (put_rcv c j)"
proof -
  have "on_grid (365/100)" by (simp add: on_grid_def)
  then have "jk_clamp_ovp_v (XFin (365/100)) = 365/100"
    by (intro jk_clamp_ovp_id) (simp_all add: JK_OVP_MIN_V_def JK_OVP_MAX_V_def)
  then show "jx_wq (put_rcv c j) = [(JK_REG_CELL_RCV, jk_volts_to_mv (XFin v))]"
      "jx_settings (put_rcv c j) = (jx_settings c)\<lparr>js_cell_rcv_v := XFin v\<rparr>" "jx_have_settings (put_rcv c j)"
    using assms by (auto simp: put_rcv_def push_rcv_def wq_push_def WQ_CAP_def Let_def)
qed

text \<open>
  A request charge voltage that reads as NaN is not refused and not clamped: the settings request is
  answered as a success, 0 mV is queued for the battery, and the settings then shown have the NaN.
  (No document of JSON numbers reads so, but the driver looks for the key in the text of any document:
  a string with \<open>cell_rcv_v\<close>, a colon and \<open>nan\<close> is enough.)
\<close>

theorem jk_nan_rcv_queued:
  assumes "jx_handshake_ok c" and "length (jx_wq c) < WQ_CAP"
    and "has_key json ''cell_rcv_v''" "json_double json ''cell_rcv_v'' (XFin 0) = XNaN s"
    and "\<not> has_key json ''cell_ovp_v''" "\<not> has_key json ''cell_ovpr_v''" "\<not> has_key json ''poll_interval_s''"
  shows "\<exists>c'. jk_put_settings c json = (MF_OK, [], c') \<and> jx_wq c' = jx_wq c @ [(JK_REG_CELL_RCV, 0)] \<and>
    jx_have_settings c' \<and> js_cell_rcv_v (jx_settings c') = XNaN s"
proof -
  have "json_double json ''poll_interval_s'' (XFin (-1)) = XFin (-1)"
    using assms(7) by (simp add: has_key_def json_double_def json_value_text_def)
  then have "jk_put_settings c json = (MF_OK, [], put_rcv c json)"
    using assms(1,3,5,6) by (simp add: jk_put_settings_def Let_def)
  then show ?thesis
    using assms(2,4) by (simp add: put_rcv_alt clamped_rcv_def push_rcv_def wq_push_def volts_to_mv_nan Let_def)
qed

text \<open>
  C33: Two harmless requests before the battery's first settings frame switch the battery off: after the
  request charge voltage was set, a request that only names the recovery voltage writes an
  over-voltage trip of 2.50 V, below any charged cell, because the settings not yet received read
  as zero.
\<close>

theorem jk_early_requests_trip:
  assumes "jx_handshake_ok c" and "jx_wq c = []" "\<not> jx_have_settings c" "js_cell_ovp_v (jx_settings c) = 0"
    and "has_key j1 ''cell_rcv_v''" "\<not> has_key j1 ''cell_ovp_v''" "\<not> has_key j1 ''cell_ovpr_v''" "\<not> has_key j1 ''poll_interval_s''"
    and "XFin (250/100) \<le> json_double j1 ''cell_rcv_v'' (XFin 0)" "json_double j1 ''cell_rcv_v'' (XFin 0) \<le> XFin (364/100)"
    and "has_key j2 ''cell_ovpr_v''" "\<not> has_key j2 ''cell_ovp_v''" "\<not> has_key j2 ''cell_rcv_v''" "\<not> has_key j2 ''poll_interval_s''"
    and "jk_put_settings c j1 = (rc1, m1, c1)" and "jk_put_settings c1 j2 = (rc2, m2, c2)"
  shows "rc1 = MF_OK \<and> rc2 = MF_OK \<and> (\<exists>a b. jx_wq c2 =
    [(JK_REG_CELL_RCV, a), (JK_REG_CELL_RCV, 2490), (JK_REG_CELL_OVP, 2500), (JK_REG_CELL_OVPR, b)])"
proof -
  obtain v where v_def: "json_double j1 ''cell_rcv_v'' (XFin 0) = XFin v"
    using assms(9,10) by (cases "json_double j1 ''cell_rcv_v'' (XFin 0)") auto
  have iv: "json_double j1 ''poll_interval_s'' (XFin (-1)) = XFin (-1)" "json_double j2 ''poll_interval_s'' (XFin (-1)) = XFin (-1)"
    using assms(8,14) by (simp_all add: has_key_def json_double_def json_value_text_def)
  then have one: "rc1 = MF_OK" "c1 = put_rcv c j1"
    using assms(1,5-7,15) by (auto simp: jk_put_settings_def Let_def)
  note p = put_rcv_first [OF assms(2,3,6) v_def, folded one(2)]
  have v: "250/100 \<le> v" "v \<le> 364/100" using assms(9,10) by (simp_all add: v_def)
  have hs: "jx_handshake_ok c1" using assms(1) by (simp add: one(2) put_rcv_def push_rcv_def wq_push_def Let_def)
  then have two: "rc2 = MF_OK" "c2 = put_ovp c1 j2"
    using iv(2) assms(11-13,16) by (auto simp: jk_put_settings_def Let_def)
  have r0: "round3 (XFin 0) = 0" by (rule round3_id) (simp_all add: on_grid_def)
  have ovp: "asked_ovp c1 j2 = 250/100"
    using assms(4,12) p(2,3) [OF v] by (simp add: asked_ovp_def jk_clamp_ovp_v_def r0 JK_OVP_MIN_V_def Let_def)
  have low: "lowered_rcv (250/100) = 249/100" by (simp add: lowered_rcv_def Let_def)
  have mv: "jk_volts_to_mv (XFin (249/100)) = 2490" "jk_volts_to_mv (XFin (250/100)) = 2500"
  proof -
    have "\<lfloor>4981 / 2 :: rat\<rfloor> = 2490" "\<lfloor>5001 / 2 :: rat\<rfloor> = 2500" by (simp_all add: floor_eq_iff)
    then show "jk_volts_to_mv (XFin (249/100)) = 2490" "jk_volts_to_mv (XFin (250/100)) = 2500"
      by (simp_all add: volts_to_mv_fin)
  qed
  have "jx_wq c2 = jx_wq c1 @ [(JK_REG_CELL_RCV, 2490), (JK_REG_CELL_OVP, 2500), (JK_REG_CELL_OVPR, jk_volts_to_mv (XFin (asked_ovpr c1 j2)))]"
    unfolding two(2) put_ovp_queue(1) [of c1 j2, unfolded ovp low mv]
    using put_ovp_queue(1) [of c1 j2, unfolded ovp low mv] p [OF v] v by (simp add: WQ_CAP_def)
  then show ?thesis using one(1) two(1) p(1) [OF v] by simp
qed

end
