(* ===== verification/JkExamples.thy ===== *)
theory JkExamples
  imports JkFaults
begin

section \<open>The JK battery driver: the properties at concrete contexts\<close>

text \<open>
  An opened context, one with a confirmed connection, an environment without events, the helper
  table with the row of \<open>hci0\<close> up, and a battery frame that is refused; with the theorems of the
  driver applied to them.
\<close>

definition env0 :: jk_env where
  "env0 = \<lparr>je_now = 100, je_connect = Conn_done 7, je_poll = Not_writable, je_fork = Some 42, je_gone = False,
     je_gatt_bin = [], je_rd = [], je_wr = [], je_help = g_help_init, je_sent = [], je_forked = [], je_closed = []\<rparr>"

definition ctx_live :: jk_ctx where
  "ctx_live = jk_ctx_zero\<lparr>jx_mac := ''AA:BB:CC:00:11:22'', jx_adapter := ''hci0'', jx_fd := Some 7, jx_state := ST_STREAM,
     jx_handshake_ok := True, jx_bal_want := -1\<rparr>"

definition help_up :: "helper_row_t list" where
  "help_up = g_help_init[0 := \<lparr>hr_adapter = ''hci0'', hr_st = H_UP, hr_pid = 42, hr_refcnt = 1\<rparr>]"

text \<open>A cell frame with a state of charge of 200 percent.\<close>

definition refused_frame :: "byte list" where
  "refused_frame = (let f = sample_cell_frame[173 := 200] in f[299 := jk_crc8 (take 299 f)])"

theorem jk_lines_delivered_witness:
  "drain_in jk_ctx_zero (env0\<lparr>je_rd := map Chunk [''{x'', [CHR ''}'', LF], ''{y'']\<rparr>) =
    (case on_line 100 (line_text ''{x}'') (jk_ctx_zero, je_help env0) of
       (c', hs) \<Rightarrow> (c'\<lparr>jx_in := ''{y''\<rparr>, env0\<lparr>je_rd := [], je_help := hs\<rparr>))"
  using jk_lines_delivered [of jk_ctx_zero "[''{x'', [CHR ''}'', LF], ''{y'']" "[''{x}'']" "''{y''" env0]
  by (simp add: jk_ctx_zero_def env0_def LINE_CAP_def)

lemma sample_cells_0: "fst (jk_decode_cell_info (Some sample_cell_frame) JK_PROTO_JK02_32S 0) = JK_OK"
  by code_simp

lemma sample_cell_valid: "jk_frame_valid sample_cell_frame"
  by code_simp

theorem jk_stream_followed_witness:
  "let cs = [take 150 sample_cell_frame, drop 150 sample_cell_frame];
       line = concat (map (\<lambda>b. notify_line ''AA:BB'' b @ [LF]) cs)
   in \<exists>c'. drain_in ctx_live (env0\<lparr>je_rd := map Chunk [take 100 line, drop 100 line]\<rparr>) = (c', env0\<lparr>je_rd := []\<rparr>) \<and>
     jx_have_data c' \<and> jx_cell c' = snd (jk_decode_cell_info (Some sample_cell_frame) JK_PROTO_JK02_32S 0)"
proof -
  define cs where "cs = [take 150 sample_cell_frame, drop 150 sample_cell_frame]"
  define line where "line = concat (map (\<lambda>b. notify_line ''AA:BB'' b @ [LF]) cs)"
  have len: "100 < length line" by (simp add: line_def cs_def notify_line_def) (code_simp)
  have cut: "\<forall>b \<in> set cs. strip_at b = b \<and> b \<noteq> [] \<and> length b \<le> 213" unfolding cs_def by code_simp
  have mac: "\<forall>x \<in> set ''AA:BB''. mac_char x" by code_simp
  have dec: "jk_decode_cell_info (Some (last [sample_cell_frame])) JK_PROTO_JK02_32S 0 =
      (JK_OK, snd (jk_decode_cell_info (Some sample_cell_frame) JK_PROTO_JK02_32S 0))"
    using prod.collapse [of "jk_decode_cell_info (Some sample_cell_frame) JK_PROTO_JK02_32S 0"] sample_cells_0 by simp
  define xs where "xs = [take 100 line, drop 100 line]"
  have xs: "concat xs = concat (map (\<lambda>b. notify_line ''AA:BB'' b @ [LF]) cs)" "[] \<notin> set xs"
    using len by (auto simp: xs_def line_def [symmetric])
  have fs: "concat cs = concat [sample_cell_frame]" "\<forall>f \<in> set [sample_cell_frame]. jk_frame_valid f"
    using sample_cell_valid by (simp_all add: cs_def)
  have live: "jx_handshake_ok ctx_live" "jx_in ctx_live = []" "jx_asm ctx_live = jk_assembler_init" "length ''AA:BB'' < 32"
    by (simp_all add: ctx_live_def jk_ctx_zero_def)
  have "\<exists>c'. drain_in ctx_live (env0\<lparr>je_rd := map Chunk xs\<rparr>) = (c', env0\<lparr>je_rd := []\<rparr>) \<and>
      jx_have_data c' \<and> jx_cell c' = snd (jk_decode_cell_info (Some sample_cell_frame) JK_PROTO_JK02_32S 0)"
    using jk_stream_followed [OF xs fs cut mac live(4) live(1-3), THEN conjunct2, rule_format, OF conjI, OF _ dec] by blast
  then show ?thesis
    unfolding Let_def cs_def [symmetric] line_def [symmetric] xs_def [symmetric] .
qed

theorem jk_refused_frame_shown_witness:
  "ci_soc_pct (snd (jk_decode_cell_info (Some refused_frame) JK_PROTO_JK02_32S 0)) = 200 \<and>
   jk_get_reading (on_frame 101 (ctx_live\<lparr>jx_have_data := True\<rparr>) refused_frame) 8192 =
     Some (c_copy 8192 (concat (reading_pieces (ctx_live\<lparr>jx_have_data := True,
       jx_cell := snd (jk_decode_cell_info (Some refused_frame) JK_PROTO_JK02_32S 0)\<rparr>))))"
proof
  show "ci_soc_pct (snd (jk_decode_cell_info (Some refused_frame) JK_PROTO_JK02_32S 0)) = 200" by code_simp
  have "fst (jk_decode_cell_info (Some refused_frame) JK_PROTO_JK02_32S 0) = JK_EIMPLAUSIBLE" by code_simp
  then have "jk_decode_cell_info (Some refused_frame) JK_PROTO_JK02_32S 0 =
      (JK_EIMPLAUSIBLE, snd (jk_decode_cell_info (Some refused_frame) JK_PROTO_JK02_32S 0))"
    by (metis prod.collapse)
  moreover have "refused_frame ! 4 = JK_FRAME_CELL_INFO" by code_simp
  ultimately show "jk_get_reading (on_frame 101 (ctx_live\<lparr>jx_have_data := True\<rparr>) refused_frame) 8192 =
     Some (c_copy 8192 (concat (reading_pieces (ctx_live\<lparr>jx_have_data := True,
       jx_cell := snd (jk_decode_cell_info (Some refused_frame) JK_PROTO_JK02_32S 0)\<rparr>))))"
    by (intro jk_refused_frame_shown) simp_all
qed

theorem jk_helper_not_restarted_witness:
  "je_forked (snd (fold refused_turn [(101, Some 43, 8), (102, Some 44, 9)]
     (snd (pump ctx_live (env0\<lparr>je_help := help_up, je_rd := [Rd_fail]\<rparr>))))) = []"
proof -
  let ?e = "env0\<lparr>je_help := help_up, je_rd := [Rd_fail]\<rparr>"
  obtain r c1 e1 where p: "pump ctx_live ?e = (r, c1, e1)" using prod_cases3 by blast
  obtain c2 e2 where q: "fold refused_turn [(101, Some 43, 8), (102, Some 44, 9)] (c1, e1) = (c2, e2)" by fastforce
  have "row_up (jx_adapter ctx_live) (je_help ?e)" "je_rd ?e = [Rd_fail]" "je_forked ?e = []" "jx_handshake_ok ctx_live"
    "jx_state ctx_live = ST_STREAM" "jx_fd ctx_live = Some 7"
    by code_simp+
  then have "je_forked e2 = []" using jk_helper_not_restarted [OF _ _ _ _ _ p q] by metis
  then show ?thesis using p q by simp
qed

theorem jk_context_safe_witness:
  "jx_fd (fst (snd (jk_open ''{\"ble\":{\"address\":\"AA:BB\"}}'' env0))) = Some 7 \<and>
   list_all reg_safe (jx_wq (fst (snd (jk_open ''{\"ble\":{\"address\":\"AA:BB\"}}'' env0))))"
proof
  show "jx_fd (fst (snd (jk_open ''{\"ble\":{\"address\":\"AA:BB\"}}'' env0))) = Some 7" by code_simp
  obtain m c e where o: "jk_open ''{\"ble\":{\"address\":\"AA:BB\"}}'' env0 = (m, c, e)" using prod_cases3 by blast
  then have "jk_reach [] c" by (rule reach_open)
  then show "list_all reg_safe (jx_wq (fst (snd (jk_open ''{\"ble\":{\"address\":\"AA:BB\"}}'' env0))))"
    using jk_context_safe [of "[]" c] o by (simp add: list_all_iff)
qed


theorem jk_full_queue_drops_witness:
  "fst (jk_put_settings (ctx_live\<lparr>jx_wq := replicate 6 (JK_REG_CELL_RCV, 3400)\<rparr>) ''{\"cell_ovp_v\":3.65}'') = MF_OK"
proof -
  have "has_key ''{\"cell_ovp_v\":3.65}'' ''cell_ovp_v''" "\<not> has_key ''{\"cell_ovp_v\":3.65}'' ''cell_rcv_v''"
    "\<not> has_key ''{\"cell_ovp_v\":3.65}'' ''poll_interval_s''"
    by code_simp+
  then show ?thesis
    using jk_full_queue_drops [of "ctx_live\<lparr>jx_wq := replicate 6 (JK_REG_CELL_RCV, 3400)\<rparr>" "''{\"cell_ovp_v\":3.65}''"]
    by (auto simp: ctx_live_def WQ_CAP_def)
qed

theorem jk_nan_rcv_queued_witness:
  "jx_wq (snd (snd (jk_put_settings ctx_live ''{\"a\":[\"cell_rcv_v\",\"x:nan\"]}''))) = [(JK_REG_CELL_RCV, 0)]"
proof -
  let ?j = "''{\"a\":[\"cell_rcv_v\",\"x:nan\"]}''"
  have k: "has_key ?j ''cell_rcv_v''" "json_double ?j ''cell_rcv_v'' (XFin 0) = XNaN False" "\<not> has_key ?j ''cell_ovp_v''"
    "\<not> has_key ?j ''cell_ovpr_v''" "\<not> has_key ?j ''poll_interval_s''" by code_simp+
  have c: "jx_handshake_ok ctx_live" "length (jx_wq ctx_live) < WQ_CAP" "jx_wq ctx_live = []" by code_simp+
  show ?thesis using jk_nan_rcv_queued [OF c(1,2) k] c(3) by auto
qed

theorem jk_early_requests_trip_witness:
  "let c1 = snd (snd (jk_put_settings ctx_live ''{\"cell_rcv_v\":3.45}''));
       c2 = snd (snd (jk_put_settings c1 ''{\"cell_ovpr_v\":3.5}''))
   in (JK_REG_CELL_OVP, 2500) \<in> set (jx_wq c2)"
proof -
  let ?j1 = "''{\"cell_rcv_v\":3.45}''" and ?j2 = "''{\"cell_ovpr_v\":3.5}''"
  obtain rc1 m1 c1 where p1: "jk_put_settings ctx_live ?j1 = (rc1, m1, c1)" using prod_cases3 by blast
  obtain rc2 m2 c2 where p2: "jk_put_settings c1 ?j2 = (rc2, m2, c2)" using prod_cases3 by blast
  have c: "jx_handshake_ok ctx_live" "jx_wq ctx_live = []" "\<not> jx_have_settings ctx_live" "js_cell_ovp_v (jx_settings ctx_live) = 0"
    by (simp_all add: ctx_live_def jk_ctx_zero_def jk_settings_zero_def)
  have j1: "has_key ?j1 ''cell_rcv_v''" "\<not> has_key ?j1 ''cell_ovp_v''" "\<not> has_key ?j1 ''cell_ovpr_v''" "\<not> has_key ?j1 ''poll_interval_s''"
    "XFin (250/100) \<le> json_double ?j1 ''cell_rcv_v'' (XFin 0)" "json_double ?j1 ''cell_rcv_v'' (XFin 0) \<le> XFin (364/100)"
    by code_simp+
  have j2: "has_key ?j2 ''cell_ovpr_v''" "\<not> has_key ?j2 ''cell_ovp_v''" "\<not> has_key ?j2 ''cell_rcv_v''" "\<not> has_key ?j2 ''poll_interval_s''"
    by code_simp+
  have "(JK_REG_CELL_OVP, 2500) \<in> set (jx_wq c2)"
    using jk_early_requests_trip [OF c j1 j2 p1 p2] by auto
  then show ?thesis using p1 p2 by simp
qed

end
