(* ===== verification/XdPlugin.thy ===== *)
theory XdPlugin
  imports XdRealtime UsbId PluginApi
begin

section \<open>The XD battery driver (src/plugins/battery_xd/plugin.c)\<close>

text \<open>
  One context per battery: it opens the serial port, checks and follows the adapter's identity, asks
  once for firmware and barcode and then polls the realtime reading, one non-blocking exchange at a
  time. \<open>xd_env\<close> is what lies outside: the clock, the answers to opening a path, the file system of
  the USB adapters, the queue of endpoint events, the exchange's clock and serial line, and the log of
  closed descriptors. The functions that scan settings and print into a buffer are those of
  \<open>PluginApi\<close>. The body array behind the received bytes is zero, as \<open>bms_txrx_init\<close> leaves it.
\<close>

definition XD_POLL_DEFAULT :: cdouble where "XD_POLL_DEFAULT = 2"
definition XD_POLL_MIN :: cdouble where "XD_POLL_MIN = 1/2"
definition IO_TIMEOUT_S :: cdouble where "IO_TIMEOUT_S = 3/2"
definition TX_SETTLE_S :: cdouble where "TX_SETTLE_S = 1/4"

subsection \<open>The serial port\<close>

text \<open>What \<open>open\<close>, \<open>tcgetattr\<close> and \<open>tcsetattr\<close> answer for a path, and the text of \<open>errno\<close>.\<close>

record serial_os =
  so_open :: "nat option"
  so_getattr :: bool
  so_setattr :: bool
  so_errno :: string

text \<open>The descriptor, and the descriptors closed on the way.\<close>

definition serial_open_internal :: "serial_os \<Rightarrow> int \<Rightarrow> nat option \<times> nat list" where
  "serial_open_internal os baud =
     (case baud_to_speed baud of
        None \<Rightarrow> (None, [])
      | Some speed \<Rightarrow>
          (case so_open os of
             None \<Rightarrow> (None, [])
           | Some fd \<Rightarrow> if \<not> so_getattr os then (None, [fd])
                        else if \<not> so_setattr os then (None, [fd])
                        else (Some fd, [])))"

subsection \<open>Data\<close>

datatype xd_cmd = CMD_FW | CMD_BARCODE | CMD_POLL

record xd_ctx =
  xc_uuid :: string
  xc_path :: string
  xc_serial_id :: string
  xc_by_id :: string
  xc_baud :: int
  xc_addr :: int
  xc_auto_port :: bool
  xc_poll_interval_s :: xdouble
  xc_fd :: "nat option"
  xc_want_read :: bool
  xc_want_write :: bool
  xc_io_active :: bool
  xc_cmd_phase :: xd_cmd
  xc_next_poll :: xdouble
  xc_reopen_at :: xdouble
  xc_io :: bms_txrx_state
  xc_rt :: bms_realtime
  xc_have_data :: bool
  xc_firmware :: string
  xc_barcode :: string
  xc_err :: string

record xd_env =
  xe_now :: cdouble
  xe_serial :: "string \<Rightarrow> serial_os"
  xe_fs :: usb_fs
  xe_ring :: ring
  xe_bms :: bms_env
  xe_strerror :: string
  xe_closed :: "nat list"

definition xd_realtime_zero :: bms_realtime where
  "xd_realtime_zero = \<lparr>cell_count = 0, temp_count = 0, cell_voltages_v = replicate 32 0, cell_balancing = replicate 32 False,
     temperatures_c = replicate 8 0, current_a = 0, soc_pct = 0, soh_pct = 0, full_capacity_ah = 0,
     remaining_capacity_ah = 0, pack_voltage_v = 0, cycles = 0, raw_status = replicate 12 0\<rparr>"

definition xd_ctx_zero :: xd_ctx where
  "xd_ctx_zero = \<lparr>xc_uuid = [], xc_path = [], xc_serial_id = [], xc_by_id = [], xc_baud = 0, xc_addr = 0,
     xc_auto_port = False, xc_poll_interval_s = XFin 0, xc_fd = None, xc_want_read = False, xc_want_write = False,
     xc_io_active = False, xc_cmd_phase = CMD_FW, xc_next_poll = XFin 0, xc_reopen_at = XFin 0,
     xc_io = \<lparr>tx_addr = 0, tx_cmd = 0, tx_timeout = 0, deadline = 0, settle_until = 0, tx = [], tx_sent = 0,
       rx_head = [], rx_tail = [], rx_tail_need = 0, tx_phase = 0, rx_body = [], tx_err = NoErr\<rparr>,
     xc_rt = xd_realtime_zero, xc_have_data = False, xc_firmware = [], xc_barcode = [], xc_err = []\<rparr>"

definition json_usb_scope :: "string \<Rightarrow> string" where
  "json_usb_scope js = (case json_find_key js ''usb'' of Some p \<Rightarrow> p | None \<Rightarrow> js)"

definition xd_set_err :: "xd_ctx \<Rightarrow> string \<Rightarrow> xd_ctx" where
  "xd_set_err c m = c\<lparr>xc_err := c_copy 96 m\<rparr>"

text \<open>Blanks at the end are cut, then what does not fit.\<close>

definition is_trail :: "byte \<Rightarrow> bool" where
  "is_trail b \<longleftrightarrow> b = 0x20 \<or> b = 0x09 \<or> b = 0x0D \<or> b = 0x0A"

definition copy_ascii :: "nat \<Rightarrow> byte list \<Rightarrow> string" where
  "copy_ascii cap body =
     (let t = rev (dropWhile is_trail (rev (takeWhile (\<lambda>b. b \<noteq> 0) body)))
      in map (\<lambda>b. char_of (unat b)) (take (cap - 1) t))"

definition cmd_for_phase :: "xd_cmd \<Rightarrow> byte" where
  "cmd_for_phase phase = (case phase of CMD_FW \<Rightarrow> 0x33 | CMD_BARCODE \<Rightarrow> 0x42 | CMD_POLL \<Rightarrow> 0x01)"

text \<open>The text the exchange leaves in \<open>io.err\<close>.\<close>

definition hex2 :: "byte \<Rightarrow> string" where
  "hex2 b = ''0x'' @ hex_encode [b] 3"

definition bms_err_text :: "string \<Rightarrow> bms_err \<Rightarrow> string" where
  "bms_err_text es e = (case e of
      NoErr \<Rightarrow> []
    | DataTooLong n \<Rightarrow> ''data too long: '' @ nat_digits n
    | TimeoutInPhase p \<Rightarrow> ''timeout in phase '' @ dec_int p
    | WriteError \<Rightarrow> ''write: '' @ es
    | ReadHeadError \<Rightarrow> ''read head: '' @ es
    | HeadTimeout n \<Rightarrow> [] | BodyTimeout n \<Rightarrow> []
    | BadSoi b \<Rightarrow> ''bad SOI: '' @ hex2 b
    | AddrMismatch a b \<Rightarrow> ''addr '' @ nat_digits (unat a) @ '' != '' @ nat_digits (unat b)
    | CmdMismatch a b \<Rightarrow> ''cmd '' @ hex2 a @ '' != '' @ hex2 b
    | FrameTooLarge n \<Rightarrow> ''frame too large: LEN='' @ nat_digits (unat n)
    | ReadBodyError \<Rightarrow> ''read body: '' @ es
    | ChecksumMismatch a b \<Rightarrow> ''checksum mismatch: got '' @ hex2 a @ '' want '' @ hex2 b
    | BadEoi b \<Rightarrow> ''bad EOI: '' @ hex2 b
    | InvalidPhase p \<Rightarrow> ''invalid phase '' @ dec_int p)"

subsection \<open>Opening\<close>

definition try_open_fd :: "xd_ctx \<Rightarrow> xd_env \<Rightarrow> bool \<times> xd_ctx \<times> xd_env" where
  "try_open_fd c e =
     (if xc_path c = [] then (False, xd_set_err c ''usb.path required'', e)
      else let os = xe_serial e (xc_path c);
               (fd, closed) = serial_open_internal os (xc_baud c);
               e = e\<lparr>xe_closed := xe_closed e @ closed\<rparr>
           in case fd of
             None \<Rightarrow> (False, xd_set_err c (''open failed: '' @ so_errno os), e)
           | Some k \<Rightarrow> (True, c\<lparr>xc_fd := Some k, xc_err := []\<rparr>, e))"

definition xd_drop_fd :: "xd_ctx \<Rightarrow> xd_env \<Rightarrow> xd_ctx \<times> xd_env" where
  "xd_drop_fd c e =
     (case xc_fd c of
        Some k \<Rightarrow> (c\<lparr>xc_fd := None, xc_io_active := False\<rparr>, e\<lparr>xe_closed := xe_closed e @ [k]\<rparr>)
      | None \<Rightarrow> (c, e))"

definition take_identity :: "usb_id \<Rightarrow> xd_ctx \<Rightarrow> xd_ctx" where
  "take_identity got c =
     (let c = (if ui_serial_id got \<noteq> [] then c\<lparr>xc_serial_id := c_copy 64 (ui_serial_id got)\<rparr> else c)
      in if ui_by_id got \<noteq> [] then c\<lparr>xc_by_id := c_copy 256 (ui_by_id got)\<rparr> else c)"

text \<open>The boolean is whether the code returns 0.\<close>

definition apply_usb_policy :: "xd_ctx \<Rightarrow> bool \<Rightarrow> xd_env \<Rightarrow> bool \<times> xd_ctx \<times> xd_env" where
  "apply_usb_policy c opened e =
     (let w = \<lparr>uw_path = c_copy 128 (xc_path c), uw_serial_id = c_copy 64 (xc_serial_id c),
            uw_by_id = c_copy 256 (xc_by_id c), uw_auto_port = xc_auto_port c, uw_path_ok = opened\<rparr>;
          (rc, got, ring) = mf_usb_resolve (xe_fs e) (xc_uuid c) w (xe_ring e);
          e = e\<lparr>xe_ring := ring\<rparr>
      in case rc of
           MF_USB_LEARN \<Rightarrow> (True, take_identity got c, e)
         | MF_USB_USE \<Rightarrow> (True, take_identity got c, e)
         | MF_USB_RELOCATE \<Rightarrow>
             (let (c, e) = xd_drop_fd c e
              in try_open_fd (take_identity got (c\<lparr>xc_path := c_copy 128 (ui_path got)\<rparr>)) e)
         | MF_USB_ERROR \<Rightarrow>
             if opened \<and> xc_fd c \<noteq> None \<and> (xc_serial_id c \<noteq> [] \<or> xc_by_id c \<noteq> [])
             then let (c, e) = xd_drop_fd c e in (False, xd_set_err c ''usb identity mismatch'', e)
             else (opened, c, e))"

definition start_cmd :: "xd_ctx \<Rightarrow> xd_cmd \<Rightarrow> xd_env \<Rightarrow> xd_ctx" where
  "start_cmd c phase e =
     c\<lparr>xc_cmd_phase := phase, xc_io_active := True,
       xc_io := bms_txrx_init (of_int (xc_addr c)) (cmd_for_phase phase) [] IO_TIMEOUT_S TX_SETTLE_S (now0 (xe_bms e))\<rparr>"

text \<open>Opening the path and applying the policy, as \<open>xd_open\<close> and \<open>xd_step\<close> do it.\<close>

definition xd_connect :: "xd_ctx \<Rightarrow> xd_env \<Rightarrow> bool \<times> xd_ctx \<times> xd_env" where
  "xd_connect c e =
     (case try_open_fd c e of
        (True, c, e) \<Rightarrow> apply_usb_policy c True e
      | (False, c, e) \<Rightarrow>
          (case apply_usb_policy c False e of (ok, c, e) \<Rightarrow> (ok \<and> xc_fd c \<noteq> None, c, e)))"

definition xd_open :: "string \<Rightarrow> xd_env \<Rightarrow> string \<times> xd_ctx \<times> xd_env" where
  "xd_open spec e =
     (let usb = json_usb_scope spec;
          baud = json_int usb ''baud'' 9600;
          addr = json_int usb ''addr'' 1;
          iv = json_double spec ''poll_interval_s'' (XFin 0);
          poll = (if XFin 0 < iv then iv else XFin XD_POLL_DEFAULT);
          c = xd_ctx_zero\<lparr>xc_uuid := json_str spec ''uuid'' 40, xc_path := json_str usb ''path'' 128,
                xc_serial_id := json_str usb ''serial_id'' 64, xc_by_id := json_str usb ''by_id'' 256,
                xc_baud := (if baud \<le> 0 then 9600 else baud),
                xc_addr := (if addr \<le> 0 \<or> 255 < addr then 1 else addr),
                xc_auto_port := json_bool usb ''auto_port'' False,
                xc_poll_interval_s := (if poll < XFin XD_POLL_MIN then XFin XD_POLL_MIN else poll)\<rparr>
      in case xd_connect c e of
           (True, c, e) \<Rightarrow> ([], start_cmd c CMD_FW e, e)
         | (False, c, e) \<Rightarrow> (xc_err c, c\<lparr>xc_reopen_at := XFin (xe_now e) + xc_poll_interval_s c\<rparr>, e))"

definition xd_close :: "xd_ctx \<Rightarrow> xd_env \<Rightarrow> xd_env" where
  "xd_close c e = snd (xd_drop_fd c e)"

definition xd_fd :: "xd_ctx \<Rightarrow> nat option" where
  "xd_fd c = xc_fd c"

definition xd_mask :: "xd_ctx \<Rightarrow> bool \<times> bool" where
  "xd_mask c = (xc_want_read c, xc_want_write c)"

subsection \<open>The step\<close>

definition body_buffer :: "byte list \<Rightarrow> byte list" where
  "body_buffer body = body @ replicate (BMS_MAX_PAYLOAD - length body) 0"

definition xd_done :: "xd_ctx \<Rightarrow> cdouble \<Rightarrow> mf_step \<times> xd_ctx" where
  "xd_done c now =
     (let body = rx_body (xc_io c) in
      case xc_cmd_phase c of
        CMD_FW \<Rightarrow> (MF_STEP_IDLE, c\<lparr>xc_firmware := copy_ascii 64 body, xc_cmd_phase := CMD_BARCODE, xc_next_poll := XFin now, xc_err := []\<rparr>)
      | CMD_BARCODE \<Rightarrow> (MF_STEP_IDLE, c\<lparr>xc_barcode := copy_ascii 64 body, xc_cmd_phase := CMD_POLL, xc_next_poll := XFin now, xc_err := []\<rparr>)
      | CMD_POLL \<Rightarrow>
          (let (rc, rt) = bms_parse_realtime (body_buffer body) (length body) (xc_rt c);
               c = c\<lparr>xc_rt := rt\<rparr>
           in if rc \<noteq> 0 then (MF_STEP_ERROR, (xd_set_err c ''parse failed'')\<lparr>xc_next_poll := XFin now + xc_poll_interval_s c\<rparr>)
              else (MF_STEP_UPDATED, c\<lparr>xc_have_data := True, xc_err := [], xc_next_poll := XFin now + xc_poll_interval_s c\<rparr>)))"

definition xd_exchange :: "xd_ctx \<Rightarrow> xd_env \<Rightarrow> mf_step \<times> xd_ctx \<times> xd_env" where
  "xd_exchange c e =
     (let (s, io, be) = bms_txrx_step (xc_io c) (xe_bms e);
          c = c\<lparr>xc_io := io\<rparr>; e = e\<lparr>xe_bms := be\<rparr>; now = xe_now e
      in case s of
           BMS_IO_NEED_READ \<Rightarrow> (MF_STEP_IDLE, c\<lparr>xc_want_read := True\<rparr>, e)
         | BMS_IO_NEED_WRITE \<Rightarrow> (MF_STEP_IDLE, c\<lparr>xc_want_write := True\<rparr>, e)
         | BMS_IO_NEED_TIME \<Rightarrow> (MF_STEP_IDLE, c, e)
         | BMS_IO_DONE \<Rightarrow> (let (r, c) = xd_done (c\<lparr>xc_io_active := False\<rparr>) now in (r, c, e))
         | _ \<Rightarrow>
             (let m = bms_err_text (xe_strerror e) (tx_err io);
                  c = xd_set_err (c\<lparr>xc_io_active := False\<rparr>) (if m \<noteq> [] then m else ''io error'');
                  c = c\<lparr>xc_next_poll := XFin now + xc_poll_interval_s c\<rparr>
              in (MF_STEP_ERROR,
                  c\<lparr>xc_cmd_phase := (case xc_cmd_phase c of CMD_FW \<Rightarrow> CMD_BARCODE | _ \<Rightarrow> CMD_POLL)\<rparr>, e)))"

definition xd_step :: "xd_ctx \<Rightarrow> xd_env \<Rightarrow> mf_step \<times> xd_ctx \<times> xd_env" where
  "xd_step c e =
     (let now = xe_now e; c = c\<lparr>xc_want_read := False, xc_want_write := False\<rparr> in
      case (if xc_fd c = None
            then if XFin now < xc_reopen_at c then Inl (MF_STEP_IDLE, c, e)
                 else case xd_connect c e of
                   (True, c, e) \<Rightarrow> Inr (start_cmd c CMD_FW e, e)
                 | (False, c, e) \<Rightarrow> Inl (MF_STEP_ERROR, c\<lparr>xc_reopen_at := XFin now + xc_poll_interval_s c\<rparr>, e)
            else Inr (c, e)) of
        Inl r \<Rightarrow> r
      | Inr (c, e) \<Rightarrow>
          if \<not> xc_io_active c
          then if XFin now < xc_next_poll c then (MF_STEP_IDLE, c, e)
               else xd_exchange (start_cmd c (xc_cmd_phase c) e) e
          else xd_exchange c e)"

definition xd_caps :: nat where
  "xd_caps = MF_CAP_READ + MF_CAP_PROBE + MF_CAP_AUTO_PORT"

definition xd_last_error :: "xd_ctx \<Rightarrow> string" where
  "xd_last_error c = xc_err c"

subsection \<open>Readings and settings\<close>

definition xd_listed :: "(nat \<Rightarrow> string) \<Rightarrow> nat \<Rightarrow> string list" where
  "xd_listed f n = map (\<lambda>i. (if i = 0 then [] else '','') @ f i) [0 ..< n]"

definition xd_reading_head :: "xd_ctx \<Rightarrow> string" where
  "xd_reading_head c =
     (let r = xc_rt c in
      ''{\"pack_voltage_v\":'' @ fmt_f 2 (pack_voltage_v r) @ '',\"current_a\":'' @ fmt_f 2 (current_a r) @
      '',\"power_w\":'' @ fmt_f 1 (pack_voltage_v r * current_a r) @ '',\"soc_pct\":'' @ fmt_f 2 (soc_pct r) @
      '',\"soh_pct\":'' @ fmt_f 2 (soh_pct r) @ '',\"cell_count\":'' @ nat_digits (unat (cell_count r)) @
      '',\"full_capacity_ah\":'' @ fmt_f 2 (full_capacity_ah r) @
      '',\"remaining_capacity_ah\":'' @ fmt_f 2 (remaining_capacity_ah r) @ '',\"cycles\":'' @ nat_digits (unat (cycles r)) @
      '',\"firmware\":\"'' @ xc_firmware c @ ''\",\"barcode\":\"'' @ xc_barcode c @ ''\",\"cell_voltages_v\":['')"

definition xd_reading_pieces :: "xd_ctx \<Rightarrow> string list" where
  "xd_reading_pieces c =
     (let r = xc_rt c; n = unat (cell_count r); t = unat (temp_count r) in
      [xd_reading_head c] @ xd_listed (\<lambda>i. fmt_f 3 (cell_voltages_v r ! i)) n @
      [''],\"cell_balancing\":[''] @ xd_listed (\<lambda>i. bool_text (cell_balancing r ! i)) n @
      [''],\"cells\":[''] @
      xd_listed (\<lambda>i. ''{\"index\":'' @ nat_digits (i + 1) @ '',\"voltage_v\":'' @ fmt_f 3 (cell_voltages_v r ! i) @
        '',\"balancing\":'' @ bool_text (cell_balancing r ! i) @ ''}'') n @
      [''],\"temperatures_c\":[''] @ xd_listed (\<lambda>i. fmt_f 1 (temperatures_c r ! i)) t @
      [''],\"temp_labels\":[''] @ map (\<lambda>i. if i = 0 then ''\"MOS\"'' else '',\"T'' @ nat_digits i @ ''\"'') [0 ..< t] @ ['']}''])"

definition xd_get_reading :: "xd_ctx \<Rightarrow> nat \<Rightarrow> string option" where
  "xd_get_reading c cap =
     (if cap = 0 then None
      else if \<not> xc_have_data c then Some (c_copy cap ''{}'')
      else Some (foldl (js_append cap) [] (xd_reading_pieces c)))"

definition xd_get_settings :: "xd_ctx \<Rightarrow> nat \<Rightarrow> string option" where
  "xd_get_settings c cap =
     (if cap = 0 then None
      else Some (c_copy cap (''{\"usb.path\":\"'' @ xc_path c @ ''\",\"usb.serial_id\":\"'' @ xc_serial_id c @
        ''\",\"usb.by_id\":\"'' @ xc_by_id c @ ''\",\"usb.baud\":'' @ dec_int (xc_baud c) @ '',\"usb.addr\":'' @ dec_int (xc_addr c) @
        '',\"usb.auto_port\":'' @ bool_text (xc_auto_port c) @ '',\"poll_interval_s\":'' @ fmt_fx 1 (xc_poll_interval_s c) @ ''}'')))"

definition xd_put_settings :: "xd_ctx \<Rightarrow> string \<Rightarrow> int \<times> string \<times> xd_ctx" where
  "xd_put_settings c json =
     (let usb = json_usb_scope json; iv = json_double json ''poll_interval_s'' (XFin (-1)) in
      if XFin 0 \<le> iv \<and> iv < XFin XD_POLL_MIN then (MF_ERR_INVAL, ''poll_interval_s below '' @ fmt_f 1 XD_POLL_MIN, c)
      else
        let c = (if XFin 0 \<le> iv then c\<lparr>xc_poll_interval_s := iv\<rparr> else c);
            baud = json_int usb ''baud'' (-1);
            c = (if json_find_key usb ''baud'' \<noteq> None \<and> 0 < baud then c\<lparr>xc_baud := baud\<rparr> else c);
            addr = json_int usb ''addr'' (-1);
            c = (if json_find_key usb ''addr'' \<noteq> None \<and> 0 < addr \<and> addr \<le> 255 then c\<lparr>xc_addr := addr\<rparr> else c);
            c = (if json_find_key usb ''auto_port'' \<noteq> None
                 then c\<lparr>xc_auto_port := json_bool usb ''auto_port'' (xc_auto_port c)\<rparr> else c)
        in (MF_OK, [], c))"

definition xd_action :: "int \<times> string" where
  "xd_action = (MF_ERR_UNSUPPORTED, ''unsupported'')"

definition xd_probe_start :: "int \<times> string" where
  "xd_probe_start = (-1, ''usb probe is PR-12'')"

definition xd_probe_step :: mf_step where
  "xd_probe_step = MF_STEP_ERROR"

definition xd_probe_result :: "int \<times> string" where
  "xd_probe_result = (-1, ''{\"status\":\"error\",\"results\":[]}'')"

end
