(* ===== verification/XdDriver.thy ===== *)
theory XdDriver
  imports XdPlugin
begin

section \<open>The XD battery driver: what it sends and what it reports\<close>

text \<open>
  In every reachable context the exchange under way is a reachable state of the request/response
  machine for one of the three reading commands; so a published reading comes from a checked
  frame. And a port that is open is never given up.
\<close>

text \<open>The invariant: an active exchange belongs to the command phase, on an open port.\<close>

definition xd_ok :: "xd_ctx \<Rightarrow> bool" where
  "xd_ok c \<longleftrightarrow> (xc_io_active c \<longrightarrow> xc_fd c \<noteq> None \<and>
     (\<exists>addr. txrx_reachable addr (cmd_for_phase (xc_cmd_phase c)) (xc_io c)))"

lemma xd_set_err_simps [simp]:
  "xc_fd (xd_set_err c m) = xc_fd c" "xc_io_active (xd_set_err c m) = xc_io_active c"
  "xc_io (xd_set_err c m) = xc_io c" "xc_cmd_phase (xd_set_err c m) = xc_cmd_phase c"
  "xc_rt (xd_set_err c m) = xc_rt c" "xc_path (xd_set_err c m) = xc_path c"
  "xc_have_data (xd_set_err c m) = xc_have_data c"
  by (simp_all add: xd_set_err_def)

lemma take_identity_simps [simp]:
  "xc_fd (take_identity g c) = xc_fd c" "xc_io_active (take_identity g c) = xc_io_active c"
  "xc_io (take_identity g c) = xc_io c" "xc_cmd_phase (take_identity g c) = xc_cmd_phase c"
  by (simp_all add: take_identity_def Let_def)

lemma start_cmd_ok: "xc_fd c \<noteq> None \<Longrightarrow> xd_ok (start_cmd c phase e)"
  by (auto simp: xd_ok_def start_cmd_def intro: txrx_start)

lemma start_cmd_simps [simp]:
  "xc_fd (start_cmd c phase e) = xc_fd c" "xc_io_active (start_cmd c phase e)"
  "xc_cmd_phase (start_cmd c phase e) = phase" "xc_path (start_cmd c phase e) = xc_path c"
  "xc_have_data (start_cmd c phase e) = xc_have_data c"
  by (simp_all add: start_cmd_def)

text \<open>Without a port nothing is active, whatever opening and the policy do.\<close>

lemma try_open_io: "try_open_fd c e = (b, c', e') \<Longrightarrow> xc_io_active c' = xc_io_active c \<and> (b \<longrightarrow> xc_fd c' \<noteq> None)"
  by (auto simp: try_open_fd_def Let_def split: if_splits option.splits prod.splits)

lemma xd_drop_io: "xd_drop_fd c e = (c', e') \<Longrightarrow> \<not> xc_io_active c \<Longrightarrow> \<not> xc_io_active c'"
  by (auto simp: xd_drop_fd_def split: option.splits)

lemma policy_io:
  assumes "apply_usb_policy c opened e = (b, c', e')" and "\<not> xc_io_active c" and "opened \<longrightarrow> xc_fd c \<noteq> None"
  shows "\<not> xc_io_active c' \<and> (b \<and> opened \<longrightarrow> xc_fd c' \<noteq> None)"
proof -
  obtain rc got ring where r: "mf_usb_resolve (xe_fs e) (xc_uuid c) \<lparr>uw_path = c_copy 128 (xc_path c),
      uw_serial_id = c_copy 64 (xc_serial_id c), uw_by_id = c_copy 256 (xc_by_id c),
      uw_auto_port = xc_auto_port c, uw_path_ok = opened\<rparr> (xe_ring e) = (rc, got, ring)"
    using prod_cases3 by blast
  obtain c1 e1 where d: "xd_drop_fd c (e\<lparr>xe_ring := ring\<rparr>) = (c1, e1)" by fastforce
  have c1: "\<not> xc_io_active c1" using xd_drop_io [OF d] assms(2) .
  show ?thesis
    using assms c1 unfolding apply_usb_policy_def Let_def r prod.case d
    by (auto dest: try_open_io split: usb_decision.splits if_splits)
qed

lemma xd_connect_io: "xd_connect c e = (b, c', e') \<Longrightarrow> \<not> xc_io_active c \<Longrightarrow> \<not> xc_io_active c' \<and> (b \<longrightarrow> xc_fd c' \<noteq> None)"
proof -
  assume a: "xd_connect c e = (b, c', e')" "\<not> xc_io_active c"
  obtain b1 c1 e1 where t: "try_open_fd c e = (b1, c1, e1)" using prod_cases3 by blast
  obtain b2 c2 e2 where p: "apply_usb_policy c1 b1 e1 = (b2, c2, e2)" using prod_cases3 by blast
  have "\<not> xc_io_active c1" "b1 \<longrightarrow> xc_fd c1 \<noteq> None" using try_open_io [OF t] a(2) by simp_all
  from policy_io [OF p this] show ?thesis using a(1) t p by (cases b1) (auto simp: xd_connect_def)
qed

lemma idle_ok: "\<not> xc_io_active c \<Longrightarrow> xd_ok c"
  by (simp add: xd_ok_def)

lemma xd_done_idle: "xd_done c now = (r, c') \<Longrightarrow> xc_io_active c' = xc_io_active c \<and> xc_fd c' = xc_fd c \<and> xc_io c' = xc_io c \<and>
    xc_path c' = xc_path c \<and> (xc_have_data c \<longrightarrow> xc_have_data c')"
  by (auto simp: xd_done_def Let_def split: xd_cmd.splits prod.splits if_splits)

lemma xd_exchange_ok:
  assumes "xd_ok c" and "xc_io_active c" and "xd_exchange c e = (r, c', e')"
  shows "xd_ok c'" and "xc_fd c' = xc_fd c" and "xc_path c' = xc_path c" and "xc_have_data c \<longrightarrow> xc_have_data c'"
    and "xe_closed e' = xe_closed e" and "xe_ring e' = xe_ring e"
proof -
  obtain addr where reach: "txrx_reachable addr (cmd_for_phase (xc_cmd_phase c)) (xc_io c)" and fd: "xc_fd c \<noteq> None"
    using assms(1,2) by (auto simp: xd_ok_def)
  obtain s io be where s: "bms_txrx_step (xc_io c) (xe_bms e) = (s, io, be)" using prod_cases3 by blast
  have "txrx_reachable addr (cmd_for_phase (xc_cmd_phase c)) io" using txrx_next [OF reach s] .
  then have wait: "xd_ok (c\<lparr>xc_io := io\<rparr>)" "xd_ok (c\<lparr>xc_io := io, xc_want_read := True\<rparr>)" "xd_ok (c\<lparr>xc_io := io, xc_want_write := True\<rparr>)"
    using fd assms(2) by (auto simp: xd_ok_def)
  obtain r1 c1 where d: "xd_done (c\<lparr>xc_io := io, xc_io_active := False\<rparr>) (xe_now e) = (r1, c1)" by fastforce
  note dn = xd_done_idle [OF d]
  show "xd_ok c'" "xc_fd c' = xc_fd c" "xc_path c' = xc_path c" "xc_have_data c \<longrightarrow> xc_have_data c'"
      "xe_closed e' = xe_closed e" "xe_ring e' = xe_ring e"
    using assms(3) wait dn d unfolding xd_exchange_def s Let_def prod.case
    by (auto simp: idle_ok split: bms_io.splits prod.splits)
qed

lemma xd_open_ok: "xd_open spec e = (m, c, e') \<Longrightarrow> xd_ok c"
proof -
  assume o: "xd_open spec e = (m, c, e')"
  obtain c0 where c0: "\<not> xc_io_active c0"
    "xd_open spec e = (case xd_connect c0 e of (True, c, e) \<Rightarrow> ([], start_cmd c CMD_FW e, e)
         | (False, c, e) \<Rightarrow> (xc_err c, c\<lparr>xc_reopen_at := XFin (xe_now e) + xc_poll_interval_s c\<rparr>, e))"
    by (rule that [OF _ xd_open_def [THEN trans, unfolded Let_def, OF refl]]) (simp add: xd_ctx_zero_def)
  obtain b c1 e1 where n: "xd_connect c0 e = (b, c1, e1)" using prod_cases3 by blast
  have "\<not> xc_io_active c1" "b \<longrightarrow> xc_fd c1 \<noteq> None" using xd_connect_io [OF n c0(1)] by simp_all
  then show ?thesis using o unfolding c0(2) n by (cases b) (auto simp: start_cmd_ok idle_ok)
qed

subsection \<open>The step\<close>

abbreviation xd_unmask :: "xd_ctx \<Rightarrow> xd_ctx" where
  "xd_unmask c \<equiv> c\<lparr>xc_want_read := False, xc_want_write := False\<rparr>"

lemma xd_step_open_port:
  "xc_fd c \<noteq> None \<Longrightarrow> xd_step c e =
     (if xc_io_active c then xd_exchange (xd_unmask c) e
      else if XFin (xe_now e) < xc_next_poll c then (MF_STEP_IDLE, xd_unmask c, e)
      else xd_exchange (start_cmd (xd_unmask c) (xc_cmd_phase c) e) e)"
  by (auto simp: xd_step_def Let_def)

lemma xd_step_no_port:
  "xc_fd c = None \<Longrightarrow> xd_connect (xd_unmask c) e = (b, c1, e1) \<Longrightarrow> xd_step c e =
     (if XFin (xe_now e) < xc_reopen_at c then (MF_STEP_IDLE, xd_unmask c, e)
      else if b then xd_exchange (start_cmd c1 CMD_FW e1) e1
      else (MF_STEP_ERROR, c1\<lparr>xc_reopen_at := XFin (xe_now e) + xc_poll_interval_s c1\<rparr>, e1))"
  by (simp add: xd_step_def Let_def)

lemma xd_unmask_ok: "xd_ok (xd_unmask c) = xd_ok c"
  by (simp add: xd_ok_def)

lemma xd_step_cases:
  assumes "xd_ok c" and "xd_step c e = (r, c', e')"
  obtains (idle) "c' = xd_unmask c" "e' = e" "r = MF_STEP_IDLE"
  | (refused) "\<not> xc_io_active c'" "r = MF_STEP_ERROR" "xc_fd c = None"
  | (turn) d f where "xd_ok d" "xc_io_active d" "xd_exchange d f = (r, c', e')"
      "xc_fd c \<noteq> None \<Longrightarrow> xc_fd d = xc_fd c \<and> xc_path d = xc_path c \<and> xc_have_data d = xc_have_data c \<and> f = e"
proof (cases "xc_fd c = None")
  case True
  then have na: "\<not> xc_io_active (xd_unmask c)" using assms(1) by (simp add: xd_ok_def)
  obtain b c1 e1 where n: "xd_connect (xd_unmask c) e = (b, c1, e1)" using prod_cases3 by blast
  note io = xd_connect_io [OF n na]
  show thesis
  proof (cases "XFin (xe_now e) < xc_reopen_at c")
    case True
    then show thesis using idle assms(2) xd_step_no_port [OF \<open>xc_fd c = None\<close> n] by simp
  next
    case now: False
    show thesis
    proof (cases b)
      case True
      then show thesis
        using turn [of "start_cmd c1 CMD_FW e1" e1] assms(2) xd_step_no_port [OF \<open>xc_fd c = None\<close> n] now io
          start_cmd_ok \<open>xc_fd c = None\<close> by simp
    next
      case False
      then show thesis
        using refused assms(2) xd_step_no_port [OF \<open>xc_fd c = None\<close> n] now io \<open>xc_fd c = None\<close> by auto
    qed
  qed
next
  case False
  note step = xd_step_open_port [OF False, of e]
  consider "xc_io_active c" | "\<not> xc_io_active c" "XFin (xe_now e) < xc_next_poll c" | "\<not> xc_io_active c" "\<not> XFin (xe_now e) < xc_next_poll c"
    by blast
  then show thesis
  proof cases
    case 1
    then show thesis using turn [of "xd_unmask c" e] assms step by (simp add: xd_unmask_ok)
  next
    case 2
    then show thesis using idle assms(2) step by simp
  next
    case 3
    have "xc_fd (xd_unmask c) \<noteq> None" using False by simp
    then show thesis
      using 3 turn [of "start_cmd (xd_unmask c) (xc_cmd_phase c) e" e] assms(2) step start_cmd_ok by simp
  qed
qed

lemma xd_step_ok:
  assumes "xd_ok c" and "xd_step c e = (r, c', e')"
  shows "xd_ok c'"
  using assms
proof (cases rule: xd_step_cases)
  case idle
  then show ?thesis using assms(1) by (simp add: xd_unmask_ok)
next
  case refused
  then show ?thesis by (simp add: idle_ok)
next
  case (turn d f)
  then show ?thesis using xd_exchange_ok(1) by blast
qed

inductive xd_reach :: "xd_ctx \<Rightarrow> bool" where
  xd_reach_open: "xd_open spec e = (msg, c, e') \<Longrightarrow> xd_reach c"
| xd_reach_step: "xd_reach c \<Longrightarrow> xd_step c e = (r, c', e') \<Longrightarrow> xd_reach c'"
| xd_reach_put: "xd_reach c \<Longrightarrow> xd_put_settings c json = (rc, msg, c') \<Longrightarrow> xd_reach c'"

lemma xd_put_ok: "xd_ok c \<Longrightarrow> xd_put_settings c json = (rc, msg, c') \<Longrightarrow> xd_ok c'"
  by (auto simp: xd_put_settings_def Let_def xd_ok_def split: if_splits)

lemma xd_reach_ok: "xd_reach c \<Longrightarrow> xd_ok c"
proof (induction rule: xd_reach.induct)
  case (xd_reach_open spec e msg c e')
  then show ?case by (rule xd_open_ok)
next
  case (xd_reach_step c e r c' e')
  then show ?case using xd_step_ok by blast
next
  case (xd_reach_put c json rc msg c')
  then show ?case using xd_put_ok by blast
qed

lemma exchange_done:
  assumes "xd_ok c" and "xc_io_active c" and "xd_exchange c e = (MF_STEP_UPDATED, c', e')"
  obtains addr be where "txrx_reachable addr 0x01 (xc_io c)" "bms_txrx_step (xc_io c) (xe_bms e) = (BMS_IO_DONE, xc_io c', be)"
    "bms_parse_realtime (body_buffer (rx_body (xc_io c'))) (length (rx_body (xc_io c'))) (xc_rt c) = (0, xc_rt c')"
    "xc_have_data c'"
proof -
  obtain addr where reach: "txrx_reachable addr (cmd_for_phase (xc_cmd_phase c)) (xc_io c)"
    using assms(1,2) by (auto simp: xd_ok_def)
  obtain s io be where s: "bms_txrx_step (xc_io c) (xe_bms e) = (s, io, be)" using prod_cases3 by blast
  let ?c = "c\<lparr>xc_io := io, xc_io_active := False\<rparr>"
  have done_: "s = BMS_IO_DONE" "xd_done ?c (xe_now e) = (MF_STEP_UPDATED, c')"
    using assms(3) unfolding xd_exchange_def s Let_def prod.case by (auto split: bms_io.splits prod.splits)
  obtain rc rt where p: "bms_parse_realtime (body_buffer (rx_body io)) (length (rx_body io)) (xc_rt c) = (rc, rt)" by fastforce
  have "xc_cmd_phase c = CMD_POLL" "rc = 0" "xc_rt c' = rt" "xc_io c' = io" "xc_have_data c'"
    using done_(2) p by (auto simp: xd_done_def Let_def split: xd_cmd.splits if_splits)
  then show thesis using that [of addr be] reach s done_(1) p by (simp add: cmd_for_phase_def)
qed

text \<open>
  C5: A reading is published only from a checked answer to the poll command: when a step of a reachable
  context reports an update, the exchange has received, byte for byte, a well-formed frame of
  command 0x01, and the reading is what its payload parses to.
\<close>

theorem xd_update_checked:
  assumes "xd_reach c" and "xd_step c e = (MF_STEP_UPDATED, c', e')"
  shows "\<exists>addr body rt0. rx_head (xc_io c') @ rx_tail (xc_io c') = bms_build_frame addr 0x01 body \<and>
    bms_parse_realtime (body_buffer body) (length body) rt0 = (0, xc_rt c') \<and>
    xd_get_reading c' 8192 = Some (c_copy 8192 (concat (xd_reading_pieces c')))"
proof -
  from xd_reach_ok [OF assms(1)] assms(2)
  show ?thesis
  proof (cases rule: xd_step_cases)
    case (turn d f)
    from exchange_done [OF turn(1-3)] obtain addr be
      where x: "txrx_reachable addr 0x01 (xc_io d)" "bms_txrx_step (xc_io d) (xe_bms f) = (BMS_IO_DONE, xc_io c', be)"
        "bms_parse_realtime (body_buffer (rx_body (xc_io c'))) (length (rx_body (xc_io c'))) (xc_rt d) = (0, xc_rt c')"
        "xc_have_data c'" by blast
    have "rx_head (xc_io c') @ rx_tail (xc_io c') = bms_build_frame addr 0x01 (rx_body (xc_io c'))"
      using bms_done_frame [OF x(1,2)] .
    then show ?thesis using x(3,4) by (auto simp: xd_get_reading_def js_append_fold)
  qed simp_all
qed

subsection \<open>An open port is kept\<close>

definition xd_turns :: "xd_env list \<Rightarrow> xd_ctx \<Rightarrow> xd_ctx" where
  "xd_turns es c = fold (\<lambda>e c. fst (snd (xd_step c e))) es c"

lemma xd_step_keeps:
  assumes "xd_ok c" and "xc_fd c \<noteq> None" and "xd_step c e = (r, c', e')"
  shows "xc_fd c' = xc_fd c \<and> xc_path c' = xc_path c \<and> (xc_have_data c \<longrightarrow> xc_have_data c') \<and>
    xe_closed e' = xe_closed e \<and> xe_ring e' = xe_ring e"
  using assms(1,3)
proof (cases rule: xd_step_cases)
  case (turn d f)
  then show ?thesis using xd_exchange_ok [OF turn(1-3)] assms(2) by metis
qed (use assms(2) in simp_all)

text \<open>
  C35: Once its port is open, the driver never looks for the adapter again: through any number of steps,
  whatever the line, the adapters and the clock answer (every exchange may fail), it keeps the
  descriptor and the path, publishes no endpoint event, and goes on offering the last reading.
\<close>

theorem xd_port_never_reopened:
  assumes "xd_reach c" and "xc_fd c = Some k"
  shows "xc_fd (xd_turns es c) = Some k \<and> xc_path (xd_turns es c) = xc_path c \<and>
    (xc_have_data c \<longrightarrow> xc_have_data (xd_turns es c)) \<and>
    (\<forall>e. xe_closed (snd (snd (xd_step (xd_turns es c) e))) = xe_closed e \<and>
         xe_ring (snd (snd (xd_step (xd_turns es c) e))) = xe_ring e)"
proof -
  have keep: "xc_fd (fst (snd (xd_step d e))) = xc_fd d \<and> xc_path (fst (snd (xd_step d e))) = xc_path d \<and>
      (xc_have_data d \<longrightarrow> xc_have_data (fst (snd (xd_step d e)))) \<and> xd_ok (fst (snd (xd_step d e))) \<and>
      xe_closed (snd (snd (xd_step d e))) = xe_closed e \<and> xe_ring (snd (snd (xd_step d e))) = xe_ring e"
    if "xd_ok d" "xc_fd d = Some k" for d e
    using that xd_step_keeps [of d e "fst (xd_step d e)" "fst (snd (xd_step d e))" "snd (snd (xd_step d e))"]
      xd_step_ok [of d e "fst (xd_step d e)" "fst (snd (xd_step d e))" "snd (snd (xd_step d e))"] by simp
  have "xd_ok (xd_turns es c) \<and> xc_fd (xd_turns es c) = Some k \<and> xc_path (xd_turns es c) = xc_path c \<and>
      (xc_have_data c \<longrightarrow> xc_have_data (xd_turns es c))"
    using xd_reach_ok [OF assms(1)] assms(2)
  proof (induction es arbitrary: c)
    case (Cons e es)
    then show ?case using keep [OF Cons.prems, of e] Cons.IH [of "fst (snd (xd_step c e))"] by (simp add: xd_turns_def)
  qed (simp add: xd_turns_def)
  then show ?thesis using keep by blast
qed

subsection \<open>Concrete contexts\<close>

definition xd_quiet_fs :: usb_fs where
  "xd_quiet_fs = \<lparr>fs_by_id = None, fs_device = (\<lambda>_. False), fs_serial = (\<lambda>_. None), fs_vendor = (\<lambda>_. None), fs_product = (\<lambda>_. None)\<rparr>"

definition xd_env_at :: "cdouble \<Rightarrow> wr_event list \<Rightarrow> rd_event list \<Rightarrow> xd_env" where
  "xd_env_at t ws rs = \<lparr>xe_now = t, xe_serial = (\<lambda>_. \<lparr>so_open = Some 5, so_getattr = True, so_setattr = True, so_errno = []\<rparr>),
     xe_fs = xd_quiet_fs, xe_ring = mf_endpoint_reset,
     xe_bms = \<lparr>now0 = t, now1 = t, now2 = t + 1, wr = ws, rd = rs\<rparr>, xe_strerror = [], xe_closed = []\<rparr>"

definition xd_spec :: string where
  "xd_spec = ''{\"usb\":{\"path\":\"/dev/ttyUSB0\"},\"poll_interval_s\":1}''"

definition xd_opened :: xd_ctx where
  "xd_opened = fst (snd (xd_open xd_spec (xd_env_at 10 [] [])))"

lemma xd_opened_reach: "xd_reach xd_opened"
proof -
  obtain m c e where "xd_open xd_spec (xd_env_at 10 [] []) = (m, c, e)" using prod_cases3 by blast
  then show ?thesis using xd_reach_open by (simp add: xd_opened_def)
qed

text \<open>Three turns: firmware, barcode, and the reading of the sample payload.\<close>

definition xd_asked :: xd_ctx where
  "xd_asked = xd_turns [xd_env_at 10 [WrAccept 6] [RdData (bms_build_frame 1 0x33 [0x41])],
     xd_env_at 11 [WrAccept 6] [RdData (bms_build_frame 1 0x42 [0x42])]] xd_opened"

lemma xd_turns_reach: "xd_reach c \<Longrightarrow> xd_reach (xd_turns es c)"
proof (induction es arbitrary: c)
  case (Cons e es)
  have "xd_reach (fst (snd (xd_step c e)))" using xd_reach_step [OF Cons.prems, of e] by (metis prod.collapse)
  then show ?case using Cons.IH by (simp add: xd_turns_def)
qed (simp add: xd_turns_def)

definition xd_env_poll :: xd_env where
  "xd_env_poll = xd_env_at 12 [WrAccept 6] [RdData (bms_build_frame 1 0x01 sample_payload)]"

lemma sample_parses: "fst (bms_parse_realtime (body_buffer sample_payload) (length sample_payload) r) = 0"
  by (simp add: bms_parse_realtime_def Let_def body_buffer_def sample_payload_def parse_temp_count_def
      BMS_MAX_CELLS_def BMS_MAX_TEMPS_def)

lemma poll_exchange:
  "fst (bms_txrx_step (bms_txrx_init 1 0x01 [] IO_TIMEOUT_S TX_SETTLE_S 12) (xe_bms xd_env_poll)) = BMS_IO_DONE"
  "rx_body (fst (snd (bms_txrx_step (bms_txrx_init 1 0x01 [] IO_TIMEOUT_S TX_SETTLE_S 12) (xe_bms xd_env_poll)))) = sample_payload"
  by code_simp+

lemma xd_asked_polls:
  "xc_fd xd_asked = Some 5" "\<not> xc_io_active xd_asked" "xc_next_poll xd_asked = XFin 11" "xc_cmd_phase xd_asked = CMD_POLL"
  "xc_addr xd_asked = 1"
  by code_simp+

lemma done_parses:
  "xc_cmd_phase c = CMD_POLL \<Longrightarrow>
   fst (bms_parse_realtime (body_buffer (rx_body (xc_io c))) (length (rx_body (xc_io c))) (xc_rt c)) = 0 \<Longrightarrow>
   fst (xd_done c now) = MF_STEP_UPDATED"
  by (auto simp: xd_done_def Let_def split: prod.split)

lemma exchange_finishes:
  "bms_txrx_step (xc_io c) (xe_bms e) = (BMS_IO_DONE, io, be) \<Longrightarrow>
   fst (xd_exchange c e) = fst (xd_done (c\<lparr>xc_io := io, xc_io_active := False\<rparr>) (xe_now e))"
  by (simp add: xd_exchange_def Let_def split: prod.split)

lemma env_poll_clock: "xe_now xd_env_poll = 12" "now0 (xe_bms xd_env_poll) = 12"
  by (simp_all add: xd_env_poll_def xd_env_at_def)

abbreviation xd_polling :: xd_ctx where
  "xd_polling \<equiv> start_cmd (xd_unmask xd_asked) CMD_POLL xd_env_poll"

lemma xd_polling_step: "xd_step xd_asked xd_env_poll = xd_exchange xd_polling xd_env_poll"
proof -
  have "xc_fd xd_asked \<noteq> None" by (simp add: xd_asked_polls)
  from xd_step_open_port [OF this, of xd_env_poll] show ?thesis
    by (simp add: xd_asked_polls env_poll_clock)
qed

lemma xd_polling_io: "xc_io xd_polling = bms_txrx_init 1 0x01 [] IO_TIMEOUT_S TX_SETTLE_S 12"
  using xd_asked_polls(5) env_poll_clock(2) by (simp add: start_cmd_def cmd_for_phase_def)

lemma xd_asked_updates: "fst (xd_step xd_asked xd_env_poll) = MF_STEP_UPDATED"
proof -
  obtain s io' be where s: "bms_txrx_step (xc_io xd_polling) (xe_bms xd_env_poll) = (s, io', be)" using prod_cases3 by blast
  have d: "s = BMS_IO_DONE" "rx_body io' = sample_payload"
    using poll_exchange s unfolding xd_polling_io by simp_all
  let ?c = "xd_polling\<lparr>xc_io := io', xc_io_active := False\<rparr>"
  have "xc_cmd_phase ?c = CMD_POLL" "rx_body (xc_io ?c) = sample_payload" by (simp_all add: d(2))
  then have "fst (xd_done ?c (xe_now xd_env_poll)) = MF_STEP_UPDATED"
    by (intro done_parses) (simp_all only: sample_parses)
  then show ?thesis unfolding xd_polling_step exchange_finishes [OF s [unfolded d(1)]] .
qed

theorem xd_update_checked_witness:
  "\<exists>addr body rt0 c'. c' = fst (snd (xd_step xd_asked xd_env_poll)) \<and>
    rx_head (xc_io c') @ rx_tail (xc_io c') = bms_build_frame addr 0x01 body \<and>
    bms_parse_realtime (body_buffer body) (length body) rt0 = (0, xc_rt c')"
proof -
  obtain r c' e' where s: "xd_step xd_asked xd_env_poll = (r, c', e')" using prod_cases3 by blast
  then have "xd_step xd_asked xd_env_poll = (MF_STEP_UPDATED, c', e')" using xd_asked_updates by simp
  moreover have "xd_reach xd_asked" unfolding xd_asked_def by (rule xd_turns_reach [OF xd_opened_reach])
  ultimately show ?thesis using xd_update_checked [of xd_asked xd_env_poll c' e'] s by auto
qed

theorem xd_port_never_reopened_witness:
  "xc_fd (xd_turns [xd_env_at 10 [WrFail] [], xd_env_at 20 [WrFail] []] xd_opened) = Some 5"
proof -
  have "xc_fd xd_opened = Some 5" by code_simp
  then show ?thesis using xd_port_never_reopened [OF xd_opened_reach] by blast
qed

end
