(* ===== verification/Spec2Isabelle.thy ===== *)
theory Spec2Isabelle
  imports XdProto XdRealtime MagTables MagFrame MagStream MagSafety MagDecode MagJson MagPlugin MagTap
    MagBus MagServe JkProto JkAssembler JkDecode ClassicCodec ClassicPlugin ClassicSafety ClassicReading
    SystemTotals Doubles CText Json Average Phantom UsbId Textbelt Secret Config
    ConfigDoc ConfigStore CliAddr Loader DeviceTable DeviceSteps DeviceOps DeviceReach DeviceSafety
    DeviceConfig DeviceFollow DeviceRules DeviceQueue DeviceServe DeviceRequests DeviceExamples
    HttpServer HttpClient HttpSafety HttpExchange HttpServe Sockets PluginApi JkPlugin JkDriver JkLines JkReading JkSafety
    JkFaults JkExamples XdPlugin XdDriver
begin

text \<open>
  A verification library for Moon-Flare, a daemon that reads batteries, charge controllers and
  inverters over serial lines, Bluetooth and Modbus, keeps their readings and serves them over HTTP.
  All paths below are under \<open>src/src/\<close> of the repository.

  \<^bold>\<open>The program.\<close> The daemon has a table of devices (\<open>device/device.c\<close>), filled from a configuration
  (\<open>config/config.c\<close>). Each device is driven by a plugin found in a registry (\<open>plugin/loader.c\<close>); a
  plugin (\<open>plugins/\<close>) keeps one context per device and is stepped by the device's thread. The plugins
  speak the XD battery protocol (\<open>xd/\<close>), the Magnum inverter bus (\<open>magnum/\<close>), the JK battery protocol
  (\<open>jk/\<close>) and that of the Classic charge controller (\<open>classic/\<close>); phantoms (\<open>phantom/\<close>) average other
  devices, and there is an SMS service (\<open>textbelt/\<close>). Readings are JSON; \<open>system/system.c\<close> adds them up.
  An HTTP server (\<open>http/http_pt.c\<close>) answers the terminal interface (\<open>tui/http_client.c\<close>) and the command
  line (\<open>cli/cli_http.c\<close>), which find it by \<open>cli/cli_addr.c\<close>. Secrets in settings are masked by
  \<open>rest/secret.c\<close>, serial adapters are followed by \<open>usb/usb_id.c\<close>.

  \<^bold>\<open>Foundations.\<close> \<open>Prelude\<close> has the machine words, field readers, C rounding and bounded copies;
  \<open>Doubles\<close> the numbers that a text can set, with infinities and NaN and the comparisons of C;
  \<open>CText\<close> the text functions of the C library that several parts call (\<open>atof\<close> with \<open>nan\<close>, \<open>inf\<close> and
  hexadecimal floats); \<open>Json\<close> the value tree of the (third-party) JSON library and its accessors; \<open>Sockets\<close> the results of reading and writing a
  non-blocking socket; \<open>PluginApi\<close> the codes of \<open>include/mf_plugin.h\<close> and the text scanning and bounded
  printing that every driver carries a copy of.

  \<^bold>\<open>Protocols.\<close> \<open>XdProto\<close> and \<open>XdRealtime\<close> model \<open>xd/bms_proto.c\<close>: frames and checksum, the blocking
  exchange, the non-blocking exchange as a state machine over scripted read and write results, the
  realtime parser. \<open>MagTables\<close>, \<open>MagFrame\<close> and \<open>MagDecode\<close> model \<open>magnum/mag_decode.c\<close> and
  \<open>magnum/mag_frame.c\<close>; \<open>MagStream\<close> shows that framing loses and reorders nothing and ends, \<open>MagSafety\<close>
  that no lone inverter packet is ever delivered. \<open>JkProto\<close>, \<open>JkAssembler\<close> and \<open>JkDecode\<close> model
  \<open>jk/jk_proto.c\<close>: commands and clamps, the reassembly of notifications, the decoders.
  \<open>ClassicCodec\<close> models \<open>classic/classic_codec.c\<close>.

  \<^bold>\<open>Drivers.\<close> \<open>JkPlugin\<close> (helper table, connection, write queue) and \<open>JkDriver\<close> (step, readings, settings)
  model \<open>plugins/battery_jk/plugin.c\<close>. \<open>JkLines\<close> shows that the line buffer delivers the helper's lines
  however they arrive, \<open>JkReading\<close> composes that with the assembler and the decoder up to the offered
  reading, \<open>JkSafety\<close> has the invariant of a context over every history of calls, \<open>JkFaults\<close> what goes
  wrong, \<open>JkExamples\<close> concrete histories. \<open>XdPlugin\<close> models \<open>plugins/battery_xd/plugin.c\<close> over the exchange
  of \<open>XdProto\<close> and the policy of \<open>UsbId\<close>; \<open>XdDriver\<close> shows what an update offers. \<open>MagJson\<close> and
  \<open>MagPlugin\<close> model \<open>magnum/mag_json.c\<close>, \<open>magnum/mag_tty.c\<close> and \<open>plugins/inverter_magnum/plugin.c\<close>:
  \<open>MagTap\<close> has the invariant of a tap over its history, \<open>MagBus\<close> shows that a clean bus is delivered
  completely and \<open>MagServe\<close> that a tap reading it holds the inverter's values. \<open>ClassicPlugin\<close> models
  \<open>plugins/charger_classic/plugin.c\<close>, a Modbus client over the sockets of \<open>Sockets\<close>; \<open>ClassicSafety\<close> shows
  that it only ever reads and loses no socket, \<open>ClassicReading\<close> that a controller's registers reach the
  reading however the network cuts them.

  \<^bold>\<open>Services.\<close> \<open>SystemTotals\<close> (\<open>system/system.c\<close>), \<open>Average\<close> and \<open>Phantom\<close> (\<open>phantom/\<close>), \<open>UsbId\<close>
  (\<open>usb/usb_id.c\<close>), \<open>Textbelt\<close> (\<open>textbelt/tb.c\<close>) and \<open>Secret\<close> (\<open>rest/secret.c\<close>).

  \<^bold>\<open>HTTP.\<close> \<open>HttpServer\<close> models \<open>http/http_pt.c\<close>: one connection's loop, the accepting thread, rebinding and
  shutdown. \<open>HttpClient\<close> models the two clients. \<open>HttpSafety\<close> accounts for every socket, \<open>HttpServe\<close>
  follows a request through the server in arbitrary pieces, \<open>HttpExchange\<close> reads the server's reply back
  with either client.

  \<^bold>\<open>Configuration.\<close> \<open>Config\<close> has the documents (\<open>apply\<close> and \<open>to_json\<close>), \<open>ConfigDoc\<close> that whatever is
  loaded is within its buffers and that saving and loading is the identity, \<open>ConfigStore\<close> the files: the
  atomic save as the sequence of file system states it passes through, and the overlay of older
  daemons. \<open>CliAddr\<close> has the client's profiles and its address parser.

  \<^bold>\<open>Device table.\<close> \<open>Loader\<close> models the plugin registry, \<open>DeviceTable\<close> every operation of
  \<open>device/device.c\<close> on the 32 slots and the queue of waiting devices; calls that leave the table are
  recorded in a log, what plugins answer is an argument. \<open>DeviceSteps\<close> and \<open>DeviceOps\<close> break the
  operations into elementary steps, \<open>DeviceReach\<close> has the reachable tables and the interface by which
  invariants are transferred, \<open>DeviceSafety\<close>, \<open>DeviceConfig\<close>, \<open>DeviceFollow\<close>, \<open>DeviceRules\<close>,
  \<open>DeviceQueue\<close>, \<open>DeviceServe\<close> and \<open>DeviceRequests\<close> the properties, \<open>DeviceExamples\<close> concrete tables they
  apply to.

  \<^bold>\<open>Interfaces.\<close> Locales state what one part relies on in another: \<open>bounded_queue\<close> in \<open>UsbId\<close> (the
  endpoint ring), \<open>packet_sink\<close> in \<open>MagDecode\<close> (whoever receives packets), \<open>frame_invariant\<close> in
  \<open>MagStream\<close> (what every step of the framer keeps) and \<open>table_law\<close> in \<open>DeviceReach\<close> (what every call on
  the table keeps). Each is interpreted on the model of the code.

  \<^bold>\<open>Bounds and fuel.\<close> Buffer sizes are the constants of the code: 512 bytes of JK frames, 4096 of helper
  lines, six queued writes, sixteen endpoint events, the request and reply sizes of HTTP. Loops that the code
  leaves open (the Magnum feeding loop, the read loops of the exchanges) are partial functions or consume a scripted
  list of events; that they return is a theorem of its own (\<open>mag_feed_total\<close>,
  \<open>bms_exchange_completes\<close>, \<open>http_request_served\<close>). An exhausted script means that nothing more has
  arrived (\<open>EAGAIN\<close>). No proof depends on a fuel bound.

  \<^bold>\<open>Conventions.\<close> C's floating point numbers are exact rationals: the rounding of an operation is not
  modelled, and no property is about a sum of several of them. Where a text sets a number -- the poll
  intervals, the charge voltages of a battery, what \<open>atof\<close> returns -- it is an \<open>xdouble\<close>, which has
  the infinities and NaN, compares as C does and is cast to an integer as the processor does. A number of a
  JSON document is finite, as far as the parser reads one; the printer writes \<open>null\<close> for the others. A character array is the list of its
  characters before the NUL. A null pointer is \<open>None\<close>, a failing call returns \<open>None\<close> or \<open>Inl\<close> of an
  error. The JSON parser and printer, the file system, the clock and what hardware answers are
  parameters. The clock stands still within one call of a driver. Failures of \<open>malloc\<close> and log output are
  left out.

  \<^bold>\<open>Not modelled.\<close> Threads run one call at a time: locking is not modelled, the interleaving of calls is.
  The SMS plugin around \<open>Textbelt\<close> is left out.
  The Bluetooth helper \<open>gatt/\<close> is a D-Bus client and the history \<open>history/\<close> a set of SQL statements, third
  parties whose state the code does not hold; \<open>rest/routes.c\<close> is glue between the modelled server, table
  and configuration and that database; \<open>rest/discover.c\<close> and the probing of \<open>plugins/charger_classic/probe.c\<close>
  scan networks; the weather service depends on generated tables. The command line's printing and the
  terminal user interface draw what they are given. Process start-up, signals and crash traces are left
  out.
\<close>

end
